(* ===== verification/Molt_Prelude.thy ===== *)
theory Molt_Prelude
  imports
    Main
    "HOL-Library.Word"
    "HOL-Library.Char_ord"
    "HOL-Library.List_Lexorder"
    "HOL-Library.Product_Lexorder"
begin

text \<open>
  Shared vocabulary of the development.

  \<^item> Machine integers keep their width: \<open>u8\<close>, \<open>u32\<close>, \<open>u64\<close> are words. A Rust
    \<open>usize\<close> that only counts elements of a list is a \<open>nat\<close>.
  \<^item> A Rust \<open>String\<close>, \<open>&str\<close>, \<open>Vec<u8>\<close> or \<open>&[u8]\<close> is a list of bytes; a byte is an
    Isabelle \<open>char\<close>, so a string and the bytes it is stored as are one value
    (\<open>as_bytes\<close> is the identity) and the order on strings is the byte order Rust uses.
  \<^item> A Rust \<open>Result<T, E>\<close> is \<open>E + T\<close>: \<open>Inl\<close> carries the error, \<open>Inr\<close> the value.
    \<open>rbind\<close> is the question-mark operator, \<open>reject_if\<close> an early \<open>return Err(..)\<close>
    and \<open>rfold\<close> a loop that may return early with an error.
\<close>

section \<open>Names for the model's types\<close>

type_synonym u8 = "8 word"
type_synonym u32 = "32 word"
type_synonym u64 = "64 word"
type_synonym bytes = string

named_theorems result_simps \<open>equations of the result combinators\<close>
named_theorems codec_intros \<open>prefix codes built from prefix codes\<close>

section \<open>Results\<close>

definition rbind :: "'e + 'a \<Rightarrow> ('a \<Rightarrow> 'e + 'b) \<Rightarrow> 'e + 'b" where
  "rbind m f = (case m of Inl e \<Rightarrow> Inl e | Inr x \<Rightarrow> f x)"

definition reject_if :: "bool \<Rightarrow> 'e \<Rightarrow> 'e + unit" where
  "reject_if b e = (if b then Inl e else Inr ())"

definition ok_or :: "'e \<Rightarrow> 'a option \<Rightarrow> 'e + 'a" where
  "ok_or e x = (case x of None \<Rightarrow> Inl e | Some v \<Rightarrow> Inr v)"

definition map_err :: "('e \<Rightarrow> 'f) \<Rightarrow> 'e + 'a \<Rightarrow> 'f + 'a" where
  "map_err f m = (case m of Inl e \<Rightarrow> Inl (f e) | Inr x \<Rightarrow> Inr x)"

primrec rfold :: "('s \<Rightarrow> 'a \<Rightarrow> 'e + 's) \<Rightarrow> 's \<Rightarrow> 'a list \<Rightarrow> 'e + 's" where
  "rfold f s [] = Inr s"
| "rfold f s (x # xs) = rbind (f s x) (\<lambda>s'. rfold f s' xs)"

primrec collect :: "('a \<Rightarrow> 'e + 'b) \<Rightarrow> 'a list \<Rightarrow> 'e + 'b list" where
  "collect f [] = Inr []"
| "collect f (x # xs) = rbind (f x) (\<lambda>y. rbind (collect f xs) (\<lambda>ys. Inr (y # ys)))"

definition is_ok :: "'e + 'a \<Rightarrow> bool" where
  "is_ok m = (case m of Inl _ \<Rightarrow> False | Inr _ \<Rightarrow> True)"

lemma rbind_simps [simp, result_simps]:
  "rbind (Inl e) f = Inl e"
  "rbind (Inr x) f = f x"
  by (simp_all add: rbind_def)

lemma rbind_eq_Inr [result_simps]:
  "rbind m f = Inr y \<longleftrightarrow> (\<exists>x. m = Inr x \<and> f x = Inr y)"
  by (cases m) auto

lemma rbind_eq_Inl [result_simps]:
  "rbind m f = Inl e \<longleftrightarrow> m = Inl e \<or> (\<exists>x. m = Inr x \<and> f x = Inl e)"
  by (cases m) auto

lemma rbind_cong [fundef_cong]:
  "m = n \<Longrightarrow> (\<And>x. n = Inr x \<Longrightarrow> f x = g x) \<Longrightarrow> rbind m f = rbind n g"
  by (cases n) auto

lemma rbind_assoc: "rbind (rbind m f) g = rbind m (\<lambda>x. rbind (f x) g)"
  by (cases m) auto

lemma reject_if_eq [simp, result_simps]:
  "reject_if b e = Inr u \<longleftrightarrow> \<not> b"
  "reject_if b e = Inl e' \<longleftrightarrow> b \<and> e' = e"
  by (auto simp: reject_if_def)

lemma ok_or_simps [simp, result_simps]:
  "ok_or e None = Inl e"
  "ok_or e (Some x) = Inr x"
  by (simp_all add: ok_or_def)

lemma ok_or_eq_Inr [simp, result_simps]: "ok_or e x = Inr v \<longleftrightarrow> x = Some v"
  by (cases x) auto

lemma map_err_simps [simp, result_simps]:
  "map_err f (Inl e) = Inl (f e)"
  "map_err f (Inr x) = Inr x"
  by (simp_all add: map_err_def)

lemma map_err_eq_Inr [simp, result_simps]: "map_err f m = Inr x \<longleftrightarrow> m = Inr x"
  by (cases m) auto

lemma is_ok_simps [simp]: "is_ok (Inr x)" "\<not> is_ok (Inl e)"
  by (simp_all add: is_ok_def)

lemma is_ok_iff: "is_ok m \<longleftrightarrow> (\<exists>x. m = Inr x)"
  by (cases m) auto

lemma rfold_append: "rfold f s (xs @ ys) = rbind (rfold f s xs) (\<lambda>s'. rfold f s' ys)"
  by (induction xs arbitrary: s) (simp_all add: rbind_assoc)

lemma rfold_cong [fundef_cong]:
  "xs = ys \<Longrightarrow> s = t \<Longrightarrow> (\<And>x s. x \<in> set ys \<Longrightarrow> f s x = g s x) \<Longrightarrow> rfold f s xs = rfold g t ys"
  by (induction ys arbitrary: xs s t) (auto intro: rbind_cong)

text \<open>
  The loop rule: an invariant that every step keeps holds of the value a loop returns.
\<close>

lemma rfold_invariant:
  assumes "rfold f s xs = Inr t" and "I s"
    and "\<And>s x s'. I s \<Longrightarrow> x \<in> set xs \<Longrightarrow> f s x = Inr s' \<Longrightarrow> I s'"
  shows "I t"
  using assms
proof (induction xs arbitrary: s)
  case Nil
  then show ?case by simp
next
  case (Cons x xs)
  from Cons.prems(1) obtain s1 where s1: "f s x = Inr s1" "rfold f s1 xs = Inr t"
    by (auto simp: rbind_eq_Inr)
  have "I s1" using Cons.prems(3)[OF Cons.prems(2) _ s1(1)] by simp
  then show ?case
    by (rule Cons.IH[OF s1(2)]) (erule Cons.prems(3), auto)
qed

text \<open>
  A simulation between two loops: related states stay related, and the second loop
  succeeds wherever the first one does.
\<close>

lemma rfold_simulation:
  assumes "rfold f s xs = Inr s'" and "R s t"
    and "\<And>s t x s'. R s t \<Longrightarrow> x \<in> set xs \<Longrightarrow> f s x = Inr s' \<Longrightarrow> \<exists>t'. g t x = Inr t' \<and> R s' t'"
  shows "\<exists>t'. rfold g t xs = Inr t' \<and> R s' t'"
  using assms
proof (induction xs arbitrary: s t)
  case Nil
  then show ?case by simp
next
  case (Cons x xs)
  from Cons.prems(1) obtain s1 where s1: "f s x = Inr s1" "rfold f s1 xs = Inr s'"
    by (auto simp: rbind_eq_Inr)
  from Cons.prems(3)[OF Cons.prems(2) _ s1(1)]
  obtain t1 where t1: "g t x = Inr t1" "R s1 t1"
    by auto
  have "\<exists>t'. rfold g t1 xs = Inr t' \<and> R s' t'"
    by (rule Cons.IH[OF s1(2) t1(2)]) (erule Cons.prems(3), auto)
  with t1(1) show ?case by simp
qed

section \<open>Faults\<close>

text \<open>
  A call that can also panic (an \<open>expect\<close>, an overflow check) fails with a \<open>fault\<close>:
  \<open>Refused\<close> carries the error the code returns, \<open>Panic\<close> is the abort.
\<close>

datatype 'e fault = Refused 'e | Panic

definition or_panic :: "'a option \<Rightarrow> 'e fault + 'a" where
  "or_panic x = (case x of None \<Rightarrow> Inl Panic | Some v \<Rightarrow> Inr v)"

definition map_refusal :: "('e \<Rightarrow> 'f) \<Rightarrow> 'e fault + 'a \<Rightarrow> 'f fault + 'a" where
  "map_refusal f m = map_err (map_fault f) m"

definition refusing :: "('e \<Rightarrow> 'f) \<Rightarrow> 'e + 'a \<Rightarrow> 'f fault + 'a" where
  "refusing f m = map_err (\<lambda>e. Refused (f e)) m"

abbreviation refuse_if :: "bool \<Rightarrow> 'e \<Rightarrow> 'e fault + unit" where
  "refuse_if b e \<equiv> reject_if b (Refused e)"

lemma or_panic_simps [simp, result_simps]:
  "or_panic None = Inl Panic"
  "or_panic (Some x) = Inr x"
  by (simp_all add: or_panic_def)

lemma or_panic_eq_Inr [simp, result_simps]: "or_panic x = Inr v \<longleftrightarrow> x = Some v"
  by (cases x) auto

lemma map_refusal_eq_Inr [simp, result_simps]: "map_refusal f m = Inr x \<longleftrightarrow> m = Inr x"
  by (simp add: map_refusal_def)

lemma refusing_eq_Inr [simp, result_simps]: "refusing f m = Inr x \<longleftrightarrow> m = Inr x"
  by (simp add: refusing_def)

section \<open>Lists\<close>

lemma find_append: "List.find P (xs @ ys) = (case List.find P xs of None \<Rightarrow> List.find P ys | Some x \<Rightarrow> Some x)"
  by (induction xs) auto

lemma find_eq_SomeD: "List.find P xs = Some x \<Longrightarrow> x \<in> set xs \<and> P x"
  by (induction xs) (auto split: if_splits)

lemma find_eq_NoneD: "List.find P xs = None \<Longrightarrow> x \<in> set xs \<Longrightarrow> \<not> P x"
  by (auto simp: find_None_iff)

lemma find_ex: "x \<in> set xs \<Longrightarrow> P x \<Longrightarrow> \<exists>y. List.find P xs = Some y"
  by (induction xs) auto

text \<open>\<open>find_map\<close>: the first image that is \<open>Some\<close>, as \<open>Iterator::find_map\<close>.\<close>

primrec find_map :: "('a \<Rightarrow> 'b option) \<Rightarrow> 'a list \<Rightarrow> 'b option" where
  "find_map f [] = None"
| "find_map f (x # xs) = (case f x of None \<Rightarrow> find_map f xs | Some y \<Rightarrow> Some y)"

lemma find_map_eq_None: "find_map f xs = None \<longleftrightarrow> (\<forall>x \<in> set xs. f x = None)"
  by (induction xs) (auto split: option.splits)

lemma find_map_eq_Some: "find_map f xs = Some y \<Longrightarrow> \<exists>x \<in> set xs. f x = Some y"
  by (induction xs) (auto split: option.splits)

text \<open>The 0-based index of the first element a predicate accepts, as \<open>Iterator::position\<close>.\<close>

primrec position_of :: "('a \<Rightarrow> bool) \<Rightarrow> 'a list \<Rightarrow> nat option" where
  "position_of P [] = None"
| "position_of P (x # xs) = (if P x then Some 0 else map_option Suc (position_of P xs))"

end
