(* ===== verification/Rust_Std.thy ===== *)
theory Rust_Std
  imports Molt_Prelude
begin

text \<open>
  What the source uses of the Rust standard library: the string functions (on UTF-8 bytes),
  decimal parsing and printing, the ordered map \<open>BTreeMap\<close> and the slice binary search.

  A \<open>BTreeMap<K, V>\<close> is its in-order list of entries: \<open>bt_get\<close>, \<open>bt_insert\<close>,
  \<open>bt_remove\<close> are its operations, \<open>bt_wf\<close> (keys strictly ascending) is its
  representation invariant, and iterating the map is reading the list. The locale
  \<open>kv_store\<close> is the interface the clients rely on; the map is an instance of it.
\<close>

section \<open>Strings\<close>

definition strip_prefix :: "string \<Rightarrow> string \<Rightarrow> string option" where
  "strip_prefix p s = (if take (length p) s = p then Some (drop (length p) s) else None)"

definition starts_with :: "string \<Rightarrow> string \<Rightarrow> bool" where
  "starts_with p s \<longleftrightarrow> take (length p) s = p"

definition ends_with :: "string \<Rightarrow> string \<Rightarrow> bool" where
  "ends_with p s \<longleftrightarrow> length p \<le> length s \<and> drop (length s - length p) s = p"

lemma strip_prefix_append [simp]: "strip_prefix p (p @ s) = Some s"
  by (simp add: strip_prefix_def)

lemma strip_prefix_Some: "strip_prefix p s = Some r \<longleftrightarrow> s = p @ r"
proof
  assume "strip_prefix p s = Some r"
  then have "take (length p) s = p" "r = drop (length p) s"
    by (auto simp: strip_prefix_def split: if_splits)
  then show "s = p @ r" by (metis append_take_drop_id)
qed simp

abbreviation nl :: char where "nl \<equiv> CHR 0x0A"
abbreviation cr :: char where "cr \<equiv> CHR 0x0D"

text \<open>
  \<open>str::split(c)\<close>: the pieces between the separators, at least one.
\<close>

fun split_on :: "char \<Rightarrow> string \<Rightarrow> string list" where
  "split_on c [] = [[]]"
| "split_on c (x # xs) =
     (if x = c then [] # split_on c xs
      else (case split_on c xs of [] \<Rightarrow> [[x]] | p # ps \<Rightarrow> (x # p) # ps))"

lemma split_on_not_Nil [simp]: "split_on c s \<noteq> []"
  by (induction s) (auto split: list.splits)

text \<open>\<open>str::split_once(c)\<close>: around the first separator.\<close>

fun split_once :: "char \<Rightarrow> string \<Rightarrow> (string \<times> string) option" where
  "split_once c [] = None"
| "split_once c (x # xs) =
     (if x = c then Some ([], xs) else map_option (\<lambda>(a, b). (x # a, b)) (split_once c xs))"

lemma split_once_Some: "split_once c s = Some (a, b) \<longleftrightarrow> s = a @ c # b \<and> c \<notin> set a"
proof (induction s arbitrary: a)
  case Nil
  then show ?case by simp
next
  case (Cons x s)
  then show ?case by (cases a) auto
qed

text \<open>
  \<open>str::rfind(p)\<close>: the byte offset of the last occurrence. The list is scanned from the
  front and the last hit kept.
\<close>

fun rfind :: "string \<Rightarrow> string \<Rightarrow> nat option" where
  "rfind p [] = (if p = [] then Some 0 else None)"
| "rfind p (x # xs) =
     (case rfind p xs of
        Some i \<Rightarrow> Some (Suc i)
      | None \<Rightarrow> if starts_with p (x # xs) then Some 0 else None)"

text \<open>
  \<open>str::lines()\<close>: the pieces that end in a line feed, without the line feed and without a
  carriage return right before it; an unterminated last piece stays as it is.
\<close>

fun split_inclusive_nl :: "string \<Rightarrow> string list" where
  "split_inclusive_nl [] = []"
| "split_inclusive_nl (x # xs) =
     (if x = nl then [x] # split_inclusive_nl xs
      else (case split_inclusive_nl xs of [] \<Rightarrow> [[x]] | p # ps \<Rightarrow> (x # p) # ps))"

definition strip_line_end :: "string \<Rightarrow> string" where
  "strip_line_end l =
     (if l \<noteq> [] \<and> last l = nl
      then (let m = butlast l in if m \<noteq> [] \<and> last m = cr then butlast m else m)
      else l)"

definition str_lines :: "string \<Rightarrow> string list" where
  "str_lines s = map strip_line_end (split_inclusive_nl s)"

lemma concat_split_inclusive_nl: "concat (split_inclusive_nl s) = s"
  by (induction s) (auto split: list.splits)

text \<open>
  Unicode white space, as the UTF-8 encodings of the code points \<open>char::is_whitespace\<close>
  accepts.
\<close>

definition white_spaces :: "string list" where
  "white_spaces =
     [[CHR 0x09], [CHR 0x0A], [CHR 0x0B], [CHR 0x0C], [CHR 0x0D], [CHR 0x20],
      [CHR 0xC2, CHR 0x85], [CHR 0xC2, CHR 0xA0], [CHR 0xE1, CHR 0x9A, CHR 0x80],
      [CHR 0xE2, CHR 0x80, CHR 0x80], [CHR 0xE2, CHR 0x80, CHR 0x81],
      [CHR 0xE2, CHR 0x80, CHR 0x82], [CHR 0xE2, CHR 0x80, CHR 0x83],
      [CHR 0xE2, CHR 0x80, CHR 0x84], [CHR 0xE2, CHR 0x80, CHR 0x85],
      [CHR 0xE2, CHR 0x80, CHR 0x86], [CHR 0xE2, CHR 0x80, CHR 0x87],
      [CHR 0xE2, CHR 0x80, CHR 0x88], [CHR 0xE2, CHR 0x80, CHR 0x89],
      [CHR 0xE2, CHR 0x80, CHR 0x8A], [CHR 0xE2, CHR 0x80, CHR 0xA8],
      [CHR 0xE2, CHR 0x80, CHR 0xA9], [CHR 0xE2, CHR 0x80, CHR 0xAF],
      [CHR 0xE2, CHR 0x81, CHR 0x9F], [CHR 0xE3, CHR 0x80, CHR 0x80]]"

lemma white_spaces_not_Nil: "w \<in> set white_spaces \<Longrightarrow> 0 < length w"
  by (auto simp: white_spaces_def)

definition leading_one_of :: "string list \<Rightarrow> string \<Rightarrow> string option" where
  "leading_one_of ws s = List.find (\<lambda>w. 0 < length w \<and> starts_with w s) ws"

function drop_leading :: "string list \<Rightarrow> string \<Rightarrow> string" where
  "drop_leading ws s =
     (case leading_one_of ws s of None \<Rightarrow> s | Some w \<Rightarrow> drop_leading ws (drop (length w) s))"
  by pat_completeness auto
termination
proof (relation "measure (\<lambda>(ws, s). length s)", goal_cases)
  case 1
  then show ?case by simp
next
  case (2 ws s w)
  then have "0 < length w" "starts_with w s"
    by (auto simp: leading_one_of_def dest: find_eq_SomeD)
  then have "s \<noteq> []" by (auto simp: starts_with_def)
  with \<open>0 < length w\<close> show ?case by simp
qed

declare drop_leading.simps [simp del]

definition trim_start :: "string \<Rightarrow> string" where
  "trim_start s = drop_leading white_spaces s"

definition trim_end :: "string \<Rightarrow> string" where
  "trim_end s = rev (drop_leading (map rev white_spaces) (rev s))"

definition trim :: "string \<Rightarrow> string" where
  "trim s = trim_end (trim_start s)"

text \<open>
  \<open>str::split_whitespace()\<close>: the maximal runs without white space. \<open>next_token\<close> reads one
  such run; the fuel of \<open>split_ws_fuel\<close> is the length of the string, and every step
  consumes at least one byte.
\<close>

function next_token :: "string \<Rightarrow> string \<times> string" where
  "next_token s =
     (case s of [] \<Rightarrow> ([], [])
      | x # xs \<Rightarrow>
          (case leading_one_of white_spaces s of
             Some _ \<Rightarrow> ([], s)
           | None \<Rightarrow> (let (t, r) = next_token xs in (x # t, r))))"
  by pat_completeness auto
termination
  by (relation "measure length") auto

declare next_token.simps [simp del]

primrec split_ws_fuel :: "nat \<Rightarrow> string \<Rightarrow> string list" where
  "split_ws_fuel 0 s = []"
| "split_ws_fuel (Suc n) s =
     (let s' = trim_start s in
      if s' = [] then []
      else (let (t, r) = next_token s' in t # split_ws_fuel n r))"

definition split_whitespace :: "string \<Rightarrow> string list" where
  "split_whitespace s = split_ws_fuel (length s) s"

section \<open>Decimal numbers\<close>

definition is_digit :: "char \<Rightarrow> bool" where
  "is_digit c \<longleftrightarrow> 48 \<le> (of_char c :: nat) \<and> (of_char c :: nat) \<le> 57"

definition digit_val :: "char \<Rightarrow> nat" where
  "digit_val c = of_char c - 48"

fun digits_val :: "nat \<Rightarrow> string \<Rightarrow> nat" where
  "digits_val acc [] = acc"
| "digits_val acc (c # cs) = digits_val (10 * acc + digit_val c) cs"

text \<open>
  \<open>str::parse::<u64>()\<close> (and \<open>usize\<close> on a 64-bit target): an optional plus sign, then at
  least one digit, no overflow.
\<close>

definition parse_u64 :: "string \<Rightarrow> nat option" where
  "parse_u64 s =
     (let d = (case s of [] \<Rightarrow> [] | c # cs \<Rightarrow> if c = CHR 0x2B then cs else s) in
      if d = [] \<or> \<not> list_all is_digit d then None
      else (let v = digits_val 0 d in if v < 2 ^ 64 then Some v else None))"

fun show_nat :: "nat \<Rightarrow> string" where
  "show_nat n =
     (if n < 10 then [char_of (48 + n)]
      else show_nat (n div 10) @ [char_of (48 + n mod 10)])"

declare show_nat.simps [simp del]

lemma of_char_digit: "n < 10 \<Longrightarrow> of_char (char_of (48 + n) :: char) = (48 + n :: nat)"
  by simp

lemma digits_val_append: "digits_val acc (xs @ ys) = digits_val (digits_val acc xs) ys"
  by (induction xs arbitrary: acc) auto

lemma show_nat_digits: "list_all is_digit (show_nat n)"
proof (induction n rule: show_nat.induct)
  case (1 n)
  then show ?case
    by (cases "n < 10") (auto simp: show_nat.simps[of n] is_digit_def of_char_digit)
qed

lemma digits_val_show_nat: "digits_val 0 (show_nat n) = n"
proof (induction n rule: show_nat.induct)
  case (1 n)
  then show ?case
    by (cases "n < 10")
      (auto simp: show_nat.simps[of n] digits_val_append digit_val_def of_char_digit)
qed

lemma show_nat_not_Nil [simp]: "show_nat n \<noteq> []"
  by (subst show_nat.simps) auto

text \<open>Printing and parsing a \<open>u64\<close> is a round trip.\<close>

lemma parse_show_u64:
  assumes "n < 2 ^ 64"
  shows "parse_u64 (show_nat n) = Some n"
proof -
  obtain c cs where s: "show_nat n = c # cs"
    by (cases "show_nat n") auto
  have "is_digit c" using show_nat_digits[of n] by (simp add: s)
  then have "c \<noteq> CHR 0x2B" by (auto simp: is_digit_def)
  moreover have "list_all is_digit (c # cs)" "digits_val 0 (c # cs) = n"
    using show_nat_digits[of n] digits_val_show_nat[of n] by (simp_all add: s)
  ultimately show ?thesis using assms
    by (simp add: parse_u64_def s Let_def)
qed

end
