(* ===== verification/Rust_Maps.thy ===== *)
theory Rust_Maps
  imports Rust_Std
begin

text \<open>
  The ordered containers of the Rust standard library.

  A \<open>BTreeMap\<close> is the list of its entries in key order, with the representation invariant
  \<open>bt_wf\<close>; a \<open>BTreeSet\<close> is the ascending list of its elements. \<open>binary_search_by\<close> is the
  search of the standard library: halving with a base and a size, one probe at the end.
  On an ascending list \<open>upsert_sorted\<close> (search, then replace or insert) is the map's
  insertion, which \<open>upsert_sorted_eq\<close> states.

  The locale \<open>kv_store\<close> is the interface of a keyed store: what a lookup returns after
  an insertion or a removal. Its lemmas (last write wins, an untouched key keeps its value)
  are proved once and used through the interpretations \<open>btmap\<close> and \<open>hashmap\<close>.
\<close>

section \<open>The interface of a keyed store\<close>

locale kv_store =
  fixes emp :: "'m"
    and get :: "'m \<Rightarrow> 'k \<Rightarrow> 'v option"
    and put :: "'k \<Rightarrow> 'v \<Rightarrow> 'm \<Rightarrow> 'm"
    and del :: "'k \<Rightarrow> 'm \<Rightarrow> 'm"
  assumes get_emp: "get emp k = None"
    and get_put: "get (put k v m) k' = (if k' = k then Some v else get m k')"
    and get_del: "get (del k m) k' = (if k' = k then None else get m k')"
begin

lemma get_put_all:
  "get (fold (\<lambda>(k, v). put k v) kvs m) k =
     (case map_of (rev kvs) k of None \<Rightarrow> get m k | Some v \<Rightarrow> Some v)"
  by (induction kvs arbitrary: m)
    (auto simp: get_put map_add_def split: option.splits)

lemma get_put_untouched:
  "k \<notin> fst ` set kvs \<Longrightarrow> get (fold (\<lambda>(k, v). put k v) kvs m) k = get m k"
  by (induction kvs arbitrary: m) (auto simp: get_put)

lemma get_put_last:
  "get (fold (\<lambda>(k, v). put k v) (kvs @ [(k, v)]) m) k = Some v"
  by (simp add: get_put)

lemma get_put_all_Some:
  "get (fold (\<lambda>(k, v). put k v) kvs emp) k = Some v \<Longrightarrow> (k, v) \<in> set kvs"
  by (auto simp: get_put_all get_emp split: option.splits dest: map_of_SomeD)

end

section \<open>\<open>BTreeMap\<close>\<close>

type_synonym ('k, 'v) btree = "('k \<times> 'v) list"

abbreviation bt_get :: "('k, 'v) btree \<Rightarrow> 'k \<Rightarrow> 'v option" where
  "bt_get m \<equiv> map_of m"

fun bt_insert :: "'k::linorder \<Rightarrow> 'v \<Rightarrow> ('k, 'v) btree \<Rightarrow> ('k, 'v) btree" where
  "bt_insert k v [] = [(k, v)]"
| "bt_insert k v ((k', v') # m) =
     (if k < k' then (k, v) # (k', v') # m
      else if k = k' then (k, v) # m
      else (k', v') # bt_insert k v m)"

definition bt_remove :: "'k \<Rightarrow> ('k, 'v) btree \<Rightarrow> ('k, 'v) btree" where
  "bt_remove k m = filter (\<lambda>(k', _). k' \<noteq> k) m"

definition bt_keys :: "('k, 'v) btree \<Rightarrow> 'k list" where
  "bt_keys m = map fst m"

definition bt_contains :: "('k, 'v) btree \<Rightarrow> 'k \<Rightarrow> bool" where
  "bt_contains m k \<longleftrightarrow> bt_get m k \<noteq> None"

definition bt_wf :: "('k::linorder, 'v) btree \<Rightarrow> bool" where
  "bt_wf m \<longleftrightarrow> sorted_wrt (<) (map fst m)"

lemma bt_get_insert: "bt_get (bt_insert k v m) k' = (if k' = k then Some v else bt_get m k')"
  by (induction m) auto

lemma bt_get_remove: "bt_get (bt_remove k m) k' = (if k' = k then None else bt_get m k')"
  by (induction m) (auto simp: bt_remove_def)

interpretation btmap: kv_store "[]" bt_get bt_insert bt_remove
  by unfold_locales (simp_all add: bt_get_insert bt_get_remove)

interpretation hashmap: kv_store "Map.empty" "\<lambda>m. m" "\<lambda>k v m. m(k \<mapsto> v)" "\<lambda>k m. m(k := None)"
  by unfold_locales simp_all

lemma set_bt_insert: "fst ` set (bt_insert k v m) = insert k (fst ` set m)"
proof (induction m)
  case (Cons p m)
  then show ?case by (cases p) (simp add: insert_commute)
qed simp

lemma set_bt_insert_subset: "set (bt_insert k v m) \<subseteq> insert (k, v) (set m)"
proof (induction m)
  case (Cons p m)
  then show ?case by (cases p) (auto split: if_splits)
qed simp

lemma bt_wf_Nil [simp]: "bt_wf []"
  by (simp add: bt_wf_def)

lemma bt_wf_insert [simp]: "bt_wf m \<Longrightarrow> bt_wf (bt_insert k v m)"
proof (induction m)
  case Nil
  then show ?case by (simp add: bt_wf_def)
next
  case (Cons p m)
  obtain k' v' where p: "p = (k', v')" by (cases p)
  from Cons.prems have wf: "bt_wf m" and lt: "\<And>x. x \<in> fst ` set m \<Longrightarrow> k' < x"
    by (auto simp: bt_wf_def p)
  have "sorted_wrt (<) (map fst (bt_insert k v m))"
    using Cons.IH[OF wf] by (simp add: bt_wf_def)
  moreover have "x \<in> fst ` set (bt_insert k v m) \<Longrightarrow> k < k' \<or> k = k' \<or> k' < x" for x
    using lt by (auto simp: set_bt_insert)
  ultimately show ?case
    using wf lt by (fastforce simp: bt_wf_def p)
qed

lemma bt_wf_remove [simp]: "bt_wf m \<Longrightarrow> bt_wf (bt_remove k m)"
  by (induction m) (auto simp: bt_wf_def bt_remove_def)

lemma bt_wf_distinct: "bt_wf m \<Longrightarrow> distinct (map fst m)"
  by (simp add: bt_wf_def strict_sorted_iff)

text \<open>Two ordered maps with the same lookups are the same list of entries.\<close>

lemma bt_wf_eqI:
  assumes "bt_wf m" "bt_wf n" "\<And>k. bt_get m k = bt_get n k"
  shows "m = n"
proof -
  have s: "set m = set n"
  proof -
    have "(k, v) \<in> set m \<longleftrightarrow> (k, v) \<in> set n" for k v
      using assms bt_wf_distinct by (metis map_of_eq_Some_iff)
    then show ?thesis by auto
  qed
  have "distinct (map fst m)" "distinct (map fst n)"
    "sorted (map fst m)" "sorted (map fst n)"
    using assms bt_wf_distinct by (auto simp: bt_wf_def strict_sorted_iff)
  then show ?thesis
    using s by (metis map_sorted_distinct_set_unique Int_Un_eq(1) distinct_map
      inj_on_Un inf_sup_absorb sup.idem)
qed

section \<open>\<open>BTreeSet\<close>\<close>

fun bset_insert :: "'a::linorder \<Rightarrow> 'a list \<Rightarrow> 'a list" where
  "bset_insert x [] = [x]"
| "bset_insert x (y # ys) =
     (if x < y then x # y # ys else if x = y then y # ys else y # bset_insert x ys)"

lemma set_bset_insert [simp]: "set (bset_insert x xs) = insert x (set xs)"
  by (induction xs) auto

lemma sorted_bset_insert: "sorted_wrt (<) xs \<Longrightarrow> sorted_wrt (<) (bset_insert x xs)"
  by (induction xs) auto

definition bset_of_list :: "'a::linorder list \<Rightarrow> 'a list" where
  "bset_of_list xs = fold bset_insert xs []"

lemma fold_bset_insert:
  "set (fold bset_insert xs acc) = set xs \<union> set acc"
  "sorted_wrt (<) acc \<Longrightarrow> sorted_wrt (<) (fold bset_insert xs acc)"
  by (induction xs arbitrary: acc) (auto simp: sorted_bset_insert)

lemma set_bset_of_list [simp]: "set (bset_of_list xs) = set xs"
  by (simp add: bset_of_list_def fold_bset_insert)

lemma bset_of_list_strict: "sorted_wrt (<) (bset_of_list xs)"
  by (simp add: bset_of_list_def fold_bset_insert)

lemma bset_of_list_distinct: "distinct (bset_of_list xs)"
  using bset_of_list_strict[of xs] by (simp add: strict_sorted_iff)

lemma length_bset_of_list: "length (bset_of_list xs) = card (set xs)"
  by (metis bset_of_list_distinct distinct_card set_bset_of_list)

section \<open>Binary search\<close>

datatype cmp_ordering = Less | Equal | Greater

definition cmp_of :: "'a::linorder \<Rightarrow> 'a \<Rightarrow> cmp_ordering" where
  "cmp_of a b = (if a < b then Less else if a = b then Equal else Greater)"

function bs_loop :: "('a \<Rightarrow> cmp_ordering) \<Rightarrow> 'a list \<Rightarrow> nat \<Rightarrow> nat \<Rightarrow> nat" where
  "bs_loop f xs base sz =
     (if sz > 1
      then (let half = sz div 2; mid = base + half in
            bs_loop f xs (if f (xs ! mid) = Greater then base else mid) (sz - half))
      else base)"
  by pat_completeness auto
termination
  by (relation "measure (\<lambda>(f, xs, base, sz). sz)") (auto simp: Let_def)

declare bs_loop.simps [simp del]

text \<open>\<open>Inr i\<close>: found at index \<open>i\<close>; \<open>Inl i\<close>: absent, \<open>i\<close> is the insertion point.\<close>

definition binary_search_by :: "('a \<Rightarrow> cmp_ordering) \<Rightarrow> 'a list \<Rightarrow> nat + nat" where
  "binary_search_by f xs =
     (if xs = [] then Inl 0
      else (let base = bs_loop f xs 0 (length xs) in
            case f (xs ! base) of
              Equal \<Rightarrow> Inr base
            | Less \<Rightarrow> Inl (base + 1)
            | Greater \<Rightarrow> Inl base))"

lemma bs_loop_spec:
  assumes "sorted_wrt (<) (map key xs)" and "0 < sz" and "base + sz \<le> length xs"
    and "\<forall>i < length xs. base + sz \<le> i \<longrightarrow> k < key (xs ! i)"
    and "\<forall>i < base. key (xs ! i) < k" and "base = 0 \<or> key (xs ! base) \<le> k"
  shows "bs_loop (\<lambda>x. cmp_of (key x) k) xs base sz < length xs \<and>
         (\<forall>i < bs_loop (\<lambda>x. cmp_of (key x) k) xs base sz. key (xs ! i) < k) \<and>
         (\<forall>i < length xs. bs_loop (\<lambda>x. cmp_of (key x) k) xs base sz < i \<longrightarrow> k < key (xs ! i))"
  using assms
proof (induction "\<lambda>x. cmp_of (key x) k" xs base sz rule: bs_loop.induct)
  case (1 xs base sz)
  have mono: "\<And>i j. i < j \<Longrightarrow> j < length xs \<Longrightarrow> key (xs ! i) < key (xs ! j)"
    using "1.prems"(1) by (simp add: sorted_wrt_iff_nth_less)
  show ?case
  proof (cases "sz > 1")
    case True
    let ?h = "sz div 2" let ?m = "base + ?h"
    let ?b = "if cmp_of (key (xs ! ?m)) k = Greater then base else ?m"
    have h: "0 < ?h" "?h < sz" using True by auto
    have m: "?m < length xs" using h "1.prems"(3) by linarith
    have eq: "bs_loop (\<lambda>x. cmp_of (key x) k) xs base sz
            = bs_loop (\<lambda>x. cmp_of (key x) k) xs ?b (sz - ?h)"
      using True by (subst bs_loop.simps) (simp add: Let_def)
    have gt: "cmp_of (key (xs ! ?m)) k = Greater \<longleftrightarrow> k < key (xs ! ?m)"
      by (auto simp: cmp_of_def)
    have up: "\<forall>i < length xs. ?b + (sz - ?h) \<le> i \<longrightarrow> k < key (xs ! i)"
    proof (intro allI impI)
      fix i assume i: "i < length xs" "?b + (sz - ?h) \<le> i"
      show "k < key (xs ! i)"
      proof (cases "k < key (xs ! ?m)")
        case True
        then have "?m \<le> i" using i gt by auto
        then show ?thesis using True mono[of ?m i] i(1) by (cases "i = ?m") auto
      next
        case False
        then have "base + sz \<le> i" using i gt h by auto
        then show ?thesis using "1.prems"(4) i(1) by blast
      qed
    qed
    have low: "\<forall>i < ?b. key (xs ! i) < k"
    proof (intro allI impI)
      fix i assume i: "i < ?b"
      show "key (xs ! i) < k"
      proof (cases "k < key (xs ! ?m)")
        case True
        then show ?thesis using i gt "1.prems"(5) by auto
      next
        case False
        then have "key (xs ! i) < key (xs ! ?m)" using i gt m mono by auto
        then show ?thesis using False by auto
      qed
    qed
    have fits: "?b + (sz - ?h) \<le> length xs"
      using "1.prems"(3) h by auto
    have b0: "?b = 0 \<or> key (xs ! ?b) \<le> k"
      using "1.prems"(6) gt by auto
    have pos: "0 < sz - ?h" using h by simp
    show ?thesis unfolding eq
      by (rule "1.hyps"[OF True refl refl "1.prems"(1) pos fits up low b0])
  next
    case False
    then have "bs_loop (\<lambda>x. cmp_of (key x) k) xs base sz = base" "sz = 1"
      using "1.prems"(2) by (subst bs_loop.simps, auto)
    then show ?thesis using "1.prems" by auto
  qed
qed

definition upsert_sorted :: "'k::linorder \<Rightarrow> 'v \<Rightarrow> ('k \<times> 'v) list \<Rightarrow> ('k \<times> 'v) list" where
  "upsert_sorted k v xs =
     (case binary_search_by (\<lambda>(m, _). cmp_of m k) xs of
        Inr i \<Rightarrow> xs[i := (fst (xs ! i), v)]
      | Inl i \<Rightarrow> take i xs @ (k, v) # drop i xs)"

lemma bt_insert_split:
  "(\<forall>p \<in> set xs. fst p < k) \<Longrightarrow> bt_insert k v (xs @ ys) = xs @ bt_insert k v ys"
  by (induction xs) auto

lemma bt_insert_head:
  "ys = [] \<or> k < fst (hd ys) \<Longrightarrow> bt_insert k v ys = (k, v) # ys"
  by (cases ys) auto

lemma binary_search_by_spec:
  assumes "sorted_wrt (<) (map fst xs)"
  shows "case binary_search_by (\<lambda>(m, _). cmp_of m k) xs of
           Inr i \<Rightarrow> i < length xs \<and> fst (xs ! i) = k \<and> (\<forall>j < i. fst (xs ! j) < k)
         | Inl i \<Rightarrow> i \<le> length xs \<and> (\<forall>j < i. fst (xs ! j) < k) \<and>
             (\<forall>j < length xs. i \<le> j \<longrightarrow> k < fst (xs ! j))"
proof (cases "xs = []")
  case True
  then show ?thesis by (simp add: binary_search_by_def)
next
  case False
  let ?f = "\<lambda>x. cmp_of (fst x) k"
  have f: "(\<lambda>(m, _). cmp_of m k) = ?f" by auto
  let ?b = "bs_loop ?f xs 0 (length xs)"
  have spec: "?b < length xs" "\<forall>i < ?b. fst (xs ! i) < k"
    "\<forall>i < length xs. ?b < i \<longrightarrow> k < fst (xs ! i)"
    using bs_loop_spec[OF assms, of "length xs" 0 k] False by auto
  show ?thesis
    unfolding f binary_search_by_def using False spec
    by (auto simp: Let_def cmp_of_def less_Suc_eq Suc_le_eq le_less split: if_splits)
qed

lemma upsert_sorted_eq:
  assumes "bt_wf xs"
  shows "upsert_sorted k v xs = bt_insert k v xs"
proof (cases "binary_search_by (\<lambda>(m, _). cmp_of m k) xs")
  case (Inl i)
  with binary_search_by_spec[of xs k] assms
  have i: "i \<le> length xs" "\<forall>j < i. fst (xs ! j) < k" "\<forall>j < length xs. i \<le> j \<longrightarrow> k < fst (xs ! j)"
    by (auto simp: bt_wf_def)
  have "\<forall>p \<in> set (take i xs). fst p < k"
    using i(1,2) by (metis in_set_conv_nth length_take min.absorb2 nth_take)
  moreover have "drop i xs = [] \<or> k < fst (hd (drop i xs))"
    using i(3) by (cases "i < length xs") (auto simp: hd_drop_conv_nth)
  ultimately have "bt_insert k v (take i xs @ drop i xs) = take i xs @ (k, v) # drop i xs"
    by (simp add: bt_insert_split bt_insert_head del: append_take_drop_id)
  then show ?thesis by (simp add: upsert_sorted_def Inl)
next
  case (Inr i)
  with binary_search_by_spec[of xs k] assms
  have i: "i < length xs" "fst (xs ! i) = k" "\<forall>j < i. fst (xs ! j) < k"
    by (auto simp: bt_wf_def)
  have "\<forall>p \<in> set (take i xs). fst p < k"
    using i by (metis in_set_conv_nth length_take less_imp_le min.absorb2 nth_take)
  moreover have "bt_insert k v (drop i xs) = (k, v) # drop (Suc i) xs"
    using i(1,2) by (simp add: Cons_nth_drop_Suc[symmetric]) (cases "xs ! i", simp)
  ultimately have "bt_insert k v (take i xs @ drop i xs) = take i xs @ (k, v) # drop (Suc i) xs"
    by (simp add: bt_insert_split del: append_take_drop_id)
  then show ?thesis
    using i by (simp add: upsert_sorted_def Inr upd_conv_take_nth_drop)
qed

end
