(* ===== verification/Json_Value.thy ===== *)
theory Json_Value
  imports Rust_Maps
begin

text \<open>
  \<open>serde_json::Value\<close> as the sources use it: the data type and its accessors. An object is
  a \<open>BTreeMap\<close> (the crate is built without \<open>preserve_order\<close>), so it is the ascending list
  of its entries. A number is one of the three forms the crate keeps apart; only the first
  is read as a \<open>u64\<close>.
\<close>

datatype json_number = PosInt u64 | NegInt u64 | Float u64

datatype json =
    JNull
  | JBool bool
  | JNumber json_number
  | JString string
  | JArray "json list"
  | JObject "(string \<times> json) list"

fun jget :: "json \<Rightarrow> string \<Rightarrow> json option" where
  "jget (JObject m) k = bt_get m k"
| "jget _ k = None"

fun as_str :: "json \<Rightarrow> string option" where
  "as_str (JString s) = Some s"
| "as_str _ = None"

fun as_u64 :: "json \<Rightarrow> u64 option" where
  "as_u64 (JNumber (PosInt n)) = Some n"
| "as_u64 _ = None"

fun as_array :: "json \<Rightarrow> json list option" where
  "as_array (JArray xs) = Some xs"
| "as_array _ = None"

fun as_object :: "json \<Rightarrow> (string \<times> json) list option" where
  "as_object (JObject m) = Some m"
| "as_object _ = None"

fun is_null :: "json \<Rightarrow> bool" where
  "is_null JNull = True"
| "is_null _ = False"

text \<open>\<open>payload.get(key).and_then(Value::as_str)\<close> and its numeric twin.\<close>

definition get_str :: "json \<Rightarrow> string \<Rightarrow> string option" where
  "get_str v k = Option.bind (jget v k) as_str"

definition get_u64 :: "json \<Rightarrow> string \<Rightarrow> u64 option" where
  "get_u64 v k = Option.bind (jget v k) as_u64"

lemma as_str_Some [simp]: "as_str v = Some s \<longleftrightarrow> v = JString s"
  by (cases v) auto

lemma as_u64_Some [simp]: "as_u64 v = Some n \<longleftrightarrow> v = JNumber (PosInt n)"
  by (cases v rule: as_u64.cases) auto

lemma get_str_Some: "get_str v k = Some s \<longleftrightarrow> (\<exists>m. v = JObject m \<and> bt_get m k = Some (JString s))"
  by (cases v) (auto simp: get_str_def bind_eq_Some_conv)

end
