(* ===== verification/Canon_Bytes.thy ===== *)
theory Canon_Bytes
  imports Json_Value
begin

text \<open>
  The framing every canonical byte layout of the workspace is made of
  (\<open>molt-core/src/lib.rs\<close>: \<open>put_bytes\<close>, \<open>put_count\<close>; the \<open>u64\<close> counts of
  \<open>molt-core/src/chain.rs\<close>).

  An encoder returns \<open>None\<close> where the Rust code panics: the length does not fit its
  prefix and the \<open>expect\<close> fires. \<open>cat\<close> writes fields one after the other.

  The locale \<open>prefix_code\<close> states what the layouts rely on: an encoded value followed by
  anything can be read back in one way only, so a field can never be extended by its
  neighbour. The field encoders are instances, and pairs, runs and options of instances are
  instances again (collection \<open>codec_intros\<close>); the injectivity of a whole layout is one
  application of these rules.
\<close>

section \<open>Little-endian integers\<close>

fun le_bytes :: "nat \<Rightarrow> nat \<Rightarrow> bytes" where
  "le_bytes 0 n = []"
| "le_bytes (Suc w) n = char_of (n mod 256) # le_bytes w (n div 256)"

fun from_le_bytes :: "bytes \<Rightarrow> nat" where
  "from_le_bytes [] = 0"
| "from_le_bytes (c # cs) = of_char c + 256 * from_le_bytes cs"

lemma length_le_bytes [simp]: "length (le_bytes w n) = w"
  by (induction w arbitrary: n) auto

lemma from_le_le_bytes: "n < 256 ^ w \<Longrightarrow> from_le_bytes (le_bytes w n) = n"
  by (induction w arbitrary: n) (auto simp: less_mult_imp_div_less mult.commute)

lemma from_le_bytes_bound: "from_le_bytes bs < 256 ^ length bs"
proof (induction bs)
  case (Cons c cs)
  have "Suc (from_le_bytes cs) \<le> 256 ^ length cs" using Cons by simp
  then have le: "256 * Suc (from_le_bytes cs) \<le> 256 * 256 ^ length cs" by (rule mult_le_mono2)
  have "of_char c + 256 * from_le_bytes cs < 256 * Suc (from_le_bytes cs)" by simp
  from less_le_trans[OF this le] show ?case by simp
qed simp

lemma le_from_le_bytes: "le_bytes (length bs) (from_le_bytes bs) = bs"
  by (induction bs) auto

lemma le_bytes_inj: "n < 256 ^ w \<Longrightarrow> m < 256 ^ w \<Longrightarrow> le_bytes w n = le_bytes w m \<Longrightarrow> n = m"
  by (metis from_le_le_bytes)

definition u64_le :: "u64 \<Rightarrow> bytes" where
  "u64_le n = le_bytes 8 (unat n)"

definition u8_byte :: "u8 \<Rightarrow> bytes" where
  "u8_byte n = [char_of (unat n)]"

lemma unat_u64_bound: "unat (n :: u64) < 256 ^ 8"
  using unsigned_less[of n, where ?'a = nat] by simp

lemma u64_le_inj [simp]: "u64_le a = u64_le b \<longleftrightarrow> a = b"
  using le_bytes_inj[OF unat_u64_bound[of a] unat_u64_bound[of b]]
  by (auto simp: u64_le_def word_eq_iff_unsigned[where ?'a = nat])

lemma u8_byte_inj [simp]: "u8_byte a = u8_byte b \<longleftrightarrow> a = b"
proof
  assume "u8_byte a = u8_byte b"
  then have "(char_of (unat a) :: char) = char_of (unat b)" by (simp add: u8_byte_def)
  then have "unat a mod 256 = unat b mod 256" by (metis of_char_of)
  moreover have "unat a < 256" "unat b < 256"
    using unsigned_less[of a, where ?'a = nat] unsigned_less[of b, where ?'a = nat] by simp_all
  ultimately show "a = b" by (simp add: word_eq_iff_unsigned[where ?'a = nat])
qed simp

lemma length_u64_le [simp]: "length (u64_le n) = 8"
  by (simp add: u64_le_def)

lemma length_u8_byte [simp]: "length (u8_byte n) = 1"
  by (simp add: u8_byte_def)

section \<open>Fields\<close>

definition put_bytes :: "bytes \<Rightarrow> bytes option" where
  "put_bytes b = (if length b < 2 ^ 32 then Some (le_bytes 4 (length b) @ b) else None)"

definition put_count :: "nat \<Rightarrow> bytes option" where
  "put_count n = (if n < 2 ^ 32 then Some (le_bytes 4 n) else None)"

definition put_count64 :: "nat \<Rightarrow> bytes option" where
  "put_count64 n = (if n < 2 ^ 64 then Some (le_bytes 8 n) else None)"

lemma put_bytes_not_Nil: "put_bytes b = Some x \<Longrightarrow> x \<noteq> []"
  by (metis put_bytes_def append_is_Nil_conv length_le_bytes length_0_conv option.distinct(1)
      option.inject zero_neq_numeral)

primrec cat :: "bytes option list \<Rightarrow> bytes option" where
  "cat [] = Some []"
| "cat (x # xs) =
     (case x of None \<Rightarrow> None
      | Some a \<Rightarrow> (case cat xs of None \<Rightarrow> None | Some b \<Rightarrow> Some (a @ b)))"

lemma cat_Cons_Some: "cat (x # xs) = Some z \<longleftrightarrow> (\<exists>a b. x = Some a \<and> cat xs = Some b \<and> z = a @ b)"
  by (auto simp: cat.simps split: option.splits)

declare cat.simps(2) [simp del]

lemma cat_single [simp]: "cat [x] = x"
  by (simp add: cat.simps split: option.splits)

lemma cat_append: "cat (xs @ ys) = cat [cat xs, cat ys]"
  by (induction xs) (auto simp: cat.simps split: option.splits)

lemma cat_append_Some:
  "cat (xs @ ys) = Some z \<longleftrightarrow> (\<exists>a b. cat xs = Some a \<and> cat ys = Some b \<and> z = a @ b)"
  by (simp add: cat_append cat_Cons_Some)

lemmas cat_eq_Some = cat_Cons_Some cat_append_Some

lemma cat_nested: "cat (x # y # zs) = cat [x, cat (y # zs)]"
  by (simp add: cat.simps split: option.splits)

section \<open>Tags\<close>

text \<open>A layout opens with its tag and a zero byte.\<close>

definition tagged :: "string \<Rightarrow> bytes" where
  "tagged t = t @ [CHR 0x00]"

lemma tagged_append_inj:
  assumes "CHR 0x00 \<notin> set s" "CHR 0x00 \<notin> set t" "tagged s @ x = tagged t @ y"
  shows "s = t \<and> x = y"
  using assms
proof (induction s arbitrary: t)
  case Nil
  then show ?case by (cases t) (auto simp: tagged_def)
next
  case (Cons a s)
  then show ?case by (cases t) (auto simp: tagged_def)
qed

lemma tagged_neq: "CHR 0x00 \<notin> set s \<Longrightarrow> CHR 0x00 \<notin> set t \<Longrightarrow> s \<noteq> t \<Longrightarrow> tagged s @ x \<noteq> tagged t @ y"
  using tagged_append_inj by blast

section \<open>Prefix codes\<close>

locale prefix_code =
  fixes enc :: "'a \<Rightarrow> bytes option"
  assumes prefix_inj: "enc a = Some x \<Longrightarrow> enc b = Some y \<Longrightarrow> x @ r = y @ s \<Longrightarrow> a = b \<and> r = s"
begin

lemma enc_inj: "enc a = Some x \<Longrightarrow> enc b = Some x \<Longrightarrow> a = b"
  using prefix_inj[of a x b x "[]" "[]"] by simp

text \<open>A run of known length is read back element by element.\<close>

lemma run_inj:
  assumes "length as = length bs" "cat (map enc as) = Some x" "cat (map enc bs) = Some y"
    "x @ r = y @ s"
  shows "as = bs \<and> r = s"
  using assms
proof (induction as bs arbitrary: x y rule: list_induct2)
  case Nil
  then show ?case by simp
next
  case (Cons a as b bs)
  from Cons.prems(1) obtain x1 x2 where x: "enc a = Some x1" "cat (map enc as) = Some x2" "x = x1 @ x2"
    by (auto simp: cat_Cons_Some)
  from Cons.prems(2) obtain y1 y2 where y: "enc b = Some y1" "cat (map enc bs) = Some y2" "y = y1 @ y2"
    by (auto simp: cat_Cons_Some)
  have "x1 @ (x2 @ r) = y1 @ (y2 @ s)" using Cons.prems(3) x y by simp
  from prefix_inj[OF x(1) y(1) this] have "a = b" "x2 @ r = y2 @ s" by simp_all
  with Cons.IH[OF x(2) y(2)] show ?case by simp
qed

end

text \<open>An encoder of fixed width that is injective is a prefix code.\<close>

locale fixed_code =
  fixes fenc :: "'a \<Rightarrow> bytes option" and width :: nat
  assumes fixed_width: "fenc a = Some x \<Longrightarrow> length x = width"
    and fixed_inj: "fenc a = Some x \<Longrightarrow> fenc b = Some x \<Longrightarrow> a = b"

sublocale fixed_code \<subseteq> prefix_code fenc
proof unfold_locales
  fix a x b y r s
  assume "fenc a = Some x" "fenc b = Some y" "x @ r = y @ s"
  then show "a = b \<and> r = s"
    using fixed_width fixed_inj by (metis append_eq_append_conv)
qed

interpretation enc_u64: fixed_code "\<lambda>n. Some (u64_le n)" 8
  by unfold_locales auto

interpretation enc_u8: fixed_code "\<lambda>n. Some (u8_byte n)" 1
  by unfold_locales auto

interpretation enc_count: fixed_code put_count 4
proof unfold_locales
  fix a b x
  assume "put_count a = Some x" "put_count b = Some x"
  then show "a = b"
    using le_bytes_inj[of a 4 b] by (auto simp: put_count_def split: if_splits)
qed (auto simp: put_count_def split: if_splits)

interpretation enc_count64: fixed_code put_count64 8
proof unfold_locales
  fix a b x
  assume "put_count64 a = Some x" "put_count64 b = Some x"
  then show "a = b"
    using le_bytes_inj[of a 8 b] by (auto simp: put_count64_def split: if_splits)
qed (auto simp: put_count64_def split: if_splits)

interpretation enc_bytes: prefix_code put_bytes
proof unfold_locales
  fix a x b y r s
  assume a: "put_bytes a = Some x" and b: "put_bytes b = Some y" and eq: "x @ r = y @ s"
  from a b have x: "length a < 256 ^ 4" "x = le_bytes 4 (length a) @ a"
    and y: "length b < 256 ^ 4" "y = le_bytes 4 (length b) @ b"
    by (auto simp: put_bytes_def split: if_splits)
  from eq x(2) y(2) have "le_bytes 4 (length a) @ (a @ r) = le_bytes 4 (length b) @ (b @ s)"
    by simp
  then have "le_bytes 4 (length a) = le_bytes 4 (length b)" and rest: "a @ r = b @ s"
    by (simp_all add: append_eq_append_conv)
  then have "length a = length b" using le_bytes_inj x(1) y(1) by blast
  with rest show "a = b \<and> r = s" by simp
qed

section \<open>Composed codes\<close>

definition enc_pair :: "('a \<Rightarrow> bytes option) \<Rightarrow> ('b \<Rightarrow> bytes option) \<Rightarrow> 'a \<times> 'b \<Rightarrow> bytes option" where
  "enc_pair e f p = cat [e (fst p), f (snd p)]"

definition enc_run :: "(nat \<Rightarrow> bytes option) \<Rightarrow> ('a \<Rightarrow> bytes option) \<Rightarrow> 'a list \<Rightarrow> bytes option" where
  "enc_run c e xs = cat (c (length xs) # map e xs)"

definition enc_opt :: "('a \<Rightarrow> bytes option) \<Rightarrow> 'a option \<Rightarrow> bytes option" where
  "enc_opt e x = (case x of None \<Rightarrow> Some [CHR 0x00] | Some v \<Rightarrow> cat [Some [CHR 0x01], e v])"

definition enc_const :: "bytes \<Rightarrow> unit \<Rightarrow> bytes option" where
  "enc_const t u = Some t"

lemma cat_pair_Some: "cat [x, y] = Some z \<longleftrightarrow> (\<exists>a b. x = Some a \<and> y = Some b \<and> z = a @ b)"
  by (auto simp: cat_Cons_Some)

lemma enc_pair_apply: "enc_pair e f (a, b) = cat [e a, f b]"
  by (simp add: enc_pair_def)

lemma enc_pair_eta: "(\<lambda>(a, b). cat [e a, f b]) = enc_pair e f"
  by (auto simp: enc_pair_def)

lemma prefix_code_pair [codec_intros]:
  assumes "prefix_code e" "prefix_code f"
  shows "prefix_code (enc_pair e f)"
proof
  fix a x b y r s
  assume "enc_pair e f a = Some x" "enc_pair e f b = Some y" and eq: "x @ r = y @ s"
  then obtain x1 x2 y1 y2 where
    x: "e (fst a) = Some x1" "f (snd a) = Some x2" "x = x1 @ x2" and
    y: "e (fst b) = Some y1" "f (snd b) = Some y2" "y = y1 @ y2"
    by (auto simp: enc_pair_def cat_pair_Some)
  from eq x y have "x1 @ (x2 @ r) = y1 @ (y2 @ s)" by simp
  from prefix_code.prefix_inj[OF assms(1) x(1) y(1) this]
  have "fst a = fst b" "x2 @ r = y2 @ s" by simp_all
  with prefix_code.prefix_inj[OF assms(2) x(2) y(2)] show "a = b \<and> r = s"
    by (simp add: prod_eq_iff)
qed

lemma prefix_code_run [codec_intros]:
  assumes "prefix_code c" "prefix_code e"
  shows "prefix_code (enc_run c e)"
proof
  fix a x b y r s
  assume "enc_run c e a = Some x" "enc_run c e b = Some y" and eq: "x @ r = y @ s"
  then obtain x1 x2 y1 y2 where
    x: "c (length a) = Some x1" "cat (map e a) = Some x2" "x = x1 @ x2" and
    y: "c (length b) = Some y1" "cat (map e b) = Some y2" "y = y1 @ y2"
    by (auto simp: enc_run_def cat_Cons_Some)
  from eq x y have "x1 @ (x2 @ r) = y1 @ (y2 @ s)" by simp
  from prefix_code.prefix_inj[OF assms(1) x(1) y(1) this]
  have "length a = length b" "x2 @ r = y2 @ s" by simp_all
  with prefix_code.run_inj[OF assms(2) _ x(2) y(2)] show "a = b \<and> r = s" by simp
qed

lemma prefix_code_opt [codec_intros]:
  assumes "prefix_code e"
  shows "prefix_code (enc_opt e)"
proof
  fix a x b y r s
  assume *: "enc_opt e a = Some x" "enc_opt e b = Some y" "x @ r = y @ s"
  show "a = b \<and> r = s"
  proof (cases a; cases b)
    fix v w assume ab: "a = Some v" "b = Some w"
    with *(1,2) obtain x1 y1 where
      e: "e v = Some x1" "x = CHR 0x01 # x1" "e w = Some y1" "y = CHR 0x01 # y1"
      by (auto simp: enc_opt_def cat_pair_Some)
    with *(3) have "x1 @ r = y1 @ s" by simp
    from prefix_code.prefix_inj[OF assms e(1) e(3) this] ab show ?thesis by simp
  qed (use * in \<open>auto simp: enc_opt_def cat_pair_Some\<close>)
qed

lemma prefix_code_const [codec_intros]: "prefix_code (enc_const t)"
  by unfold_locales (simp add: enc_const_def)

lemmas field_codes [codec_intros] =
  enc_u64.prefix_code_axioms enc_u8.prefix_code_axioms enc_count.prefix_code_axioms
  enc_count64.prefix_code_axioms enc_bytes.prefix_code_axioms

text \<open>
  Re-indexing: a layout over a record is the code of the tuple of its fields.
\<close>

lemma prefix_code_via:
  assumes "prefix_code e" "\<And>a x. f a = Some x \<Longrightarrow> e (g a) = Some x"
    "\<And>a b. g a = g b \<Longrightarrow> a = b"
  shows "prefix_code f"
  by unfold_locales (metis assms prefix_code.prefix_inj)

end
