(* ===== verification/Wiki_Fold.thy ===== *)
theory Wiki_Fold
  imports Canon_Bytes
begin

text \<open>
  The shared memory as a fold (\<open>molt-core/src/wiki_fold.rs\<close>): the patch parser, the strict
  application of one file's hunks, the application of a whole patch, the fold over the
  applied payloads, and the canonical bytes of the folded tree.

  A tree is a \<open>BTreeMap\<close> from path to document. A \<open>VoidReason\<close> is its message. An
  operation that mutates the tree in place returns the new tree; the caller keeps the old one
  on an error.
\<close>

section \<open>Parsed patches\<close>

record hunk_line =
  hl_op :: char
  hl_text :: string
  hl_newline :: bool

record hunk =
  h_old_start :: nat
  h_old_count :: nat
  h_lines :: "hunk_line list"

record patch_file =
  pf_old_path :: string
  pf_new_path :: string
  pf_added :: bool
  pf_deleted :: bool
  pf_renamed :: bool
  pf_hunks :: "hunk list"

definition patch_file_default :: patch_file where
  "patch_file_default = \<lparr>pf_old_path = [], pf_new_path = [], pf_added = False,
     pf_deleted = False, pf_renamed = False, pf_hunks = []\<rparr>"

definition display_path :: "patch_file \<Rightarrow> string" where
  "display_path f = (if pf_deleted f then pf_old_path f else pf_new_path f)"

definition marker :: "patch_file \<Rightarrow> string" where
  "marker f = (if pf_deleted f then ''<deleted>'' else if pf_renamed f then ''<moved>'' else [])"

text \<open>The arrow of the message is U+2192, three bytes in UTF-8.\<close>

definition header_marker :: "patch_file \<Rightarrow> string" where
  "header_marker f =
     (if \<not> pf_deleted f \<and> pf_renamed f
      then ''<moved> '' @ pf_old_path f @ '' '' @ [CHR 0xE2, CHR 0x86, CHR 0x92] @ '' '' @ pf_new_path f
      else marker f)"

definition pf_status :: "patch_file \<Rightarrow> u8" where
  "pf_status f =
     (if pf_deleted f then 3 else if pf_renamed f then 4 else if pf_added f then 1 else 2)"

section \<open>Parsing\<close>

text \<open>
  \<open>files.last_mut()\<close>: the last file, changed in place; nothing happens on an empty list.
\<close>

definition upd_last :: "('a \<Rightarrow> 'a) \<Rightarrow> 'a list \<Rightarrow> 'a list" where
  "upd_last g xs = (if xs = [] then [] else butlast xs @ [g (last xs)])"

definition opt_parse :: "string \<Rightarrow> nat" where
  "opt_parse s = (case parse_u64 s of None \<Rightarrow> 0 | Some n \<Rightarrow> n)"

definition parse_hunk_old :: "string \<Rightarrow> nat \<times> nat" where
  "parse_hunk_old head =
     (case strip_prefix ''-'' (hd (split_on (CHR '' '') head)) of
        None \<Rightarrow> (0, 0)
      | Some old \<Rightarrow>
          (case split_once (CHR '','') old of
             Some (s, c) \<Rightarrow> (opt_parse s, opt_parse c)
           | None \<Rightarrow> (opt_parse old, 1)))"

definition open_file :: "string \<Rightarrow> patch_file" where
  "open_file rest =
     (case rfind '' b/'' rest of
        Some pos \<Rightarrow> patch_file_default\<lparr>pf_old_path := take pos rest, pf_new_path := drop (pos + 3) rest\<rparr>
      | None \<Rightarrow> patch_file_default)"

definition mark_unterminated :: "patch_file \<Rightarrow> patch_file" where
  "mark_unterminated f =
     f\<lparr>pf_hunks := upd_last (\<lambda>h. h\<lparr>h_lines := upd_last (\<lambda>l. l\<lparr>hl_newline := False\<rparr>) (h_lines h)\<rparr>)
        (pf_hunks f)\<rparr>"

definition push_line :: "string \<Rightarrow> patch_file \<Rightarrow> patch_file" where
  "push_line line f =
     (case line of
        [] \<Rightarrow> f
      | c # cs \<Rightarrow>
          if c \<in> {CHR ''+'', CHR ''-'', CHR '' ''}
          then f\<lparr>pf_hunks := upd_last
                 (\<lambda>h. h\<lparr>h_lines := h_lines h @ [\<lparr>hl_op = c, hl_text = cs, hl_newline = True\<rparr>]\<rparr>)
                 (pf_hunks f)\<rparr>
          else f)"

definition parse_in_file :: "string \<Rightarrow> patch_file \<Rightarrow> patch_file" where
  "parse_in_file line f =
     (if starts_with ''new file mode'' line then f\<lparr>pf_added := True\<rparr>
      else if starts_with ''deleted file mode'' line then f\<lparr>pf_deleted := True\<rparr>
      else (case strip_prefix ''rename from '' line of
        Some p \<Rightarrow> f\<lparr>pf_renamed := True, pf_old_path := p\<rparr>
      | None \<Rightarrow> (case strip_prefix ''rename to '' line of
        Some p \<Rightarrow> f\<lparr>pf_renamed := True, pf_new_path := p\<rparr>
      | None \<Rightarrow> (case strip_prefix ''@@ '' line of
        Some head \<Rightarrow>
          (let (s, c) = parse_hunk_old head in
           f\<lparr>pf_hunks := pf_hunks f @ [\<lparr>h_old_start = s, h_old_count = c, h_lines = []\<rparr>]\<rparr>)
      | None \<Rightarrow>
          if starts_with [CHR 0x5C] line then mark_unterminated f
          else if pf_hunks f = [] \<and>
                  (starts_with ''similarity index'' line \<or> starts_with ''--- '' line
                   \<or> starts_with ''+++ '' line)
          then f
          else push_line line f))))"

definition parse_line :: "patch_file list \<Rightarrow> string \<Rightarrow> patch_file list" where
  "parse_line files line =
     (case strip_prefix ''diff --git a/'' line of
        Some rest \<Rightarrow> files @ [open_file rest]
      | None \<Rightarrow> upd_last (parse_in_file line) files)"

definition parse_patch :: "string \<Rightarrow> patch_file list" where
  "parse_patch patch = foldl parse_line [] (str_lines patch)"

section \<open>Applying\<close>

definition valid_path :: "string \<Rightarrow> bool" where
  "valid_path p =
     (if p = [] \<or> starts_with ''/'' p \<or> ends_with ''/'' p then False
      else (let segments = split_on (CHR ''/'') p in
            if length segments > 8 then False
            else list_all (\<lambda>s. s \<noteq> [] \<and> s \<noteq> ''.'' \<and> s \<noteq> ''..'' \<and> CHR 0x5C \<notin> set s) segments))"

definition to_elements :: "string \<Rightarrow> string list" where
  "to_elements s = split_inclusive_nl s"

definition line_element :: "hunk_line \<Rightarrow> string" where
  "line_element l = (if hl_newline l then hl_text l @ [nl] else hl_text l)"

text \<open>The state of \<open>apply_hunks\<close>: the output so far and the cursor into the old elements.\<close>

definition apply_line ::
  "string list \<Rightarrow> string list \<times> nat \<times> nat \<Rightarrow> hunk_line \<Rightarrow> string + string list \<times> nat \<times> nat" where
  "apply_line old st l =
     (case st of (out, cursor, consumed) \<Rightarrow>
        let elem = line_element l in
        if hl_op l = CHR '' '' \<or> hl_op l = CHR ''-'' then
          if \<not> (cursor < length old \<and> old ! cursor = elem)
          then Inl ''context does not match the base''
          else Inr (if hl_op l = CHR '' '' then out @ [elem] else out, cursor + 1, consumed + 1)
        else if hl_op l = CHR ''+'' then Inr (out @ [elem], cursor, consumed)
        else Inl ''unknown hunk op'')"

definition apply_hunk ::
  "string list \<Rightarrow> string list \<times> nat \<Rightarrow> hunk \<Rightarrow> string + string list \<times> nat" where
  "apply_hunk old st h =
     (case st of (out, cursor) \<Rightarrow>
        rbind (if h_old_count h = 0 then Inr (h_old_start h)
               else if h_old_start h = 0 then Inl ''hunk position 0 with a non-zero count''
               else Inr (h_old_start h - 1))
          (\<lambda>start0.
             if start0 < cursor then Inl ''hunks overlap or run backwards''
             else if start0 > length old then Inl ''hunk position beyond the file''
             else
               rbind (rfold (apply_line old)
                        (out @ take (start0 - cursor) (drop cursor old), start0, 0) (h_lines h))
                 (\<lambda>(out', cursor', consumed).
                    if consumed \<noteq> h_old_count h
                    then Inl ''hunk header count disagrees with its lines''
                    else Inr (out', cursor'))))"

definition apply_hunks :: "string \<Rightarrow> hunk list \<Rightarrow> string + string" where
  "apply_hunks old_text hunks =
     (let old = to_elements old_text in
      rbind (rfold (apply_hunk old) ([], 0) hunks)
        (\<lambda>(out, cursor). Inr (concat (out @ drop cursor old))))"

type_synonym wiki_tree = "(string, string) btree"

text \<open>The collision rule: no path is named by two files of one patch.\<close>

definition touch_path ::
  "string list \<times> string list \<Rightarrow> string \<Rightarrow> string + string list \<times> string list" where
  "touch_path st p =
     (case st of (own, touched) \<Rightarrow>
        if p = [] \<or> p \<in> set own then Inr (own, touched)
        else if p \<in> set touched then Inl (''path touched twice: '' @ p)
        else Inr (bset_insert p own, bset_insert p touched))"

definition touch_file :: "string list \<Rightarrow> patch_file \<Rightarrow> string + string list" where
  "touch_file touched f =
     rbind (rfold touch_path ([], touched) [pf_old_path f, pf_new_path f])
       (\<lambda>(own, touched'). Inr touched')"

definition apply_file :: "wiki_tree \<Rightarrow> patch_file \<Rightarrow> string + wiki_tree" where
  "apply_file work f =
     (if \<not> valid_path (pf_new_path f) \<and> \<not> pf_deleted f
      then Inl (''invalid path: '' @ pf_new_path f)
      else if \<not> valid_path (pf_old_path f)
      then Inl (''invalid path: '' @ pf_old_path f)
      else if pf_added f then
        (if bt_contains work (pf_new_path f) then Inl (''already exists: '' @ pf_new_path f)
         else rbind (apply_hunks [] (pf_hunks f))
                (\<lambda>content. Inr (bt_insert (pf_new_path f) content work)))
      else
        (case bt_get work (pf_old_path f) of
           None \<Rightarrow> Inl (''missing: '' @ pf_old_path f)
         | Some old \<Rightarrow>
             (let work' = bt_remove (pf_old_path f) work in
              if pf_deleted f then
                rbind (apply_hunks old (pf_hunks f))
                  (\<lambda>left. if left \<noteq> [] then Inl (''deletion leaves content: '' @ pf_old_path f)
                          else Inr work')
              else if pf_renamed f \<and> bt_contains work' (pf_new_path f)
              then Inl (''rename target exists: '' @ pf_new_path f)
              else rbind (apply_hunks old (pf_hunks f))
                     (\<lambda>content. Inr (bt_insert (pf_new_path f) content work')))))"

definition apply_patch :: "wiki_tree \<Rightarrow> patch_file list \<Rightarrow> string + wiki_tree" where
  "apply_patch tree files =
     (if files = [] then Inl ''empty patch''
      else rbind (rfold touch_file [] files)
             (\<lambda>_. rfold apply_file tree files))"

definition touched_paths :: "patch_file list \<Rightarrow> string list" where
  "touched_paths files =
     fold (\<lambda>f out. fold (\<lambda>p out. if p = [] then out else bset_insert p out)
                     [pf_old_path f, pf_new_path f] out) files []"

section \<open>The fold\<close>

definition fold_one :: "wiki_tree \<Rightarrow> json \<Rightarrow> wiki_tree \<times> bool" where
  "fold_one tree payload =
     (if get_str payload ''op'' \<noteq> Some ''wiki_patch'' then (tree, False)
      else (case get_str payload ''value'' of
              None \<Rightarrow> (tree, False)
            | Some patch \<Rightarrow>
                (case apply_patch tree (parse_patch patch) of
                   Inl _ \<Rightarrow> (tree, False)
                 | Inr tree' \<Rightarrow> (tree', True))))"

text \<open>
  The revision counts applied patches in 64 bits. Where it wraps here, \<open>rev += 1\<close> aborts in a build with overflow
  checks; a log of \<open>2 ^ 64\<close> applied patches is out of reach.
\<close>

definition wiki_step :: "wiki_tree \<times> u64 \<Rightarrow> json \<Rightarrow> wiki_tree \<times> u64" where
  "wiki_step st payload =
     (case fold_one (fst st) payload of (tree, applied) \<Rightarrow> (tree, if applied then snd st + 1 else snd st))"

definition wiki_fold_with_rev :: "json list \<Rightarrow> wiki_tree \<times> u64" where
  "wiki_fold_with_rev applied = foldl wiki_step ([], 0) applied"

definition wiki_fold :: "json list \<Rightarrow> wiki_tree" where
  "wiki_fold applied = fst (wiki_fold_with_rev applied)"

section \<open>The base stream\<close>

definition wiki_base_tag :: bytes where
  "wiki_base_tag = ''molt-wiki-base-v1'' @ [CHR 0x00]"

definition wiki_base_canonical_bytes :: "wiki_tree \<Rightarrow> bytes option" where
  "wiki_base_canonical_bytes tree =
     cat (Some wiki_base_tag # put_count64 (length tree)
          # map (\<lambda>(path, content). cat [put_bytes path, put_bytes content]) tree)"

text \<open>
  \<open>String::from_utf8\<close>: well-formed UTF-8 (no overlong forms, no surrogates, at most
  U+10FFFF).
\<close>

definition byte_in :: "nat \<Rightarrow> nat \<Rightarrow> char \<Rightarrow> bool" where
  "byte_in lo hi c \<longleftrightarrow> lo \<le> of_char c \<and> of_char c \<le> hi"

fun utf8_valid :: "bytes \<Rightarrow> bool" where
  "utf8_valid [] = True"
| "utf8_valid (a # bs) =
     (if byte_in 0x00 0x7F a then utf8_valid bs
      else case bs of
        [] \<Rightarrow> False
      | b # cs \<Rightarrow>
          if byte_in 0xC2 0xDF a then byte_in 0x80 0xBF b \<and> utf8_valid cs
          else case cs of
            [] \<Rightarrow> False
          | c # ds \<Rightarrow>
              if byte_in 0xE0 0xEF a
              then byte_in (if byte_in 0xE0 0xE0 a then 0xA0 else 0x80)
                     (if byte_in 0xED 0xED a then 0x9F else 0xBF) b
                   \<and> byte_in 0x80 0xBF c \<and> utf8_valid ds
              else case ds of
                [] \<Rightarrow> False
              | d # es \<Rightarrow>
                  byte_in 0xF0 0xF4 a
                  \<and> byte_in (if byte_in 0xF0 0xF0 a then 0x90 else 0x80)
                      (if byte_in 0xF4 0xF4 a then 0x8F else 0xBF) b
                  \<and> byte_in 0x80 0xBF c \<and> byte_in 0x80 0xBF d \<and> utf8_valid es)"

text \<open>
  The reader keeps the unread rest of the stream in place of an offset: \<open>take_bytes n\<close> fails
  where the offset would overrun.
\<close>

definition take_bytes :: "nat \<Rightarrow> string \<Rightarrow> bytes \<Rightarrow> string + bytes \<times> bytes" where
  "take_bytes n what rest =
     (if length rest < n then Inl (what @ '' overruns the stream'')
      else Inr (take n rest, drop n rest))"

definition take_field :: "string \<Rightarrow> bytes \<Rightarrow> string + bytes \<times> bytes" where
  "take_field what rest =
     rbind (take_bytes 4 what rest)
       (\<lambda>(len, rest'). take_bytes (from_le_bytes len) what rest')"

definition utf8_field :: "string \<Rightarrow> bytes \<Rightarrow> string + string \<times> bytes" where
  "utf8_field what rest =
     rbind (take_field what rest)
       (\<lambda>(raw, rest'). if utf8_valid raw then Inr (raw, rest') else Inl (what @ '' is not utf-8''))"

primrec read_entries :: "nat \<Rightarrow> wiki_tree \<Rightarrow> bytes \<Rightarrow> string + wiki_tree \<times> bytes" where
  "read_entries 0 tree rest = Inr (tree, rest)"
| "read_entries (Suc n) tree rest =
     rbind (utf8_field ''a path'' rest) (\<lambda>(path, rest1).
     rbind (utf8_field ''a document'' rest1) (\<lambda>(content, rest2).
       read_entries n (bt_insert path content tree) rest2))"

definition wiki_base_from_canonical_bytes :: "bytes \<Rightarrow> string + wiki_tree" where
  "wiki_base_from_canonical_bytes b =
     rbind (ok_or ''not a molt-wiki-base-v1 stream'' (strip_prefix wiki_base_tag b)) (\<lambda>rest.
     rbind (take_bytes 8 ''the entry count'' rest) (\<lambda>(cnt, rest1).
     rbind (read_entries (from_le_bytes cnt) [] rest1) (\<lambda>(tree, rest2).
       if rest2 \<noteq> [] then Inl ''trailing bytes after the tree'' else Inr tree)))"

end
