(* ===== verification/Wiki_Laws.thy ===== *)
theory Wiki_Laws
  imports Wiki_Fold
begin

text \<open>
  Correctness of the shared-memory fold: the declarative meaning of a strict hunk
  application, which part of the tree a patch reads and writes, the revision counter and the
  base stream.
\<close>

section \<open>Elements\<close>

lemma concat_to_elements [simp]: "concat (to_elements s) = s"
  by (simp add: to_elements_def concat_split_inclusive_nl)

lemma to_elements_not_empty: "e \<in> set (to_elements s) \<Longrightarrow> e \<noteq> []"
  unfolding to_elements_def
  by (induction s) (auto split: list.splits if_splits)

section \<open>Hunks\<close>

definition old_side :: "hunk \<Rightarrow> string list" where
  "old_side h = map line_element (filter (\<lambda>l. hl_op l \<in> {CHR '' '', CHR ''-''}) (h_lines h))"

definition new_side :: "hunk \<Rightarrow> string list" where
  "new_side h = map line_element (filter (\<lambda>l. hl_op l \<in> {CHR '' '', CHR ''+''}) (h_lines h))"

definition ops_ok :: "hunk \<Rightarrow> bool" where
  "ops_ok h \<longleftrightarrow> (\<forall>l \<in> set (h_lines h). hl_op l \<in> {CHR '' '', CHR ''-'', CHR ''+''})"

text \<open>The 0-based line a hunk starts at, where its header gives one.\<close>

definition start_line :: "hunk \<Rightarrow> nat option" where
  "start_line h =
     (if h_old_count h = 0 then Some (h_old_start h)
      else if h_old_start h = 0 then None else Some (h_old_start h - 1))"

text \<open>
  \<open>spliced c old hs new\<close>: reading the old lines from position \<open>c\<close> on, the hunks \<open>hs\<close>
  replace exactly their old sides, at exactly their positions, by their new sides, and every
  other line is kept.
\<close>

inductive spliced :: "nat \<Rightarrow> string list \<Rightarrow> hunk list \<Rightarrow> string list \<Rightarrow> bool" where
  spliced_done: "spliced c rest [] rest"
| spliced_hunk:
    "start_line h = Some (c + length gap) \<Longrightarrow> ops_ok h \<Longrightarrow> length (old_side h) = h_old_count h \<Longrightarrow>
     spliced (c + length gap + length (old_side h)) rest hs out \<Longrightarrow>
     spliced c (gap @ old_side h @ rest) (h # hs) (gap @ new_side h @ out)"

lemma apply_line_cases:
  "hl_op l \<in> {CHR '' '', CHR ''-''} \<Longrightarrow>
     apply_line old (out, c, k) l =
       (if c < length old \<and> old ! c = line_element l
        then Inr (if hl_op l = CHR '' '' then out @ [line_element l] else out, Suc c, Suc k)
        else Inl ''context does not match the base'')"
  "hl_op l = CHR ''+'' \<Longrightarrow> apply_line old (out, c, k) l = Inr (out @ [line_element l], c, k)"
  "hl_op l \<notin> {CHR '' '', CHR ''-'', CHR ''+''} \<Longrightarrow> apply_line old (out, c, k) l = Inl ''unknown hunk op''"
  by (auto simp: apply_line_def Let_def)

lemma take_Suc_drop:
  "take (Suc n) (drop c xs) = x # ys \<longleftrightarrow> c < length xs \<and> xs ! c = x \<and> take n (drop (Suc c) xs) = ys"
proof (cases "c < length xs")
  case True
  then have "drop c xs = xs ! c # drop (Suc c) xs" by (metis Cons_nth_drop_Suc)
  then show ?thesis using True by auto
qed simp

lemma apply_lines_iff:
  "rfold (apply_line old) (out, c, k) ls = Inr (out', c', k') \<longleftrightarrow>
     (\<forall>l \<in> set ls. hl_op l \<in> {CHR '' '', CHR ''-'', CHR ''+''}) \<and>
     (let os = map line_element (filter (\<lambda>l. hl_op l \<in> {CHR '' '', CHR ''-''}) ls) in
        (os = [] \<or> c + length os \<le> length old) \<and> take (length os) (drop c old) = os \<and>
        out' = out @ map line_element (filter (\<lambda>l. hl_op l \<in> {CHR '' '', CHR ''+''}) ls) \<and>
        c' = c + length os \<and> k' = k + length os)"
proof (induction ls arbitrary: out c k)
  case Nil
  then show ?case by auto
next
  case (Cons l ls)
  consider (old) "hl_op l \<in> {CHR '' '', CHR ''-''}" | (plus) "hl_op l = CHR ''+''"
    | (bad) "hl_op l \<notin> {CHR '' '', CHR ''-'', CHR ''+''}" by auto
  then show ?case
  proof cases
    case old
    then show ?thesis
      by (auto simp: apply_line_cases(1)[OF old] Cons.IH Let_def take_Suc_drop Suc_le_eq)
  next
    case plus
    then show ?thesis by (simp add: apply_line_cases(2) Let_def Cons.IH)
  next
    case bad
    then show ?thesis using apply_line_cases(3)[OF bad] by auto
  qed
qed

lemma apply_hunk_iff:
  "apply_hunk old (out, c) h = Inr (out', c') \<longleftrightarrow>
     (\<exists>s. start_line h = Some s \<and> c \<le> s \<and> s \<le> length old \<and> ops_ok h \<and>
        length (old_side h) = h_old_count h \<and>
        (old_side h = [] \<or> s + length (old_side h) \<le> length old) \<and>
        take (length (old_side h)) (drop s old) = old_side h \<and>
        out' = out @ take (s - c) (drop c old) @ new_side h \<and> c' = s + length (old_side h))"
  unfolding apply_hunk_def start_line_def ops_ok_def old_side_def new_side_def
  by (cases "h_old_count h = 0"; cases "h_old_start h = 0")
    (auto simp: rbind_eq_Inr apply_lines_iff Let_def)

lemma apply_hunk_splits:
  assumes "apply_hunk old (out, c) h = Inr (out', c')" "c \<le> length old"
  shows "\<exists>gap. drop c old = gap @ old_side h @ drop c' old \<and> out' = out @ gap @ new_side h \<and>
     start_line h = Some (c + length gap) \<and> ops_ok h \<and> length (old_side h) = h_old_count h \<and>
     c' = c + length gap + length (old_side h) \<and> c' \<le> length old"
proof -
  from assms(1) obtain s where s: "start_line h = Some s" "c \<le> s" "s \<le> length old" "ops_ok h"
    "length (old_side h) = h_old_count h" "old_side h = [] \<or> s + length (old_side h) \<le> length old"
    "take (length (old_side h)) (drop s old) = old_side h"
    "out' = out @ take (s - c) (drop c old) @ new_side h" "c' = s + length (old_side h)"
    by (auto simp: apply_hunk_iff)
  let ?gap = "take (s - c) (drop c old)"
  have "drop c old = ?gap @ drop s old"
    using s(2) by (metis append_take_drop_id drop_drop le_add_diff_inverse2)
  also have "drop s old = old_side h @ drop c' old"
    using s(7,9) by (metis append_take_drop_id drop_drop add.commute)
  finally show ?thesis using s by (intro exI[of _ ?gap]) auto
qed

lemma apply_hunks_spliced:
  assumes "rfold (apply_hunk old) (out, c) hs = Inr (out', c')" "c \<le> length old"
  shows "\<exists>new. spliced c (drop c old) hs new \<and> out' @ drop c' old = out @ new"
  using assms
proof (induction hs arbitrary: out c)
  case Nil
  then show ?case by (auto intro: spliced_done)
next
  case (Cons h hs)
  from Cons.prems(1) obtain out1 c1 where step: "apply_hunk old (out, c) h = Inr (out1, c1)"
    "rfold (apply_hunk old) (out1, c1) hs = Inr (out', c')"
    by (auto simp: rbind_eq_Inr)
  from apply_hunk_splits[OF step(1) Cons.prems(2)] obtain gap where
    g: "drop c old = gap @ old_side h @ drop c1 old" "out1 = out @ gap @ new_side h"
    "start_line h = Some (c + length gap)" "ops_ok h" "length (old_side h) = h_old_count h"
    "c1 = c + length gap + length (old_side h)" "c1 \<le> length old" by blast
  from Cons.IH[OF step(2) g(7)] obtain new where
    new: "spliced c1 (drop c1 old) hs new" "out' @ drop c' old = out1 @ new" by blast
  have "spliced c (gap @ old_side h @ drop c1 old) (h # hs) (gap @ new_side h @ new)"
    using g(3,4,5) new(1) g(6) by (intro spliced_hunk) auto
  then show ?case using g(1,2) new(2) by auto
qed

lemma spliced_apply_hunks:
  assumes "spliced c rest hs new" "rest = drop c old" "c \<le> length old"
  shows "\<exists>out' c'. rfold (apply_hunk old) (out, c) hs = Inr (out', c') \<and> out' @ drop c' old = out @ new"
  using assms
proof (induction c rest hs new arbitrary: out rule: spliced.induct)
  case (spliced_done c rest)
  then show ?case by simp
next
  case (spliced_hunk h c gap rest hs new)
  let ?s = "c + length gap" and ?c1 = "c + length gap + length (old_side h)"
  have split: "drop c old = gap @ old_side h @ rest" using spliced_hunk.prems(1) by (rule sym)
  have len: "length old = ?c1 + length rest"
    using arg_cong[OF split, of length] spliced_hunk.prems(2) by simp
  have at: "drop ?s old = old_side h @ rest" "drop ?c1 old = rest"
    using arg_cong[OF split, of "drop (length gap)"]
      arg_cong[OF split, of "drop (length gap + length (old_side h))"]
    by (simp_all add: ac_simps)
  have gap: "take (?s - c) (drop c old) = gap" by (simp add: split)
  have step: "apply_hunk old (out, c) h = Inr (out @ gap @ new_side h, ?c1)"
    unfolding apply_hunk_iff
    by (rule exI[of _ ?s]) (use spliced_hunk.hyps(1,2,3) at len gap in auto)
  from spliced_hunk.IH[OF at(2)[symmetric], of "out @ gap @ new_side h"] len obtain out' c' where
    "rfold (apply_hunk old) (out @ gap @ new_side h, ?c1) hs = Inr (out', c')"
    "out' @ drop c' old = (out @ gap @ new_side h) @ new" by auto
  with step show ?case by auto
qed

section \<open>What a patch reads and writes\<close>

definition named_paths :: "patch_file \<Rightarrow> string set" where
  "named_paths f = {pf_old_path f, pf_new_path f} - {[]}"

lemma set_touched_paths: "set (touched_paths files) = (\<Union>f \<in> set files. named_paths f)"
proof -
  have "set (fold (\<lambda>f out. fold (\<lambda>p out. if p = [] then out else bset_insert p out)
                     [pf_old_path f, pf_new_path f] out) files acc)
      = set acc \<union> (\<Union>f \<in> set files. named_paths f)" for acc
    by (induction files arbitrary: acc) (auto simp: named_paths_def)
  then show ?thesis by (simp add: touched_paths_def)
qed

lemma valid_path_not_Nil: "valid_path p \<Longrightarrow> p \<noteq> []"
  by (auto simp: valid_path_def)

text \<open>
  A file marked as both added and deleted: the only shape whose new path the application
  writes without having validated it.
\<close>

definition contradictory :: "patch_file \<Rightarrow> bool" where
  "contradictory f \<longleftrightarrow> pf_added f \<and> pf_deleted f"

definition agree_on :: "string set \<Rightarrow> wiki_tree \<Rightarrow> wiki_tree \<Rightarrow> bool" where
  "agree_on P t u \<longleftrightarrow> (\<forall>p \<in> P. bt_get t p = bt_get u p)"

lemma agree_on_insert: "agree_on P t u \<Longrightarrow> agree_on P (bt_insert k v t) (bt_insert k v u)"
  by (simp add: agree_on_def btmap.get_put)

lemma agree_on_remove: "agree_on P t u \<Longrightarrow> agree_on P (bt_remove k t) (bt_remove k u)"
  by (simp add: agree_on_def btmap.get_del)

lemma agree_on_get: "agree_on P t u \<Longrightarrow> p \<in> P \<Longrightarrow> bt_get t p = bt_get u p"
  by (simp add: agree_on_def)

definition same_verdict :: "string set \<Rightarrow> string + wiki_tree \<Rightarrow> string + wiki_tree \<Rightarrow> bool" where
  "same_verdict P a b =
     (case (a, b) of (Inl e, Inl e') \<Rightarrow> e = e' | (Inr t, Inr u) \<Rightarrow> agree_on P t u | _ \<Rightarrow> False)"

lemma same_verdict_simps [simp]:
  "same_verdict P (Inl e) (Inl e') \<longleftrightarrow> e = e'"
  "same_verdict P (Inr t) (Inr u) \<longleftrightarrow> agree_on P t u"
  "\<not> same_verdict P (Inl e) (Inr u)"
  "\<not> same_verdict P (Inr t) (Inl e)"
  by (simp_all add: same_verdict_def)

lemma same_verdict_rbind:
  "(\<And>x. m = Inr x \<Longrightarrow> same_verdict P (f x) (g x)) \<Longrightarrow> same_verdict P (rbind m f) (rbind m g)"
  by (cases m) auto

lemma apply_file_local:
  assumes "agree_on P t u" "named_paths f \<subseteq> P" "\<not> contradictory f"
  shows "same_verdict P (apply_file t f) (apply_file u f)"
proof (cases "valid_path (pf_old_path f) \<and> (pf_deleted f \<or> valid_path (pf_new_path f))")
  case False
  then show ?thesis by (auto simp: apply_file_def)
next
  case True
  let ?t = "bt_remove (pf_old_path f) t" and ?u = "bt_remove (pf_old_path f) u"
  have old: "bt_get t (pf_old_path f) = bt_get u (pf_old_path f)"
    using True assms(1,2) by (auto simp: agree_on_def named_paths_def valid_path_not_Nil)
  have new: "bt_contains t (pf_new_path f) = bt_contains u (pf_new_path f)"
    "bt_contains ?t (pf_new_path f) = bt_contains ?u (pf_new_path f)" if "\<not> pf_deleted f"
    using True that assms(1,2)
    by (auto simp: agree_on_def named_paths_def bt_contains_def btmap.get_del valid_path_not_Nil)
  show ?thesis
  proof (cases "pf_added f")
    case added: True
    then have "\<not> pf_deleted f" using assms(3) by (simp add: contradictory_def)
    then show ?thesis using True added assms(1) new
      by (auto simp: apply_file_def intro!: same_verdict_rbind agree_on_insert)
  next
    case False
    show ?thesis
      using True False assms(1) old new
      by (cases "bt_get u (pf_old_path f)"; cases "pf_deleted f")
        (auto simp: apply_file_def Let_def intro!: same_verdict_rbind agree_on_insert agree_on_remove)
  qed
qed

lemma apply_files_local:
  assumes "agree_on P t u" "\<forall>f \<in> set files. named_paths f \<subseteq> P \<and> \<not> contradictory f"
  shows "same_verdict P (rfold apply_file t files) (rfold apply_file u files)"
  using assms
proof (induction files arbitrary: t u)
  case Nil
  then show ?case by simp
next
  case (Cons f files)
  have "same_verdict P (apply_file t f) (apply_file u f)"
    using Cons.prems by (intro apply_file_local) auto
  then show ?case using Cons.IH Cons.prems(2)
    by (cases "apply_file t f"; cases "apply_file u f") auto
qed

lemma apply_patch_local:
  assumes "agree_on (set (touched_paths files)) t u" "\<not> list_ex contradictory files"
  shows "same_verdict (set (touched_paths files)) (apply_patch t files) (apply_patch u files)"
proof -
  have "\<forall>f \<in> set files. named_paths f \<subseteq> set (touched_paths files) \<and> \<not> contradictory f"
    using assms(2) by (auto simp: set_touched_paths list_ex_iff)
  then show ?thesis using apply_files_local[OF assms(1)]
    by (auto simp: apply_patch_def intro: same_verdict_rbind)
qed

lemma apply_file_frame:
  assumes "apply_file t f = Inr t'" "\<not> contradictory f" "p \<notin> named_paths f"
  shows "bt_get t' p = bt_get t p"
  using assms
  by (auto simp: apply_file_def contradictory_def named_paths_def rbind_eq_Inr btmap.get_put
      btmap.get_del Let_def valid_path_def split: if_splits option.splits)

lemma apply_patch_files: "apply_patch t files = Inr t' \<Longrightarrow> rfold apply_file t files = Inr t'"
  by (auto simp: apply_patch_def rbind_eq_Inr split: if_splits)

lemma apply_patch_frame:
  assumes "apply_patch t files = Inr t'" "\<not> list_ex contradictory files"
    "p \<notin> set (touched_paths files)"
  shows "bt_get t' p = bt_get t p"
proof -
  have "\<forall>f \<in> set files. \<not> contradictory f \<and> p \<notin> named_paths f"
    using assms(2,3) by (auto simp: set_touched_paths list_ex_iff)
  then show ?thesis
    using rfold_invariant[OF apply_patch_files[OF assms(1)], of "\<lambda>w. bt_get w p = bt_get t p"]
      apply_file_frame by metis
qed

section \<open>Invariants of the tree\<close>

definition tree_ok :: "wiki_tree \<Rightarrow> bool" where
  "tree_ok t \<longleftrightarrow> bt_wf t \<and> (\<forall>p \<in> set (bt_keys t). valid_path p)"

lemma bt_keys_insert: "set (bt_keys (bt_insert k v m)) = insert k (set (bt_keys m))"
  by (simp add: bt_keys_def set_bt_insert)

lemma bt_keys_remove: "set (bt_keys (bt_remove k m)) \<subseteq> set (bt_keys m)"
  by (auto simp: bt_keys_def bt_remove_def)

lemma apply_file_wf: "apply_file t f = Inr t' \<Longrightarrow> bt_wf t \<Longrightarrow> bt_wf t'"
  by (auto simp: apply_file_def rbind_eq_Inr Let_def split: if_splits option.splits)

lemma apply_file_tree_ok:
  assumes "apply_file t f = Inr t'" "tree_ok t" "\<not> contradictory f"
  shows "tree_ok t'"
  using assms bt_keys_remove[of "pf_old_path f" t]
  by (auto simp: apply_file_def contradictory_def tree_ok_def rbind_eq_Inr bt_keys_insert Let_def
      split: if_splits option.splits)

lemma apply_patch_wf: "apply_patch t files = Inr t' \<Longrightarrow> bt_wf t \<Longrightarrow> bt_wf t'"
  by (rule rfold_invariant[where I = bt_wf, OF apply_patch_files]) (auto dest: apply_file_wf)

lemma apply_patch_tree_ok:
  assumes "apply_patch t files = Inr t'" "tree_ok t" "\<not> list_ex contradictory files"
  shows "tree_ok t'"
  by (rule rfold_invariant[where I = tree_ok, OF apply_patch_files[OF assms(1)]])
    (use assms(2,3) in \<open>auto simp: list_ex_iff intro: apply_file_tree_ok\<close>)

lemma fold_one_wf: "bt_wf t \<Longrightarrow> bt_wf (fst (fold_one t payload))"
  by (auto simp: fold_one_def split: option.splits sum.splits dest: apply_patch_wf)

lemma fst_wiki_step [simp]: "fst (wiki_step st p) = fst (fold_one (fst st) p)"
  by (simp add: wiki_step_def split: prod.splits)

lemma wiki_steps_wf: "bt_wf (fst st) \<Longrightarrow> bt_wf (fst (foldl wiki_step st ps))"
  by (induction ps arbitrary: st) (simp_all add: fold_one_wf)

lemma wiki_fold_wf: "bt_wf (wiki_fold ps)"
  by (simp add: wiki_fold_def wiki_fold_with_rev_def wiki_steps_wf)

lemma wiki_fold_snoc: "wiki_fold (ps @ [p]) = fst (fold_one (wiki_fold ps) p)"
  by (simp add: wiki_fold_def wiki_fold_with_rev_def)

text \<open>The patch a payload carries, if it is a wiki patch.\<close>

definition patch_of :: "json \<Rightarrow> patch_file list option" where
  "patch_of payload =
     (if get_str payload ''op'' = Some ''wiki_patch''
      then map_option parse_patch (get_str payload ''value'') else None)"

lemma fold_one_patch_of:
  "fold_one t payload =
     (case patch_of payload of
        None \<Rightarrow> (t, False)
      | Some files \<Rightarrow> (case apply_patch t files of Inl _ \<Rightarrow> (t, False) | Inr t' \<Rightarrow> (t', True)))"
  by (auto simp: fold_one_def patch_of_def split: option.splits)

lemma wiki_fold_tree_ok:
  assumes "\<forall>p \<in> set ps. \<forall>files. patch_of p = Some files \<longrightarrow> \<not> list_ex contradictory files"
  shows "tree_ok (wiki_fold ps)"
  using assms
proof (induction ps rule: rev_induct)
  case Nil
  then show ?case by (simp add: wiki_fold_def wiki_fold_with_rev_def tree_ok_def bt_keys_def)
next
  case (snoc p ps)
  then show ?case
    by (auto simp: wiki_fold_snoc fold_one_patch_of intro: apply_patch_tree_ok
        split: option.splits sum.splits)
qed

section \<open>The revision\<close>

definition applied_at :: "json list \<Rightarrow> nat \<Rightarrow> bool" where
  "applied_at ps i \<longleftrightarrow> snd (fold_one (wiki_fold (take i ps)) (ps ! i))"

lemma applied_at_snoc:
  "{i. i < length (ps @ [p]) \<and> applied_at (ps @ [p]) i} =
     {i. i < length ps \<and> applied_at ps i} \<union>
     (if snd (fold_one (wiki_fold ps) p) then {length ps} else {})"
  by (auto simp: applied_at_def nth_append less_Suc_eq)

lemma wiki_rev_card:
  "snd (wiki_fold_with_rev ps) = of_nat (card {i. i < length ps \<and> applied_at ps i})"
proof (induction ps rule: rev_induct)
  case Nil
  then show ?case by (simp add: wiki_fold_with_rev_def)
next
  case (snoc p ps)
  have "snd (wiki_fold_with_rev (ps @ [p])) =
      (if snd (fold_one (wiki_fold ps) p) then snd (wiki_fold_with_rev ps) + 1
       else snd (wiki_fold_with_rev ps))"
    by (simp add: wiki_fold_with_rev_def wiki_fold_def wiki_step_def split: prod.splits)
  then show ?case unfolding applied_at_snoc using snoc by simp
qed

section \<open>The base stream\<close>

lemma wiki_base_bytes_code:
  "wiki_base_canonical_bytes t = Some b \<longleftrightarrow>
     (\<exists>r. enc_run put_count64 (enc_pair put_bytes put_bytes) t = Some r \<and> b = wiki_base_tag @ r)"
  by (auto simp: wiki_base_canonical_bytes_def enc_run_def enc_pair_eta cat_Cons_Some)

lemma wiki_base_bytes_inj:
  assumes "wiki_base_canonical_bytes t = Some b" "wiki_base_canonical_bytes u = Some b"
  shows "t = u"
proof -
  have "prefix_code (enc_run put_count64 (enc_pair put_bytes put_bytes))"
    by (intro codec_intros)
  from prefix_code.enc_inj[OF this] assms show ?thesis by (auto simp: wiki_base_bytes_code)
qed

lemma take_field_put:
  "put_bytes a = Some x \<Longrightarrow> take_field what (x @ rest) = Inr (a, rest)"
  by (auto simp: put_bytes_def take_field_def take_bytes_def from_le_le_bytes split: if_splits)

lemma utf8_field_put:
  "put_bytes a = Some x \<Longrightarrow> utf8_valid a \<Longrightarrow> utf8_field what (x @ rest) = Inr (a, rest)"
  by (simp add: utf8_field_def take_field_put)

lemma bt_insert_snoc:
  "\<forall>x \<in> set (map fst acc). x < k \<Longrightarrow> bt_insert k v acc = acc @ [(k, v)]"
  using bt_insert_split[of acc k v "[]"] by simp

lemma read_entries_run:
  assumes "cat (map (enc_pair put_bytes put_bytes) t) = Some x"
    "\<forall>(p, c) \<in> set t. utf8_valid p \<and> utf8_valid c" "sorted_wrt (<) (map fst (acc @ t))"
  shows "read_entries (length t) acc (x @ rest) = Inr (acc @ t, rest)"
  using assms
proof (induction t arbitrary: acc x)
  case Nil
  then show ?case by simp
next
  case (Cons e t)
  obtain p c where e: "e = (p, c)" by (cases e)
  from Cons.prems(1) obtain a b y where
    x: "put_bytes p = Some a" "put_bytes c = Some b" "cat (map (enc_pair put_bytes put_bytes) t) = Some y"
      "x = (a @ b) @ y"
    by (auto simp: e cat_Cons_Some enc_pair_apply)
  have ins: "bt_insert p c acc = acc @ [(p, c)]"
    using Cons.prems(3) by (intro bt_insert_snoc) (auto simp: e sorted_wrt_append)
  have "read_entries (length t) (acc @ [(p, c)]) (y @ rest) = Inr ((acc @ [(p, c)]) @ t, rest)"
    using Cons.prems(2,3) by (intro Cons.IH[OF x(3)]) (auto simp: e)
  then show ?case
    using Cons.prems(2) x by (simp add: e utf8_field_put ins)
qed

lemma wiki_base_read:
  assumes "bt_wf t" "\<forall>(p, c) \<in> set t. utf8_valid p \<and> utf8_valid c"
    "wiki_base_canonical_bytes t = Some b"
  shows "wiki_base_from_canonical_bytes b = Inr t"
proof -
  from assms(3) obtain n x where b: "put_count64 (length t) = Some n"
    "cat (map (enc_pair put_bytes put_bytes) t) = Some x" "b = wiki_base_tag @ n @ x"
    by (auto simp: wiki_base_bytes_code enc_run_def cat_Cons_Some)
  have n: "length n = 8" "from_le_bytes n = length t"
    using b(1) by (auto simp: put_count64_def from_le_le_bytes split: if_splits)
  have "read_entries (length t) [] (x @ []) = Inr ([] @ t, [])"
    by (rule read_entries_run[OF b(2) assms(2)]) (use assms(1) in \<open>simp add: bt_wf_def\<close>)
  then show ?thesis
    using n by (simp add: wiki_base_from_canonical_bytes_def b(3) take_bytes_def)
qed

section \<open>Restricting a tree\<close>

definition restrict_tree :: "string list \<Rightarrow> wiki_tree \<Rightarrow> wiki_tree" where
  "restrict_tree ps t = filter (\<lambda>(p, _). p \<in> set ps) t"

lemma get_restrict_tree: "bt_get (restrict_tree ps t) p = (if p \<in> set ps then bt_get t p else None)"
  by (induction t) (auto simp: restrict_tree_def)

lemma restrict_tree_wf: "bt_wf t \<Longrightarrow> bt_wf (restrict_tree ps t)"
  by (induction t) (auto simp: restrict_tree_def bt_wf_def)

lemma restricted_run:
  assumes "bt_wf t" "\<not> list_ex contradictory files" "apply_patch t files = Inr t'"
    "apply_patch (restrict_tree (touched_paths files) t) files = Inr u'"
    "agree_on (set (touched_paths files)) t' u'"
  shows "u' = restrict_tree (touched_paths files) t'"
proof (rule bt_wf_eqI)
  show "bt_wf u'" "bt_wf (restrict_tree (touched_paths files) t')"
    using assms apply_patch_wf restrict_tree_wf by blast+
  show "bt_get u' p = bt_get (restrict_tree (touched_paths files) t') p" for p
    using assms(5) apply_patch_frame[OF assms(4,2), of p]
    by (auto simp: get_restrict_tree agree_on_def)
qed

lemma splice_applies:
  assumes "spliced 0 (to_elements old) hs out"
  shows "apply_hunks old hs = Inr (concat out)"
proof -
  from spliced_apply_hunks[OF assms, of "to_elements old" "[]"] obtain out' c' where
    "rfold (apply_hunk (to_elements old)) ([], 0) hs = Inr (out', c')"
    "out' @ drop c' (to_elements old) = out" by auto
  then show ?thesis by (simp add: apply_hunks_def Let_def flip: concat_append)
qed

section \<open>Properties\<close>

text \<open>C34: a strict application is exactly a splice: \<open>apply_hunks\<close> returns a text if and only
  if the hunks' old sides stand in the old text, element by element, at the positions their
  headers name, in order and without overlap; the result replaces them by the new sides and
  keeps every other line byte for byte. In every other case it refuses.
\<close>

theorem apply_hunks_exact_splice:
  "apply_hunks old hs = Inr new \<longleftrightarrow>
     (\<exists>out. spliced 0 (to_elements old) hs out \<and> new = concat out)"
proof
  assume "apply_hunks old hs = Inr new"
  then obtain out' c' where *: "rfold (apply_hunk (to_elements old)) ([], 0) hs = Inr (out', c')"
    "new = concat (out' @ drop c' (to_elements old))"
    by (auto simp: apply_hunks_def Let_def rbind_eq_Inr)
  from apply_hunks_spliced[OF *(1)] *(2) show "\<exists>out. spliced 0 (to_elements old) hs out \<and> new = concat out"
    by auto
qed (auto intro: splice_applies)

text \<open>The verdict on a patch depends only on the paths it names: over the tree restricted
  to \<open>touched_paths\<close> it applies exactly when it applies over the whole tree, with the same
  reason when it does not, and its result is the restriction of the whole result.
\<close>

theorem patch_verdict_is_local:
  assumes "bt_wf t" "\<not> list_ex contradictory files"
  shows "apply_patch (restrict_tree (touched_paths files) t) files
     = map_sum id (restrict_tree (touched_paths files)) (apply_patch t files)"
proof -
  let ?P = "touched_paths files"
  have "agree_on (set ?P) t (restrict_tree ?P t)"
    by (simp add: agree_on_def get_restrict_tree)
  from apply_patch_local[OF this assms(2)]
  consider (err) e where "apply_patch t files = Inl e" "apply_patch (restrict_tree ?P t) files = Inl e"
    | (ok) t' u' where "apply_patch t files = Inr t'" "apply_patch (restrict_tree ?P t) files = Inr u'"
        "agree_on (set ?P) t' u'"
    by (cases "apply_patch t files"; cases "apply_patch (restrict_tree ?P t) files") auto
  then show ?thesis
  proof cases
    case ok
    with restricted_run[OF assms ok] show ?thesis by simp
  qed simp
qed

text \<open>The equations that run the parser and the application on a concrete patch.\<close>

lemmas parse_eval =
  parse_patch_def str_lines_def strip_line_end_def parse_line_def strip_prefix_def starts_with_def
  upd_last_def parse_in_file_def open_file_def patch_file_default_def push_line_def
  mark_unterminated_def parse_hunk_old_def opt_parse_def parse_u64_def is_digit_def digit_val_def

lemmas apply_eval =
  apply_patch_def touch_file_def touch_path_def apply_file_def apply_hunks_def apply_hunk_def
  apply_line_def to_elements_def line_element_def bt_contains_def bt_remove_def valid_path_def
  ends_with_def

lemmas fold_eval =
  wiki_fold_def wiki_fold_with_rev_def wiki_step_def fold_one_def get_str_def bt_keys_def

definition demo_patch :: string where
  "demo_patch =
     ''diff --git a/a.md b/a.md'' @ [nl] @ ''--- a/a.md'' @ [nl] @ ''+++ b/a.md'' @ [nl]
     @ ''@@ -1,2 +1,2 @@'' @ [nl] @ '' x'' @ [nl] @ ''-y'' @ [nl] @ ''+z'' @ [nl]"

definition demo_tree :: wiki_tree where
  "demo_tree = [(''a.md'', ''x'' @ [nl] @ ''y'' @ [nl]), (''b.md'', ''k'')]"

lemma demo_patch_parsed:
  "parse_patch demo_patch =
     [\<lparr>pf_old_path = ''a.md'', pf_new_path = ''a.md'', pf_added = False, pf_deleted = False,
        pf_renamed = False,
        pf_hunks = [\<lparr>h_old_start = 1, h_old_count = 2,
          h_lines = [\<lparr>hl_op = CHR '' '', hl_text = ''x'', hl_newline = True\<rparr>,
                     \<lparr>hl_op = CHR ''-'', hl_text = ''y'', hl_newline = True\<rparr>,
                     \<lparr>hl_op = CHR ''+'', hl_text = ''z'', hl_newline = True\<rparr>]\<rparr>]\<rparr>]"
  by (simp add: demo_patch_def parse_eval)

theorem patch_verdict_is_local_witness:
  "apply_patch (restrict_tree (touched_paths (parse_patch demo_patch)) demo_tree) (parse_patch demo_patch)
     = Inr [(''a.md'', ''x'' @ [nl] @ ''z'' @ [nl])]"
proof -
  have "apply_patch demo_tree (parse_patch demo_patch)
      = Inr [(''a.md'', ''x'' @ [nl] @ ''z'' @ [nl]), (''b.md'', ''k'')]"
    by (simp add: demo_patch_parsed demo_tree_def apply_eval starts_with_def)
  moreover have "bt_wf demo_tree" by (simp add: demo_tree_def bt_wf_def)
  moreover have "\<not> list_ex contradictory (parse_patch demo_patch)"
    by (simp add: demo_patch_parsed contradictory_def)
  moreover have "touched_paths (parse_patch demo_patch) = [''a.md'']"
    by (simp add: demo_patch_parsed touched_paths_def)
  ultimately show ?thesis using patch_verdict_is_local[of demo_tree "parse_patch demo_patch"]
    by (simp add: restrict_tree_def)
qed

text \<open>The tree invariant of the fold: folding any history keeps the paths distinct and in
  order, and every path valid (relative, at most eight non-empty segments, no dot segment, no
  backslash), as long as no patch marks a file as added and deleted at once.
\<close>

theorem wiki_fold_keeps_valid_paths:
  assumes "\<forall>p \<in> set ps. \<forall>files. patch_of p = Some files \<longrightarrow> \<not> list_ex contradictory files"
  shows "bt_wf (wiki_fold ps) \<and> (\<forall>p \<in> set (bt_keys (wiki_fold ps)). valid_path p)"
  using wiki_fold_tree_ok[OF assms] by (simp add: tree_ok_def)

definition add_patch :: string where
  "add_patch =
     ''diff --git a/n/a.md b/n/a.md'' @ [nl] @ ''new file mode 100644'' @ [nl]
     @ ''@@ -0,0 +1,1 @@'' @ [nl] @ ''+hi'' @ [nl]"

definition wiki_payload :: "string \<Rightarrow> json" where
  "wiki_payload v = JObject [(''op'', JString ''wiki_patch''), (''value'', JString v)]"

theorem wiki_fold_keeps_valid_paths_witness:
  "bt_keys (wiki_fold [wiki_payload add_patch]) = [''n/a.md''] \<and> valid_path ''n/a.md''"
proof -
  have fold: "bt_keys (wiki_fold [wiki_payload add_patch]) = [''n/a.md'']"
    by (simp add: wiki_payload_def add_patch_def fold_eval parse_eval apply_eval)
  have "\<forall>p \<in> set [wiki_payload add_patch]. \<forall>files.
      patch_of p = Some files \<longrightarrow> \<not> list_ex contradictory files"
  proof -
    have "patch_of (wiki_payload add_patch) = Some (parse_patch add_patch)"
      by (simp add: patch_of_def wiki_payload_def get_str_def)
    moreover have "\<not> list_ex contradictory (parse_patch add_patch)"
      by (simp add: add_patch_def parse_eval contradictory_def)
    ultimately show ?thesis by simp
  qed
  from wiki_fold_keeps_valid_paths[OF this] fold show ?thesis by simp
qed

text \<open>The base revision counts exactly the payloads whose patch applied to the tree of
  their predecessors: void patches and foreign payloads never move it, and it does not wrap
  within a history of fewer than \<open>2^64\<close> payloads.
\<close>

theorem wiki_rev_counts_applied_patches:
  assumes "length ps < 2 ^ 64"
  shows "unat (snd (wiki_fold_with_rev ps)) = card {i. i < length ps \<and> applied_at ps i}"
proof -
  have "card {i. i < length ps \<and> applied_at ps i} \<le> card {..< length ps}"
    by (rule card_mono) auto
  then show ?thesis using assms by (simp add: wiki_rev_card unat_of_nat)
qed

theorem wiki_rev_counts_applied_patches_witness:
  "card {i. i < length [wiki_payload add_patch, JNull, wiki_payload add_patch]
       \<and> applied_at [wiki_payload add_patch, JNull, wiki_payload add_patch] i} = 1"
proof -
  have "unat (snd (wiki_fold_with_rev [wiki_payload add_patch, JNull, wiki_payload add_patch])) = 1"
    by (simp add: wiki_payload_def add_patch_def fold_eval parse_eval apply_eval)
  with wiki_rev_counts_applied_patches[of "[wiki_payload add_patch, JNull, wiki_payload add_patch]"]
  show ?thesis by simp
qed

text \<open>C39: round trip of the base stream: what \<open>wiki_base_canonical_bytes\<close> writes for a tree
  of UTF-8 documents, \<open>wiki_base_from_canonical_bytes\<close> reads back as the same tree.
\<close>

theorem wiki_base_roundtrip:
  assumes "bt_wf t" "\<forall>(p, c) \<in> set t. utf8_valid p \<and> utf8_valid c"
    "wiki_base_canonical_bytes t = Some b"
  shows "wiki_base_from_canonical_bytes b = Inr t"
  by (rule wiki_base_read[OF assms])

theorem wiki_base_roundtrip_witness:
  "wiki_base_from_canonical_bytes (the (wiki_base_canonical_bytes demo_tree)) = Inr demo_tree"
proof (rule wiki_base_roundtrip)
  show "bt_wf demo_tree" by (simp add: demo_tree_def bt_wf_def)
  show "\<forall>(p, c) \<in> set demo_tree. utf8_valid p \<and> utf8_valid c"
    by (simp add: demo_tree_def byte_in_def)
  show "wiki_base_canonical_bytes demo_tree = Some (the (wiki_base_canonical_bytes demo_tree))"
    by (simp add: demo_tree_def wiki_base_canonical_bytes_def put_bytes_def put_count64_def cat.simps)
qed

section \<open>Where the code departs from its documentation\<close>

text \<open>
  A line that ends in carriage return and line feed loses the carriage return on its way
  through the parser (\<open>str::lines\<close> strips it), so a document with such line ends is not
  reproduced byte for byte.
\<close>

lemma crlf_is_lost:
  "wiki_fold [wiki_payload (''diff --git a/n.md b/n.md'' @ [nl] @ ''new file mode 100644'' @ [nl]
      @ ''@@ -0,0 +1,1 @@'' @ [nl] @ ''+hi'' @ [cr, nl])]
   = [(''n.md'', ''hi'' @ [nl])]"
  by (simp add: wiki_payload_def fold_eval parse_eval apply_eval)

text \<open>
  A header that names two different paths without the \<open>rename\<close> lines moves the file and
  replaces an existing target; the check that protects a rename target does not run.
\<close>

lemma unmarked_move_overwrites:
  "apply_patch [(''x'', ''1''), (''y'', ''2'')] (parse_patch (''diff --git a/x b/y'' @ [nl]))
   = Inr [(''y'', ''1'')]"
  by (simp add: parse_eval apply_eval)

text \<open>
  A file marked as added and deleted at once enters the tree under a path that was never
  validated, while its display path is the old one.
\<close>

definition escape_patch :: string where
  "escape_patch =
     ''diff --git a/x.md b/../e.md'' @ [nl] @ ''new file mode 100644'' @ [nl]
     @ ''deleted file mode 100644'' @ [nl] @ ''@@ -0,0 +1,1 @@'' @ [nl] @ ''+hi'' @ [nl]"

lemma contradictory_file_escapes_validation:
  "bt_keys (wiki_fold [wiki_payload escape_patch]) = [''../e.md'']"
  "\<not> valid_path ''../e.md''"
  "map display_path (parse_patch escape_patch) = [''x.md'']"
  by (simp_all add: wiki_payload_def escape_patch_def fold_eval parse_eval apply_eval display_path_def)

end
