(* ===== verification/Vault_Types.thy ===== *)
theory Vault_Types
  imports Json_Value
begin

text \<open>
  The vault's records (\<open>molt-core/src/vault.rs\<close>): the deposit and grant a chain carries, the
  closed set of operations, the folded base, the context a founding table establishes, and
  the rule for names and kinds.
\<close>

section \<open>Records\<close>

record vault_payload_ref =
  vp_hash :: string
  vp_size :: u64

record vault_deposit =
  vd_depositor :: string
  vd_name :: string
  vd_kind :: string
  vd_replaces :: string
  vd_m :: u8
  vd_holders :: "string list"
  vd_commitments :: "string list"
  vd_enc_share :: "string list"
  vd_payload :: vault_payload_ref
  vd_nonce :: string
  vd_sig_depositor :: string

record vault_grant =
  vg_grant_id :: string
  vg_secret_id :: string
  vg_reader :: string

datatype vault_op =
    Deposit vault_deposit
  | Grant vault_grant
  | VaultBaseOp vault_payload_ref

record vault_base_grant =
  bg_proposal_id :: u64
  bg_grant :: vault_grant

record vault_base_deposit =
  bd_deposit :: vault_deposit
  bd_grants :: "vault_base_grant list"

record vault_base =
  vb_deposits :: "vault_base_deposit list"

text \<open>A seat of the context: name, identity key, vault key.\<close>

record vault_ctx =
  vc_m :: u8
  vc_holders_in_genesis_order :: "(string \<times> string \<times> string) list"

section \<open>Names and kinds\<close>

definition vault_payload_max :: nat where "vault_payload_max = 102400"
definition vault_name_max :: nat where "vault_name_max = 64"
definition vault_kind_max :: nat where "vault_kind_max = 24"

text \<open>
  \<open>chars().count()\<close> and \<open>char::is_control\<close> on UTF-8 bytes: a character is counted at its
  first byte, and the control characters are U+0000 to U+001F and U+007F to U+009F.
\<close>

definition chars_count :: "string \<Rightarrow> nat" where
  "chars_count s = length (filter (\<lambda>c. \<not> (0x80 \<le> (of_char c :: nat) \<and> (of_char c :: nat) \<le> 0xBF)) s)"

fun has_control :: "string \<Rightarrow> bool" where
  "has_control [] = False"
| "has_control (c # cs) =
     ((of_char c :: nat) < 0x20 \<or> (of_char c :: nat) = 0x7F
      \<or> (of_char c :: nat) = 0xC2 \<and> (case cs of [] \<Rightarrow> False
           | d # _ \<Rightarrow> 0x80 \<le> (of_char d :: nat) \<and> (of_char d :: nat) \<le> 0x9F)
      \<or> has_control cs)"

definition check_label :: "string \<Rightarrow> nat \<Rightarrow> string \<Rightarrow> string + unit" where
  "check_label s max_chars what =
     (if trim s = [] then Inl (what @ '' is empty'')
      else if trim s \<noteq> s then Inl (what @ '' has outer spaces'')
      else if chars_count s > max_chars then Inl (what @ '' over '' @ show_nat max_chars @ '' chars'')
      else if has_control s then Inl (what @ '' has control chars'')
      else Inr ())"

definition check_vault_name :: "string \<Rightarrow> string + unit" where
  "check_vault_name name = check_label name vault_name_max ''name''"

definition check_vault_kind :: "string \<Rightarrow> string + unit" where
  "check_vault_kind kind = check_label kind vault_kind_max ''kind''"

end
