(* ===== verification/Extern.thy ===== *)
theory Extern
  imports Vault_Types
begin

text \<open>
  The code the sources call that is not part of the repository, as one record of functions.
  Every definition that uses such a function takes the record as its first argument.

  \<^item> \<open>sha256\<close>: the digest of the \<open>sha2\<close> crate;
  \<^item> \<open>hex_encode\<close>, \<open>hex_decode\<close>: the \<open>hex\<close> crate;
  \<^item> \<open>vk_from_bytes\<close>: whether \<open>ed25519_dalek\<close> accepts 32 bytes as a verifying key, and
    \<open>verify_strict\<close>: its verdict on key, message and signature;
  \<^item> \<open>json_to_vec\<close>: the bytes \<open>serde_json::to_vec\<close> writes for a value;
  \<^item> \<open>vault_from_value\<close>, \<open>vault_to_value\<close>, \<open>vault_from_slice\<close>: the conversions that
    the derive macros of \<open>serde\<close> generate for \<open>VaultOp\<close>;
  \<^item> \<open>is_point_bytes\<close>: whether 32 bytes are a curve point (\<open>vsss-rs\<close>), and
    \<open>hpke_accepts\<close>: whether the sealing call of the \<open>hpke\<close> crate accepts a public key.

  Nothing is assumed about these functions. Theorems that would need a hash without
  collisions return the collision instead.
\<close>

record extern =
  sha256 :: "bytes \<Rightarrow> bytes"
  hex_encode :: "bytes \<Rightarrow> string"
  hex_decode :: "string \<Rightarrow> bytes option"
  vk_from_bytes :: "bytes \<Rightarrow> bool"
  verify_strict :: "bytes \<Rightarrow> bytes \<Rightarrow> bytes \<Rightarrow> bool"
  json_to_vec :: "json \<Rightarrow> bytes"
  vault_from_value :: "json \<Rightarrow> vault_op option"
  vault_to_value :: "vault_op \<Rightarrow> json"
  vault_from_slice :: "bytes \<Rightarrow> vault_op option"
  is_point_bytes :: "bytes \<Rightarrow> bool"
  hpke_accepts :: "bytes \<Rightarrow> bool"

text \<open>
  A concrete instance, on which the theorems below are exercised: a constant digest, hex as the
  identity, a signature that is the key written twice, and a codec that knows one record.
\<close>

definition demo_op :: vault_op where
  "demo_op = Deposit \<lparr>vd_depositor = ''a'', vd_name = ''x'', vd_kind = ''text'', vd_replaces = [],
     vd_m = 2, vd_holders = [''b''], vd_commitments = [], vd_enc_share = [],
     vd_payload = \<lparr>vp_hash = ''p'', vp_size = 41\<rparr>, vd_nonce = ''n'', vd_sig_depositor = ''s''\<rparr>"

definition demo_extern :: extern where
  "demo_extern = \<lparr>sha256 = (\<lambda>_. ''h''), hex_encode = (\<lambda>b. b), hex_decode = Some,
     vk_from_bytes = (\<lambda>_. True), verify_strict = (\<lambda>pk msg sg. sg = pk @ pk),
     json_to_vec = (\<lambda>_. ''j''), vault_from_value = (\<lambda>_. None), vault_to_value = (\<lambda>_. JNull),
     vault_from_slice = (\<lambda>b. if b = ''j'' then Some demo_op else None),
     is_point_bytes = (\<lambda>_. True), hpke_accepts = (\<lambda>_. True)\<rparr>"

end
