(* ===== verification/Vault_Layouts.thy ===== *)
theory Vault_Layouts
  imports Canon_Bytes Extern
begin

text \<open>
  The canonical layouts of the vault (\<open>molt-core/src/vault.rs\<close>): a tag, the number of
  fields, then every field with its length; a list field is a counted run. On them the ids of
  versions and grants, the bytes a depositor signs, the key-derivation and
  authenticated-data strings, and the stream of the folded base with its reader.
\<close>

section \<open>Tags\<close>

definition tag_key :: string where "tag_key = ''molt-vault-x25519-v1''"
definition tag_secret :: string where "tag_secret = ''molt-vault-secret-v1''"
definition tag_deposit :: string where "tag_deposit = ''molt-vault-deposit-v1''"
definition tag_grant :: string where "tag_grant = ''molt-vault-grant-v1''"
definition tag_share :: string where "tag_share = ''molt-vault-share-v1''"
definition tag_resp :: string where "tag_resp = ''molt-vault-resp-v1''"
definition tag_payload :: string where "tag_payload = ''molt-vault-payload-v1''"
definition tag_dek :: string where "tag_dek = ''molt-vault-dek-v1''"
definition tag_eph :: string where "tag_eph = ''molt-vault-eph-v1''"
definition tag_deal :: string where "tag_deal = ''molt-vault-deal-v1''"
definition tag_secret_scalar :: string where "tag_secret_scalar = ''molt-vault-secret-scalar-v1''"
definition tag_base :: string where "tag_base = ''molt-vault-base-v1''"
definition tag_payload_series :: string where "tag_payload_series = ''molt-vault-payload-series-v1''"
definition tag_base_series :: string where "tag_base_series = ''molt-vault-base-series-v1''"

definition vault_tags :: "string list" where
  "vault_tags = [tag_key, tag_secret, tag_deposit, tag_grant, tag_share, tag_resp, tag_payload,
     tag_dek, tag_eph, tag_deal, tag_secret_scalar, tag_base, tag_payload_series, tag_base_series]"

lemmas tag_defs =
  tag_key_def tag_secret_def tag_deposit_def tag_grant_def tag_share_def tag_resp_def
  tag_payload_def tag_dek_def tag_eph_def tag_deal_def tag_secret_scalar_def tag_base_def
  tag_payload_series_def tag_base_series_def

section \<open>The layout\<close>

datatype field = One bytes | Run "bytes list"

fun put_field :: "field \<Rightarrow> bytes option" where
  "put_field (One b) = put_bytes b"
| "put_field (Run items) = cat (put_count (length items) # map put_bytes items)"

definition layout :: "string \<Rightarrow> field list \<Rightarrow> bytes option" where
  "layout tag fs = cat (Some (tagged tag) # put_count (length fs) # map put_field fs)"

definition sha256_hex :: "extern \<Rightarrow> bytes \<Rightarrow> string" where
  "sha256_hex X b = hex_encode X (sha256 X b)"

definition vault_key_info :: "string \<Rightarrow> string \<Rightarrow> bytes option" where
  "vault_key_info founding_nostr_pk identity_pk = layout tag_key [One founding_nostr_pk, One identity_pk]"

definition secret_id_bytes :: "string \<Rightarrow> vault_deposit \<Rightarrow> bytes option" where
  "secret_id_bytes republic_id dep =
     layout tag_secret
       [One republic_id, One (vd_depositor dep), One (vd_name dep), One (vd_kind dep),
        One (vd_replaces dep), One (u8_byte (vd_m dep)), Run (vd_holders dep),
        Run (vd_commitments dep), One (vp_hash (vd_payload dep))]"

definition secret_id :: "extern \<Rightarrow> string \<Rightarrow> vault_deposit \<Rightarrow> string option" where
  "secret_id X republic_id dep = map_option (sha256_hex X) (secret_id_bytes republic_id dep)"

definition deposit_signing_bytes :: "string \<Rightarrow> vault_deposit \<Rightarrow> bytes option" where
  "deposit_signing_bytes republic_id dep =
     layout tag_deposit
       [One republic_id, One (vd_depositor dep), One (vd_name dep), One (vd_kind dep),
        One (vd_replaces dep), One (u8_byte (vd_m dep)), Run (vd_holders dep),
        Run (vd_commitments dep), Run (vd_enc_share dep), One (vp_hash (vd_payload dep)),
        One (u64_le (vp_size (vd_payload dep))), One (vd_nonce dep)]"

definition grant_id_bytes :: "string \<Rightarrow> string \<Rightarrow> u64 \<Rightarrow> bytes option" where
  "grant_id_bytes sid reader proposal_id =
     layout tag_grant [One sid, One reader, One (u64_le proposal_id)]"

definition grant_id :: "extern \<Rightarrow> string \<Rightarrow> string \<Rightarrow> u64 \<Rightarrow> string option" where
  "grant_id X sid reader proposal_id = map_option (sha256_hex X) (grant_id_bytes sid reader proposal_id)"

definition share_aad :: "string \<Rightarrow> string \<Rightarrow> bytes option" where
  "share_aad sid seat = layout tag_share [One sid, One seat]"

definition resp_aad :: "string \<Rightarrow> string \<Rightarrow> string \<Rightarrow> bytes option" where
  "resp_aad republic_id gid seat = layout tag_resp [One republic_id, One gid, One seat]"

definition slot :: "string \<Rightarrow> string \<Rightarrow> string \<Rightarrow> string \<Rightarrow> string \<Rightarrow> bytes option" where
  "slot tag republic_id depositor name kind =
     layout tag [One republic_id, One depositor, One name, One kind]"

definition payload_aad :: "string \<Rightarrow> string \<Rightarrow> string \<Rightarrow> string \<Rightarrow> bytes option" where
  "payload_aad republic_id depositor name kind = slot tag_payload republic_id depositor name kind"

definition dek_info :: "string \<Rightarrow> string \<Rightarrow> string \<Rightarrow> string \<Rightarrow> bytes option" where
  "dek_info republic_id depositor name kind = slot tag_dek republic_id depositor name kind"

definition eph_info :: "string \<Rightarrow> string \<Rightarrow> bytes option" where
  "eph_info sid seat = layout tag_eph [One sid, One seat]"

definition deal_info :: "string \<Rightarrow> string \<Rightarrow> string \<Rightarrow> string \<Rightarrow> bytes option" where
  "deal_info republic_id name kind nonce = layout tag_deal [One republic_id, One name, One kind, One nonce]"

definition secret_scalar_info :: "bytes option" where
  "secret_scalar_info = layout tag_secret_scalar []"

definition payload_series_info :: "string \<Rightarrow> bytes option" where
  "payload_series_info payload_hash = layout tag_payload_series [One payload_hash]"

definition base_series_info :: "string \<Rightarrow> bytes option" where
  "base_series_info commitment = layout tag_base_series [One commitment]"

section \<open>The stream of the folded base\<close>

definition record_json :: "extern \<Rightarrow> vault_op \<Rightarrow> bytes" where
  "record_json X op = json_to_vec X (vault_to_value X op)"

definition put_base_grant :: "extern \<Rightarrow> vault_base_grant \<Rightarrow> bytes option" where
  "put_base_grant X g = cat [Some (u64_le (bg_proposal_id g)), put_bytes (record_json X (Grant (bg_grant g)))]"

definition put_base_deposit :: "extern \<Rightarrow> vault_base_deposit \<Rightarrow> bytes option" where
  "put_base_deposit X d =
     (let grants = sort_key (\<lambda>g. vg_grant_id (bg_grant g)) (bd_grants d) in
      cat (put_bytes (record_json X (Deposit (bd_deposit d))) # put_count64 (length grants)
           # map (put_base_grant X) grants))"

definition deposit_slot :: "vault_base_deposit \<Rightarrow> string \<times> string" where
  "deposit_slot d = (vd_depositor (bd_deposit d), vd_name (bd_deposit d))"

definition vault_base_canonical_bytes :: "extern \<Rightarrow> vault_base \<Rightarrow> bytes option" where
  "vault_base_canonical_bytes X base =
     (let deposits = sort_key deposit_slot (vb_deposits base) in
      cat (Some (tagged tag_base) # put_count64 (length deposits)
           # map (put_base_deposit X) deposits))"

text \<open>The reader keeps the unread rest of the stream in place of its offset.\<close>

definition rd_take :: "nat \<Rightarrow> string \<Rightarrow> bytes \<Rightarrow> string + bytes \<times> bytes" where
  "rd_take n what rest =
     (if length rest < n then Inl (what @ '' overruns the stream'')
      else Inr (take n rest, drop n rest))"

definition rd_u64 :: "string \<Rightarrow> bytes \<Rightarrow> string + u64 \<times> bytes" where
  "rd_u64 what rest = rbind (rd_take 8 what rest) (\<lambda>(raw, rest'). Inr (of_nat (from_le_bytes raw), rest'))"

definition rd_field :: "string \<Rightarrow> bytes \<Rightarrow> string + bytes \<times> bytes" where
  "rd_field what rest =
     rbind (rd_take 4 what rest) (\<lambda>(raw, rest'). rd_take (from_le_bytes raw) what rest')"

definition decode_record :: "extern \<Rightarrow> bytes \<Rightarrow> string + vault_op" where
  "decode_record X raw =
     (case vault_from_slice X raw of
        None \<Rightarrow> Inl ''a record is not a vault op''
      | Some op \<Rightarrow> if record_json X op \<noteq> raw then Inl ''a record is not canonical'' else Inr op)"

primrec rd_grants ::
  "extern \<Rightarrow> nat \<Rightarrow> string option \<Rightarrow> bytes \<Rightarrow> string + vault_base_grant list \<times> bytes" where
  "rd_grants X 0 last_id rest = Inr ([], rest)"
| "rd_grants X (Suc n) last_id rest =
     rbind (rd_u64 ''a proposal id'' rest) (\<lambda>(proposal_id, rest1).
     rbind (rd_field ''a grant'' rest1) (\<lambda>(raw, rest2).
     rbind (decode_record X raw) (\<lambda>op.
       case op of
         Grant g \<Rightarrow>
           if (case last_id of None \<Rightarrow> False | Some l \<Rightarrow> l \<ge> vg_grant_id g)
           then Inl ''grants out of order''
           else rbind (rd_grants X n (Some (vg_grant_id g)) rest2)
                  (\<lambda>(gs, rest3). Inr (\<lparr>bg_proposal_id = proposal_id, bg_grant = g\<rparr> # gs, rest3))
       | _ \<Rightarrow> Inl ''a grant slot holds another op'')))"

primrec rd_deposits ::
  "extern \<Rightarrow> nat \<Rightarrow> (string \<times> string) option \<Rightarrow> bytes \<Rightarrow> string + vault_base_deposit list \<times> bytes" where
  "rd_deposits X 0 last_slot rest = Inr ([], rest)"
| "rd_deposits X (Suc n) last_slot rest =
     rbind (rd_field ''a deposit'' rest) (\<lambda>(raw, rest1).
     rbind (decode_record X raw) (\<lambda>op.
       case op of
         Deposit dep \<Rightarrow>
           (let s = (vd_depositor dep, vd_name dep) in
            if (case last_slot of None \<Rightarrow> False | Some l \<Rightarrow> l \<ge> s) then Inl ''deposits out of order''
            else
              rbind (rd_u64 ''a grant count'' rest1) (\<lambda>(k, rest2).
              rbind (rd_grants X (unat k) None rest2) (\<lambda>(gs, rest3).
              rbind (rd_deposits X n (Some s) rest3)
                (\<lambda>(ds, rest4). Inr (\<lparr>bd_deposit = dep, bd_grants = gs\<rparr> # ds, rest4)))))
       | _ \<Rightarrow> Inl ''a deposit slot holds another op''))"

definition decode_vault_base :: "extern \<Rightarrow> bytes \<Rightarrow> string + vault_base" where
  "decode_vault_base X b =
     rbind (ok_or ''not a molt-vault-base-v1 stream'' (strip_prefix (tagged tag_base) b)) (\<lambda>rest.
     rbind (rd_u64 ''the deposit count'' rest) (\<lambda>(count, rest1).
     rbind (rd_deposits X (unat count) None rest1) (\<lambda>(ds, rest2).
       if rest2 \<noteq> [] then Inl ''trailing bytes after the base''
       else Inr \<lparr>vb_deposits = ds\<rparr>)))"

end
