(* ===== verification/Vault_Laws.thy ===== *)
theory Vault_Laws
  imports Vault_Layouts
begin

text \<open>
  What the vault's layouts promise: a layout binds its fields, tags separate the primitives,
  and the reader of the folded base accepts exactly the canonical streams.
\<close>

section \<open>The layout binds its fields\<close>

fun same_kind :: "field \<Rightarrow> field \<Rightarrow> bool" where
  "same_kind (One _) (One _) = True"
| "same_kind (Run _) (Run _) = True"
| "same_kind _ _ = False"

lemma put_field_prefix:
  assumes "put_field a = Some x" "put_field b = Some y" "same_kind a b" "x @ r = y @ s"
  shows "a = b \<and> r = s"
proof -
  have run: "prefix_code (enc_run put_count put_bytes)" by (intro codec_intros)
  show ?thesis
    using assms enc_bytes.prefix_inj[of _ x _ y r s] prefix_code.prefix_inj[OF run, of _ x _ y r s]
    by (cases a; cases b) (auto simp: enc_run_def)
qed

lemma put_fields_inj:
  assumes "list_all2 same_kind fs gs" "cat (map put_field fs) = Some x" "cat (map put_field gs) = Some x"
  shows "fs = gs"
  using assms
proof (induction fs gs arbitrary: x rule: list_all2_induct)
  case Nil
  then show ?case by simp
next
  case (Cons f fs g gs)
  from Cons.prems obtain a b a' b' where
    ab: "put_field f = Some a" "cat (map put_field fs) = Some b" "x = a @ b"
      "put_field g = Some a'" "cat (map put_field gs) = Some b'" "x = a' @ b'"
    by (auto simp: cat_Cons_Some)
  with put_field_prefix[OF ab(1,4) Cons.hyps(1), of b b'] have "f = g" "b = b'" by auto
  with Cons.IH[OF ab(2)] ab(5) show ?case by simp
qed

lemma layout_inj:
  assumes "layout t fs = Some b" "layout t gs = Some b" "list_all2 same_kind fs gs"
  shows "fs = gs"
proof -
  from assms(1,2) obtain n x m y where
    "put_count (length fs) = Some n" "cat (map put_field fs) = Some x" "b = tagged t @ n @ x"
    "put_count (length gs) = Some m" "cat (map put_field gs) = Some y" "b = tagged t @ m @ y"
    by (auto simp: layout_def cat_Cons_Some)
  moreover from this have "n = m" using list_all2_lengthD[OF assms(3)] by simp
  ultimately show ?thesis using put_fields_inj[OF assms(3)] by simp
qed

lemma layout_tags:
  assumes "layout t fs = Some b" "layout u gs = Some b" "CHR 0x00 \<notin> set t" "CHR 0x00 \<notin> set u"
  shows "t = u"
  using assms tagged_append_inj[OF assms(3,4)] by (auto simp: layout_def cat_Cons_Some)

lemma vault_tags_no_nul: "t \<in> set vault_tags \<Longrightarrow> CHR 0x00 \<notin> set t"
  by (auto simp: vault_tags_def tag_defs)

section \<open>Ids and signatures\<close>

definition signed_deposit :: "vault_deposit \<Rightarrow> vault_deposit" where
  "signed_deposit dep = dep\<lparr>vd_sig_depositor := []\<rparr>"

lemma deposit_signing_inj:
  assumes "deposit_signing_bytes rid d = Some b" "deposit_signing_bytes rid' e = Some b"
  shows "rid = rid' \<and> signed_deposit d = signed_deposit e"
  using layout_inj[OF assms[unfolded deposit_signing_bytes_def]]
  by (cases d; cases e) (auto simp: signed_deposit_def intro!: vault_payload_ref.equality)

lemma secret_id_bytes_inj:
  assumes "secret_id_bytes rid d = Some b" "secret_id_bytes rid' e = Some b"
  shows "rid = rid' \<and> vd_depositor d = vd_depositor e \<and> vd_name d = vd_name e \<and>
    vd_kind d = vd_kind e \<and> vd_replaces d = vd_replaces e \<and> vd_m d = vd_m e \<and>
    vd_holders d = vd_holders e \<and> vd_commitments d = vd_commitments e \<and>
    vp_hash (vd_payload d) = vp_hash (vd_payload e)"
  using layout_inj[OF assms[unfolded secret_id_bytes_def]] by simp

lemma grant_id_bytes_inj:
  assumes "grant_id_bytes s r p = Some b" "grant_id_bytes s' r' p' = Some b"
  shows "s = s' \<and> r = r' \<and> p = p'"
  using layout_inj[OF assms[unfolded grant_id_bytes_def]] by simp

section \<open>The reader of the folded base\<close>

definition ascending_from :: "'a::linorder option \<Rightarrow> 'a list \<Rightarrow> bool" where
  "ascending_from l xs \<longleftrightarrow> sorted_wrt (<) ((case l of None \<Rightarrow> [] | Some x \<Rightarrow> [x]) @ xs)"

lemma ascending_from_Nil [simp]: "ascending_from l []"
  by (cases l) (simp_all add: ascending_from_def)

lemma ascending_from_Cons:
  "ascending_from l (x # xs) \<longleftrightarrow>
     \<not> (case l of None \<Rightarrow> False | Some y \<Rightarrow> y \<ge> x) \<and> ascending_from (Some x) xs"
  by (cases l) (auto simp: ascending_from_def)

lemma rd_take_Inr: "rd_take n w r = Inr (a, r') \<longleftrightarrow> r = a @ r' \<and> length a = n"
  by (auto simp: rd_take_def split: if_splits)

lemma u64_le_from_le:
  assumes "length raw = 8"
  shows "u64_le (of_nat (from_le_bytes raw)) = raw"
proof -
  have "from_le_bytes raw < 2 ^ 64" using from_le_bytes_bound[of raw] assms by simp
  then show ?thesis using le_from_le_bytes[of raw] assms by (simp add: u64_le_def unat_of_nat)
qed

lemma from_le_u64_le: "of_nat (from_le_bytes (u64_le n)) = n"
  using unat_u64_bound[of n] by (simp add: u64_le_def from_le_le_bytes)

lemma rd_u64_Inr: "rd_u64 w r = Inr (n, r') \<longleftrightarrow> r = u64_le n @ r'"
  by (auto simp: rd_u64_def rbind_eq_Inr rd_take_Inr u64_le_from_le from_le_u64_le)

lemma put_bytes_Some:
  "put_bytes a = Some x \<longleftrightarrow> length a < 2 ^ 32 \<and> x = le_bytes 4 (length a) @ a"
  by (auto simp: put_bytes_def)

lemma rd_field_Inr: "rd_field w r = Inr (a, r') \<longleftrightarrow> (\<exists>x. put_bytes a = Some x \<and> r = x @ r')"
proof -
  have "length len = 4 \<and> length a = from_le_bytes len \<longleftrightarrow> length a < 2 ^ 32 \<and> len = le_bytes 4 (length a)"
    for len
    using from_le_bytes_bound[of len] le_from_le_bytes[of len] by (auto simp: from_le_le_bytes)
  then show ?thesis
    by (fastforce simp: rd_field_def rbind_eq_Inr rd_take_Inr put_bytes_Some)
qed

lemma decode_record_Inr:
  "decode_record X raw = Inr op \<longleftrightarrow> vault_from_slice X raw = Some op \<and> record_json X op = raw"
  by (auto simp: decode_record_def split: option.splits if_splits)

definition grant_reads :: "extern \<Rightarrow> vault_base_grant \<Rightarrow> bool" where
  "grant_reads X g \<longleftrightarrow> vault_from_slice X (record_json X (Grant (bg_grant g))) = Some (Grant (bg_grant g))"

definition deposit_reads :: "extern \<Rightarrow> vault_base_deposit \<Rightarrow> bool" where
  "deposit_reads X d \<longleftrightarrow>
     vault_from_slice X (record_json X (Deposit (bd_deposit d))) = Some (Deposit (bd_deposit d))"

abbreviation grant_ids :: "vault_base_grant list \<Rightarrow> string list" where
  "grant_ids gs \<equiv> map (\<lambda>g. vg_grant_id (bg_grant g)) gs"

lemma put_base_grant_Some:
  "put_base_grant X g = Some x \<longleftrightarrow>
     (\<exists>y. put_bytes (record_json X (Grant (bg_grant g))) = Some y \<and> x = u64_le (bg_proposal_id g) @ y)"
  by (auto simp: put_base_grant_def cat_Cons_Some)

lemma case_op_Inr:
  "(case op of Deposit d \<Rightarrow> Inl e | Grant g \<Rightarrow> f g | VaultBaseOp r \<Rightarrow> Inl e') = Inr y \<longleftrightarrow>
     (\<exists>g. op = Grant g \<and> f g = Inr y)"
  "(case op of Deposit d \<Rightarrow> h d | Grant g \<Rightarrow> Inl e | VaultBaseOp r \<Rightarrow> Inl e') = Inr y \<longleftrightarrow>
     (\<exists>d. op = Deposit d \<and> h d = Inr y)"
  by (cases op; auto)+

lemma rd_grants_sound:
  assumes "rd_grants X n l rest = Inr (gs, rest')"
  shows "length gs = n \<and> ascending_from l (grant_ids gs) \<and>
     (\<exists>x. cat (map (put_base_grant X) gs) = Some x \<and> rest = x @ rest')"
  using assms
proof (induction n arbitrary: l rest gs)
  case 0
  then show ?case by simp
next
  case (Suc n)
  from Suc.prems obtain pid raw rest1 rest2 g gs' where
    step: "rd_u64 ''a proposal id'' rest = Inr (pid, rest1)" "rd_field ''a grant'' rest1 = Inr (raw, rest2)"
      "decode_record X raw = Inr (Grant g)"
      "\<not> (case l of None \<Rightarrow> False | Some i \<Rightarrow> i \<ge> vg_grant_id g)"
      "rd_grants X n (Some (vg_grant_id g)) rest2 = Inr (gs', rest')"
      "gs = \<lparr>bg_proposal_id = pid, bg_grant = g\<rparr> # gs'"
    by (auto simp: rbind_eq_Inr case_op_Inr split: if_splits)
  from step(2) obtain y where y: "put_bytes raw = Some y" "rest1 = y @ rest2"
    by (auto simp: rd_field_Inr)
  from Suc.IH[OF step(5)] step(1,3,4,6) y show ?case
    by (auto simp: rd_u64_Inr decode_record_Inr cat_Cons_Some put_base_grant_Some ascending_from_Cons)
qed

lemma rd_grants_complete:
  assumes "ascending_from l (grant_ids gs)" "list_all (grant_reads X) gs"
    "cat (map (put_base_grant X) gs) = Some x"
  shows "rd_grants X (length gs) l (x @ rest') = Inr (gs, rest')"
  using assms
proof (induction gs arbitrary: l x)
  case Nil
  then show ?case by simp
next
  case (Cons g gs)
  from Cons.prems(3) obtain y z where x: "put_bytes (record_json X (Grant (bg_grant g))) = Some y"
    "cat (map (put_base_grant X) gs) = Some z" "x = (u64_le (bg_proposal_id g) @ y) @ z"
    by (auto simp: cat_Cons_Some put_base_grant_Some)
  have "rd_u64 w (x @ rest') = Inr (bg_proposal_id g, y @ z @ rest')" for w
    by (simp add: rd_u64_Inr x(3))
  moreover have "rd_field w (y @ z @ rest') = Inr (record_json X (Grant (bg_grant g)), z @ rest')" for w
    using x(1) by (simp add: rd_field_Inr)
  moreover have "decode_record X (record_json X (Grant (bg_grant g))) = Inr (Grant (bg_grant g))"
    using Cons.prems(2) by (simp add: decode_record_Inr grant_reads_def)
  moreover have "rd_grants X (length gs) (Some (vg_grant_id (bg_grant g))) (z @ rest') = Inr (gs, rest')"
    using Cons.prems(1,2) by (intro Cons.IH[OF _ _ x(2)]) (simp_all add: ascending_from_Cons)
  ultimately show ?case using Cons.prems(1) by (simp add: ascending_from_Cons)
qed

text \<open>
  The canonical form of a base: deposits in ascending order of their slot, grants in ascending
  order of their id, no two equal.
\<close>

definition base_canonical :: "vault_base \<Rightarrow> bool" where
  "base_canonical b \<longleftrightarrow>
     sorted_wrt (<) (map deposit_slot (vb_deposits b)) \<and>
     list_all (\<lambda>d. sorted_wrt (<) (grant_ids (bd_grants d))) (vb_deposits b)"

definition base_reads :: "extern \<Rightarrow> vault_base \<Rightarrow> bool" where
  "base_reads X b \<longleftrightarrow>
     list_all (\<lambda>d. deposit_reads X d \<and> list_all (grant_reads X) (bd_grants d)) (vb_deposits b)"

lemma sort_key_ascending: "sorted_wrt (<) (map k xs) \<Longrightarrow> sort_key k xs = xs"
  by (rule sort_key_id_if_sorted) (simp add: strict_sorted_iff)

lemma put_base_deposit_Some:
  assumes "sorted_wrt (<) (grant_ids (bd_grants d))"
  shows "put_base_deposit X d = Some x \<longleftrightarrow>
     (\<exists>y z. put_bytes (record_json X (Deposit (bd_deposit d))) = Some y \<and>
        length (bd_grants d) < 2 ^ 64 \<and> cat (map (put_base_grant X) (bd_grants d)) = Some z \<and>
        x = y @ u64_le (of_nat (length (bd_grants d))) @ z)"
  using sort_key_ascending[OF assms]
  by (auto simp: put_base_deposit_def Let_def cat_Cons_Some put_count64_def u64_le_def unat_of_nat)

lemma rd_deposits_sound:
  assumes "rd_deposits X n l rest = Inr (ds, rest')"
  shows "length ds = n \<and> ascending_from l (map deposit_slot ds) \<and>
     list_all (\<lambda>d. sorted_wrt (<) (grant_ids (bd_grants d))) ds \<and>
     (\<exists>x. cat (map (put_base_deposit X) ds) = Some x \<and> rest = x @ rest')"
  using assms
proof (induction n arbitrary: l rest ds)
  case 0
  then show ?case by simp
next
  case (Suc n)
  from Suc.prems obtain raw rest1 dep k rest2 gs rest3 ds' where
    step: "rd_field ''a deposit'' rest = Inr (raw, rest1)" "decode_record X raw = Inr (Deposit dep)"
      "\<not> (case l of None \<Rightarrow> False | Some i \<Rightarrow> i \<ge> (vd_depositor dep, vd_name dep))"
      "rd_u64 ''a grant count'' rest1 = Inr (k, rest2)" "rd_grants X (unat k) None rest2 = Inr (gs, rest3)"
      "rd_deposits X n (Some (vd_depositor dep, vd_name dep)) rest3 = Inr (ds', rest')"
      "ds = \<lparr>bd_deposit = dep, bd_grants = gs\<rparr> # ds'"
    by (auto simp: rbind_eq_Inr Let_def case_op_Inr split: if_splits)
  let ?d = "\<lparr>bd_deposit = dep, bd_grants = gs\<rparr>"
  from rd_grants_sound[OF step(5)] obtain z where
    gs: "length gs = unat k" "sorted_wrt (<) (grant_ids gs)" "cat (map (put_base_grant X) gs) = Some z"
      "rest2 = z @ rest3" by (auto simp: ascending_from_def)
  from step(1,2) obtain y where y: "put_bytes (record_json X (Deposit dep)) = Some y" "rest = y @ rest1"
    by (auto simp: rd_field_Inr decode_record_Inr)
  have "put_base_deposit X ?d = Some (y @ u64_le k @ z)"
    using gs y unsigned_less[of k, where ?'a = nat] by (subst put_base_deposit_Some) auto
  moreover have "rest = (y @ u64_le k @ z) @ rest3"
    using step(4) y(2) gs(4) by (simp add: rd_u64_Inr)
  ultimately show ?case
    using Suc.IH[OF step(6)] step(3,7) gs(2)
    by (auto simp: cat_Cons_Some ascending_from_Cons deposit_slot_def)
qed

lemma rd_deposits_complete:
  assumes "ascending_from l (map deposit_slot ds)"
    "list_all (\<lambda>d. sorted_wrt (<) (grant_ids (bd_grants d))) ds"
    "list_all (\<lambda>d. deposit_reads X d \<and> list_all (grant_reads X) (bd_grants d)) ds"
    "cat (map (put_base_deposit X) ds) = Some x"
  shows "rd_deposits X (length ds) l (x @ rest') = Inr (ds, rest')"
  using assms
proof (induction ds arbitrary: l x)
  case Nil
  then show ?case by simp
next
  case (Cons d ds)
  let ?n = "of_nat (length (bd_grants d)) :: u64"
  have sorted: "sorted_wrt (<) (grant_ids (bd_grants d))" using Cons.prems(2) by simp
  from Cons.prems(4) obtain y z v where
    x: "put_bytes (record_json X (Deposit (bd_deposit d))) = Some y" "length (bd_grants d) < 2 ^ 64"
      "cat (map (put_base_grant X) (bd_grants d)) = Some z" "cat (map (put_base_deposit X) ds) = Some v"
      "x = (y @ u64_le ?n @ z) @ v"
    using sorted by (auto simp: cat_Cons_Some put_base_deposit_Some)
  have "rd_field w (x @ rest') = Inr (record_json X (Deposit (bd_deposit d)), u64_le ?n @ z @ v @ rest')" for w
    using x(1,5) by (simp add: rd_field_Inr)
  moreover have "decode_record X (record_json X (Deposit (bd_deposit d))) = Inr (Deposit (bd_deposit d))"
    using Cons.prems(3) by (simp add: decode_record_Inr deposit_reads_def)
  moreover have "rd_u64 w (u64_le ?n @ z @ v @ rest') = Inr (?n, z @ v @ rest')" for w
    by (simp add: rd_u64_Inr)
  moreover have "rd_grants X (unat ?n) None (z @ v @ rest') = Inr (bd_grants d, v @ rest')"
    using rd_grants_complete[of None "bd_grants d" X z "v @ rest'"] sorted Cons.prems(3) x(2,3)
    by (simp add: ascending_from_def unat_of_nat)
  moreover have "rd_deposits X (length ds) (Some (deposit_slot d)) (v @ rest') = Inr (ds, rest')"
    using Cons.prems(1,2,3) by (intro Cons.IH[OF _ _ _ x(4)]) (simp_all add: ascending_from_Cons)
  ultimately show ?case
    using Cons.prems(1) by (simp add: ascending_from_Cons deposit_slot_def)
qed

lemma base_bytes_Some:
  assumes "base_canonical base"
  shows "vault_base_canonical_bytes X base = Some b \<longleftrightarrow>
     (\<exists>x. length (vb_deposits base) < 2 ^ 64 \<and> cat (map (put_base_deposit X) (vb_deposits base)) = Some x \<and>
        b = tagged tag_base @ u64_le (of_nat (length (vb_deposits base))) @ x)"
  using sort_key_ascending[of deposit_slot "vb_deposits base"] assms
  by (auto simp: vault_base_canonical_bytes_def base_canonical_def Let_def cat_Cons_Some put_count64_def
      u64_le_def unat_of_nat)

lemma decode_vault_base_sound:
  assumes "decode_vault_base X b = Inr base"
  shows "base_canonical base \<and> vault_base_canonical_bytes X base = Some b"
proof -
  from assms obtain rest n rest1 ds where
    d: "b = tagged tag_base @ rest" "rd_u64 ''the deposit count'' rest = Inr (n, rest1)"
      "rd_deposits X (unat n) None rest1 = Inr (ds, [])" "base = \<lparr>vb_deposits = ds\<rparr>"
    by (auto simp: decode_vault_base_def rbind_eq_Inr strip_prefix_Some split: if_splits)
  from rd_deposits_sound[OF d(3)] have
    s: "length ds = unat n" "base_canonical base" "cat (map (put_base_deposit X) ds) = Some rest1"
    by (auto simp: base_canonical_def ascending_from_def d(4))
  moreover have "b = tagged tag_base @ u64_le n @ rest1" using d(1,2) by (simp add: rd_u64_Inr)
  moreover have "unat n < 2 ^ 64" using unsigned_less[of n, where ?'a = nat] by simp
  ultimately show ?thesis by (subst base_bytes_Some) (auto simp: d(4))
qed

lemma decode_vault_base_complete:
  assumes "base_canonical base" "base_reads X base" "vault_base_canonical_bytes X base = Some b"
  shows "decode_vault_base X b = Inr base"
proof -
  let ?ds = "vb_deposits base"
  from assms(1,3) obtain x where b: "length ?ds < 2 ^ 64" "cat (map (put_base_deposit X) ?ds) = Some x"
    "b = tagged tag_base @ u64_le (of_nat (length ?ds)) @ x"
    by (auto simp: base_bytes_Some)
  have "rd_deposits X (length ?ds) None (x @ []) = Inr (?ds, [])"
    using assms(1,2) by (intro rd_deposits_complete[OF _ _ _ b(2)])
      (auto simp: base_canonical_def base_reads_def ascending_from_def)
  moreover have "rd_u64 w (u64_le (of_nat (length ?ds)) @ x) = Inr (of_nat (length ?ds), x)" for w
    by (simp add: rd_u64_Inr)
  ultimately show ?thesis
    using b(1) by (simp add: decode_vault_base_def b(3) unat_of_nat)
qed

lemma vault_tags_distinct: "distinct vault_tags"
  by (simp add: vault_tags_def tag_defs)

section \<open>Properties\<close>

definition demo_base :: vault_base where
  "demo_base = \<lparr>vb_deposits = [\<lparr>bd_deposit = (case demo_op of Deposit d \<Rightarrow> d), bd_grants = []\<rparr>]\<rparr>"

definition demo_stream :: bytes where
  "demo_stream = tagged tag_base @ le_bytes 8 1 @ le_bytes 4 1 @ ''j'' @ le_bytes 8 0"

lemma demo_base_facts:
  "base_canonical demo_base" "base_reads demo_extern demo_base"
  "vault_base_canonical_bytes demo_extern demo_base = Some demo_stream"
  by (simp_all add: base_canonical_def base_reads_def deposit_reads_def record_json_def demo_base_def
      demo_extern_def demo_op_def vault_base_canonical_bytes_def put_base_deposit_def put_bytes_def
      put_count64_def cat.simps demo_stream_def)

text \<open>C30: The reader of the folded vault base accepts only canonical streams, so bytes and base
  map one to one: whatever it returns is in canonical order without duplicates and encodes to
  exactly the bytes it was read from. Two different streams never decode to the same base.
\<close>

theorem vault_base_reader_is_canonical:
  assumes "decode_vault_base X b = Inr base"
  shows "base_canonical base \<and> vault_base_canonical_bytes X base = Some b"
  by (rule decode_vault_base_sound[OF assms])

theorem vault_base_reader_is_canonical_witness:
  "base_canonical demo_base \<and> vault_base_canonical_bytes demo_extern demo_base = Some demo_stream"
  by (rule vault_base_reader_is_canonical) (rule decode_vault_base_complete[OF demo_base_facts])

text \<open>Round trip of the folded vault base: a canonical base whose records the JSON codec
  reads back is returned by the reader from its own canonical bytes.
\<close>

theorem vault_base_roundtrip:
  assumes "base_canonical base" "base_reads X base" "vault_base_canonical_bytes X base = Some b"
  shows "decode_vault_base X b = Inr base"
  by (rule decode_vault_base_complete[OF assms])

theorem vault_base_roundtrip_witness: "decode_vault_base demo_extern demo_stream = Inr demo_base"
  by (rule vault_base_roundtrip[OF demo_base_facts])

text \<open>The depositor's signature binds the whole record: equal signing bytes mean the same
  republic and the same deposit in every field but the signature itself.
\<close>

theorem deposit_signature_binds_record:
  assumes "deposit_signing_bytes rid d = Some b" "deposit_signing_bytes rid' e = Some b"
  shows "rid = rid' \<and> d\<lparr>vd_sig_depositor := []\<rparr> = e\<lparr>vd_sig_depositor := []\<rparr>"
  using deposit_signing_inj[OF assms] by (simp add: signed_deposit_def)

theorem deposit_signature_binds_record_witness:
  "bd_deposit (hd (vb_deposits demo_base))\<lparr>vd_sig_depositor := []\<rparr>
     = (bd_deposit (hd (vb_deposits demo_base))\<lparr>vd_sig_depositor := ''other''\<rparr>)\<lparr>vd_sig_depositor := []\<rparr>"
proof -
  let ?d = "bd_deposit (hd (vb_deposits demo_base))"
  obtain b where "deposit_signing_bytes ''r'' ?d = Some b"
    "deposit_signing_bytes ''r'' (?d\<lparr>vd_sig_depositor := ''other''\<rparr>) = Some b"
    by (simp add: demo_base_def demo_op_def deposit_signing_bytes_def layout_def put_bytes_def
        put_count_def cat.simps u8_byte_def u64_le_def)
  from deposit_signature_binds_record[OF this] show ?thesis by simp
qed

text \<open>Domain separation in the vault: two layouts under different vault tags never produce
  the same bytes, whatever their fields.
\<close>

theorem vault_tags_separate:
  assumes "t \<in> set vault_tags" "u \<in> set vault_tags" "t \<noteq> u"
    "layout t fs = Some b" "layout u gs = Some c"
  shows "b \<noteq> c \<and> distinct vault_tags"
  using layout_tags[OF assms(4), of u gs] assms vault_tags_no_nul vault_tags_distinct by blast

theorem vault_tags_separate_witness: "layout tag_share [] \<noteq> layout tag_eph []"
proof -
  let ?b = "tagged tag_share @ le_bytes 4 0" and ?c = "tagged tag_eph @ le_bytes 4 0"
  have "layout tag_share [] = Some ?b" "layout tag_eph [] = Some ?c"
    by (simp_all add: layout_def put_count_def cat.simps)
  moreover have "tag_share \<in> set vault_tags" "tag_eph \<in> set vault_tags" "tag_share \<noteq> tag_eph"
    by (simp_all add: vault_tags_def) (simp add: tag_defs)
  ultimately show ?thesis using vault_tags_separate[of tag_share tag_eph "[]" ?b "[]" ?c] by simp
qed

end
