(* ===== verification/Chain_Types.thy ===== *)
theory Chain_Types
  imports Canon_Bytes Extern
begin

text \<open>
  The chain's data and its canonical bytes: \<open>molt-core/src/chain.rs\<close> with the roster
  types and the surfaces of \<open>molt-core/src/lib.rs\<close>.

  Each layout is a function to \<open>bytes option\<close>; \<open>None\<close> is the panic of a length that
  does not fit its prefix.
\<close>

section \<open>Surfaces\<close>

datatype surface = Organization | Chat | Memory | Quests | Vault | Wallet | Files

definition surface_all :: "surface list" where
  "surface_all = [Organization, Chat, Memory, Quests, Vault, Wallet, Files]"

definition checkpoint_v7_surfaces :: "surface list" where
  "checkpoint_v7_surfaces = [Organization, Chat, Memory, Quests, Vault, Wallet]"

fun surface_as_str :: "surface \<Rightarrow> string" where
  "surface_as_str Organization = ''organization''"
| "surface_as_str Chat = ''chat''"
| "surface_as_str Memory = ''memory''"
| "surface_as_str Quests = ''quests''"
| "surface_as_str Vault = ''vault''"
| "surface_as_str Wallet = ''wallet''"
| "surface_as_str Files = ''files''"

definition surface_is_gated :: "surface \<Rightarrow> bool" where
  "surface_is_gated s \<longleftrightarrow> s \<noteq> Chat"

definition surface_parse :: "string \<Rightarrow> surface option" where
  "surface_parse s = List.find (\<lambda>x. surface_as_str x = s) surface_all"

definition surface_is_charter_feature :: "surface \<Rightarrow> bool" where
  "surface_is_charter_feature s \<longleftrightarrow> s \<notin> {Organization, Chat, Files}"

lemma surface_as_str_inj [simp]: "surface_as_str a = surface_as_str b \<longleftrightarrow> a = b"
  by (cases a; cases b) simp_all

lemma surface_parse_as_str: "surface_parse (surface_as_str s) = Some s"
  by (cases s) (simp_all add: surface_parse_def surface_all_def)

section \<open>Roster\<close>

record member_identity =
  mi_member :: string
  mi_identity_pk :: string
  mi_nostr_pk :: string
  mi_vault_pk :: string

record roster_attestation =
  at_member :: string
  at_sig :: string

definition roster_member_fields :: "bool \<Rightarrow> member_identity \<Rightarrow> bytes option" where
  "roster_member_fields keyed m =
     cat ([put_bytes (mi_member m), put_bytes (mi_identity_pk m), put_bytes (mi_nostr_pk m)]
          @ (if keyed then [put_bytes (mi_vault_pk m)] else []))"

definition roster_keyed :: "member_identity list \<Rightarrow> bool" where
  "roster_keyed members \<longleftrightarrow> list_ex (\<lambda>m. mi_vault_pk m \<noteq> []) members"

definition roster_canonical_bytes ::
  "string \<Rightarrow> u8 \<Rightarrow> u8 \<Rightarrow> member_identity list \<Rightarrow> string \<Rightarrow> string list \<Rightarrow> string list option
   \<Rightarrow> bytes option" where
  "roster_canonical_bytes ws_id rule_m rule_n members agenda relays features =
     (let keyed = roster_keyed members;
          tag = (if keyed then tagged ''molt-roster-v6''
                 else if features \<noteq> None then tagged ''molt-roster-v5''
                 else tagged ''molt-roster-v4'');
          written = (case features of Some f \<Rightarrow> Some f | None \<Rightarrow> if keyed then Some [] else None)
      in cat ([Some tag, put_bytes ws_id, Some (u8_byte rule_m), Some (u8_byte rule_n),
               put_count (length members)]
              @ map (roster_member_fields keyed) members
              @ [put_bytes agenda, put_count (length relays)]
              @ map put_bytes relays
              @ (case written of None \<Rightarrow> [] | Some f \<Rightarrow> put_count (length f) # map put_bytes f)))"

section \<open>Changes and blocks\<close>

datatype membership_op = Joined | Restored

datatype chain_change =
    Genesis (g_name: string) (g_republic_id: string) (g_rule_m: u8) (g_rule_n: u8)
      (g_identities: "member_identity list") (g_agenda: string) (g_relays: "string list")
      (g_features: "string list option")
  | Applied (a_proposal_id: u64) (a_surface: surface) (a_payload: json)
  | Membership (m_op: membership_op) (m_member: string) (m_identity_pk: string)
      (m_nostr_pk: "string option") (m_relays: "string list") (m_consent: "string option")
  | Checkpoint (c_upto: u64) (c_state_hash: string)
  | CheckpointFolded (cf_upto: u64) (cf_state_hash: string)
  | CheckpointVault (cv_upto: u64) (cv_state_hash: string) (cv_wiki_folded: bool)

record chain_block =
  blk_height :: u64
  blk_prev :: string
  blk_change :: chain_change
  blk_sigs :: "roster_attestation list"

definition genesis_prev :: string where
  "genesis_prev = replicate 64 (CHR ''0'')"

fun membership_op_byte :: "membership_op \<Rightarrow> bytes" where
  "membership_op_byte Joined = [CHR 0x00]"
| "membership_op_byte Restored = [CHR 0x01]"

text \<open>
  What the members sign. The fields after the height are \<open>change_body\<close>, one clause per
  variant in the order the code writes them; the genesis signs the roster table instead.
\<close>

fun change_body :: "extern \<Rightarrow> chain_change \<Rightarrow> bytes option" where
  "change_body X (Genesis _ _ _ _ _ _ _ _) = None"
| "change_body X (Applied proposal_id sf payload) =
     cat [Some [CHR 0x01], Some (u64_le proposal_id), put_bytes (surface_as_str sf),
          put_bytes (json_to_vec X payload)]"
| "change_body X (Membership op member identity_pk nostr_pk relays consent) =
     cat ([Some [CHR 0x02], Some (membership_op_byte op), put_bytes member,
           put_bytes identity_pk, enc_opt put_bytes nostr_pk]
          @ (if relays = [] then []
             else Some [CHR 0x01] # put_count64 (length relays) # map put_bytes relays)
          @ (case consent of None \<Rightarrow> [] | Some c \<Rightarrow> [Some [CHR 0x02], put_bytes c]))"
| "change_body X (Checkpoint up_to state_hash) =
     cat [Some [CHR 0x03], Some (u64_le up_to), put_bytes state_hash]"
| "change_body X (CheckpointFolded up_to state_hash) =
     cat [Some [CHR 0x04], Some (u64_le up_to), put_bytes state_hash]"
| "change_body X (CheckpointVault up_to state_hash wiki_folded) =
     cat [Some [CHR 0x05], Some (if wiki_folded then [CHR 0x01] else [CHR 0x00]),
          Some (u64_le up_to), put_bytes state_hash]"

definition approval_bytes :: "extern \<Rightarrow> string \<Rightarrow> u64 \<Rightarrow> chain_change \<Rightarrow> bytes option" where
  "approval_bytes X republic_id height change =
     (case change of
        Genesis _ rid rule_m rule_n identities agenda relays features \<Rightarrow>
          roster_canonical_bytes rid rule_m rule_n identities agenda relays features
      | _ \<Rightarrow>
          cat [Some (tagged ''molt-chain-change-v2''), put_bytes republic_id, Some (u64_le height),
               change_body X change])"

text \<open>
  The consent of a returning seat: its two layouts, the string it travels in and the parser
  that accepts exactly one rendering.
\<close>

definition nostr_pk_field :: "string \<Rightarrow> bytes option" where
  "nostr_pk_field nostr_pk =
     (if nostr_pk = [] then Some [CHR 0x00] else cat [Some [CHR 0x01], put_bytes nostr_pk])"

definition restore_consent_bytes :: "string \<Rightarrow> string \<Rightarrow> string \<Rightarrow> string \<Rightarrow> bytes option" where
  "restore_consent_bytes republic_id member identity_pk nostr_pk =
     cat [Some (tagged ''molt-restore-consent-v1''), put_bytes republic_id, put_bytes member,
          put_bytes identity_pk, nostr_pk_field nostr_pk]"

definition restore_consent_bytes_v2 ::
  "string \<Rightarrow> string \<Rightarrow> string \<Rightarrow> string \<Rightarrow> string list \<Rightarrow> u64 \<Rightarrow> string \<Rightarrow> bytes option" where
  "restore_consent_bytes_v2 republic_id member identity_pk nostr_pk relays anchor_height prev_anchor =
     cat ([Some (tagged ''molt-restore-consent-v2''), put_bytes republic_id, put_bytes member,
           put_bytes identity_pk, nostr_pk_field nostr_pk, put_count64 (length relays)]
          @ map put_bytes relays
          @ [Some (u64_le anchor_height), put_bytes prev_anchor])"

definition restore_consent_window :: u64 where
  "restore_consent_window = 1024"

record consent_anchor =
  ca_height :: u64
  ca_prev_anchor :: string

datatype restore_consent = ConsentV1 string | ConsentV2 u64 string string

definition is_lower_hex_char :: "char \<Rightarrow> bool" where
  "is_lower_hex_char c \<longleftrightarrow> is_digit c \<or> (97 \<le> (of_char c :: nat) \<and> (of_char c :: nat) \<le> 102)"

definition is_lower_hex :: "string \<Rightarrow> bool" where
  "is_lower_hex s \<longleftrightarrow> list_all is_lower_hex_char s"

definition parse_restore_consent :: "string \<Rightarrow> restore_consent option" where
  "parse_restore_consent s =
     (case strip_prefix ''v2:'' s of
        None \<Rightarrow> Some (ConsentV1 s)
      | Some rest \<Rightarrow>
          (case split_once (CHR '':'') rest of
             None \<Rightarrow> None
           | Some (h, rest2) \<Rightarrow>
               (case split_once (CHR '':'') rest2 of
                  None \<Rightarrow> None
                | Some (prev, sg) \<Rightarrow>
                    (case parse_u64 h of
                       None \<Rightarrow> None
                     | Some n \<Rightarrow>
                         if show_nat n \<noteq> h \<or> \<not> is_lower_hex prev \<or> sg = [] \<or> \<not> is_lower_hex sg
                         then None
                         else Some (ConsentV2 (of_nat n) prev sg)))))"

definition render_restore_consent_v2 :: "consent_anchor \<Rightarrow> string \<Rightarrow> string" where
  "render_restore_consent_v2 anchor sg =
     ''v2:'' @ show_nat (unat (ca_height anchor)) @ '':'' @ ca_prev_anchor anchor @ '':'' @ sg"

section \<open>The checkpointed state\<close>

record checkpoint_state =
  cs_founding_name :: string
  cs_rule_m :: u8
  cs_rule_n :: u8
  cs_founding_identities :: "member_identity list"
  cs_agenda :: string
  cs_relays :: "string list"
  cs_founding_features :: "string list option"
  cs_republic_id :: string
  cs_roster :: "member_identity list"
  cs_applied :: "(surface \<times> (u64 \<times> json) list) list"
  cs_consumed_ids :: "u64 list"
  cs_anchors :: "(string \<times> string) list"
  cs_member_relays :: "(string \<times> string list) list"
  cs_upto :: u64

definition is_ascii_hexdigit :: "char \<Rightarrow> bool" where
  "is_ascii_hexdigit c \<longleftrightarrow>
     is_lower_hex_char c \<or> (65 \<le> (of_char c :: nat) \<and> (of_char c :: nat) \<le> 70)"

definition applied_lww_slot :: "surface \<Rightarrow> json \<Rightarrow> string option" where
  "applied_lww_slot sf payload =
     (if sf = Files then
        (case get_str payload ''op'' of
           None \<Rightarrow> None
         | Some op \<Rightarrow>
             if op \<in> {''persist'', ''unpersist'', ''delete''} then
               (case get_str payload ''id'' of
                  None \<Rightarrow> None
                | Some i \<Rightarrow>
                    if length i = 32 \<and> list_all is_ascii_hexdigit i
                    then Some (''files.'' @ i) else None)
             else None)
      else if sf \<noteq> Organization then None
      else
        (let member = (case get_str payload ''member'' of
                         None \<Rightarrow> None | Some m \<Rightarrow> if m = [] then None else Some m)
         in case get_str payload ''op'' of
              None \<Rightarrow> None
            | Some op \<Rightarrow>
                if op = ''set_name'' then Some ''organization.name''
                else if op = ''set_charter'' then Some ''organization.charter''
                else if op = ''set_chat_retention'' then Some ''organization.retention''
                else if op \<in> {''set_image'', ''remove_image''} then Some ''organization.image''
                else if op = ''set_relays'' then Some ''organization.relays''
                else if op \<in> {''set_member_image'', ''remove_member_image''} then
                  map_option (\<lambda>m. ''member.image:'' @ m) member
                else if op = ''set_member_desc'' then
                  map_option (\<lambda>m. ''member.desc:'' @ m) member
                else None))"

definition applied_groups :: "checkpoint_state \<Rightarrow> (string \<times> (u64 \<times> json) list) list" where
  "applied_groups s = map (\<lambda>(sf, entries). (surface_as_str sf, entries)) (cs_applied s)"

definition group_fields :: "extern \<Rightarrow> string \<times> (u64 \<times> json) list \<Rightarrow> bytes option" where
  "group_fields X g =
     cat (put_bytes (fst g) # put_count64 (length (snd g))
          # map (\<lambda>(i, payload). cat [Some (u64_le i), put_bytes (json_to_vec X payload)]) (snd g))"

definition strings_run64 :: "string list \<Rightarrow> bytes option" where
  "strings_run64 xs = cat (put_count64 (length xs) # map put_bytes xs)"

definition canonical_bytes_over ::
  "extern \<Rightarrow> checkpoint_state \<Rightarrow> (string \<times> (u64 \<times> json) list) list \<Rightarrow> bytes option" where
  "canonical_bytes_over X s groups =
     (let outside = list_ex (\<lambda>(key, _). key \<notin> set (map surface_as_str checkpoint_v7_surfaces)) groups;
          folded = list_ex (\<lambda>(key, entries). key = surface_as_str Memory \<and>
                      list_ex (\<lambda>(_, p). get_str p ''op'' = Some ''wiki_base'') entries) groups;
          vault = roster_keyed (cs_founding_identities s @ cs_roster s);
          later = outside \<or> folded \<or> vault;
          tag = (if vault then tagged ''molt-chain-checkpoint-v10''
                 else if folded then tagged ''molt-chain-checkpoint-v9''
                 else if later then tagged ''molt-chain-checkpoint-v8''
                 else if cs_founding_features s \<noteq> None then tagged ''molt-chain-checkpoint-v7''
                 else tagged ''molt-chain-checkpoint-v6'')
      in cat ([Some tag, put_bytes (cs_republic_id s), put_bytes (cs_founding_name s),
               Some (u8_byte (cs_rule_m s)), Some (u8_byte (cs_rule_n s)),
               put_count64 (length (cs_founding_identities s))]
              @ map (roster_member_fields vault) (cs_founding_identities s)
              @ [put_bytes (cs_agenda s), strings_run64 (cs_relays s)]
              @ (if later
                 then [Some (if cs_founding_features s \<noteq> None then [CHR 0x01] else [CHR 0x00])]
                 else [])
              @ (case cs_founding_features s of None \<Rightarrow> [] | Some f \<Rightarrow> [strings_run64 f])
              @ [put_count64 (length (cs_roster s))]
              @ map (roster_member_fields vault) (cs_roster s)
              @ (if later then [put_count64 (length groups)] else [])
              @ map (group_fields X) groups
              @ [put_count64 (length (cs_consumed_ids s))]
              @ map (\<lambda>i. Some (u64_le i)) (cs_consumed_ids s)
              @ [put_count64 (length (cs_anchors s))]
              @ map (\<lambda>(m, pk). cat [put_bytes m, put_bytes pk]) (cs_anchors s)
              @ [put_count64 (length (cs_member_relays s))]
              @ map (\<lambda>(m, rs). cat [put_bytes m, strings_run64 rs]) (cs_member_relays s)
              @ [Some (u64_le (cs_upto s))]))"

definition checkpoint_canonical_bytes :: "extern \<Rightarrow> checkpoint_state \<Rightarrow> bytes option" where
  "checkpoint_canonical_bytes X s = canonical_bytes_over X s (applied_groups s)"

definition block_link_bytes :: "extern \<Rightarrow> string \<Rightarrow> chain_block \<Rightarrow> bytes option" where
  "block_link_bytes X republic_id block =
     cat ([Some (tagged ''molt-chain-block-v1''), Some (u64_le (blk_height block)),
           put_bytes (blk_prev block),
           Option.bind (approval_bytes X republic_id (blk_height block) (blk_change block)) put_bytes]
          @ map (\<lambda>(m, sg). cat [put_bytes m, put_bytes sg])
              (sort (map (\<lambda>a. (at_member a, at_sig a)) (blk_sigs block))))"

end
