(* ===== verification/Vault_Checks.thy ===== *)
theory Vault_Checks
  imports Vault_Layouts Chain_Types
begin

text \<open>
  The checks a vault record and a keyed roster pass: hex fields and keys
  (\<open>molt-vault/src/lib.rs\<close>, \<open>key.rs\<close>), the shape and the signature of a deposit
  (\<open>deposit.rs\<close>), the re-verification of a folded base (\<open>base.rs\<close>), the roster rule and the
  vault context (\<open>molt-engine/src/vault/mod.rs\<close>), and the closed set of operations a chain
  may carry (\<open>molt-engine/src/vault/deposit.rs\<close>).
\<close>

section \<open>Errors\<close>

datatype vault_error =
    Label string | TooLarge | NotASeat string | Threshold | Shape string | Signature | Key | Base string

fun vault_error_display :: "vault_error \<Rightarrow> string" where
  "vault_error_display (Label l) = ''bad label: '' @ l"
| "vault_error_display TooLarge = ''too large''"
| "vault_error_display (NotASeat m) = ''not a seat: '' @ m"
| "vault_error_display Threshold = ''bad threshold''"
| "vault_error_display (Shape w) = ''bad shape: '' @ w"
| "vault_error_display Signature = ''bad signature''"
| "vault_error_display Key = ''bad vault key''"
| "vault_error_display (Base w) = ''bad base: '' @ w"

section \<open>Hex and keys\<close>

definition is_hex :: "string \<Rightarrow> nat \<Rightarrow> bool" where
  "is_hex s n \<longleftrightarrow> length s = n * 2 \<and> list_all is_lower_hex_char s"

definition hex_array :: "extern \<Rightarrow> nat \<Rightarrow> string \<Rightarrow> bytes option" where
  "hex_array X n s =
     (if \<not> is_hex s n then None
      else (case hex_decode X s of
              None \<Rightarrow> None
            | Some raw \<Rightarrow> if length raw = n then Some raw else None))"

text \<open>The field prime, little-endian.\<close>

definition vault_p :: bytes where
  "vault_p = (replicate 32 (CHR 0xFF))[0 := CHR 0xED, 31 := CHR 0x7F]"

definition canonical_vault_pk :: "extern \<Rightarrow> string \<Rightarrow> vault_error + string" where
  "canonical_vault_pk X s =
     rbind (ok_or Key (hex_array X 32 s)) (\<lambda>raw.
       if (of_char (raw ! 31) :: nat) \<ge> 0x80 then Inl Key
       else if \<not> rev raw < rev vault_p then Inl Key
       else if \<not> hpke_accepts X raw then Inl Key
       else Inr s)"

section \<open>Deposits\<close>

fun holders_from :: "nat \<Rightarrow> string \<Rightarrow> (string \<times> string \<times> string) list \<Rightarrow>
    vault_error + bool \<times> (string \<times> u8 \<times> string) list" where
  "holders_from i depositor [] = Inr (False, [])"
| "holders_from i depositor ((name, _, vault_pk) # rest) =
     (if i + 1 \<ge> 256 then Inl Threshold
      else rbind (holders_from (i + 1) depositor rest) (\<lambda>(found, out).
             if name = depositor then Inr (True, out)
             else Inr (found, (name, of_nat (i + 1), vault_pk) # out)))"

definition holders_of :: "vault_ctx \<Rightarrow> string \<Rightarrow> vault_error + (string \<times> u8 \<times> string) list" where
  "holders_of ctx depositor =
     rbind (holders_from 0 depositor (vc_holders_in_genesis_order ctx)) (\<lambda>(found, out).
       if \<not> found then Inl (NotASeat depositor) else Inr out)"

definition commitments_of :: "extern \<Rightarrow> vault_deposit \<Rightarrow> vault_error + bytes list" where
  "commitments_of X dep = collect (\<lambda>c. ok_or (Shape ''commitment'') (hex_array X 32 c)) (vd_commitments dep)"

definition share_ct_len :: nat where "share_ct_len = 80"
definition payload_overhead :: nat where "payload_overhead = 40"

definition verify_deposit_shape :: "extern \<Rightarrow> vault_deposit \<Rightarrow> vault_ctx \<Rightarrow> vault_error + unit" where
  "verify_deposit_shape X dep ctx =
     rbind (map_err Label (check_vault_name (vd_name dep))) (\<lambda>_.
     rbind (map_err Label (check_vault_kind (vd_kind dep))) (\<lambda>_.
     rbind (holders_of ctx (vd_depositor dep)) (\<lambda>holders.
     rbind (reject_if (vd_m dep \<noteq> vc_m ctx) (Shape ''m'')) (\<lambda>_.
     rbind (reject_if (length (vd_holders dep) \<noteq> length holders
               \<or> list_ex (\<lambda>(a, (b, _, _)). a \<noteq> b) (zip (vd_holders dep) holders)) (Shape ''holders'')) (\<lambda>_.
     rbind (reject_if (length (vd_commitments dep) \<noteq> unat (vd_m dep)) (Shape ''commitments'')) (\<lambda>_.
     rbind (commitments_of X dep) (\<lambda>cs.
     rbind (reject_if (list_ex (\<lambda>c. \<not> is_point_bytes X c) cs) (Shape ''commitment'')) (\<lambda>_.
     rbind (reject_if (length (vd_enc_share dep) \<noteq> length holders
               \<or> list_ex (\<lambda>e. \<not> is_hex e share_ct_len) (vd_enc_share dep)) (Shape ''enc_share'')) (\<lambda>_.
     rbind (reject_if (\<not> is_hex (vp_hash (vd_payload dep)) 32) (Shape ''payload hash'')) (\<lambda>_.
     rbind (reject_if (unat (vp_size (vd_payload dep)) < payload_overhead
               \<or> unat (vp_size (vd_payload dep)) > vault_payload_max + payload_overhead)
             (Shape ''payload size'')) (\<lambda>_.
     rbind (reject_if (vd_replaces dep \<noteq> [] \<and> \<not> is_hex (vd_replaces dep) 32) (Shape ''replaces'')) (\<lambda>_.
     rbind (reject_if (\<not> is_hex (vd_nonce dep) 16) (Shape ''nonce'')) (\<lambda>_.
       reject_if (\<not> is_hex (vd_sig_depositor dep) 64) (Shape ''sig_depositor'')))))))))))))) "

definition verify_deposit_sig ::
  "extern \<Rightarrow> vault_deposit \<Rightarrow> string \<Rightarrow> string \<Rightarrow> vault_error fault + unit" where
  "verify_deposit_sig X dep republic_id depositor_identity_pk =
     rbind (ok_or (Refused Signature) (hex_array X 32 depositor_identity_pk)) (\<lambda>pk.
     rbind (ok_or (Refused Signature) (hex_array X 64 (vd_sig_depositor dep))) (\<lambda>sg.
     rbind (refuse_if (\<not> vk_from_bytes X pk) Signature) (\<lambda>_.
     rbind (or_panic (deposit_signing_bytes republic_id dep)) (\<lambda>msg.
       refuse_if (\<not> verify_strict X pk msg sg) Signature))))"

section \<open>The folded base\<close>

definition seat_of :: "vault_ctx \<Rightarrow> string \<Rightarrow> (string \<times> string \<times> string) option" where
  "seat_of ctx n = List.find (\<lambda>(m, _, _). m = n) (vc_holders_in_genesis_order ctx)"

definition verify_base_grant ::
  "extern \<Rightarrow> vault_ctx \<Rightarrow> string \<Rightarrow> string list \<Rightarrow> vault_base_grant \<Rightarrow> vault_error fault + string list" where
  "verify_base_grant X ctx sid seen g =
     rbind (refuse_if (vg_secret_id (bg_grant g) \<noteq> sid) (Base ''a grant on another version'')) (\<lambda>_.
     rbind (refuse_if (seat_of ctx (vg_reader (bg_grant g)) = None) (NotASeat (vg_reader (bg_grant g)))) (\<lambda>_.
     rbind (or_panic (grant_id X sid (vg_reader (bg_grant g)) (bg_proposal_id g))) (\<lambda>gid.
     rbind (refuse_if (gid \<noteq> vg_grant_id (bg_grant g)) (Base ''a grant id does not recompute'')) (\<lambda>_.
     rbind (refuse_if (vg_grant_id (bg_grant g) \<in> set seen) (Base ''a grant twice'')) (\<lambda>_.
       Inr (bset_insert (vg_grant_id (bg_grant g)) seen))))))"

definition verify_base_entry ::
  "extern \<Rightarrow> string \<Rightarrow> vault_ctx \<Rightarrow> (string \<times> string) list \<times> string list \<Rightarrow> vault_base_deposit
   \<Rightarrow> vault_error fault + (string \<times> string) list \<times> string list" where
  "verify_base_entry X republic_id ctx st e =
     (case st of (slots, seen) \<Rightarrow>
        let dep = bd_deposit e in
        rbind (refuse_if (deposit_slot e \<in> set slots) (Base ''a slot twice'')) (\<lambda>_.
        rbind (refusing id (verify_deposit_shape X dep ctx)) (\<lambda>_.
        rbind (ok_or (Refused (NotASeat (vd_depositor dep))) (seat_of ctx (vd_depositor dep))) (\<lambda>(_, pk, _).
        rbind (verify_deposit_sig X dep republic_id pk) (\<lambda>_.
        rbind (or_panic (secret_id X republic_id dep)) (\<lambda>sid.
        rbind (rfold (verify_base_grant X ctx sid) seen (bd_grants e)) (\<lambda>seen'.
          Inr (bset_insert (deposit_slot e) slots, seen'))))))))"

definition verify_base :: "extern \<Rightarrow> vault_base \<Rightarrow> string \<Rightarrow> vault_ctx \<Rightarrow> vault_error fault + unit" where
  "verify_base X base republic_id ctx =
     rbind (rfold (verify_base_entry X republic_id ctx) ([], []) (vb_deposits base)) (\<lambda>_. Inr ())"

section \<open>The roster rule and the vault context\<close>

definition ctx_from_founding :: "u8 \<Rightarrow> member_identity list \<Rightarrow> vault_ctx option" where
  "ctx_from_founding rule_m founding =
     (if list_all (\<lambda>i. mi_vault_pk i = []) founding then None
      else Some \<lparr>vc_m = rule_m,
             vc_holders_in_genesis_order =
               map (\<lambda>i. (mi_member i, mi_identity_pk i, mi_vault_pk i)) founding\<rparr>)"

definition bounds_ok :: "u8 \<Rightarrow> u8 \<Rightarrow> bool" where
  "bounds_ok rule_m rule_n \<longleftrightarrow> rule_m \<ge> 2 \<and> unat rule_m + 2 \<le> unat rule_n"

definition has_vault :: "string list option \<Rightarrow> bool" where
  "has_vault features = (case features of None \<Rightarrow> False | Some f \<Rightarrow> list_ex (\<lambda>k. k = ''vault'') f)"

definition check_seat_key :: "extern \<Rightarrow> string list \<Rightarrow> member_identity \<Rightarrow> string + string list" where
  "check_seat_key X seen i =
     (if mi_vault_pk i = [] then Inl (''seat '' @ mi_member i @ '' has no vault key'')
      else if canonical_vault_pk X (mi_vault_pk i) \<noteq> Inr (mi_vault_pk i)
      then Inl (''seat '' @ mi_member i @ '' carries an invalid vault key'')
      else if mi_vault_pk i \<in> set seen then Inl (''seat '' @ mi_member i @ '' shares its vault key'')
      else Inr (bset_insert (mi_vault_pk i) seen))"

definition check_roster_keys ::
  "extern \<Rightarrow> u8 \<Rightarrow> u8 \<Rightarrow> member_identity list \<Rightarrow> string list option \<Rightarrow> string + bool" where
  "check_roster_keys X rule_m rule_n identities features =
     (if list_all (\<lambda>i. mi_vault_pk i = []) identities then Inr False
      else if features = None then Inl ''vault keys without a feature set''
      else if has_vault features \<and> \<not> bounds_ok rule_m rule_n then Inl ''needs 2 <= m <= n-2''
      else rbind (rfold (check_seat_key X) [] identities) (\<lambda>_. Inr True))"

definition check_new_founding_keys ::
  "extern \<Rightarrow> u8 \<Rightarrow> u8 \<Rightarrow> member_identity list \<Rightarrow> string list option \<Rightarrow> string + bool" where
  "check_new_founding_keys X rule_m rule_n identities features =
     rbind (check_roster_keys X rule_m rule_n identities features) (\<lambda>keyed.
       if \<not> keyed \<and> has_vault features then Inl ''the vault feature without vault keys'' else Inr keyed)"

definition sets_vault :: "json \<Rightarrow> bool" where
  "sets_vault payload \<longleftrightarrow>
     get_str payload ''op'' = Some ''set_features'' \<and>
     (case get_str payload ''value'' of
        None \<Rightarrow> False
      | Some v \<Rightarrow> list_ex (\<lambda>k. k = ''vault'') (split_whitespace v))"

definition ctx_bounds_ok :: "vault_ctx \<Rightarrow> bool" where
  "ctx_bounds_ok ctx =
     bounds_ok (vc_m ctx)
       (if length (vc_holders_in_genesis_order ctx) < 256
        then of_nat (length (vc_holders_in_genesis_order ctx)) else 255)"

definition enabled_by :: "vault_ctx \<Rightarrow> string list option \<Rightarrow> json list \<Rightarrow> bool" where
  "enabled_by ctx founding org \<longleftrightarrow> ctx_bounds_ok ctx \<and> (has_vault founding \<or> list_ex sets_vault org)"

definition walk_enabled :: "checkpoint_state \<Rightarrow> vault_ctx \<Rightarrow> bool" where
  "walk_enabled state ctx =
     enabled_by ctx (cs_founding_features state)
       (map snd (concat (map snd (filter (\<lambda>(s, _). s = Organization) (cs_applied state)))))"

section \<open>The closed set of operations\<close>

datatype vault_arm_kind = ArmDeposit | ArmGrant | ArmMock

definition vault_arm :: "json \<Rightarrow> bool \<Rightarrow> string + vault_arm_kind" where
  "vault_arm payload is_real =
     (if get_str payload ''op'' = Some ''deposit'' then Inr ArmDeposit
      else if get_str payload ''op'' = Some ''grant'' then Inr ArmGrant
      else if is_real then Inl ''unknown op''
      else Inr ArmMock)"

definition check_grant :: "extern \<Rightarrow> vault_grant \<Rightarrow> u64 \<Rightarrow> vault_ctx \<Rightarrow> string fault + unit" where
  "check_grant X g proposal_id ctx =
     rbind (refuse_if (seat_of ctx (vg_reader g) = None) ''grant: the reader is not a seat'') (\<lambda>_.
     rbind (or_panic (grant_id X (vg_secret_id g) (vg_reader g) proposal_id)) (\<lambda>gid.
       refuse_if (vg_grant_id g \<noteq> gid) ''grant: grant_id does not recompute''))"

definition check_deposit :: "extern \<Rightarrow> string \<Rightarrow> vault_deposit \<Rightarrow> vault_ctx \<Rightarrow> string fault + unit" where
  "check_deposit X republic_id dep ctx =
     rbind (refusing (\<lambda>e. ''deposit: '' @ vault_error_display e) (verify_deposit_shape X dep ctx)) (\<lambda>_.
     rbind (ok_or (Refused ''deposit: unknown depositor'') (seat_of ctx (vd_depositor dep))) (\<lambda>(_, pk, _).
       map_refusal (\<lambda>e. ''deposit: '' @ vault_error_display e) (verify_deposit_sig X dep republic_id pk)))"

definition check_vault_op ::
  "extern \<Rightarrow> string \<Rightarrow> u64 \<Rightarrow> json \<Rightarrow> vault_ctx \<Rightarrow> string fault + vault_op" where
  "check_vault_op X republic_id proposal_id payload ctx =
     rbind (ok_or (Refused ''unknown op'') (vault_from_value X payload)) (\<lambda>op.
     rbind (refuse_if (vault_to_value X op \<noteq> payload) ''not canonical'') (\<lambda>_.
     rbind (case op of
              Deposit dep \<Rightarrow> check_deposit X republic_id dep ctx
            | Grant g \<Rightarrow> check_grant X g proposal_id ctx
            | VaultBaseOp _ \<Rightarrow> Inl (Refused ''vault_base outside a cut''))
       (\<lambda>_. Inr op)))"

end
