(* ===== verification/Vault_Guards.thy ===== *)
theory Vault_Guards
  imports Vault_Checks
begin

text \<open>
  What the vault's checks guarantee: an accepted deposit is dealt to exactly the other seats
  at the republic's threshold and signed by its depositor, a keyed roster has one
  canonical key per seat, and an accepted folded base holds each slot and each grant once.
\<close>

section \<open>Deposits\<close>

lemma holders_from_Inr:
  assumes "holders_from i depositor seats = Inr (found, out)"
  shows "(found \<longleftrightarrow> depositor \<in> fst ` set seats) \<and>
    map fst out = filter (\<lambda>n. n \<noteq> depositor) (map fst seats) \<and> i + length seats < 256 \<or> seats = []"
  using assms
proof (induction i depositor seats arbitrary: found out rule: holders_from.induct)
  case (2 i depositor nm ipk vpk rest)
  from "2.prems" obtain f o' where r: "\<not> i + 1 \<ge> 256" "holders_from (i + 1) depositor rest = Inr (f, o')"
    "(found, out) = (if nm = depositor then (True, o') else (f, (nm, of_nat (i + 1), vpk) # o'))"
    by (auto simp: rbind_eq_Inr split: if_splits)
  show ?case
  proof (cases "rest = []")
    case True
    then show ?thesis using r by (auto split: if_splits)
  next
    case False
    then show ?thesis using "2.IH"[OF r(1,2)] r(1,3) by (auto split: if_splits)
  qed
qed simp

lemma holders_of_Inr:
  assumes "holders_of ctx depositor = Inr out"
  shows "depositor \<in> fst ` set (vc_holders_in_genesis_order ctx) \<and>
    map fst out = filter (\<lambda>n. n \<noteq> depositor) (map fst (vc_holders_in_genesis_order ctx))"
proof -
  from assms have "holders_from 0 depositor (vc_holders_in_genesis_order ctx) = Inr (True, out)"
    by (auto simp: holders_of_def rbind_eq_Inr split: if_splits)
  from holders_from_Inr[OF this] this show ?thesis by (elim disjE) simp_all
qed

lemma zip_names_eq:
  "length xs = length ys \<Longrightarrow> \<not> list_ex (\<lambda>(a, (b, _, _)). a \<noteq> b) (zip xs ys) \<Longrightarrow> xs = map fst ys"
  by (induction xs ys rule: list_induct2) auto

lemma collect_length: "collect f xs = Inr ys \<Longrightarrow> length ys = length xs"
  by (induction xs arbitrary: ys) (auto simp: rbind_eq_Inr)

lemma deposit_shape_facts:
  assumes "verify_deposit_shape X dep ctx = Inr ()"
  shows "vd_depositor dep \<in> fst ` set (vc_holders_in_genesis_order ctx)"
    "vd_holders dep = filter (\<lambda>n. n \<noteq> vd_depositor dep) (map fst (vc_holders_in_genesis_order ctx))"
    "vd_m dep = vc_m ctx" "length (vd_commitments dep) = unat (vc_m ctx)"
    "length (vd_enc_share dep) = length (vd_holders dep)"
    "unat (vp_size (vd_payload dep)) \<le> vault_payload_max + payload_overhead"
proof -
  from assms obtain holders where h: "holders_of ctx (vd_depositor dep) = Inr holders"
    "length (vd_holders dep) = length holders" "\<not> list_ex (\<lambda>(a, (b, _, _)). a \<noteq> b) (zip (vd_holders dep) holders)"
    "vd_m dep = vc_m ctx" "length (vd_commitments dep) = unat (vc_m ctx)" "length (vd_enc_share dep) = length holders"
    "unat (vp_size (vd_payload dep)) \<le> vault_payload_max + payload_overhead"
    unfolding verify_deposit_shape_def by (auto simp: rbind_eq_Inr not_less)
  note s = holders_of_Inr[OF h(1)] zip_names_eq[OF h(2,3)]
  show "vd_depositor dep \<in> fst ` set (vc_holders_in_genesis_order ctx)"
    "vd_holders dep = filter (\<lambda>n. n \<noteq> vd_depositor dep) (map fst (vc_holders_in_genesis_order ctx))"
    "vd_m dep = vc_m ctx" "length (vd_commitments dep) = unat (vc_m ctx)"
    "length (vd_enc_share dep) = length (vd_holders dep)"
    "unat (vp_size (vd_payload dep)) \<le> vault_payload_max + payload_overhead"
    using s h by simp_all
qed

text \<open>A deposit the chain admits is dealt to exactly the seats other than its depositor, in
  genesis order, with one encrypted share each and as many commitments as the republic's
  threshold; its sealed payload is within the size limit, and its signature over the record
  verifies under the depositor's own founding key.\<close>
theorem admitted_deposit_is_well_dealt:
  assumes "check_deposit X rid dep ctx = Inr ()"
  shows "vd_holders dep = filter (\<lambda>n. n \<noteq> vd_depositor dep) (map fst (vc_holders_in_genesis_order ctx)) \<and>
    vd_depositor dep \<in> fst ` set (vc_holders_in_genesis_order ctx) \<and>
    length (vd_enc_share dep) = length (vd_holders dep) \<and>
    length (vd_commitments dep) = unat (vc_m ctx) \<and>
    unat (vp_size (vd_payload dep)) \<le> vault_payload_max + payload_overhead \<and>
    (\<exists>nm ipk vpk pk msg sg. (nm, ipk, vpk) \<in> set (vc_holders_in_genesis_order ctx) \<and> nm = vd_depositor dep \<and>
       hex_array X 32 ipk = Some pk \<and> deposit_signing_bytes rid dep = Some msg \<and>
       hex_array X 64 (vd_sig_depositor dep) = Some sg \<and> verify_strict X pk msg sg)"
proof -
  from assms obtain nm ipk vpk where s: "verify_deposit_shape X dep ctx = Inr ()"
    "seat_of ctx (vd_depositor dep) = Some (nm, ipk, vpk)" "verify_deposit_sig X dep rid ipk = Inr ()"
    by (auto simp: check_deposit_def rbind_eq_Inr)
  from s(2) have seat: "(nm, ipk, vpk) \<in> set (vc_holders_in_genesis_order ctx)" "nm = vd_depositor dep"
    unfolding seat_of_def by (auto dest!: find_eq_SomeD)
  from s(3) have "\<exists>pk msg sg. hex_array X 32 ipk = Some pk \<and> deposit_signing_bytes rid dep = Some msg \<and>
      hex_array X 64 (vd_sig_depositor dep) = Some sg \<and> verify_strict X pk msg sg"
    by (auto simp: verify_deposit_sig_def rbind_eq_Inr)
  with deposit_shape_facts[OF s(1)] seat show ?thesis by blast
qed

section \<open>Keyed rosters\<close>

lemma check_seat_keys_Inr:
  assumes "rfold (check_seat_key X) seen ids = Inr seen'"
  shows "distinct (map mi_vault_pk ids) \<and> set (map mi_vault_pk ids) \<inter> set seen = {} \<and>
    list_all (\<lambda>i. mi_vault_pk i \<noteq> [] \<and> canonical_vault_pk X (mi_vault_pk i) = Inr (mi_vault_pk i)) ids"
  using assms
proof (induction ids arbitrary: seen)
  case (Cons i ids)
  then obtain s1 where s1: "check_seat_key X seen i = Inr s1" "rfold (check_seat_key X) s1 ids = Inr seen'"
    by (auto simp: rbind_eq_Inr)
  have "set s1 = insert (mi_vault_pk i) (set seen)" "mi_vault_pk i \<notin> set seen" "mi_vault_pk i \<noteq> []"
    "canonical_vault_pk X (mi_vault_pk i) = Inr (mi_vault_pk i)"
    using s1(1) by (auto simp: check_seat_key_def split: if_splits)
  with Cons.IH[OF s1(2)] show ?case by auto
qed simp

text \<open>An accepted keyed roster gives every seat its own canonical vault key, comes with a
  sealed feature set, and with the vault feature leaves \<open>2 \<le> m\<close> and \<open>m + 2 \<le> n\<close>: losing the
  depositor and one more seat never loses the secret.\<close>
theorem keyed_roster_is_sound:
  assumes "check_roster_keys X m n ids features = Inr True"
  shows "distinct (map mi_vault_pk ids) \<and> features \<noteq> None \<and>
    list_all (\<lambda>i. mi_vault_pk i \<noteq> [] \<and> canonical_vault_pk X (mi_vault_pk i) = Inr (mi_vault_pk i)) ids \<and>
    (has_vault features \<longrightarrow> 2 \<le> m \<and> unat m + 2 \<le> unat n)"
proof -
  from assms obtain seen where "rfold (check_seat_key X) [] ids = Inr seen" "features \<noteq> None"
    "has_vault features \<longrightarrow> bounds_ok m n"
    by (auto simp: check_roster_keys_def rbind_eq_Inr split: if_splits)
  then show ?thesis using check_seat_keys_Inr[of X "[]" ids seen] by (simp add: bounds_ok_def)
qed

section \<open>The folded base\<close>

lemma base_grants_Inr:
  assumes "rfold (verify_base_grant X ctx sid) seen gs = Inr seen'"
  shows "distinct (map (\<lambda>g. vg_grant_id (bg_grant g)) gs) \<and>
    set seen' = (\<lambda>g. vg_grant_id (bg_grant g)) ` set gs \<union> set seen \<and>
    (\<lambda>g. vg_grant_id (bg_grant g)) ` set gs \<inter> set seen = {} \<and>
    list_all (\<lambda>g. vg_secret_id (bg_grant g) = sid) gs"
  using assms
proof (induction gs arbitrary: seen)
  case (Cons g gs)
  then obtain s1 where s1: "verify_base_grant X ctx sid seen g = Inr s1" "rfold (verify_base_grant X ctx sid) s1 gs = Inr seen'"
    by (auto simp: rbind_eq_Inr)
  have "set s1 = insert (vg_grant_id (bg_grant g)) (set seen)" "vg_grant_id (bg_grant g) \<notin> set seen"
    "vg_secret_id (bg_grant g) = sid"
    using s1(1) by (auto simp: verify_base_grant_def rbind_eq_Inr)
  with Cons.IH[OF s1(2)] show ?case by auto
qed simp

abbreviation base_grant_ids :: "vault_base_deposit list \<Rightarrow> string list" where
  "base_grant_ids ds \<equiv> concat (map (\<lambda>e. map (\<lambda>g. vg_grant_id (bg_grant g)) (bd_grants e)) ds)"

lemma base_entries_Inr:
  assumes "rfold (verify_base_entry X rid ctx) (slots, seen) ds = Inr st"
  shows "distinct (map deposit_slot ds) \<and> set (map deposit_slot ds) \<inter> set slots = {} \<and>
    distinct (base_grant_ids ds) \<and> set (base_grant_ids ds) \<inter> set seen = {} \<and>
    list_all (\<lambda>e. verify_deposit_shape X (bd_deposit e) ctx = Inr ()) ds"
  using assms
proof (induction ds arbitrary: slots seen)
  case (Cons e ds)
  then obtain s1 where s1: "verify_base_entry X rid ctx (slots, seen) e = Inr s1"
    "rfold (verify_base_entry X rid ctx) s1 ds = Inr st"
    by (auto simp: rbind_eq_Inr)
  from s1(1) obtain sid seen1 where e: "deposit_slot e \<notin> set slots" "verify_deposit_shape X (bd_deposit e) ctx = Inr ()"
    "rfold (verify_base_grant X ctx sid) seen (bd_grants e) = Inr seen1" "s1 = (bset_insert (deposit_slot e) slots, seen1)"
    by (auto simp: verify_base_entry_def rbind_eq_Inr Let_def)
  note g = base_grants_Inr[OF e(3)] and ih = Cons.IH[OF s1(2)[unfolded e(4)]]
  have "set (base_grant_ids ds) \<inter> set seen1 = {}" using ih by blast
  then have "(\<lambda>g. vg_grant_id (bg_grant g)) ` set (bd_grants e) \<inter> set (base_grant_ids ds) = {}"
    "set (base_grant_ids ds) \<inter> set seen = {}" using g by blast+
  then have "distinct (base_grant_ids (e # ds))" "set (base_grant_ids (e # ds)) \<inter> set seen = {}"
    using g ih by (simp_all add: Int_Un_distrib2 del: set_concat)
  moreover have "distinct (map deposit_slot (e # ds))" "set (map deposit_slot (e # ds)) \<inter> set slots = {}"
    using e(1) ih by auto
  ultimately show ?case using e(2) ih by simp
qed simp

text \<open>A folded vault base that passes re-verification holds at most one current deposit per
  depositor and name and no grant twice, and every deposit in it has the shape the chain
  demands of a fresh one.\<close>
theorem accepted_base_has_unique_slots:
  assumes "verify_base X base rid ctx = Inr ()"
  shows "distinct (map deposit_slot (vb_deposits base)) \<and> distinct (base_grant_ids (vb_deposits base)) \<and>
    list_all (\<lambda>e. verify_deposit_shape X (bd_deposit e) ctx = Inr ()) (vb_deposits base)"
  using assms base_entries_Inr[of X rid ctx "[]" "[]" "vb_deposits base"]
  by (auto simp: verify_base_def rbind_eq_Inr)

section \<open>A concrete vault\<close>

definition demo_deposit :: vault_deposit where
  "demo_deposit = \<lparr>vd_depositor = ''a'', vd_name = ''k'', vd_kind = ''t'', vd_replaces = [], vd_m = 2,
     vd_holders = [''b'', ''c'', ''d''], vd_commitments = [replicate 64 (CHR ''0''), replicate 64 (CHR ''0'')],
     vd_enc_share = [replicate 160 (CHR ''0''), replicate 160 (CHR ''0''), replicate 160 (CHR ''0'')],
     vd_payload = \<lparr>vp_hash = replicate 64 (CHR ''0''), vp_size = 50\<rparr>, vd_nonce = replicate 32 (CHR ''0''),
     vd_sig_depositor = replicate 128 (CHR ''c'')\<rparr>"

text \<open>The codec writes the tag of a record and the fields of a base, and reads the one deposit back.\<close>

definition demo_value :: "vault_op \<Rightarrow> json" where
  "demo_value op = JObject (case op of
     Deposit _ \<Rightarrow> [(''op'', JString ''deposit'')]
   | Grant _ \<Rightarrow> [(''op'', JString ''grant'')]
   | VaultBaseOp r \<Rightarrow> [(''hash'', JString (vp_hash r)), (''op'', JString ''vault_base''), (''size'', JNumber (PosInt (vp_size r)))])"

definition demo_vault_extern :: extern where
  "demo_vault_extern = demo_extern\<lparr>hex_decode := (\<lambda>s. Some (take (length s div 2) s)), vault_to_value := demo_value,
     vault_from_value := (\<lambda>j. if j = demo_value (Deposit demo_deposit) then Some (Deposit demo_deposit) else None)\<rparr>"

definition demo_key :: "char \<Rightarrow> string" where
  "demo_key c = c # replicate 63 (CHR ''0'')"

definition keyed_seat :: "char \<Rightarrow> member_identity" where
  "keyed_seat c = \<lparr>mi_member = [c], mi_identity_pk = replicate 64 (CHR ''c''), mi_nostr_pk = [], mi_vault_pk = demo_key c\<rparr>"

definition keyed_seats :: "member_identity list" where
  "keyed_seats = [keyed_seat (CHR ''a''), keyed_seat (CHR ''b''), keyed_seat (CHR ''c''), keyed_seat (CHR ''d'')]"

definition demo_ctx :: vault_ctx where
  "demo_ctx = \<lparr>vc_m = 2, vc_holders_in_genesis_order =
     map (\<lambda>i. (mi_member i, mi_identity_pk i, mi_vault_pk i)) keyed_seats\<rparr>"

lemma hex_chars [simp]:
  "is_lower_hex_char (CHR ''0'')" "is_lower_hex_char (CHR ''a'')" "is_lower_hex_char (CHR ''b'')"
  "is_lower_hex_char (CHR ''c'')" "is_lower_hex_char (CHR ''d'')"
  by (simp_all add: is_lower_hex_char_def is_digit_def)

lemma list_all_replicate [simp]: "list_all P (replicate n x) \<longleftrightarrow> n = 0 \<or> P x"
  by (induction n) auto

lemma hex_array_replicate:
  "0 < n \<Longrightarrow> is_lower_hex_char c \<Longrightarrow> hex_array demo_vault_extern n (replicate (n * 2) c) = Some (replicate n c)"
  by (simp add: hex_array_def is_hex_def demo_vault_extern_def)

lemma demo_vault_points [simp]: "is_point_bytes demo_vault_extern b" "hpke_accepts demo_vault_extern b"
  "vk_from_bytes demo_vault_extern b" "verify_strict demo_vault_extern pk msg sg = (sg = pk @ pk)"
  by (simp_all add: demo_vault_extern_def demo_extern_def)

lemma demo_trim [simp]: "trim ''t'' = ''t''" "trim ''k'' = ''k''"
  by (simp_all add: trim_def trim_end_def trim_start_def white_spaces_def drop_leading.simps leading_one_of_def starts_with_def)

lemma demo_deposit_shape: "verify_deposit_shape demo_vault_extern demo_deposit demo_ctx = Inr ()"
  using hex_array_replicate[of 32 "CHR ''0''"]
  by (simp add: verify_deposit_shape_def demo_deposit_def demo_ctx_def keyed_seats_def keyed_seat_def holders_of_def
      commitments_of_def is_hex_def share_ct_len_def payload_overhead_def vault_payload_max_def
      reject_if_def check_vault_name_def check_vault_kind_def check_label_def
      vault_kind_max_def vault_name_max_def chars_count_def)

lemma demo_deposit_bytes: "\<exists>msg. deposit_signing_bytes ''h'' demo_deposit = Some msg"
  by (simp add: deposit_signing_bytes_def demo_deposit_def layout_def put_bytes_def put_count_def cat.simps)

lemma demo_deposit_checked: "check_deposit demo_vault_extern ''h'' demo_deposit demo_ctx = Inr ()"
proof -
  obtain msg where msg: "deposit_signing_bytes ''h'' demo_deposit = Some msg" using demo_deposit_bytes by blast
  have "verify_deposit_sig demo_vault_extern demo_deposit ''h'' (replicate 64 (CHR ''c'')) = Inr ()"
    using msg hex_array_replicate[of 32 "CHR ''c''"] hex_array_replicate[of 64 "CHR ''c''"]
    by (simp add: verify_deposit_sig_def reject_if_def) (simp add: demo_deposit_def reject_if_def flip: replicate_add)
  then show ?thesis
    using demo_deposit_shape
    by (simp add: check_deposit_def refusing_def map_refusal_def seat_of_def demo_ctx_def keyed_seats_def keyed_seat_def demo_deposit_def)
qed

theorem admitted_deposit_is_well_dealt_witness:
  "vd_holders demo_deposit = filter (\<lambda>n. n \<noteq> ''a'') [''a'', ''b'', ''c'', ''d'']"
  using admitted_deposit_is_well_dealt[OF demo_deposit_checked]
  by (simp add: demo_ctx_def keyed_seats_def keyed_seat_def) (simp add: demo_deposit_def)

lemma demo_keys_canonical:
  assumes "is_lower_hex_char c"
  shows "canonical_vault_pk demo_vault_extern (demo_key c) = Inr (demo_key c)"
proof -
  have raw: "hex_array demo_vault_extern 32 (demo_key c) = Some (c # replicate 31 (CHR ''0''))"
    using assms by (simp add: hex_array_def is_hex_def demo_key_def demo_vault_extern_def take_Cons' )
  have "rev (c # replicate 31 (CHR ''0'')) < rev vault_p"
    by (simp add: vault_p_def numeral_eq_Suc)
  with raw show ?thesis by (simp add: canonical_vault_pk_def)
qed

lemma demo_roster_checked: "check_roster_keys demo_vault_extern 2 4 keyed_seats (Some [''vault'']) = Inr True"
  by (simp add: check_roster_keys_def keyed_seats_def keyed_seat_def check_seat_key_def demo_keys_canonical has_vault_def
      bounds_ok_def) (simp add: demo_key_def)

theorem keyed_roster_is_sound_witness: "distinct (map mi_vault_pk keyed_seats)"
  using keyed_roster_is_sound[OF demo_roster_checked] by simp

theorem accepted_base_has_unique_slots_witness:
  "\<exists>base. vb_deposits base \<noteq> [] \<and> verify_base demo_vault_extern base ''h'' demo_ctx = Inr () \<and>
     distinct (map deposit_slot (vb_deposits base))"
proof -
  define base where "base = \<lparr>vb_deposits = [\<lparr>bd_deposit = demo_deposit, bd_grants = []\<rparr>]\<rparr>"
  obtain pk where seat: "seat_of demo_ctx ''a'' = Some (''a'', replicate 64 (CHR ''c''), pk)"
    by (simp add: seat_of_def demo_ctx_def keyed_seats_def keyed_seat_def)
  have dep: "vd_depositor demo_deposit = ''a''" by (simp add: demo_deposit_def)
  have sid: "\<exists>sid. secret_id demo_vault_extern ''h'' demo_deposit = Some sid"
    by (simp add: secret_id_def secret_id_bytes_def demo_deposit_def layout_def put_bytes_def put_count_def cat.simps)
  have "verify_deposit_sig demo_vault_extern demo_deposit ''h'' (replicate 64 (CHR ''c'')) = Inr ()"
    using demo_deposit_checked demo_deposit_shape seat dep by (simp add: check_deposit_def refusing_def)
  then have "verify_base demo_vault_extern base ''h'' demo_ctx = Inr ()"
    using sid demo_deposit_shape seat dep
    by (auto simp: verify_base_def base_def verify_base_entry_def refusing_def reject_if_def)
  with accepted_base_has_unique_slots[OF this] show ?thesis by (auto simp: base_def intro!: exI[of _ base])
qed

end
