(* ===== verification/Chain_Layouts.thy ===== *)
theory Chain_Layouts
  imports Chain_Types
begin

text \<open>
  What the byte layouts of the chain promise: equal signed bytes mean the same statement.
  The layouts are shown to be codes of the tuples of their fields; the injectivity of the
  codes is the library's.
\<close>

section \<open>Codes of the composed fields\<close>

lemma prefix_code_nostr_pk_field [codec_intros]: "prefix_code nostr_pk_field"
proof (rule prefix_code_via[OF prefix_code_opt[OF enc_bytes.prefix_code_axioms]])
  show "enc_opt put_bytes (if a = [] then None else Some a) = Some x"
    if "nostr_pk_field a = Some x" for a x
    using that by (auto simp: nostr_pk_field_def enc_opt_def split: if_splits)
qed (auto split: if_splits)

text \<open>
  A roster row: four fields in a keyed table, three in an unkeyed one, where the vault key is
  empty by definition.
\<close>

definition row_code :: "bool \<Rightarrow> string \<times> string \<times> string \<times> string \<Rightarrow> bytes option" where
  "row_code keyed r =
     (if keyed then enc_pair put_bytes (enc_pair put_bytes (enc_pair put_bytes put_bytes)) r
      else (case r of (a, b, c, d) \<Rightarrow>
        if d = [] then enc_pair put_bytes (enc_pair put_bytes put_bytes) (a, b, c) else None))"

definition row_of :: "member_identity \<Rightarrow> string \<times> string \<times> string \<times> string" where
  "row_of m = (mi_member m, mi_identity_pk m, mi_nostr_pk m, mi_vault_pk m)"

lemma row_of_inj [simp]: "row_of a = row_of b \<longleftrightarrow> a = b"
  by (cases a; cases b) (simp add: row_of_def)

lemma map_row_of_inj [simp]: "map row_of xs = map row_of ys \<longleftrightarrow> xs = ys"
  by (rule inj_map_eq_map) (simp add: inj_def)

lemma prefix_code_row [codec_intros]: "prefix_code (row_code keyed)"
proof (cases keyed)
  case True
  have "prefix_code (enc_pair put_bytes (enc_pair put_bytes (enc_pair put_bytes put_bytes)))"
    by (intro codec_intros)
  moreover have "row_code keyed = enc_pair put_bytes (enc_pair put_bytes (enc_pair put_bytes put_bytes))"
    using True by (auto simp: row_code_def fun_eq_iff)
  ultimately show ?thesis by simp
next
  case False
  have code: "prefix_code (enc_pair put_bytes (enc_pair put_bytes put_bytes))"
    by (intro codec_intros)
  show ?thesis
  proof
    fix p x q y r s
    assume "row_code keyed p = Some x" "row_code keyed q = Some y" "x @ r = y @ s"
    moreover obtain a b c d a' b' c' d' where pq: "p = (a, b, c, d)" "q = (a', b', c', d')"
      by (cases p; cases q) auto
    ultimately have "d = []" "d' = []"
      "enc_pair put_bytes (enc_pair put_bytes put_bytes) (a, b, c) = Some x"
      "enc_pair put_bytes (enc_pair put_bytes put_bytes) (a', b', c') = Some y" "x @ r = y @ s"
      using False by (auto simp: row_code_def split: if_splits)
    with prefix_code.prefix_inj[OF code this(3,4,5)] pq show "p = q \<and> r = s" by simp
  qed
qed

lemma member_fields_row:
  "keyed \<or> mi_vault_pk m = [] \<Longrightarrow> roster_member_fields keyed m = row_code keyed (row_of m)"
  by (auto simp: roster_member_fields_def row_code_def row_of_def enc_pair_def
      cat_nested[of _ _ "_ # _"])

lemma member_run_row:
  assumes "roster_keyed ms \<Longrightarrow> keyed"
  shows "map (roster_member_fields keyed) ms = map (row_code keyed) (map row_of ms)"
  using assms by (auto simp: roster_keyed_def list_ex_iff intro!: member_fields_row)

section \<open>The roster table\<close>

definition roster_code :: "bool \<Rightarrow> string \<times> u8 \<times> u8 \<times> (string \<times> string \<times> string \<times> string) list
    \<times> string \<times> string list \<Rightarrow> bytes option" where
  "roster_code keyed =
     enc_pair put_bytes (enc_pair (\<lambda>n. Some (u8_byte n)) (enc_pair (\<lambda>n. Some (u8_byte n))
       (enc_pair (enc_run put_count (row_code keyed))
         (enc_pair put_bytes (enc_run put_count put_bytes)))))"

lemma prefix_code_roster: "prefix_code (roster_code keyed)"
  unfolding roster_code_def by (intro codec_intros)

definition features_tail :: "bool \<Rightarrow> string list option \<Rightarrow> bytes option" where
  "features_tail keyed features =
     (case features of Some f \<Rightarrow> enc_run put_count put_bytes f
      | None \<Rightarrow> if keyed then enc_run put_count put_bytes [] else Some [])"

definition roster_tag :: "bool \<Rightarrow> string list option \<Rightarrow> string" where
  "roster_tag keyed features =
     (if keyed then ''molt-roster-v6'' else if features \<noteq> None then ''molt-roster-v5''
      else ''molt-roster-v4'')"

lemma roster_canonical_bytes_code:
  assumes "roster_canonical_bytes ws m n members agenda relays features = Some b"
  shows "\<exists>x t. roster_code (roster_keyed members) (ws, m, n, map row_of members, agenda, relays) = Some x
      \<and> features_tail (roster_keyed members) features = Some t
      \<and> b = tagged (roster_tag (roster_keyed members) features) @ x @ t"
  using assms
  by (fastforce simp: roster_canonical_bytes_def roster_code_def features_tail_def roster_tag_def Let_def
      member_run_row enc_pair_def enc_run_def cat_eq_Some split: option.splits if_splits)

lemma features_tail_inj:
  assumes "features_tail keyed f = Some t" "features_tail keyed g = Some t"
    "\<not> keyed \<Longrightarrow> (f = None) = (g = None)"
  shows "f = g \<or> (keyed \<and> f \<in> {None, Some []} \<and> g \<in> {None, Some []})"
proof -
  have code: "prefix_code (enc_run put_count put_bytes)" by (intro codec_intros)
  show ?thesis using assms prefix_code.enc_inj[OF code]
    by (cases f; cases g) (auto simp: features_tail_def split: if_splits)
qed

lemma roster_bytes_inj:
  assumes "roster_canonical_bytes ws m n ms agenda relays features = Some b"
    "roster_canonical_bytes ws' m' n' ms' agenda' relays' features' = Some b"
  shows "ws = ws' \<and> m = m' \<and> n = n' \<and> ms = ms' \<and> agenda = agenda' \<and> relays = relays' \<and>
    (features = features' \<or>
     (roster_keyed ms \<and> features \<in> {None, Some []} \<and> features' \<in> {None, Some []}))"
proof -
  let ?k = "roster_keyed ms" and ?k' = "roster_keyed ms'"
  obtain x t where x: "roster_code ?k (ws, m, n, map row_of ms, agenda, relays) = Some x"
    "features_tail ?k features = Some t" "b = tagged (roster_tag ?k features) @ x @ t"
    using roster_canonical_bytes_code[OF assms(1)] by blast
  obtain y u where y: "roster_code ?k' (ws', m', n', map row_of ms', agenda', relays') = Some y"
    "features_tail ?k' features' = Some u" "b = tagged (roster_tag ?k' features') @ y @ u"
    using roster_canonical_bytes_code[OF assms(2)] by blast
  have nul: "CHR 0x00 \<notin> set (roster_tag k f)" for k f
    by (simp add: roster_tag_def)
  have "roster_tag ?k features = roster_tag ?k' features'" and xy: "x @ t = y @ u"
    using tagged_append_inj[OF nul nul, of ?k features "x @ t" ?k' features' "y @ u"] x(3) y(3) by auto
  then have k: "?k = ?k'" and none: "\<not> ?k \<Longrightarrow> (features = None) = (features' = None)"
    by (auto simp: roster_tag_def split: if_splits)
  from prefix_code.prefix_inj[OF prefix_code_roster x(1) y(1)[folded k] xy]
  have "(ws, m, n, map row_of ms, agenda, relays) = (ws', m', n', map row_of ms', agenda', relays')"
    and "t = u" by blast+
  with features_tail_inj[OF x(2) y(2)[folded k, folded \<open>t = u\<close>] none] show ?thesis by auto
qed

section \<open>What the members sign\<close>

definition same_signed :: "extern \<Rightarrow> chain_change \<Rightarrow> chain_change \<Rightarrow> bool" where
  "same_signed X c d =
     (case (c, d) of
        (Applied i sf p, Applied j sg q) \<Rightarrow> i = j \<and> sf = sg \<and> json_to_vec X p = json_to_vec X q
      | _ \<Rightarrow> c = d)"

lemma relays_consent_tail_inj:
  assumes
    "cat ((if rs = [] then [] else Some [CHR 0x01] # put_count64 (length rs) # map put_bytes rs)
          @ (case c of None \<Rightarrow> [] | Some v \<Rightarrow> [Some [CHR 0x02], put_bytes v])) = Some x"
    "cat ((if rs' = [] then [] else Some [CHR 0x01] # put_count64 (length rs') # map put_bytes rs')
          @ (case c' of None \<Rightarrow> [] | Some v \<Rightarrow> [Some [CHR 0x02], put_bytes v])) = Some x"
  shows "rs = rs' \<and> c = c'"
proof -
  have run: "prefix_code (enc_run put_count64 put_bytes)" by (intro codec_intros)
  let ?tail = "\<lambda>c. cat (case c of None \<Rightarrow> [] | Some v \<Rightarrow> [Some [CHR 0x02], put_bytes v])"
  have tail: "c = c'" if "?tail c = Some t" "?tail c' = Some t" for t
    using that enc_bytes.enc_inj by (cases c; cases c') (auto simp: cat_eq_Some)
  have tail_hd: "t = [] \<or> hd t = CHR 0x02" if "?tail d = Some t" for d t
    using that by (cases d) (auto simp: cat_eq_Some)
  obtain t t' where t: "?tail c = Some t" "?tail c' = Some t'"
    using assms by (auto simp: cat_append_Some)
  consider (none) "rs = []" "rs' = []" | (both) "rs \<noteq> []" "rs' \<noteq> []"
    | (one) "(rs = []) \<noteq> (rs' = [])" by blast
  then show ?thesis
  proof cases
    case none
    then show ?thesis using assms tail by simp
  next
    case both
    then obtain a b where "enc_run put_count64 put_bytes rs = Some a" "x = CHR 0x01 # a @ t"
      "enc_run put_count64 put_bytes rs' = Some b" "x = CHR 0x01 # b @ t'"
      using assms t by (fastforce simp: cat_eq_Some enc_run_def)
    then show ?thesis using prefix_code.prefix_inj[OF run, of rs a rs' b t t'] t tail by auto
  next
    case one
    then show ?thesis using assms t tail_hd[OF t(1)] tail_hd[OF t(2)]
      by (auto simp: cat_eq_Some)
  qed
qed

lemma change_body_inj:
  assumes "change_body X c = Some x" "change_body X d = Some x"
  shows "same_signed X c d"
proof -
  have applied: "prefix_code (enc_pair (\<lambda>n. Some (u64_le n)) (enc_pair put_bytes put_bytes))"
    and cut: "prefix_code (enc_pair (\<lambda>n. Some (u64_le n)) put_bytes)"
    and seat: "prefix_code (enc_pair put_bytes (enc_pair put_bytes (enc_opt put_bytes)))"
    by (intro codec_intros)+
  note inj = prefix_code.enc_inj[OF applied] prefix_code.enc_inj[OF cut]
  show ?thesis
  proof (cases c)
    case (Applied i sf p)
    with assms obtain a j sg q where d: "d = Applied j sg q"
      "enc_pair (\<lambda>n. Some (u64_le n)) (enc_pair put_bytes put_bytes)
         (i, surface_as_str sf, json_to_vec X p) = Some a"
      "enc_pair (\<lambda>n. Some (u64_le n)) (enc_pair put_bytes put_bytes)
         (j, surface_as_str sg, json_to_vec X q) = Some a"
      by (cases d) (auto simp: enc_pair_def cat_eq_Some)
    from inj(1)[OF d(2,3)] Applied d(1) show ?thesis by (simp add: same_signed_def)
  next
    case (Membership op mem ipk npk rs con)
    with assms(1) obtain a t where c: "x = CHR 0x02 # membership_op_byte op @ a @ t"
      "enc_pair put_bytes (enc_pair put_bytes (enc_opt put_bytes)) (mem, ipk, npk) = Some a"
      "cat ((if rs = [] then [] else Some [CHR 0x01] # put_count64 (length rs) # map put_bytes rs)
          @ (case con of None \<Rightarrow> [] | Some v \<Rightarrow> [Some [CHR 0x02], put_bytes v])) = Some t"
      by (auto simp: enc_pair_def cat_Cons_Some)
    from assms(2) Membership c(1) obtain op' mem' ipk' npk' rs' con' b u where
      d: "d = Membership op' mem' ipk' npk' rs' con'" "x = CHR 0x02 # membership_op_byte op' @ b @ u"
      "enc_pair put_bytes (enc_pair put_bytes (enc_opt put_bytes)) (mem', ipk', npk') = Some b"
      "cat ((if rs' = [] then [] else Some [CHR 0x01] # put_count64 (length rs') # map put_bytes rs')
          @ (case con' of None \<Rightarrow> [] | Some v \<Rightarrow> [Some [CHR 0x02], put_bytes v])) = Some u"
      by (cases d) (auto simp: enc_pair_def cat_Cons_Some split: if_splits)
    have op: "op = op'" and abtu: "a @ t = b @ u"
      using c(1) d(2) by (cases op; cases op'; simp)+
    from prefix_code.prefix_inj[OF seat c(2) d(3) abtu]
    have "mem = mem'" "ipk = ipk'" "npk = npk'" "t = u" by simp_all
    with relays_consent_tail_inj[OF c(3)] d(4) op d(1) Membership show ?thesis
      by (simp add: same_signed_def)
  next
    case (Checkpoint up h)
    with assms obtain a up' h' where d: "d = Checkpoint up' h'"
      "enc_pair (\<lambda>n. Some (u64_le n)) put_bytes (up, h) = Some a"
      "enc_pair (\<lambda>n. Some (u64_le n)) put_bytes (up', h') = Some a"
      by (cases d) (auto simp: enc_pair_def cat_eq_Some)
    from inj(2)[OF d(2,3)] Checkpoint d(1) show ?thesis by (simp add: same_signed_def)
  next
    case (CheckpointFolded up h)
    with assms obtain a up' h' where d: "d = CheckpointFolded up' h'"
      "enc_pair (\<lambda>n. Some (u64_le n)) put_bytes (up, h) = Some a"
      "enc_pair (\<lambda>n. Some (u64_le n)) put_bytes (up', h') = Some a"
      by (cases d) (auto simp: enc_pair_def cat_eq_Some)
    from inj(2)[OF d(2,3)] CheckpointFolded d(1) show ?thesis by (simp add: same_signed_def)
  next
    case (CheckpointVault up h w)
    with assms obtain a up' h' w' where d: "d = CheckpointVault up' h' w'" "w = w'"
      "enc_pair (\<lambda>n. Some (u64_le n)) put_bytes (up, h) = Some a"
      "enc_pair (\<lambda>n. Some (u64_le n)) put_bytes (up', h') = Some a"
      by (cases d) (auto simp: enc_pair_def cat_eq_Some split: if_splits)
    from inj(2)[OF d(3,4)] CheckpointVault d(1,2) show ?thesis by (simp add: same_signed_def)
  qed (use assms in simp)
qed

lemma approval_bytes_code:
  assumes "approval_bytes X rid h c = Some b" "\<not> is_Genesis c"
  shows "\<exists>x t. enc_pair put_bytes (\<lambda>n. Some (u64_le n)) (rid, h) = Some x \<and>
     change_body X c = Some t \<and> b = tagged ''molt-chain-change-v2'' @ x @ t"
  using assms by (cases c) (fastforce simp: approval_bytes_def enc_pair_def cat_Cons_Some)+

lemma approval_inj:
  assumes "approval_bytes X rid h c = Some b" "approval_bytes X rid' h' d = Some b"
    "\<not> is_Genesis c" "\<not> is_Genesis d"
  shows "rid = rid' \<and> h = h' \<and> same_signed X c d"
proof -
  let ?e = "enc_pair put_bytes (\<lambda>n. Some (u64_le n))"
  have code: "prefix_code ?e" by (intro codec_intros)
  obtain x t where x: "?e (rid, h) = Some x" "change_body X c = Some t"
    "b = tagged ''molt-chain-change-v2'' @ x @ t"
    using approval_bytes_code[OF assms(1,3)] by blast
  obtain y u where y: "?e (rid', h') = Some y" "change_body X d = Some u"
    "b = tagged ''molt-chain-change-v2'' @ y @ u"
    using approval_bytes_code[OF assms(2,4)] by blast
  from x(3) y(3) have "x @ t = y @ u" by simp
  from prefix_code.prefix_inj[OF code x(1) y(1) this] show ?thesis
    using change_body_inj x(2) y(2) by simp
qed

section \<open>Domain separation\<close>

lemma restore_consent_v1_tag:
  "restore_consent_bytes rid m pk npk = Some b \<Longrightarrow> \<exists>r. b = tagged ''molt-restore-consent-v1'' @ r"
  by (auto simp: restore_consent_bytes_def cat_Cons_Some)

lemma restore_consent_v2_tag:
  "restore_consent_bytes_v2 rid m pk npk rs h pa = Some b \<Longrightarrow>
   \<exists>r. b = tagged ''molt-restore-consent-v2'' @ r"
  by (auto simp: restore_consent_bytes_v2_def cat_Cons_Some)

lemma approval_bytes_tag:
  assumes "approval_bytes X rid h c = Some b"
  shows "\<exists>t r. t \<in> {''molt-chain-change-v2'', ''molt-roster-v4'', ''molt-roster-v5'', ''molt-roster-v6''}
     \<and> b = tagged t @ r \<and> (is_Genesis c \<longleftrightarrow> t \<noteq> ''molt-chain-change-v2'')"
proof (cases "is_Genesis c")
  case True
  then obtain nm ri m n ids ag rl ft where c: "c = Genesis nm ri m n ids ag rl ft"
    by (cases c) auto
  then have "roster_canonical_bytes ri m n ids ag rl ft = Some b"
    using assms by (simp add: approval_bytes_def)
  from roster_canonical_bytes_code[OF this] True show ?thesis
    by (auto simp: roster_tag_def split: if_splits)
next
  case False
  from approval_bytes_code[OF assms this] False show ?thesis by blast
qed

section \<open>Block links\<close>

lemma sigs_run_inj:
  assumes "cat (map (\<lambda>(m, sg). cat [put_bytes m, put_bytes sg]) xs) = Some z"
    "cat (map (\<lambda>(m, sg). cat [put_bytes m, put_bytes sg]) ys) = Some z"
  shows "xs = ys"
  using assms
proof (induction xs arbitrary: ys z)
  case Nil
  then show ?case by (cases ys) (auto simp: cat_Cons_Some dest: put_bytes_not_Nil)
next
  case (Cons p xs)
  let ?e = "enc_pair put_bytes put_bytes"
  have code: "prefix_code ?e" by (intro codec_intros)
  have e: "(\<lambda>(m, sg). cat [put_bytes m, put_bytes sg]) = ?e"
    by (auto simp: enc_pair_def)
  from Cons.prems obtain x1 x2 where x: "?e p = Some x1" "cat (map ?e xs) = Some x2" "z = x1 @ x2"
    by (auto simp: e cat_Cons_Some)
  from x have "z \<noteq> []" by (auto simp: enc_pair_def cat_Cons_Some dest: put_bytes_not_Nil)
  then obtain q ys' where ys: "ys = q # ys'" using Cons.prems(2) by (cases ys) auto
  from Cons.prems(2) obtain y1 y2 where y: "?e q = Some y1" "cat (map ?e ys') = Some y2" "z = y1 @ y2"
    by (auto simp: e ys cat_Cons_Some)
  from prefix_code.prefix_inj[OF code x(1) y(1), of x2 y2] x(3) y(3) have "p = q" "x2 = y2" by auto
  then show ?case using Cons.IH[of x2 ys'] x(2) y(2) ys by (simp add: e)
qed

lemma block_link_code:
  assumes "block_link_bytes X rid b = Some z"
  shows "\<exists>ap x t. approval_bytes X rid (blk_height b) (blk_change b) = Some ap \<and>
     enc_pair (\<lambda>n. Some (u64_le n)) (enc_pair put_bytes put_bytes) (blk_height b, blk_prev b, ap) = Some x \<and>
     cat (map (\<lambda>(m, sg). cat [put_bytes m, put_bytes sg])
       (sort (map (\<lambda>a. (at_member a, at_sig a)) (blk_sigs b)))) = Some t \<and>
     z = tagged ''molt-chain-block-v1'' @ x @ t"
  using assms
  by (auto simp: block_link_bytes_def enc_pair_def cat_Cons_Some bind_eq_Some_conv)

lemma block_link_inj:
  assumes "block_link_bytes X rid a = Some z" "block_link_bytes X rid b = Some z"
  shows "blk_height a = blk_height b \<and> blk_prev a = blk_prev b \<and>
    approval_bytes X rid (blk_height a) (blk_change a) = approval_bytes X rid (blk_height b) (blk_change b) \<and>
    sort (map (\<lambda>s. (at_member s, at_sig s)) (blk_sigs a))
      = sort (map (\<lambda>s. (at_member s, at_sig s)) (blk_sigs b))"
proof -
  let ?e = "enc_pair (\<lambda>n. Some (u64_le n)) (enc_pair put_bytes put_bytes)"
  have code: "prefix_code ?e" by (intro codec_intros)
  obtain ap x t where a: "approval_bytes X rid (blk_height a) (blk_change a) = Some ap"
     "?e (blk_height a, blk_prev a, ap) = Some x"
     "cat (map (\<lambda>(m, sg). cat [put_bytes m, put_bytes sg])
       (sort (map (\<lambda>s. (at_member s, at_sig s)) (blk_sigs a)))) = Some t"
     "z = tagged ''molt-chain-block-v1'' @ x @ t"
    using block_link_code[OF assms(1)] by blast
  obtain aq y u where b: "approval_bytes X rid (blk_height b) (blk_change b) = Some aq"
     "?e (blk_height b, blk_prev b, aq) = Some y"
     "cat (map (\<lambda>(m, sg). cat [put_bytes m, put_bytes sg])
       (sort (map (\<lambda>s. (at_member s, at_sig s)) (blk_sigs b)))) = Some u"
     "z = tagged ''molt-chain-block-v1'' @ y @ u"
    using block_link_code[OF assms(2)] by blast
  from a(4) b(4) have "x @ t = y @ u" by simp
  from prefix_code.prefix_inj[OF code a(2) b(2) this]
  have eq: "blk_height a = blk_height b" "blk_prev a = blk_prev b" "ap = aq" "t = u" by simp_all
  with sigs_run_inj[OF a(3)] b(3) a(1) b(1) show ?thesis by simp
qed

section \<open>Restore consents\<close>

lemma colon_not_digit: "list_all is_digit s \<Longrightarrow> CHR '':'' \<notin> set s"
  by (auto simp: list_all_iff is_digit_def)

lemma colon_not_hex: "is_lower_hex s \<Longrightarrow> CHR '':'' \<notin> set s"
  by (auto simp: is_lower_hex_def list_all_iff is_lower_hex_char_def is_digit_def)

lemma parse_rendered_consent:
  assumes "is_lower_hex (ca_prev_anchor a)" "is_lower_hex sg" "sg \<noteq> []"
  shows "parse_restore_consent (render_restore_consent_v2 a sg)
     = Some (ConsentV2 (ca_height a) (ca_prev_anchor a) sg)"
proof -
  let ?h = "show_nat (unat (ca_height a))"
  have "split_once (CHR '':'') (?h @ CHR '':'' # ca_prev_anchor a @ CHR '':'' # sg)
      = Some (?h, ca_prev_anchor a @ CHR '':'' # sg)"
    using colon_not_digit[OF show_nat_digits] by (simp add: split_once_Some)
  moreover have "split_once (CHR '':'') (ca_prev_anchor a @ CHR '':'' # sg) = Some (ca_prev_anchor a, sg)"
    using colon_not_hex[OF assms(1)] by (simp add: split_once_Some)
  moreover have "parse_u64 ?h = Some (unat (ca_height a))"
    by (rule parse_show_u64) (use unsigned_less[of "ca_height a", where ?'a = nat] in simp)
  moreover have "strip_prefix ''v2:'' (render_restore_consent_v2 a sg)
      = Some (?h @ CHR '':'' # ca_prev_anchor a @ CHR '':'' # sg)"
    by (simp add: render_restore_consent_v2_def strip_prefix_def)
  ultimately show ?thesis
    using assms by (simp add: parse_restore_consent_def)
qed

lemma parsed_consent_canonical:
  assumes "parse_restore_consent s = Some (ConsentV2 h prev sg)"
  shows "s = render_restore_consent_v2 \<lparr>ca_height = h, ca_prev_anchor = prev\<rparr> sg
     \<and> is_lower_hex prev \<and> is_lower_hex sg \<and> sg \<noteq> []"
proof -
  from assms obtain rest hs rest2 n where p: "strip_prefix ''v2:'' s = Some rest"
    "split_once (CHR '':'') rest = Some (hs, rest2)" "split_once (CHR '':'') rest2 = Some (prev, sg)"
    "parse_u64 hs = Some n" "show_nat n = hs" "is_lower_hex prev" "sg \<noteq> []" "is_lower_hex sg" "h = of_nat n"
    by (auto simp: parse_restore_consent_def split: option.splits if_splits)
  have "n < 2 ^ 64" using p(4) by (auto simp: parse_u64_def Let_def split: if_splits list.splits)
  then have "unat h = n" by (simp add: p(9) unat_of_nat)
  then show ?thesis
    using p by (auto simp: render_restore_consent_v2_def strip_prefix_Some split_once_Some)
qed

end
