(* ===== verification/Identity.thy ===== *)
theory Identity
  imports Chain_Layouts
begin

text \<open>
  The hashing and signature helpers of \<open>molt-storage/src/lib.rs\<close> the chain uses: the
  content-derived republic id, the content hash and the check of an identity signature.
\<close>

definition content_hash :: "extern \<Rightarrow> bytes \<Rightarrow> string" where
  "content_hash X b = hex_encode X (sha256 X b)"

definition republic_id_preimage :: "string \<Rightarrow> u8 \<Rightarrow> u8 \<Rightarrow> member_identity list \<Rightarrow> bytes option" where
  "republic_id_preimage name rule_m rule_n identities =
     (let pairs = sort (map (\<lambda>i. (mi_identity_pk i, mi_nostr_pk i)) identities) in
      cat ([Some (tagged ''molt-republic-id-v2''), put_bytes name, Some (u8_byte rule_m),
            Some (u8_byte rule_n), put_count (length pairs)]
           @ map (\<lambda>(pk, npk). cat [put_bytes pk, put_bytes npk]) pairs))"

definition republic_id :: "extern \<Rightarrow> string \<Rightarrow> u8 \<Rightarrow> u8 \<Rightarrow> member_identity list \<Rightarrow> string option" where
  "republic_id X name rule_m rule_n identities =
     map_option (content_hash X) (republic_id_preimage name rule_m rule_n identities)"

definition identity_verify :: "extern \<Rightarrow> string \<Rightarrow> bytes \<Rightarrow> string \<Rightarrow> bool" where
  "identity_verify X pk_hex msg sig_hex =
     (case hex_decode X pk_hex of
        None \<Rightarrow> False
      | Some pk \<Rightarrow>
          if length pk \<noteq> 32 then False
          else if \<not> vk_from_bytes X pk then False
          else (case hex_decode X sig_hex of
                  None \<Rightarrow> False
                | Some sg \<Rightarrow> if length sg \<noteq> 64 then False else verify_strict X pk msg sg))"

text \<open>The preimage binds the name, the rule and the multiset of key pairs.\<close>

lemma republic_id_preimage_inj:
  assumes "republic_id_preimage nm m n ids = Some b" "republic_id_preimage nm' m' n' ids' = Some b"
  shows "nm = nm' \<and> m = m' \<and> n = n' \<and>
    sort (map (\<lambda>i. (mi_identity_pk i, mi_nostr_pk i)) ids) =
    sort (map (\<lambda>i. (mi_identity_pk i, mi_nostr_pk i)) ids')"
proof -
  let ?pairs = "\<lambda>ids. sort (map (\<lambda>i. (mi_identity_pk i, mi_nostr_pk i)) ids)"
  let ?e = "enc_pair put_bytes (enc_pair (\<lambda>n. Some (u8_byte n)) (enc_pair (\<lambda>n. Some (u8_byte n))
     (enc_run put_count (enc_pair put_bytes put_bytes))))"
  have code: "prefix_code ?e" by (intro codec_intros)
  have "\<exists>x. ?e (nm, m, n, ?pairs ids) = Some x \<and> b = tagged ''molt-republic-id-v2'' @ x"
    if "republic_id_preimage nm m n ids = Some b" for nm m n ids
    using that by (auto simp: republic_id_preimage_def Let_def enc_pair_apply enc_pair_eta enc_run_def cat_Cons_Some)
  from this[OF assms(1)] this[OF assms(2)] prefix_code.enc_inj[OF code] show ?thesis by blast
qed

end
