(* ===== verification/Cut_Fold.thy ===== *)
theory Cut_Fold
  imports Identity Wiki_Laws Vault_Laws Vault_Checks
begin

text \<open>
  The folded cuts of the chain: which groups a cut folds (\<open>molt-engine/src/chain/mod.rs\<close>),
  the wiki group as one commitment (\<open>wiki_base.rs\<close>), the vault group as one commitment
  (\<open>vault_base.rs\<close>) and the one function that turns a state into a cut and a hash.
\<close>

section \<open>Kinds of cuts\<close>

record held =
  held_wiki :: "wiki_tree option"
  held_vault :: "vault_base option"

definition held_default :: held where
  "held_default = \<lparr>held_wiki = None, held_vault = None\<rparr>"

record cut_kind =
  ck_wiki :: bool
  ck_vault :: bool

fun cut_kind_of :: "chain_change \<Rightarrow> (u64 \<times> string \<times> cut_kind) option" where
  "cut_kind_of (Checkpoint up state_hash) = Some (up, state_hash, \<lparr>ck_wiki = False, ck_vault = False\<rparr>)"
| "cut_kind_of (CheckpointFolded up state_hash) = Some (up, state_hash, \<lparr>ck_wiki = True, ck_vault = False\<rparr>)"
| "cut_kind_of (CheckpointVault up state_hash wiki_folded) =
     Some (up, state_hash, \<lparr>ck_wiki = wiki_folded, ck_vault = True\<rparr>)"
| "cut_kind_of _ = None"

definition cut_change :: "cut_kind \<Rightarrow> u64 \<Rightarrow> string \<Rightarrow> chain_change" where
  "cut_change k up state_hash =
     (if ck_vault k then CheckpointVault up state_hash (ck_wiki k)
      else if ck_wiki k then CheckpointFolded up state_hash
      else Checkpoint up state_hash)"

definition is_base_entry_op :: "json \<Rightarrow> bool" where
  "is_base_entry_op payload \<longleftrightarrow> get_str payload ''op'' \<in> {Some ''wiki_base'', Some ''vault_base''}"

section \<open>The wiki group\<close>

definition wiki_commitment :: "extern \<Rightarrow> wiki_tree \<Rightarrow> (string \<times> u64) option" where
  "wiki_commitment X tree =
     (case wiki_base_canonical_bytes tree of
        None \<Rightarrow> None
      | Some b \<Rightarrow> if length b < 2 ^ 64 then Some (content_hash X b, of_nat (length b)) else None)"

definition rev_at_cut_of :: "json \<Rightarrow> u64 option" where
  "rev_at_cut_of payload = get_u64 payload ''rev_at_cut''"

definition str_or_default :: "json \<Rightarrow> string \<Rightarrow> string" where
  "str_or_default payload k = (case get_str payload k of None \<Rightarrow> [] | Some s \<Rightarrow> s)"

definition u64_or_default :: "json \<Rightarrow> string \<Rightarrow> u64" where
  "u64_or_default payload k = (case get_u64 payload k of None \<Rightarrow> 0 | Some n \<Rightarrow> n)"

definition base_commitment_of :: "json \<Rightarrow> (string \<times> u64) option" where
  "base_commitment_of payload =
     (if get_str payload ''op'' = Some ''wiki_base''
      then Some (str_or_default payload ''hash'', u64_or_default payload ''size'') else None)"

text \<open>\<open>u64::saturating_add\<close>.\<close>

definition sat_inc :: "u64 \<Rightarrow> u64" where
  "sat_inc n = (if unat n = 2 ^ 64 - 1 then n else n + 1)"

record wiki_summary =
  ws_tree :: wiki_tree
  ws_kept :: "(u64 \<times> json) list"
  ws_seeded :: bool
  ws_rev :: u64

definition wiki_summary_empty :: wiki_summary where
  "wiki_summary_empty = \<lparr>ws_tree = [], ws_kept = [], ws_seeded = False, ws_rev = 0\<rparr>"

definition wiki_summarize_entry ::
  "extern \<Rightarrow> wiki_tree \<Rightarrow> wiki_summary \<Rightarrow> u64 \<times> json \<Rightarrow> string fault + wiki_summary" where
  "wiki_summarize_entry X base st e =
     (let payload = snd e in
      if get_str payload ''op'' = Some ''wiki_base'' then
        rbind (refuse_if (ws_seeded st) ''the memory group carries two base commitments'') (\<lambda>_.
        rbind (or_panic (wiki_commitment X base)) (\<lambda>(have, _).
        rbind (refuse_if (have \<noteq> str_or_default payload ''hash'')
                 (''the shared memory base this node holds ('' @ have @ '') is not the committed one (''
                  @ str_or_default payload ''hash'' @ '')'')) (\<lambda>_.
          Inr (st\<lparr>ws_tree := base,
                  ws_rev := (case rev_at_cut_of payload of None \<Rightarrow> 0 | Some r \<Rightarrow> r),
                  ws_seeded := True\<rparr>))))
      else if get_str payload ''op'' = Some ''wiki_patch'' then
        (case fold_one (ws_tree st) payload of
           (tree, applied) \<Rightarrow>
             Inr (st\<lparr>ws_tree := tree, ws_rev := if applied then sat_inc (ws_rev st) else ws_rev st\<rparr>))
      else Inr (st\<lparr>ws_kept := ws_kept st @ [e]\<rparr>))"

definition wiki_base_entry :: "string \<Rightarrow> u64 \<Rightarrow> u64 \<Rightarrow> json" where
  "wiki_base_entry hash sz rv =
     JObject [(''hash'', JString hash), (''op'', JString ''wiki_base''),
              (''rev_at_cut'', JNumber (PosInt rv)), (''size'', JNumber (PosInt sz))]"

definition wiki_summarize ::
  "extern \<Rightarrow> (u64 \<times> json) list \<Rightarrow> wiki_tree \<Rightarrow> string fault + (u64 \<times> json) list \<times> wiki_tree \<times> u64" where
  "wiki_summarize X grp base =
     rbind (rfold (wiki_summarize_entry X base) wiki_summary_empty grp) (\<lambda>st.
     rbind (or_panic (wiki_commitment X (ws_tree st))) (\<lambda>(hash, sz).
       Inr ((0, wiki_base_entry hash sz (ws_rev st)) # ws_kept st, ws_tree st, ws_rev st)))"

text \<open>Replace the first group of a surface; \<open>iter_mut().find\<close> changes that one in place.\<close>

fun set_group :: "surface \<Rightarrow> (u64 \<times> json) list \<Rightarrow> (surface \<times> (u64 \<times> json) list) list
    \<Rightarrow> (surface \<times> (u64 \<times> json) list) list" where
  "set_group sf g [] = []"
| "set_group sf g ((s, l) # rest) = (if s = sf then (s, g) # rest else (s, l) # set_group sf g rest)"

definition wiki_summarize_state ::
  "extern \<Rightarrow> checkpoint_state \<Rightarrow> wiki_tree \<Rightarrow> string fault + checkpoint_state \<times> wiki_tree option" where
  "wiki_summarize_state X state base =
     (case map_of (cs_applied state) Memory of
        None \<Rightarrow> Inr (state, None)
      | Some grp \<Rightarrow>
          rbind (wiki_summarize X grp base) (\<lambda>(folded, tree, _).
            Inr (state\<lparr>cs_applied := set_group Memory folded (cs_applied state)\<rparr>, Some tree)))"

definition worth_folding :: "checkpoint_state \<Rightarrow> bool" where
  "worth_folding state =
     (case map_of (cs_applied state) Memory of
        None \<Rightarrow> False
      | Some g \<Rightarrow> list_ex (\<lambda>(_, p). get_str p ''op'' \<in> {Some ''wiki_patch'', Some ''wiki_base''}) g)"

section \<open>The vault group\<close>

definition vault_commitment :: "extern \<Rightarrow> vault_base \<Rightarrow> (string \<times> u64) option" where
  "vault_commitment X base =
     (case vault_base_canonical_bytes X base of
        None \<Rightarrow> None
      | Some b \<Rightarrow> if length b < 2 ^ 64 then Some (content_hash X b, of_nat (length b)) else None)"

definition vault_commitment_of :: "json \<Rightarrow> (string \<times> u64) option" where
  "vault_commitment_of payload =
     (if get_str payload ''op'' = Some ''vault_base''
      then Some (str_or_default payload ''hash'', u64_or_default payload ''size'') else None)"

type_synonym slots = "((string \<times> string), vault_base_deposit) btree"

definition seed_slots :: "slots \<Rightarrow> vault_base \<Rightarrow> slots" where
  "seed_slots sl base = fold (\<lambda>d. bt_insert (deposit_slot d) d) (vb_deposits base) sl"

definition fold_deposit :: "extern \<Rightarrow> string \<Rightarrow> vault_deposit \<Rightarrow> slots \<Rightarrow> string fault + slots" where
  "fold_deposit X rid dep sl =
     rbind (case bt_get sl (vd_depositor dep, vd_name dep) of
              None \<Rightarrow> Inr []
            | Some d \<Rightarrow> or_panic (secret_id X rid (bd_deposit d))) (\<lambda>current.
       if current = vd_replaces dep
       then Inr (bt_insert (vd_depositor dep, vd_name dep) \<lparr>bd_deposit = dep, bd_grants = []\<rparr> sl)
       else Inr sl)"

text \<open>\<open>values_mut().find\<close>: the first slot in key order whose version the grant names.\<close>

fun fold_grant :: "extern \<Rightarrow> string \<Rightarrow> u64 \<Rightarrow> vault_grant \<Rightarrow> slots \<Rightarrow> string fault + slots" where
  "fold_grant X rid i grant [] = Inr []"
| "fold_grant X rid i grant ((k, d) # rest) =
     rbind (or_panic (secret_id X rid (bd_deposit d))) (\<lambda>sid.
       if sid = vg_secret_id grant
       then Inr ((k, d\<lparr>bd_grants := bd_grants d @ [\<lparr>bg_proposal_id = i, bg_grant = grant\<rparr>]\<rparr>) # rest)
       else rbind (fold_grant X rid i grant rest) (\<lambda>rest'. Inr ((k, d) # rest')))"

definition vault_summarize_entry ::
  "extern \<Rightarrow> vault_base option \<Rightarrow> string \<Rightarrow> slots \<times> bool \<Rightarrow> u64 \<times> json \<Rightarrow> string fault + slots \<times> bool" where
  "vault_summarize_entry X hd_base rid st e =
     (case st of (sl, seeded) \<Rightarrow>
      case vault_commitment_of (snd e) of
        Some (want, _) \<Rightarrow>
          rbind (refuse_if seeded ''the vault group carries two base commitments'') (\<lambda>_.
          case hd_base of
            None \<Rightarrow> Inl (Refused (''the vault base this node holds is not the committed one ('' @ want @ '')''))
          | Some base \<Rightarrow>
              rbind (or_panic (vault_commitment X base)) (\<lambda>(have, _).
              rbind (refuse_if (have \<noteq> want)
                       (''the vault base this node holds is not the committed one ('' @ want @ '')'')) (\<lambda>_.
                Inr (seed_slots sl base, True))))
      | None \<Rightarrow>
          (case vault_from_value X (snd e) of
             Some (Deposit dep) \<Rightarrow> rbind (fold_deposit X rid dep sl) (\<lambda>sl'. Inr (sl', seeded))
           | Some (Grant g) \<Rightarrow> rbind (fold_grant X rid (fst e) g sl) (\<lambda>sl'. Inr (sl', seeded))
           | _ \<Rightarrow> Inl (Refused ''a vault entry outside the closed op set'')))"

definition vault_summarize ::
  "extern \<Rightarrow> (u64 \<times> json) list \<Rightarrow> vault_base option \<Rightarrow> string \<Rightarrow> string fault + (u64 \<times> json) list \<times> vault_base" where
  "vault_summarize X grp hd_base rid =
     rbind (rfold (vault_summarize_entry X hd_base rid) ([], False) grp) (\<lambda>(sl, _).
     let base = \<lparr>vb_deposits = map snd sl\<rparr> in
     rbind (or_panic (vault_commitment X base)) (\<lambda>(hash, sz).
       Inr ([(0, vault_to_value X (VaultBaseOp \<lparr>vp_hash = hash, vp_size = sz\<rparr>))], base)))"

definition vault_summarize_state ::
  "extern \<Rightarrow> checkpoint_state \<Rightarrow> vault_base option \<Rightarrow> string fault + checkpoint_state \<times> vault_base" where
  "vault_summarize_state X state hd_base =
     (case map_of (cs_applied state) Vault of
        None \<Rightarrow> Inl (Refused ''the state has no vault group'')
      | Some grp \<Rightarrow>
          rbind (vault_summarize X grp hd_base (cs_republic_id state)) (\<lambda>(folded, base).
            Inr (state\<lparr>cs_applied := set_group Vault folded (cs_applied state)\<rparr>, base)))"

section \<open>The cut\<close>

definition checkpoint_state_hash :: "extern \<Rightarrow> checkpoint_state \<Rightarrow> string option" where
  "checkpoint_state_hash X state = map_option (content_hash X) (checkpoint_canonical_bytes X state)"

record folded_cut =
  fc_tree :: "wiki_tree option"
  fc_vault :: "vault_base option"
  fc_hash :: string

definition fold_cut ::
  "extern \<Rightarrow> checkpoint_state \<Rightarrow> cut_kind \<Rightarrow> held \<Rightarrow> string fault + checkpoint_state \<times> folded_cut" where
  "fold_cut X state k h =
     rbind (if ck_wiki k
            then wiki_summarize_state X state (case held_wiki h of None \<Rightarrow> [] | Some t \<Rightarrow> t)
            else Inr (state, None)) (\<lambda>(state1, tree).
     rbind (if ck_vault k
            then rbind (vault_summarize_state X state1 (held_vault h)) (\<lambda>(s, b). Inr (s, Some b))
            else Inr (state1, None)) (\<lambda>(state2, vault).
     rbind (or_panic (checkpoint_state_hash X state2)) (\<lambda>hash.
       Inr (state2, \<lparr>fc_tree = tree, fc_vault = vault, fc_hash = hash\<rparr>))))"

end
