(* ===== verification/Chain_Verify.thy ===== *)
theory Chain_Verify
  imports Cut_Fold
begin

text \<open>
  The verifier of the commit-block chain (\<open>molt-engine/src/chain/verify.rs\<close>): the genesis
  and next-block checks, the walk with its single step function, the projection a checkpoint
  hashes, the verification of whole, suffix and served chains, and the detached verifier of a
  wiki export.

  Every refusal of the code is \<open>Inl (Refused message)\<close>; an abort (a length that does not fit
  its framing, a height that overflows) is \<open>Inl Panic\<close>. A \<open>BTreeSet\<close> is its ascending list.
\<close>

section \<open>Projections of a chain\<close>

definition anchor_of :: "chain_change \<Rightarrow> (string \<times> string) option" where
  "anchor_of c =
     (case c of
        Membership _ member _ (Some pk) _ _ \<Rightarrow> if pk \<noteq> [] then Some (member, pk) else None
      | _ \<Rightarrow> None)"

definition working_anchors :: "chain_block list \<Rightarrow> (string \<rightharpoonup> string)" where
  "working_anchors blocks =
     fold (\<lambda>b m. case anchor_of (blk_change b) of None \<Rightarrow> m | Some (k, v) \<Rightarrow> m(k \<mapsto> v)) blocks Map.empty"

definition relays_of :: "chain_change \<Rightarrow> (string \<times> string list) option" where
  "relays_of c =
     (case c of
        Membership _ member _ _ relays _ \<Rightarrow> if relays \<noteq> [] then Some (member, relays) else None
      | _ \<Rightarrow> None)"

definition declared_relays :: "chain_block list \<Rightarrow> (string \<rightharpoonup> string list)" where
  "declared_relays blocks =
     fold (\<lambda>b m. case relays_of (blk_change b) of None \<Rightarrow> m | Some (k, v) \<Rightarrow> m(k \<mapsto> v)) blocks Map.empty"

record chain_head =
  ch_height :: u64
  ch_hash :: string
  ch_republic_id :: string
  ch_rule_m :: u8
  ch_identities :: "member_identity list"

definition block_hash :: "extern \<Rightarrow> string \<Rightarrow> chain_block \<Rightarrow> string option" where
  "block_hash X rid block = map_option (content_hash X) (block_link_bytes X rid block)"

record chain_block_view =
  cbv_height :: u64
  cbv_kind :: string
  cbv_surface :: string
  cbv_payload :: json
  cbv_proposal_id :: u64
  cbv_signers :: "string list"
  cbv_ts :: u64

definition block_view_of :: "chain_block \<Rightarrow> chain_block_view" where
  "block_view_of block =
     (let (kind, sf, payload, pid) =
        (case blk_change block of
           Genesis name _ _ _ _ _ _ _ \<Rightarrow> (''genesis'', [], JString name, 0)
         | Applied proposal_id s p \<Rightarrow> (''applied'', surface_as_str s, p, proposal_id)
         | Membership op member _ _ _ _ \<Rightarrow>
             (''membership'', [],
              JString ((case op of Joined \<Rightarrow> ''joined'' | Restored \<Rightarrow> ''restored'') @ '' '' @ member), 0)
         | Checkpoint up _ \<Rightarrow> (''checkpoint'', [], JNumber (PosInt up), 0)
         | CheckpointFolded up _ \<Rightarrow> (''checkpoint'', [], JNumber (PosInt up), 0)
         | CheckpointVault up _ _ \<Rightarrow> (''checkpoint'', [], JNumber (PosInt up), 0))
      in \<lparr>cbv_height = blk_height block, cbv_kind = kind, cbv_surface = sf, cbv_payload = payload,
          cbv_proposal_id = pid, cbv_signers = map at_member (blk_sigs block), cbv_ts = 0\<rparr>)"

section \<open>Signers and the roster\<close>

definition member_of :: "member_identity list \<Rightarrow> string \<Rightarrow> member_identity option" where
  "member_of identities m = List.find (\<lambda>i. mi_member i = m) identities"

definition valid_signers ::
  "extern \<Rightarrow> member_identity list \<Rightarrow> bytes \<Rightarrow> roster_attestation list \<Rightarrow> string list" where
  "valid_signers X identities msg sigs =
     fold (\<lambda>att ok.
             case member_of identities (at_member att) of
               None \<Rightarrow> ok
             | Some i \<Rightarrow>
                 if identity_verify X (mi_identity_pk i) msg (at_sig att)
                 then bset_insert (at_member att) ok else ok) sigs []"

text \<open>The roster itself never changes; the checks decide whether the block stands.\<close>

definition apply_membership ::
  "member_identity list \<Rightarrow> membership_op \<Rightarrow> string \<Rightarrow> string \<Rightarrow> string fault + member_identity list" where
  "apply_membership identities op member identity_pk =
     (case op of
        Joined \<Rightarrow> Inl (Refused ''membership op `joined` is not supported: seats are fixed at founding'')
      | Restored \<Rightarrow>
          (case member_of identities member of
             None \<Rightarrow> Inl (Refused (''cannot restore unknown member '' @ member))
           | Some i \<Rightarrow>
               if mi_identity_pk i \<noteq> identity_pk
               then Inl (Refused (''a Restored block must keep '' @ member @ [CHR 0x27] @ ''s anchored identity key''))
               else Inr identities))"

definition verify_genesis :: "extern \<Rightarrow> chain_block \<Rightarrow> string fault + chain_head" where
  "verify_genesis X block =
     rbind (refuse_if (blk_height block \<noteq> 0) ''genesis is not at height 0'') (\<lambda>_.
     rbind (refuse_if (blk_prev block \<noteq> genesis_prev) ''genesis prev is not the zero root'') (\<lambda>_.
     case blk_change block of
       Genesis name rid rule_m rule_n identities agenda relays features \<Rightarrow>
         rbind (refuse_if (rule_m = 0 \<or> rule_m > rule_n) ''genesis threshold is out of range'') (\<lambda>_.
         rbind (refuse_if (unat rule_n \<noteq> length identities) ''genesis roster size does not match n'') (\<lambda>_.
         rbind (refusing id (check_roster_keys X rule_m rule_n identities features)) (\<lambda>_.
         rbind (or_panic (republic_id X name rule_m rule_n identities)) (\<lambda>r.
         rbind (refuse_if (r \<noteq> rid) ''genesis republic id does not match its content'') (\<lambda>_.
         rbind (or_panic (approval_bytes X rid 0 (blk_change block))) (\<lambda>msg.
         rbind (refuse_if (length (valid_signers X identities msg (blk_sigs block)) \<noteq> length identities)
                  ''genesis is not fully signed by every member'') (\<lambda>_.
         rbind (or_panic (block_hash X rid block)) (\<lambda>h.
           Inr \<lparr>ch_height = 0, ch_hash = h, ch_republic_id = rid, ch_rule_m = rule_m,
                 ch_identities = identities\<rparr>))))))))
     | _ \<Rightarrow> Inl (Refused ''block 0 is not a genesis'')))"

section \<open>Restore consents\<close>

datatype consent_kind = KindV1 | KindV2 string

definition verify_restore_consent ::
  "extern \<Rightarrow> string \<Rightarrow> string \<Rightarrow> u64 \<Rightarrow> string \<Rightarrow> string option \<Rightarrow> string list \<Rightarrow> string
   \<Rightarrow> string fault + consent_kind" where
  "verify_restore_consent X rid anchored height member nostr_pk relays consent =
     (let npk = (case nostr_pk of None \<Rightarrow> [] | Some p \<Rightarrow> p) in
      case parse_restore_consent consent of
        None \<Rightarrow> Inl (Refused ''consent is malformed'')
      | Some (ConsentV1 sg) \<Rightarrow>
          rbind (or_panic (restore_consent_bytes rid member anchored npk)) (\<lambda>msg.
            if identity_verify X anchored msg sg then Inr KindV1
            else Inl (Refused ''consent does not verify''))
      | Some (ConsentV2 anchor_height prev_anchor sg) \<Rightarrow>
          rbind (or_panic (restore_consent_bytes_v2 rid member anchored npk relays anchor_height prev_anchor)) (\<lambda>msg.
          rbind (refuse_if (\<not> identity_verify X anchored msg sg) ''consent does not verify'') (\<lambda>_.
          rbind (refuse_if (\<not> (height > anchor_height \<and> height - anchor_height \<le> restore_consent_window))
                   ''consent is stale'') (\<lambda>_.
            Inr (KindV2 prev_anchor)))))"

definition consent_spends :: "chain_change \<Rightarrow> (string \<Rightarrow> string) \<Rightarrow> string + unit" where
  "consent_spends change working =
     (case change of
        Membership _ member _ _ _ (Some consent) \<Rightarrow>
          (case parse_restore_consent consent of
             Some (ConsentV2 _ prev_anchor _) \<Rightarrow>
               if prev_anchor = working member then Inr () else Inl ''consent is spent''
           | _ \<Rightarrow> Inr ())
      | _ \<Rightarrow> Inr ())"

definition block_msg :: "u64 \<Rightarrow> string \<Rightarrow> string" where
  "block_msg h rest = ''block '' @ show_nat (unat h) @ rest"

definition block_signers ::
  "extern \<Rightarrow> string \<Rightarrow> member_identity list \<Rightarrow> chain_block \<Rightarrow> string fault + string list" where
  "block_signers X rid identities block =
     rbind (or_panic (approval_bytes X rid (blk_height block) (blk_change block))) (\<lambda>msg.
     let signers = valid_signers X identities msg (blk_sigs block) in
     case blk_change block of
       Membership op member _ nostr_pk relays (Some consent) \<Rightarrow>
         rbind (refuse_if (op \<noteq> Restored)
                  (block_msg (blk_height block) '' carries a consent on a non-restore membership change'')) (\<lambda>_.
         rbind (refuse_if (member \<in> set signers)
                  (block_msg (blk_height block) ('' counts '' @ member @ '' twice - consent plus a roster signature''))) (\<lambda>_.
         rbind (ok_or (Refused (block_msg (blk_height block) '' restores an unknown member''))
                  (map_option mi_identity_pk (member_of identities member))) (\<lambda>anchored.
         rbind (map_refusal (\<lambda>why. block_msg (blk_height block) ('': '' @ member @ [CHR 0x27] @ ''s '' @ why))
                  (verify_restore_consent X rid anchored (blk_height block) member nostr_pk relays consent)) (\<lambda>_.
           Inr (bset_insert member signers)))))
     | _ \<Rightarrow> Inr signers)"

definition walk_working_anchor :: "checkpoint_state \<Rightarrow> string \<Rightarrow> string" where
  "walk_working_anchor state member =
     (case binary_search_by (\<lambda>(m, _). cmp_of m member) (cs_anchors state) of
        Inr i \<Rightarrow> snd (cs_anchors state ! i)
      | Inl _ \<Rightarrow>
          (case member_of (cs_roster state) member of None \<Rightarrow> [] | Some i \<Rightarrow> mi_nostr_pk i))"

section \<open>The next block\<close>

definition check_change :: "chain_block \<Rightarrow> u64 list \<Rightarrow> string fault + u64 option" where
  "check_change block seen =
     (case blk_change block of
        Genesis _ _ _ _ _ _ _ _ \<Rightarrow> Inl (Refused ''a genesis cannot appear after height 0'')
      | Applied proposal_id _ _ \<Rightarrow>
          if proposal_id \<in> set seen
          then Inl (Refused (''proposal '' @ show_nat (unat proposal_id) @ '' is applied twice''))
          else Inr (Some proposal_id)
      | Membership _ _ _ _ _ _ \<Rightarrow> Inr None
      | c \<Rightarrow>
          (case cut_kind_of c of
             None \<Rightarrow> Inr None
           | Some (up, _, _) \<Rightarrow>
               if blk_height block = 0 \<or> up \<noteq> blk_height block - 1
               then Inl (Refused (''checkpoint upto '' @ show_nat (unat up) @ '' must be exactly its block height ''
                                  @ show_nat (unat (blk_height block)) @ '' minus one''))
               else Inr None))"

definition verify_next ::
  "extern \<Rightarrow> chain_head \<Rightarrow> chain_block \<Rightarrow> u64 list \<Rightarrow> string fault + chain_head \<times> u64 option" where
  "verify_next X hd0 block seen =
     rbind (reject_if (unat (ch_height hd0) = 2 ^ 64 - 1) Panic) (\<lambda>_.
     rbind (refuse_if (blk_height block \<noteq> ch_height hd0 + 1)
              (''block height '' @ show_nat (unat (blk_height block)) @ '' does not follow ''
                 @ show_nat (unat (ch_height hd0)))) (\<lambda>_.
     rbind (refuse_if (blk_prev block \<noteq> ch_hash hd0)
              (block_msg (blk_height block) '' does not link to its predecessor'')) (\<lambda>_.
     rbind (check_change block seen) (\<lambda>consumed.
     rbind (block_signers X (ch_republic_id hd0) (ch_identities hd0) block) (\<lambda>signers.
     rbind (refuse_if (length signers < unat (ch_rule_m hd0))
              (block_msg (blk_height block) ('' has '' @ show_nat (length signers) @ '' valid approvals, threshold is ''
                 @ show_nat (unat (ch_rule_m hd0))))) (\<lambda>_.
     rbind (case blk_change block of
              Membership op member identity_pk _ _ _ \<Rightarrow>
                apply_membership (ch_identities hd0) op member identity_pk
            | _ \<Rightarrow> Inr (ch_identities hd0)) (\<lambda>identities.
     rbind (or_panic (block_hash X (ch_republic_id hd0) block)) (\<lambda>h.
       Inr (\<lparr>ch_height = blk_height block, ch_hash = h, ch_republic_id = ch_republic_id hd0,
              ch_rule_m = ch_rule_m hd0, ch_identities = identities\<rparr>, consumed)))))))))"

section \<open>The projection\<close>

definition genesis_base ::
  "string \<Rightarrow> u8 \<Rightarrow> u8 \<Rightarrow> member_identity list \<Rightarrow> string \<Rightarrow> string \<Rightarrow> string list \<Rightarrow> string list option
   \<Rightarrow> checkpoint_state" where
  "genesis_base name rule_m rule_n identities agenda rid relays features =
     \<lparr>cs_founding_name = name, cs_rule_m = rule_m, cs_rule_n = rule_n,
      cs_founding_identities = identities, cs_agenda = agenda, cs_relays = relays,
      cs_founding_features = features, cs_republic_id = rid, cs_roster = identities,
      cs_applied = map (\<lambda>s. (s, [])) checkpoint_v7_surfaces, cs_consumed_ids = [],
      cs_anchors = [], cs_member_relays = [], cs_upto = 0\<rparr>"

definition surface_rank :: "surface \<Rightarrow> nat option" where
  "surface_rank s = position_of (\<lambda>x. x = s) surface_all"

text \<open>\<open>Option\<close>'s order: \<open>None\<close> below every \<open>Some\<close>.\<close>

definition rank_greater :: "nat option \<Rightarrow> nat option \<Rightarrow> bool" where
  "rank_greater a b = (case (a, b) of (Some x, Some y) \<Rightarrow> x > y | (Some _, None) \<Rightarrow> True | _ \<Rightarrow> False)"

definition ensure_group ::
  "surface \<Rightarrow> (surface \<times> (u64 \<times> json) list) list \<Rightarrow> (surface \<times> (u64 \<times> json) list) list" where
  "ensure_group sf gs =
     (if list_ex (\<lambda>(s, _). s = sf) gs then gs
      else (let at = (case position_of (\<lambda>(s, _). rank_greater (surface_rank s) (surface_rank sf)) gs of
                        None \<Rightarrow> length gs | Some i \<Rightarrow> i)
            in take at gs @ (sf, []) # drop at gs))"

definition push_applied :: "surface \<Rightarrow> u64 \<Rightarrow> json \<Rightarrow> (u64 \<times> json) list \<Rightarrow> (u64 \<times> json) list" where
  "push_applied sf i payload entries =
     (case applied_lww_slot sf payload of
        None \<Rightarrow> entries
      | Some sl \<Rightarrow> filter (\<lambda>(_, p). applied_lww_slot sf p \<noteq> Some sl) entries) @ [(i, payload)]"

fun upd_group :: "surface \<Rightarrow> ((u64 \<times> json) list \<Rightarrow> (u64 \<times> json) list)
    \<Rightarrow> (surface \<times> (u64 \<times> json) list) list \<Rightarrow> (surface \<times> (u64 \<times> json) list) list" where
  "upd_group sf f [] = []"
| "upd_group sf f ((s, l) # rest) = (if s = sf then (s, f l) # rest else (s, l) # upd_group sf f rest)"

definition chain_fold_one ::
  "extern \<Rightarrow> checkpoint_state \<Rightarrow> chain_block \<Rightarrow> vault_ctx option \<Rightarrow> string fault + checkpoint_state" where
  "chain_fold_one X state block vault =
     (case blk_change block of
        Applied proposal_id sf payload \<Rightarrow>
          rbind (case vault of
                   Some ctx \<Rightarrow>
                     if sf = Vault then
                       rbind (refuse_if (\<not> walk_enabled state ctx)
                                (block_msg (blk_height block) '': vault not enabled'')) (\<lambda>_.
                       rbind (map_refusal (\<lambda>e. block_msg (blk_height block) ('': vault '' @ e))
                                (check_vault_op X (cs_republic_id state) proposal_id payload ctx)) (\<lambda>_. Inr ()))
                     else Inr ()
                 | None \<Rightarrow> Inr ()) (\<lambda>_.
            Inr (state\<lparr>cs_applied := upd_group sf (push_applied sf proposal_id payload)
                                        (ensure_group sf (cs_applied state)),
                       cs_consumed_ids := cs_consumed_ids state @ [proposal_id]\<rparr>))
      | Membership op member identity_pk nostr_pk relays _ \<Rightarrow>
          rbind (apply_membership (cs_roster state) op member identity_pk) (\<lambda>roster.
            Inr (state\<lparr>cs_roster := roster,
                  cs_anchors := (case anchor_of (blk_change block) of
                                   None \<Rightarrow> cs_anchors state
                                 | Some (k, v) \<Rightarrow> upsert_sorted k v (cs_anchors state)),
                  cs_member_relays := (case relays_of (blk_change block) of
                                   None \<Rightarrow> cs_member_relays state
                                 | Some (k, v) \<Rightarrow> upsert_sorted k v (cs_member_relays state))\<rparr>))
      | _ \<Rightarrow> Inr state)"

definition at_cut :: "checkpoint_state \<Rightarrow> u64 \<Rightarrow> checkpoint_state" where
  "at_cut state up = state\<lparr>cs_upto := up, cs_consumed_ids := sort (cs_consumed_ids state)\<rparr>"

definition hash_walk_state ::
  "extern \<Rightarrow> checkpoint_state \<Rightarrow> u64 \<Rightarrow> cut_kind \<Rightarrow> held \<Rightarrow> string fault + string" where
  "hash_walk_state X state up kind h =
     rbind (fold_cut X (at_cut state up) kind h) (\<lambda>(_, c). Inr (fc_hash c))"

text \<open>The fold of further blocks stops at the first height above \<open>up\<close>.\<close>

definition fold_state ::
  "extern \<Rightarrow> checkpoint_state \<Rightarrow> chain_block list \<Rightarrow> u64 \<Rightarrow> string fault + checkpoint_state" where
  "fold_state X state blocks up =
     (let vault = ctx_from_founding (cs_rule_m state) (cs_founding_identities state) in
      rbind (rfold (\<lambda>s b. chain_fold_one X s b vault) state
               (takeWhile (\<lambda>b. \<not> blk_height b > up) blocks)) (\<lambda>s. Inr (at_cut s up)))"

definition checkpoint_state_of :: "extern \<Rightarrow> chain_block list \<Rightarrow> u64 \<Rightarrow> string fault + checkpoint_state" where
  "checkpoint_state_of X blocks up =
     (case blocks of
        [] \<Rightarrow> Inl (Refused ''chain does not start with a genesis'')
      | g # rest \<Rightarrow>
          (case blk_change g of
             Genesis name rid rule_m rule_n identities agenda relays features \<Rightarrow>
               fold_state X (genesis_base name rule_m rule_n identities agenda rid relays features) rest up
           | _ \<Rightarrow> Inl (Refused ''chain does not start with a genesis'')))"

section \<open>The walk\<close>

record chain_walk =
  w_head :: chain_head
  w_seen :: "u64 list"
  w_running :: checkpoint_state
  w_floor :: "u64 option"
  w_folded :: nat
  w_folded_cut :: bool
  w_vault :: "vault_ctx option"

definition check_cut_kind :: "chain_walk \<Rightarrow> u64 \<Rightarrow> cut_kind \<Rightarrow> string fault + unit" where
  "check_cut_kind w h kind =
     rbind (refuse_if ((w_vault w \<noteq> None) \<noteq> ck_vault kind)
              (block_msg h ('': '' @ (if ck_vault kind then ''a vault checkpoint outside a vault republic''
                                     else ''a legacy checkpoint in a vault republic'')))) (\<lambda>_.
       refuse_if (w_folded_cut w \<and> \<not> ck_wiki kind) (block_msg h '': a legacy checkpoint after a folded cut''))"

definition check_cut_content ::
  "extern \<Rightarrow> chain_walk \<Rightarrow> u64 \<Rightarrow> string \<Rightarrow> cut_kind \<Rightarrow> held \<Rightarrow> string fault + unit" where
  "check_cut_content X w up state_hash kind h =
     rbind (case w_floor w of
              None \<Rightarrow> Inr ()
            | Some floor \<Rightarrow> refuse_if (up < floor)
                (''checkpoint upto '' @ show_nat (unat up) @ '' lies below the blob coverage '' @ show_nat (unat floor))) (\<lambda>_.
     rbind (hash_walk_state X (w_running w) up kind h) (\<lambda>hash.
       refuse_if (hash \<noteq> state_hash)
         (''checkpoint at upto '' @ show_nat (unat up) @ '' does not match this chain'' @ [CHR 0x27]
          @ ''s own projection'')))"

definition step_checks ::
  "extern \<Rightarrow> chain_walk \<Rightarrow> chain_block \<Rightarrow> held \<Rightarrow> string fault + chain_head \<times> u64 option" where
  "step_checks X w block h =
     rbind (verify_next X (w_head w) block (w_seen w)) (\<lambda>(hd0, consumed).
     rbind (refusing (\<lambda>why. block_msg (blk_height block) ('': '' @ why))
              (consent_spends (blk_change block) (walk_working_anchor (w_running w)))) (\<lambda>_.
     rbind (case cut_kind_of (blk_change block) of
              None \<Rightarrow> Inr ()
            | Some (up, state_hash, kind) \<Rightarrow>
                rbind (check_cut_kind w (blk_height block) kind) (\<lambda>_.
                  check_cut_content X w up state_hash kind h)) (\<lambda>_.
       Inr (hd0, consumed))))"

text \<open>
  The step mutates the walk: it returns the walk as it stands afterwards together with the
  result, also on an error. \<open>folded_cut\<close> is written before the projection is folded.
\<close>

definition walk_step ::
  "extern \<Rightarrow> chain_walk \<Rightarrow> chain_block \<Rightarrow> held \<Rightarrow> chain_walk \<times> (string fault + unit)" where
  "walk_step X w block h =
     (case step_checks X w block h of
        Inl e \<Rightarrow> (w, Inl e)
      | Inr (hd0, consumed) \<Rightarrow>
          (let w1 = (case cut_kind_of (blk_change block) of
                       None \<Rightarrow> w
                     | Some (_, _, kind) \<Rightarrow> w\<lparr>w_folded_cut := w_folded_cut w \<or> ck_wiki kind\<rparr>) in
           case chain_fold_one X (w_running w1) block (w_vault w1) of
             Inl e \<Rightarrow> (w1, Inl e)
           | Inr running \<Rightarrow>
               (w1\<lparr>w_running := running,
                   w_seen := (case consumed of None \<Rightarrow> w_seen w1 | Some i \<Rightarrow> bset_insert i (w_seen w1)),
                   w_head := hd0, w_folded := w_folded w1 + 1\<rparr>, Inr ())))"

definition step :: "extern \<Rightarrow> held \<Rightarrow> chain_walk \<Rightarrow> chain_block \<Rightarrow> string fault + chain_walk" where
  "step X h w block =
     (case walk_step X w block h of (w', Inl e) \<Rightarrow> Inl e | (w', Inr _) \<Rightarrow> Inr w')"

definition describes :: "extern \<Rightarrow> chain_walk \<Rightarrow> chain_block list \<Rightarrow> checkpoint_state option \<Rightarrow> bool option" where
  "describes X w chain blob =
     (if w_folded w = length chain \<and> w_floor w = map_option cs_upto blob
      then (if chain = [] then Some False
            else map_option (\<lambda>h. h = ch_hash (w_head w)) (block_hash X (ch_republic_id (w_head w)) (last chain)))
      else Some False)"

definition genesis_walk :: "extern \<Rightarrow> chain_block \<Rightarrow> string fault + chain_walk" where
  "genesis_walk X genesis =
     rbind (verify_genesis X genesis) (\<lambda>hd0.
     case blk_change genesis of
       Genesis name rid rule_m rule_n identities agenda relays features \<Rightarrow>
         Inr \<lparr>w_head = hd0, w_seen = [],
              w_running = genesis_base name rule_m rule_n identities agenda rid relays features,
              w_floor = None, w_folded = 1, w_folded_cut = False,
              w_vault = ctx_from_founding rule_m identities\<rparr>
     | _ \<Rightarrow> Inl Panic)"

definition walk_chain :: "extern \<Rightarrow> chain_block list \<Rightarrow> string fault + chain_walk" where
  "walk_chain X blocks =
     (case blocks of
        [] \<Rightarrow> Inl (Refused ''empty chain'')
      | genesis # rest \<Rightarrow> rbind (genesis_walk X genesis) (\<lambda>w. rfold (step X held_default) w rest))"

definition verify_chain :: "extern \<Rightarrow> chain_block list \<Rightarrow> string fault + chain_head" where
  "verify_chain X blocks = rbind (walk_chain X blocks) (\<lambda>w. Inr (w_head w))"

section \<open>Suffix chains\<close>

definition check_anchor_founding ::
  "extern \<Rightarrow> checkpoint_state \<Rightarrow> string \<Rightarrow> cut_kind \<Rightarrow> string fault + unit" where
  "check_anchor_founding X blob expected kind =
     rbind (or_panic (republic_id X (cs_founding_name blob) (cs_rule_m blob) (cs_rule_n blob)
                        (cs_founding_identities blob))) (\<lambda>rid.
     rbind (refuse_if (rid \<noteq> expected \<or> rid \<noteq> cs_republic_id blob)
              ''checkpoint founding table does not recompute to the republic id'') (\<lambda>_.
     rbind (refuse_if (cs_rule_m blob = 0 \<or> cs_rule_m blob > cs_rule_n blob \<or> cs_roster blob = [])
              ''checkpoint roster/threshold out of range'') (\<lambda>_.
     rbind (refuse_if (unat (cs_rule_n blob) \<noteq> length (cs_founding_identities blob))
              ''checkpoint founding table size does not match n'') (\<lambda>_.
     let keyed = list_ex (\<lambda>i. mi_vault_pk i \<noteq> []) (cs_founding_identities blob) in
     rbind (refuse_if (keyed \<noteq> ck_vault kind)
              (if keyed then ''a legacy checkpoint cannot anchor a vault republic''
               else ''a vault checkpoint needs a vault republic'')) (\<lambda>_.
       if keyed
       then rbind (refusing id (check_roster_keys X (cs_rule_m blob) (cs_rule_n blob)
                     (cs_founding_identities blob) (cs_founding_features blob))) (\<lambda>_. Inr ())
       else Inr ())))))"

definition founded :: "member_identity list \<Rightarrow> member_identity \<Rightarrow> bool" where
  "founded founding e \<longleftrightarrow>
     list_ex (\<lambda>f. mi_member f = mi_member e \<and> mi_identity_pk f = mi_identity_pk e
                 \<and> mi_nostr_pk f = mi_nostr_pk e \<and> mi_vault_pk f = mi_vault_pk e) founding"

definition check_anchor_roster :: "checkpoint_state \<Rightarrow> string fault + unit" where
  "check_anchor_roster blob =
     rfold (\<lambda>_ e. refuse_if (\<not> founded (cs_founding_identities blob) e)
              (''checkpoint roster member '' @ mi_member e @ '' is not anchored in the founding table''))
       () (cs_roster blob)"

definition anchor_walk ::
  "extern \<Rightarrow> checkpoint_state \<Rightarrow> chain_block \<Rightarrow> string \<Rightarrow> string fault + chain_walk" where
  "anchor_walk X blob anchor expected =
     (case cut_kind_of (blk_change anchor) of
        None \<Rightarrow> Inl (Refused ''suffix chain does not start with a checkpoint'')
      | Some (up, state_hash, kind) \<Rightarrow>
          rbind (refuse_if (cs_upto blob \<noteq> up) ''checkpoint blob does not cover the anchored upto'') (\<lambda>_.
          rbind (or_panic (checkpoint_state_hash X blob)) (\<lambda>hash.
          rbind (refuse_if (hash \<noteq> state_hash) ''checkpoint blob does not match the signed state hash'') (\<lambda>_.
          rbind (refuse_if (blk_height anchor = 0 \<or> blk_height anchor - 1 \<noteq> up)
                   ''checkpoint upto must be exactly the anchor height minus one'') (\<lambda>_.
          rbind (check_anchor_founding X blob expected kind) (\<lambda>_.
          rbind (check_anchor_roster blob) (\<lambda>_.
          rbind (or_panic (approval_bytes X (cs_republic_id blob) (blk_height anchor) (blk_change anchor))) (\<lambda>msg.
          let signers = valid_signers X (cs_founding_identities blob) msg (blk_sigs anchor) in
          rbind (refuse_if (length signers < unat (cs_rule_m blob))
                   (''checkpoint anchor has '' @ show_nat (length signers) @ '' valid approvals, threshold is ''
                    @ show_nat (unat (cs_rule_m blob)))) (\<lambda>_.
          rbind (or_panic (block_hash X (cs_republic_id blob) anchor)) (\<lambda>h.
            Inr \<lparr>w_head = \<lparr>ch_height = blk_height anchor, ch_hash = h, ch_republic_id = cs_republic_id blob,
                            ch_rule_m = cs_rule_m blob, ch_identities = cs_roster blob\<rparr>,
                 w_seen = bset_of_list (cs_consumed_ids blob), w_running = blob,
                 w_floor = Some (cs_upto blob), w_folded = 1, w_folded_cut = ck_wiki kind,
                 w_vault = ctx_from_founding (cs_rule_m blob) (cs_founding_identities blob)\<rparr>))))))))))"

definition walk_suffix_chain ::
  "extern \<Rightarrow> checkpoint_state \<Rightarrow> chain_block list \<Rightarrow> string \<Rightarrow> held \<Rightarrow> string fault + chain_walk" where
  "walk_suffix_chain X blob blocks expected h =
     (case blocks of
        [] \<Rightarrow> Inl (Refused ''empty suffix chain'')
      | anchor # rest \<Rightarrow> rbind (anchor_walk X blob anchor expected) (\<lambda>w. rfold (step X h) w rest))"

definition verify_suffix_chain ::
  "extern \<Rightarrow> checkpoint_state \<Rightarrow> chain_block list \<Rightarrow> string \<Rightarrow> wiki_tree option \<Rightarrow> string fault + chain_head" where
  "verify_suffix_chain X blob blocks expected wiki =
     rbind (walk_suffix_chain X blob blocks expected \<lparr>held_wiki = wiki, held_vault = None\<rparr>)
       (\<lambda>w. Inr (w_head w))"

end
