(* ===== verification/Chain_Served.thy ===== *)
theory Chain_Served
  imports Chain_Verify
begin

text \<open>
  Chains that arrive from outside: the front door of recovery and restore
  (\<open>verify_served\<close>), the relay pool the served material ratifies, the constitution a
  workspace is materialized from (\<open>molt-engine/src/recovery.rs\<close>), and the wiki export with its
  detached verifier (\<open>molt-engine/src/wiki_export.rs\<close>, \<open>verify_wiki_export\<close>).
\<close>

section \<open>Relay pools\<close>

definition fold_pool_edit :: "string list \<Rightarrow> string \<Rightarrow> string list" where
  "fold_pool_edit pool v =
     (let parsed = split_whitespace v in
      if parsed = [] then pool
      else if pool \<noteq> [] \<and> \<not> list_ex (\<lambda>r. r \<in> set parsed) pool then pool
      else parsed)"

definition pool_step :: "string list \<Rightarrow> chain_block \<Rightarrow> string list" where
  "pool_step pool b =
     (case blk_change b of
        Applied _ _ payload \<Rightarrow>
          if get_str payload ''op'' = Some ''set_relays''
          then fold_pool_edit pool (case get_str payload ''value'' of None \<Rightarrow> [] | Some v \<Rightarrow> v)
          else pool
      | _ \<Rightarrow> pool)"

definition effective_relays_of_served :: "checkpoint_state option \<Rightarrow> chain_block list \<Rightarrow> string list" where
  "effective_relays_of_served checkpoint blocks =
     foldl pool_step
       (case checkpoint of
          Some blob \<Rightarrow> cs_relays blob
        | None \<Rightarrow> (case blocks of
                     [] \<Rightarrow> []
                   | b # _ \<Rightarrow> (case blk_change b of Genesis _ _ _ _ _ _ relays _ \<Rightarrow> relays | _ \<Rightarrow> [])))
       blocks"

section \<open>The constitution\<close>

record sealed_roster =
  sr_name :: string
  sr_republic_id :: string
  sr_rule_m :: u8
  sr_rule_n :: u8
  sr_roster :: "string list"
  sr_identities :: "member_identity list"
  sr_attestations :: "roster_attestation list"
  sr_relays :: "string list"
  sr_agenda :: string
  sr_features :: "string list option"
  sr_founded_ts :: u64

definition sealed_roster_from_genesis :: "chain_block \<Rightarrow> sealed_roster option" where
  "sealed_roster_from_genesis block =
     (case blk_change block of
        Genesis name rid rule_m rule_n identities agenda relays features \<Rightarrow>
          Some \<lparr>sr_name = name, sr_republic_id = rid, sr_rule_m = rule_m, sr_rule_n = rule_n,
                sr_roster = map mi_member identities, sr_identities = identities,
                sr_attestations = blk_sigs block, sr_relays = relays, sr_agenda = agenda,
                sr_features = features, sr_founded_ts = 0\<rparr>
      | _ \<Rightarrow> None)"

definition sealed_roster_from_blob :: "checkpoint_state \<Rightarrow> sealed_roster" where
  "sealed_roster_from_blob blob =
     \<lparr>sr_name = cs_founding_name blob, sr_republic_id = cs_republic_id blob,
      sr_rule_m = cs_rule_m blob, sr_rule_n = cs_rule_n blob,
      sr_roster = map mi_member (cs_roster blob), sr_identities = cs_roster blob,
      sr_attestations = [], sr_relays = cs_relays blob, sr_agenda = cs_agenda blob,
      sr_features = cs_founding_features blob, sr_founded_ts = 0\<rparr>"

datatype served_chain_wire =
    Pruned checkpoint_state "chain_block list"
  | Full "chain_block list"

definition verify_served ::
  "extern \<Rightarrow> checkpoint_state option \<Rightarrow> chain_block list \<Rightarrow> string option
   \<Rightarrow> string fault + chain_head \<times> sealed_roster" where
  "verify_served X checkpoint blocks expected_rid =
     (case checkpoint of
        None \<Rightarrow>
          rbind (verify_chain X blocks) (\<lambda>hd0.
          rbind (ok_or (Refused ''the chain does not root on a genesis constitution'')
                   (case blocks of [] \<Rightarrow> None | b # _ \<Rightarrow> sealed_roster_from_genesis b)) (\<lambda>sealed.
          rbind (case expected_rid of
                   None \<Rightarrow> Inr ()
                 | Some rid \<Rightarrow> refuse_if (ch_republic_id hd0 \<noteq> rid)
                     ''the chain does not match the expected republic'') (\<lambda>_.
            Inr (hd0, sealed))))
      | Some blob \<Rightarrow>
          rbind (verify_suffix_chain X blob blocks
                   (case expected_rid of Some r \<Rightarrow> r | None \<Rightarrow> cs_republic_id blob) None) (\<lambda>hd0.
            Inr (hd0, sealed_roster_from_blob blob)))"

section \<open>The wiki export\<close>

definition wiki_export_format :: string where
  "wiki_export_format = ''molt-wiki-export-v1''"

record wiki_export_bundle =
  we_format :: string
  we_genesis :: chain_block
  we_blocks :: "chain_block list"

definition is_wiki_patch :: "chain_change \<Rightarrow> bool" where
  "is_wiki_patch c =
     (case c of Applied _ sf payload \<Rightarrow> sf = Memory \<and> get_str payload ''op'' = Some ''wiki_patch''
      | _ \<Rightarrow> False)"

definition is_membership :: "chain_change \<Rightarrow> bool" where
  "is_membership c = (case c of Membership _ _ _ _ _ _ \<Rightarrow> True | _ \<Rightarrow> False)"

definition exported :: "chain_block \<Rightarrow> bool" where
  "exported b \<longleftrightarrow> is_membership (blk_change b) \<or> is_wiki_patch (blk_change b)"

definition bundle_from_chain :: "chain_block list \<Rightarrow> wiki_export_bundle option" where
  "bundle_from_chain chain =
     (case chain of
        [] \<Rightarrow> None
      | g # rest \<Rightarrow>
          if \<not> is_Genesis (blk_change g) then None
          else Some \<lparr>we_format = wiki_export_format, we_genesis = g, we_blocks = filter exported rest\<rparr>)"

record wiki_export_report =
  wr_republic_id :: string
  wr_name :: string
  wr_rule_m :: u8
  wr_rule_n :: u8
  wr_members :: "string list"
  wr_membership_blocks :: nat
  wr_patches :: nat
  wr_files :: nat

text \<open>The state of the one pass over the exported blocks.\<close>

record export_walk =
  ew_identities :: "member_identity list"
  ew_membership_blocks :: nat
  ew_anchors :: "(string, string) btree"
  ew_payloads :: "json list"
  ew_seen :: "u64 list"
  ew_last_height :: u64

definition export_anchor :: "export_walk \<Rightarrow> string \<Rightarrow> string" where
  "export_anchor st m =
     (case bt_get (ew_anchors st) m of
        Some pk \<Rightarrow> pk
      | None \<Rightarrow> (case member_of (ew_identities st) m of None \<Rightarrow> [] | Some i \<Rightarrow> mi_nostr_pk i))"

definition export_step :: "extern \<Rightarrow> chain_head \<Rightarrow> export_walk \<Rightarrow> chain_block \<Rightarrow> string fault + export_walk" where
  "export_step X hd0 st block =
     rbind (refuse_if (blk_height block \<le> ew_last_height st)
              (block_msg (blk_height block) '': heights must ascend'')) (\<lambda>_.
     rbind (refuse_if (\<not> exported block)
              (block_msg (blk_height block) '': only membership blocks and wiki patches are exported'')) (\<lambda>_.
     rbind (block_signers X (ch_republic_id hd0) (ew_identities st) block) (\<lambda>signers.
     rbind (refusing (\<lambda>why. block_msg (blk_height block) ('': '' @ why))
              (consent_spends (blk_change block) (export_anchor st))) (\<lambda>_.
     let anchors = (case anchor_of (blk_change block) of
                      None \<Rightarrow> ew_anchors st | Some (k, v) \<Rightarrow> bt_insert k v (ew_anchors st)) in
     rbind (refuse_if (length signers < unat (ch_rule_m hd0))
              (block_msg (blk_height block) ('': '' @ show_nat (length signers) @ '' valid approvals, threshold is ''
                 @ show_nat (unat (ch_rule_m hd0))))) (\<lambda>_.
     case blk_change block of
       Membership op member identity_pk _ _ _ \<Rightarrow>
         rbind (map_refusal (\<lambda>e. block_msg (blk_height block) ('': '' @ e))
                  (apply_membership (ew_identities st) op member identity_pk)) (\<lambda>ids.
           Inr (st\<lparr>ew_identities := ids, ew_membership_blocks := ew_membership_blocks st + 1,
                   ew_anchors := anchors, ew_last_height := blk_height block\<rparr>))
     | Applied proposal_id _ payload \<Rightarrow>
         if proposal_id \<in> set (ew_seen st)
         then Inl (Refused (block_msg (blk_height block)
                    ('': proposal '' @ show_nat (unat proposal_id) @ '' is applied twice'')))
         else Inr (st\<lparr>ew_seen := bset_insert proposal_id (ew_seen st), ew_anchors := anchors,
                      ew_payloads := ew_payloads st @ [payload], ew_last_height := blk_height block\<rparr>)
     | _ \<Rightarrow> Inl Panic)))))"

definition check_tree :: "wiki_tree \<Rightarrow> wiki_tree \<Rightarrow> string + unit" where
  "check_tree folded tree =
     rbind (rfold (\<lambda>_ (path, content).
              case bt_get tree path of
                None \<Rightarrow> Inl (''tree: '' @ path @ '' is missing from the export'')
              | Some shipped \<Rightarrow> reject_if (shipped \<noteq> content)
                  (''tree: '' @ path @ '' differs from the folded patches'')) () folded) (\<lambda>_.
     case List.find (\<lambda>p. \<not> bt_contains folded p) (bt_keys tree) of
       Some extra \<Rightarrow> Inl (''tree: '' @ extra @ '' is not in the folded patches'')
     | None \<Rightarrow> Inr ())"

text \<open>
  The argument \<open>parsed\<close> is what \<open>serde_json::from_str\<close> returns for the bundle's text.
\<close>

definition verify_wiki_export ::
  "extern \<Rightarrow> string + wiki_export_bundle \<Rightarrow> wiki_tree \<Rightarrow> string fault + wiki_export_report" where
  "verify_wiki_export X parsed tree =
     rbind (refusing (\<lambda>e. ''bundle: '' @ e) parsed) (\<lambda>bundle.
     rbind (refuse_if (we_format bundle \<noteq> wiki_export_format)
              (''bundle format '' @ we_format bundle @ '' is not '' @ wiki_export_format)) (\<lambda>_.
     rbind (map_refusal (\<lambda>e. ''genesis: '' @ e) (verify_genesis X (we_genesis bundle))) (\<lambda>hd0.
     case blk_change (we_genesis bundle) of
       Genesis name _ _ rule_n _ _ _ _ \<Rightarrow>
         rbind (rfold (export_step X hd0)
                  \<lparr>ew_identities = ch_identities hd0, ew_membership_blocks = 0, ew_anchors = [],
                   ew_payloads = [], ew_seen = [], ew_last_height = 0\<rparr> (we_blocks bundle)) (\<lambda>st.
         rbind (refusing id (check_tree (wiki_fold (ew_payloads st)) tree)) (\<lambda>_.
           Inr \<lparr>wr_republic_id = ch_republic_id hd0, wr_name = name, wr_rule_m = ch_rule_m hd0,
                wr_rule_n = rule_n, wr_members = map mi_member (ew_identities st),
                wr_membership_blocks = ew_membership_blocks st, wr_patches = length (ew_payloads st),
                wr_files = length tree\<rparr>))
     | _ \<Rightarrow> Inl (Refused ''genesis: block 0 is not a genesis''))))"

end
