(* ===== verification/Chain_Laws.thy ===== *)
theory Chain_Laws
  imports Chain_Served
begin

text \<open>
  What a verified chain guarantees. The lemmas follow the code: signers, one block, one step
  of the walk, the whole walk; the invariants of the walk are proved by induction over its
  blocks and used by every property.
\<close>

section \<open>Signers\<close>

definition signed_by ::
  "extern \<Rightarrow> member_identity list \<Rightarrow> bytes \<Rightarrow> roster_attestation list \<Rightarrow> string \<Rightarrow> bool" where
  "signed_by X identities msg sigs m \<longleftrightarrow>
     (\<exists>i att. member_of identities m = Some i \<and> att \<in> set sigs \<and> at_member att = m \<and>
        identity_verify X (mi_identity_pk i) msg (at_sig att))"

lemma valid_signers_fold:
  "set (fold (\<lambda>att ok. case member_of ids (at_member att) of None \<Rightarrow> ok
       | Some i \<Rightarrow> if identity_verify X (mi_identity_pk i) msg (at_sig att)
                   then bset_insert (at_member att) ok else ok) sigs acc)
     = set acc \<union> {m. signed_by X ids msg sigs m}"
proof (induction sigs arbitrary: acc)
  case Nil
  then show ?case by (simp add: signed_by_def)
next
  case (Cons att sigs)
  have "{m. signed_by X ids msg (att # sigs) m} =
     {m. signed_by X ids msg sigs m} \<union>
     (case member_of ids (at_member att) of None \<Rightarrow> {}
      | Some i \<Rightarrow> if identity_verify X (mi_identity_pk i) msg (at_sig att) then {at_member att} else {})"
    by (auto simp: signed_by_def split: option.splits)
  then show ?case using Cons.IH by (auto split: option.splits)
qed

lemma set_valid_signers: "set (valid_signers X ids msg sigs) = {m. signed_by X ids msg sigs m}"
  by (simp add: valid_signers_def valid_signers_fold)

lemma valid_signers_sorted: "sorted_wrt (<) (valid_signers X ids msg sigs)"
proof -
  have "sorted_wrt (<) acc \<Longrightarrow> sorted_wrt (<) (fold (\<lambda>att ok. case member_of ids (at_member att) of None \<Rightarrow> ok
       | Some i \<Rightarrow> if identity_verify X (mi_identity_pk i) msg (at_sig att)
                   then bset_insert (at_member att) ok else ok) sigs acc)" for acc
    by (induction sigs arbitrary: acc) (auto simp: sorted_bset_insert split: option.splits)
  then show ?thesis by (simp add: valid_signers_def)
qed

lemma length_valid_signers:
  "length (valid_signers X ids msg sigs) = card {m. signed_by X ids msg sigs m}"
  using valid_signers_sorted distinct_card set_valid_signers
  by (metis strict_sorted_iff)

lemma member_of_Some: "member_of ids m = Some i \<Longrightarrow> i \<in> set ids \<and> mi_member i = m"
  unfolding member_of_def by (drule find_eq_SomeD) simp

lemma member_of_ex: "i \<in> set ids \<Longrightarrow> \<exists>j. member_of ids (mi_member i) = Some j"
  unfolding member_of_def by (rule find_ex) simp_all

lemma signed_by_member: "signed_by X ids msg sigs m \<Longrightarrow> m \<in> mi_member ` set ids"
  by (metis image_eqI member_of_Some signed_by_def)

lemma full_signatures:
  assumes "length (valid_signers X ids msg sigs) = length ids"
  shows "distinct (map mi_member ids) \<and> (\<forall>i \<in> set ids. signed_by X ids msg sigs (mi_member i))"
proof -
  let ?S = "{m. signed_by X ids msg sigs m}"
  have sub: "?S \<subseteq> set (map mi_member ids)" using signed_by_member by auto
  have card: "card ?S = length ids" using assms by (simp add: length_valid_signers)
  have "card ?S \<le> card (set (map mi_member ids))" by (rule card_mono[OF _ sub]) simp
  moreover have "card (set (map mi_member ids)) \<le> length ids"
    using card_length[of "map mi_member ids"] by simp
  ultimately have eq: "card (set (map mi_member ids)) = length ids" using card by simp
  then have "distinct (map mi_member ids)" by (metis card_distinct length_map)
  moreover have "?S = set (map mi_member ids)"
    by (rule card_seteq[OF _ sub]) (use card eq in simp_all)
  ultimately show ?thesis by (auto simp: set_eq_iff)
qed

section \<open>One block\<close>

lemma apply_membership_Inr:
  "apply_membership ids op m pk = Inr ids' \<longleftrightarrow>
     op = Restored \<and> ids' = ids \<and> (\<exists>i. member_of ids m = Some i \<and> mi_identity_pk i = pk)"
  by (auto simp: apply_membership_def split: membership_op.splits option.splits if_splits)

text \<open>
  The voices behind a block: the members whose signature over its position-bound bytes
  verifies and, on a restore, the returning seat whose consent verifies.
\<close>

definition consenting :: "extern \<Rightarrow> string \<Rightarrow> member_identity list \<Rightarrow> chain_block \<Rightarrow> string \<Rightarrow> bool" where
  "consenting X rid ids block m \<longleftrightarrow>
     (\<exists>pk npk relays consent i k. blk_change block = Membership Restored m pk npk relays (Some consent) \<and>
        member_of ids m = Some i \<and>
        verify_restore_consent X rid (mi_identity_pk i) (blk_height block) m npk relays consent = Inr k)"

definition voices :: "extern \<Rightarrow> string \<Rightarrow> member_identity list \<Rightarrow> chain_block \<Rightarrow> string set" where
  "voices X rid ids block =
     {m. \<exists>msg. approval_bytes X rid (blk_height block) (blk_change block) = Some msg \<and>
               signed_by X ids msg (blk_sigs block) m}
     \<union> {m. consenting X rid ids block m}"

lemma block_signers_voices:
  assumes "block_signers X rid ids block = Inr signers"
  shows "set signers = voices X rid ids block \<and> length signers = card (voices X rid ids block)"
proof -
  from assms obtain msg where msg: "approval_bytes X rid (blk_height block) (blk_change block) = Some msg"
    by (auto simp: block_signers_def rbind_eq_Inr)
  let ?v = "valid_signers X ids msg (blk_sigs block)"
  have sorted: "sorted_wrt (<) ?v" by (rule valid_signers_sorted)
  have "set signers = voices X rid ids block \<and> sorted_wrt (<) signers"
  proof (cases "\<exists>op m pk npk relays c. blk_change block = Membership op m pk npk relays (Some c)")
    case True
    then obtain op m pk npk relays c where c: "blk_change block = Membership op m pk npk relays (Some c)" by blast
    with assms msg obtain i k where
      s: "op = Restored" "member_of ids m = Some i" "signers = bset_insert m ?v"
        "verify_restore_consent X rid (mi_identity_pk i) (blk_height block) m npk relays c = Inr k"
      by (auto simp: block_signers_def Let_def rbind_eq_Inr)
    then have "{m. consenting X rid ids block m} = {m}" using c by (auto simp: consenting_def)
    then show ?thesis
      using s(3) msg sorted by (auto simp: voices_def set_valid_signers sorted_bset_insert)
  next
    case False
    then have "signers = ?v"
      using assms msg by (auto simp: block_signers_def Let_def split: chain_change.splits option.splits)
    moreover have "{m. consenting X rid ids block m} = {}" using False by (auto simp: consenting_def)
    ultimately show ?thesis using msg sorted by (auto simp: voices_def set_valid_signers)
  qed
  then show ?thesis by (metis distinct_card strict_sorted_iff)
qed

lemma voices_members: "voices X rid ids block \<subseteq> mi_member ` set ids"
  by (auto simp: voices_def consenting_def dest: signed_by_member member_of_Some)

lemma verify_next_Inr:
  assumes "verify_next X hd0 block seen = Inr (hd1, consumed)"
  shows "unat (ch_height hd0) < 2 ^ 64 - 1 \<and> blk_height block = ch_height hd0 + 1 \<and>
    blk_prev block = ch_hash hd0 \<and> check_change block seen = Inr consumed \<and>
    unat (ch_rule_m hd0) \<le> card (voices X (ch_republic_id hd0) (ch_identities hd0) block) \<and>
    block_hash X (ch_republic_id hd0) block = Some (ch_hash hd1) \<and>
    ch_height hd1 = blk_height block \<and> ch_republic_id hd1 = ch_republic_id hd0 \<and>
    ch_rule_m hd1 = ch_rule_m hd0 \<and> ch_identities hd1 = ch_identities hd0"
proof -
  from assms obtain signers ids where s:
    "unat (ch_height hd0) \<noteq> 2 ^ 64 - 1" "blk_height block = ch_height hd0 + 1"
    "blk_prev block = ch_hash hd0" "check_change block seen = Inr consumed"
    "block_signers X (ch_republic_id hd0) (ch_identities hd0) block = Inr signers"
    "unat (ch_rule_m hd0) \<le> length signers"
    "(case blk_change block of Membership op member identity_pk _ _ _ \<Rightarrow>
        apply_membership (ch_identities hd0) op member identity_pk | _ \<Rightarrow> Inr (ch_identities hd0)) = Inr ids"
    "block_hash X (ch_republic_id hd0) block = Some (ch_hash hd1)"
    "ch_height hd1 = blk_height block" "ch_republic_id hd1 = ch_republic_id hd0"
    "ch_rule_m hd1 = ch_rule_m hd0" "ch_identities hd1 = ids"
    unfolding verify_next_def by (auto simp: rbind_eq_Inr not_less)
  have ids: "ids = ch_identities hd0"
    using s(7) by (auto simp: apply_membership_Inr split: chain_change.splits)
  have "unat (ch_height hd0) < 2 ^ 64 - 1"
    using s(1) unsigned_less[of "ch_height hd0", where ?'a = nat] by simp
  then show ?thesis using s(2-6,8-12) ids block_signers_voices[OF s(5)] by simp
qed

lemma check_change_consumed:
  "check_change block seen = Inr consumed \<Longrightarrow>
     consumed = (case blk_change block of Applied i _ _ \<Rightarrow> Some i | _ \<Rightarrow> None) \<and>
     (\<forall>i. consumed = Some i \<longrightarrow> i \<notin> set seen) \<and> \<not> is_Genesis (blk_change block) \<and>
     (\<forall>up h k. cut_kind_of (blk_change block) = Some (up, h, k) \<longrightarrow>
        blk_height block \<noteq> 0 \<and> up = blk_height block - 1)"
  by (auto simp: check_change_def split: chain_change.splits if_splits)

section \<open>One step\<close>

lemma step_checks_Inr:
  "step_checks X w block h = Inr (hd1, consumed) \<longleftrightarrow>
     verify_next X (w_head w) block (w_seen w) = Inr (hd1, consumed) \<and>
     consent_spends (blk_change block) (walk_working_anchor (w_running w)) = Inr () \<and>
     (\<forall>up sh kind. cut_kind_of (blk_change block) = Some (up, sh, kind) \<longrightarrow>
        check_cut_kind w (blk_height block) kind = Inr () \<and> check_cut_content X w up sh kind h = Inr ())"
  by (auto simp: step_checks_def rbind_eq_Inr split: option.splits)

definition after_step ::
  "chain_walk \<Rightarrow> chain_block \<Rightarrow> chain_head \<Rightarrow> u64 option \<Rightarrow> checkpoint_state \<Rightarrow> chain_walk" where
  "after_step w block hd1 consumed running =
     w\<lparr>w_head := hd1,
       w_seen := (case consumed of None \<Rightarrow> w_seen w | Some i \<Rightarrow> bset_insert i (w_seen w)),
       w_running := running, w_folded := w_folded w + 1,
       w_folded_cut := w_folded_cut w \<or> (case cut_kind_of (blk_change block) of None \<Rightarrow> False
          | Some (_, _, kind) \<Rightarrow> ck_wiki kind)\<rparr>"

lemma step_eq:
  "step X h w block =
     rbind (step_checks X w block h) (\<lambda>(hd1, consumed).
     rbind (chain_fold_one X (w_running w) block (w_vault w)) (\<lambda>running.
       Inr (after_step w block hd1 consumed running)))"
proof (cases "step_checks X w block h")
  case (Inr p)
  obtain hd1 consumed where p: "p = (hd1, consumed)" by (cases p)
  show ?thesis
    by (cases consumed; cases "cut_kind_of (blk_change block)";
        cases "chain_fold_one X (w_running w) block (w_vault w)")
      (auto simp: step_def walk_step_def Inr p Let_def after_step_def intro!: chain_walk.equality)
qed (simp add: step_def walk_step_def)

lemma step_Inr:
  "step X h w block = Inr w' \<longleftrightarrow>
     (\<exists>hd1 consumed running. step_checks X w block h = Inr (hd1, consumed) \<and>
        chain_fold_one X (w_running w) block (w_vault w) = Inr running \<and>
        w' = after_step w block hd1 consumed running)"
  by (auto simp: step_eq rbind_eq_Inr)

lemma chain_fold_one_neutral: "cut_kind_of (blk_change block) = Some c \<Longrightarrow> chain_fold_one X s block v = Inr s"
  by (cases "blk_change block") (auto simp: chain_fold_one_def)

section \<open>The walk as a transition system\<close>

text \<open>
  \<open>walks X bs w\<close>: the blocks \<open>bs\<close> lead from a sealed genesis to the walk \<open>w\<close>. Invariants
  are proved by rule induction; \<open>walk_chain_walks\<close> ties the relation to the verifier.
\<close>

inductive walks :: "extern \<Rightarrow> chain_block list \<Rightarrow> chain_walk \<Rightarrow> bool" for X where
  walks_genesis: "genesis_walk X g = Inr w \<Longrightarrow> walks X [g] w"
| walks_step: "walks X bs w \<Longrightarrow> step X held_default w b = Inr w' \<Longrightarrow> walks X (bs @ [b]) w'"

lemma walk_chain_snoc:
  "bs \<noteq> [] \<Longrightarrow> walk_chain X (bs @ [b]) = rbind (walk_chain X bs) (\<lambda>w. step X held_default w b)"
  by (cases bs) (simp_all add: walk_chain_def rfold_append rbind_assoc rbind_def split: sum.splits)

lemma walk_chain_walks: "walk_chain X bs = Inr w \<longleftrightarrow> walks X bs w"
proof
  show "walks X bs w" if "walk_chain X bs = Inr w"
    using that
  proof (induction bs arbitrary: w rule: rev_induct)
    case Nil
    then show ?case by (simp add: walk_chain_def)
  next
    case (snoc b bs)
    show ?case
    proof (cases "bs = []")
      case True
      then show ?thesis using snoc.prems by (auto simp: walk_chain_def rbind_eq_Inr intro: walks_genesis)
    next
      case False
      then show ?thesis using snoc by (auto simp: walk_chain_snoc rbind_eq_Inr intro: walks_step)
    qed
  qed
next
  show "walk_chain X bs = Inr w" if "walks X bs w"
    using that
  proof (induction rule: walks.induct)
    case (walks_genesis g w)
    then show ?case by (simp add: walk_chain_def)
  next
    case (walks_step bs w b w')
    then have "bs \<noteq> []" by (auto simp: walk_chain_def)
    then show ?case using walks_step by (simp add: walk_chain_snoc)
  qed
qed

lemma walks_not_Nil: "walks X bs w \<Longrightarrow> bs \<noteq> []"
  by (induction rule: walks.induct) auto

section \<open>The genesis\<close>

lemma verify_genesis_Inr:
  assumes "verify_genesis X g = Inr hd0"
  shows "\<exists>nm rid m n ids ag rl ft msg. blk_change g = Genesis nm rid m n ids ag rl ft \<and>
    blk_height g = 0 \<and> blk_prev g = genesis_prev \<and> m \<noteq> 0 \<and> m \<le> n \<and> unat n = length ids \<and>
    is_ok (check_roster_keys X m n ids ft) \<and> republic_id X nm m n ids = Some rid \<and>
    approval_bytes X rid 0 (blk_change g) = Some msg \<and>
    length (valid_signers X ids msg (blk_sigs g)) = length ids \<and>
    block_hash X rid g = Some (ch_hash hd0) \<and>
    ch_height hd0 = 0 \<and> ch_republic_id hd0 = rid \<and> ch_rule_m hd0 = m \<and> ch_identities hd0 = ids"
proof (cases "blk_change g")
  case (Genesis nm rid m n ids ag rl ft)
  with assms show ?thesis
    by (auto simp: verify_genesis_def rbind_eq_Inr is_ok_iff not_less)
qed (use assms in \<open>simp_all add: verify_genesis_def rbind_eq_Inr\<close>)

section \<open>Invariants of the walk\<close>

definition applied_id :: "chain_block \<Rightarrow> u64 option" where
  "applied_id b = (case blk_change b of Applied i _ _ \<Rightarrow> Some i | _ \<Rightarrow> None)"

definition applied_ids :: "chain_block list \<Rightarrow> u64 list" where
  "applied_ids bs = List.map_filter applied_id bs"

lemma applied_ids_snoc:
  "applied_ids (bs @ [b]) = applied_ids bs @ (case applied_id b of None \<Rightarrow> [] | Some i \<Rightarrow> [i])"
  by (simp add: applied_ids_def map_filter_def split: option.splits)

definition constitution_of :: "checkpoint_state \<Rightarrow> string \<times> u8 \<times> u8 \<times> member_identity list \<times> string
    \<times> string list \<times> string list option \<times> string" where
  "constitution_of s = (cs_founding_name s, cs_rule_m s, cs_rule_n s, cs_founding_identities s,
     cs_agenda s, cs_relays s, cs_founding_features s, cs_republic_id s)"

definition founding_inv :: "chain_walk \<Rightarrow> bool" where
  "founding_inv w \<longleftrightarrow>
     ch_republic_id (w_head w) = cs_republic_id (w_running w) \<and>
     ch_rule_m (w_head w) = cs_rule_m (w_running w) \<and>
     ch_identities (w_head w) = cs_founding_identities (w_running w) \<and>
     cs_roster (w_running w) = cs_founding_identities (w_running w) \<and>
     w_vault w = ctx_from_founding (cs_rule_m (w_running w)) (cs_founding_identities (w_running w))"

lemma chain_fold_one_fixed:
  assumes "chain_fold_one X s b v = Inr s'"
  shows "constitution_of s' = constitution_of s \<and> cs_roster s' = cs_roster s \<and> cs_upto s' = cs_upto s \<and>
    cs_consumed_ids s' = cs_consumed_ids s @ (case applied_id b of None \<Rightarrow> [] | Some i \<Rightarrow> [i])"
  using assms
  by (cases "blk_change b")
    (auto simp: chain_fold_one_def constitution_of_def applied_id_def rbind_eq_Inr apply_membership_Inr)

lemma walks_hd: "walks X bs w \<Longrightarrow> \<exists>g rest w0. bs = g # rest \<and> genesis_walk X g = Inr w0 \<and>
    constitution_of (w_running w) = constitution_of (w_running w0)"
proof (induction rule: walks.induct)
  case (walks_genesis g w)
  then show ?case by blast
next
  case (walks_step bs w b w')
  from walks_step(2) have "constitution_of (w_running w') = constitution_of (w_running w)"
    by (auto simp: step_Inr after_step_def dest: chain_fold_one_fixed)
  with walks_step.IH show ?case by auto
qed

lemma genesis_walk_Inr:
  assumes "genesis_walk X g = Inr w"
  shows "\<exists>nm rid m n ids ag rl ft hd0. blk_change g = Genesis nm rid m n ids ag rl ft \<and>
    verify_genesis X g = Inr hd0 \<and>
    w = \<lparr>w_head = hd0, w_seen = [], w_running = genesis_base nm m n ids ag rid rl ft, w_floor = None,
         w_folded = 1, w_folded_cut = False, w_vault = ctx_from_founding m ids\<rparr>"
  using assms by (cases "blk_change g") (auto simp: genesis_walk_def rbind_eq_Inr)

lemma walks_founding_inv: "walks X bs w \<Longrightarrow> founding_inv w"
proof (induction rule: walks.induct)
  case (walks_genesis g w)
  from genesis_walk_Inr[OF this] obtain nm rid m n ids ag rl ft hd0 where
    g: "blk_change g = Genesis nm rid m n ids ag rl ft" "verify_genesis X g = Inr hd0"
      "w = \<lparr>w_head = hd0, w_seen = [], w_running = genesis_base nm m n ids ag rid rl ft, w_floor = None,
         w_folded = 1, w_folded_cut = False, w_vault = ctx_from_founding m ids\<rparr>" by blast
  from verify_genesis_Inr[OF g(2)] g(1,3) show ?case
    by (auto simp: founding_inv_def genesis_base_def)
next
  case (walks_step bs w b w')
  from walks_step(2) obtain hd1 c r where s: "step_checks X w b held_default = Inr (hd1, c)"
    "chain_fold_one X (w_running w) b (w_vault w) = Inr r" "w' = after_step w b hd1 c r"
    by (auto simp: step_Inr)
  from s(1) have "verify_next X (w_head w) b (w_seen w) = Inr (hd1, c)" by (simp add: step_checks_Inr)
  from verify_next_Inr[OF this] chain_fold_one_fixed[OF s(2)] walks_step.IH s(3) show ?case
    by (simp add: founding_inv_def after_step_def constitution_of_def)
qed

lemma step_facts:
  assumes "step X h w b = Inr w'"
  shows "verify_next X (w_head w) b (w_seen w) = Inr (w_head w', applied_id b)"
    and "consent_spends (blk_change b) (walk_working_anchor (w_running w)) = Inr ()"
    and "chain_fold_one X (w_running w) b (w_vault w) = Inr (w_running w')"
    and "w_seen w' = (case applied_id b of None \<Rightarrow> w_seen w | Some i \<Rightarrow> bset_insert i (w_seen w))"
    and "w_folded w' = w_folded w + 1" "w_vault w' = w_vault w" "w_floor w' = w_floor w"
    and "\<And>up sh kind. cut_kind_of (blk_change b) = Some (up, sh, kind) \<Longrightarrow>
        check_cut_kind w (blk_height b) kind = Inr () \<and> check_cut_content X w up sh kind h = Inr ()"
proof -
  obtain hd1 c r where s: "step_checks X w b h = Inr (hd1, c)"
    "chain_fold_one X (w_running w) b (w_vault w) = Inr r" "w' = after_step w b hd1 c r"
    using assms by (auto simp: step_Inr)
  from s(1) have v: "verify_next X (w_head w) b (w_seen w) = Inr (hd1, c)" by (simp add: step_checks_Inr)
  from verify_next_Inr[OF v] have c: "c = applied_id b"
    by (auto dest: check_change_consumed simp: applied_id_def)
  show "verify_next X (w_head w) b (w_seen w) = Inr (w_head w', applied_id b)"
    "chain_fold_one X (w_running w) b (w_vault w) = Inr (w_running w')"
    "w_seen w' = (case applied_id b of None \<Rightarrow> w_seen w | Some i \<Rightarrow> bset_insert i (w_seen w))"
    "w_folded w' = w_folded w + 1" "w_vault w' = w_vault w" "w_floor w' = w_floor w"
    using v c s(2,3) by (simp_all add: after_step_def)
  show "consent_spends (blk_change b) (walk_working_anchor (w_running w)) = Inr ()"
    using s(1) by (simp add: step_checks_Inr)
  show "check_cut_kind w (blk_height b) kind = Inr () \<and> check_cut_content X w up sh kind h = Inr ()"
    if "cut_kind_of (blk_change b) = Some (up, sh, kind)" for up sh kind
    using s(1) that by (simp add: step_checks_Inr)
qed

lemmas next_facts = verify_next_Inr[OF step_facts(1)]

lemma unat_Suc_u64: "unat (n :: u64) < 2 ^ 64 - 1 \<Longrightarrow> unat (n + 1) = unat n + 1"
  by (simp add: unat_word_ariths)

section \<open>Heights and links\<close>

definition linked :: "extern \<Rightarrow> string \<Rightarrow> chain_block list \<Rightarrow> bool" where
  "linked X rid bs \<longleftrightarrow>
     (\<forall>i < length bs. unat (blk_height (bs ! i)) = i) \<and>
     (\<forall>i. Suc i < length bs \<longrightarrow> block_hash X rid (bs ! i) = Some (blk_prev (bs ! Suc i)))"

definition position_inv :: "extern \<Rightarrow> chain_block list \<Rightarrow> chain_walk \<Rightarrow> bool" where
  "position_inv X bs w \<longleftrightarrow>
     linked X (ch_republic_id (w_head w)) bs \<and> unat (ch_height (w_head w)) + 1 = length bs \<and>
     block_hash X (ch_republic_id (w_head w)) (last bs) = Some (ch_hash (w_head w)) \<and>
     w_folded w = length bs \<and> w_floor w = None"

lemma linked_snoc:
  assumes "linked X rid bs" "bs \<noteq> []" "unat (blk_height b) = length bs"
    "block_hash X rid (last bs) = Some (blk_prev b)"
  shows "linked X rid (bs @ [b])"
  unfolding linked_def
proof (intro conjI allI impI)
  fix i assume "i < length (bs @ [b])"
  then show "unat (blk_height ((bs @ [b]) ! i)) = i"
    using assms(1,3) by (cases "i = length bs") (simp_all add: linked_def nth_append)
next
  fix i assume i: "Suc i < length (bs @ [b])"
  show "block_hash X rid ((bs @ [b]) ! i) = Some (blk_prev ((bs @ [b]) ! Suc i))"
  proof (cases "Suc i = length bs")
    case True
    then have "(bs @ [b]) ! i = last bs" using assms(2) by (simp add: nth_append last_conv_nth flip: True)
    then show ?thesis using assms(4) True by simp
  next
    case False
    then show ?thesis using i assms(1) by (simp add: linked_def nth_append)
  qed
qed

lemma walks_position: "walks X bs w \<Longrightarrow> position_inv X bs w"
proof (induction rule: walks.induct)
  case (walks_genesis g w)
  from genesis_walk_Inr[OF this] obtain nm rid m n ids ag rl ft hd0 where
    g: "blk_change g = Genesis nm rid m n ids ag rl ft" "verify_genesis X g = Inr hd0"
      "w = \<lparr>w_head = hd0, w_seen = [], w_running = genesis_base nm m n ids ag rid rl ft, w_floor = None,
         w_folded = 1, w_folded_cut = False, w_vault = ctx_from_founding m ids\<rparr>" by blast
  from verify_genesis_Inr[OF g(2)] g(1,3) show ?case by (auto simp: position_inv_def linked_def)
next
  case (walks_step bs w b w')
  note f = next_facts[OF walks_step(2)]
  have h: "unat (blk_height b) = length bs"
    using f walks_step.IH unat_Suc_u64[of "ch_height (w_head w)"] by (simp add: position_inv_def)
  have "linked X (ch_republic_id (w_head w)) (bs @ [b])"
    using walks_step.IH f h walks_not_Nil[OF walks_step(1)]
    by (intro linked_snoc) (simp_all add: position_inv_def)
  then show ?case
    using walks_step.IH f h step_facts(5,7)[OF walks_step(2)] by (simp add: position_inv_def)
qed

section \<open>Consumed proposals\<close>

definition consumed_inv :: "chain_block list \<Rightarrow> chain_walk \<Rightarrow> bool" where
  "consumed_inv bs w \<longleftrightarrow>
     distinct (applied_ids bs) \<and> set (w_seen w) = set (applied_ids bs) \<and> sorted_wrt (<) (w_seen w) \<and>
     cs_consumed_ids (w_running w) = applied_ids bs"

lemma walks_consumed: "walks X bs w \<Longrightarrow> consumed_inv bs w"
proof (induction rule: walks.induct)
  case (walks_genesis g w)
  from genesis_walk_Inr[OF this] show ?case
    by (auto simp: consumed_inv_def applied_ids_def map_filter_def applied_id_def genesis_base_def)
next
  case (walks_step bs w b w')
  have fresh: "i \<notin> set (applied_ids bs)" if "applied_id b = Some i" for i
    using next_facts[OF walks_step(2)] walks_step.IH check_change_consumed[of b "w_seen w" "applied_id b"] that
    by (simp add: consumed_inv_def)
  show ?case
    using walks_step.IH fresh step_facts(4)[OF walks_step(2)]
      chain_fold_one_fixed[OF step_facts(3)[OF walks_step(2)]]
    by (auto simp: consumed_inv_def applied_ids_snoc sorted_bset_insert split: option.splits)
qed

section \<open>Approvals\<close>

lemma walks_approved:
  "walks X bs w \<Longrightarrow> b \<in> set (tl bs) \<Longrightarrow>
     unat (ch_rule_m (w_head w)) \<le> card (voices X (ch_republic_id (w_head w)) (ch_identities (w_head w)) b)"
proof (induction arbitrary: b rule: walks.induct)
  case (walks_genesis g w)
  then show ?case by simp
next
  case (walks_step bs w c w')
  have "b = c \<or> b \<in> set (tl bs)"
    using walks_step.prems walks_not_Nil[OF walks_step(1)] by (cases bs) auto
  then show ?case using walks_step.IH[of b] next_facts[OF walks_step(2)] by auto
qed

lemma walks_genesis_head:
  assumes "walks X bs w"
  shows "\<exists>g rest hd0. bs = g # rest \<and> verify_genesis X g = Inr hd0 \<and>
     ch_republic_id (w_head w) = ch_republic_id hd0 \<and> ch_rule_m (w_head w) = ch_rule_m hd0 \<and>
     ch_identities (w_head w) = ch_identities hd0"
  using assms
proof (induction rule: walks.induct)
  case (walks_genesis g w)
  from genesis_walk_Inr[OF this] show ?case by auto
next
  case (walks_step bs w b w')
  then show ?case using next_facts[OF walks_step(2)] by auto
qed

section \<open>The projection\<close>

lemma walks_running:
  assumes "walks X bs w"
  shows "\<exists>g rest w0. bs = g # rest \<and> genesis_walk X g = Inr w0 \<and> w_vault w = w_vault w0 \<and>
     rfold (\<lambda>s b. chain_fold_one X s b (w_vault w0)) (w_running w0) rest = Inr (w_running w)"
  using assms
proof (induction rule: walks.induct)
  case (walks_genesis g w)
  then show ?case by auto
next
  case (walks_step bs w b w')
  then obtain g rest w0 where *: "bs = g # rest" "genesis_walk X g = Inr w0" "w_vault w = w_vault w0"
    "rfold (\<lambda>s b. chain_fold_one X s b (w_vault w0)) (w_running w0) rest = Inr (w_running w)" by blast
  have "rfold (\<lambda>s b. chain_fold_one X s b (w_vault w0)) (w_running w0) (rest @ [b]) = Inr (w_running w')"
    using *(3,4) step_facts(3)[OF walks_step(2)] by (simp add: rfold_append)
  then show ?case using * step_facts(6)[OF walks_step(2)] by auto
qed

definition anchors_inv :: "chain_block list \<Rightarrow> checkpoint_state \<Rightarrow> bool" where
  "anchors_inv bs s \<longleftrightarrow>
     bt_wf (cs_anchors s) \<and> bt_wf (cs_member_relays s) \<and>
     bt_get (cs_anchors s) = working_anchors bs \<and> bt_get (cs_member_relays s) = declared_relays bs"

lemma chain_fold_one_anchors:
  assumes "chain_fold_one X s b v = Inr s'"
  shows "cs_anchors s' = (case anchor_of (blk_change b) of None \<Rightarrow> cs_anchors s
           | Some (k, pk) \<Rightarrow> upsert_sorted k pk (cs_anchors s))"
    and "cs_member_relays s' = (case relays_of (blk_change b) of None \<Rightarrow> cs_member_relays s
           | Some (k, rs) \<Rightarrow> upsert_sorted k rs (cs_member_relays s))"
  using assms
  by (cases "blk_change b"; auto simp: chain_fold_one_def rbind_eq_Inr anchor_of_def relays_of_def)+

lemma anchors_step:
  assumes "chain_fold_one X s b v = Inr s'" "anchors_inv bs s"
  shows "anchors_inv (bs @ [b]) s'"
proof -
  note wf = assms(2)[unfolded anchors_inv_def]
  have "bt_get (cs_anchors s') = working_anchors (bs @ [b])" "bt_wf (cs_anchors s')"
    using wf chain_fold_one_anchors(1)[OF assms(1)]
    by (auto simp: working_anchors_def upsert_sorted_eq bt_get_insert fun_eq_iff split: option.splits)
  moreover have "bt_get (cs_member_relays s') = declared_relays (bs @ [b])" "bt_wf (cs_member_relays s')"
    using wf chain_fold_one_anchors(2)[OF assms(1)]
    by (auto simp: declared_relays_def upsert_sorted_eq bt_get_insert fun_eq_iff split: option.splits)
  ultimately show ?thesis by (simp add: anchors_inv_def)
qed

lemma walks_anchors: "walks X bs w \<Longrightarrow> anchors_inv bs (w_running w)"
proof (induction rule: walks.induct)
  case (walks_genesis g w)
  from genesis_walk_Inr[OF this] show ?case
    by (auto simp: anchors_inv_def genesis_base_def working_anchors_def declared_relays_def anchor_of_def relays_of_def)
next
  case (walks_step bs w b w')
  then show ?case using anchors_step step_facts(3) by blast
qed

lemma walk_working_anchor_eq:
  assumes "bt_wf (cs_anchors s)"
  shows "walk_working_anchor s m =
    (case bt_get (cs_anchors s) m of Some pk \<Rightarrow> pk
     | None \<Rightarrow> (case member_of (cs_roster s) m of None \<Rightarrow> [] | Some i \<Rightarrow> mi_nostr_pk i))"
proof (cases "binary_search_by (\<lambda>(k, _). cmp_of k m) (cs_anchors s)")
  case (Inl i)
  with binary_search_by_spec[of "cs_anchors s" m] assms have
    i: "i \<le> length (cs_anchors s)" "\<forall>j < i. fst (cs_anchors s ! j) < m"
      "\<forall>j < length (cs_anchors s). i \<le> j \<longrightarrow> m < fst (cs_anchors s ! j)"
    by (auto simp: bt_wf_def)
  have "m \<notin> fst ` set (cs_anchors s)"
  proof
    assume "m \<in> fst ` set (cs_anchors s)"
    then obtain j where "j < length (cs_anchors s)" "fst (cs_anchors s ! j) = m"
      by (auto simp: in_set_conv_nth)
    then show False using i by (cases "j < i") auto
  qed
  then have "bt_get (cs_anchors s) m = None" by (simp add: map_of_eq_None_iff)
  then show ?thesis by (simp add: walk_working_anchor_def Inl)
next
  case (Inr i)
  with binary_search_by_spec[of "cs_anchors s" m] assms have
    i: "i < length (cs_anchors s)" "fst (cs_anchors s ! i) = m" by (auto simp: bt_wf_def)
  then have "(m, snd (cs_anchors s ! i)) \<in> set (cs_anchors s)" by (metis nth_mem prod.collapse)
  then have "bt_get (cs_anchors s) m = Some (snd (cs_anchors s ! i))"
    by (rule map_of_is_SomeI[OF bt_wf_distinct[OF assms]])
  then show ?thesis by (simp add: walk_working_anchor_def Inr)
qed

lemma walks_checkpoint_state:
  assumes "walks X bs w"
  shows "checkpoint_state_of X bs (ch_height (w_head w)) = Inr (at_cut (w_running w) (ch_height (w_head w)))"
proof -
  from walks_running[OF assms] obtain g rest w0 where r: "bs = g # rest" "genesis_walk X g = Inr w0"
    "rfold (\<lambda>s b. chain_fold_one X s b (w_vault w0)) (w_running w0) rest = Inr (w_running w)" by blast
  from genesis_walk_Inr[OF r(2)] obtain nm rid m n ids ag rl ft where
    g: "blk_change g = Genesis nm rid m n ids ag rl ft" "w_running w0 = genesis_base nm m n ids ag rid rl ft"
      "w_vault w0 = ctx_from_founding m ids" by auto
  have "\<not> blk_height b > ch_height (w_head w)" if "b \<in> set rest" for b
  proof -
    have "b \<in> set bs" using that by (simp add: r(1))
    then obtain i where "i < length bs" "bs ! i = b" unfolding in_set_conv_nth by blast
    then have "unat (blk_height b) \<le> unat (ch_height (w_head w))"
      using walks_position[OF assms] by (auto simp: position_inv_def linked_def)
    then show ?thesis by (simp add: word_less_nat_alt)
  qed
  then have tw: "takeWhile (\<lambda>b. \<not> blk_height b > ch_height (w_head w)) rest = rest"
    by (simp add: takeWhile_eq_all_conv)
  show ?thesis
    using r g by (simp add: checkpoint_state_of_def fold_state_def Let_def genesis_base_def tw)
qed

end
