(* ===== verification/Vault_Resume.thy ===== *)
theory Vault_Resume
  imports Chain_Laws
begin

text \<open>
  Summarizing a vault group resumes: a cut replaces the deposits and grants of the group by one
  commitment to the base, and whoever holds that base rebuilds the slots the group had, whatever
  further deposits and grants follow.
\<close>

section \<open>The slots of a group\<close>

definition vault_slots ::
  "extern \<Rightarrow> vault_base option \<Rightarrow> string \<Rightarrow> (u64 \<times> json) list \<Rightarrow> string fault + slots" where
  "vault_slots X hd_base rid grp =
     rbind (rfold (vault_summarize_entry X hd_base rid) ([], False) grp) (\<lambda>(sl, _). Inr sl)"

lemma vault_summarize_slots:
  "vault_summarize X grp hd_base rid =
     rbind (vault_slots X hd_base rid grp) (\<lambda>sl.
     rbind (or_panic (vault_commitment X \<lparr>vb_deposits = map snd sl\<rparr>)) (\<lambda>(hash, sz).
       Inr ([(0, vault_to_value X (VaultBaseOp \<lparr>vp_hash = hash, vp_size = sz\<rparr>))], \<lparr>vb_deposits = map snd sl\<rparr>)))"
  by (simp add: vault_summarize_def vault_slots_def Let_def rbind_def split: sum.splits prod.splits)

lemma vault_slots_snoc:
  assumes "vault_commitment_of (snd e) = None"
  shows "vault_slots X hd_base rid (g @ [e]) =
    rbind (vault_slots X hd_base rid g) (\<lambda>sl.
      case vault_from_value X (snd e) of
        Some (Deposit dep) \<Rightarrow> fold_deposit X rid dep sl
      | Some (Grant gr) \<Rightarrow> fold_grant X rid (fst e) gr sl
      | _ \<Rightarrow> Inl (Refused ''a vault entry outside the closed op set''))"
  using assms
  by (auto simp: vault_slots_def rfold_append rbind_def vault_summarize_entry_def
      split: sum.splits option.splits vault_op.splits)

text \<open>The same slots: from nothing on one side, from the held base on the other.\<close>

definition slots_rel :: "extern \<Rightarrow> vault_base option \<Rightarrow> string \<Rightarrow> (u64 \<times> json) list \<Rightarrow> (u64 \<times> json) list \<Rightarrow> bool" where
  "slots_rel X V rid g h \<longleftrightarrow> vault_slots X None rid g = vault_slots X V rid h"

lemma slots_rel_Nil: "slots_rel X V rid [] []"
  by (simp add: slots_rel_def vault_slots_def)

lemma slots_rel_snoc:
  "slots_rel X V rid g h \<Longrightarrow> vault_commitment_of (snd e) = None \<Longrightarrow> slots_rel X V rid (g @ [e]) (h @ [e])"
  by (simp add: slots_rel_def vault_slots_snoc)

lemma slots_rel_summarize: "slots_rel X V rid g h \<Longrightarrow> vault_summarize X g None rid = vault_summarize X h V rid"
  by (simp add: slots_rel_def vault_summarize_slots)

section \<open>The base rebuilds the slots\<close>

definition keyed_slots :: "slots \<Rightarrow> bool" where
  "keyed_slots sl \<longleftrightarrow> bt_wf sl \<and> (\<forall>(k, d) \<in> set sl. deposit_slot d = k)"

lemma keyed_insert: "keyed_slots sl \<Longrightarrow> deposit_slot d = k \<Longrightarrow> keyed_slots (bt_insert k d sl)"
  using set_bt_insert_subset[of k d sl] by (auto simp: keyed_slots_def)

lemma keyed_seed: "keyed_slots sl \<Longrightarrow> keyed_slots (seed_slots sl base)"
proof -
  have "keyed_slots sl \<Longrightarrow> keyed_slots (fold (\<lambda>d. bt_insert (deposit_slot d) d) ds sl)" for ds sl
    by (induction ds arbitrary: sl) (simp_all add: keyed_insert)
  then show "keyed_slots sl \<Longrightarrow> keyed_slots (seed_slots sl base)" by (simp add: seed_slots_def)
qed

lemma keyed_deposit: "keyed_slots sl \<Longrightarrow> fold_deposit X rid dep sl = Inr sl' \<Longrightarrow> keyed_slots sl'"
  by (auto simp: fold_deposit_def rbind_eq_Inr deposit_slot_def intro!: keyed_insert split: if_splits)

lemma grant_keeps_slots:
  "fold_grant X rid i gr sl = Inr sl' \<Longrightarrow>
     map (\<lambda>(k, d). (k, deposit_slot d)) sl' = map (\<lambda>(k, d). (k, deposit_slot d)) sl"
  by (induction X rid i gr sl arbitrary: sl' rule: fold_grant.induct)
    (auto simp: rbind_eq_Inr deposit_slot_def split: if_splits)

lemma keyed_map: "keyed_slots sl \<longleftrightarrow>
   (let ks = map (\<lambda>(k, d). (k, deposit_slot d)) sl in bt_wf ks \<and> (\<forall>(k, s) \<in> set ks. s = k))"
  by (auto simp: keyed_slots_def bt_wf_def Let_def comp_def case_prod_beta)

lemma keyed_grant: "keyed_slots sl \<Longrightarrow> fold_grant X rid i gr sl = Inr sl' \<Longrightarrow> keyed_slots sl'"
  using grant_keeps_slots[of X rid i gr sl sl'] by (simp add: keyed_map)

lemma vault_slots_keyed:
  assumes "vault_slots X hd_base rid grp = Inr sl"
  shows "keyed_slots sl"
proof -
  obtain b where r: "rfold (vault_summarize_entry X hd_base rid) ([], False) grp = Inr (sl, b)"
    using assms by (auto simp: vault_slots_def rbind_eq_Inr)
  have "keyed_slots (fst st')" if k: "keyed_slots (fst st)" and e: "vault_summarize_entry X hd_base rid st e = Inr st'" for st e st'
  proof (cases "vault_commitment_of (snd e)")
    case (Some c)
    then show ?thesis using k e keyed_seed
      by (auto simp: vault_summarize_entry_def rbind_eq_Inr split: option.splits prod.splits)
  next
    case None
    obtain op where op: "vault_from_value X (snd e) = Some op"
      using e None by (auto simp: vault_summarize_entry_def split: prod.splits option.splits)
    show ?thesis
      using k e None op
      by (cases op; cases st) (auto simp: vault_summarize_entry_def rbind_eq_Inr dest: keyed_deposit keyed_grant)
  qed
  then have "keyed_slots (fst (sl, b))"
    by (rule rfold_invariant[where I = "\<lambda>st. keyed_slots (fst st)", OF r, rotated]) (simp_all add: keyed_slots_def)
  then show ?thesis by simp
qed

lemma bt_insert_last: "(\<And>x. x \<in> fst ` set m \<Longrightarrow> x < k) \<Longrightarrow> bt_insert k v m = m @ [(k, v)]"
proof (induction m)
  case (Cons p m)
  then show ?case using Cons.prems[of "fst p"] by (cases p) (auto dest: less_not_sym)
qed simp

lemma seed_rebuilds: "keyed_slots sl \<Longrightarrow> seed_slots [] \<lparr>vb_deposits = map snd sl\<rparr> = sl"
proof (induction sl rule: rev_induct)
  case (snoc p sl)
  obtain k d where p: "p = (k, d)" by (cases p)
  have "keyed_slots sl" "deposit_slot d = k" "\<And>x. x \<in> fst ` set sl \<Longrightarrow> x < k"
    using snoc.prems by (auto simp: keyed_slots_def bt_wf_def sorted_wrt_append p)
  then show ?case using snoc.IH by (simp add: seed_slots_def p bt_insert_last)
qed (simp add: seed_slots_def)

section \<open>The record of a fold\<close>

text \<open>
  What \<open>serde\<close> documents of an internally tagged enum (\<open>#[serde(tag = "op", rename_all =
  "snake_case")]\<close> on \<open>VaultOp\<close>): the value carries the variant's name as its tag, and the fields of the
  variant beside it.
\<close>

definition vault_tagged :: "extern \<Rightarrow> bool" where
  "vault_tagged X \<longleftrightarrow>
     (\<forall>d. get_str (vault_to_value X (Deposit d)) ''op'' = Some ''deposit'') \<and>
     (\<forall>g. get_str (vault_to_value X (Grant g)) ''op'' = Some ''grant'') \<and>
     (\<forall>r. get_str (vault_to_value X (VaultBaseOp r)) ''op'' = Some ''vault_base'' \<and>
          str_or_default (vault_to_value X (VaultBaseOp r)) ''hash'' = vp_hash r)"

lemma checked_op_is_no_base:
  assumes "vault_tagged X" "check_vault_op X rid i p ctx = Inr op"
  shows "vault_commitment_of p = None"
proof (cases op)
  case (VaultBaseOp r)
  then show ?thesis using assms(2) by (auto simp: check_vault_op_def rbind_eq_Inr split: vault_op.splits)
next
  case (Deposit d)
  then have "vault_to_value X (Deposit d) = p" using assms(2) by (auto simp: check_vault_op_def rbind_eq_Inr reject_if_def split: if_splits)
  then show ?thesis using assms(1) by (auto simp: vault_tagged_def vault_commitment_of_def)
next
  case (Grant g)
  then have "vault_to_value X (Grant g) = p" using assms(2) by (auto simp: check_vault_op_def rbind_eq_Inr reject_if_def split: if_splits)
  then show ?thesis using assms(1) by (auto simp: vault_tagged_def vault_commitment_of_def)
qed

lemma vault_summarize_resumes:
  assumes "vault_tagged X" "vault_summarize X g None rid = Inr (folded, base)"
  shows "slots_rel X (Some base) rid g folded"
proof -
  from assms(2) obtain sl hash sz where sl: "vault_slots X None rid g = Inr sl" "base = \<lparr>vb_deposits = map snd sl\<rparr>"
    "vault_commitment X base = Some (hash, sz)"
    "folded = [(0, vault_to_value X (VaultBaseOp \<lparr>vp_hash = hash, vp_size = sz\<rparr>))]"
    by (auto simp: vault_summarize_slots rbind_eq_Inr)
  have "seed_slots [] base = sl" using seed_rebuilds[OF vault_slots_keyed[OF sl(1)]] sl(2) by simp
  then have "vault_slots X (Some base) rid folded = Inr sl"
    using assms(1) sl(3,4)
    by (simp add: vault_slots_def vault_summarize_entry_def vault_commitment_of_def vault_tagged_def reject_if_def)
  then show ?thesis using sl(1) by (simp add: slots_rel_def)
qed

end
