(* ===== verification/Chain_Pruning.thy ===== *)
theory Chain_Pruning
  imports Vault_Resume "HOL-Library.Multiset"
begin

text \<open>
  Pruning preserves verification. A holder that dropped everything below a cut and kept the
  cut's state (and the wiki tree and the vault base a folded cut commits to) reaches the same verdict
  on every later block as a holder of the whole chain. The proof is a simulation between the two
  walks; its heart is that summarizing a memory or a vault group resumes: folding from nothing and
  folding onto the committed base give the same summary.
\<close>

section \<open>Summaries resume\<close>

definition wiki_summ :: "extern \<Rightarrow> wiki_tree \<Rightarrow> (u64 \<times> json) list \<Rightarrow> string fault + wiki_summary" where
  "wiki_summ X base grp = rfold (wiki_summarize_entry X base) wiki_summary_empty grp"

definition same_summary :: "wiki_summary \<Rightarrow> wiki_summary \<Rightarrow> bool" where
  "same_summary s t \<longleftrightarrow> ws_tree s = ws_tree t \<and> ws_kept s = ws_kept t \<and> ws_rev s = ws_rev t"

definition summ_rel :: "extern \<Rightarrow> wiki_tree \<Rightarrow> (u64 \<times> json) list \<Rightarrow> (u64 \<times> json) list \<Rightarrow> bool" where
  "summ_rel X T g h \<longleftrightarrow>
     (\<exists>s t. wiki_summ X [] g = Inr s \<and> wiki_summ X T h = Inr t \<and> same_summary s t)"

definition not_base_entry :: "json \<Rightarrow> bool" where
  "not_base_entry p \<longleftrightarrow> get_str p ''op'' \<noteq> Some ''wiki_base''"

lemma wiki_entry_same:
  assumes "same_summary s t" "not_base_entry (snd e)" "wiki_summarize_entry X base s e = Inr s'"
  shows "\<exists>t'. wiki_summarize_entry X base' t e = Inr t' \<and> same_summary s' t'"
  using assms
  by (auto simp: wiki_summarize_entry_def not_base_entry_def same_summary_def Let_def split: if_splits prod.splits)

lemma wiki_entry_total:
  "not_base_entry (snd e) \<Longrightarrow> \<exists>s'. wiki_summarize_entry X base s e = Inr s'"
  by (auto simp: wiki_summarize_entry_def not_base_entry_def Let_def split: prod.splits)

lemma wiki_summ_snoc: "wiki_summ X base (g @ [e]) = rbind (wiki_summ X base g) (\<lambda>s. wiki_summarize_entry X base s e)"
  by (simp add: wiki_summ_def rfold_append rbind_def split: sum.splits)

lemma summ_rel_snoc:
  assumes "summ_rel X T g h" "not_base_entry (snd e)"
  shows "summ_rel X T (g @ [e]) (h @ [e])"
proof -
  from assms(1) obtain s t where st: "wiki_summ X [] g = Inr s" "wiki_summ X T h = Inr t" "same_summary s t"
    by (auto simp: summ_rel_def)
  obtain s' where s': "wiki_summarize_entry X [] s e = Inr s'" using wiki_entry_total[OF assms(2)] by blast
  from wiki_entry_same[OF st(3) assms(2) s'] show ?thesis
    using st s' by (auto simp: summ_rel_def wiki_summ_snoc)
qed

lemma wiki_summarize_summ:
  "wiki_summarize X grp base =
     rbind (wiki_summ X base grp) (\<lambda>st. rbind (or_panic (wiki_commitment X (ws_tree st))) (\<lambda>(hash, sz).
       Inr ((0, wiki_base_entry hash sz (ws_rev st)) # ws_kept st, ws_tree st, ws_rev st)))"
  by (simp add: wiki_summarize_def wiki_summ_def)

lemma summ_rel_summarize: "summ_rel X T g h \<Longrightarrow> wiki_summarize X g [] = wiki_summarize X h T"
  by (auto simp: summ_rel_def same_summary_def wiki_summarize_summ)

text \<open>Entries that are neither a base nor a patch are only carried along.\<close>

definition plain_entry :: "json \<Rightarrow> bool" where
  "plain_entry p \<longleftrightarrow> get_str p ''op'' \<notin> {Some ''wiki_base'', Some ''wiki_patch''}"

lemma summ_kept_plain:
  assumes "wiki_summ X base grp = Inr s"
  shows "\<forall>e \<in> set (ws_kept s). plain_entry (snd e)"
  using assms unfolding wiki_summ_def
  by (rule rfold_invariant[where I = "\<lambda>s. \<forall>e \<in> set (ws_kept s). plain_entry (snd e)"])
    (auto simp: wiki_summary_empty_def wiki_summarize_entry_def plain_entry_def rbind_eq_Inr Let_def
      split: if_splits prod.splits)

lemma summ_plain:
  "\<forall>e \<in> set es. plain_entry (snd e) \<Longrightarrow>
     rfold (wiki_summarize_entry X base) s es = Inr (s\<lparr>ws_kept := ws_kept s @ es\<rparr>)"
proof (induction es arbitrary: s)
  case (Cons e es)
  then show ?case by (simp add: wiki_summarize_entry_def plain_entry_def Let_def)
qed simp

lemma wiki_base_entry_get:
  "get_str (wiki_base_entry h n r) ''op'' = Some ''wiki_base''"
  "str_or_default (wiki_base_entry h n r) ''hash'' = h"
  "rev_at_cut_of (wiki_base_entry h n r) = Some r"
  by (simp_all add: wiki_base_entry_def get_str_def str_or_default_def rev_at_cut_of_def get_u64_def)

lemma summarize_resumes:
  assumes "wiki_summarize X g base = Inr (folded, tree, rv)"
  shows "\<exists>s t. wiki_summ X base g = Inr s \<and> wiki_summ X tree folded = Inr t \<and> same_summary s t \<and> ws_tree s = tree"
proof -
  from assms obtain s hash sz where s: "wiki_summ X base g = Inr s" "wiki_commitment X (ws_tree s) = Some (hash, sz)"
    "folded = (0, wiki_base_entry hash sz (ws_rev s)) # ws_kept s" "tree = ws_tree s"
    by (auto simp: wiki_summarize_summ rbind_eq_Inr)
  have "wiki_summarize_entry X tree wiki_summary_empty (0, wiki_base_entry hash sz (ws_rev s))
      = Inr (wiki_summary_empty\<lparr>ws_tree := tree, ws_rev := ws_rev s, ws_seeded := True\<rparr>)"
    using s(2,4) by (simp add: wiki_summarize_entry_def wiki_base_entry_get wiki_summary_empty_def reject_if_def)
  then have "wiki_summ X tree folded
      = Inr (wiki_summary_empty\<lparr>ws_tree := tree, ws_rev := ws_rev s, ws_seeded := True, ws_kept := ws_kept s\<rparr>)"
    using summ_plain[OF summ_kept_plain[OF s(1)], of X tree]
    by (simp add: wiki_summ_def s(3) wiki_summary_empty_def)
  then show ?thesis using s by (auto simp: same_summary_def wiki_summary_empty_def)
qed

lemma summarize_rel: "wiki_summarize X g [] = Inr (folded, tree, rv) \<Longrightarrow> summ_rel X tree g folded"
  using summarize_resumes by (fastforce simp: summ_rel_def)

section \<open>Groups\<close>

lemma map_fst_upd_group [simp]: "map fst (upd_group sf f gs) = map fst gs"
  by (induction sf f gs rule: upd_group.induct) auto

lemma map_fst_set_group [simp]: "map fst (set_group sf g gs) = map fst gs"
  by (induction sf g gs rule: set_group.induct) auto

text \<open>Two lists of groups with the same surfaces, each pair of groups in the relation of its surface.\<close>

type_synonym grp = "(u64 \<times> json) list"

definition entry_rel :: "(surface \<Rightarrow> grp \<Rightarrow> grp \<Rightarrow> bool) \<Rightarrow> surface \<times> grp \<Rightarrow> surface \<times> grp \<Rightarrow> bool" where
  "entry_rel Q x y \<longleftrightarrow> fst x = fst y \<and> Q (fst x) (snd x) (snd y)"

definition groups_rel :: "(surface \<Rightarrow> grp \<Rightarrow> grp \<Rightarrow> bool) \<Rightarrow> (surface \<times> grp) list \<Rightarrow> (surface \<times> grp) list \<Rightarrow> bool" where
  "groups_rel Q A B \<longleftrightarrow> list_all2 (entry_rel Q) A B \<and> distinct (map fst A)"

lemma entry_rel_pair: "entry_rel Q (a, g) (b, h) \<longleftrightarrow> a = b \<and> Q a g h"
  by (simp add: entry_rel_def)

lemma has_group_iff: "list_ex (\<lambda>(s, _). s = sf) A \<longleftrightarrow> sf \<in> set (map fst A)"
  by (induction A) auto

lemma entry_rel_list_fst: "list_all2 (entry_rel Q) A B \<Longrightarrow> map fst A = map fst B"
  by (induction A B rule: list_all2_induct) (auto simp: entry_rel_def)

lemma groups_rel_fst: "groups_rel Q A B \<Longrightarrow> map fst A = map fst B"
  using entry_rel_list_fst unfolding groups_rel_def by blast

lemma groups_rel_mono:
  assumes "groups_rel Q A B" "\<And>sf g h. Q sf g h \<Longrightarrow> R sf g h"
  shows "groups_rel R A B"
proof -
  have "list_all2 (entry_rel R) A B" if "list_all2 (entry_rel Q) A B"
    using that by (rule list_all2_mono) (auto simp: entry_rel_def assms(2))
  then show ?thesis using assms(1) by (simp add: groups_rel_def)
qed

lemma groups_rel_eq: "groups_rel (\<lambda>_. (=)) A B \<longleftrightarrow> A = B \<and> distinct (map fst A)"
proof -
  have "entry_rel (\<lambda>_. (=)) = (=)" by (auto simp: fun_eq_iff entry_rel_def prod_eq_iff)
  then show ?thesis by (simp add: groups_rel_def list.rel_eq)
qed

lemma groups_rel_upd:
  assumes "groups_rel Q A B" "\<And>g h. Q sf g h \<Longrightarrow> Q sf (f g) (f h)"
  shows "groups_rel Q (upd_group sf f A) (upd_group sf f B)"
proof -
  have "list_all2 (entry_rel Q) (upd_group sf f A) (upd_group sf f B)" if "list_all2 (entry_rel Q) A B"
    using that
  proof (induction A B rule: list_all2_induct)
    case (Cons x xs y ys)
    then show ?case by (cases x; cases y) (use assms(2) in \<open>auto simp: entry_rel_pair split: if_splits\<close>)
  qed simp
  then show ?thesis using assms(1) by (simp add: groups_rel_def)
qed

text \<open>A surface without a group puts no condition on its relation.\<close>

lemma entries_rel_fresh:
  assumes "list_all2 (entry_rel Q) A B" "sf \<notin> fst ` set A"
  shows "list_all2 (entry_rel (Q(sf := R))) A B"
  using assms
proof (induction A B rule: list_all2_induct)
  case (Cons x xs y ys)
  then show ?case by (auto simp: entry_rel_def)
qed simp

text \<open>Replacing the group of a surface on the right, or on both sides.\<close>

lemma groups_rel_set:
  assumes "groups_rel Q A B" "map_of A sf = Some g" "R g x"
  shows "groups_rel (Q(sf := R)) A (set_group sf x B)"
proof -
  have "list_all2 (entry_rel Q) A B" "distinct (map fst A)" using assms(1) by (simp_all add: groups_rel_def)
  then have "list_all2 (entry_rel (Q(sf := R))) A (set_group sf x B)" using assms(2)
  proof (induction A B rule: list_all2_induct)
    case (Cons p ps q qs)
    obtain a l b m where pq: "p = (a, l)" "q = (b, m)" by (cases p; cases q)
    show ?case
    proof (cases "a = sf")
      case True
      then have "list_all2 (entry_rel (Q(sf := R))) ps qs"
        using Cons.prems(1) pq by (intro entries_rel_fresh[OF Cons.hyps(2)]) auto
      then show ?thesis using True Cons.hyps(1) Cons.prems(2) assms(3) by (auto simp: pq entry_rel_pair fun_upd_def)
    qed (use Cons in \<open>auto simp: pq entry_rel_pair\<close>)
  qed simp
  then show ?thesis using assms(1) by (simp add: groups_rel_def)
qed

lemma groups_rel_at:
  assumes "groups_rel Q A B"
  shows "(map_of A sf = None \<and> map_of B sf = None \<and> (\<forall>R. groups_rel (Q(sf := R)) A B)) \<or>
    (\<exists>g h. map_of A sf = Some g \<and> map_of B sf = Some h \<and> Q sf g h \<and>
       (\<forall>x. groups_rel (Q(sf := (=))) (set_group sf x A) (set_group sf x B)))"
proof -
  have rel: "list_all2 (entry_rel Q) A B" "distinct (map fst A)" using assms by (simp_all add: groups_rel_def)
  show ?thesis
  proof (cases "map_of A sf")
    case None
    then have "sf \<notin> fst ` set A" by (simp add: map_of_eq_None_iff)
    moreover from this have "sf \<notin> fst ` set B" using entry_rel_list_fst[OF rel(1)] by (metis set_map)
    ultimately show ?thesis
      using None rel entries_rel_fresh[OF rel(1)] by (auto simp: map_of_eq_None_iff groups_rel_def)
  next
    case (Some g)
    have "(\<exists>h. map_of B sf = Some h \<and> Q sf g h) \<and>
        (\<forall>x. list_all2 (entry_rel (Q(sf := (=)))) (set_group sf x A) (set_group sf x B))"
      using rel Some
    proof (induction A B rule: list_all2_induct)
      case (Cons p ps q qs)
      obtain a l b m where pq: "p = (a, l)" "q = (b, m)" by (cases p; cases q)
      show ?case
      proof (cases "a = sf")
        case True
        then have "list_all2 (entry_rel (Q(sf := (=)))) ps qs"
          using Cons.prems(1) pq by (intro entries_rel_fresh[OF Cons.hyps(2)]) auto
        then show ?thesis using True Cons.hyps(1) Cons.prems(2) by (auto simp: pq entry_rel_pair fun_upd_def)
      qed (use Cons in \<open>auto simp: pq entry_rel_pair\<close>)
    qed simp
    then show ?thesis using Some rel(2) by (auto simp: groups_rel_def)
  qed
qed

lemma position_of_fst: "map fst A = map fst B \<Longrightarrow> position_of (\<lambda>(s, _). P s) A = position_of (\<lambda>(s, _). P s) B"
proof (induction A arbitrary: B)
  case (Cons x A)
  then show ?case by (cases B) (auto split: prod.splits)
qed simp

lemma distinct_ensure: "distinct (map fst A) \<Longrightarrow> distinct (map fst (ensure_group sf A))"
proof -
  assume d: "distinct (map fst A)"
  have "distinct (map fst (take n A @ (sf, []) # drop n A))" if "sf \<notin> fst ` set A" for n
  proof -
    have "map fst (take n A) @ map fst (drop n A) = map fst A"
      by (metis append_take_drop_id map_append)
    then have "distinct (map fst (take n A) @ map fst (drop n A))" using d by simp
    moreover have "sf \<notin> set (map fst (take n A))" "sf \<notin> set (map fst (drop n A))"
      using that by (auto dest: in_set_takeD in_set_dropD)
    ultimately show ?thesis by auto
  qed
  then show ?thesis using d by (simp add: ensure_group_def Let_def has_group_iff)
qed

lemma groups_rel_ensure:
  assumes "groups_rel Q A B" "Q sf [] []"
  shows "groups_rel Q (ensure_group sf A) (ensure_group sf B)"
proof -
  have fst: "map fst A = map fst B" by (rule groups_rel_fst[OF assms(1)])
  have ex: "list_ex (\<lambda>(s, _). s = sf) A = list_ex (\<lambda>(s, _). s = sf) B"
    unfolding has_group_iff fst ..
  have pos: "position_of (\<lambda>(s, _). rank_greater (surface_rank s) (surface_rank sf)) A =
      position_of (\<lambda>(s, _). rank_greater (surface_rank s) (surface_rank sf)) B"
    by (rule position_of_fst[OF fst])
  have rel: "list_all2 (entry_rel Q) A B" and len: "length A = length B"
    using assms(1) by (auto simp: groups_rel_def dest: list_all2_lengthD)
  have new: "entry_rel Q (sf, []) (sf, [])" using assms(2) by (simp add: entry_rel_pair)
  have "list_all2 (entry_rel Q) (ensure_group sf A) (ensure_group sf B)"
    unfolding ensure_group_def ex pos len Let_def
    using rel new by (simp add: list_all2_appendI list_all2_takeI list_all2_dropI)
  then show ?thesis using assms(1) distinct_ensure by (simp add: groups_rel_def)
qed

section \<open>Related states\<close>

definition mem_rel :: "extern \<Rightarrow> wiki_tree \<Rightarrow> (u64 \<times> json) list \<Rightarrow> (u64 \<times> json) list \<Rightarrow> bool" where
  "mem_rel X T g h \<longleftrightarrow> T = [] \<and> g = h \<or> summ_rel X T g h"

lemma mem_rel_Nil: "mem_rel X T [] []"
  by (simp add: mem_rel_def summ_rel_def wiki_summ_def same_summary_def)

lemma mem_rel_snoc: "mem_rel X T g h \<Longrightarrow> not_base_entry (snd e) \<Longrightarrow> mem_rel X T (g @ [e]) (h @ [e])"
  by (auto simp: mem_rel_def intro: summ_rel_snoc)

lemma mem_rel_summarize: "mem_rel X T g h \<Longrightarrow> wiki_summarize X g [] = wiki_summarize X h T"
  by (auto simp: mem_rel_def summ_rel_summarize)

definition rest_rel :: "checkpoint_state \<Rightarrow> checkpoint_state \<Rightarrow> bool" where
  "rest_rel s t \<longleftrightarrow>
     constitution_of s = constitution_of t \<and> cs_roster s = cs_roster t \<and> cs_anchors s = cs_anchors t \<and>
     cs_member_relays s = cs_member_relays t \<and> sort (cs_consumed_ids s) = sort (cs_consumed_ids t)"

text \<open>
  Related states at a kind of cut: the group a cut of that kind folds is related through what the
  pruned holder keeps, every other group is the same.
\<close>

definition held_tree :: "held \<Rightarrow> wiki_tree" where
  "held_tree hd0 = (case held_wiki hd0 of None \<Rightarrow> [] | Some t \<Rightarrow> t)"

definition grp_rel :: "extern \<Rightarrow> held \<Rightarrow> cut_kind \<Rightarrow> string \<Rightarrow> surface \<Rightarrow> grp \<Rightarrow> grp \<Rightarrow> bool" where
  "grp_rel X hd0 k rid =
     (\<lambda>_. (=))(Memory := if ck_wiki k then mem_rel X (held_tree hd0) else (=),
              Vault := if ck_vault k then slots_rel X (held_vault hd0) rid else (=))"

definition state_rel :: "extern \<Rightarrow> held \<Rightarrow> cut_kind \<Rightarrow> checkpoint_state \<Rightarrow> checkpoint_state \<Rightarrow> bool" where
  "state_rel X hd0 k s t \<longleftrightarrow>
     rest_rel s t \<and> groups_rel (grp_rel X hd0 k (cs_republic_id s)) (cs_applied s) (cs_applied t)"

lemma state_rel_mono:
  assumes "state_rel X hd0 k s t" "ck_vault k' = ck_vault k" "ck_wiki k' = ck_wiki k \<or> ck_wiki k' \<and> held_tree hd0 = []"
  shows "state_rel X hd0 k' s t"
  using assms unfolding state_rel_def
  by (elim conjE, intro conjI) (auto simp: grp_rel_def mem_rel_def elim!: groups_rel_mono split: if_splits)

lemma rest_rel_trans: "rest_rel s t \<Longrightarrow> rest_rel t u \<Longrightarrow> rest_rel s u"
  unfolding rest_rel_def by (elim conjE) (intro conjI, (erule (1) trans)+)

lemma at_cut_consumed [simp]: "cs_consumed_ids (at_cut s up) = sort (cs_consumed_ids s)"
  by (simp add: at_cut_def)

lemma at_cut_eq:
  assumes "rest_rel s t"
  shows "(at_cut s up)\<lparr>cs_applied := A\<rparr> = (at_cut t up)\<lparr>cs_applied := A\<rparr>"
  using assms by (auto simp: rest_rel_def constitution_of_def at_cut_def intro!: checkpoint_state.equality)

lemma at_cut_applied [simp]: "cs_applied (at_cut s up) = cs_applied s"
  by (simp add: at_cut_def)

lemma wiki_fold_rel:
  assumes "groups_rel Q (cs_applied s) (cs_applied t)" "Q Memory = mem_rel X T"
  shows "(\<exists>e. wiki_summarize_state X s [] = Inl e \<and> wiki_summarize_state X t T = Inl e) \<or>
    (\<exists>A B tr. wiki_summarize_state X s [] = Inr (s\<lparr>cs_applied := A\<rparr>, tr) \<and>
       wiki_summarize_state X t T = Inr (t\<lparr>cs_applied := B\<rparr>, tr) \<and> groups_rel (Q(Memory := (=))) A B)"
  using groups_rel_at[OF assms(1), of Memory]
proof (elim disjE exE conjE)
  assume "map_of (cs_applied s) Memory = None" "map_of (cs_applied t) Memory = None"
    "\<forall>R. groups_rel (Q(Memory := R)) (cs_applied s) (cs_applied t)"
  then show ?thesis
    by (intro disjI2 exI[of _ "cs_applied s"] exI[of _ "cs_applied t"] exI[of _ None]) (simp add: wiki_summarize_state_def)
next
  fix g h assume m: "map_of (cs_applied s) Memory = Some g" "map_of (cs_applied t) Memory = Some h" "Q Memory g h"
    "\<forall>x. groups_rel (Q(Memory := (=))) (set_group Memory x (cs_applied s)) (set_group Memory x (cs_applied t))"
  have "wiki_summarize X g [] = wiki_summarize X h T" using m(3) assms(2) by (simp add: mem_rel_summarize)
  then show ?thesis using m
    by (cases "wiki_summarize X h T")
      (simp_all add: wiki_summarize_state_def case_prod_beta, metis)
qed

lemma vault_fold_rel:
  assumes "groups_rel Q (cs_applied s) (cs_applied t)" "Q Vault = slots_rel X V (cs_republic_id s)"
    "cs_republic_id t = cs_republic_id s"
  shows "(\<exists>e. vault_summarize_state X s None = Inl e \<and> vault_summarize_state X t V = Inl e) \<or>
    (\<exists>A B b. vault_summarize_state X s None = Inr (s\<lparr>cs_applied := A\<rparr>, b) \<and>
       vault_summarize_state X t V = Inr (t\<lparr>cs_applied := B\<rparr>, b) \<and> groups_rel (Q(Vault := (=))) A B)"
  using groups_rel_at[OF assms(1), of Vault]
proof (elim disjE exE conjE)
  assume "map_of (cs_applied s) Vault = None" "map_of (cs_applied t) Vault = None"
  then show ?thesis by (simp add: vault_summarize_state_def)
next
  fix g h assume m: "map_of (cs_applied s) Vault = Some g" "map_of (cs_applied t) Vault = Some h" "Q Vault g h"
    "\<forall>x. groups_rel (Q(Vault := (=))) (set_group Vault x (cs_applied s)) (set_group Vault x (cs_applied t))"
  have "vault_summarize X g None (cs_republic_id s) = vault_summarize X h V (cs_republic_id s)"
    using m(3) assms(2) by (simp add: slots_rel_summarize)
  then show ?thesis using m assms(3)
    by (cases "vault_summarize X h V (cs_republic_id s)")
      (simp_all add: vault_summarize_state_def case_prod_beta, metis)
qed

lemma fold_cut_rel:
  assumes "state_rel X hd0 k s t"
  shows "fold_cut X (at_cut s up) k held_default = fold_cut X (at_cut t up) k hd0"
proof -
  let ?s = "at_cut s up" and ?t = "at_cut t up" and ?Q = "grp_rel X hd0 k (cs_republic_id s)"
  have rest: "rest_rel s t" and g: "groups_rel ?Q (cs_applied ?s) (cs_applied ?t)"
    using assms by (simp_all add: state_rel_def)
  have rid: "cs_republic_id ?t = cs_republic_id ?s" "cs_republic_id ?s = cs_republic_id s"
    using rest by (simp_all add: rest_rel_def constitution_of_def at_cut_def)
  define W where "W st base = (if ck_wiki k then wiki_summarize_state X st base else Inr (st, None))" for st base
  define V where "V st base = (if ck_vault k then rbind (vault_summarize_state X st base) (\<lambda>(s, b). Inr (s, Some b))
      else Inr (st, None))" for st base
  have W: "(\<exists>e. W ?s [] = Inl e \<and> W ?t (held_tree hd0) = Inl e) \<or>
    (\<exists>A B tr. W ?s [] = Inr (?s\<lparr>cs_applied := A\<rparr>, tr) \<and> W ?t (held_tree hd0) = Inr (?t\<lparr>cs_applied := B\<rparr>, tr) \<and>
       groups_rel (?Q(Memory := (=))) A B)"
  proof (cases "ck_wiki k")
    case True
    then show ?thesis using wiki_fold_rel[OF g, of X "held_tree hd0"] by (simp add: W_def grp_rel_def)
  next
    case False
    then have "?Q(Memory := (=)) = ?Q" by (auto simp: grp_rel_def fun_eq_iff)
    then show ?thesis using False g
      by (intro disjI2 exI[of _ "cs_applied ?s"] exI[of _ "cs_applied ?t"] exI[of _ None]) (simp add: W_def)
  qed
  have V: "V (?s\<lparr>cs_applied := A\<rparr>) None = V (?t\<lparr>cs_applied := B\<rparr>) (held_vault hd0)"
    if AB: "groups_rel (?Q(Memory := (=))) A B" for A B
  proof (cases "ck_vault k")
    case True
    have eq: "(?Q(Memory := (=)))(Vault := (=)) = (\<lambda>_. (=))" by (auto simp: grp_rel_def fun_eq_iff)
    from vault_fold_rel[of "?Q(Memory := (=))" "?s\<lparr>cs_applied := A\<rparr>" "?t\<lparr>cs_applied := B\<rparr>" X "held_vault hd0"] AB True rid
    show ?thesis
      unfolding eq groups_rel_eq by (auto simp: V_def grp_rel_def at_cut_eq[OF rest])
  next
    case False
    then have "?Q(Memory := (=)) = (\<lambda>_. (=))" by (auto simp: grp_rel_def fun_eq_iff)
    then have "A = B" using AB by (simp add: groups_rel_eq)
    then show ?thesis using False by (simp add: V_def at_cut_eq[OF rest])
  qed
  have cut: "fold_cut X st k h = rbind (W st (held_tree h)) (\<lambda>(st1, tr). rbind (V st1 (held_vault h)) (\<lambda>(st2, vb).
      rbind (or_panic (checkpoint_state_hash X st2)) (\<lambda>hash. Inr (st2, \<lparr>fc_tree = tr, fc_vault = vb, fc_hash = hash\<rparr>))))" for st h
    by (simp add: fold_cut_def W_def V_def held_tree_def)
  have "held_tree held_default = []" "held_vault held_default = None" by (simp_all add: held_tree_def held_default_def)
  then show ?thesis unfolding cut using W V by auto
qed

section \<open>Related walks\<close>

text \<open>What the walk has folded so far, as the kind of cut that may come next.\<close>

definition folded_kind :: "chain_walk \<Rightarrow> cut_kind" where
  "folded_kind w = \<lparr>ck_wiki = w_folded_cut w, ck_vault = w_vault w \<noteq> None\<rparr>"

definition walk_rel :: "extern \<Rightarrow> held \<Rightarrow> chain_walk \<Rightarrow> chain_walk \<Rightarrow> bool" where
  "walk_rel X hd0 w v \<longleftrightarrow>
     w_head w = w_head v \<and> w_seen w = w_seen v \<and> w_folded_cut w = w_folded_cut v \<and>
     w_vault w = w_vault v \<and> w_floor w = None \<and>
     (\<exists>f. w_floor v = Some f \<and> f \<le> ch_height (w_head v)) \<and>
     state_rel X hd0 (folded_kind w) (w_running w) (w_running v) \<and>
     (\<not> w_folded_cut w \<longrightarrow> held_tree hd0 = [])"

definition carries_base :: "chain_block \<Rightarrow> bool" where
  "carries_base b = (case blk_change b of
     Applied _ sf p \<Rightarrow> sf = Memory \<and> get_str p ''op'' = Some ''wiki_base'' | _ \<Rightarrow> False)"

lemma push_applied_Memory: "push_applied Memory i p g = g @ [(i, p)]"
  by (simp add: push_applied_def applied_lww_slot_def)

lemma push_applied_Vault: "push_applied Vault i p g = g @ [(i, p)]"
  by (simp add: push_applied_def applied_lww_slot_def)

lemma sort_append_cong: "sort xs = sort ys \<Longrightarrow> sort (xs @ zs) = sort (ys @ zs)"
  by (metis mset_append mset_sort properties_for_sort sorted_sort)

text \<open>The gate of a vault republic reads the constitution and the organization group only.\<close>

definition vault_gate :: "extern \<Rightarrow> checkpoint_state \<Rightarrow> u64 \<Rightarrow> u64 \<Rightarrow> surface \<Rightarrow> json \<Rightarrow> vault_ctx option \<Rightarrow> string fault + unit" where
  "vault_gate X s h i sf p vault =
     (case vault of
        Some ctx \<Rightarrow>
          if sf = Vault then
            rbind (refuse_if (\<not> walk_enabled s ctx) (block_msg h '': vault not enabled'')) (\<lambda>_.
            rbind (map_refusal (\<lambda>e. block_msg h ('': vault '' @ e)) (check_vault_op X (cs_republic_id s) i p ctx)) (\<lambda>_. Inr ()))
          else Inr ()
      | None \<Rightarrow> Inr ())"

lemma fold_applied:
  assumes "blk_change b = Applied i sf p"
  shows "chain_fold_one X s b vault = rbind (vault_gate X s (blk_height b) i sf p vault) (\<lambda>_.
    Inr (s\<lparr>cs_applied := upd_group sf (push_applied sf i p) (ensure_group sf (cs_applied s)),
           cs_consumed_ids := cs_consumed_ids s @ [i]\<rparr>))"
  by (simp add: chain_fold_one_def vault_gate_def assms)

lemma filter_groups_rel:
  "groups_rel Q A B \<Longrightarrow> Q sf = (=) \<Longrightarrow> filter (\<lambda>(s, _). s = sf) A = filter (\<lambda>(s, _). s = sf) B"
  unfolding groups_rel_def
proof (elim conjE)
  show "list_all2 (entry_rel Q) A B \<Longrightarrow> Q sf = (=) \<Longrightarrow> filter (\<lambda>(s, _). s = sf) A = filter (\<lambda>(s, _). s = sf) B"
    by (induction A B rule: list_all2_induct) (auto simp: entry_rel_def)
qed

lemma gate_rel:
  assumes "state_rel X hd0 k s t"
  shows "vault_gate X s h i sf p vault = vault_gate X t h i sf p vault"
proof -
  have "filter (\<lambda>(s, _). s = Organization) (cs_applied s) = filter (\<lambda>(s, _). s = Organization) (cs_applied t)"
    by (rule filter_groups_rel[of "grp_rel X hd0 k (cs_republic_id s)"]) (use assms in \<open>simp_all add: state_rel_def grp_rel_def\<close>)
  moreover have "cs_founding_features s = cs_founding_features t" "cs_republic_id s = cs_republic_id t"
    using assms by (simp_all add: state_rel_def rest_rel_def constitution_of_def)
  moreover from calculation have "walk_enabled s = walk_enabled t" by (intro ext) (simp only: walk_enabled_def)
  ultimately show ?thesis by (simp only: vault_gate_def)
qed

lemma gate_no_base:
  "vault_tagged X \<Longrightarrow> vault_gate X s h i Vault p (Some ctx) = Inr () \<Longrightarrow> vault_commitment_of p = None"
  by (auto simp: vault_gate_def rbind_eq_Inr map_refusal_def dest: checked_op_is_no_base split: sum.splits if_splits)

lemma push_rel:
  assumes "grp_rel X hd0 k rid sf g h" "sf = Memory \<Longrightarrow> not_base_entry p"
    "sf = Vault \<Longrightarrow> ck_vault k \<Longrightarrow> vault_commitment_of p = None"
  shows "grp_rel X hd0 k rid sf (push_applied sf i p g) (push_applied sf i p h)"
  using assms
  by (cases sf) (auto simp: grp_rel_def push_applied_Memory push_applied_Vault intro!: mem_rel_snoc slots_rel_snoc split: if_splits)

lemma fold_rel:
  assumes rel: "state_rel X hd0 k s t" and nb: "\<not> carries_base b" and tg: "vault_tagged X" and k: "ck_vault k = (vault \<noteq> None)"
  shows "case chain_fold_one X s b vault of
           Inl e \<Rightarrow> chain_fold_one X t b vault = Inl e
         | Inr s' \<Rightarrow> \<exists>t'. chain_fold_one X t b vault = Inr t' \<and> state_rel X hd0 k s' t'"
proof (cases "blk_change b")
  case (Applied i sf p)
  let ?G = "vault_gate X t (blk_height b) i sf p vault" and ?rid = "cs_republic_id s"
  show ?thesis
  proof (cases ?G)
    case (Inr u)
    have "vault_commitment_of p = None" if "sf = Vault" "ck_vault k"
      using gate_no_base[OF tg] Inr that k by fastforce
    then have "groups_rel (grp_rel X hd0 k ?rid) (upd_group sf (push_applied sf i p) (ensure_group sf (cs_applied s)))
        (upd_group sf (push_applied sf i p) (ensure_group sf (cs_applied t)))"
      using rel nb Applied
      by (intro groups_rel_upd groups_rel_ensure push_rel)
        (auto simp: state_rel_def grp_rel_def mem_rel_Nil slots_rel_Nil carries_base_def not_base_entry_def)
    then show ?thesis using rel Inr
      by (auto simp: fold_applied[OF Applied] gate_rel[OF rel] state_rel_def rest_rel_def constitution_of_def
          intro: sort_append_cong)
  qed (simp add: fold_applied[OF Applied] gate_rel[OF rel])
next
  case (Membership op m pk npk rl c)
  have eq: "cs_roster s = cs_roster t" "cs_anchors s = cs_anchors t" "cs_member_relays s = cs_member_relays t"
    using rel by (simp_all add: state_rel_def rest_rel_def)
  show ?thesis using rel Membership
    by (cases "apply_membership (cs_roster t) op m pk")
      (auto simp: chain_fold_one_def state_rel_def rest_rel_def constitution_of_def eq split: option.split)
qed (use rel in \<open>auto simp: chain_fold_one_def\<close>)

lemma cut_check_rel:
  assumes "walk_rel X hd0 w v"
    "verify_next X (w_head v) b (w_seen v) = Inr (hd1, c)"
    "cut_kind_of (blk_change b) = Some (up, sh, kind)" "check_cut_kind v (blk_height b) kind = Inr ()"
  shows "check_cut_content X w up sh kind held_default = check_cut_content X v up sh kind hd0"
proof -
  from verify_next_Inr[OF assms(2)] check_change_consumed[of b "w_seen v" c] assms(3)
  have "up = ch_height (w_head v)" by auto
  then have floor: "w_floor w = None" "\<exists>f. w_floor v = Some f \<and> \<not> up < f"
    using assms(1) by (auto simp: walk_rel_def not_less)
  have kind: "ck_vault kind = (w_vault w \<noteq> None)" "w_folded_cut w \<longrightarrow> ck_wiki kind"
    using assms(1,4) by (auto simp: check_cut_kind_def walk_rel_def rbind_eq_Inr)
  have "state_rel X hd0 kind (w_running w) (w_running v)"
    by (rule state_rel_mono[of X hd0 "folded_kind w"]) (use assms(1) kind in \<open>auto simp: walk_rel_def folded_kind_def\<close>)
  then have "hash_walk_state X (w_running w) up kind held_default = hash_walk_state X (w_running v) up kind hd0"
    by (simp add: hash_walk_state_def fold_cut_rel)
  then show ?thesis using floor by (auto simp: check_cut_content_def reject_if_def)
qed

lemma checks_rel:
  assumes "walk_rel X hd0 w v"
  shows "step_checks X w b held_default = step_checks X v b hd0"
proof -
  have heads: "w_head w = w_head v" "w_seen w = w_seen v" using assms(1) by (simp_all add: walk_rel_def)
  have "cs_anchors (w_running w) = cs_anchors (w_running v)" "cs_roster (w_running w) = cs_roster (w_running v)"
    using assms(1) by (auto simp: walk_rel_def state_rel_def rest_rel_def)
  then have anchor: "walk_working_anchor (w_running w) = walk_working_anchor (w_running v)"
    unfolding walk_working_anchor_def by (intro ext) (simp only:)
  have kind: "check_cut_kind w h k = check_cut_kind v h k" for h k
    using assms(1) by (simp add: walk_rel_def check_cut_kind_def)
  have cut: "(case cut_kind_of (blk_change b) of None \<Rightarrow> Inr ()
       | Some (up, sh, k) \<Rightarrow> rbind (check_cut_kind v (blk_height b) k) (\<lambda>_. check_cut_content X w up sh k held_default))
     = (case cut_kind_of (blk_change b) of None \<Rightarrow> Inr ()
       | Some (up, sh, k) \<Rightarrow> rbind (check_cut_kind v (blk_height b) k) (\<lambda>_. check_cut_content X v up sh k hd0))"
    if "verify_next X (w_head v) b (w_seen v) = Inr (hd1, c)" for hd1 c
    using cut_check_rel[OF assms that] by (auto split: option.split intro!: rbind_cong)
  show ?thesis
    unfolding step_checks_def heads anchor kind
    by (rule rbind_cong[OF refl]) (auto simp: cut split: prod.splits intro!: rbind_cong)
qed

lemma step_rel:
  assumes "walk_rel X hd0 w v" "vault_tagged X" "\<not> carries_base b"
  shows "case step X held_default w b of
           Inl e \<Rightarrow> step X hd0 v b = Inl e
         | Inr w' \<Rightarrow> \<exists>v'. step X hd0 v b = Inr v' \<and> walk_rel X hd0 w' v'"
proof (cases "step_checks X v b hd0")
  case (Inl e)
  then show ?thesis by (simp add: step_eq checks_rel[OF assms(1)])
next
  case (Inr p)
  obtain hd1 c where p: "p = (hd1, c)" by (cases p)
  have vault: "w_vault v = w_vault w" "ck_vault (folded_kind w) = (w_vault w \<noteq> None)"
    using assms(1) by (simp_all add: walk_rel_def folded_kind_def)
  have "verify_next X (w_head v) b (w_seen v) = Inr (hd1, c)" using Inr p by (simp add: step_checks_Inr)
  from verify_next_Inr[OF this] have height: "ch_height (w_head v) \<le> ch_height hd1"
    by (auto simp: word_le_nat_alt unat_Suc_u64)
  have rel: "state_rel X hd0 (folded_kind w) (w_running w) (w_running v)" using assms(1) by (simp add: walk_rel_def)
  note fr = fold_rel[OF rel assms(3,2) vault(2)]
  show ?thesis
  proof (cases "chain_fold_one X (w_running w) b (w_vault w)")
    case (Inl e)
    then show ?thesis using fr Inr p vault(1) by (simp add: step_eq checks_rel[OF assms(1)])
  next
    case (Inr r)
    with fr obtain r' where r': "chain_fold_one X (w_running v) b (w_vault w) = Inr r'" "state_rel X hd0 (folded_kind w) r r'"
      by auto
    let ?w = "after_step w b hd1 c r" and ?v = "after_step v b hd1 c r'"
    have "state_rel X hd0 (folded_kind ?w) r r'"
      by (rule state_rel_mono[OF r'(2)])
        (use assms(1) in \<open>auto simp: walk_rel_def folded_kind_def after_step_def split: option.split\<close>)
    then have "walk_rel X hd0 ?w ?v"
      using assms(1) height by (auto simp: walk_rel_def after_step_def split: option.split)
    then show ?thesis using Inr r'(1) \<open>step_checks X v b hd0 = Inr p\<close> p vault(1)
      by (simp add: step_eq checks_rel[OF assms(1)])
  qed
qed

lemma steps_rel:
  assumes "walk_rel X hd0 w v" "vault_tagged X"
    "\<not> list_ex carries_base bs"
  shows "case rfold (step X held_default) w bs of
           Inl e \<Rightarrow> rfold (step X hd0) v bs = Inl e
         | Inr w' \<Rightarrow> \<exists>v'. rfold (step X hd0) v bs = Inr v' \<and> walk_rel X hd0 w' v'"
  using assms(1,3)
proof (induction bs arbitrary: w v)
  case Nil
  then show ?case by simp
next
  case (Cons b bs)
  note one = step_rel[OF Cons.prems(1) assms(2), of b]
  show ?case
  proof (cases "step X held_default w b")
    case (Inl e)
    then show ?thesis using one Cons.prems(2) by simp
  next
    case (Inr w1)
    with one Cons.prems(2) obtain v1 where v1: "step X hd0 v b = Inr v1" "walk_rel X hd0 w1 v1" by auto
    have "\<not> list_ex carries_base bs" using Cons.prems(2) by simp
    moreover have "rfold (step X held_default) w (b # bs) = rfold (step X held_default) w1 bs"
      "rfold (step X hd0) v (b # bs) = rfold (step X hd0) v1 bs" by (simp_all add: Inr v1(1))
    ultimately show ?thesis using Cons.IH[OF v1(2) \<open>\<not> list_ex carries_base bs\<close>] by (simp only:)
  qed
qed

section \<open>The anchor\<close>

lemma walks_constitution:
  assumes "walks X bs w"
  shows "republic_id X (cs_founding_name (w_running w)) (cs_rule_m (w_running w)) (cs_rule_n (w_running w))
      (cs_founding_identities (w_running w)) = Some (cs_republic_id (w_running w))"
    and "cs_rule_m (w_running w) \<noteq> 0" "cs_rule_m (w_running w) \<le> cs_rule_n (w_running w)"
    and "unat (cs_rule_n (w_running w)) = length (cs_founding_identities (w_running w))"
    and "is_ok (check_roster_keys X (cs_rule_m (w_running w)) (cs_rule_n (w_running w))
           (cs_founding_identities (w_running w)) (cs_founding_features (w_running w)))"
proof -
  from walks_hd[OF assms] obtain g w0 where g: "genesis_walk X g = Inr w0"
    "constitution_of (w_running w) = constitution_of (w_running w0)" by blast
  from genesis_walk_Inr[OF g(1)] obtain nm rid m n ids ag rl ft hd0 where
    w0: "blk_change g = Genesis nm rid m n ids ag rl ft" "verify_genesis X g = Inr hd0"
      "w_running w0 = genesis_base nm m n ids ag rid rl ft" by auto
  from verify_genesis_Inr[OF w0(2)] w0(1,3) g(2) show
    "republic_id X (cs_founding_name (w_running w)) (cs_rule_m (w_running w)) (cs_rule_n (w_running w))
      (cs_founding_identities (w_running w)) = Some (cs_republic_id (w_running w))"
    "cs_rule_m (w_running w) \<noteq> 0" "cs_rule_m (w_running w) \<le> cs_rule_n (w_running w)"
    "unat (cs_rule_n (w_running w)) = length (cs_founding_identities (w_running w))"
    "is_ok (check_roster_keys X (cs_rule_m (w_running w)) (cs_rule_n (w_running w))
       (cs_founding_identities (w_running w)) (cs_founding_features (w_running w)))"
    by (auto simp: constitution_of_def genesis_base_def)
qed

lemma chain_fold_one_applied:
  "chain_fold_one X s b v = Inr s' \<Longrightarrow>
     cs_applied s' = (case blk_change b of
       Applied i sf p \<Rightarrow> upd_group sf (push_applied sf i p) (ensure_group sf (cs_applied s))
     | _ \<Rightarrow> cs_applied s)"
  by (cases "blk_change b") (auto simp: chain_fold_one_def rbind_eq_Inr)

lemma walks_groups_distinct: "walks X bs w \<Longrightarrow> distinct (map fst (cs_applied (w_running w)))"
proof (induction rule: walks.induct)
  case (walks_genesis g w)
  from genesis_walk_Inr[OF this] show ?case
    by (auto simp: genesis_base_def checkpoint_v7_surfaces_def)
next
  case (walks_step bs w b w')
  from chain_fold_one_applied[OF step_facts(3)[OF walks_step(2)]] walks_step.IH show ?case
    by (cases "blk_change b") (simp_all add: distinct_ensure)
qed

lemma wiki_summarize_state_fixed:
  assumes "wiki_summarize_state X s base = Inr (s', tree)"
  shows "rest_rel s s' \<and> cs_upto s' = cs_upto s \<and> cs_consumed_ids s' = cs_consumed_ids s"
  using assms by (auto simp: wiki_summarize_state_def rbind_eq_Inr rest_rel_def constitution_of_def
      split: option.splits)

text \<open>
  What a holder keeps at a cut: the folded state as its blob, and the tree and the vault base behind
  a folded cut's commitments.
\<close>

definition prune_to :: "extern \<Rightarrow> chain_walk \<Rightarrow> u64 \<Rightarrow> cut_kind \<Rightarrow> string fault + checkpoint_state \<times> folded_cut" where
  "prune_to X w up kind = fold_cut X (at_cut (w_running w) up) kind held_default"

definition kept_at :: "folded_cut \<Rightarrow> held" where
  "kept_at fc = \<lparr>held_wiki = fc_tree fc, held_vault = fc_vault fc\<rparr>"

lemma kept_wiki:
  assumes "wiki_summarize_state X s [] = Inr (s1, tree)" "distinct (map fst (cs_applied s))"
  shows "\<exists>A. s1 = s\<lparr>cs_applied := A\<rparr> \<and>
    groups_rel ((\<lambda>_. (=))(Memory := mem_rel X (case tree of None \<Rightarrow> [] | Some t \<Rightarrow> t))) (cs_applied s) A"
proof -
  have eq: "groups_rel (\<lambda>_. (=)) (cs_applied s) (cs_applied s)" using assms(2) by (simp add: groups_rel_eq)
  show ?thesis
  proof (cases "map_of (cs_applied s) Memory")
    case None
    then have "groups_rel ((\<lambda>_. (=))(Memory := R)) (cs_applied s) (cs_applied s)" for R
      using groups_rel_at[OF eq, of Memory] by auto
    then show ?thesis using assms(1) None by (intro exI[of _ "cs_applied s"]) (simp add: wiki_summarize_state_def)
  next
    case (Some g)
    from assms(1) obtain folded t rv where g: "wiki_summarize X g [] = Inr (folded, t, rv)" "tree = Some t"
      "s1 = s\<lparr>cs_applied := set_group Memory folded (cs_applied s)\<rparr>"
      by (auto simp: wiki_summarize_state_def Some rbind_eq_Inr)
    show ?thesis
      using groups_rel_set[OF eq Some, of "mem_rel X t" folded] summarize_rel[OF g(1)] g(2,3) by (auto simp: mem_rel_def)
  qed
qed

lemma kept_vault:
  assumes "vault_summarize_state X s None = Inr (s1, base)" "vault_tagged X" "groups_rel Q A (cs_applied s)" "Q Vault = (=)"
  shows "\<exists>B. s1 = s\<lparr>cs_applied := B\<rparr> \<and> groups_rel (Q(Vault := slots_rel X (Some base) (cs_republic_id s))) A B"
proof -
  from assms(1) obtain g folded where g: "map_of (cs_applied s) Vault = Some g"
    "vault_summarize X g None (cs_republic_id s) = Inr (folded, base)"
    "s1 = s\<lparr>cs_applied := set_group Vault folded (cs_applied s)\<rparr>"
    by (auto simp: vault_summarize_state_def rbind_eq_Inr split: option.splits)
  have "map_of A Vault = Some g" using groups_rel_at[OF assms(3), of Vault] g(1) assms(4) by auto
  from groups_rel_set[where R = "slots_rel X (Some base) (cs_republic_id s)", OF assms(3) this vault_summarize_resumes[OF assms(2) g(2)]]
  show ?thesis using g(3) by blast
qed

lemma prune_to_Inr:
  assumes kept: "prune_to X w up kind = Inr (blob, fc)" and tg: "vault_tagged X"
    and d: "distinct (map fst (cs_applied (w_running w)))"
  shows "\<exists>A. blob = (at_cut (w_running w) up)\<lparr>cs_applied := A\<rparr> \<and>
      groups_rel (grp_rel X (kept_at fc) kind (cs_republic_id (w_running w))) (cs_applied (w_running w)) A"
    "checkpoint_state_hash X blob = Some (fc_hash fc)" "\<not> ck_wiki kind \<Longrightarrow> held_tree (kept_at fc) = []"
proof -
  let ?s = "at_cut (w_running w) up" and ?A = "cs_applied (w_running w)" and ?rid = "cs_republic_id (w_running w)"
  from kept obtain s1 tree where
    w1: "(if ck_wiki kind then wiki_summarize_state X ?s [] else Inr (?s, None)) = Inr (s1, tree)"
    and v1: "(if ck_vault kind then rbind (vault_summarize_state X s1 None) (\<lambda>(s, b). Inr (s, Some b)) else Inr (s1, None))
        = Inr (blob, fc_vault fc)"
    and h: "checkpoint_state_hash X blob = Some (fc_hash fc)" "fc_tree fc = tree"
    by (auto simp: prune_to_def fold_cut_def rbind_eq_Inr held_default_def split del: if_split cong: if_cong)
  show "checkpoint_state_hash X blob = Some (fc_hash fc)" by (rule h)
  show "held_tree (kept_at fc) = []" if "\<not> ck_wiki kind" using w1 h(2) that by (auto simp: held_tree_def kept_at_def)
  let ?M = "if ck_wiki kind then mem_rel X (held_tree (kept_at fc)) else (=)"
  have "\<exists>A1. s1 = ?s\<lparr>cs_applied := A1\<rparr> \<and> groups_rel ((\<lambda>_. (=))(Memory := ?M)) ?A A1"
  proof (cases "ck_wiki kind")
    case True
    then show ?thesis using kept_wiki[of X ?s s1 tree] w1 d h(2) by (simp add: held_tree_def kept_at_def)
  next
    case False
    then have "s1 = ?s" using w1 by simp
    then show ?thesis using False d by (intro exI[of _ ?A]) (simp add: fun_upd_idem groups_rel_eq)
  qed
  then obtain A1 where A1: "s1 = ?s\<lparr>cs_applied := A1\<rparr>" "groups_rel ((\<lambda>_. (=))(Memory := ?M)) ?A A1" by blast
  have Q: "grp_rel X (kept_at fc) kind ?rid = ((\<lambda>_. (=))(Memory := ?M))
      (Vault := if ck_vault kind then slots_rel X (fc_vault fc) ?rid else (=))"
    by (simp add: grp_rel_def kept_at_def)
  show "\<exists>A. blob = ?s\<lparr>cs_applied := A\<rparr> \<and> groups_rel (grp_rel X (kept_at fc) kind ?rid) ?A A"
  proof (cases "ck_vault kind")
    case True
    then obtain b where b: "vault_summarize_state X s1 None = Inr (blob, b)" "fc_vault fc = Some b"
      using v1 by (auto simp: rbind_eq_Inr)
    from kept_vault[OF b(1) tg, of "(\<lambda>_. (=))(Memory := ?M)" ?A] A1
    obtain B where "blob = s1\<lparr>cs_applied := B\<rparr>"
      "groups_rel (((\<lambda>_. (=))(Memory := ?M))(Vault := slots_rel X (Some b) (cs_republic_id s1))) ?A B" by auto
    then show ?thesis unfolding Q using True A1(1) b(2) by (intro exI[of _ B]) (simp add: at_cut_def)
  next
    case False
    then have "blob = s1" using v1 by simp
    moreover have "((\<lambda>_. (=))(Memory := ?M))(Vault := (=)) = (\<lambda>_. (=))(Memory := ?M)" by (rule fun_upd_idem) simp
    ultimately show ?thesis unfolding Q using False A1 by (intro exI[of _ A1]) simp
  qed
qed

lemma pruned_state:
  assumes "prune_to X w up kind = Inr (blob, fc)" "vault_tagged X" "distinct (map fst (cs_applied (w_running w)))"
  shows "rest_rel (w_running w) blob" "cs_upto blob = up"
    "cs_consumed_ids blob = sort (cs_consumed_ids (w_running w))"
    "state_rel X (kept_at fc) kind (w_running w) blob"
proof -
  obtain A where A: "blob = (at_cut (w_running w) up)\<lparr>cs_applied := A\<rparr>"
    "groups_rel (grp_rel X (kept_at fc) kind (cs_republic_id (w_running w))) (cs_applied (w_running w)) A"
    using prune_to_Inr(1)[OF assms] by blast
  show "rest_rel (w_running w) blob" "cs_upto blob = up" "cs_consumed_ids blob = sort (cs_consumed_ids (w_running w))"
    by (simp_all add: A(1) rest_rel_def constitution_of_def at_cut_def sort_key_id_if_sorted)
  then show "state_rel X (kept_at fc) kind (w_running w) blob" using A by (simp add: state_rel_def)
qed

lemma strict_sorted_unique:
  "sorted_wrt (<) xs \<Longrightarrow> sorted_wrt (<) ys \<Longrightarrow> set xs = set (ys :: u64 list) \<Longrightarrow> xs = ys"
  using sorted_distinct_set_unique by (metis strict_sorted_iff)

lemma cut_not_membership: "cut_kind_of (blk_change c) = Some k \<Longrightarrow> applied_id c = None \<and>
   (\<forall>op m pk npk rl con. blk_change c \<noteq> Membership op m pk npk rl con)"
  by (cases "blk_change c") (auto simp: applied_id_def)

lemma cut_signers:
  assumes "cut_kind_of (blk_change c) = Some k" "approval_bytes X rid (blk_height c) (blk_change c) = Some msg"
  shows "card (voices X rid ids c) = length (valid_signers X ids msg (blk_sigs c))"
proof -
  have "{m. consenting X rid ids c m} = {}"
    using cut_not_membership[OF assms(1)] by (auto simp: consenting_def)
  then show ?thesis using assms(2) by (simp add: voices_def length_valid_signers)
qed

lemma check_founding_ok:
  assumes "walks X bs w" "constitution_of blob = constitution_of (w_running w)" "cs_roster blob \<noteq> []"
    "(w_vault w \<noteq> None) = ck_vault kind"
  shows "check_anchor_founding X blob (cs_republic_id (w_running w)) kind = Inr ()"
proof -
  have c: "cs_founding_name blob = cs_founding_name (w_running w)" "cs_rule_m blob = cs_rule_m (w_running w)"
    "cs_rule_n blob = cs_rule_n (w_running w)" "cs_republic_id blob = cs_republic_id (w_running w)"
    "cs_founding_identities blob = cs_founding_identities (w_running w)"
    "cs_founding_features blob = cs_founding_features (w_running w)"
    using assms(2) by (simp_all add: constitution_of_def)
  have keyed: "list_ex (\<lambda>i. mi_vault_pk i \<noteq> []) (cs_founding_identities blob) = ck_vault kind"
    using assms(4) walks_founding_inv[OF assms(1)] c
    by (auto simp: founding_inv_def ctx_from_founding_def list_ex_iff list_all_iff split: if_splits)
  note k = walks_constitution[OF assms(1)]
  show ?thesis
    unfolding check_anchor_founding_def Let_def keyed
    using k assms(3) by (auto simp: c is_ok_iff reject_if_def refusing_def not_less)
qed

lemma check_roster_ok:
  assumes "cs_roster blob = cs_founding_identities blob"
  shows "check_anchor_roster blob = Inr ()"
proof -
  have "rfold (\<lambda>_ e. refuse_if (\<not> founded ids e) (msg e)) () es = Inr ()" if "set es \<subseteq> set ids"
    for ids es :: "member_identity list" and msg :: "member_identity \<Rightarrow> string"
    using that by (induction es) (auto simp: founded_def list_ex_iff reject_if_def)
  then show ?thesis using assms by (simp add: check_anchor_roster_def)
qed

lemma anchor_accepts:
  assumes w: "walks X pre w" and c: "step X held_default w c = Inr w1"
    and cut: "cut_kind_of (blk_change c) = Some (up, sh, kind)"
    and kept: "prune_to X w up kind = Inr (blob, fc)" and tg: "vault_tagged X"
  shows "\<exists>v. anchor_walk X blob c (ch_republic_id (w_head w)) = Inr v \<and> walk_rel X (kept_at fc) w1 v"
proof -
  note n = next_facts[OF c] and inv = walks_founding_inv[OF w, unfolded founding_inv_def]
  have checks: "check_cut_kind w (blk_height c) kind = Inr ()" "check_cut_content X w up sh kind held_default = Inr ()"
    using step_facts(8)[OF c cut] by simp_all
  have kind: "(w_vault w \<noteq> None) = ck_vault kind" "w_folded_cut w \<longrightarrow> ck_wiki kind"
    using checks(1) by (auto simp: check_cut_kind_def rbind_eq_Inr)
  note p = pruned_state[OF kept tg walks_groups_distinct[OF w]] and q = prune_to_Inr(2,3)[OF kept tg walks_groups_distinct[OF w]]
  have hash: "fc_hash fc = sh"
    using checks(2) kept by (auto simp: check_cut_content_def rbind_eq_Inr hash_walk_state_def prune_to_def)
  have height: "blk_height c \<noteq> 0" "up = blk_height c - 1" "up = ch_height (w_head w)"
    using n check_change_consumed[of c "w_seen w" "applied_id c"] cut by auto
  have same: "constitution_of blob = constitution_of (w_running w)" "cs_roster blob = cs_roster (w_running w)"
    using p(1) by (auto simp: rest_rel_def)
  have roster: "cs_roster blob = cs_founding_identities blob" "ch_identities (w_head w) = cs_founding_identities blob"
    "ch_republic_id (w_head w) = cs_republic_id blob" "ch_rule_m (w_head w) = cs_rule_m blob"
    using same inv by (auto simp: constitution_of_def)
  have ne: "cs_roster blob \<noteq> []"
    using walks_constitution(2,3,4)[OF w] roster(1) same
    by (auto simp: constitution_of_def word_le_nat_alt) (metis unsigned_eq_0_iff le_zero_eq)
  obtain msg where msg: "approval_bytes X (cs_republic_id blob) (blk_height c) (blk_change c) = Some msg"
    using n roster(3) by (auto simp: block_hash_def block_link_bytes_def cat_Cons_Some bind_eq_Some_conv)
  have signers: "unat (cs_rule_m blob) \<le> length (valid_signers X (cs_founding_identities blob) msg (blk_sigs c))"
    using n cut_signers[OF cut msg, of "cs_founding_identities blob"] roster by simp
  have founding: "check_anchor_founding X blob (cs_republic_id blob) kind = Inr ()"
    using check_founding_ok[OF w same(1) ne kind(1)] same(1) by (simp add: constitution_of_def)
  have bh: "block_hash X (cs_republic_id blob) c = Some (ch_hash (w_head w1))" using n roster(3) by simp
  let ?v = "\<lparr>w_head = \<lparr>ch_height = blk_height c, ch_hash = ch_hash (w_head w1), ch_republic_id = cs_republic_id blob,
               ch_rule_m = cs_rule_m blob, ch_identities = cs_roster blob\<rparr>,
             w_seen = bset_of_list (cs_consumed_ids blob), w_running = blob,
             w_floor = Some (cs_upto blob), w_folded = 1, w_folded_cut = ck_wiki kind,
             w_vault = ctx_from_founding (cs_rule_m blob) (cs_founding_identities blob)\<rparr>"
  have "anchor_walk X blob c (ch_republic_id (w_head w)) = Inr ?v"
    unfolding anchor_walk_def roster(3)
    using p(2) q(1) hash height founding check_roster_ok[OF roster(1)] msg signers bh
    by (simp add: cut reject_if_def Let_def)
  moreover have "walk_rel X (kept_at fc) w1 ?v"
  proof -
    have run: "w_running w1 = w_running w"
      using step_facts(3)[OF c] chain_fold_one_neutral[OF cut] by simp
    have head: "w_head w1 = w_head ?v" using n roster by (simp add: chain_head.equality)
    have seen: "w_seen w1 = w_seen ?v"
      using walks_consumed[OF w] step_facts(4)[OF c] cut_not_membership[OF cut] p(3)
      by (auto simp: consumed_inv_def intro!: strict_sorted_unique bset_of_list_strict)
    have fcut: "w_folded_cut w1 = ck_wiki kind"
      using c kind(2) cut by (auto simp: step_Inr after_step_def)
    have vault: "w_vault w1 = w_vault w" "w_vault w1 = w_vault ?v"
      using step_facts(6)[OF c] inv same(1) by (auto simp: constitution_of_def)
    have "folded_kind w1 = kind" using fcut vault(1) kind(1) by (simp add: folded_kind_def)
    have floor: "w_floor w1 = None" using step_facts(7)[OF c] walks_position[OF w] by (simp add: position_inv_def)
    have "cs_upto blob \<le> blk_height c"
      using p(2) height n by (auto simp: word_le_nat_alt unat_Suc_u64)
    then have le: "cs_upto blob \<le> ch_height (w_head w1)" using n by simp
    show ?thesis unfolding walk_rel_def
      using run head seen fcut vault floor le p(4) q(2) \<open>folded_kind w1 = kind\<close> by auto
  qed
  ultimately show ?thesis by blast
qed

section \<open>Pruned and full holders agree\<close>

lemma walks_append:
  assumes "walks X pre w"
  shows "walk_chain X (pre @ bs) = rfold (step X held_default) w bs"
proof -
  obtain g rest where pre: "pre = g # rest" using walks_not_Nil[OF assms] by (cases pre) auto
  have "rbind (genesis_walk X g) (\<lambda>w. rfold (step X held_default) w rest) = Inr w"
    using assms by (simp add: walk_chain_walks[symmetric] pre walk_chain_def)
  then show ?thesis by (auto simp: pre walk_chain_def rfold_append rbind_eq_Inr rbind_assoc)
qed

lemma pruned_agrees:
  assumes w: "walk_chain X pre = Inr w" and c: "step X held_default w c = Inr w1"
    and cut: "cut_kind_of (blk_change c) = Some (up, sh, kind)"
    and kept: "prune_to X w up kind = Inr (blob, fc)" and tg: "vault_tagged X"
    and post: "\<not> list_ex carries_base post"
  shows "case walk_chain X (pre @ c # post) of
      Inl e \<Rightarrow> walk_suffix_chain X blob (c # post) (ch_republic_id (w_head w)) (kept_at fc) = Inl e
    | Inr u \<Rightarrow> \<exists>v. walk_suffix_chain X blob (c # post) (ch_republic_id (w_head w)) (kept_at fc) = Inr v \<and>
                 w_head v = w_head u \<and> w_seen v = w_seen u"
proof -
  have walks: "walks X pre w" using w by (simp add: walk_chain_walks)
  from anchor_accepts[OF walks c cut kept tg] obtain v where
    v: "anchor_walk X blob c (ch_republic_id (w_head w)) = Inr v" "walk_rel X (kept_at fc) w1 v" by blast
  have full: "walk_chain X (pre @ c # post) = rfold (step X held_default) w1 post"
    using walks_append[OF walks, of "c # post"] c by simp
  have suffix: "walk_suffix_chain X blob (c # post) (ch_republic_id (w_head w)) h = rfold (step X h) v post" for h
    by (simp add: walk_suffix_chain_def v(1))
  from steps_rel[OF v(2) tg post]
  show ?thesis unfolding full suffix by (auto simp: walk_rel_def split: sum.splits)
qed

end
