(* ===== verification/Chain_Demo.thy ===== *)
theory Chain_Demo
  imports Chain_Pruning
begin

text \<open>
  A small concrete chain on the demo functions of \<open>Extern\<close>: a sealed genesis of one seat, an
  applied proposal, a legacy checkpoint and a second proposal. The properties of the chain
  are exercised on it.
\<close>

definition demo_id :: member_identity where
  "demo_id = \<lparr>mi_member = ''a'', mi_identity_pk = replicate 32 (CHR ''c''), mi_nostr_pk = ''d'', mi_vault_pk = []\<rparr>"

definition demo_sigs :: "roster_attestation list" where
  "demo_sigs = [\<lparr>at_member = ''a'', at_sig = replicate 64 (CHR ''c'')\<rparr>]"

definition demo_genesis :: chain_block where
  "demo_genesis = \<lparr>blk_height = 0, blk_prev = genesis_prev,
     blk_change = Genesis ''r'' ''h'' 1 1 [demo_id] [] [] None, blk_sigs = demo_sigs\<rparr>"

definition demo_applied :: "u64 \<Rightarrow> u64 \<Rightarrow> chain_block" where
  "demo_applied h i = \<lparr>blk_height = h, blk_prev = ''h'', blk_change = Applied i Memory JNull, blk_sigs = demo_sigs\<rparr>"

definition demo_cut :: chain_block where
  "demo_cut = \<lparr>blk_height = 2, blk_prev = ''h'', blk_change = Checkpoint 1 ''h'', blk_sigs = demo_sigs\<rparr>"

definition demo_head :: "u64 \<Rightarrow> chain_head" where
  "demo_head h = \<lparr>ch_height = h, ch_hash = ''h'', ch_republic_id = ''h'', ch_rule_m = 1, ch_identities = [demo_id]\<rparr>"

definition demo_state :: "(u64 \<times> json) list \<Rightarrow> u64 list \<Rightarrow> checkpoint_state" where
  "demo_state memory consumed = \<lparr>cs_founding_name = ''r'', cs_rule_m = 1, cs_rule_n = 1,
      cs_founding_identities = [demo_id], cs_agenda = [], cs_relays = [],
      cs_founding_features = None, cs_republic_id = ''h'', cs_roster = [demo_id],
      cs_applied = [(Organization, []), (Chat, []), (Memory, memory), (Quests, []), (Vault, []), (Wallet, [])],
      cs_consumed_ids = consumed, cs_anchors = [], cs_member_relays = [], cs_upto = 0\<rparr>"

definition demo_walk :: "u64 \<Rightarrow> u64 list \<Rightarrow> (u64 \<times> json) list \<Rightarrow> nat \<Rightarrow> chain_walk" where
  "demo_walk h seen memory n = \<lparr>w_head = demo_head h, w_seen = seen, w_running = demo_state memory seen,
     w_floor = None, w_folded = n, w_folded_cut = False, w_vault = None\<rparr>"

lemma demo_extern_fields [simp]:
  "sha256 demo_extern b = ''h''" "hex_encode demo_extern b = b" "hex_decode demo_extern s = Some s"
  "vk_from_bytes demo_extern b = True" "verify_strict demo_extern pk msg sg = (sg = pk @ pk)"
  "json_to_vec demo_extern j = ''j''"
  by (simp_all add: demo_extern_def)

lemma demo_id_fields [simp]:
  "mi_member demo_id = ''a''" "mi_vault_pk demo_id = []" "mi_nostr_pk demo_id = ''d''"
  by (simp_all add: demo_id_def)

lemma content_hash_demo [simp]: "content_hash demo_extern b = ''h''"
  by (simp add: content_hash_def)

lemma identity_verify_demo: "identity_verify demo_extern (replicate 32 (CHR ''c'')) msg (replicate 64 (CHR ''c''))"
  by (simp add: identity_verify_def flip: replicate_add)

lemma demo_signers: "valid_signers demo_extern [demo_id] msg demo_sigs = [''a'']"
  using identity_verify_demo
  by (simp add: valid_signers_def demo_sigs_def demo_id_def member_of_def)

lemma put_bytes_small: "length b < 2 ^ 32 \<Longrightarrow> put_bytes b = Some (le_bytes 4 (length b) @ b)"
  by (simp add: put_bytes_def)

lemmas demo_bytes = put_bytes_small put_count_def put_count64_def cat.simps

lemma approval_demo_applied:
  "\<exists>b. approval_bytes demo_extern ''h'' h (Applied i Memory JNull) = Some b \<and> length b < 1000"
  by (simp add: approval_bytes_def demo_bytes tagged_def u64_le_def)

lemma approval_demo_cut:
  "\<exists>b. approval_bytes demo_extern ''h'' h (Checkpoint u ''h'') = Some b \<and> length b < 1000"
  by (simp add: approval_bytes_def demo_bytes tagged_def u64_le_def)

lemma approval_demo_genesis:
  "\<exists>b. approval_bytes demo_extern ''h'' h (Genesis ''r'' ''h'' 1 1 [demo_id] [] [] None) = Some b \<and> length b < 1000"
  by (simp add: approval_bytes_def roster_canonical_bytes_def roster_keyed_def roster_member_fields_def
      demo_id_def demo_bytes tagged_def u8_byte_def Let_def)

lemma block_hash_demo:
  assumes "\<exists>b. approval_bytes demo_extern ''h'' h c = Some b \<and> length b < 1000" "length p < 1000"
  shows "block_hash demo_extern ''h'' \<lparr>blk_height = h, blk_prev = p, blk_change = c, blk_sigs = demo_sigs\<rparr> = Some ''h''"
  using assms by (auto simp: block_hash_def block_link_bytes_def demo_bytes demo_sigs_def)

lemma republic_id_demo: "republic_id demo_extern ''r'' 1 1 [demo_id] = Some ''h''"
  by (simp add: republic_id_def republic_id_preimage_def demo_bytes demo_id_def Let_def)

lemma check_roster_demo: "check_roster_keys demo_extern 1 1 [demo_id] None = Inr False"
  by (simp add: check_roster_keys_def demo_id_def)

lemma demo_genesis_walk: "genesis_walk demo_extern demo_genesis = Inr (demo_walk 0 [] [] 1)"
proof -
  obtain b where b: "approval_bytes demo_extern ''h'' 0 (Genesis ''r'' ''h'' 1 1 [demo_id] [] [] None) = Some b"
    using approval_demo_genesis by blast
  have "block_hash demo_extern ''h'' demo_genesis = Some ''h''"
    unfolding demo_genesis_def by (rule block_hash_demo[OF approval_demo_genesis]) (simp add: genesis_prev_def)
  then show ?thesis
    using b by (simp add: genesis_walk_def verify_genesis_def demo_genesis_def reject_if_def refusing_def
        check_roster_demo republic_id_demo demo_signers demo_walk_def demo_head_def demo_state_def
        genesis_base_def checkpoint_v7_surfaces_def ctx_from_founding_def)
qed

lemma demo_next_applied:
  assumes "unat h < 2 ^ 64 - 1" "i \<notin> set seen"
  shows "verify_next demo_extern (demo_head h) (demo_applied (h + 1) i) seen = Inr (demo_head (h + 1), Some i)"
proof -
  obtain b where b: "approval_bytes demo_extern ''h'' (h + 1) (Applied i Memory JNull) = Some b"
    using approval_demo_applied by blast
  have "block_hash demo_extern ''h'' (demo_applied (h + 1) i) = Some ''h''"
    unfolding demo_applied_def by (rule block_hash_demo[OF approval_demo_applied]) simp
  then show ?thesis
    using assms b by (simp add: verify_next_def demo_applied_def demo_head_def reject_if_def check_change_def
        block_signers_def demo_signers)
qed

lemma demo_next_cut:
  "verify_next demo_extern (demo_head 1) demo_cut seen = Inr (demo_head 2, None)"
proof -
  obtain b where b: "approval_bytes demo_extern ''h'' 2 (Checkpoint 1 ''h'') = Some b"
    using approval_demo_cut by blast
  have "block_hash demo_extern ''h'' demo_cut = Some ''h''"
    unfolding demo_cut_def by (rule block_hash_demo[OF approval_demo_cut]) simp
  then show ?thesis
    using b by (simp add: verify_next_def demo_cut_def demo_head_def reject_if_def check_change_def
        block_signers_def demo_signers)
qed

lemma demo_fold_applied:
  "chain_fold_one demo_extern (demo_state memory seen) (demo_applied h i) None
     = Inr (demo_state (memory @ [(i, JNull)]) (seen @ [i]))"
  by (simp add: chain_fold_one_def demo_applied_def demo_state_def ensure_group_def push_applied_Memory)

lemma demo_step_applied:
  assumes "unat h < 2 ^ 64 - 1" "i \<notin> set seen" "bset_insert i seen = seen @ [i]"
  shows "step demo_extern hl (demo_walk h seen memory n) (demo_applied (h + 1) i)
     = Inr (demo_walk (h + 1) (seen @ [i]) (memory @ [(i, JNull)]) (n + 1))"
proof -
  have "step_checks demo_extern (demo_walk h seen memory n) (demo_applied (h + 1) i) hl
      = Inr (demo_head (h + 1), Some i)"
    using demo_next_applied[OF assms(1,2)]
    by (simp add: step_checks_def demo_walk_def consent_spends_def demo_applied_def refusing_def)
  then show ?thesis using assms(3)
    by (simp add: step_eq demo_walk_def demo_fold_applied after_step_def) (simp add: demo_applied_def)
qed

lemma demo_canonical:
  "checkpoint_state_hash demo_extern (at_cut (demo_state [(7, JNull)] [7]) up) = Some ''h''"
  by (simp add: checkpoint_state_hash_def checkpoint_canonical_bytes_def canonical_bytes_over_def applied_groups_def
      group_fields_def strings_run64_def roster_member_fields_def roster_keyed_def at_cut_def demo_state_def
      demo_id_def demo_bytes tagged_def u8_byte_def Let_def checkpoint_v7_surfaces_def)

definition demo_kept :: "checkpoint_state \<times> folded_cut" where
  "demo_kept = (at_cut (demo_state [(7, JNull)] [7]) 1, \<lparr>fc_tree = None, fc_vault = None, fc_hash = ''h''\<rparr>)"

lemma demo_prune:
  "prune_to demo_extern (demo_walk 1 [7] [(7, JNull)] 2) 1 \<lparr>ck_wiki = False, ck_vault = False\<rparr> = Inr demo_kept"
  by (simp add: prune_to_def fold_cut_def demo_walk_def demo_canonical demo_kept_def or_panic_def)

lemma demo_step_cut:
  "step demo_extern held_default (demo_walk 1 [7] [(7, JNull)] 2) demo_cut = Inr (demo_walk 2 [7] [(7, JNull)] 3)"
proof -
  have "step_checks demo_extern (demo_walk 1 [7] [(7, JNull)] 2) demo_cut held_default = Inr (demo_head 2, None)"
    using demo_next_cut[of "[7]"] demo_prune
    by (simp add: step_checks_def demo_walk_def consent_spends_def demo_cut_def refusing_def check_cut_kind_def
        check_cut_content_def hash_walk_state_def prune_to_def demo_kept_def reject_if_def)
  then show ?thesis
    by (simp add: step_eq demo_walk_def after_step_def chain_fold_one_def) (simp add: demo_cut_def)
qed

lemma demo_step_first:
  "step demo_extern held_default (demo_walk 0 [] [] 1) (demo_applied 1 7) = Inr (demo_walk 1 [7] [(7, JNull)] 2)"
  using demo_step_applied[of 0 7 "[]" held_default "[]" 1, simplified] by (simp flip: Suc_1)

lemma demo_step_last:
  "step demo_extern h (demo_walk 2 [7] [(7, JNull)] 3) (demo_applied 3 8)
     = Inr (demo_walk 3 [7, 8] [(7, JNull), (8, JNull)] 4)"
  using demo_step_applied[of 2 8 "[7]" h "[(7, JNull)]" 3] by simp

lemma demo_chain_one: "walk_chain demo_extern [demo_genesis, demo_applied 1 7] = Inr (demo_walk 1 [7] [(7, JNull)] 2)"
  by (simp add: walk_chain_def demo_genesis_walk demo_step_first flip: One_nat_def)

lemma demo_chain:
  "walk_chain demo_extern [demo_genesis, demo_applied 1 7, demo_cut, demo_applied 3 8]
     = Inr (demo_walk 3 [7, 8] [(7, JNull), (8, JNull)] 4)"
  by (simp add: walk_chain_def demo_genesis_walk demo_step_first demo_step_cut demo_step_last flip: One_nat_def)

section \<open>A restore\<close>

definition demo_consent :: string where
  "demo_consent = render_restore_consent_v2 \<lparr>ca_height = 1, ca_prev_anchor = ''d''\<rparr> (replicate 64 (CHR ''c''))"

definition demo_restore :: chain_block where
  "demo_restore = \<lparr>blk_height = 2, blk_prev = ''h'',
     blk_change = Membership Restored ''a'' (replicate 32 (CHR ''c'')) (Some ''e'') [] (Some demo_consent), blk_sigs = []\<rparr>"

lemma demo_consent_parses: "parse_restore_consent demo_consent = Some (ConsentV2 1 ''d'' (replicate 64 (CHR ''c'')))"
proof -
  have "is_lower_hex ''d''" "is_lower_hex (replicate 64 (CHR ''c''))"
    by (simp_all add: is_lower_hex_def is_lower_hex_char_def list_all_iff)
  then show ?thesis
    using parse_rendered_consent[of "\<lparr>ca_height = 1, ca_prev_anchor = ''d''\<rparr>"] by (simp add: demo_consent_def)
qed

lemma demo_consent_short: "length demo_consent < 1000"
  by (simp add: demo_consent_def render_restore_consent_v2_def show_nat.simps[of "Suc 0"])

lemma demo_restore_bytes:
  "\<exists>b. approval_bytes demo_extern ''h'' 2 (blk_change demo_restore) = Some b \<and> length b < 2000"
  using demo_consent_short
  by (simp add: approval_bytes_def demo_restore_def demo_bytes tagged_def u64_le_def nostr_pk_field_def enc_opt_def)

lemma demo_consent_verifies:
  "verify_restore_consent demo_extern ''h'' (replicate 32 (CHR ''c'')) 2 ''a'' (Some ''e'') [] demo_consent = Inr (KindV2 ''d'')"
  using identity_verify_demo
  by (simp add: verify_restore_consent_def demo_consent_parses restore_consent_bytes_v2_def nostr_pk_field_def
      demo_bytes restore_consent_window_def reject_if_def or_panic_def)

lemma demo_step_restore:
  "step demo_extern held_default (demo_walk 1 [7] [(7, JNull)] 2) demo_restore
     = Inr ((demo_walk 2 [7] [(7, JNull)] 3)\<lparr>w_running := (demo_state [(7, JNull)] [7])\<lparr>cs_anchors := [(''a'', ''e'')]\<rparr>\<rparr>)"
proof -
  obtain b where b: "approval_bytes demo_extern ''h'' 2 (blk_change demo_restore) = Some b" "length b < 2000"
    using demo_restore_bytes by blast
  have hash: "block_hash demo_extern ''h'' demo_restore = Some ''h''"
    using b by (simp add: block_hash_def block_link_bytes_def demo_bytes) (simp add: demo_restore_def demo_bytes)
  have "block_signers demo_extern ''h'' [demo_id] demo_restore = Inr [''a'']"
    using b(1) demo_consent_verifies
    by (simp add: block_signers_def demo_restore_def valid_signers_def or_panic_def member_of_def reject_if_def)
      (simp add: demo_id_def map_refusal_def)
  then have "verify_next demo_extern (demo_head 1) demo_restore [7] = Inr (demo_head 2, None)"
    using hash by (simp add: verify_next_def demo_head_def reject_if_def check_change_def demo_restore_def
        or_panic_def apply_membership_def member_of_def) (simp add: demo_id_def)
  then have "step_checks demo_extern (demo_walk 1 [7] [(7, JNull)] 2) demo_restore held_default = Inr (demo_head 2, None)"
    by (simp add: step_checks_def demo_walk_def consent_spends_def demo_restore_def refusing_def demo_consent_parses
        walk_working_anchor_def demo_state_def member_of_def binary_search_by_def)
  moreover have "apply_membership [demo_id] Restored ''a'' (replicate 32 (CHR ''c'')) = Inr [demo_id]"
    by (simp add: apply_membership_Inr member_of_def) (simp add: demo_id_def)
  ultimately show ?thesis
    by (simp add: step_eq demo_walk_def after_step_def chain_fold_one_def demo_state_def demo_restore_def
        upsert_sorted_def anchor_of_def relays_of_def binary_search_by_def)
qed

lemma demo_chain_restored:
  "\<exists>w. walk_chain demo_extern ([demo_genesis, demo_applied 1 7] @ [demo_restore]) = Inr w"
  using demo_step_restore by (simp add: walk_chain_def demo_genesis_walk demo_step_first flip: One_nat_def)

end
