(* ===== verification/Vault_Demo.thy ===== *)
theory Vault_Demo
  imports Chain_Demo Vault_Guards
begin

text \<open>
  A small vault republic: four seats with a threshold of two, a deposit, a cut that folds the wiki
  and the vault, and a block after it.
\<close>

lemma vault_demo_fields [simp]:
  "sha256 demo_vault_extern b = ''h''" "hex_encode demo_vault_extern b = b" "json_to_vec demo_vault_extern j = ''j''"
  "vault_to_value demo_vault_extern = demo_value"
  "vault_from_value demo_vault_extern j = (if j = demo_value (Deposit demo_deposit) then Some (Deposit demo_deposit) else None)"
  by (simp_all add: demo_vault_extern_def demo_extern_def)

lemma vault_demo_tagged: "vault_tagged demo_vault_extern"
  by (simp add: vault_tagged_def demo_value_def get_str_def str_or_default_def)

lemma vault_content_hash [simp]: "content_hash demo_vault_extern b = ''h''"
  by (simp add: content_hash_def)

definition vlt_sigs :: "roster_attestation list" where
  "vlt_sigs = map (\<lambda>c. \<lparr>at_member = [c], at_sig = replicate 128 (CHR ''c'')\<rparr>) ''abcd''"

definition vlt_block :: "u64 \<Rightarrow> chain_change \<Rightarrow> chain_block" where
  "vlt_block h c = \<lparr>blk_height = h, blk_prev = (if h = 0 then genesis_prev else ''h''), blk_change = c, blk_sigs = vlt_sigs\<rparr>"

definition vlt_genesis :: chain_block where
  "vlt_genesis = vlt_block 0 (Genesis ''r'' ''h'' 2 4 keyed_seats [] [] (Some [''vault'']))"

definition vlt_deposit :: chain_block where
  "vlt_deposit = vlt_block 1 (Applied 7 Vault (demo_value (Deposit demo_deposit)))"

definition vlt_cut :: chain_block where
  "vlt_cut = vlt_block 2 (CheckpointVault 1 ''h'' True)"

definition vlt_applied :: chain_block where
  "vlt_applied = vlt_block 3 (Applied 8 Chat JNull)"

definition vlt_head :: "u64 \<Rightarrow> chain_head" where
  "vlt_head h = \<lparr>ch_height = h, ch_hash = ''h'', ch_republic_id = ''h'', ch_rule_m = 2, ch_identities = keyed_seats\<rparr>"

definition vlt_state :: "(u64 \<times> json) list \<Rightarrow> (u64 \<times> json) list \<Rightarrow> u64 list \<Rightarrow> checkpoint_state" where
  "vlt_state chat vault consumed = \<lparr>cs_founding_name = ''r'', cs_rule_m = 2, cs_rule_n = 4,
      cs_founding_identities = keyed_seats, cs_agenda = [], cs_relays = [],
      cs_founding_features = Some [''vault''], cs_republic_id = ''h'', cs_roster = keyed_seats,
      cs_applied = [(Organization, []), (Chat, chat), (Memory, []), (Quests, []), (Vault, vault), (Wallet, [])],
      cs_consumed_ids = consumed, cs_anchors = [], cs_member_relays = [], cs_upto = 0\<rparr>"

definition vlt_walk :: "u64 \<Rightarrow> u64 list \<Rightarrow> (u64 \<times> json) list \<Rightarrow> (u64 \<times> json) list \<Rightarrow> nat \<Rightarrow> bool \<Rightarrow> chain_walk" where
  "vlt_walk h seen chat vault n fc = \<lparr>w_head = vlt_head h, w_seen = seen, w_running = vlt_state chat vault seen,
     w_floor = None, w_folded = n, w_folded_cut = fc, w_vault = Some demo_ctx\<rparr>"

lemma vlt_signers: "valid_signers demo_vault_extern keyed_seats msg vlt_sigs = [''a'', ''b'', ''c'', ''d'']"
proof -
  have "identity_verify demo_vault_extern (replicate 64 (CHR ''c'')) msg (replicate 128 (CHR ''c''))"
    by (simp add: identity_verify_def demo_vault_extern_def demo_extern_def flip: replicate_add)
  then show ?thesis
    by (simp add: valid_signers_def vlt_sigs_def keyed_seats_def keyed_seat_def member_of_def)
qed

lemma vlt_approval:
  "\<exists>b. approval_bytes demo_vault_extern ''h'' h (Applied i sf j) = Some b \<and> length b < 1000"
  "\<exists>b. approval_bytes demo_vault_extern ''h'' h (CheckpointVault u ''h'' True) = Some b \<and> length b < 1000"
  by (cases sf; simp add: approval_bytes_def demo_bytes tagged_def u64_le_def)
    (simp add: approval_bytes_def demo_bytes tagged_def u64_le_def u8_byte_def)

lemma vlt_roster_bytes:
  "\<exists>b. approval_bytes demo_vault_extern ''h'' 0 (Genesis ''r'' ''h'' 2 4 keyed_seats [] [] (Some [''vault''])) = Some b \<and> length b < 2000"
  by (simp add: approval_bytes_def roster_canonical_bytes_def roster_keyed_def roster_member_fields_def keyed_seats_def keyed_seat_def
      demo_key_def demo_bytes tagged_def u8_byte_def Let_def)

lemma vlt_block_hash:
  assumes "\<exists>b. approval_bytes demo_vault_extern ''h'' h c = Some b \<and> length b < n" "n \<le> 2000"
  shows "block_hash demo_vault_extern ''h'' (vlt_block h c) = Some ''h''"
  using assms by (auto simp: block_hash_def block_link_bytes_def vlt_block_def demo_bytes vlt_sigs_def genesis_prev_def)

lemma vlt_republic_id: "republic_id demo_vault_extern ''r'' 2 4 keyed_seats = Some ''h''"
  by (simp add: republic_id_def republic_id_preimage_def demo_bytes keyed_seats_def keyed_seat_def Let_def)

lemma vlt_ctx: "ctx_from_founding 2 keyed_seats = Some demo_ctx"
  by (simp add: ctx_from_founding_def demo_ctx_def) (simp add: keyed_seats_def keyed_seat_def demo_key_def)

lemma vlt_genesis_walk: "genesis_walk demo_vault_extern vlt_genesis = Inr (vlt_walk 0 [] [] [] 1 False)"
proof -
  obtain b where b: "approval_bytes demo_vault_extern ''h'' 0 (Genesis ''r'' ''h'' 2 4 keyed_seats [] [] (Some [''vault''])) = Some b"
    using vlt_roster_bytes by blast
  have h: "block_hash demo_vault_extern ''h'' vlt_genesis = Some ''h''"
    unfolding vlt_genesis_def by (rule vlt_block_hash[OF vlt_roster_bytes]) simp
  have n: "length keyed_seats = 4" by (simp add: keyed_seats_def)
  have "verify_genesis demo_vault_extern vlt_genesis = Inr (vlt_head 0)"
    using b h n by (simp add: verify_genesis_def vlt_genesis_def vlt_block_def reject_if_def refusing_def
        demo_roster_checked vlt_republic_id vlt_signers vlt_head_def)
  then show ?thesis
    by (simp add: genesis_walk_def vlt_genesis_def vlt_block_def vlt_walk_def vlt_state_def vlt_ctx
        genesis_base_def checkpoint_v7_surfaces_def)
qed

lemma vlt_next:
  assumes "unat h < 2 ^ 64 - 1" "\<exists>b. approval_bytes demo_vault_extern ''h'' (h + 1) c = Some b \<and> length b < 1000"
    "check_change (vlt_block (h + 1) c) seen = Inr con" "\<forall>op m pk npk rl cn. c \<noteq> Membership op m pk npk rl cn" "h + 1 \<noteq> 0"
  shows "verify_next demo_vault_extern (vlt_head h) (vlt_block (h + 1) c) seen = Inr (vlt_head (h + 1), con)"
proof -
  have "block_hash demo_vault_extern ''h'' (vlt_block (h + 1) c) = Some ''h''"
    by (rule vlt_block_hash[OF assms(2)]) simp
  moreover have "block_signers demo_vault_extern ''h'' keyed_seats (vlt_block (h + 1) c) = Inr [''a'', ''b'', ''c'', ''d'']"
    using assms(2,4) by (cases c) (auto simp: block_signers_def vlt_block_def vlt_signers)
  ultimately show ?thesis using assms(1,3-5)
    by (cases c) (simp_all add: verify_next_def vlt_head_def reject_if_def vlt_block_def)
qed

abbreviation vlt_entry :: "u64 \<times> json" where
  "vlt_entry \<equiv> (7, demo_value (Deposit demo_deposit))"

lemma vlt_op_checked:
  "check_vault_op demo_vault_extern ''h'' 7 (demo_value (Deposit demo_deposit)) demo_ctx = Inr (Deposit demo_deposit)"
  using demo_deposit_checked by (simp add: check_vault_op_def reject_if_def)

lemma vlt_fold_deposit:
  "chain_fold_one demo_vault_extern (vlt_state [] [] []) vlt_deposit (Some demo_ctx) = Inr (vlt_state [] [vlt_entry] [7])"
proof -
  have "walk_enabled (vlt_state [] [] []) demo_ctx"
    by (simp add: walk_enabled_def enabled_by_def ctx_bounds_ok_def bounds_ok_def has_vault_def vlt_state_def demo_ctx_def keyed_seats_def)
  then show ?thesis
    using vlt_op_checked
    by (simp add: chain_fold_one_def vlt_deposit_def vlt_block_def reject_if_def map_refusal_def)
      (simp add: vlt_state_def ensure_group_def push_applied_Vault)
qed

lemma vlt_step_deposit:
  "step demo_vault_extern held_default (vlt_walk 0 [] [] [] 1 False) vlt_deposit = Inr (vlt_walk 1 [7] [] [vlt_entry] 2 False)"
proof -
  have "verify_next demo_vault_extern (vlt_head 0) vlt_deposit [] = Inr (vlt_head 1, Some 7)"
    using vlt_next[of 0 "Applied 7 Vault (demo_value (Deposit demo_deposit))" "[]" "Some 7"] vlt_approval(1)
    by (simp add: vlt_deposit_def check_change_def) (simp add: vlt_block_def)
  then have "step_checks demo_vault_extern (vlt_walk 0 [] [] [] 1 False) vlt_deposit held_default = Inr (vlt_head 1, Some 7)"
    by (simp add: step_checks_def vlt_walk_def consent_spends_def refusing_def) (simp add: vlt_deposit_def vlt_block_def)
  then show ?thesis
    by (simp add: step_eq vlt_walk_def vlt_fold_deposit after_step_def) (simp add: vlt_deposit_def vlt_block_def)
qed

definition vlt_base :: vault_base where
  "vlt_base = \<lparr>vb_deposits = [\<lparr>bd_deposit = demo_deposit, bd_grants = []\<rparr>]\<rparr>"

lemma vlt_commitment: "\<exists>sz. vault_commitment demo_vault_extern vlt_base = Some (''h'', sz)"
  by (simp add: vault_commitment_def vault_base_canonical_bytes_def vlt_base_def put_base_deposit_def record_json_def
      demo_bytes Let_def tag_base_def tagged_def)

lemma vlt_slots:
  "vault_slots demo_vault_extern None ''h'' [vlt_entry] = Inr [((''a'', ''k''), \<lparr>bd_deposit = demo_deposit, bd_grants = []\<rparr>)]"
proof -
  have "vault_commitment_of (snd vlt_entry) = None" by (simp add: vault_commitment_of_def demo_value_def get_str_def)
  from vault_slots_snoc[OF this, of demo_vault_extern None "''h''" "[]"]
  show ?thesis by (simp add: vault_slots_def fold_deposit_def) (simp add: demo_deposit_def)
qed

lemma vlt_folds:
  "\<exists>v. vault_summarize demo_vault_extern [vlt_entry] None ''h'' = Inr ([v], vlt_base)"
  "\<exists>m. wiki_summarize demo_vault_extern [] [] = Inr ([m], [], 0)"
  using vlt_commitment
  by (auto simp: vault_summarize_slots vlt_slots vlt_base_def)
    (simp add: wiki_summarize_def wiki_summary_empty_def wiki_commitment_def wiki_base_canonical_bytes_def demo_bytes wiki_base_tag_def)

lemma vlt_state_hash:
  "checkpoint_state_hash demo_vault_extern ((at_cut (vlt_state chat vault [7]) 1)\<lparr>cs_applied :=
     [(Organization, []), (Chat, []), (Memory, [m]), (Quests, []), (Vault, [v]), (Wallet, [])]\<rparr>) = Some ''h''"
  by (cases m; cases v)
    (simp add: checkpoint_state_hash_def checkpoint_canonical_bytes_def canonical_bytes_over_def applied_groups_def
      group_fields_def strings_run64_def roster_member_fields_def roster_keyed_def at_cut_def vlt_state_def
      keyed_seats_def keyed_seat_def demo_key_def demo_bytes tagged_def u8_byte_def Let_def checkpoint_v7_surfaces_def)

lemma vlt_prune:
  "\<exists>blob. prune_to demo_vault_extern (vlt_walk 1 [7] [] [vlt_entry] 2 False) 1 \<lparr>ck_wiki = True, ck_vault = True\<rparr>
     = Inr (blob, \<lparr>fc_tree = Some [], fc_vault = Some vlt_base, fc_hash = ''h''\<rparr>)"
proof -
  obtain v m where v: "vault_summarize demo_vault_extern [vlt_entry] None ''h'' = Inr ([v], vlt_base)"
    and m: "wiki_summarize demo_vault_extern [] [] = Inr ([m], [], 0)" using vlt_folds by auto
  let ?s = "at_cut (vlt_state [] [vlt_entry] [7]) 1"
  have w: "wiki_summarize_state demo_vault_extern ?s [] = Inr (?s\<lparr>cs_applied :=
      [(Organization, []), (Chat, []), (Memory, [m]), (Quests, []), (Vault, [vlt_entry]), (Wallet, [])]\<rparr>, Some [])"
    using m by (simp add: wiki_summarize_state_def) (simp add: vlt_state_def at_cut_def)
  have "vault_summarize_state demo_vault_extern (?s\<lparr>cs_applied :=
      [(Organization, []), (Chat, []), (Memory, [m]), (Quests, []), (Vault, [vlt_entry]), (Wallet, [])]\<rparr>) None = Inr (?s\<lparr>cs_applied :=
      [(Organization, []), (Chat, []), (Memory, [m]), (Quests, []), (Vault, [v]), (Wallet, [])]\<rparr>, vlt_base)"
    using v by (simp add: vault_summarize_state_def vlt_state_def at_cut_def)
  with w vlt_state_hash show ?thesis
    by (simp add: prune_to_def fold_cut_def held_default_def vlt_walk_def or_panic_def)
qed

lemma vlt_step_cut:
  "step demo_vault_extern held_default (vlt_walk 1 [7] [] [vlt_entry] 2 False) vlt_cut = Inr (vlt_walk 2 [7] [] [vlt_entry] 3 True)"
proof -
  let ?w = "vlt_walk 1 [7] [] [vlt_entry] 2 False"
  have v: "verify_next demo_vault_extern (vlt_head 1) vlt_cut [7] = Inr (vlt_head 2, None)"
    using vlt_next[of 1 "CheckpointVault 1 ''h'' True" "[7]" None] vlt_approval(2)
    by (simp add: vlt_cut_def check_change_def) (simp add: vlt_block_def)
  obtain blob where p: "prune_to demo_vault_extern ?w 1 \<lparr>ck_wiki = True, ck_vault = True\<rparr>
     = Inr (blob, \<lparr>fc_tree = Some [], fc_vault = Some vlt_base, fc_hash = ''h''\<rparr>)" using vlt_prune by blast
  have k: "check_cut_kind ?w 2 \<lparr>ck_wiki = True, ck_vault = True\<rparr> = Inr ()"
    by (simp add: check_cut_kind_def vlt_walk_def reject_if_def)
  have c: "check_cut_content demo_vault_extern ?w 1 ''h'' \<lparr>ck_wiki = True, ck_vault = True\<rparr> held_default = Inr ()"
    using p by (simp add: check_cut_content_def hash_walk_state_def prune_to_def reject_if_def) (simp add: vlt_walk_def)
  have b: "blk_change vlt_cut = CheckpointVault 1 ''h'' True" "blk_height vlt_cut = 2"
    by (simp_all add: vlt_cut_def vlt_block_def)
  have "step_checks demo_vault_extern ?w vlt_cut held_default = Inr (vlt_head 2, None)"
    using v k c by (simp add: step_checks_def b consent_spends_def refusing_def) (simp add: vlt_walk_def)
  then show ?thesis
    by (simp add: step_eq after_step_def chain_fold_one_def b) (simp add: vlt_walk_def)
qed

lemma vlt_step_last:
  "step demo_vault_extern held_default (vlt_walk 2 [7] [] [vlt_entry] 3 True) vlt_applied
     = Inr (vlt_walk 3 [7, 8] [(8, JNull)] [vlt_entry] 4 True)"
proof -
  let ?w = "vlt_walk 2 [7] [] [vlt_entry] 3 True"
  have v: "verify_next demo_vault_extern (vlt_head 2) vlt_applied [7] = Inr (vlt_head 3, Some 8)"
    using vlt_next[of 2 "Applied 8 Chat JNull" "[7]" "Some 8"] vlt_approval(1)
    by (simp add: vlt_applied_def check_change_def) (simp add: vlt_block_def)
  have b: "blk_change vlt_applied = Applied 8 Chat JNull" "blk_height vlt_applied = 3"
    by (simp_all add: vlt_applied_def vlt_block_def)
  have "chain_fold_one demo_vault_extern (vlt_state [] [vlt_entry] [7]) vlt_applied (Some demo_ctx)
      = Inr (vlt_state [(8, JNull)] [vlt_entry] [7, 8])"
    by (simp add: chain_fold_one_def b) (simp add: vlt_state_def ensure_group_def push_applied_def applied_lww_slot_def)
  moreover have "step_checks demo_vault_extern ?w vlt_applied held_default = Inr (vlt_head 3, Some 8)"
    using v by (simp add: step_checks_def b consent_spends_def refusing_def) (simp add: vlt_walk_def)
  ultimately show ?thesis by (simp add: step_eq vlt_walk_def after_step_def b)
qed

lemma vlt_chain:
  "walk_chain demo_vault_extern [vlt_genesis, vlt_deposit] = Inr (vlt_walk 1 [7] [] [vlt_entry] 2 False)"
  "walk_chain demo_vault_extern ([vlt_genesis, vlt_deposit] @ vlt_cut # [vlt_applied])
     = Inr (vlt_walk 3 [7, 8] [(8, JNull)] [vlt_entry] 4 True)"
  by (simp_all add: walk_chain_def vlt_genesis_walk vlt_step_deposit vlt_step_cut vlt_step_last flip: One_nat_def)

end
