(* ===== verification/Chain_Props.thy ===== *)
theory Chain_Props
  imports Vault_Demo
begin

text \<open>
  The guarantees of a verified chain, stated on the verifier's own results and evaluated on
  the chain of \<open>Chain_Demo\<close>: who approved, what a position fixes, what the walk's state
  means, and what a refused block leaves behind.
\<close>

section \<open>Approval\<close>

text \<open>C1: on a chain the verifier accepts, every block after the genesis carries the voices
  of at least \<open>m\<close> different seats of the founding roster: members whose signature over the
  republic id, the height and the change verifies, or the returning seat's own consent.\<close>
theorem every_block_has_a_quorum:
  assumes "walk_chain X bs = Inr w" "b \<in> set (tl bs)"
  shows "unat (ch_rule_m (w_head w)) \<le> card (voices X (ch_republic_id (w_head w)) (ch_identities (w_head w)) b) \<and>
    voices X (ch_republic_id (w_head w)) (ch_identities (w_head w)) b \<subseteq> mi_member ` set (ch_identities (w_head w))"
  using assms walks_approved voices_members by (simp add: walk_chain_walks)

theorem every_block_has_a_quorum_witness:
  "1 \<le> card (voices demo_extern ''h'' [demo_id] (demo_applied 1 7))"
  using every_block_has_a_quorum[OF demo_chain_one, of "demo_applied 1 7"] by (simp add: demo_walk_def demo_head_def)

text \<open>C12: the first block of an accepted chain is a genesis at height 0 over the fixed
  predecessor, every founding seat has signed exactly its roster bytes, the seats have
  different names, \<open>1 \<le> m \<le> n\<close>, \<open>n\<close> is the number of seats, and the republic id is the one
  that the founding table recomputes to.\<close>
theorem genesis_sealed_by_every_founder:
  assumes "walk_chain X bs = Inr w"
  shows "\<exists>g rest nm m n ids ag rl ft msg. bs = g # rest \<and>
    blk_change g = Genesis nm (ch_republic_id (w_head w)) m n ids ag rl ft \<and>
    blk_height g = 0 \<and> blk_prev g = genesis_prev \<and> 0 < m \<and> m \<le> n \<and> unat n = length ids \<and>
    m = ch_rule_m (w_head w) \<and> ids = ch_identities (w_head w) \<and>
    republic_id X nm m n ids = Some (ch_republic_id (w_head w)) \<and>
    roster_canonical_bytes (ch_republic_id (w_head w)) m n ids ag rl ft = Some msg \<and>
    distinct (map mi_member ids) \<and> list_all (\<lambda>i. signed_by X ids msg (blk_sigs g) (mi_member i)) ids"
proof -
  from walks_genesis_head[of X bs w] assms obtain g rest hd0 where g: "bs = g # rest" "verify_genesis X g = Inr hd0"
    "ch_republic_id (w_head w) = ch_republic_id hd0" "ch_rule_m (w_head w) = ch_rule_m hd0"
    "ch_identities (w_head w) = ch_identities hd0"
    by (auto simp: walk_chain_walks)
  from verify_genesis_Inr[OF g(2)] obtain nm rid m n ids ag rl ft msg where
    v: "blk_change g = Genesis nm rid m n ids ag rl ft" "blk_height g = 0" "blk_prev g = genesis_prev" "m \<noteq> 0"
      "m \<le> n" "unat n = length ids" "republic_id X nm m n ids = Some rid"
      "approval_bytes X rid 0 (blk_change g) = Some msg" "length (valid_signers X ids msg (blk_sigs g)) = length ids"
      "ch_republic_id hd0 = rid" "ch_rule_m hd0 = m" "ch_identities hd0 = ids"
    by blast
  then have "roster_canonical_bytes rid m n ids ag rl ft = Some msg" by (simp add: approval_bytes_def)
  moreover have "0 < m" using v(4) by (simp add: word_neq_0_conv)
  ultimately show ?thesis using g v full_signatures[OF v(9)] by (auto simp: list_all_iff)
qed

theorem genesis_sealed_by_every_founder_witness:
  "\<exists>msg. roster_canonical_bytes ''h'' 1 1 [demo_id] [] [] None = Some msg \<and>
     signed_by demo_extern [demo_id] msg demo_sigs ''a''"
  using genesis_sealed_by_every_founder[OF demo_chain_one]
  by (auto simp: demo_walk_def demo_head_def demo_genesis_def)

section \<open>Position\<close>

text \<open>The blocks of an accepted chain have the heights 0, 1, 2, ... without a gap or a
  wrap-around, each block names the hash of its predecessor, and the head is the height and
  the hash of the last block.\<close>
theorem blocks_are_linked:
  assumes "walk_chain X bs = Inr w"
  shows "(\<forall>i < length bs. unat (blk_height (bs ! i)) = i) \<and>
    (\<forall>i. Suc i < length bs \<longrightarrow> block_hash X (ch_republic_id (w_head w)) (bs ! i) = Some (blk_prev (bs ! Suc i))) \<and>
    unat (ch_height (w_head w)) + 1 = length bs \<and>
    block_hash X (ch_republic_id (w_head w)) (last bs) = Some (ch_hash (w_head w))"
  using walks_position[of X bs w] assms by (simp add: walk_chain_walks position_inv_def linked_def)

definition same_block :: "extern \<Rightarrow> string \<Rightarrow> chain_block \<Rightarrow> chain_block \<Rightarrow> bool" where
  "same_block X rid a b \<longleftrightarrow>
     blk_height a = blk_height b \<and> blk_prev a = blk_prev b \<and>
     approval_bytes X rid (blk_height a) (blk_change a) = approval_bytes X rid (blk_height b) (blk_change b) \<and>
     sort (map (\<lambda>s. (at_member s, at_sig s)) (blk_sigs a)) = sort (map (\<lambda>s. (at_member s, at_sig s)) (blk_sigs b))"

definition hash_collides :: "extern \<Rightarrow> string \<Rightarrow> chain_block \<Rightarrow> chain_block \<Rightarrow> bool" where
  "hash_collides X rid a b \<longleftrightarrow>
     block_link_bytes X rid a \<noteq> block_link_bytes X rid b \<and> block_hash X rid a = block_hash X rid b"

lemma same_hash_same_block:
  assumes "block_hash X rid a = Some h" "block_hash X rid b = Some h" "\<not> hash_collides X rid a b"
  shows "same_block X rid a b"
  using assms block_link_inj[of X rid a _ b]
  by (auto simp: block_hash_def hash_collides_def same_block_def)

text \<open>C6: the head hash fixes the whole history: two accepted chains of one republic with
  the same head hash have the same length and, block by block, the same height, predecessor,
  signed bytes and set of signatures - or two of their blocks are a collision of the hash
  function on different link bytes.\<close>
theorem head_hash_fixes_history:
  assumes "walk_chain X as = Inr u" "walk_chain X bs = Inr v" "ch_republic_id (w_head u) = ch_republic_id (w_head v)"
    "ch_hash (w_head u) = ch_hash (w_head v)"
  shows "list_all2 (same_block X (ch_republic_id (w_head v))) as bs \<or>
    (\<exists>a \<in> set as. \<exists>b \<in> set bs. hash_collides X (ch_republic_id (w_head v)) a b)"
proof (rule disjCI)
  let ?rid = "ch_republic_id (w_head v)"
  assume "\<not> (\<exists>a \<in> set as. \<exists>b \<in> set bs. hash_collides X ?rid a b)"
  then have free: "\<not> hash_collides X ?rid (as ! i) (bs ! j)" if "i < length as" "j < length bs" for i j
    using that by simp
  have pu: "position_inv X as u" and pv: "position_inv X bs v"
    using assms(1,2) walks_position by (simp_all add: walk_chain_walks)
  then have ne: "as \<noteq> []" "bs \<noteq> []" by (auto simp: position_inv_def)
  have "same_block X ?rid (last as) (last bs)"
    using pu pv assms(3,4) free[of "length as - 1" "length bs - 1"] ne
    by (intro same_hash_same_block) (auto simp: position_inv_def last_conv_nth)
  then have len: "length as = length bs" and lst: "same_block X ?rid (last as) (last bs)"
    using pu pv ne by (auto simp: position_inv_def linked_def same_block_def last_conv_nth)
      (metis One_nat_def diff_less length_greater_0_conv lessI Suc_pred)
  have "same_block X ?rid (as ! i) (bs ! i)" if "i \<le> length bs - 1" for i
    using that
  proof (induction i rule: inc_induct)
    case base
    then show ?case using lst len ne by (simp add: last_conv_nth)
  next
    case (step i)
    then have i: "Suc i < length as" "Suc i < length bs" using len by simp_all
    show ?case
      using pu pv i free[of i i] assms(3) step.IH
      by (intro same_hash_same_block) (auto simp: position_inv_def linked_def same_block_def)
  qed
  then show "list_all2 (same_block X ?rid) as bs"
    using len ne by (auto simp: list_all2_conv_all_nth)
qed

theorem head_hash_fixes_history_witness:
  "list_all2 (same_block demo_extern ''h'') [demo_genesis, demo_applied 1 7] [demo_genesis, demo_applied 1 7] \<or>
   (\<exists>a \<in> set [demo_genesis, demo_applied 1 7]. \<exists>b \<in> set [demo_genesis, demo_applied 1 7].
      hash_collides demo_extern ''h'' a b)"
  using head_hash_fixes_history[OF demo_chain_one demo_chain_one refl refl] by (simp add: demo_walk_def demo_head_def)

text \<open>C13: approval bytes are bound to their position, for every change but a genesis: two changes other
  than a genesis have the same approval bytes only in the same republic, at the same height, and when they
  are the same change up to the JSON rendering of the payload. So a signature given for one block
  never counts for another. (A genesis is signed over its roster, which names no height.)\<close>
theorem approvals_are_position_bound:
  assumes "approval_bytes X rid h c = Some b" "approval_bytes X rid' h' d = Some b" "\<not> is_Genesis c" "\<not> is_Genesis d"
  shows "rid = rid' \<and> h = h' \<and> same_signed X c d"
  using approval_inj[OF assms] .

theorem approvals_are_position_bound_witness:
  "approval_bytes demo_extern ''h'' 1 (Checkpoint 1 ''h'') \<noteq> approval_bytes demo_extern ''h'' 2 (Checkpoint 1 ''h'')"
proof -
  obtain b where b: "approval_bytes demo_extern ''h'' 1 (Checkpoint 1 ''h'') = Some b" using approval_demo_cut by blast
  show ?thesis
    using approvals_are_position_bound[OF b, of "''h''" 2 "Checkpoint 1 ''h''"] b by auto
qed

text \<open>What a member signs for a change, for the founding roster, and as a restore
  consent of either version starts with different tags: bytes signed in one role never
  verify in another.\<close>
theorem signed_roles_are_separate:
  assumes "approval_bytes X rid h c = Some a" "restore_consent_bytes rid' m pk npk = Some v1"
    "restore_consent_bytes_v2 rid'' m' pk' npk' rs anchor_h prev = Some v2"
    "approval_bytes X rid3 h3 d = Some a'" "is_Genesis c \<noteq> is_Genesis d"
  shows "a \<noteq> v1 \<and> a \<noteq> v2 \<and> v1 \<noteq> v2 \<and> a \<noteq> a'"
proof -
  obtain t r where a:
    "t \<in> {''molt-chain-change-v2'', ''molt-roster-v4'', ''molt-roster-v5'', ''molt-roster-v6''}"
    "a = tagged t @ r" "is_Genesis c \<longleftrightarrow> t \<noteq> ''molt-chain-change-v2''"
    using approval_bytes_tag[OF assms(1)] by (elim exE conjE) (erule (2) that)
  obtain t' r' where a':
    "t' \<in> {''molt-chain-change-v2'', ''molt-roster-v4'', ''molt-roster-v5'', ''molt-roster-v6''}"
    "a' = tagged t' @ r'" "is_Genesis d \<longleftrightarrow> t' \<noteq> ''molt-chain-change-v2''"
    using approval_bytes_tag[OF assms(4)] by (elim exE conjE) (erule (2) that)
  obtain r1 where v1: "v1 = tagged ''molt-restore-consent-v1'' @ r1"
    using restore_consent_v1_tag[OF assms(2)] by (elim exE) (erule that)
  obtain r2 where v2: "v2 = tagged ''molt-restore-consent-v2'' @ r2"
    using restore_consent_v2_tag[OF assms(3)] by (elim exE) (erule that)
  have free: "CHR 0x00 \<notin> set t" using a(1) by (elim insertE emptyE) simp_all
  have free': "CHR 0x00 \<notin> set t'" using a'(1) by (elim insertE emptyE) simp_all
  have differ1: "t \<noteq> ''molt-restore-consent-v1''" using a(1) by (elim insertE emptyE) simp_all
  have differ2: "t \<noteq> ''molt-restore-consent-v2''" using a(1) by (elim insertE emptyE) simp_all
  have differ': "t \<noteq> t'" using a(3) a'(3) assms(5) by argo
  have "a \<noteq> v1" unfolding a(2) v1 by (rule tagged_neq[OF free _ differ1]) simp
  moreover have "a \<noteq> v2" unfolding a(2) v2 by (rule tagged_neq[OF free _ differ2]) simp
  moreover have "v1 \<noteq> v2" unfolding v1 v2 by (rule tagged_neq) simp_all
  moreover have "a \<noteq> a'" unfolding a(2) a'(2) by (rule tagged_neq[OF free free' differ'])
  ultimately show ?thesis by (intro conjI)
qed

theorem signed_roles_are_separate_witness:
  "\<exists>a v1 v2. approval_bytes demo_extern ''h'' 1 (Checkpoint 1 ''h'') = Some a \<and>
     restore_consent_bytes ''h'' ''a'' ''k'' ''n'' = Some v1 \<and>
     restore_consent_bytes_v2 ''h'' ''a'' ''k'' ''n'' [] 1 ''p'' = Some v2 \<and> a \<noteq> v1 \<and> a \<noteq> v2 \<and> v1 \<noteq> v2"
proof -
  obtain a where a: "approval_bytes demo_extern ''h'' 1 (Checkpoint 1 ''h'') = Some a" using approval_demo_cut by blast
  obtain g where g: "approval_bytes demo_extern ''h'' 0 (Genesis ''r'' ''h'' 1 1 [demo_id] [] [] None) = Some g"
    using approval_demo_genesis by blast
  obtain v1 where v1: "restore_consent_bytes ''h'' ''a'' ''k'' ''n'' = Some v1"
    by (simp add: restore_consent_bytes_def nostr_pk_field_def demo_bytes)
  obtain v2 where v2: "restore_consent_bytes_v2 ''h'' ''a'' ''k'' ''n'' [] 1 ''p'' = Some v2"
    by (simp add: restore_consent_bytes_v2_def nostr_pk_field_def demo_bytes)
  show ?thesis using a v1 v2 signed_roles_are_separate[OF a v1 v2 g] by simp
qed

section \<open>State\<close>

text \<open>C16: no proposal is applied twice on an accepted chain, and the ids the walk has seen
  are exactly the ids of the applied blocks.\<close>
theorem proposals_apply_once:
  assumes "walk_chain X bs = Inr w"
  shows "distinct (applied_ids bs) \<and> set (w_seen w) = set (applied_ids bs)"
  using walks_consumed[of X bs w] assms by (simp add: walk_chain_walks consumed_inv_def)

theorem proposals_apply_once_witness: "distinct (applied_ids [demo_genesis, demo_applied 1 7])"
  using proposals_apply_once[OF demo_chain_one] by simp

text \<open>C17: the constitution never moves: the name, the threshold, the founding table, the
  agenda, the relays and the features that the projection carries, and the roster and
  threshold the verifier counts with, are those of the genesis block at every height.\<close>
theorem constitution_is_immutable:
  assumes "walk_chain X (g # rest) = Inr w"
  shows "\<exists>nm rid m n ids ag rl ft. blk_change g = Genesis nm rid m n ids ag rl ft \<and>
    constitution_of (w_running w) = (nm, m, n, ids, ag, rl, ft, rid) \<and> cs_roster (w_running w) = ids \<and>
    ch_identities (w_head w) = ids \<and> ch_rule_m (w_head w) = m \<and> ch_republic_id (w_head w) = rid"
proof -
  have w: "walks X (g # rest) w" using assms by (simp add: walk_chain_walks)
  obtain w0 where g: "genesis_walk X g = Inr w0" "constitution_of (w_running w) = constitution_of (w_running w0)"
    using walks_hd[OF w] by auto
  from genesis_walk_Inr[OF g(1)] g(2) walks_founding_inv[OF w] show ?thesis
    by (auto simp: founding_inv_def constitution_of_def genesis_base_def)
qed

theorem constitution_is_immutable_witness:
  "constitution_of (demo_state [(7, JNull)] [7]) = (''r'', 1, 1, [demo_id], [], [], None, ''h'')"
  using constitution_is_immutable[OF demo_chain_one] by (auto simp: demo_genesis_def demo_walk_def)

text \<open>C18: the projection the walk carries block by block is the one a fold over the whole
  chain computes at the head: the state a holder signs at a cut does not depend on how the
  blocks arrived.\<close>
theorem running_state_is_the_fold:
  assumes "walk_chain X bs = Inr w"
  shows "checkpoint_state_of X bs (ch_height (w_head w)) = Inr (at_cut (w_running w) (ch_height (w_head w)))"
  using walks_checkpoint_state[of X bs w] assms by (simp add: walk_chain_walks)

theorem running_state_is_the_fold_witness:
  "checkpoint_state_of demo_extern [demo_genesis, demo_applied 1 7] 1 = Inr (at_cut (demo_state [(7, JNull)] [7]) 1)"
  using running_state_is_the_fold[OF demo_chain_one] by (simp add: demo_walk_def demo_head_def)

text \<open>C40: the sorted association lists of the projection implement the chain's maps: a
  member's working anchor and declared relays are those of the last membership block that
  names some.\<close>
theorem anchors_are_last_wins:
  assumes "walk_chain X bs = Inr w"
  shows "bt_get (cs_anchors (w_running w)) = working_anchors bs \<and>
    bt_get (cs_member_relays (w_running w)) = declared_relays bs \<and>
    walk_working_anchor (w_running w) m = (case working_anchors bs m of Some pk \<Rightarrow> pk
      | None \<Rightarrow> (case member_of (ch_identities (w_head w)) m of None \<Rightarrow> [] | Some i \<Rightarrow> mi_nostr_pk i))"
proof -
  have w: "walks X bs w" using assms by (simp add: walk_chain_walks)
  show ?thesis
    using walks_anchors[OF w] walks_founding_inv[OF w] walk_working_anchor_eq[of "w_running w" m]
    by (simp add: anchors_inv_def founding_inv_def split: option.split)
qed

theorem anchors_are_last_wins_witness: "walk_working_anchor (demo_state [(7, JNull)] [7]) ''a'' = ''d''"
  using anchors_are_last_wins[OF demo_chain_one, of "''a''"]
  by (simp add: demo_walk_def demo_head_def working_anchors_def anchor_of_def demo_genesis_def demo_applied_def
      member_of_def demo_id_def)

section \<open>Growth\<close>

text \<open>A block extends the walk or changes nothing: when a step fails, the walk the code
  leaves behind is the walk before it.\<close>
theorem refused_block_changes_nothing:
  "case walk_step X w b h of (w', Inl e) \<Rightarrow> w' = w | (w', Inr _) \<Rightarrow> step X h w b = Inr w'"
  using chain_fold_one_neutral[of b _ X "w_running w" "w_vault w"]
  by (auto simp: step_def walk_step_def Let_def split: sum.splits option.splits prod.splits)

text \<open>Verifying block by block is verifying the whole chain: the walk of a longer chain
  is the walk of the shorter one advanced by the new blocks, with the same verdict, and a
  walk describes exactly the chain it was built from.\<close>
theorem incremental_walk_is_whole_walk:
  assumes "walk_chain X bs = Inr w"
  shows "walk_chain X (bs @ new) = rfold (step X held_default) w new \<and> describes X w bs None = Some True"
  using walks_append[of X bs w new] walks_position[of X bs w] assms
  by (simp add: walk_chain_walks position_inv_def describes_def) (metis walks_not_Nil)

text \<open>C5: pruning is invisible. A holder that kept only a checkpoint blob, the bases its cut commits to
  and the blocks from the cut on reaches the same verdict (the same error, or the same head and the
  same consumed ids) as a holder of the whole chain, on every continuation, for every kind of cut:
  legacy cuts, cuts that fold the wiki, and the cuts of a vault republic. The blocks after the cut
  carry no fabricated wiki fold record on the memory surface, which the propose gate never admits;
  the codec of vault records writes the tags \<open>serde\<close> documents (\<open>vault_tagged\<close>).\<close>
theorem pruned_holder_agrees:
  assumes "walk_chain X pre = Inr w" "step X held_default w c = Inr w1"
    "cut_kind_of (blk_change c) = Some (up, sh, kind)" "prune_to X w up kind = Inr (blob, fc)" "vault_tagged X"
    "\<not> list_ex carries_base post"
  shows "case walk_chain X (pre @ c # post) of
      Inl e \<Rightarrow> walk_suffix_chain X blob (c # post) (ch_republic_id (w_head w)) (kept_at fc) = Inl e
    | Inr u \<Rightarrow> \<exists>v. walk_suffix_chain X blob (c # post) (ch_republic_id (w_head w)) (kept_at fc) = Inr v \<and>
                 w_head v = w_head u \<and> w_seen v = w_seen u"
  by (rule pruned_agrees[OF assms])

theorem pruned_holder_agrees_witness:
  "\<exists>blob v. walk_suffix_chain demo_vault_extern blob [vlt_cut, vlt_applied] ''h''
     \<lparr>held_wiki = Some [], held_vault = Some vlt_base\<rparr> = Inr v \<and> w_head v = vlt_head 3 \<and> w_seen v = [7, 8]"
proof -
  obtain blob where p: "prune_to demo_vault_extern (vlt_walk 1 [7] [] [vlt_entry] 2 False) 1 \<lparr>ck_wiki = True, ck_vault = True\<rparr>
     = Inr (blob, \<lparr>fc_tree = Some [], fc_vault = Some vlt_base, fc_hash = ''h''\<rparr>)" using vlt_prune by blast
  have cut: "cut_kind_of (blk_change vlt_cut) = Some (1, ''h'', \<lparr>ck_wiki = True, ck_vault = True\<rparr>)"
    by (simp add: vlt_cut_def vlt_block_def)
  have post: "\<not> list_ex carries_base [vlt_applied]"
    by (simp add: carries_base_def vlt_applied_def vlt_block_def)
  show ?thesis
    using pruned_holder_agrees[OF vlt_chain(1) vlt_step_cut cut p vault_demo_tagged post] unfolding vlt_chain(2)
    by (auto simp: vlt_walk_def kept_at_def) (auto simp: vlt_head_def)
qed

section \<open>Restore consents\<close>

text \<open>A version 2 consent has one spelling: the parser accepts a string as the consent of
  a height, a previous anchor and a signature exactly when it is the printed form of these
  and both hex fields are lowercase hex with a signature present.\<close>
theorem consent_has_one_spelling:
  "parse_restore_consent s = Some (ConsentV2 h prev sg) \<longleftrightarrow>
     s = render_restore_consent_v2 \<lparr>ca_height = h, ca_prev_anchor = prev\<rparr> sg
     \<and> is_lower_hex prev \<and> is_lower_hex sg \<and> sg \<noteq> []"
  using parsed_consent_canonical[of s h prev sg]
    parse_rendered_consent[of "\<lparr>ca_height = h, ca_prev_anchor = prev\<rparr>" sg] by auto

text \<open>C19: a version 2 consent is spent by the restore that carries it: when the last block of an
  accepted chain restored a seat on a version 2 consent and moved its working anchor away
  from the one the consent names, no following block can carry that consent again. (A version 1
  consent names no anchor, and the rule does not bind it.)\<close>
theorem consent_is_spent_once:
  assumes "walk_chain X (bs @ [b]) = Inr w"
    "blk_change b = Membership Restored m pk (Some npk) rl (Some consent)" "npk \<noteq> []"
    "parse_restore_consent consent = Some (ConsentV2 h prev sg)" "npk \<noteq> prev"
    "blk_change b' = Membership op' m pk' npk' rl' (Some consent)"
  shows "\<exists>e. step X held_default w b' = Inl e"
proof (cases "step X held_default w b'")
  case (Inr w')
  have w: "walks X (bs @ [b]) w" using assms(1) by (simp add: walk_chain_walks)
  have "working_anchors (bs @ [b]) m = Some npk"
    using assms(2,3) by (simp add: working_anchors_def anchor_of_def)
  then have "walk_working_anchor (w_running w) m = npk"
    using walks_anchors[OF w] walk_working_anchor_eq[of "w_running w" m] by (simp add: anchors_inv_def)
  then show ?thesis using step_facts(2)[OF Inr] assms(4-6) by (auto simp: consent_spends_def)
qed simp

theorem consent_is_spent_once_witness:
  "\<exists>w. walk_chain demo_extern ([demo_genesis, demo_applied 1 7] @ [demo_restore]) = Inr w \<and>
     (\<exists>e. step demo_extern held_default w (demo_restore\<lparr>blk_height := 3\<rparr>) = Inl e)"
proof -
  obtain w where w: "walk_chain demo_extern ([demo_genesis, demo_applied 1 7] @ [demo_restore]) = Inr w"
    using demo_chain_restored by blast
  have "\<exists>e. step demo_extern held_default w (demo_restore\<lparr>blk_height := 3\<rparr>) = Inl e"
    by (rule consent_is_spent_once[OF w _ _ demo_consent_parses, where npk = "''e''"]) (simp_all add: demo_restore_def)
  with w show ?thesis by blast
qed

text \<open>
  The condition that the anchor moves is needed: a restore that names no new working key
  leaves the anchor, and the check of the same consent at the next block passes again.
\<close>

lemma keyless_restore_keeps_consent_open:
  assumes "step X h w b = Inr w'" "anchor_of (blk_change b) = None"
  shows "consent_spends c (walk_working_anchor (w_running w')) = consent_spends c (walk_working_anchor (w_running w))"
proof -
  have "cs_anchors (w_running w') = cs_anchors (w_running w)" "cs_roster (w_running w') = cs_roster (w_running w)"
    using chain_fold_one_anchors(1)[OF step_facts(3)[OF assms(1)]]
      chain_fold_one_fixed[OF step_facts(3)[OF assms(1)]] assms(2) by simp_all
  then have "walk_working_anchor (w_running w') = walk_working_anchor (w_running w)"
    by (simp add: fun_eq_iff walk_working_anchor_def split: sum.split option.split)
  then show ?thesis by simp
qed

end
