(* ===== verification/Export_Laws.thy ===== *)
theory Export_Laws
  imports Chain_Props
begin

text \<open>
  The detached wiki export: what the verifier of a bundle accepts, and that every verified
  chain exports a bundle it accepts. Both directions rest on one invariant of the pass over
  the exported blocks.
\<close>

definition patch_payloads :: "chain_block list \<Rightarrow> json list" where
  "patch_payloads bs = List.map_filter (\<lambda>b. case blk_change b of Applied _ _ p \<Rightarrow> Some p | _ \<Rightarrow> None) bs"

definition export_inv :: "chain_head \<Rightarrow> chain_block list \<Rightarrow> export_walk \<Rightarrow> bool" where
  "export_inv hd0 bs st \<longleftrightarrow>
     ew_identities st = ch_identities hd0 \<and> ew_payloads st = patch_payloads bs \<and>
     set (ew_seen st) = set (applied_ids bs) \<and> distinct (applied_ids bs) \<and>
     sorted_wrt (<) (map blk_height bs) \<and> list_all (\<lambda>b. blk_height b \<le> ew_last_height st) bs \<and>
     bt_wf (ew_anchors st) \<and> bt_get (ew_anchors st) = working_anchors bs"

definition export_start :: "chain_head \<Rightarrow> export_walk" where
  "export_start hd0 = \<lparr>ew_identities = ch_identities hd0, ew_membership_blocks = 0, ew_anchors = [],
     ew_payloads = [], ew_seen = [], ew_last_height = 0\<rparr>"

lemma export_inv_start: "export_inv hd0 [] (export_start hd0)"
  by (simp add: export_inv_def export_start_def patch_payloads_def applied_ids_def working_anchors_def
      map_filter_def fun_eq_iff)

lemma patch_payloads_snoc:
  "patch_payloads (bs @ [b]) = patch_payloads bs @ (case blk_change b of Applied _ _ p \<Rightarrow> [p] | _ \<Rightarrow> [])"
  by (simp add: patch_payloads_def map_filter_def split: chain_change.split)

lemma working_anchors_snoc:
  "working_anchors (bs @ [b]) = (case anchor_of (blk_change b) of None \<Rightarrow> working_anchors bs
     | Some (k, v) \<Rightarrow> (working_anchors bs)(k \<mapsto> v))"
  by (simp add: working_anchors_def split: option.split)

definition next_anchors :: "export_walk \<Rightarrow> chain_change \<Rightarrow> (string, string) btree" where
  "next_anchors st c = (case anchor_of c of None \<Rightarrow> ew_anchors st | Some (k, v) \<Rightarrow> bt_insert k v (ew_anchors st))"

lemma export_step_Applied:
  assumes "export_step X hd0 st b = Inr st'" "blk_change b = Applied i sf p"
  shows "i \<notin> set (ew_seen st)" "st' = st\<lparr>ew_seen := bset_insert i (ew_seen st),
    ew_anchors := next_anchors st (blk_change b), ew_payloads := ew_payloads st @ [p], ew_last_height := blk_height b\<rparr>"
  using assms
  by (simp_all add: export_step_def rbind_eq_Inr Let_def next_anchors_def split: if_splits) (elim exE conjE, simp)+

lemma export_step_Membership:
  assumes "export_step X hd0 st b = Inr st'" "blk_change b = Membership op m pk npk rl con"
  shows "\<exists>ids. apply_membership (ew_identities st) op m pk = Inr ids \<and>
    st' = st\<lparr>ew_identities := ids, ew_membership_blocks := ew_membership_blocks st + 1,
      ew_anchors := next_anchors st (blk_change b), ew_last_height := blk_height b\<rparr>"
  using assms by (auto simp: export_step_def rbind_eq_Inr Let_def next_anchors_def)

lemma export_step_inv:
  assumes "export_step X hd0 st b = Inr st'" "export_inv hd0 bs st"
  shows "export_inv hd0 (bs @ [b]) st' \<and> exported b \<and>
    unat (ch_rule_m hd0) \<le> card (voices X (ch_republic_id hd0) (ch_identities hd0) b)"
proof -
  let ?anchors = "next_anchors st (blk_change b)"
  have wf: "bt_wf (ew_anchors st)" and get: "bt_get (ew_anchors st) = working_anchors bs"
    and ids: "ew_identities st = ch_identities hd0" using assms(2) by (simp_all add: export_inv_def)
  from assms(1) ids obtain signers where s: "block_signers X (ch_republic_id hd0) (ch_identities hd0) b = Inr signers"
    "unat (ch_rule_m hd0) \<le> length signers" "exported b" "ew_last_height st < blk_height b"
    by (auto simp: export_step_def rbind_eq_Inr not_le not_less Let_def)
  have anchors: "bt_wf ?anchors" "bt_get ?anchors = working_anchors (bs @ [b])"
    using wf get by (auto simp: next_anchors_def working_anchors_snoc fun_eq_iff bt_get_insert split: option.split)
  have below: "list_all (\<lambda>c. blk_height c < blk_height b) bs"
    using assms(2) s(4) by (auto simp: export_inv_def list_all_iff)
  have "ew_identities st' = ch_identities hd0 \<and> ew_anchors st' = ?anchors \<and> ew_last_height st' = blk_height b \<and>
     ew_payloads st' = patch_payloads (bs @ [b]) \<and> set (ew_seen st') = set (applied_ids (bs @ [b])) \<and>
     distinct (applied_ids (bs @ [b]))"
  proof (cases "blk_change b")
    case (Applied i sf p)
    note step = export_step_Applied[OF assms(1) Applied]
    have "set (applied_ids (bs @ [b])) = insert i (set (applied_ids bs))" "distinct (applied_ids (bs @ [b]))"
      using assms(2) step(1) by (auto simp: export_inv_def applied_ids_snoc applied_id_def Applied)
    then show ?thesis
      using assms(2) unfolding step(2) by (simp add: export_inv_def patch_payloads_snoc Applied)
  next
    case (Membership op m pk npk rl con)
    obtain gone where "apply_membership (ew_identities st) op m pk = Inr gone"
      "st' = st\<lparr>ew_identities := gone, ew_membership_blocks := ew_membership_blocks st + 1,
         ew_anchors := next_anchors st (blk_change b), ew_last_height := blk_height b\<rparr>"
      using export_step_Membership[OF assms(1) Membership] by blast
    then show ?thesis
      using assms(2) by (simp add: export_inv_def patch_payloads_snoc applied_ids_snoc applied_id_def
          apply_membership_Inr Membership)
  qed (use s(3) in \<open>auto simp: exported_def is_membership_def is_wiki_patch_def\<close>)
  moreover have "sorted_wrt (<) (map blk_height (bs @ [b]))"
    using assms(2) below by (auto simp: export_inv_def sorted_wrt_append list_all_iff)
  moreover have "list_all (\<lambda>c. blk_height c \<le> blk_height b) (bs @ [b])"
    using below by (auto simp: list_all_iff intro: less_imp_le)
  ultimately have "export_inv hd0 (bs @ [b]) st'" using anchors by (simp add: export_inv_def)
  then show ?thesis using s block_signers_voices[OF s(1)] by simp
qed

lemma export_steps_inv:
  assumes "rfold (export_step X hd0) (export_start hd0) bs = Inr st"
  shows "export_inv hd0 bs st \<and> list_all (\<lambda>b. exported b \<and>
    unat (ch_rule_m hd0) \<le> card (voices X (ch_republic_id hd0) (ch_identities hd0) b)) bs"
  using assms
proof (induction bs arbitrary: st rule: rev_induct)
  case Nil
  then show ?case using export_inv_start[of hd0] by simp
next
  case (snoc b bs)
  then obtain st0 where "rfold (export_step X hd0) (export_start hd0) bs = Inr st0" "export_step X hd0 st0 b = Inr st"
    by (auto simp: rfold_append rbind_eq_Inr)
  then show ?case using snoc.IH export_step_inv by (auto simp: list_all_iff)
qed

lemma check_tree_folded:
  "rfold (\<lambda>_ (path, content). case bt_get tree path of None \<Rightarrow> Inl (f path)
      | Some shipped \<Rightarrow> reject_if (shipped \<noteq> content) (g path)) () folded = Inr ()
     \<longleftrightarrow> (\<forall>(p, c) \<in> set folded. bt_get tree p = Some c)"
  by (induction folded) (auto simp: rbind_eq_Inr split: option.splits)

lemma check_tree_Inr:
  assumes "bt_wf folded" "bt_wf tree"
  shows "check_tree folded tree = Inr () \<longleftrightarrow> tree = folded"
proof
  assume ok: "check_tree folded tree = Inr ()"
  have sub: "bt_get tree p = Some c" if "bt_get folded p = Some c" for p c
    using ok that check_tree_folded[where tree = tree and folded = folded] map_of_SomeD[of folded p c]
    by (fastforce simp: check_tree_def rbind_eq_Inr)
  have keys: "bt_contains folded p" if "p \<in> set (bt_keys tree)" for p
    using ok that by (auto simp: check_tree_def rbind_eq_Inr find_None_iff split: option.splits)
  show "tree = folded"
  proof (rule bt_wf_eqI[OF assms(2,1)])
    fix k
    show "bt_get tree k = bt_get folded k"
      using sub[of k] keys[of k]
      by (cases "bt_get tree k"; cases "bt_get folded k")
        (auto simp: bt_contains_def bt_keys_def, metis image_eqI fst_conv map_of_SomeD)
  qed
next
  assume eq: "tree = folded"
  have "\<forall>(p, c) \<in> set folded. bt_get folded p = Some c"
    using bt_wf_distinct[OF assms(1)] by auto
  moreover have "List.find (\<lambda>p. \<not> bt_contains folded p) (bt_keys folded) = None"
    by (auto simp: find_None_iff bt_contains_def bt_keys_def map_of_eq_None_iff)
  ultimately show "check_tree folded tree = Inr ()"
    by (simp add: check_tree_def eq rbind_eq_Inr check_tree_folded)
qed

section \<open>What an accepted bundle proves\<close>

text \<open>C27: an accepted export proves its tree: the bundle's genesis is sealed by every founder,
  its blocks ascend, none applies a proposal twice, each is a membership change or a wiki
  patch carried by the voices of at least \<open>m\<close> seats, and the shipped tree is exactly the fold of
  the patches.\<close>
theorem accepted_export_proves_its_tree:
  assumes "verify_wiki_export X (Inr bundle) tree = Inr report" "bt_wf tree"
  shows "\<exists>hd0. verify_genesis X (we_genesis bundle) = Inr hd0 \<and>
    list_all (\<lambda>b. exported b \<and>
      unat (ch_rule_m hd0) \<le> card (voices X (ch_republic_id hd0) (ch_identities hd0) b)) (we_blocks bundle) \<and>
    sorted_wrt (<) (map blk_height (we_blocks bundle)) \<and> distinct (applied_ids (we_blocks bundle)) \<and>
    tree = wiki_fold (patch_payloads (we_blocks bundle)) \<and>
    wr_patches report = length (patch_payloads (we_blocks bundle)) \<and> wr_files report = length tree"
proof -
  from assms(1) obtain hd0 st where v: "verify_genesis X (we_genesis bundle) = Inr hd0"
    "rfold (export_step X hd0) (export_start hd0) (we_blocks bundle) = Inr st"
    "check_tree (wiki_fold (ew_payloads st)) tree = Inr ()"
    "wr_patches report = length (ew_payloads st)" "wr_files report = length tree"
    by (cases "blk_change (we_genesis bundle)") (auto simp: verify_wiki_export_def rbind_eq_Inr export_start_def)
  from check_tree_Inr[OF wiki_fold_wf assms(2)] v(3) have "tree = wiki_fold (ew_payloads st)" by simp
  then show ?thesis using v export_steps_inv[OF v(2)] by (auto simp: export_inv_def)
qed

definition demo_bundle :: wiki_export_bundle where
  "demo_bundle = \<lparr>we_format = wiki_export_format, we_genesis = demo_genesis, we_blocks = []\<rparr>"

lemma demo_bundle_verifies: "\<exists>report. verify_wiki_export demo_extern (Inr demo_bundle) [] = Inr report"
proof -
  obtain hd0 where "verify_genesis demo_extern demo_genesis = Inr hd0"
    using demo_genesis_walk by (auto simp: genesis_walk_def rbind_eq_Inr)
  then show ?thesis
    by (simp add: verify_wiki_export_def demo_bundle_def reject_if_def refusing_def map_refusal_def)
      (simp add: demo_genesis_def check_tree_def wiki_fold_def wiki_fold_with_rev_def bt_keys_def refusing_def)
qed

theorem accepted_export_proves_its_tree_witness:
  "\<exists>hd0. verify_genesis demo_extern demo_genesis = Inr hd0 \<and> [] = wiki_fold (patch_payloads [])"
proof -
  obtain report where "verify_wiki_export demo_extern (Inr demo_bundle) [] = Inr report"
    using demo_bundle_verifies by blast
  from accepted_export_proves_its_tree[OF this] show ?thesis by (auto simp: demo_bundle_def)
qed

section \<open>Every verified chain exports\<close>

lemma verify_next_signers:
  assumes "verify_next X hd0 b seen = Inr (hd1, consumed)"
  shows "\<exists>signers. block_signers X (ch_republic_id hd0) (ch_identities hd0) b = Inr signers \<and>
      unat (ch_rule_m hd0) \<le> length signers"
    and "blk_change b = Membership op m pk npk rl con \<Longrightarrow>
      apply_membership (ch_identities hd0) op m pk = Inr (ch_identities hd0)"
  using assms by (auto simp: verify_next_def rbind_eq_Inr not_less apply_membership_Inr)

lemma unexported_step: "\<not> exported b \<Longrightarrow> anchor_of (blk_change b) = None"
  by (cases "blk_change b") (auto simp: exported_def is_membership_def anchor_of_def)

lemma working_anchors_exported: "working_anchors (filter exported bs) = working_anchors bs"
  by (induction bs rule: rev_induct) (auto simp: unexported_step working_anchors_snoc split: option.split)

lemma applied_ids_exported: "set (applied_ids (filter exported bs)) \<subseteq> set (applied_ids bs)"
  by (auto simp: applied_ids_def map_filter_def)

lemma exported_step_runs:
  assumes "export_inv hd0 bs st" "exported b" "ew_last_height st < blk_height b"
    "block_signers X (ch_republic_id hd0) (ch_identities hd0) b = Inr signers" "unat (ch_rule_m hd0) \<le> length signers"
    "consent_spends (blk_change b) (\<lambda>m. case working_anchors bs m of Some pk \<Rightarrow> pk
       | None \<Rightarrow> (case member_of (ch_identities hd0) m of None \<Rightarrow> [] | Some i \<Rightarrow> mi_nostr_pk i)) = Inr ()"
    "\<And>op m pk npk rl con. blk_change b = Membership op m pk npk rl con \<Longrightarrow>
      apply_membership (ch_identities hd0) op m pk = Inr (ch_identities hd0)"
    "\<And>i. applied_id b = Some i \<Longrightarrow> i \<notin> set (applied_ids bs)"
  shows "\<exists>st'. export_step X hd0 st b = Inr st' \<and> ew_last_height st' = blk_height b"
proof -
  have anchor: "export_anchor st = (\<lambda>m. case working_anchors bs m of Some pk \<Rightarrow> pk
       | None \<Rightarrow> (case member_of (ch_identities hd0) m of None \<Rightarrow> [] | Some i \<Rightarrow> mi_nostr_pk i))"
    using assms(1) by (auto simp: fun_eq_iff export_anchor_def export_inv_def split: option.split)
  have base: "ew_identities st = ch_identities hd0" "set (ew_seen st) = set (applied_ids bs)"
    using assms(1) by (simp_all add: export_inv_def)
  show ?thesis
  proof (cases "blk_change b")
    case (Applied i sf p)
    then show ?thesis
      using assms(2-6) assms(8)[of i] unfolding anchor[symmetric]
      by (simp add: export_step_def base reject_if_def refusing_def applied_id_def not_le not_less Let_def)
  next
    case (Membership op m pk npk rl con)
    then show ?thesis
      using assms(2-6) assms(7)[OF Membership] unfolding anchor[symmetric]
      by (simp add: export_step_def base reject_if_def refusing_def not_le not_less Let_def map_refusal_def)
  qed (use assms(2) in \<open>auto simp: exported_def is_membership_def is_wiki_patch_def\<close>)
qed

lemma walk_exports:
  assumes "walks X bs w"
  shows "\<exists>hd0 st. verify_genesis X (hd bs) = Inr hd0 \<and> ch_republic_id (w_head w) = ch_republic_id hd0 \<and>
    ch_rule_m (w_head w) = ch_rule_m hd0 \<and> ch_identities (w_head w) = ch_identities hd0 \<and>
    rfold (export_step X hd0) (export_start hd0) (filter exported (tl bs)) = Inr st \<and>
    ew_last_height st \<le> ch_height (w_head w)"
  using assms
proof (induction rule: walks.induct)
  case (walks_genesis g w)
  then show ?case using genesis_walk_Inr[OF walks_genesis] by (auto simp: export_start_def)
next
  case (walks_step bs w b w')
  then obtain hd0 st where ih: "verify_genesis X (hd bs) = Inr hd0" "ch_republic_id (w_head w) = ch_republic_id hd0"
    "ch_rule_m (w_head w) = ch_rule_m hd0" "ch_identities (w_head w) = ch_identities hd0"
    "rfold (export_step X hd0) (export_start hd0) (filter exported (tl bs)) = Inr st"
    "ew_last_height st \<le> ch_height (w_head w)" by blast
  note n = next_facts[OF walks_step(2)] and ne = walks_not_Nil[OF walks_step(1)]
  obtain g rest where bs: "bs = g # rest" using ne by (cases bs) auto
  have head: "ch_republic_id (w_head w') = ch_republic_id hd0" "ch_rule_m (w_head w') = ch_rule_m hd0"
    "ch_identities (w_head w') = ch_identities hd0" using n ih by simp_all
  have grow: "ch_height (w_head w) < blk_height b" "ch_height (w_head w') = blk_height b"
    using n by (auto simp: word_less_nat_alt unat_Suc_u64)
  show ?case
  proof (cases "exported b")
    case False
    then show ?thesis using ih head grow bs by (auto intro!: exI[of _ hd0] exI[of _ st])
  next
    case True
    have inv: "export_inv hd0 (filter exported rest) st" using export_steps_inv[OF ih(5)] bs by simp
    have genesis: "anchor_of (blk_change g) = None" "applied_id g = None"
      using verify_genesis_Inr[of X g] ih(1) bs by (auto simp: anchor_of_def applied_id_def)
    have "working_anchors bs = working_anchors rest"
      using genesis by (simp add: bs working_anchors_def)
    then have anchor: "walk_working_anchor (w_running w) = (\<lambda>m. case working_anchors (filter exported rest) m of Some pk \<Rightarrow> pk
       | None \<Rightarrow> (case member_of (ch_identities hd0) m of None \<Rightarrow> [] | Some i \<Rightarrow> mi_nostr_pk i))"
      using walks_anchors[OF walks_step(1)] walk_working_anchor_eq[of "w_running w"] walks_founding_inv[OF walks_step(1)] ih(4)
      by (auto simp: fun_eq_iff anchors_inv_def founding_inv_def working_anchors_exported split: option.split)
    have fresh: "i \<notin> set (applied_ids (filter exported rest))" if "applied_id b = Some i" for i
      using n that check_change_consumed[of b "w_seen w" "applied_id b"] walks_consumed[OF walks_step(1)]
        applied_ids_exported[of rest] by (auto simp: consumed_inv_def bs applied_ids_def map_filter_def split: if_splits)
    obtain signers where sg: "block_signers X (ch_republic_id hd0) (ch_identities hd0) b = Inr signers"
      "unat (ch_rule_m hd0) \<le> length signers"
      using verify_next_signers(1)[OF step_facts(1)[OF walks_step(2)]] ih(2-4) by auto
    have spends: "consent_spends (blk_change b) (walk_working_anchor (w_running w)) = Inr ()"
      by (rule step_facts(2)[OF walks_step(2)])
    have above: "ew_last_height st < blk_height b" using ih(6) grow(1) by (rule order.strict_trans1)
    have seat: "apply_membership (ch_identities hd0) op m pk = Inr (ch_identities hd0)"
      if "blk_change b = Membership op m pk npk rl con" for op m pk npk rl con
      using verify_next_signers(2)[OF step_facts(1)[OF walks_step(2)] that] ih(4) by simp
    have "\<exists>st'. export_step X hd0 st b = Inr st' \<and> ew_last_height st' = blk_height b"
      by (rule exported_step_runs[OF inv True above sg spends[unfolded anchor]]) (fact seat fresh)+
    then obtain st' where "export_step X hd0 st b = Inr st'" "ew_last_height st' = blk_height b" by blast
    then show ?thesis using ih head grow bs True by (auto simp: rfold_append intro!: exI[of _ hd0])
  qed
qed

text \<open>C31: every verified chain exports: the bundle a holder cuts from an accepted chain, shipped
  with the fold of its wiki patches, passes the detached verifier, whose report names the
  chain's republic and threshold.\<close>
theorem verified_chain_exports:
  assumes "walk_chain X bs = Inr w" "bundle_from_chain bs = Some bundle"
  shows "\<exists>report. verify_wiki_export X (Inr bundle) (wiki_fold (patch_payloads (we_blocks bundle))) = Inr report \<and>
    wr_republic_id report = ch_republic_id (w_head w) \<and> wr_rule_m report = ch_rule_m (w_head w)"
proof -
  have w: "walks X bs w" using assms(1) by (simp add: walk_chain_walks)
  obtain g rest where bs: "bs = g # rest" using walks_not_Nil[OF w] by (cases bs) auto
  obtain hd0 st where e: "verify_genesis X g = Inr hd0" "ch_republic_id (w_head w) = ch_republic_id hd0"
    "ch_rule_m (w_head w) = ch_rule_m hd0" "rfold (export_step X hd0) (export_start hd0) (filter exported rest) = Inr st"
    using walk_exports[OF w] bs by auto
  obtain nm rid m n ids ag rl ft where gen: "blk_change g = Genesis nm rid m n ids ag rl ft"
    using verify_genesis_Inr[OF e(1)] by blast
  have bd: "bundle = \<lparr>we_format = wiki_export_format, we_genesis = g, we_blocks = filter exported rest\<rparr>"
    using assms(2) gen by (simp add: bundle_from_chain_def bs)
  have "ew_payloads st = patch_payloads (filter exported rest)"
    using export_steps_inv[OF e(4)] by (simp add: export_inv_def)
  moreover have "check_tree (wiki_fold ps) (wiki_fold ps) = Inr ()" for ps
    using check_tree_Inr[OF wiki_fold_wf wiki_fold_wf] by blast
  ultimately show ?thesis
    using e gen by (simp add: verify_wiki_export_def bd reject_if_def refusing_def map_refusal_def export_start_def)
qed

theorem verified_chain_exports_witness:
  "\<exists>report. verify_wiki_export demo_extern (Inr demo_bundle) (wiki_fold []) = Inr report \<and> wr_republic_id report = ''h''"
proof -
  have "bundle_from_chain [demo_genesis, demo_applied 1 7] = Some demo_bundle"
    by (simp add: bundle_from_chain_def demo_bundle_def demo_genesis_def demo_applied_def exported_def is_membership_def
        is_wiki_patch_def get_str_def)
  from verified_chain_exports[OF demo_chain_one this] show ?thesis
    by (auto simp: demo_bundle_def patch_payloads_def map_filter_def demo_walk_def demo_head_def)
qed

section \<open>Relay pools\<close>

text \<open>A ratified relay list replaces the pool only as a make-before-break: from a non-empty
  pool every edit leaves a pool that shares a relay with the old one, so no edit strands
  the members still on it, and an empty edit is ignored.\<close>
theorem pool_edits_keep_a_bridge:
  assumes "pool \<noteq> []"
  shows "set (fold_pool_edit pool v) \<inter> set pool \<noteq> {} \<and>
    (split_whitespace v = [] \<longrightarrow> fold_pool_edit pool v = pool)"
  using assms hd_in_set[of pool] by (auto simp: fold_pool_edit_def Let_def list_ex_iff)

theorem pool_edits_keep_a_bridge_witness:
  "set (fold_pool_edit [''wss://a''] ''wss://b'') \<inter> {''wss://a''} \<noteq> {}"
  using pool_edits_keep_a_bridge[of "[''wss://a'']" "''wss://b''"] by simp

end
