(* ===== verification/Kanban_Calendar.thy ===== *)
theory Kanban_Calendar
  imports Json_Value
begin

text \<open>
  The kanban calendar (\<open>molt-core/src/kanban_calendar.rs\<close>): time windows, the repeat rule and
  the occurrences of a series.

  \<open>chrono\<close> is a library outside the sources. A \<open>NaiveDate\<close> is represented by its day number
  and a \<open>NaiveDateTime\<close> by its second, both counted from one fixed day; differences,
  comparisons and the checked additions are arithmetic on these numbers, bounded by
  \<open>NaiveDate::MIN\<close> and \<open>NaiveDate::MAX\<close>. Everything that needs the Gregorian calendar itself -
  parsing, printing, the fields of a date - is a field of the record \<open>chrono\<close>.
\<close>

unbundle bit_operations_syntax

type_synonym naive_date = int
type_synonym naive_datetime = int

datatype weekday = Mon | Tue | Wed | Thu | Fri | Sat | Sun

record chrono =
  nd_parse :: "string \<Rightarrow> naive_date option"
  nd_format :: "naive_date \<Rightarrow> string"
  ndt_parse :: "string \<Rightarrow> naive_datetime option"
  ndt_format :: "naive_datetime \<Rightarrow> string"
  nd_year :: "naive_date \<Rightarrow> int"
  nd_month0 :: "naive_date \<Rightarrow> nat"
  nd_day :: "naive_date \<Rightarrow> nat"
  nd_weekday :: "naive_date \<Rightarrow> weekday"
  from_ymd_opt :: "int \<Rightarrow> nat \<Rightarrow> nat \<Rightarrow> naive_date option"
  nd_min :: naive_date
  nd_max :: naive_date
  ndt_max :: naive_datetime

fun num_days_from_monday :: "weekday \<Rightarrow> nat" where
  "num_days_from_monday Mon = 0"
| "num_days_from_monday Tue = 1"
| "num_days_from_monday Wed = 2"
| "num_days_from_monday Thu = 3"
| "num_days_from_monday Fri = 4"
| "num_days_from_monday Sat = 5"
| "num_days_from_monday Sun = 6"

definition in_range :: "chrono \<Rightarrow> naive_date \<Rightarrow> naive_date option" where
  "in_range H d = (if nd_min H \<le> d \<and> d \<le> nd_max H then Some d else None)"

definition checked_add_days :: "chrono \<Rightarrow> naive_date \<Rightarrow> nat \<Rightarrow> naive_date option" where
  "checked_add_days H d n = in_range H (d + int n)"

definition checked_sub_days :: "chrono \<Rightarrow> naive_date \<Rightarrow> nat \<Rightarrow> naive_date option" where
  "checked_sub_days H d n = in_range H (d - int n)"

definition day_seconds :: int where "day_seconds = 86400"

definition date_part :: "naive_datetime \<Rightarrow> naive_date" where
  "date_part t = t div day_seconds"

text \<open>\<open>TimeDelta::try_days\<close>: a span holds at most \<open>i64::MAX\<close> milliseconds.\<close>

definition try_days :: "int \<Rightarrow> int option" where
  "try_days n = (if \<bar>n\<bar> \<le> 106751991167 then Some n else None)"

definition checked_mul :: "nat \<Rightarrow> nat \<Rightarrow> nat option" where
  "checked_mul a b = (if a * b < 2 ^ 64 then Some (a * b) else None)"

definition checked_add :: "nat \<Rightarrow> nat \<Rightarrow> nat option" where
  "checked_add a b = (if a + b < 2 ^ 64 then Some (a + b) else None)"

definition div_ceil :: "nat \<Rightarrow> nat \<Rightarrow> nat" where
  "div_ceil a b = (if a mod b = 0 then a div b else a div b + 1)"

section \<open>Spelling\<close>

definition fmt_date :: "chrono \<Rightarrow> naive_date \<Rightarrow> string" where
  "fmt_date H d = nd_format H d"

definition fmt_datetime :: "chrono \<Rightarrow> naive_datetime \<Rightarrow> string" where
  "fmt_datetime H t = ndt_format H t"

definition four_digit_year :: "int \<Rightarrow> bool" where
  "four_digit_year y \<longleftrightarrow> 0 \<le> y \<and> y \<le> 9999"

definition parse_date :: "chrono \<Rightarrow> string \<Rightarrow> naive_date option" where
  "parse_date H s =
     Option.bind (nd_parse H s) (\<lambda>d.
       if four_digit_year (nd_year H d) \<and> fmt_date H d = s then Some d else None)"

definition parse_datetime :: "chrono \<Rightarrow> string \<Rightarrow> naive_datetime option" where
  "parse_datetime H s =
     Option.bind (ndt_parse H s) (\<lambda>t.
       if four_digit_year (nd_year H (date_part t)) \<and> fmt_datetime H t = s then Some t else None)"

definition midnight :: "naive_date \<Rightarrow> naive_datetime" where
  "midnight d = d * day_seconds"

section \<open>Windows\<close>

datatype when_span = AllDay naive_date naive_date | Timed naive_datetime naive_datetime

definition when_parse :: "chrono \<Rightarrow> json \<Rightarrow> string + when_span" where
  "when_parse H v =
     rbind (ok_or ''when: not an object'' (as_object v)) (\<lambda>obj.
     rbind (reject_if (length obj \<noteq> 2) ''when: exactly start and end'') (\<lambda>_.
     rbind (ok_or ''when: start missing'' (Option.bind (bt_get obj ''start'') as_str)) (\<lambda>s.
     rbind (ok_or ''when: end missing'' (Option.bind (bt_get obj ''end'') as_str)) (\<lambda>e.
     case (parse_date H s, parse_date H e) of
       (Some start, Some stop) \<Rightarrow>
         if start \<le> stop then Inr (AllDay start stop) else Inl ''when: end before start''
     | _ \<Rightarrow>
        (case (parse_datetime H s, parse_datetime H e) of
           (Some start, Some stop) \<Rightarrow>
             if start < stop then Inr (Timed start stop) else Inl ''when: end not after start''
         | _ \<Rightarrow> Inl ''when: start and end must both be YYYY-MM-DD or both YYYY-MM-DDTHH:MM'')))))"

fun when_to_json :: "chrono \<Rightarrow> when_span \<Rightarrow> json" where
  "when_to_json H (AllDay start stop) =
     JObject [(''end'', JString (fmt_date H stop)), (''start'', JString (fmt_date H start))]"
| "when_to_json H (Timed start stop) =
     JObject [(''end'', JString (fmt_datetime H stop)), (''start'', JString (fmt_datetime H start))]"

fun start_date :: "when_span \<Rightarrow> naive_date" where
  "start_date (AllDay start _) = start"
| "start_date (Timed start _) = date_part start"

fun begins :: "when_span \<Rightarrow> naive_datetime" where
  "begins (AllDay start _) = midnight start"
| "begins (Timed start _) = start"

definition midnight_after :: "chrono \<Rightarrow> naive_date \<Rightarrow> naive_datetime" where
  "midnight_after H d = (case checked_add_days H d 1 of None \<Rightarrow> ndt_max H | Some e \<Rightarrow> midnight e)"

fun ends :: "chrono \<Rightarrow> when_span \<Rightarrow> naive_datetime" where
  "ends H (AllDay _ stop) = midnight_after H stop"
| "ends H (Timed _ stop) = stop"

definition add_seconds :: "chrono \<Rightarrow> naive_datetime \<Rightarrow> int \<Rightarrow> naive_datetime option" where
  "add_seconds H t n = map_option (\<lambda>_. t + n) (in_range H (date_part (t + n)))"

fun shifted :: "chrono \<Rightarrow> when_span \<Rightarrow> int \<Rightarrow> when_span option" where
  "shifted H (AllDay start stop) n =
     Option.bind (try_days n) (\<lambda>delta.
     Option.bind (in_range H (start + delta)) (\<lambda>s.
     Option.bind (in_range H (stop + delta)) (\<lambda>e. Some (AllDay s e))))"
| "shifted H (Timed start stop) n =
     Option.bind (try_days n) (\<lambda>delta.
     Option.bind (add_seconds H start (delta * day_seconds)) (\<lambda>s.
     Option.bind (add_seconds H stop (delta * day_seconds)) (\<lambda>e. Some (Timed s e))))"

definition overlaps :: "chrono \<Rightarrow> when_span \<Rightarrow> naive_date \<Rightarrow> naive_date \<Rightarrow> bool" where
  "overlaps H w from to \<longleftrightarrow> begins w < midnight_after H to \<and> ends H w > midnight from"

section \<open>The repeat rule\<close>

datatype freq = Daily | Weekly | Monthly

fun freq_as_str :: "freq \<Rightarrow> string" where
  "freq_as_str Daily = ''daily''"
| "freq_as_str Weekly = ''weekly''"
| "freq_as_str Monthly = ''monthly''"

definition weekdays :: "(string \<times> weekday) list" where
  "weekdays = [(''mo'', Mon), (''tu'', Tue), (''we'', Wed), (''th'', Thu), (''fr'', Fri), (''sa'', Sat), (''su'', Sun)]"

definition weekday_str :: "weekday \<Rightarrow> string" where
  "weekday_str w = (case List.find (\<lambda>(_, d). d = w) weekdays of None \<Rightarrow> ''mo'' | Some (s, _) \<Rightarrow> s)"

datatype repeat_end = Open | Until naive_date | Count u64

record repeat_rule =
  rr_freq :: freq
  rr_interval :: u64
  rr_byday :: "weekday list"
  rr_end :: repeat_end

definition unknown_key :: "string list \<Rightarrow> (string \<times> json) list \<Rightarrow> string option" where
  "unknown_key allowed obj = List.find (\<lambda>k. k \<notin> set allowed) (map fst obj)"

definition reject_unknown :: "string \<Rightarrow> string list \<Rightarrow> (string \<times> json) list \<Rightarrow> string + unit" where
  "reject_unknown what allowed obj =
     (case unknown_key allowed obj of
        None \<Rightarrow> Inr ()
      | Some k \<Rightarrow> Inl (what @ ''unknown field '' @ [CHR 0x60] @ k @ [CHR 0x60]))"

definition byday_step :: "weekday list \<Rightarrow> json \<Rightarrow> string + weekday list" where
  "byday_step days d =
     (let s = (case as_str d of None \<Rightarrow> [] | Some s \<Rightarrow> s) in
      case List.find (\<lambda>(n, _). n = s) weekdays of
        None \<Rightarrow> Inl (''repeat: byday '' @ [CHR 0x60] @ s @ [CHR 0x60] @ '' is not mo..su'')
      | Some (_, w) \<Rightarrow>
          if w \<in> set days then Inl (''repeat: byday '' @ [CHR 0x60] @ s @ [CHR 0x60] @ '' twice'')
          else Inr (days @ [w]))"

definition repeat_end_of :: "chrono \<Rightarrow> json option \<Rightarrow> json option \<Rightarrow> string + repeat_end" where
  "repeat_end_of H until count =
     (case (until, count) of
        (Some _, Some _) \<Rightarrow> Inl ''repeat: until or count, not both''
      | (Some u, None) \<Rightarrow>
          map_sum id Until (ok_or ''repeat: until is YYYY-MM-DD'' (Option.bind (as_str u) (parse_date H)))
      | (None, Some c) \<Rightarrow>
          (case as_u64 c of
             Some n \<Rightarrow> if n \<ge> 1 then Inr (Count n) else Inl ''repeat: count >= 1''
           | None \<Rightarrow> Inl ''repeat: count >= 1'')
      | (None, None) \<Rightarrow> Inr Open)"

definition repeat_parse :: "chrono \<Rightarrow> json \<Rightarrow> string + repeat_rule" where
  "repeat_parse H v =
     rbind (ok_or ''repeat: not an object'' (as_object v)) (\<lambda>obj.
     rbind (reject_unknown ''repeat: '' [''freq'', ''interval'', ''byday'', ''until'', ''count''] obj) (\<lambda>_.
     rbind (case Option.bind (bt_get obj ''freq'') as_str of
              Some s \<Rightarrow> if s = ''daily'' then Inr Daily else if s = ''weekly'' then Inr Weekly
                        else if s = ''monthly'' then Inr Monthly
                        else Inl ''repeat: freq is daily, weekly or monthly''
            | None \<Rightarrow> Inl ''repeat: freq is daily, weekly or monthly'') (\<lambda>fr.
     rbind (case bt_get obj ''interval'' of
              None \<Rightarrow> Inr 1
            | Some n \<Rightarrow> (case as_u64 n of
                Some i \<Rightarrow> if i \<ge> 1 then Inr i else Inl ''repeat: interval >= 1''
              | None \<Rightarrow> Inl ''repeat: interval >= 1'')) (\<lambda>interval.
     rbind (case bt_get obj ''byday'' of
              None \<Rightarrow> Inr []
            | Some days \<Rightarrow>
                rbind (reject_if (fr \<noteq> Weekly) ''repeat: byday only with weekly'') (\<lambda>_.
                case as_array days of
                  Some (x # xs) \<Rightarrow> rfold byday_step [] (x # xs)
                | _ \<Rightarrow> Inl ''repeat: byday is a non-empty list'')) (\<lambda>byday.
     rbind (repeat_end_of H (bt_get obj ''until'') (bt_get obj ''count'')) (\<lambda>stop.
       Inr \<lparr>rr_freq = fr, rr_interval = interval, rr_byday = byday, rr_end = stop\<rparr>))))))"

definition repeat_to_json :: "chrono \<Rightarrow> repeat_rule \<Rightarrow> json" where
  "repeat_to_json H r =
     JObject
       ((if rr_byday r \<noteq> [] then [(''byday'', JArray (map (\<lambda>w. JString (weekday_str w)) (rr_byday r)))] else [])
        @ (case rr_end r of Count c \<Rightarrow> [(''count'', JNumber (PosInt c))] | _ \<Rightarrow> [])
        @ [(''freq'', JString (freq_as_str (rr_freq r))), (''interval'', JNumber (PosInt (rr_interval r)))]
        @ (case rr_end r of Until u \<Rightarrow> [(''until'', JString (fmt_date H u))] | _ \<Rightarrow> []))"

section \<open>Occurrences\<close>

definition day_bit :: "nat \<Rightarrow> u8" where
  "day_bit n = push_bit n 1"

definition day_mask :: "chrono \<Rightarrow> naive_date \<Rightarrow> repeat_rule \<Rightarrow> u8" where
  "day_mask H start r =
     (if rr_byday r = [] then day_bit (num_days_from_monday (nd_weekday H start))
      else fold (\<lambda>w m. m OR day_bit (num_days_from_monday w)) (rr_byday r) 0)"

definition count_ones :: "u8 \<Rightarrow> nat" where
  "count_ones m = length (filter (bit m) [0..<8])"

definition mask_between :: "u8 \<Rightarrow> nat \<Rightarrow> nat \<Rightarrow> nat" where
  "mask_between msk lo hi = count_ones (msk AND fold (\<lambda>i m. m OR day_bit i) [lo..<hi] 0)"

definition month_number :: "chrono \<Rightarrow> naive_date \<Rightarrow> int" where
  "month_number H d = nd_year H d * 12 + int (nd_month0 H d)"

definition cycle_months :: nat where "cycle_months = 4800"

fun gcd_u64 :: "nat \<Rightarrow> nat \<Rightarrow> nat" where
  "gcd_u64 a b = (if b = 0 then a else gcd_u64 b (a mod b))"

declare gcd_u64.simps [simp del]

text \<open>
  The prefix counts of one cycle. The source keeps the tables in a thread-local cache; a
  table is a function of its key, so the cache is not part of the model.
\<close>

definition month_has_day :: "chrono \<Rightarrow> nat \<Rightarrow> nat \<Rightarrow> nat \<Rightarrow> nat \<Rightarrow> bool" where
  "month_has_day H m0 stp day j =
     (let a = (m0 + j * stp) mod cycle_months
      in from_ymd_opt H (2000 + int (a div 12)) (a mod 12 + 1) day \<noteq> None)"

definition month_prefix :: "chrono \<Rightarrow> nat \<Rightarrow> nat \<Rightarrow> nat \<Rightarrow> nat list" where
  "month_prefix H m0 stp day =
     (let period = cycle_months div gcd_u64 stp cycle_months
      in fold (\<lambda>j prefix. prefix @ [last prefix + (if month_has_day H m0 stp day j then 1 else 0)]) [0..<period] [0])"

definition months_with_day :: "chrono \<Rightarrow> naive_date \<Rightarrow> nat \<Rightarrow> nat \<Rightarrow> nat" where
  "months_with_day H start interval k =
     (if nd_day H start \<le> 28 then k
      else
        let m0 = (if 0 \<le> month_number H start then nat (month_number H start) else 0) mod cycle_months;
            prefix = month_prefix H m0 (interval mod cycle_months) (nd_day H start);
            period = length prefix - 1
        in (k div period) * (prefix ! period) + prefix ! (k mod period))"

definition position :: "chrono \<Rightarrow> naive_date \<Rightarrow> repeat_rule \<Rightarrow> naive_date \<Rightarrow> nat option" where
  "position H start r date =
     (if date < start then None
      else if date = start then Some 0
      else
        let days = nat (date - start); interval = unat (rr_interval r) in
        case rr_freq r of
          Daily \<Rightarrow> if days mod interval = 0 then Some (days div interval) else None
        | Weekly \<Rightarrow>
            (let msk = day_mask H start r;
                 so = num_days_from_monday (nd_weekday H start);
                 dof = num_days_from_monday (nd_weekday H date)
             in if msk AND day_bit dof = 0 then None
                else
                  let weeks = (days + so - dof) div 7 in
                  if weeks mod interval \<noteq> 0 then None
                  else
                    let q = weeks div interval in
                    Some (if q = 0 then 1 + mask_between msk (so + 1) dof
                          else 1 + mask_between msk (so + 1) 7 + (q - 1) * count_ones msk + mask_between msk 0 dof))
        | Monthly \<Rightarrow>
            if nd_day H date \<noteq> nd_day H start then None
            else if month_number H date < month_number H start then None
            else
              let months = nat (month_number H date - month_number H start) in
              if months mod interval = 0 then Some (months_with_day H start interval (months div interval)) else None)"

definition within_end :: "repeat_rule \<Rightarrow> naive_date \<Rightarrow> nat \<Rightarrow> bool" where
  "within_end r date pos =
     (case rr_end r of Open \<Rightarrow> True | Until u \<Rightarrow> date \<le> u | Count c \<Rightarrow> pos < unat c)"

definition position_hit :: "chrono \<Rightarrow> naive_date \<Rightarrow> repeat_rule \<Rightarrow> naive_date \<Rightarrow> bool" where
  "position_hit H start r date =
     (case rr_freq r of
        Monthly \<Rightarrow> nd_day H date = nd_day H start \<and> month_number H start \<le> month_number H date \<and>
                   nat (month_number H date - month_number H start) mod unat (rr_interval r) = 0
      | _ \<Rightarrow> position H start r date \<noteq> None)"

definition is_occurrence :: "chrono \<Rightarrow> when_span \<Rightarrow> repeat_rule \<Rightarrow> naive_date \<Rightarrow> bool" where
  "is_occurrence H w r date =
     (let start = start_date w in
      case rr_end r of
        Count _ \<Rightarrow> (case position H start r date of None \<Rightarrow> False | Some p \<Rightarrow> within_end r date p)
      | _ \<Rightarrow> date \<ge> start \<and> position_hit H start r date \<and> within_end r date 0)"

section \<open>The next occurrence\<close>

text \<open>One turn of the weekly search: the day found, or where the next turn starts, or an overflow.\<close>

definition weekly_turn :: "u8 \<Rightarrow> nat \<Rightarrow> nat \<Rightarrow> nat option \<times> nat option" where
  "weekly_turn msk interval at =
     (let week = at div 7 in
      if week mod interval \<noteq> 0
      then (None, Option.bind (checked_mul (week div interval + 1) interval) (\<lambda>x. checked_mul x 7))
      else case List.find (\<lambda>i. msk AND day_bit i \<noteq> 0) [at mod 7..<7] of
             Some dow \<Rightarrow> (Some (week * 7 + dow), None)
           | None \<Rightarrow> (None, Option.bind (checked_add week interval) (\<lambda>x. checked_mul x 7)))"

primrec weekly_search :: "nat \<Rightarrow> u8 \<Rightarrow> nat \<Rightarrow> nat \<Rightarrow> nat option" where
  "weekly_search 0 msk interval at = None"
| "weekly_search (Suc n) msk interval at =
     (case weekly_turn msk interval at of
        (Some d, _) \<Rightarrow> Some d
      | (None, None) \<Rightarrow> None
      | (None, Some at') \<Rightarrow> weekly_search n msk interval at')"

definition i64_of_u64 :: "nat \<Rightarrow> int option" where
  "i64_of_u64 n = (if n < 2 ^ 63 then Some (int n) else None)"

definition month_start :: "int \<Rightarrow> nat \<Rightarrow> int option" where
  "month_start m0 k = Option.bind (i64_of_u64 k) (\<lambda>i. if m0 + i < 2 ^ 63 then Some (m0 + i) else None)"

primrec monthly_search :: "nat \<Rightarrow> chrono \<Rightarrow> int \<Rightarrow> nat \<Rightarrow> nat \<Rightarrow> nat \<Rightarrow> naive_date option" where
  "monthly_search 0 H m0 interval day k = None"
| "monthly_search (Suc n) H m0 interval day k =
     (case month_start m0 k of
        None \<Rightarrow> None
      | Some m \<Rightarrow>
          if \<not> four_digit_year (m div 12) then None
          else case from_ymd_opt H (m div 12) (nat (m mod 12) + 1) day of
                 Some d \<Rightarrow> Some d
               | None \<Rightarrow> Option.bind (checked_add k interval) (monthly_search n H m0 interval day))"

definition next_hit :: "chrono \<Rightarrow> naive_date \<Rightarrow> repeat_rule \<Rightarrow> naive_date \<Rightarrow> naive_date option" where
  "next_hit H start r from =
     (if from \<le> start then Some start
      else
        let off = nat (from - start); interval = unat (rr_interval r) in
        case rr_freq r of
          Daily \<Rightarrow> Option.bind (checked_mul (div_ceil off interval) interval) (checked_add_days H start)
        | Weekly \<Rightarrow>
            (let msk = day_mask H start r; so = num_days_from_monday (nd_weekday H start) in
             Option.bind (checked_sub_days H start so) (\<lambda>monday.
             Option.bind (weekly_search 3 msk interval (off + so)) (checked_add_days H monday)))
        | Monthly \<Rightarrow>
            (let m0 = month_number H start in
             if month_number H from < m0 then None
             else
               let months = nat (month_number H from - m0) in
               Option.bind (checked_mul (div_ceil months interval) interval) (\<lambda>k.
               Option.bind (if k = months \<and> nd_day H from > nd_day H start then checked_add k interval else Some k)
                 (monthly_search cycle_months H m0 interval (nd_day H start)))))"

section \<open>Expansion\<close>

definition expand_max :: nat where "expand_max = 1000"
definition expand_reach_days :: int where "expand_reach_days = 366"

record occurrence =
  oc_date :: naive_date
  oc_window :: when_span
  oc_moved :: bool

definition place ::
  "chrono \<Rightarrow> when_span \<Rightarrow> naive_date list \<Rightarrow> (naive_date, when_span) btree \<Rightarrow> naive_date \<Rightarrow> naive_date
   \<Rightarrow> naive_date \<Rightarrow> occurrence option" where
  "place H w skip moved from to d =
     (if d \<in> set skip then None
      else
        Option.bind (case bt_get moved d of
                       Some m \<Rightarrow> Some (m, True)
                     | None \<Rightarrow> map_option (\<lambda>x. (x, False)) (shifted H w (d - start_date w))) (\<lambda>(window, is_moved).
          if overlaps H window from to then Some \<lparr>oc_date = d, oc_window = window, oc_moved = is_moved\<rparr> else None))"

definition opt_list :: "'a option \<Rightarrow> 'a list" where
  "opt_list x = (case x of None \<Rightarrow> [] | Some y \<Rightarrow> [y])"

primrec expand_loop ::
  "nat \<Rightarrow> chrono \<Rightarrow> naive_date \<Rightarrow> repeat_rule \<Rightarrow> naive_date \<Rightarrow> (naive_date \<Rightarrow> occurrence option)
   \<Rightarrow> nat option \<Rightarrow> naive_date option \<Rightarrow> occurrence list \<Rightarrow> occurrence list" where
  "expand_loop 0 H start r to pl pos nxt out = out"
| "expand_loop (Suc turns) H start r to pl pos nxt out =
     (case nxt of
        None \<Rightarrow> out
      | Some d \<Rightarrow>
          if d > to \<or> length out \<ge> expand_max then out
          else case (case pos of None \<Rightarrow> position H start r d | Some p \<Rightarrow> Some (p + 1)) of
                 None \<Rightarrow> out
               | Some p \<Rightarrow>
                   if \<not> within_end r d p then out
                   else expand_loop turns H start r to pl (Some p)
                          (Option.bind (checked_add_days H d 1) (next_hit H start r)) (out @ opt_list (pl d)))"

definition expand ::
  "chrono \<Rightarrow> when_span \<Rightarrow> repeat_rule option \<Rightarrow> naive_date list \<Rightarrow> (naive_date, when_span) btree
   \<Rightarrow> naive_date \<Rightarrow> naive_date \<Rightarrow> occurrence list" where
  "expand H w rep skip moved from to =
     (case rep of
        None \<Rightarrow>
          if overlaps H w from to
          then [\<lparr>oc_date = start_date w, oc_window = w, oc_moved = False\<rparr>] else []
      | Some r \<Rightarrow>
          let start = start_date w;
              skipped = bset_of_list skip;
              pl = place H w skipped moved from to;
              span = (ends H w - begins w) div day_seconds + 1;
              lo = max (case Option.bind (try_days (min span expand_reach_days)) (\<lambda>t. in_range H (from - t)) of
                          None \<Rightarrow> start | Some d \<Rightarrow> d) start;
              out = expand_loop (expand_max + length skipped + length moved) H start r to pl None (next_hit H start r lo) [];
              late = concat (map (\<lambda>k. if is_occurrence H w r k then opt_list (pl k) else [])
                       (filter (\<lambda>k. k < lo \<or> k > to) (bt_keys moved)))
          in sort_key (\<lambda>oc. (begins (oc_window oc), oc_date oc)) (out @ late))"

end
