(* ===== verification/Kanban_Fold.thy ===== *)
theory Kanban_Fold
  imports Kanban_Calendar
begin

text \<open>
  The kanban board as a fold (\<open>molt-core/src/kanban_fold.rs\<close>): the shape of a changeset at the
  propose and the wire door, its canonical form, the lifecycle of a task, the rules on the
  resulting board with the cycle search, and the fold that applies a changeset whole or
  voids it.
\<close>

section \<open>States and sizes\<close>

datatype task_state = Todo | Wip | Success | Fail | Cancelled

definition task_states :: "task_state list" where
  "task_states = [Todo, Wip, Success, Fail, Cancelled]"

fun state_as_str :: "task_state \<Rightarrow> string" where
  "state_as_str Todo = ''todo''"
| "state_as_str Wip = ''wip''"
| "state_as_str Success = ''success''"
| "state_as_str Fail = ''fail''"
| "state_as_str Cancelled = ''cancelled''"

definition state_parse :: "string \<Rightarrow> task_state option" where
  "state_parse s = List.find (\<lambda>t. state_as_str t = s) task_states"

definition is_terminal :: "task_state \<Rightarrow> bool" where
  "is_terminal t \<longleftrightarrow> t \<in> {Success, Fail, Cancelled}"

definition is_met :: "task_state \<Rightarrow> bool" where
  "is_met t \<longleftrightarrow> t \<in> {Success, Cancelled}"

datatype task_size = Xs | S | M | L | Xl | Xxl

definition task_sizes :: "task_size list" where
  "task_sizes = [Xs, S, M, L, Xl, Xxl]"

fun size_as_str :: "task_size \<Rightarrow> string" where
  "size_as_str Xs = ''XS''"
| "size_as_str S = ''S''"
| "size_as_str M = ''M''"
| "size_as_str L = ''L''"
| "size_as_str Xl = ''XL''"
| "size_as_str Xxl = ''XXL''"

definition size_parse :: "string \<Rightarrow> task_size option" where
  "size_parse s = List.find (\<lambda>z. size_as_str z = s) task_sizes"

section \<open>Tasks and the board\<close>

type_synonym task_id = string

record task =
  tk_title :: string
  tk_kind :: "string option"
  tk_creator :: string
  tk_assignees :: "string list"
  tk_size :: "task_size option"
  tk_blocked_by :: "task_id list"
  tk_due :: "naive_date option"
  tk_after :: "naive_date option"
  tk_when :: "when_span option"
  tk_repeat :: "repeat_rule option"
  tk_skip :: "naive_date list"
  tk_moved :: "(naive_date, when_span) btree"
  tk_state :: task_state
  tk_note :: "string option"
  tk_evidence :: "string list"
  tk_description :: "string option"
  tk_acceptance :: "string list"
  tk_out_of_scope :: "string list"
  tk_touched_rev :: u64

type_synonym tasks = "(task_id, task) btree"

record board_state =
  bs_rev :: u64
  bs_tasks :: tasks

definition board_default :: board_state where
  "board_default = \<lparr>bs_rev = 0, bs_tasks = []\<rparr>"

definition is_series :: "task \<Rightarrow> bool" where
  "is_series t \<longleftrightarrow> tk_repeat t \<noteq> None"

definition is_timed_once :: "task \<Rightarrow> bool" where
  "is_timed_once t \<longleftrightarrow> tk_when t \<noteq> None \<and> tk_repeat t = None"

definition json_strs :: "string list \<Rightarrow> json" where
  "json_strs v = JArray (map JString v)"

definition opt_entry :: "string \<Rightarrow> ('a \<Rightarrow> json) \<Rightarrow> 'a option \<Rightarrow> (string \<times> json) list" where
  "opt_entry k f x = (case x of None \<Rightarrow> [] | Some y \<Rightarrow> [(k, f y)])"

definition list_entry :: "string \<Rightarrow> ('a list \<Rightarrow> json) \<Rightarrow> 'a list \<Rightarrow> (string \<times> json) list" where
  "list_entry k f xs = (if xs \<noteq> [] then [(k, f xs)] else [])"

definition moved_to_json :: "chrono \<Rightarrow> (naive_date, when_span) btree \<Rightarrow> json" where
  "moved_to_json H m = JObject (fold (\<lambda>(k, w) mv. bt_insert (fmt_date H k) (when_to_json H w) mv) m [])"

definition task_to_json :: "chrono \<Rightarrow> task \<Rightarrow> json" where
  "task_to_json H t =
     JObject
       (list_entry ''acceptance'' json_strs (tk_acceptance t)
        @ opt_entry ''after'' (\<lambda>a. JString (fmt_date H a)) (tk_after t)
        @ [(''assignees'', json_strs (tk_assignees t))]
        @ list_entry ''blocked_by'' json_strs (tk_blocked_by t)
        @ [(''creator'', JString (tk_creator t))]
        @ opt_entry ''description'' JString (tk_description t)
        @ opt_entry ''due'' (\<lambda>d. JString (fmt_date H d)) (tk_due t)
        @ list_entry ''evidence'' json_strs (tk_evidence t)
        @ list_entry ''moved'' (moved_to_json H) (tk_moved t)
        @ opt_entry ''note'' JString (tk_note t)
        @ list_entry ''out_of_scope'' json_strs (tk_out_of_scope t)
        @ opt_entry ''repeat'' (repeat_to_json H) (tk_repeat t)
        @ opt_entry ''size'' (\<lambda>s. JString (size_as_str s)) (tk_size t)
        @ list_entry ''skip'' (\<lambda>ds. JArray (map (\<lambda>d. JString (fmt_date H d)) ds)) (tk_skip t)
        @ [(''state'', JString (state_as_str (tk_state t))), (''title'', JString (tk_title t)),
           (''touched_rev'', JNumber (PosInt (tk_touched_rev t)))]
        @ opt_entry ''type'' JString (tk_kind t)
        @ opt_entry ''when'' (when_to_json H) (tk_when t))"

definition board_to_json :: "chrono \<Rightarrow> board_state \<Rightarrow> json" where
  "board_to_json H b =
     JObject [(''rev'', JNumber (PosInt (bs_rev b))),
              (''tasks'', JObject (map (\<lambda>(i, t). (i, task_to_json H t)) (bs_tasks b)))]"

text \<open>\<open>id.get(..8)\<close> of an id: its first eight bytes; an id is ASCII.\<close>

definition short_id :: "task_id \<Rightarrow> string" where
  "short_id i = CHR 0x23 # (if length i \<ge> 8 then take 8 i else i)"

definition is_lower_or_digit :: "char \<Rightarrow> nat \<Rightarrow> bool" where
  "is_lower_or_digit c hi \<longleftrightarrow> is_digit c \<or> (97 \<le> (of_char c :: nat) \<and> (of_char c :: nat) \<le> hi)"

definition is_hex32 :: "string \<Rightarrow> bool" where
  "is_hex32 s \<longleftrightarrow> length s = 32 \<and> list_all (\<lambda>c. is_lower_or_digit c 102) s"

definition is_ref_name :: "string \<Rightarrow> bool" where
  "is_ref_name s \<longleftrightarrow> s \<noteq> [] \<and> list_all (\<lambda>c. is_lower_or_digit c 122 \<or> c = CHR ''_'' \<or> c = CHR ''-'') s"

section \<open>Fields\<close>

datatype task_field =
    FTitle string
  | FKind "string option"
  | FAssignees "string list"
  | FSize "task_size option"
  | FBlockedBy "task_id list"
  | FDue "naive_date option"
  | FAfter "naive_date option"
  | FWhen "when_span option"
  | FRepeat "repeat_rule option"
  | FSkip "naive_date list"
  | FMoved "(naive_date, when_span) btree"
  | FDescription "string option"
  | FAcceptance "string list"
  | FOutOfScope "string list"

datatype act =
    Add "task_id option" "string option" "task_field list"
  | SetAct task_id "task_field list"
  | StateAct task_id task_state "string option" "string list"

definition task_fields :: "string list" where
  "task_fields = [''title'', ''type'', ''assignees'', ''size'', ''blocked_by'', ''due'', ''after'', ''when'',
     ''repeat'', ''skip'', ''moved'', ''description'', ''acceptance'', ''out_of_scope'']"

definition one_line :: "string \<Rightarrow> bool" where
  "one_line s \<longleftrightarrow> trim s \<noteq> [] \<and> CHR 0x0A \<notin> set s \<and> CHR 0x0D \<notin> set s"

definition str_list :: "json \<Rightarrow> string \<Rightarrow> string + string list" where
  "str_list v what =
     rbind (ok_or (what @ '': not a list'') (as_array v))
       (collect (\<lambda>x. ok_or (what @ '': not a list of strings'') (as_str x)))"

definition line_list :: "json \<Rightarrow> string \<Rightarrow> string + string list" where
  "line_list v what =
     rbind (str_list v what) (\<lambda>items.
       if list_ex (\<lambda>s. \<not> one_line s) items then Inl (what @ '': an item is empty or not one line'') else Inr items)"

definition date_of :: "chrono \<Rightarrow> json \<Rightarrow> string \<Rightarrow> string + naive_date" where
  "date_of H v what = ok_or (what @ '': not YYYY-MM-DD'') (Option.bind (as_str v) (parse_date H))"

text \<open>\<open>null\<close> clears an optional field: \<open>nullable\<close> is the test every optional arm starts with.\<close>

definition nullable :: "json \<Rightarrow> ('e + 'a) \<Rightarrow> 'e + 'a option" where
  "nullable v m = (if is_null v then Inr None else map_sum id Some m)"

definition null_list :: "json \<Rightarrow> ('e + 'a list) \<Rightarrow> 'e + 'a list" where
  "null_list v m = (if is_null v then Inr [] else m)"

definition opt_str :: "json \<Rightarrow> string \<Rightarrow> string + string option" where
  "opt_str v what = nullable v (ok_or (what @ '': not a string'') (as_str v))"

definition moved_step ::
  "chrono \<Rightarrow> (naive_date, when_span) btree \<Rightarrow> string \<times> json \<Rightarrow> string + (naive_date, when_span) btree" where
  "moved_step H out kw =
     rbind (ok_or ''moved: a key is not YYYY-MM-DD'' (parse_date H (fst kw))) (\<lambda>d.
     rbind (when_parse H (snd kw)) (\<lambda>w. Inr (bt_insert d w out)))"

definition parse_field :: "chrono \<Rightarrow> string \<Rightarrow> json \<Rightarrow> string + task_field" where
  "parse_field H key v =
     (if key = ''title'' then
        (case as_str v of
           Some s \<Rightarrow> if one_line s then Inr (FTitle s) else Inl ''title: one non-empty line''
         | None \<Rightarrow> Inl ''title: one non-empty line'')
      else if key = ''type'' then
        rbind (opt_str v ''type'') (\<lambda>t.
          if (case t of None \<Rightarrow> False | Some s \<Rightarrow> \<not> one_line s) then Inl ''type: one non-empty line'' else Inr (FKind t))
      else if key = ''assignees'' then
        rbind (str_list v ''assignees'') (\<lambda>a.
          if a = [] \<or> list_ex (\<lambda>s. s = []) a then Inl ''assignees: at least one seat''
          else if length (bset_of_list a) \<noteq> length a then Inl ''assignees: a seat twice''
          else Inr (FAssignees a))
      else if key = ''size'' then
        map_sum id FSize (nullable v (ok_or ''size: XS, S, M, L, XL or XXL'' (Option.bind (as_str v) size_parse)))
      else if key = ''blocked_by'' then
        rbind (null_list v (str_list v ''blocked_by'')) (\<lambda>b.
          if length (bset_of_list b) \<noteq> length b then Inl ''blocked_by: a task twice'' else Inr (FBlockedBy b))
      else if key = ''due'' then map_sum id FDue (nullable v (date_of H v ''due''))
      else if key = ''after'' then map_sum id FAfter (nullable v (date_of H v ''after''))
      else if key = ''when'' then map_sum id FWhen (nullable v (when_parse H v))
      else if key = ''repeat'' then map_sum id FRepeat (nullable v (repeat_parse H v))
      else if key = ''skip'' then
        map_sum id FSkip (null_list v
          (rbind (ok_or ''skip: not a list'' (as_array v)) (collect (\<lambda>d. date_of H d ''skip''))))
      else if key = ''moved'' then
        map_sum id FMoved (null_list v
          (rbind (ok_or ''moved: not an object'' (as_object v)) (rfold (moved_step H) [])))
      else if key = ''description'' then map_sum id FDescription (opt_str v ''description'')
      else if key = ''acceptance'' then map_sum id FAcceptance (null_list v (line_list v ''acceptance''))
      else if key = ''out_of_scope'' then map_sum id FOutOfScope (null_list v (line_list v ''out_of_scope''))
      else Inl (''unknown field '' @ [CHR 0x60] @ key @ [CHR 0x60]))"

definition later :: "naive_date option \<Rightarrow> naive_date option \<Rightarrow> bool" where
  "later after due = (case (after, due) of (Some a, Some d) \<Rightarrow> a > d | _ \<Rightarrow> False)"

definition check_field ::
  "string option \<Rightarrow> naive_date option \<times> naive_date option \<Rightarrow> task_field
   \<Rightarrow> string + naive_date option \<times> naive_date option" where
  "check_field self da f =
     (case f of
        FDue d \<Rightarrow> Inr (d, snd da)
      | FAfter a \<Rightarrow> Inr (fst da, a)
      | FBlockedBy b \<Rightarrow>
          if (case self of None \<Rightarrow> False | Some i \<Rightarrow> i \<in> set b)
          then Inl ''blocked_by: a task cannot block itself'' else Inr da
      | _ \<Rightarrow> Inr da)"

definition check_fields :: "string option \<Rightarrow> task_field list \<Rightarrow> string + unit" where
  "check_fields self fs =
     rbind (rfold (check_field self) (None, None) fs) (\<lambda>(due, after).
       reject_if (later after due) ''after is later than due'')"

section \<open>Acts\<close>

datatype door = Propose | Canonical

definition at_op :: "nat \<Rightarrow> string \<Rightarrow> string" where
  "at_op i m = ''ops['' @ show_nat i @ '']: '' @ m"

definition quoted :: "string \<Rightarrow> string" where
  "quoted s = [CHR 0x60] @ s @ [CHR 0x60]"

definition check_id :: "nat \<Rightarrow> door \<Rightarrow> string list \<Rightarrow> string \<Rightarrow> string + unit" where
  "check_id i dr refs s =
     (case strip_prefix ''@'' s of
        Some r \<Rightarrow>
          if dr = Canonical then Inl (at_op i (quoted s @ '' is not a task id''))
          else if r \<notin> set refs then Inl (at_op i (''unresolved '' @ quoted s))
          else Inr ()
      | None \<Rightarrow> if is_hex32 s then Inr () else Inl (at_op i (quoted s @ '' is not a task id'')))"

definition id_of :: "nat \<Rightarrow> door \<Rightarrow> string list \<Rightarrow> (string \<times> json) list \<Rightarrow> string \<Rightarrow> string + string" where
  "id_of i dr refs obj key =
     rbind (ok_or (at_op i (key @ '' missing'')) (Option.bind (bt_get obj key) as_str)) (\<lambda>s.
     rbind (check_id i dr refs s) (\<lambda>_. Inr s))"

definition links_of :: "task_field list \<Rightarrow> task_id list" where
  "links_of fs = concat (map (\<lambda>f. case f of FBlockedBy b \<Rightarrow> b | _ \<Rightarrow> []) fs)"

definition check_links :: "nat \<Rightarrow> door \<Rightarrow> string list \<Rightarrow> task_field list \<Rightarrow> string + unit" where
  "check_links i dr refs fs = rfold (\<lambda>_ x. check_id i dr refs x) () (links_of fs)"

definition untrimmed :: "string option \<Rightarrow> bool" where
  "untrimmed t = (case t of None \<Rightarrow> False | Some k \<Rightarrow> trim k \<noteq> k)"

definition kind_of_fields :: "task_field list \<Rightarrow> string option" where
  "kind_of_fields fs =
     (case List.find (\<lambda>f. case f of FKind _ \<Rightarrow> True | _ \<Rightarrow> False) fs of Some (FKind k) \<Rightarrow> k | _ \<Rightarrow> None)"

definition add_field :: "chrono \<Rightarrow> nat \<Rightarrow> task_field list \<Rightarrow> string \<times> json \<Rightarrow> string + task_field list" where
  "add_field H i fs kv =
     (if fst kv \<in> {''act'', ''id'', ''ref'', ''creator''} then Inr fs
      else if is_null (snd kv) then Inl (at_op i (''add: '' @ fst kv @ '' is null''))
      else rbind (map_err (at_op i) (parse_field H (fst kv) (snd kv))) (\<lambda>f. Inr (fs @ [f])))"

definition add_shape :: "nat \<Rightarrow> task_field list \<Rightarrow> string + unit" where
  "add_shape i fs =
     (if \<not> list_ex (\<lambda>f. case f of FTitle _ \<Rightarrow> True | _ \<Rightarrow> False) fs then Inl (at_op i ''add: title missing'')
      else if \<not> list_ex (\<lambda>f. case f of FAssignees _ \<Rightarrow> True | _ \<Rightarrow> False) fs
      then Inl (at_op i ''add: assignees missing'')
      else if \<not> list_ex (\<lambda>f. case f of FWhen (Some _) \<Rightarrow> True | _ \<Rightarrow> False) fs
              \<and> list_ex (\<lambda>f. case f of FRepeat (Some _) \<Rightarrow> True | _ \<Rightarrow> False) fs
      then Inl (at_op i ''add: repeat needs when'')
      else Inr ())"

definition add_id :: "nat \<Rightarrow> door \<Rightarrow> string list \<Rightarrow> (string \<times> json) list \<Rightarrow> string + task_id option" where
  "add_id i dr refs obj =
     (case bt_get obj ''id'' of
        None \<Rightarrow> if dr = Canonical then Inl (at_op i ''add: id missing'') else Inr None
      | Some _ \<Rightarrow>
          rbind (id_of i dr refs obj ''id'') (\<lambda>s.
            if starts_with ''@'' s then Inl (at_op i ''add: id is a task id'') else Inr (Some s)))"

definition add_ref :: "nat \<Rightarrow> door \<Rightarrow> (string \<times> json) list \<Rightarrow> string + string option" where
  "add_ref i dr obj =
     (case bt_get obj ''ref'' of
        None \<Rightarrow> Inr None
      | Some r \<Rightarrow>
          if dr = Canonical then Inl (at_op i ''add: ref is resolved at propose'')
          else case as_str r of
                 Some rf \<Rightarrow> if is_ref_name rf then Inr (Some (CHR ''@'' # rf))
                            else Inl (at_op i ''add: ref is [a-z0-9_-]+'')
               | None \<Rightarrow> Inl (at_op i ''add: ref is [a-z0-9_-]+''))"

definition add_creator :: "nat \<Rightarrow> door \<Rightarrow> (string \<times> json) list \<Rightarrow> string + string option" where
  "add_creator i dr obj =
     (if dr = Propose then Inr None
      else case Option.bind (bt_get obj ''creator'') as_str of
             Some c \<Rightarrow> if c = [] then Inl (at_op i ''add: creator missing'') else Inr (Some c)
           | None \<Rightarrow> Inl (at_op i ''add: creator missing''))"

definition opt_to_list :: "'a option \<Rightarrow> 'a list" where
  "opt_to_list x = (case x of None \<Rightarrow> [] | Some y \<Rightarrow> [y])"

definition parse_add :: "chrono \<Rightarrow> nat \<Rightarrow> door \<Rightarrow> string list \<Rightarrow> (string \<times> json) list \<Rightarrow> string + act" where
  "parse_add H i dr refs obj =
     rbind (rfold (add_field H i) [] obj) (\<lambda>fs.
     rbind (add_shape i fs) (\<lambda>_.
     rbind (check_links i dr refs fs) (\<lambda>_.
     rbind (add_id i dr refs obj) (\<lambda>tid.
     rbind (add_ref i dr obj) (\<lambda>rf.
     rbind (add_creator i dr obj) (\<lambda>creator.
     rbind (reject_if (dr = Canonical \<and> untrimmed (kind_of_fields fs)) (at_op i ''add: type is not trimmed'')) (\<lambda>_.
     rbind (rfold (\<lambda>_ self. map_err (at_op i) (check_fields (Some self) fs)) () (opt_to_list tid @ opt_to_list rf)) (\<lambda>_.
     rbind (map_err (at_op i) (check_fields None fs)) (\<lambda>_.
       Inr (Add tid creator fs))))))))))"

definition set_one :: "chrono \<Rightarrow> nat \<Rightarrow> door \<Rightarrow> task_field list \<Rightarrow> string \<times> json \<Rightarrow> string + task_field list" where
  "set_one H i dr fs kv =
     (if fst kv \<in> {''state'', ''note'', ''evidence'', ''creator''}
      then Inl (at_op i (''set: '' @ fst kv @ '' is not settable''))
      else if fst kv \<notin> set task_fields then Inl (at_op i (''set: unknown field '' @ quoted (fst kv)))
      else if is_null (snd kv) \<and> fst kv \<in> {''title'', ''assignees''}
      then Inl (at_op i (''set: '' @ fst kv @ '' cannot be cleared''))
      else rbind (map_err (at_op i) (parse_field H (fst kv) (snd kv))) (\<lambda>f.
             if dr = Canonical \<and> (case f of FKind t \<Rightarrow> untrimmed t | _ \<Rightarrow> False)
             then Inl (at_op i ''set: type is not trimmed'')
             else Inr (fs @ [f])))"

definition parse_set :: "chrono \<Rightarrow> nat \<Rightarrow> door \<Rightarrow> string list \<Rightarrow> (string \<times> json) list \<Rightarrow> string + act" where
  "parse_set H i dr refs obj =
     rbind (map_err (at_op i) (reject_unknown ''set: '' [''act'', ''id'', ''fields''] obj)) (\<lambda>_.
     rbind (id_of i dr refs obj ''id'') (\<lambda>tid.
     rbind (case Option.bind (bt_get obj ''fields'') as_object of
              Some (f # fobj) \<Rightarrow> Inr (f # fobj)
            | _ \<Rightarrow> Inl (at_op i ''set: fields names nothing'')) (\<lambda>fobj.
     rbind (rfold (set_one H i dr) [] fobj) (\<lambda>fs.
     rbind (check_links i dr refs fs) (\<lambda>_.
     rbind (map_err (at_op i) (check_fields (Some tid) fs)) (\<lambda>_.
       Inr (SetAct tid fs)))))))"

definition parse_state :: "nat \<Rightarrow> door \<Rightarrow> string list \<Rightarrow> (string \<times> json) list \<Rightarrow> string + act" where
  "parse_state i dr refs obj =
     rbind (map_err (at_op i) (reject_unknown ''state: '' [''act'', ''id'', ''to'', ''note'', ''evidence''] obj)) (\<lambda>_.
     rbind (id_of i dr refs obj ''id'') (\<lambda>tid.
     rbind (ok_or (at_op i ''state: unknown state'')
              (Option.bind (Option.bind (bt_get obj ''to'') as_str) state_parse)) (\<lambda>to.
     rbind (case bt_get obj ''note'' of
              None \<Rightarrow> Inr None
            | Some n \<Rightarrow> map_sum id Some (ok_or (at_op i ''state: note is a string'') (as_str n))) (\<lambda>note.
     rbind (case bt_get obj ''evidence'' of
              None \<Rightarrow> Inr []
            | Some e \<Rightarrow>
                if to \<noteq> Success then Inl (at_op i ''state: evidence only with success'')
                else map_err (at_op i) (str_list e ''evidence'')) (\<lambda>evidence.
       Inr (StateAct tid to note evidence))))))"

definition parse_act :: "chrono \<Rightarrow> nat \<Rightarrow> json \<Rightarrow> door \<Rightarrow> string list \<Rightarrow> string + act" where
  "parse_act H i v dr refs =
     rbind (ok_or (at_op i ''not an object'') (as_object v)) (\<lambda>obj.
       case Option.bind (bt_get obj ''act'') as_str of
         None \<Rightarrow> Inl (at_op i ''act missing'')
       | Some a \<Rightarrow>
           if a = ''add'' then parse_add H i dr refs obj
           else if a = ''set'' then parse_set H i dr refs obj
           else if a = ''state'' then parse_state i dr refs obj
           else Inl (at_op i (''unknown act '' @ quoted a)))"

definition ref_step :: "string list \<Rightarrow> json \<Rightarrow> string + string list" where
  "ref_step refs opv =
     (if get_str opv ''act'' \<noteq> Some ''add'' then Inr refs
      else case get_str opv ''ref'' of
             None \<Rightarrow> Inr refs
           | Some r \<Rightarrow> if r \<in> set refs then Inl (''ref '' @ quoted r @ '' twice'') else Inr (bset_insert r refs))"

definition parse_changeset :: "chrono \<Rightarrow> json \<Rightarrow> door \<Rightarrow> string + act list" where
  "parse_changeset H v dr =
     rbind (ok_or ''not an object'' (as_object v)) (\<lambda>obj.
     rbind (reject_if (Option.bind (bt_get obj ''op'') as_str \<noteq> Some ''kanban_ops'') ''op is kanban_ops'') (\<lambda>_.
     rbind (reject_unknown [] [''op'', ''summary'', ''base_rev'', ''ops''] obj) (\<lambda>_.
     rbind (reject_if (case Option.bind (bt_get obj ''summary'') as_str of None \<Rightarrow> True | Some s \<Rightarrow> \<not> one_line s)
              ''summary: one non-empty line'') (\<lambda>_.
     rbind (reject_if (Option.bind (bt_get obj ''base_rev'') as_u64 = None) ''base_rev missing'') (\<lambda>_.
     rbind (case Option.bind (bt_get obj ''ops'') as_array of
              Some (x # xs) \<Rightarrow> Inr (x # xs)
            | _ \<Rightarrow> Inl ''ops: at least one act'') (\<lambda>ops.
     rbind (if dr = Propose then rfold ref_step [] ops else Inr []) (\<lambda>refs.
       collect (\<lambda>(i, opv). parse_act H i opv dr refs) (enumerate 0 ops))))))))"

definition validate_kanban_payload :: "chrono \<Rightarrow> json \<Rightarrow> string + unit" where
  "validate_kanban_payload H v = rbind (parse_changeset H v Propose) (\<lambda>_. Inr ())"

definition validate_kanban_wire :: "chrono \<Rightarrow> json \<Rightarrow> string + unit" where
  "validate_kanban_wire H v = rbind (parse_changeset H v Canonical) (\<lambda>_. Inr ())"

section \<open>Canonicalization\<close>

record canonical_form =
  cf_payload :: json
  cf_minted :: "task_id list"

text \<open>
  The minter is a stateful callback: \<open>mint n\<close> is the result of its \<open>n\<close>-th call. The first pass
  gives every \<open>add\<close> an id and a creator and takes its \<open>ref\<close> out; its state is the table of
  references and the ids minted so far.
\<close>

definition stamp_op ::
  "(nat \<Rightarrow> string + task_id) \<Rightarrow> string \<Rightarrow> (json list \<times> (string, string) btree \<times> task_id list) \<Rightarrow> json
   \<Rightarrow> string + (json list \<times> (string, string) btree \<times> task_id list)" where
  "stamp_op mint creator st opv =
     (case st of (done, refs, minted) \<Rightarrow>
        case opv of
          JObject obj \<Rightarrow>
            if Option.bind (bt_get obj ''act'') as_str \<noteq> Some ''add'' then Inr (done @ [opv], refs, minted)
            else
              rbind (case Option.bind (bt_get obj ''id'') as_str of
                       Some i \<Rightarrow> Inr (i, obj, minted)
                     | None \<Rightarrow>
                         rbind (mint (length minted)) (\<lambda>i.
                           Inr (i, bt_insert ''id'' (JString i) obj, minted @ [i]))) (\<lambda>(i, obj1, minted1).
                Inr (done @ [JObject (bt_insert ''creator'' (JString creator) (bt_remove ''ref'' obj1))],
                     (case bt_get obj1 ''ref'' of
                        Some (JString r) \<Rightarrow> bt_insert (CHR ''@'' # r) i refs
                      | _ \<Rightarrow> refs), minted1))
        | _ \<Rightarrow> Inr (done @ [opv], refs, minted))"

definition resolve :: "(string, string) btree \<Rightarrow> json \<Rightarrow> json" where
  "resolve refs v =
     (case Option.bind (as_str v) (bt_get refs) of Some i \<Rightarrow> JString i | None \<Rightarrow> v)"

definition upd_key :: "string \<Rightarrow> (json \<Rightarrow> json) \<Rightarrow> (string \<times> json) list \<Rightarrow> (string \<times> json) list" where
  "upd_key k f obj = map (\<lambda>(k', v). if k' = k then (k', f v) else (k', v)) obj"

definition trim_type :: "(string \<times> json) list \<Rightarrow> (string \<times> json) list" where
  "trim_type obj = upd_key ''type'' (\<lambda>v. case v of JString t \<Rightarrow> JString (trim t) | _ \<Rightarrow> v) obj"

definition resolve_links :: "(string, string) btree \<Rightarrow> (string \<times> json) list \<Rightarrow> (string \<times> json) list" where
  "resolve_links refs obj =
     upd_key ''blocked_by'' (\<lambda>v. case v of JArray xs \<Rightarrow> JArray (map (resolve refs) xs) | _ \<Rightarrow> v) obj"

definition resolve_op :: "(string, string) btree \<Rightarrow> json \<Rightarrow> json" where
  "resolve_op refs opv =
     (case opv of
        JObject obj \<Rightarrow>
          JObject (upd_key ''fields''
            (\<lambda>v. case v of JObject fs \<Rightarrow> JObject (resolve_links refs (trim_type fs)) | _ \<Rightarrow> v)
            (resolve_links refs (trim_type (upd_key ''id'' (resolve refs) obj))))
      | _ \<Rightarrow> opv)"

definition kanban_canonicalize ::
  "chrono \<Rightarrow> json \<Rightarrow> string \<Rightarrow> (nat \<Rightarrow> string + task_id) \<Rightarrow> string + canonical_form" where
  "kanban_canonicalize H payload creator mint =
     rbind (validate_kanban_payload H payload) (\<lambda>_.
     rbind (ok_or ''ops: at least one act'' (Option.bind (jget payload ''ops'') as_array)) (\<lambda>ops.
     rbind (rfold (stamp_op mint creator) ([], [], []) ops) (\<lambda>(stamped, refs, minted).
     let out = (case payload of
                  JObject obj \<Rightarrow> JObject (upd_key ''ops'' (\<lambda>_. JArray (map (resolve_op refs) stamped)) obj)
                | _ \<Rightarrow> payload) in
     rbind (validate_kanban_wire H out) (\<lambda>_.
       Inr \<lparr>cf_payload = out, cf_minted = minted\<rparr>))))"

section \<open>The lifecycle\<close>

datatype fold_step = AppliedStep | VoidStep string | Skipped

fun set_field :: "task_field \<Rightarrow> task \<Rightarrow> task" where
  "set_field (FTitle v) t = t\<lparr>tk_title := v\<rparr>"
| "set_field (FKind v) t = t\<lparr>tk_kind := v\<rparr>"
| "set_field (FAssignees v) t = t\<lparr>tk_assignees := v\<rparr>"
| "set_field (FSize v) t = t\<lparr>tk_size := v\<rparr>"
| "set_field (FBlockedBy v) t = t\<lparr>tk_blocked_by := v\<rparr>"
| "set_field (FDue v) t = t\<lparr>tk_due := v\<rparr>"
| "set_field (FAfter v) t = t\<lparr>tk_after := v\<rparr>"
| "set_field (FWhen v) t = t\<lparr>tk_when := v\<rparr>"
| "set_field (FRepeat v) t = t\<lparr>tk_repeat := v\<rparr>"
| "set_field (FSkip v) t = t\<lparr>tk_skip := v\<rparr>"
| "set_field (FMoved v) t = t\<lparr>tk_moved := v\<rparr>"
| "set_field (FDescription v) t = t\<lparr>tk_description := v\<rparr>"
| "set_field (FAcceptance v) t = t\<lparr>tk_acceptance := v\<rparr>"
| "set_field (FOutOfScope v) t = t\<lparr>tk_out_of_scope := v\<rparr>"

record board_fault =
  bf_reason :: string
  bf_task :: "task_id option"

definition fault_at :: "task_id \<Rightarrow> string \<Rightarrow> board_fault" where
  "fault_at i why = \<lparr>bf_reason = why, bf_task = Some i\<rparr>"

definition fault_of :: "string \<Rightarrow> board_fault" where
  "fault_of why = \<lparr>bf_reason = why, bf_task = None\<rparr>"

definition unmet_prerequisite :: "tasks \<Rightarrow> task \<Rightarrow> (task_id \<times> string) option" where
  "unmet_prerequisite tasks t =
     find_map (\<lambda>b. case bt_get tasks b of
         Some p \<Rightarrow> if is_met (tk_state p) then None
                    else Some (b, short_id b @ '' ('' @ state_as_str (tk_state p) @ '')'')
       | None \<Rightarrow> Some (b, short_id b @ '' (unknown)'')) (tk_blocked_by t)"

definition blocked_guard :: "tasks \<Rightarrow> task_id \<Rightarrow> task \<Rightarrow> string \<Rightarrow> board_fault + unit" where
  "blocked_guard tasks i t verb =
     (case unmet_prerequisite tasks t of
        None \<Rightarrow> Inr ()
      | Some (b, p) \<Rightarrow> Inl (fault_at b (short_id i @ '' cannot '' @ verb @ '': blocked by '' @ p)))"

definition needs_note :: "task_id \<Rightarrow> task_state \<Rightarrow> string option \<Rightarrow> board_fault + unit" where
  "needs_note i to note =
     (if (case note of None \<Rightarrow> False | Some n \<Rightarrow> trim n \<noteq> []) then Inr ()
      else Inl (fault_at i (short_id i @ '' '' @ state_as_str to @ '': note required'')))"

definition transition :: "tasks \<Rightarrow> task_id \<Rightarrow> task_state \<Rightarrow> string option \<Rightarrow> board_fault + unit" where
  "transition tasks i to note =
     (case bt_get tasks i of
        None \<Rightarrow> Inl (fault_at i (short_id i @ '': unknown task''))
      | Some t \<Rightarrow>
          if is_series t \<and> (tk_state t, to) \<notin> {(Todo, Cancelled), (Cancelled, Todo)}
          then Inl (fault_at i (short_id i @ '': a series only cancels or reopens''))
          else case (tk_state t, to) of
                 (Todo, Wip) \<Rightarrow> blocked_guard tasks i t ''start''
               | (Wip, Todo) \<Rightarrow> Inr ()
               | (Wip, Success) \<Rightarrow> Inr ()
               | (Fail, Wip) \<Rightarrow> Inr ()
               | (Success, Todo) \<Rightarrow> Inr ()
               | (Fail, Todo) \<Rightarrow> Inr ()
               | (Cancelled, Todo) \<Rightarrow> Inr ()
               | (Wip, Fail) \<Rightarrow> needs_note i to note
               | (Todo, Cancelled) \<Rightarrow> needs_note i to note
               | (Wip, Cancelled) \<Rightarrow> needs_note i to note
               | (Fail, Cancelled) \<Rightarrow> needs_note i to note
               | (Todo, Success) \<Rightarrow>
                   if \<not> is_timed_once t
                   then Inl (fault_at i (short_id i @ '' cannot '' @ state_as_str to @ '': not started''))
                   else blocked_guard tasks i t (state_as_str to)
               | (Todo, Fail) \<Rightarrow>
                   if \<not> is_timed_once t
                   then Inl (fault_at i (short_id i @ '' cannot '' @ state_as_str to @ '': not started''))
                   else rbind (blocked_guard tasks i t (state_as_str to)) (\<lambda>_. needs_note i to note)
               | _ \<Rightarrow> Inl (fault_at i (short_id i @ '': '' @ state_as_str (tk_state t) @ '' to ''
                                    @ state_as_str to @ '' not allowed'')))"

section \<open>The rules on the result\<close>

definition occurrence_keys :: "task \<Rightarrow> naive_date list" where
  "occurrence_keys t = tk_skip t @ bt_keys (tk_moved t)"

definition check_link :: "tasks \<Rightarrow> task_id \<Rightarrow> task \<Rightarrow> task_id \<Rightarrow> string + unit" where
  "check_link tasks i t b =
     (if b = i then Inl (short_id i @ '': blocked by itself'')
      else case bt_get tasks b of
             None \<Rightarrow> Inl (short_id i @ '': blocked by unknown '' @ short_id b)
           | Some p \<Rightarrow> if is_series p \<or> is_series t then Inl (short_id i @ '': a series cannot be linked'')
                       else Inr ())"

definition check_task :: "chrono \<Rightarrow> tasks \<Rightarrow> task_id \<Rightarrow> task \<Rightarrow> string list \<Rightarrow> string + unit" where
  "check_task H tasks i t seats =
     rbind (reject_if (tk_creator t \<notin> set seats) (short_id i @ '': creator '' @ tk_creator t @ '' is not a seat'')) (\<lambda>_.
     rbind (case List.find (\<lambda>a. a \<notin> set seats) (tk_assignees t) of
              Some a \<Rightarrow> Inl (short_id i @ '': '' @ a @ '' is not a seat'')
            | None \<Rightarrow> Inr ()) (\<lambda>_.
     rbind (reject_if (later (tk_after t) (tk_due t)) (short_id i @ '': after is later than due'')) (\<lambda>_.
     rbind (reject_if (tk_repeat t \<noteq> None \<and> tk_when t = None) (short_id i @ '': repeat needs when'')) (\<lambda>_.
     rbind (reject_if (is_series t \<and> tk_state t \<notin> {Todo, Cancelled})
              (short_id i @ '': a series is todo or cancelled'')) (\<lambda>_.
     rbind (case (tk_when t, tk_repeat t) of
              (Some w, Some r) \<Rightarrow>
                (case List.find (\<lambda>k. \<not> is_occurrence H w r k) (occurrence_keys t) of
                   Some k \<Rightarrow> Inl (short_id i @ '': '' @ fmt_date H k @ '' is no occurrence'')
                 | None \<Rightarrow> Inr ())
            | _ \<Rightarrow> reject_if (tk_skip t \<noteq> [] \<or> tk_moved t \<noteq> []) (short_id i @ '': skip and moved need a series'')) (\<lambda>_.
       rfold (\<lambda>_ b. check_link tasks i t b) () (tk_blocked_by t)))))))"

definition links :: "tasks \<Rightarrow> task_id \<Rightarrow> task_id list" where
  "links tasks n = (case bt_get tasks n of None \<Rightarrow> [] | Some t \<Rightarrow> tk_blocked_by t)"

text \<open>The measure of the search below: tasks without a colour, then links left on the stack.\<close>

definition fresh_tasks :: "tasks \<Rightarrow> (task_id \<rightharpoonup> nat) \<Rightarrow> nat" where
  "fresh_tasks tasks color = length (filter (\<lambda>k. color k = None) (map fst tasks))"

definition pending_links :: "tasks \<Rightarrow> (task_id \<times> nat) list \<Rightarrow> nat" where
  "pending_links tasks stack = sum_list (map (\<lambda>(n, i). length (links tasks n) - i + 1) stack)"

lemma fresh_tasks_upd:
  "fresh_tasks tasks (color(n \<mapsto> c)) = length (filter (\<lambda>k. k \<noteq> n \<and> color k = None) (map fst tasks))"
  unfolding fresh_tasks_def by (rule arg_cong[where f = length], rule filter_cong) auto

lemma filter_but_le: "length (filter (\<lambda>k. k \<noteq> n \<and> P k) ks) \<le> length (filter P ks)"
  by (induction ks) auto

lemma filter_but_less: "n \<in> set ks \<Longrightarrow> P n \<Longrightarrow> length (filter (\<lambda>k. k \<noteq> n \<and> P k) ks) < length (filter P ks)"
proof (induction ks)
  case (Cons k ks)
  then show ?case using filter_but_le[of n P ks] by auto
qed simp

lemma fresh_tasks_mono: "fresh_tasks tasks (color(n \<mapsto> c)) \<le> fresh_tasks tasks color"
  unfolding fresh_tasks_upd unfolding fresh_tasks_def by (rule filter_but_le)

lemma fresh_tasks_less:
  assumes "color n = None" "bt_contains tasks n"
  shows "fresh_tasks tasks (color(n \<mapsto> c)) < fresh_tasks tasks color"
proof -
  have "n \<in> set (map fst tasks)"
    using assms(2) by (auto simp: bt_contains_def map_of_eq_None_iff)
  then show ?thesis
    unfolding fresh_tasks_upd using filter_but_less[of n "map fst tasks" "\<lambda>k. color k = None"] assms(1)
    by (simp add: fresh_tasks_def)
qed

text \<open>
  The depth-first search: colour 1 is on the current path, 2 is done. The head of the list is
  the top of the stack; \<open>Inl\<close> is the task on a cycle the search returns with.
\<close>

function dfs_loop ::
  "tasks \<Rightarrow> (task_id \<rightharpoonup> nat) \<Rightarrow> (task_id \<times> nat) list \<Rightarrow> task_id + (task_id \<rightharpoonup> nat)" where
  "dfs_loop tasks color [] = Inr color"
| "dfs_loop tasks color ((node, i) # stack) =
     (if i < length (links tasks node)
      then case color (links tasks node ! i) of
             Some c \<Rightarrow> if c = 1 then Inl (links tasks node ! i)
                       else dfs_loop tasks color ((node, i + 1) # stack)
           | None \<Rightarrow>
               if bt_contains tasks (links tasks node ! i)
               then dfs_loop tasks (color(links tasks node ! i \<mapsto> 1))
                      ((links tasks node ! i, 0) # (node, i + 1) # stack)
               else dfs_loop tasks color ((node, i + 1) # stack)
      else dfs_loop tasks (color(node \<mapsto> 2)) stack)"
  by pat_completeness auto

termination
proof (relation "measures [\<lambda>(tasks, color, stack). fresh_tasks tasks color, \<lambda>(tasks, color, stack). pending_links tasks stack]", goal_cases)
  case (5 tasks color node i stack)
  then show ?case using fresh_tasks_mono[of tasks color node 2] by (auto simp: pending_links_def le_less)
qed (auto simp: pending_links_def fresh_tasks_less)

definition find_cycle :: "tasks \<Rightarrow> task_id list \<Rightarrow> task_id option" where
  "find_cycle tasks from =
     (case rfold (\<lambda>color root.
              if color root \<noteq> None \<or> \<not> bt_contains tasks root then Inr color
              else dfs_loop tasks (color(root \<mapsto> 1)) [(root, 0)]) Map.empty from of
        Inl i \<Rightarrow> Some i
      | Inr _ \<Rightarrow> None)"

definition check_touched ::
  "chrono \<Rightarrow> tasks \<Rightarrow> string list \<Rightarrow> task_id \<Rightarrow> board_fault + unit" where
  "check_touched H tasks seats i =
     (case bt_get tasks i of
        None \<Rightarrow> Inr ()
      | Some t \<Rightarrow>
          rbind (map_err (fault_at i) (check_task H tasks i t seats)) (\<lambda>_.
            if is_series t
            then (case List.find (\<lambda>(_, d). i \<in> set (tk_blocked_by d)) tasks of
                    Some (d, _) \<Rightarrow> Inl (fault_at d (short_id d @ '': a series cannot be linked''))
                  | None \<Rightarrow> Inr ())
            else Inr ()))"

definition check_result :: "chrono \<Rightarrow> tasks \<Rightarrow> task_id list \<Rightarrow> string list \<Rightarrow> board_fault + unit" where
  "check_result H tasks touched seats =
     rbind (rfold (\<lambda>_ i. check_touched H tasks seats i) () touched) (\<lambda>_.
       case find_cycle tasks touched of
         Some i \<Rightarrow> Inl (fault_at i (short_id i @ '': blocked_by forms a cycle''))
       | None \<Rightarrow> Inr ())"

section \<open>The fold\<close>

definition new_task :: "string option \<Rightarrow> u64 \<Rightarrow> task" where
  "new_task creator rv =
     \<lparr>tk_title = [], tk_kind = None, tk_creator = (case creator of None \<Rightarrow> [] | Some c \<Rightarrow> c),
      tk_assignees = [], tk_size = None, tk_blocked_by = [], tk_due = None, tk_after = None,
      tk_when = None, tk_repeat = None, tk_skip = [], tk_moved = [], tk_state = Todo, tk_note = None,
      tk_evidence = [], tk_description = None, tk_acceptance = [], tk_out_of_scope = [],
      tk_touched_rev = rv\<rparr>"

definition apply_act ::
  "u64 \<Rightarrow> tasks \<times> task_id list \<Rightarrow> act \<Rightarrow> board_fault + tasks \<times> task_id list" where
  "apply_act rv st a =
     (case st of (tasks, touched) \<Rightarrow>
        case a of
          Add tid creator fs \<Rightarrow>
            rbind (ok_or (fault_of ''add: id missing'') tid) (\<lambda>i.
              if bt_contains tasks i then Inl (fault_at i (short_id i @ '': already exists''))
              else Inr (bt_insert i (fold set_field fs (new_task creator rv)) tasks, bset_insert i touched))
        | SetAct i fs \<Rightarrow>
            (case bt_get tasks i of
               None \<Rightarrow> Inl (fault_at i (short_id i @ '': unknown task''))
             | Some t \<Rightarrow>
                 Inr (bt_insert i ((fold set_field fs t)\<lparr>tk_touched_rev := rv\<rparr>) tasks, bset_insert i touched))
        | StateAct i to note evidence \<Rightarrow>
            rbind (transition tasks i to note) (\<lambda>_.
              case bt_get tasks i of
                None \<Rightarrow> Inl (fault_at i (short_id i @ '': unknown task''))
              | Some t \<Rightarrow>
                  Inr (bt_insert i (t\<lparr>tk_state := to, tk_note := note, tk_evidence := evidence,
                                     tk_touched_rev := rv\<rparr>) tasks, bset_insert i touched)))"

definition apply_changeset ::
  "chrono \<Rightarrow> board_state \<Rightarrow> act list \<Rightarrow> u64 \<Rightarrow> string list \<Rightarrow> board_fault + tasks" where
  "apply_changeset H board acts rv seats =
     rbind (rfold (apply_act rv) (bs_tasks board, []) acts) (\<lambda>(tasks, touched).
     rbind (check_result H tasks touched seats) (\<lambda>_. Inr tasks))"

definition sat_succ :: "u64 \<Rightarrow> u64" where
  "sat_succ n = (if n = - 1 then n else n + 1)"

definition fold_verdict ::
  "chrono \<Rightarrow> board_state \<Rightarrow> json \<Rightarrow> string list \<Rightarrow> board_fault + tasks" where
  "fold_verdict H board payload seats =
     rbind (map_err fault_of (parse_changeset H payload Canonical)) (\<lambda>acts.
       apply_changeset H board acts (sat_succ (bs_rev board)) seats)"

definition kanban_fold_one ::
  "chrono \<Rightarrow> board_state \<Rightarrow> json \<Rightarrow> string list \<Rightarrow> board_state \<times> fold_step" where
  "kanban_fold_one H board payload seats =
     (if get_str payload ''op'' \<noteq> Some ''kanban_ops'' then (board, Skipped)
      else case fold_verdict H board payload seats of
             Inr tasks \<Rightarrow> (\<lparr>bs_rev = sat_succ (bs_rev board), bs_tasks = tasks\<rparr>, AppliedStep)
           | Inl e \<Rightarrow> (board\<lparr>bs_rev := sat_succ (bs_rev board)\<rparr>, VoidStep (bf_reason e)))"

definition kanban_fold_onto :: "chrono \<Rightarrow> board_state \<Rightarrow> json list \<Rightarrow> string list \<Rightarrow> board_state" where
  "kanban_fold_onto H board applied seats = foldl (\<lambda>b p. fst (kanban_fold_one H b p seats)) board applied"

definition kanban_fold :: "chrono \<Rightarrow> json list \<Rightarrow> string list \<Rightarrow> board_state" where
  "kanban_fold H applied seats = kanban_fold_onto H board_default applied seats"

definition kanban_precheck :: "chrono \<Rightarrow> board_state \<Rightarrow> json \<Rightarrow> string list \<Rightarrow> board_fault + unit" where
  "kanban_precheck H board payload seats = rbind (fold_verdict H board payload seats) (\<lambda>_. Inr ())"

end
