(* ===== verification/Kanban_Cycles.thy ===== *)
theory Kanban_Cycles
  imports Kanban_Fold
begin

text \<open>
  The cycle search of the board is exact: it returns a task on a cycle, and when it returns
  none, no cycle can be reached from where it started. The invariant of the search relates
  the colours and the stack to the \<open>blocked_by\<close> relation.
\<close>

definition link_rel :: "tasks \<Rightarrow> (task_id \<times> task_id) set" where
  "link_rel tasks = {(a, b). b \<in> set (links tasks a) \<and> bt_contains tasks b}"

definition done_nodes :: "(task_id \<rightharpoonup> nat) \<Rightarrow> task_id set" where
  "done_nodes color = {n. color n = Some 2}"

text \<open>\<open>settled\<close>: finished tasks link to finished tasks only and lie on no cycle.\<close>

definition settled :: "tasks \<Rightarrow> task_id set \<Rightarrow> bool" where
  "settled tasks B \<longleftrightarrow> link_rel tasks `` B \<subseteq> B \<and> (\<forall>b \<in> B. (b, b) \<notin> (link_rel tasks)\<^sup>+)"

text \<open>
  The stack is a path: each entry was pushed by the one below it, and every link an entry has
  already looked at leads to a finished task or to the entry above it.
\<close>

fun stack_path :: "tasks \<Rightarrow> task_id set \<Rightarrow> task_id option \<Rightarrow> (task_id \<times> nat) list \<Rightarrow> bool" where
  "stack_path tasks B up [] = True"
| "stack_path tasks B up ((n, i) # stack) \<longleftrightarrow>
     (\<forall>b. up = Some b \<longrightarrow> (n, b) \<in> link_rel tasks) \<and>
     (\<forall>j < i. j < length (links tasks n) \<longrightarrow> bt_contains tasks (links tasks n ! j) \<longrightarrow>
        links tasks n ! j \<in> B \<or> up = Some (links tasks n ! j)) \<and>
     stack_path tasks B (Some n) stack"

definition dfs_inv :: "tasks \<Rightarrow> (task_id \<rightharpoonup> nat) \<Rightarrow> (task_id \<times> nat) list \<Rightarrow> bool" where
  "dfs_inv tasks color stack \<longleftrightarrow>
     (\<forall>n. color n = Some 1 \<longleftrightarrow> n \<in> set (map fst stack)) \<and> distinct (map fst stack) \<and>
     ran color \<subseteq> {1, 2} \<and> dom color \<subseteq> {n. bt_contains tasks n} \<and> settled tasks (done_nodes color) \<and> stack_path tasks (done_nodes color) None stack"

lemma closed_trancl: "R `` B \<subseteq> B \<Longrightarrow> b \<in> B \<Longrightarrow> (b, c) \<in> R\<^sup>+ \<Longrightarrow> c \<in> B"
  by (erule trancl_induct) auto

lemma settled_insert:
  assumes "settled tasks B" "n \<notin> B" "link_rel tasks `` {n} \<subseteq> B"
  shows "settled tasks (insert n B)"
proof -
  have closed: "link_rel tasks `` insert n B \<subseteq> insert n B"
    using assms by (auto simp: settled_def)
  have "(n, n) \<notin> (link_rel tasks)\<^sup>+"
  proof
    assume "(n, n) \<in> (link_rel tasks)\<^sup>+"
    then obtain c where c: "(n, c) \<in> link_rel tasks" "(c, n) \<in> (link_rel tasks)\<^sup>*" by (meson tranclD)
    have "c \<in> B" using c(1) assms(3) by auto
    then have "n \<in> B"
      using c(2) closed_trancl[of "link_rel tasks" B c n] assms(1) by (auto simp: settled_def rtrancl_eq_or_trancl)
    then show False using assms(2) by simp
  qed
  then show ?thesis using assms(1) closed by (auto simp: settled_def)
qed

lemma stack_path_mono:
  assumes "stack_path tasks B up stack" "B \<subseteq> B'"
  shows "stack_path tasks B' up stack"
  using assms by (induction tasks B up stack rule: stack_path.induct) (auto 0 3)

lemma stack_path_reach:
  assumes "stack_path tasks B up ((n, i) # stack)" "m \<in> set (map fst ((n, i) # stack))"
  shows "(m, n) \<in> (link_rel tasks)\<^sup>*"
  using assms
proof (induction stack arbitrary: n i up)
  case (Cons p stack)
  obtain n' i' where p: "p = (n', i')" by (cases p)
  show ?case
  proof (cases "m = n")
    case False
    with Cons.prems p have "(m, n') \<in> (link_rel tasks)\<^sup>*" using Cons.IH[of "Some n" n' i'] by auto
    moreover have "(n', n) \<in> link_rel tasks" using Cons.prems(1) p by simp
    ultimately show ?thesis by (rule rtrancl_into_rtrancl)
  qed simp
qed auto

lemma links_task: "i < length (links tasks n) \<Longrightarrow> bt_contains tasks n"
  by (auto simp: links_def bt_contains_def split: option.splits)

lemma dfs_found:
  assumes "dfs_inv tasks color ((n, i) # stack)" "i < length (links tasks n)" "color (links tasks n ! i) = Some 1"
  shows "(links tasks n ! i, links tasks n ! i) \<in> (link_rel tasks)\<^sup>+"
    and "m \<in> set (map fst ((n, i) # stack)) \<Longrightarrow> (m, links tasks n ! i) \<in> (link_rel tasks)\<^sup>+"
proof -
  let ?b = "links tasks n ! i"
  have path: "stack_path tasks (done_nodes color) None ((n, i) # stack)"
    using assms(1) by (simp only: dfs_inv_def)
  have "bt_contains tasks ?b" using assms(1,3) unfolding dfs_inv_def by blast
  then have link: "(n, ?b) \<in> link_rel tasks" using assms(2) by (simp add: link_rel_def)
  have reach: "(m, ?b) \<in> (link_rel tasks)\<^sup>+" if "m \<in> set (map fst ((n, i) # stack))" for m
    using stack_path_reach[OF path that] link by (rule rtrancl_into_trancl1)
  show "(m, ?b) \<in> (link_rel tasks)\<^sup>+" if "m \<in> set (map fst ((n, i) # stack))"
    by (rule reach[OF that])
  have "?b \<in> set (map fst ((n, i) # stack))" using assms(1,3) by (simp only: dfs_inv_def)
  then show "(?b, ?b) \<in> (link_rel tasks)\<^sup>+" by (rule reach)
qed

lemma dfs_advance:
  assumes "dfs_inv tasks color ((n, i) # stack)" "i < length (links tasks n)"
    "color (links tasks n ! i) \<noteq> Some 1" "bt_contains tasks (links tasks n ! i) \<longrightarrow> color (links tasks n ! i) \<noteq> None"
  shows "dfs_inv tasks color ((n, i + 1) # stack)"
proof -
  let ?b = "links tasks n ! i"
  have "?b \<in> done_nodes color" if known: "bt_contains tasks ?b"
  proof -
    obtain c where c: "color ?b = Some c" using assms(4) known by auto
    then have "c \<in> {1, 2}" using assms(1) by (auto simp: dfs_inv_def ran_def)
    then show ?thesis using c assms(3) by (auto simp: done_nodes_def)
  qed
  then show ?thesis using assms(1) by (auto simp: dfs_inv_def less_Suc_eq)
qed

lemma dfs_descend:
  assumes "dfs_inv tasks color ((n, i) # stack)" "i < length (links tasks n)"
    "color (links tasks n ! i) = None" "bt_contains tasks (links tasks n ! i)"
  shows "dfs_inv tasks (color(links tasks n ! i \<mapsto> 1)) ((links tasks n ! i, 0) # (n, i + 1) # stack)"
proof -
  let ?b = "links tasks n ! i"
  have same: "done_nodes (color(?b \<mapsto> 1)) = done_nodes color"
    using assms(3) by (auto simp: done_nodes_def)
  have fresh: "?b \<notin> set (map fst ((n, i) # stack))"
    using assms(1,3) unfolding dfs_inv_def by (metis option.distinct(1))
  have link: "(n, ?b) \<in> link_rel tasks" using assms(2,4) by (auto simp: link_rel_def)
  have "stack_path tasks (done_nodes color) (Some ?b) ((n, i + 1) # stack)"
    using assms(1) link by (auto simp: dfs_inv_def less_Suc_eq)
  moreover have "ran (color(?b \<mapsto> 1)) \<subseteq> {1, 2}" using assms(1,3) by (auto simp: dfs_inv_def ran_def)
  moreover have "\<forall>m. (color(?b \<mapsto> 1)) m = Some 1 \<longleftrightarrow> m \<in> set (map fst ((?b, 0) # (n, i + 1) # stack))"
    using assms(1) by (auto simp: dfs_inv_def)
  ultimately show ?thesis using assms(1,4) fresh unfolding dfs_inv_def same by auto
qed

lemma dfs_finish:
  assumes "dfs_inv tasks color ((n, i) # stack)" "\<not> i < length (links tasks n)"
  shows "dfs_inv tasks (color(n \<mapsto> 2)) stack"
proof -
  have grey: "color n = Some 1" using assms(1) by (simp add: dfs_inv_def)
  have dn: "done_nodes (color(n \<mapsto> 2)) = insert n (done_nodes color)"
    by (auto simp: done_nodes_def)
  have "link_rel tasks `` {n} \<subseteq> done_nodes color"
  proof
    fix b assume "b \<in> link_rel tasks `` {n}"
    then obtain j where "j < length (links tasks n)" "b = links tasks n ! j" "bt_contains tasks b"
      by (auto simp: link_rel_def in_set_conv_nth)
    then show "b \<in> done_nodes color" using assms by (auto simp: dfs_inv_def)
  qed
  moreover have "n \<notin> done_nodes color" using grey by (simp add: done_nodes_def)
  ultimately have settled: "settled tasks (insert n (done_nodes color))"
    using assms(1) settled_insert by (simp add: dfs_inv_def)
  have path: "stack_path tasks (insert n (done_nodes color)) None stack"
  proof (cases stack)
    case (Cons p rest)
    obtain n' i' where p: "p = (n', i')" by (cases p)
    have "stack_path tasks (done_nodes color) (Some n) ((n', i') # rest)"
      using assms(1) by (simp add: dfs_inv_def Cons p)
    then have "stack_path tasks (insert n (done_nodes color)) (Some n) ((n', i') # rest)"
      by (rule stack_path_mono) auto
    then show ?thesis by (auto simp: Cons p)
  qed simp
  have "\<forall>m. (color(n \<mapsto> 2)) m = Some 1 \<longleftrightarrow> m \<in> set (map fst stack)"
    using assms(1) by (auto simp: dfs_inv_def)
  moreover have "ran (color(n \<mapsto> 2)) \<subseteq> {1, 2}" using assms(1) by (auto simp: dfs_inv_def ran_def)
  moreover have "dom (color(n \<mapsto> 2)) \<subseteq> {m. bt_contains tasks m}"
  proof -
    have "n \<in> dom color" using grey by blast
    moreover have "dom color \<subseteq> {m. bt_contains tasks m}" using assms(1) unfolding dfs_inv_def by blast
    ultimately show ?thesis by auto
  qed
  ultimately show ?thesis using assms(1) settled path unfolding dfs_inv_def dn by auto
qed

definition dfs_result :: "tasks \<Rightarrow> task_id \<Rightarrow> (task_id \<rightharpoonup> nat) \<Rightarrow> task_id + (task_id \<rightharpoonup> nat) \<Rightarrow> bool" where
  "dfs_result tasks root color r =
     (case r of
        Inl b \<Rightarrow> (b, b) \<in> (link_rel tasks)\<^sup>+ \<and> (root, b) \<in> (link_rel tasks)\<^sup>+
      | Inr color' \<Rightarrow> dfs_inv tasks color' [] \<and> dom color \<subseteq> dom color')"

lemma dfs_result_mono: "dfs_result tasks root color' r \<Longrightarrow> dom color \<subseteq> dom color' \<Longrightarrow> dfs_result tasks root color r"
  by (auto simp: dfs_result_def split: sum.splits)

lemma dfs_loop_correct:
  "dfs_inv tasks color stack \<Longrightarrow> stack \<noteq> [] \<longrightarrow> fst (last stack) = root
   \<Longrightarrow> dfs_result tasks root color (dfs_loop tasks color stack)"
proof (induction tasks color stack rule: dfs_loop.induct)
  case (1 tasks color)
  then show ?case by (simp add: dfs_result_def)
next
  case (2 tasks color n i stack)
  let ?b = "links tasks n ! i"
  consider (finish) "\<not> i < length (links tasks n)"
    | (found) "i < length (links tasks n)" "color ?b = Some 1"
    | (seen) c where "i < length (links tasks n)" "color ?b = Some c" "c \<noteq> 1"
    | (descend) "i < length (links tasks n)" "color ?b = None" "bt_contains tasks ?b"
    | (unknown) "i < length (links tasks n)" "color ?b = None" "\<not> bt_contains tasks ?b"
    by (cases "color ?b") auto
  moreover have deeper: "(n, i + 1) # stack \<noteq> [] \<longrightarrow> fst (last ((n, i + 1) # stack)) = root"
    using "2.prems"(2) by (simp split: if_splits)
  ultimately show ?case
  proof cases
    case finish
    have "dfs_result tasks root (color(n \<mapsto> 2)) (dfs_loop tasks (color(n \<mapsto> 2)) stack)"
      by (rule "2.IH"(4)[OF finish dfs_finish[OF "2.prems"(1) finish]]) (use "2.prems"(2) in auto)
    then have "dfs_result tasks root color (dfs_loop tasks (color(n \<mapsto> 2)) stack)" by (rule dfs_result_mono) auto
    then show ?thesis using finish by simp
  next
    case found
    have "root \<in> set (map fst ((n, i) # stack))"
      using "2.prems"(2) last_in_set[of "(n, i) # stack"] by force
    then show ?thesis using dfs_found[OF "2.prems"(1) found] found by (simp add: dfs_result_def)
  next
    case seen
    then have "dfs_inv tasks color ((n, i + 1) # stack)" using dfs_advance[OF "2.prems"(1) seen(1)] by simp
    from "2.IH"(3)[OF seen this deeper] seen show ?thesis by (simp only: dfs_loop.simps(2)[of tasks color n i]) simp
  next
    case descend
    have "dfs_result tasks root (color(?b \<mapsto> 1)) (dfs_loop tasks (color(?b \<mapsto> 1)) ((?b, 0) # (n, i + 1) # stack))"
      by (rule "2.IH"(1)[OF descend dfs_descend[OF "2.prems"(1) descend]]) (use "2.prems"(2) in auto)
    then have "dfs_result tasks root color (dfs_loop tasks (color(?b \<mapsto> 1)) ((?b, 0) # (n, i + 1) # stack))"
      by (rule dfs_result_mono) auto
    then show ?thesis using descend by simp
  next
    case unknown
    then have "dfs_inv tasks color ((n, i + 1) # stack)" using dfs_advance[OF "2.prems"(1) unknown(1)] by simp
    from "2.IH"(2)[OF unknown this deeper] unknown show ?thesis by (simp only: dfs_loop.simps(2)[of tasks color n i]) simp
  qed
qed

lemma dfs_inv_root:
  assumes "dfs_inv tasks color []" "color root = None" "bt_contains tasks root"
  shows "dfs_inv tasks (color(root \<mapsto> 1)) [(root, 0)]"
proof -
  have "done_nodes (color(root \<mapsto> 1)) = done_nodes color"
    using assms(2) by (auto simp: done_nodes_def)
  then show ?thesis using assms by (auto simp: dfs_inv_def ran_def)
qed

definition root_step :: "tasks \<Rightarrow> (task_id \<rightharpoonup> nat) \<Rightarrow> task_id \<Rightarrow> task_id + (task_id \<rightharpoonup> nat)" where
  "root_step tasks color root =
     (if color root \<noteq> None \<or> \<not> bt_contains tasks root then Inr color
      else dfs_loop tasks (color(root \<mapsto> 1)) [(root, 0)])"

lemma root_step_correct:
  assumes "dfs_inv tasks color []"
  shows "dfs_result tasks root color (root_step tasks color root)"
    and "root_step tasks color root = Inr color' \<Longrightarrow> bt_contains tasks root \<Longrightarrow> root \<in> dom color'"
proof -
  have new: "dfs_result tasks root (color(root \<mapsto> 1)) (root_step tasks color root)"
    if "color root = None" "bt_contains tasks root"
    using dfs_loop_correct[OF dfs_inv_root[OF assms that], of root] that by (simp add: root_step_def del: fun_upd_apply)
  show "dfs_result tasks root color (root_step tasks color root)"
  proof (cases "color root = None \<and> bt_contains tasks root")
    case True
    then show ?thesis using dfs_result_mono[OF new, of color] by auto
  qed (use assms in \<open>auto simp: root_step_def dfs_result_def\<close>)
  show "root \<in> dom color'" if "root_step tasks color root = Inr color'" "bt_contains tasks root"
  proof (cases "color root")
    case None
    then show ?thesis using new that by (simp add: dfs_result_def)
  qed (use that in \<open>auto simp: root_step_def\<close>)
qed

lemma roots_correct:
  assumes "dfs_inv tasks color []"
  shows "case rfold (root_step tasks) color roots of
      Inl b \<Rightarrow> (b, b) \<in> (link_rel tasks)\<^sup>+ \<and> (\<exists>r \<in> set roots. bt_contains tasks r \<and> (r, b) \<in> (link_rel tasks)\<^sup>+)
    | Inr color' \<Rightarrow> dfs_inv tasks color' [] \<and> dom color \<subseteq> dom color' \<and> {r \<in> set roots. bt_contains tasks r} \<subseteq> dom color'"
  using assms
proof (induction roots arbitrary: color)
  case (Cons r roots)
  show ?case
  proof (cases "root_step tasks color r")
    case (Inl b)
    then have "bt_contains tasks r" by (auto simp: root_step_def split: if_splits)
    then show ?thesis using Inl root_step_correct(1)[OF Cons.prems, of r] by (simp add: dfs_result_def)
  next
    case (Inr color')
    then have "dfs_inv tasks color' []" "dom color \<subseteq> dom color'"
      using root_step_correct(1)[OF Cons.prems, of r] by (simp_all add: dfs_result_def)
    with Cons.IH[of color'] root_step_correct(2)[OF Cons.prems Inr] Inr
    show ?thesis by (cases "rfold (root_step tasks) color' roots") (simp_all, blast)
  qed
qed simp

lemma dfs_inv_done: "dfs_inv tasks color [] \<Longrightarrow> n \<in> dom color \<Longrightarrow> n \<in> done_nodes color"
  by (fastforce simp: dfs_inv_def done_nodes_def ran_def)

lemma find_cycle_root: "find_cycle tasks roots =
    (case rfold (root_step tasks) Map.empty roots of Inl i \<Rightarrow> Some i | Inr _ \<Rightarrow> None)"
  by (simp add: find_cycle_def root_step_def[abs_def])

lemma find_cycle_Some:
  "find_cycle tasks roots = Some b \<Longrightarrow>
   (b, b) \<in> (link_rel tasks)\<^sup>+ \<and> (\<exists>r \<in> set roots. bt_contains tasks r \<and> (r, b) \<in> (link_rel tasks)\<^sup>+)"
  using roots_correct[of tasks Map.empty roots]
  by (auto simp: find_cycle_root dfs_inv_def settled_def done_nodes_def split: sum.splits)

lemma find_cycle_None:
  assumes "find_cycle tasks roots = None" "r \<in> set roots" "bt_contains tasks r" "(r, c) \<in> (link_rel tasks)\<^sup>*"
  shows "(c, c) \<notin> (link_rel tasks)\<^sup>+"
proof -
  have "dfs_inv tasks Map.empty []" by (simp add: dfs_inv_def settled_def done_nodes_def)
  then obtain color where color: "dfs_inv tasks color []" "r \<in> dom color"
    using roots_correct[of tasks Map.empty roots] assms(1-3) by (auto simp: find_cycle_root split: sum.splits)
  then have fin: "r \<in> done_nodes color" by (rule dfs_inv_done)
  have closed: "settled tasks (done_nodes color)" using color(1) by (simp add: dfs_inv_def)
  have "c \<in> done_nodes color"
    using assms(4) fin closed closed_trancl[of "link_rel tasks" "done_nodes color" r c]
    by (auto simp: rtrancl_eq_or_trancl settled_def)
  then show ?thesis using closed by (simp add: settled_def)
qed

end
