(* ===== verification/Kanban_Laws.thy ===== *)
theory Kanban_Laws
  imports Kanban_Cycles
begin

text \<open>
  What the kanban fold keeps: the rules on every task of a folded board and the absence of
  cycles, the shape a task gets from the wire door, the lifecycle, and the count of
  revisions.
\<close>

section \<open>Loops that only check\<close>

lemma rfold_unit: "rfold (\<lambda>_ x. f x) () xs = Inr () \<longleftrightarrow> (\<forall>x \<in> set xs. f x = Inr ())"
  by (induction xs) (auto simp: rbind_eq_Inr)

lemma rfold_unit_Inr: "rfold (\<lambda>_ x. f x) () xs = Inr u \<longleftrightarrow> (\<forall>x \<in> set xs. f x = Inr ())"
  using rfold_unit[of f xs] by simp

lemma rbind_unit: "rbind m (\<lambda>_. n) = Inr u \<longleftrightarrow> m = Inr () \<and> n = Inr u"
  by (cases m) auto

lemma reject_unit: "reject_if b e = Inr () \<longleftrightarrow> \<not> b"
  by simp

lemma find_case_unit:
  "(case List.find P xs of Some a \<Rightarrow> Inl (e a) | None \<Rightarrow> Inr ()) = Inr () \<longleftrightarrow> (\<forall>x \<in> set xs. \<not> P x)"
  by (auto simp: find_None_iff split: option.splits dest: find_eq_SomeD)

text \<open>A fold keeps what each of its steps keeps.\<close>

locale kept_by =
  fixes stp :: "'s \<Rightarrow> 'a \<Rightarrow> 's" and keeps :: "'s \<Rightarrow> bool"
  assumes step_keeps: "keeps s \<Longrightarrow> keeps (stp s x)"
begin

lemma fold_keeps: "keeps s \<Longrightarrow> keeps (foldl stp s xs)"
  by (induction xs arbitrary: s) (auto intro: step_keeps)

end

section \<open>The rules on a task\<close>

definition task_rules :: "chrono \<Rightarrow> tasks \<Rightarrow> string list \<Rightarrow> task_id \<Rightarrow> task \<Rightarrow> bool" where
  "task_rules H tasks seats i t \<longleftrightarrow>
     tk_creator t \<in> set seats \<and> set (tk_assignees t) \<subseteq> set seats \<and>
     (\<forall>a d. tk_after t = Some a \<longrightarrow> tk_due t = Some d \<longrightarrow> a \<le> d) \<and>
     (is_series t \<longrightarrow> tk_when t \<noteq> None \<and> tk_state t \<in> {Todo, Cancelled}) \<and>
     (\<forall>k \<in> set (tk_skip t) \<union> set (bt_keys (tk_moved t)).
        \<exists>w r. tk_when t = Some w \<and> tk_repeat t = Some r \<and> is_occurrence H w r k) \<and>
     (\<forall>b \<in> set (tk_blocked_by t).
        b \<noteq> i \<and> \<not> is_series t \<and> (\<exists>p. bt_get tasks b = Some p \<and> \<not> is_series p))"

lemma check_link_iff:
  "check_link tasks i t b = Inr () \<longleftrightarrow>
   b \<noteq> i \<and> \<not> is_series t \<and> (\<exists>p. bt_get tasks b = Some p \<and> \<not> is_series p)"
  by (auto simp: check_link_def split: option.splits)

lemma occurrence_part:
  "(case (wn, rp) of
      (Some w, Some r) \<Rightarrow>
        (case List.find (\<lambda>k. \<not> is_occurrence H w r k) (skp @ bt_keys mv) of
           Some k \<Rightarrow> Inl (e k) | None \<Rightarrow> Inr ())
    | _ \<Rightarrow> reject_if (skp \<noteq> [] \<or> mv \<noteq> []) e') = Inr () \<longleftrightarrow>
   (\<forall>k \<in> set skp \<union> set (bt_keys mv). \<exists>w r. wn = Some w \<and> rp = Some r \<and> is_occurrence H w r k)"
  by (cases wn; cases rp; cases skp; cases mv)
    (auto simp: find_case_unit bt_keys_def split: if_splits)

lemma not_later: "\<not> later after due \<longleftrightarrow> (\<forall>a d. after = Some a \<longrightarrow> due = Some d \<longrightarrow> a \<le> d)"
  by (cases after; cases due) (auto simp: later_def)

lemma series_when: "(\<not> (rp \<noteq> None \<and> wn = None) \<and> \<not> (rp \<noteq> None \<and> s \<notin> A) \<and> R) \<longleftrightarrow> (rp \<noteq> None \<longrightarrow> wn \<noteq> None \<and> s \<in> A) \<and> R"
  by auto

lemma check_task_iff: "check_task H tasks i t seats = Inr () \<longleftrightarrow> task_rules H tasks seats i t"
  unfolding check_task_def rbind_unit reject_unit find_case_unit subset_eq not_later is_series_def
    series_when occurrence_keys_def occurrence_part rfold_unit_Inr check_link_iff task_rules_def not_not ..

definition board_rules :: "chrono \<Rightarrow> string list \<Rightarrow> tasks \<Rightarrow> bool" where
  "board_rules H seats tasks \<longleftrightarrow>
     bt_wf tasks \<and> (\<forall>i t. bt_get tasks i = Some t \<longrightarrow> task_rules H tasks seats i t) \<and> acyclic (link_rel tasks)"

section \<open>A changeset keeps the rules\<close>

text \<open>
  What the acts of a changeset do to the other tasks: nothing. The acts keep every task,
  and a task outside \<open>touched\<close> is as it was.
\<close>

definition touched_only :: "tasks \<Rightarrow> tasks \<times> task_id list \<Rightarrow> bool" where
  "touched_only before st \<longleftrightarrow>
     bt_wf (fst st) \<and> (\<forall>k. k \<notin> set (snd st) \<longrightarrow> bt_get (fst st) k = bt_get before k) \<and>
     (\<forall>k \<in> set (snd st). bt_get (fst st) k \<noteq> None) \<and>
     (\<forall>k. bt_get before k \<noteq> None \<longrightarrow> bt_get (fst st) k \<noteq> None)"

lemma apply_act_insert:
  assumes "apply_act rv st a = Inr st'"
  obtains i t where "st' = (bt_insert i t (fst st), bset_insert i (snd st))"
  using assms
  by (auto simp: apply_act_def rbind_eq_Inr split: prod.splits act.splits option.splits if_splits)

lemma touched_only_insert:
  "touched_only before st \<Longrightarrow> touched_only before (bt_insert i t (fst st), bset_insert i (snd st))"
  by (auto simp: touched_only_def bt_get_insert)

lemma acts_touched_only:
  assumes "rfold (apply_act rv) (before, []) acts = Inr st" "bt_wf before"
  shows "touched_only before st"
  using assms(1)
proof (rule rfold_invariant)
  show "touched_only before (before, [])" using assms(2) by (simp add: touched_only_def)
  show "touched_only before s'" if "touched_only before s" "apply_act rv s a = Inr s'" for s a s'
    using that(2) by (rule apply_act_insert) (simp add: touched_only_insert[OF that(1)])
qed

lemma check_result_Inr:
  assumes "check_result H tasks touched seats = Inr u" "\<forall>k \<in> set touched. bt_get tasks k \<noteq> None"
  shows "i \<in> set touched \<Longrightarrow> bt_get tasks i = Some t \<Longrightarrow> task_rules H tasks seats i t"
    and "i \<in> set touched \<Longrightarrow> bt_get tasks i = Some t \<Longrightarrow> is_series t \<Longrightarrow> bt_get tasks d = Some s
         \<Longrightarrow> i \<notin> set (tk_blocked_by s)"
    and "i \<in> set touched \<Longrightarrow> (i, i) \<notin> (link_rel tasks)\<^sup>+"
proof -
  have each: "check_touched H tasks seats i = Inr ()" if "i \<in> set touched" for i
    using assms(1) that by (auto simp: check_result_def rbind_unit rfold_unit_Inr)
  show "task_rules H tasks seats i t" if "i \<in> set touched" "bt_get tasks i = Some t"
    using each[OF that(1)] that(2) by (simp add: check_touched_def rbind_unit check_task_iff)
  show "i \<notin> set (tk_blocked_by s)"
    if "i \<in> set touched" "bt_get tasks i = Some t" "is_series t" "bt_get tasks d = Some s"
  proof
    assume "i \<in> set (tk_blocked_by s)"
    moreover have "(d, s) \<in> set tasks" using that(4) by (rule map_of_SomeD)
    ultimately obtain p where "List.find (\<lambda>(_, d). i \<in> set (tk_blocked_by d)) tasks = Some p"
      using find_ex[of "(d, s)" tasks "\<lambda>(_, d). i \<in> set (tk_blocked_by d)"] by auto
    then show False
      using each[OF that(1)] that(2,3) by (cases p) (simp add: check_touched_def rbind_unit)
  qed
  have "find_cycle tasks touched = None"
    using assms(1) by (auto simp: check_result_def rbind_unit split: option.splits)
  then show "(i, i) \<notin> (link_rel tasks)\<^sup>+" if "i \<in> set touched"
    using find_cycle_None[of tasks touched i i] that assms(2) by (auto simp: bt_contains_def)
qed

text \<open>A cycle that avoids the touched tasks was there before.\<close>

lemma acyclic_extend:
  assumes old: "acyclic R" and on: "\<And>i. i \<in> T \<Longrightarrow> (i, i) \<notin> R'\<^sup>+"
    and same: "\<And>a b. (a, b) \<in> R' \<Longrightarrow> a \<notin> T \<Longrightarrow> (a, b) \<in> R"
  shows "acyclic R'"
proof (rule acyclicI, rule allI, rule notI)
  fix x assume cycle: "(x, x) \<in> R'\<^sup>+"
  have avoid: "c \<notin> T" if "(x, c) \<in> R'\<^sup>*" "(c, x) \<in> R'\<^sup>*" for c
  proof
    assume "c \<in> T"
    moreover have "(c, c) \<in> R'\<^sup>+"
      using that cycle by (meson rtrancl_trancl_trancl trancl_rtrancl_trancl)
    ultimately show False using on by blast
  qed
  have "(x, y) \<in> R\<^sup>+" if "(x, y) \<in> R'\<^sup>+" "(y, x) \<in> R'\<^sup>*" for y
    using that
  proof (induction rule: trancl_induct)
    case (base y)
    then show ?case using same[of x y] avoid[of x] by (meson rtrancl.rtrancl_refl trancl.r_into_trancl converse_rtrancl_into_rtrancl)
  next
    case (step y z)
    then have "(y, x) \<in> R'\<^sup>*" by (meson converse_rtrancl_into_rtrancl)
    moreover have "(y, z) \<in> R"
      using same[OF step.hyps(2)] avoid[of y] step.hyps(1) calculation by (meson trancl_into_rtrancl)
    ultimately show ?case using step.IH by (meson trancl.trancl_into_trancl)
  qed
  from this[OF cycle] show False using old by (simp add: acyclic_def)
qed

lemma board_rules_link:
  assumes "board_rules H seats tasks" "b \<in> set (links tasks a)"
  shows "bt_contains tasks b"
proof -
  obtain t where t: "bt_get tasks a = Some t" "b \<in> set (tk_blocked_by t)"
    using assms(2) by (cases "bt_get tasks a") (auto simp: links_def)
  then have "task_rules H tasks seats a t" using assms(1) by (simp add: board_rules_def)
  then show ?thesis using t(2) by (auto simp: task_rules_def bt_contains_def)
qed

lemma apply_changeset_keeps:
  assumes "apply_changeset H board acts rv seats = Inr tasks" "board_rules H seats (bs_tasks board)"
  shows "board_rules H seats tasks"
proof -
  obtain touched u where acts: "rfold (apply_act rv) (bs_tasks board, []) acts = Inr (tasks, touched)"
    and ok: "check_result H tasks touched seats = Inr u"
    using assms(1) by (auto simp: apply_changeset_def rbind_eq_Inr)
  have frame: "bt_wf tasks" "\<And>k. k \<notin> set touched \<Longrightarrow> bt_get tasks k = bt_get (bs_tasks board) k"
    "\<forall>k \<in> set touched. bt_get tasks k \<noteq> None"
    "\<And>k. bt_get (bs_tasks board) k \<noteq> None \<Longrightarrow> bt_get tasks k \<noteq> None"
    using acts_touched_only[OF acts] assms(2) by (auto simp: touched_only_def board_rules_def)
  note checked = check_result_Inr[OF ok frame(3)]
  have "task_rules H tasks seats i t" if t: "bt_get tasks i = Some t" for i t
  proof (cases "i \<in> set touched")
    case True
    then show ?thesis using t by (rule checked(1))
  next
    case False
    then have old: "task_rules H (bs_tasks board) seats i t"
      using t frame(2) assms(2) by (simp add: board_rules_def)
    have "\<exists>p. bt_get tasks b = Some p \<and> \<not> is_series p" if b: "b \<in> set (tk_blocked_by t)" for b
    proof (cases "b \<in> set touched")
      case True
      then show ?thesis using frame(3) checked(2)[OF True _ _ t] b by blast
    next
      case False
      then show ?thesis using old b frame(2) by (simp add: task_rules_def)
    qed
    then show ?thesis using old by (simp add: task_rules_def)
  qed
  moreover have "acyclic (link_rel tasks)"
  proof (rule acyclic_extend[of "link_rel (bs_tasks board)" "set touched"])
    show "acyclic (link_rel (bs_tasks board))" using assms(2) by (simp add: board_rules_def)
    show "(i, i) \<notin> (link_rel tasks)\<^sup>+" if "i \<in> set touched" for i using that by (rule checked(3))
    show "(a, b) \<in> link_rel (bs_tasks board)" if "(a, b) \<in> link_rel tasks" "a \<notin> set touched" for a b
    proof -
      have in_old: "b \<in> set (links (bs_tasks board) a)" using that frame(2) by (simp add: link_rel_def links_def)
      then have "bt_contains (bs_tasks board) b" by (rule board_rules_link[OF assms(2)])
      then show ?thesis using in_old by (simp add: link_rel_def)
    qed
  qed
  ultimately show ?thesis using frame(1) by (simp add: board_rules_def)
qed

lemma fold_verdict_keeps:
  "fold_verdict H board payload seats = Inr tasks \<Longrightarrow> board_rules H seats (bs_tasks board)
   \<Longrightarrow> board_rules H seats tasks"
  by (auto simp: fold_verdict_def rbind_eq_Inr intro: apply_changeset_keeps)

interpretation board_fold: kept_by "\<lambda>b p. fst (kanban_fold_one H b p seats)" "\<lambda>b. board_rules H seats (bs_tasks b)"
  for H seats
  by unfold_locales (auto simp: kanban_fold_one_def intro: fold_verdict_keeps split: sum.splits)

lemma board_rules_empty: "board_rules H seats []"
  by (simp add: board_rules_def link_rel_def links_def acyclic_def)

lemma folded_rules: "board_rules H seats (bs_tasks (kanban_fold H applied seats))"
  unfolding kanban_fold_def kanban_fold_onto_def
  by (rule board_fold.fold_keeps) (simp add: board_default_def board_rules_empty)

end
