(* ===== verification/Kanban_Dates.thy ===== *)
theory Kanban_Dates
  imports Kanban_Fold "HOL-Library.Option_ord"
begin

text \<open>
  Deadlines and order, derived from a board on a day (\<open>molt-core/src/kanban_dates.rs\<close>): the
  order of the tasks with dependents first, the date each open task is needed by, the flags,
  the priority list, what each assignee does next, and the difference of two derivations.
\<close>

datatype shown = ShStuck | ShBlocked | ShScheduled | ShLater | ShOpen | ShWip | ShSuccess | ShFail | ShCancelled

record task_derived =
  td_shown :: shown
  td_needed_by :: "naive_date option"
  td_overdue :: bool
  td_date_conflict :: bool
  td_stuck :: bool
  td_started_on_reopened :: bool
  td_prerequisite_for :: "task_id list"

record derived =
  dv_tasks :: "(task_id, task_derived) btree"
  dv_priority :: "task_id list"
  dv_next :: "(string, task_id list) btree"

definition is_open :: "task \<Rightarrow> bool" where
  "is_open t \<longleftrightarrow> tk_state t \<in> {Todo, Wip}"

text \<open>\<open>entry(k).or_default().push(v)\<close> on a map of vectors.\<close>

definition get_vec :: "('k, 'v list) btree \<Rightarrow> 'k \<Rightarrow> 'v list" where
  "get_vec m k = (case bt_get m k of None \<Rightarrow> [] | Some xs \<Rightarrow> xs)"

definition entry_push :: "'k::linorder \<Rightarrow> 'v \<Rightarrow> ('k, 'v list) btree \<Rightarrow> ('k, 'v list) btree" where
  "entry_push k v m = bt_insert k (get_vec m k @ [v]) m"

definition dependents_of :: "tasks \<Rightarrow> (task_id, task_id list) btree" where
  "dependents_of tasks =
     fold (\<lambda>(i, t) m. fold (\<lambda>b m. if bt_contains tasks b then entry_push b i m else m) (tk_blocked_by t) m) tasks []"

section \<open>The order\<close>

definition release ::
  "(task_id, nat) btree \<times> task_id list \<Rightarrow> task_id \<Rightarrow> (task_id, nat) btree \<times> task_id list" where
  "release st b =
     (case st of (waiting, ready) \<Rightarrow>
        case bt_get waiting b of
          None \<Rightarrow> (waiting, ready)
        | Some n \<Rightarrow> (bt_insert b (n - 1) waiting, if n - 1 = 0 then bset_insert b ready else ready))"

text \<open>
  The loop of \<open>dependents_first\<close>, with fuel; \<open>None\<close> is a loop that has not ended. The list of
  ready tasks is a \<open>BTreeSet\<close>: its head is the least.
\<close>

primrec kahn_loop ::
  "nat \<Rightarrow> tasks \<Rightarrow> (task_id, nat) btree \<Rightarrow> task_id list \<Rightarrow> task_id list \<Rightarrow> task_id list option" where
  "kahn_loop 0 tasks waiting ready order = None"
| "kahn_loop (Suc fuel) tasks waiting ready order =
     (case ready of
        [] \<Rightarrow> Some order
      | i # rest \<Rightarrow>
          (case foldl release (waiting, rest) (links tasks i) of
             (waiting', ready') \<Rightarrow> kahn_loop fuel tasks waiting' ready' (order @ [i])))"

definition dependents_first :: "tasks \<Rightarrow> (task_id, task_id list) btree \<Rightarrow> task_id list option" where
  "dependents_first tasks dependents =
     (let waiting = map (\<lambda>(i, _). (i, length (get_vec dependents i))) tasks;
          ready = map fst (filter (\<lambda>(_, n). n = 0) waiting)
      in kahn_loop (length tasks + 1) tasks waiting ready [])"

section \<open>Dates and flags\<close>

definition open_task :: "tasks \<Rightarrow> task_id \<Rightarrow> bool" where
  "open_task tasks i = (case bt_get tasks i of None \<Rightarrow> False | Some t \<Rightarrow> is_open t)"

definition min_date :: "naive_date list \<Rightarrow> naive_date option" where
  "min_date ds = (case ds of [] \<Rightarrow> None | d # rest \<Rightarrow> Some (fold min rest d))"

definition need_step ::
  "tasks \<Rightarrow> (task_id, task_id list) btree \<Rightarrow> task_id \<Rightarrow> (task_id, naive_date) btree \<Rightarrow> (task_id, naive_date) btree" where
  "need_step tasks dependents i needed_by =
     (case bt_get tasks i of
        None \<Rightarrow> needed_by
      | Some t \<Rightarrow>
          if \<not> is_open t then needed_by
          else
            let downstream = List.map_filter (bt_get needed_by) (filter (open_task tasks) (get_vec dependents i)) in
            case min_date (opt_list (tk_due t) @ downstream) of
              None \<Rightarrow> needed_by
            | Some nb \<Rightarrow> bt_insert i nb needed_by)"

definition stuck_step :: "tasks \<Rightarrow> task_id \<Rightarrow> task_id list \<Rightarrow> task_id list" where
  "stuck_step tasks i stuck =
     (case bt_get tasks i of
        None \<Rightarrow> stuck
      | Some t \<Rightarrow>
          if tk_state t \<noteq> Todo then stuck
          else if list_ex (\<lambda>b. (case bt_get tasks b of None \<Rightarrow> False | Some p \<Rightarrow> tk_state p = Fail) \<or> b \<in> set stuck)
                 (tk_blocked_by t)
          then bset_insert i stuck else stuck)"

definition unmet :: "tasks \<Rightarrow> task \<Rightarrow> bool" where
  "unmet tasks t =
     list_ex (\<lambda>b. case bt_get tasks b of None \<Rightarrow> False | Some p \<Rightarrow> \<not> is_met (tk_state p)) (tk_blocked_by t)"

definition after_today :: "naive_date \<Rightarrow> task \<Rightarrow> bool" where
  "after_today today t = (case tk_after t of None \<Rightarrow> False | Some a \<Rightarrow> a > today)"

definition shown_of :: "naive_date \<Rightarrow> task \<Rightarrow> bool \<Rightarrow> bool \<Rightarrow> shown" where
  "shown_of today t is_stuck blocked =
     (case tk_state t of
        Todo \<Rightarrow>
          if is_stuck then ShStuck
          else if blocked then ShBlocked
          else if tk_when t \<noteq> None then ShScheduled
          else if after_today today t then ShLater
          else ShOpen
      | Wip \<Rightarrow> ShWip
      | Success \<Rightarrow> ShSuccess
      | Fail \<Rightarrow> ShFail
      | Cancelled \<Rightarrow> ShCancelled)"

definition timed_conflict :: "chrono \<Rightarrow> tasks \<Rightarrow> task \<Rightarrow> task_id list \<Rightarrow> bool" where
  "timed_conflict H tasks t deps =
     (case tk_when t of
        None \<Rightarrow> False
      | Some w \<Rightarrow>
          list_ex (\<lambda>d. case tk_when d of None \<Rightarrow> False | Some dw \<Rightarrow> ends H w > begins dw)
            (filter is_open (List.map_filter (bt_get tasks) deps)))"

definition derive_task ::
  "chrono \<Rightarrow> tasks \<Rightarrow> naive_date \<Rightarrow> (task_id, task_id list) btree \<Rightarrow> (task_id, naive_date) btree \<Rightarrow> task_id list
   \<Rightarrow> task_id \<Rightarrow> task \<Rightarrow> task_derived" where
  "derive_task H tasks today dependents needed_by stuck i t =
     (let nb = bt_get needed_by i; is_stuck = (i \<in> set stuck); blocked = unmet tasks t;
          deps = get_vec dependents i; opn = is_open t
      in \<lparr>td_shown = shown_of today t is_stuck blocked, td_needed_by = nb,
          td_overdue = (opn \<and> (case nb of None \<Rightarrow> False | Some n \<Rightarrow> n < today)),
          td_date_conflict =
            (opn \<and> ((case nb of
                        None \<Rightarrow> False
                      | Some n \<Rightarrow> (case tk_due t of None \<Rightarrow> False | Some d \<Rightarrow> d > n)
                                   \<or> (case tk_after t of None \<Rightarrow> False | Some a \<Rightarrow> a > n))
                     \<or> timed_conflict H tasks t deps)),
          td_stuck = is_stuck, td_started_on_reopened = (tk_state t = Wip \<and> blocked),
          td_prerequisite_for = deps\<rparr>)"

definition priority_key ::
  "tasks \<Rightarrow> (task_id, naive_date) btree \<Rightarrow> task_id \<Rightarrow> bool \<times> bool \<times> naive_date option \<times> task_id" where
  "priority_key tasks needed_by i =
     (let wip = (case bt_get tasks i of None \<Rightarrow> False | Some t \<Rightarrow> tk_state t = Wip); nb = bt_get needed_by i
      in (\<not> wip, nb = None, nb, i))"

definition priority_of :: "tasks \<Rightarrow> (task_id, naive_date) btree \<Rightarrow> task_id list" where
  "priority_of tasks needed_by =
     sort_key (priority_key tasks needed_by) (map fst (filter (\<lambda>(_, t). is_open t \<and> \<not> is_series t) tasks))"

definition entry_default :: "'k::linorder \<Rightarrow> ('k, 'v list) btree \<Rightarrow> ('k, 'v list) btree" where
  "entry_default k m = (if bt_contains m k then m else bt_insert k [] m)"

definition for_task :: "tasks \<Rightarrow> (task_id \<Rightarrow> task \<Rightarrow> 'm \<Rightarrow> 'm) \<Rightarrow> task_id \<Rightarrow> 'm \<Rightarrow> 'm" where
  "for_task tasks f i m = (case bt_get tasks i of None \<Rightarrow> m | Some t \<Rightarrow> f i t m)"

definition takes :: "tasks \<Rightarrow> naive_date \<Rightarrow> bool \<Rightarrow> task \<Rightarrow> bool" where
  "takes tasks today pass_wip t \<longleftrightarrow>
     (if pass_wip then tk_state t = Wip
      else tk_state t = Todo \<and> \<not> unmet tasks t \<and> \<not> after_today today t)"

definition next_pass ::
  "tasks \<Rightarrow> naive_date \<Rightarrow> task_id list \<Rightarrow> bool \<Rightarrow> (string, task_id list) btree \<Rightarrow> (string, task_id list) btree" where
  "next_pass tasks today prio pass_wip nxt =
     fold (for_task tasks (\<lambda>i t m.
       if takes tasks today pass_wip t then fold (\<lambda>a m. entry_push a i m) (tk_assignees t) m else m)) prio nxt"

definition next_of :: "tasks \<Rightarrow> naive_date \<Rightarrow> task_id list \<Rightarrow> (string, task_id list) btree" where
  "next_of tasks today prio =
     (let nxt = fold (for_task tasks (\<lambda>_ t m. fold entry_default (tk_assignees t) m)) prio [] in
      next_pass tasks today prio False (next_pass tasks today prio True nxt))"

definition derive :: "chrono \<Rightarrow> board_state \<Rightarrow> naive_date \<Rightarrow> derived option" where
  "derive H board today =
     (let tasks = bs_tasks board; dependents = dependents_of tasks in
      map_option (\<lambda>order.
        let needed_by = fold (need_step tasks dependents) order [];
            stuck = fold (stuck_step tasks) (rev order) [];
            prio = priority_of tasks needed_by
        in \<lparr>dv_tasks = fold (\<lambda>(i, t) m. bt_insert i (derive_task H tasks today dependents needed_by stuck i t) m) tasks [],
            dv_priority = prio,
            dv_next = next_of tasks today prio\<rparr>)
        (dependents_first tasks dependents))"

section \<open>Impact\<close>

datatype flag = Overdue | DateConflict | Stuck | StartedOnReopened

datatype impact_change =
    NeededBy task_id "naive_date option" "naive_date option"
  | FlagChange task_id flag bool

definition flags_of :: "task_derived option \<Rightarrow> bool list" where
  "flags_of t =
     (case t of
        None \<Rightarrow> [False, False, False, False]
      | Some t \<Rightarrow> [td_overdue t, td_date_conflict t, td_stuck t, td_started_on_reopened t])"

definition impact_task :: "derived \<Rightarrow> derived \<Rightarrow> task_id \<Rightarrow> impact_change list" where
  "impact_task before after i =
     (let b = bt_get (dv_tasks before) i; a = bt_get (dv_tasks after) i;
          b_nb = Option.bind b td_needed_by; a_nb = Option.bind a td_needed_by
      in (if b_nb \<noteq> a_nb then [NeededBy i b_nb a_nb] else [])
         @ map (\<lambda>(fl, _, on). FlagChange i fl on)
             (filter (\<lambda>(_, off, on). off \<noteq> on)
               (zip [Overdue, DateConflict, Stuck, StartedOnReopened] (zip (flags_of b) (flags_of a)))))"

definition impact :: "derived \<Rightarrow> derived \<Rightarrow> impact_change list" where
  "impact before after =
     concat (map (impact_task before after)
       (bset_of_list (bt_keys (dv_tasks before) @ bt_keys (dv_tasks after))))"

end
