(* ===== verification/Kanban_Order.thy ===== *)
theory Kanban_Order
  imports Kanban_Laws Kanban_Dates
begin

text \<open>
  The order of \<open>dependents_first\<close>: the loop always ends, lists no task twice, and lists a task only
  after everything that depends on it; on a board without cycles it lists every task.
\<close>

section \<open>Who depends on whom\<close>

lemma get_vec_push: "get_vec (entry_push k v m) k' = (if k' = k then get_vec m k @ [v] else get_vec m k')"
  by (simp add: get_vec_def entry_push_def bt_get_insert)

lemma get_vec_push_all:
  "get_vec (fold (\<lambda>b m. if c b then entry_push b i m else m) bs m) k =
   get_vec m k @ (if c k then replicate (count_list bs k) i else [])"
  by (induction bs arbitrary: m) (auto simp: get_vec_push replicate_append_same[symmetric])

lemma get_vec_dependents:
  "get_vec (dependents_of tasks) k =
   (if bt_contains tasks k then concat (map (\<lambda>(i, t). replicate (count_list (tk_blocked_by t) k) i) tasks) else [])"
proof -
  have "get_vec (fold (\<lambda>(i, t) m. fold (\<lambda>b m. if bt_contains tasks b then entry_push b i m else m) (tk_blocked_by t) m) ts m) k =
      get_vec m k @ (if bt_contains tasks k then concat (map (\<lambda>(i, t). replicate (count_list (tk_blocked_by t) k) i) ts) else [])"
    for ts m
    by (induction ts arbitrary: m) (auto simp: get_vec_push_all)
  from this[of tasks "[]"] show ?thesis by (simp add: dependents_of_def get_vec_def)
qed

text \<open>How often the tasks outside \<open>order\<close> name a task as a prerequisite.\<close>

definition pending :: "tasks \<Rightarrow> task_id list \<Rightarrow> task_id \<Rightarrow> nat" where
  "pending tasks order b = sum_list (map (\<lambda>i. if i \<in> set order then 0 else count_list (links tasks i) b) (map fst tasks))"

lemma links_get: "bt_get tasks i = Some t \<Longrightarrow> links tasks i = tk_blocked_by t"
  by (simp add: links_def)

lemma in_links: "b \<in> set (links tasks i) \<longleftrightarrow> (\<exists>t. bt_get tasks i = Some t \<and> b \<in> set (tk_blocked_by t))"
  by (cases "bt_get tasks i") (simp_all add: links_def)

lemma links_key: "b \<in> set (links tasks i) \<Longrightarrow> i \<in> fst ` set tasks"
  by (auto simp: in_links dest: map_of_SomeD intro: rev_image_eqI)

lemma length_dependents:
  assumes "bt_wf tasks" "bt_contains tasks b"
  shows "length (get_vec (dependents_of tasks) b) = pending tasks [] b"
proof -
  have same: "map (\<lambda>x. count_list (links tasks (fst x)) b) tasks = map (\<lambda>x. count_list (tk_blocked_by (snd x)) b) tasks"
    using bt_wf_distinct[OF assms(1)] by (auto simp: links_get map_of_is_SomeI)
  show ?thesis
    using assms(2) unfolding get_vec_dependents pending_def
    by (simp add: length_concat comp_def case_prod_unfold same[unfolded comp_def])
qed

lemma set_dependents:
  assumes "bt_wf tasks" "bt_contains tasks b"
  shows "set (get_vec (dependents_of tasks) b) = {i. b \<in> set (links tasks i)}"
proof -
  have keys: "(i, t) \<in> set tasks \<longleftrightarrow> bt_get tasks i = Some t" for i t
    using bt_wf_distinct[OF assms(1)] by simp
  have "set (get_vec (dependents_of tasks) b) = {i. \<exists>t. bt_get tasks i = Some t \<and> b \<in> set (tk_blocked_by t)}"
    using assms(2) by (force simp: get_vec_dependents keys set_replicate_conv_if count_list_0_iff split: if_splits)
  also have "\<dots> = {i. b \<in> set (links tasks i)}" by (simp add: in_links)
  finally show ?thesis .
qed

lemma pending_zero: "pending tasks order b = 0 \<longleftrightarrow> (\<forall>i. b \<in> set (links tasks i) \<longrightarrow> i \<in> set order)"
proof -
  have "pending tasks order b = 0 \<longleftrightarrow> (\<forall>i \<in> fst ` set tasks. i \<in> set order \<or> b \<notin> set (links tasks i))"
    unfolding pending_def sum_list_eq_0_iff set_map ball_simps(9) count_list_0_iff[symmetric] by auto
  then show ?thesis using links_key[of b tasks] by blast
qed

lemma sum_list_but_one:
  fixes f :: "'a \<Rightarrow> nat"
  assumes "distinct xs" "i \<in> set xs" "i \<notin> A"
  shows "sum_list (map (\<lambda>x. if x \<in> insert i A then 0 else f x) xs) + f i = sum_list (map (\<lambda>x. if x \<in> A then 0 else f x) xs)"
  using assms
proof (induction xs)
  case (Cons x xs)
  show ?case
  proof (cases "x = i")
    case True
    then have "sum_list (map (\<lambda>y. if y \<in> insert i A then 0 else f y) xs) = sum_list (map (\<lambda>y. if y \<in> A then 0 else f y) xs)"
      using Cons.prems(1) by (auto intro!: arg_cong[where f = sum_list] map_cong)
    then show ?thesis using True Cons.prems(3) by simp
  next
    case False
    then show ?thesis using Cons by auto
  qed
qed simp

lemma pending_snoc:
  assumes "bt_wf tasks" "bt_contains tasks i" "i \<notin> set order"
  shows "pending tasks (order @ [i]) b + count_list (links tasks i) b = pending tasks order b"
proof -
  have "i \<in> set (map fst tasks)" using assms(2) by (auto simp: bt_contains_def map_of_eq_None_iff)
  from sum_list_but_one[OF bt_wf_distinct[OF assms(1)] this assms(3), of "\<lambda>i. count_list (links tasks i) b"]
  show ?thesis by (simp add: pending_def)
qed

section \<open>The loop\<close>

definition released :: "(task_id, nat) btree \<Rightarrow> task_id list \<Rightarrow> task_id list \<Rightarrow> (task_id, nat) btree \<times> task_id list \<Rightarrow> bool" where
  "released waiting ready bs st \<longleftrightarrow>
     (\<forall>b. bt_get (fst st) b = map_option (\<lambda>n. n - count_list bs b) (bt_get waiting b)) \<and>
     set (snd st) = set ready \<union> {b \<in> set bs. \<exists>n. bt_get waiting b = Some n \<and> n \<le> count_list bs b} \<and>
     sorted_wrt (<) (snd st)"

lemma release_once:
  assumes "sorted_wrt (<) ready" "released waiting ready bs st"
  shows "released waiting ready (bs @ [c]) (release st c)"
proof -
  obtain w r where st: "st = (w, r)" by (cases st)
  have w: "bt_get w b = map_option (\<lambda>n. n - count_list bs b) (bt_get waiting b)" for b
    using assms(2) by (simp add: released_def st)
  have r: "set r = set ready \<union> {b \<in> set bs. \<exists>n. bt_get waiting b = Some n \<and> n \<le> count_list bs b}"
    using assms(2) by (simp add: released_def st)
  show ?thesis
  proof (cases "bt_get waiting c")
    case None
    then have "release st c = st" by (simp add: release_def st w)
    then show ?thesis using assms(2) None by (auto simp: released_def)
  next
    case (Some n)
    then have next_st: "release st c = (bt_insert c (n - count_list bs c - 1) w,
        if n \<le> count_list bs c + 1 then bset_insert c r else r)"
      by (auto simp: release_def st w)
    have "c \<in> set bs \<longleftrightarrow> 0 < count_list bs c" by (metis count_list_0_iff gr0I less_irrefl)
    then show ?thesis
      using assms(2) Some unfolding next_st
      by (auto simp: released_def st bt_get_insert sorted_bset_insert)
  qed
qed

lemma release_all:
  "sorted_wrt (<) ready \<Longrightarrow> released waiting ready bs (foldl release (waiting, ready) bs)"
proof (induction bs rule: rev_induct)
  case Nil
  then show ?case by (simp add: released_def option.map_ident)
next
  case (snoc c bs)
  then show ?case by (simp add: release_once)
qed

definition listed_after :: "tasks \<Rightarrow> task_id list \<Rightarrow> bool" where
  "listed_after tasks order \<longleftrightarrow>
     (\<forall>xs x ys. order = xs @ x # ys \<longrightarrow> {i. x \<in> set (links tasks i)} \<subseteq> set xs)"

lemma listed_after_snoc:
  assumes "listed_after tasks order" "{i. x \<in> set (links tasks i)} \<subseteq> set order"
  shows "listed_after tasks (order @ [x])"
proof -
  have "{i. y \<in> set (links tasks i)} \<subseteq> set xs" if "order @ [x] = xs @ y # ys" for xs y ys
  proof (cases ys rule: rev_exhaust)
    case Nil
    then show ?thesis using that assms(2) by simp
  next
    case (snoc zs z)
    then have "order = xs @ y # zs" using that by (metis butlast_append butlast_snoc append_Cons butlast.simps(2) list.distinct(1))
    then show ?thesis using assms(1) by (simp add: listed_after_def)
  qed
  then show ?thesis by (simp add: listed_after_def)
qed

definition kahn_inv :: "tasks \<Rightarrow> (task_id, nat) btree \<Rightarrow> task_id list \<Rightarrow> task_id list \<Rightarrow> bool" where
  "kahn_inv tasks waiting ready order \<longleftrightarrow>
     (\<forall>b. bt_get waiting b = (if bt_contains tasks b then Some (pending tasks order b) else None)) \<and>
     sorted_wrt (<) ready \<and>
     set ready = {b. bt_contains tasks b \<and> b \<notin> set order \<and> pending tasks order b = 0} \<and>
     distinct order \<and> set order \<subseteq> {b. bt_contains tasks b \<and> pending tasks order b = 0} \<and> listed_after tasks order"

lemma kahn_step:
  assumes wf: "bt_wf tasks" and inv: "kahn_inv tasks waiting (i # rest) order"
    and run: "foldl release (waiting, rest) (links tasks i) = (waiting', ready')"
  shows "kahn_inv tasks waiting' ready' (order @ [i])"
proof -
  have waiting: "bt_get waiting b = (if bt_contains tasks b then Some (pending tasks order b) else None)" for b
    using inv by (simp add: kahn_inv_def)
  have ready: "insert i (set rest) = {b. bt_contains tasks b \<and> b \<notin> set order \<and> pending tasks order b = 0}"
    and sorted: "sorted_wrt (<) rest" "i \<notin> set rest"
    and order: "distinct order" "set order \<subseteq> {b. bt_contains tasks b \<and> pending tasks order b = 0}" "listed_after tasks order"
    using inv by (auto simp: kahn_inv_def)
  have i: "bt_contains tasks i" "i \<notin> set order" "pending tasks order i = 0" using ready by blast+
  have less: "pending tasks (order @ [i]) b + count_list (links tasks i) b = pending tasks order b" for b
    by (rule pending_snoc[OF wf i(1,2)])
  have released: "\<And>b. bt_get waiting' b = map_option (\<lambda>n. n - count_list (links tasks i) b) (bt_get waiting b)"
    "set ready' = set rest \<union> {b \<in> set (links tasks i). \<exists>n. bt_get waiting b = Some n \<and> n \<le> count_list (links tasks i) b}"
    "sorted_wrt (<) ready'"
    using release_all[OF sorted(1), of waiting "links tasks i"] by (simp_all add: released_def run)
  have "bt_get waiting' b = (if bt_contains tasks b then Some (pending tasks (order @ [i]) b) else None)" for b
    using released(1)[of b] less[of b] by (auto simp: waiting)
  moreover have "b \<in> set ready' \<longleftrightarrow> bt_contains tasks b \<and> b \<notin> set (order @ [i]) \<and> pending tasks (order @ [i]) b = 0" for b
  proof (cases "b \<in> set (links tasks i)")
    case True
    then have pos: "0 < count_list (links tasks i) b" by (metis count_list_0_iff gr0I)
    then have "pending tasks order b \<noteq> 0" using less[of b] by simp
    then have "b \<notin> insert i (set rest)" "b \<notin> set order" unfolding ready using order(2) by auto
    then show ?thesis using True less[of b] unfolding released(2) by (auto simp: waiting)
  next
    case False
    then have "pending tasks (order @ [i]) b = pending tasks order b" using less[of b] by (simp add: count_list_0_iff)
    moreover have "b \<in> set rest \<longleftrightarrow> bt_contains tasks b \<and> b \<notin> set order \<and> b \<noteq> i \<and> pending tasks order b = 0"
      using ready sorted(2) by blast
    ultimately show ?thesis using False unfolding released(2) by auto
  qed
  moreover have "set (order @ [i]) \<subseteq> {b. bt_contains tasks b \<and> pending tasks (order @ [i]) b = 0}"
  proof
    fix b assume "b \<in> set (order @ [i])"
    then have "bt_contains tasks b \<and> pending tasks order b = 0" using order(2) i by auto
    then show "b \<in> {b. bt_contains tasks b \<and> pending tasks (order @ [i]) b = 0}" using less[of b] by simp
  qed
  moreover have "listed_after tasks (order @ [i])"
    using order(3) i(3) by (intro listed_after_snoc) (auto simp: pending_zero)
  ultimately show ?thesis using released(3) order(1) i(2) unfolding kahn_inv_def by (auto simp del: set_append)
qed

lemma kahn_loop_ends:
  assumes "bt_wf tasks" "kahn_inv tasks waiting ready order" "length tasks < fuel + length order"
  shows "\<exists>order' waiting'. kahn_loop fuel tasks waiting ready order = Some order' \<and> kahn_inv tasks waiting' [] order'"
  using assms
proof (induction fuel arbitrary: waiting ready order)
  case 0
  have "distinct order" "set order \<subseteq> fst ` set tasks"
    using 0(2) by (auto simp: kahn_inv_def bt_contains_def map_of_eq_None_iff)
  then have "length order \<le> card (fst ` set tasks)" by (metis distinct_card card_mono finite_imageI List.finite_set)
  also have "\<dots> \<le> length tasks" by (meson card_image_le card_length le_trans List.finite_set)
  finally show ?case using 0(3) by simp
next
  case (Suc fuel)
  show ?case
  proof (cases ready)
    case Nil
    then show ?thesis using Suc.prems(2) by auto
  next
    case (Cons i rest)
    obtain waiting' ready' where run: "foldl release (waiting, rest) (links tasks i) = (waiting', ready')"
      by (cases "foldl release (waiting, rest) (links tasks i)")
    have "kahn_inv tasks waiting' ready' (order @ [i])"
      using kahn_step[OF Suc.prems(1) _ run] Suc.prems(2) Cons by simp
    from Suc.IH[OF Suc.prems(1) this] Suc.prems(3) show ?thesis by (simp add: Cons run)
  qed
qed

lemma map_of_keyed: "map_of (map (\<lambda>(i, _). (i, f i)) ts) b = map_option (\<lambda>_. f b) (map_of ts b)"
  by (induction ts) auto

lemma zero_keys: "distinct (map fst m) \<Longrightarrow> set (map fst (filter (\<lambda>(_, n). n = 0) m)) = {k. map_of m k = Some 0}"
  by force

lemma dependents_first_ends:
  assumes "bt_wf tasks"
  shows "\<exists>order waiting. dependents_first tasks (dependents_of tasks) = Some order \<and> kahn_inv tasks waiting [] order"
proof -
  let ?w = "map (\<lambda>(i, _). (i, length (get_vec (dependents_of tasks) i))) tasks"
  have w: "bt_get ?w b = (if bt_contains tasks b then Some (pending tasks [] b) else None)" for b
    using length_dependents[OF assms, of b] map_of_keyed[of "\<lambda>i. length (get_vec (dependents_of tasks) i)" tasks b]
    by (auto simp: bt_contains_def)
  have ws: "bt_wf ?w" using assms by (simp add: bt_wf_def case_prod_unfold comp_def)
  have "kahn_inv tasks ?w (map fst (filter (\<lambda>(_, n). n = 0) ?w)) []"
    unfolding kahn_inv_def
  proof (intro conjI allI)
    show "sorted_wrt (<) (map fst (filter (\<lambda>(_, n). n = 0) ?w))"
      using ws by (simp add: bt_wf_def sorted_wrt_map sorted_wrt_filter)
    show "set (map fst (filter (\<lambda>(_, n). n = 0) ?w)) = {b. bt_contains tasks b \<and> b \<notin> set [] \<and> pending tasks [] b = 0}"
      unfolding zero_keys[OF bt_wf_distinct[OF ws]] w by auto
  qed (auto simp: w listed_after_def)
  from kahn_loop_ends[OF assms this, of "length tasks + 1"] show ?thesis
    by (simp add: dependents_first_def Let_def)
qed

lemma order_complete:
  assumes "kahn_inv tasks waiting [] order" "acyclic (link_rel tasks)"
  shows "set order = {b. bt_contains tasks b}"
proof (rule ccontr)
  assume "set order \<noteq> {b. bt_contains tasks b}"
  moreover have "set order \<subseteq> {b. bt_contains tasks b}" using assms(1) by (auto simp: kahn_inv_def)
  ultimately obtain x where x: "x \<in> {b. bt_contains tasks b \<and> b \<notin> set order}" by auto
  have "link_rel tasks \<subseteq> fst ` set tasks \<times> fst ` set tasks"
    by (auto simp: link_rel_def bt_contains_def dest!: links_key map_of_SomeD intro: rev_image_eqI)
  then have "finite (link_rel tasks)" by (rule finite_subset) simp
  then have "wf (link_rel tasks)" using assms(2) by (rule finite_acyclic_wf)
  from wfE_min[OF this x] obtain z where z: "bt_contains tasks z" "z \<notin> set order"
    and least: "\<And>y. (y, z) \<in> link_rel tasks \<Longrightarrow> \<not> (bt_contains tasks y \<and> y \<notin> set order)" by auto
  have "pending tasks order z \<noteq> 0" using assms(1) z by (auto simp: kahn_inv_def)
  then obtain y where y: "z \<in> set (links tasks y)" "y \<notin> set order" by (auto simp: pending_zero)
  then have "(y, z) \<in> link_rel tasks" "bt_contains tasks y"
    using z(1) by (auto simp: link_rel_def bt_contains_def in_links)
  then show False using least y(2) by blast
qed

end
