(* ===== verification/Kanban_Shapes.thy ===== *)
theory Kanban_Shapes
  imports Kanban_Laws
begin

text \<open>
  What the wire door guarantees reaches the board: the shape of every task of a folded
  board follows from the shape of the acts the canonical door lets through.
\<close>

section \<open>The shape of acts\<close>

fun field_shape :: "task_field \<Rightarrow> bool" where
  "field_shape (FTitle s) = one_line s"
| "field_shape (FKind k) = (k \<noteq> None \<longrightarrow> one_line (the k))"
| "field_shape (FAssignees a) = (a \<noteq> [] \<and> [] \<notin> set a \<and> distinct a)"
| "field_shape (FBlockedBy b) = (distinct b \<and> list_all is_hex32 b)"
| "field_shape (FAcceptance xs) = list_all one_line xs"
| "field_shape (FOutOfScope xs) = list_all one_line xs"
| "field_shape _ = True"

fun act_shape :: "act \<Rightarrow> bool" where
  "act_shape (Add i creator fs) \<longleftrightarrow>
     (\<exists>x. i = Some x \<and> is_hex32 x) \<and> (\<exists>s. FTitle s \<in> set fs) \<and> (\<exists>a. FAssignees a \<in> set fs) \<and> list_all field_shape fs"
| "act_shape (SetAct i fs) \<longleftrightarrow> is_hex32 i \<and> list_all field_shape fs"
| "act_shape (StateAct i to note evidence) \<longleftrightarrow> is_hex32 i \<and> (evidence \<noteq> [] \<longrightarrow> to = Success)"

definition task_shape :: "task_id \<Rightarrow> task \<Rightarrow> bool" where
  "task_shape i t \<longleftrightarrow>
     is_hex32 i \<and> field_shape (FTitle (tk_title t)) \<and> field_shape (FKind (tk_kind t)) \<and>
     field_shape (FAssignees (tk_assignees t)) \<and> field_shape (FBlockedBy (tk_blocked_by t)) \<and>
     field_shape (FAcceptance (tk_acceptance t)) \<and> field_shape (FOutOfScope (tk_out_of_scope t)) \<and>
     (tk_state t \<in> {Fail, Cancelled} \<longrightarrow> (\<exists>n. tk_note t = Some n \<and> trim n \<noteq> [])) \<and>
     (tk_evidence t \<noteq> [] \<longrightarrow> tk_state t = Success)"

definition tasks_shaped :: "tasks \<Rightarrow> bool" where
  "tasks_shaped tasks \<longleftrightarrow> (\<forall>i t. bt_get tasks i = Some t \<longrightarrow> task_shape i t)"

section \<open>The canonical door\<close>

text \<open>\<open>parse_field\<close> alone leaves the ids of \<open>blocked_by\<close> to \<open>check_links\<close>.\<close>

definition field_but_ids :: "task_field \<Rightarrow> bool" where
  "field_but_ids f = (case f of FBlockedBy b \<Rightarrow> distinct b | _ \<Rightarrow> field_shape f)"

lemma length_bset_distinct: "length (bset_of_list xs) = length xs \<longleftrightarrow> distinct xs"
  by (metis length_bset_of_list card_distinct distinct_card)

lemma map_sum_Inr: "map_sum id f m = Inr y \<longleftrightarrow> (\<exists>x. m = Inr x \<and> y = f x)"
  by (cases m) auto

lemma null_list_Inr: "null_list v m = Inr xs \<Longrightarrow> xs = [] \<or> m = Inr xs"
  by (auto simp: null_list_def split: if_splits)

lemma line_list_Inr: "line_list v what = Inr xs \<Longrightarrow> list_all one_line xs"
  by (auto simp: line_list_def rbind_eq_Inr list_all_iff list_ex_iff split: if_splits)

definition ok_all :: "('a \<Rightarrow> bool) \<Rightarrow> 'e + 'a \<Rightarrow> bool" where
  "ok_all P m \<longleftrightarrow> (\<forall>x. m = Inr x \<longrightarrow> P x)"

lemma ok_all_if: "ok_all P a \<Longrightarrow> ok_all P b \<Longrightarrow> ok_all P (if c then a else b)"
  by simp

lemma ok_all_Inl: "ok_all P (Inl e)"
  by (simp add: ok_all_def)

lemma ok_all_rbind: "(\<And>x. ok_all P (f x)) \<Longrightarrow> ok_all P (rbind m f)"
  by (auto simp: ok_all_def rbind_eq_Inr)

lemma ok_all_Inr: "ok_all P m \<Longrightarrow> m = Inr x \<Longrightarrow> P x"
  by (simp add: ok_all_def)

lemma ok_all_field: "(\<And>x. m = Inr x \<Longrightarrow> P (C x)) \<Longrightarrow> ok_all P (map_sum id C m)"
  by (auto simp: ok_all_def map_sum_Inr)

lemma parse_field_but_ids: "ok_all field_but_ids (parse_field H key v)"
proof -
  note arms = ok_all_field rbind_eq_Inr length_bset_distinct list_ex_iff field_but_ids_def
  show ?thesis
    unfolding parse_field_def
    apply (intro ok_all_if ok_all_field)
                  apply (auto simp: ok_all_def arms split: option.splits if_splits)
    apply (auto dest!: null_list_Inr line_list_Inr)
    done
qed

text \<open>The canonical door takes task ids only.\<close>

lemma check_id_canonical: "check_id i Canonical refs s = Inr () \<Longrightarrow> is_hex32 s"
  by (simp add: check_id_def split: option.splits if_splits)

lemma id_of_canonical: "id_of i Canonical refs obj key = Inr s \<Longrightarrow> is_hex32 s"
  by (auto simp: id_of_def rbind_eq_Inr intro: check_id_canonical)

lemma fields_canonical:
  assumes "check_links i Canonical refs fs = Inr ()" "list_all field_but_ids fs"
  shows "list_all field_shape fs"
proof -
  have ids: "is_hex32 x" if "x \<in> set (links_of fs)" for x
    using assms(1) that by (auto simp: check_links_def rfold_unit_Inr intro: check_id_canonical)
  have "field_shape f" if "f \<in> set fs" for f
  proof (cases f)
    case (FBlockedBy b)
    then have "set b \<subseteq> set (links_of fs)" using that by (force simp: links_of_def)
    then show ?thesis
      using FBlockedBy that assms(2) ids by (auto simp: list_all_iff field_but_ids_def)
  qed (use that assms(2) in \<open>auto simp: list_all_iff field_but_ids_def\<close>)
  then show ?thesis by (simp add: list_all_iff)
qed

lemma add_fields_shape:
  assumes "rfold (add_field H i) [] obj = Inr fs"
  shows "list_all field_but_ids fs"
  using assms
  by (rule rfold_invariant[where I = "list_all field_but_ids"])
    (auto simp: add_field_def rbind_eq_Inr split: if_splits intro: ok_all_Inr[OF parse_field_but_ids])

lemma set_fields_shape:
  assumes "rfold (set_one H i dr) [] obj = Inr fs"
  shows "list_all field_but_ids fs"
  using assms
  by (rule rfold_invariant[where I = "list_all field_but_ids"])
    (auto simp: set_one_def rbind_eq_Inr split: if_splits intro: ok_all_Inr[OF parse_field_but_ids])

lemma add_id_canonical: "add_id i Canonical refs obj = Inr tid \<Longrightarrow> \<exists>x. tid = Some x \<and> is_hex32 x"
  by (auto simp: add_id_def rbind_eq_Inr split: option.splits if_splits intro: id_of_canonical)

lemma list_ex_title: "list_ex (\<lambda>f. case f of FTitle _ \<Rightarrow> True | _ \<Rightarrow> False) fs \<longleftrightarrow> (\<exists>s. FTitle s \<in> set fs)"
  by (induction fs) (auto split: task_field.splits)

lemma list_ex_assignees: "list_ex (\<lambda>f. case f of FAssignees _ \<Rightarrow> True | _ \<Rightarrow> False) fs \<longleftrightarrow> (\<exists>a. FAssignees a \<in> set fs)"
  by (induction fs) (auto split: task_field.splits)

lemma add_shape_has:
  assumes "add_shape i fs = Inr ()"
  shows "\<exists>s. FTitle s \<in> set fs" and "\<exists>a. FAssignees a \<in> set fs"
  using assms unfolding add_shape_def list_ex_title list_ex_assignees by (auto split: if_splits)

lemma parse_add_shape: "parse_add H i Canonical refs obj = Inr a \<Longrightarrow> act_shape a"
  unfolding parse_add_def rbind_eq_Inr
  using add_fields_shape fields_canonical add_id_canonical add_shape_has by fastforce

lemma parse_set_shape: "parse_set H i Canonical refs obj = Inr a \<Longrightarrow> act_shape a"
  unfolding parse_set_def rbind_eq_Inr
  using set_fields_shape fields_canonical id_of_canonical by fastforce

lemma evidence_shape:
  "(case e of None \<Rightarrow> Inr [] | Some v \<Rightarrow> if to \<noteq> Success then Inl x else m v) = Inr evidence
   \<Longrightarrow> evidence \<noteq> [] \<Longrightarrow> to = Success"
  by (cases e) (auto split: if_splits)

lemma parse_state_shape: "parse_state i Canonical refs obj = Inr a \<Longrightarrow> act_shape a"
  unfolding parse_state_def rbind_eq_Inr
  by (elim exE conjE) (auto dest: evidence_shape intro: id_of_canonical)

lemma parse_act_shape:
  assumes "parse_act H i v Canonical refs = Inr a"
  shows "act_shape a"
proof -
  have "ok_all act_shape (parse_act H i v Canonical refs)"
    unfolding parse_act_def
  proof (rule ok_all_rbind)
    fix obj
    have arms: "ok_all act_shape (parse_add H i Canonical refs obj)" "ok_all act_shape (parse_set H i Canonical refs obj)"
      "ok_all act_shape (parse_state i Canonical refs obj)"
      using parse_add_shape parse_set_shape parse_state_shape unfolding ok_all_def by blast+
    show "ok_all act_shape (case Option.bind (bt_get obj ''act'') as_str of
        None \<Rightarrow> Inl (at_op i ''act missing'')
      | Some a \<Rightarrow>
          if a = ''add'' then parse_add H i Canonical refs obj
          else if a = ''set'' then parse_set H i Canonical refs obj
          else if a = ''state'' then parse_state i Canonical refs obj
          else Inl (at_op i (''unknown act '' @ quoted a)))"
      by (cases "Option.bind (bt_get obj ''act'') as_str") (simp_all add: arms ok_all_Inl)
  qed
  then show ?thesis using assms by (rule ok_all_Inr)
qed

lemma collect_Inr: "collect f xs = Inr ys \<Longrightarrow> y \<in> set ys \<Longrightarrow> \<exists>x \<in> set xs. f x = Inr y"
  by (induction xs arbitrary: ys) (auto simp: rbind_eq_Inr)

lemma parse_changeset_shape:
  assumes "parse_changeset H v Canonical = Inr acts"
  shows "list_all act_shape acts"
proof -
  obtain refs xs where "collect (\<lambda>(i, opv). parse_act H i opv Canonical refs) xs = Inr acts"
    using assms by (auto simp: parse_changeset_def rbind_eq_Inr)
  then show ?thesis
    by (auto simp: list_all_iff dest!: collect_Inr intro: parse_act_shape)
qed

section \<open>The fold keeps the shape\<close>

lemma fold_set_field_fixed:
  "tk_state (fold set_field fs t) = tk_state t" "tk_note (fold set_field fs t) = tk_note t"
  "tk_evidence (fold set_field fs t) = tk_evidence t" "tk_creator (fold set_field fs t) = tk_creator t"
  by (induction fs arbitrary: t; simp; case_tac a; simp)+

lemma fold_set_field_title:
  assumes "list_all field_shape fs" "one_line (tk_title t) \<or> (\<exists>s. FTitle s \<in> set fs)"
  shows "one_line (tk_title (fold set_field fs t))"
  using assms
proof (induction fs arbitrary: t)
  case (Cons f fs)
  then show ?case by (cases f) auto
qed simp

lemma fold_set_field_assignees:
  assumes "list_all field_shape fs" "field_shape (FAssignees (tk_assignees t)) \<or> (\<exists>a. FAssignees a \<in> set fs)"
  shows "field_shape (FAssignees (tk_assignees (fold set_field fs t)))"
  using assms
proof (induction fs arbitrary: t)
  case (Cons f fs)
  then show ?case by (cases f) auto
qed simp

lemma fold_set_field_rest:
  assumes "list_all field_shape fs" "field_shape (FKind (tk_kind t))" "field_shape (FBlockedBy (tk_blocked_by t))"
    "field_shape (FAcceptance (tk_acceptance t))" "field_shape (FOutOfScope (tk_out_of_scope t))"
  shows "field_shape (FKind (tk_kind (fold set_field fs t))) \<and> field_shape (FBlockedBy (tk_blocked_by (fold set_field fs t)))
    \<and> field_shape (FAcceptance (tk_acceptance (fold set_field fs t)))
    \<and> field_shape (FOutOfScope (tk_out_of_scope (fold set_field fs t)))"
  using assms
proof (induction fs arbitrary: t)
  case (Cons f fs)
  then show ?case by (cases f) simp_all
qed simp

lemma transition_note:
  assumes "transition tasks i to note = Inr ()" "to \<in> {Fail, Cancelled}"
  shows "\<exists>n. note = Some n \<and> trim n \<noteq> []"
  using assms
  by (auto simp: transition_def needs_note_def rbind_eq_Inr split: option.splits if_splits task_state.splits)

lemma add_task_shape:
  "act_shape (Add (Some i) creator fs) \<Longrightarrow> task_shape i (fold set_field fs (new_task creator rv))"
  using fold_set_field_title[of fs "new_task creator rv"] fold_set_field_assignees[of fs "new_task creator rv"]
    fold_set_field_rest[of fs "new_task creator rv"]
  by (simp add: task_shape_def fold_set_field_fixed new_task_def)

lemma set_task_shape:
  "list_all field_shape fs \<Longrightarrow> task_shape i t \<Longrightarrow> task_shape i ((fold set_field fs t)\<lparr>tk_touched_rev := rv\<rparr>)"
  using fold_set_field_title[of fs t] fold_set_field_assignees[of fs t] fold_set_field_rest[of fs t]
  by (simp add: task_shape_def fold_set_field_fixed)

lemma state_task_shape:
  assumes "transition tasks i to note = Inr ()" "evidence = [] \<or> to = Success" "task_shape i t"
  shows "task_shape i (t\<lparr>tk_state := to, tk_note := note, tk_evidence := evidence, tk_touched_rev := rv\<rparr>)"
  using assms transition_note[OF assms(1)] by (auto simp: task_shape_def)

lemma tasks_shaped_insert: "tasks_shaped tasks \<Longrightarrow> task_shape i t \<Longrightarrow> tasks_shaped (bt_insert i t tasks)"
  by (simp add: tasks_shaped_def bt_get_insert)

lemma tasks_shapedD: "tasks_shaped tasks \<Longrightarrow> bt_get tasks i = Some t \<Longrightarrow> task_shape i t"
  by (simp add: tasks_shaped_def)

lemma apply_act_shaped:
  assumes "apply_act rv st a = Inr st'" "act_shape a" "tasks_shaped (fst st)"
  shows "tasks_shaped (fst st')"
proof (cases a)
  case (Add tid creator fs)
  then show ?thesis
    using assms
    by (auto simp: apply_act_def rbind_eq_Inr split: prod.splits if_splits intro!: tasks_shaped_insert add_task_shape; blast)
next
  case (SetAct i fs)
  then show ?thesis
    using assms
    by (auto simp: apply_act_def split: prod.splits option.splits
        intro!: tasks_shaped_insert set_task_shape intro: tasks_shapedD)
next
  case (StateAct i to why evidence)
  then show ?thesis
    using assms
    by (auto simp: apply_act_def rbind_eq_Inr split: prod.splits option.splits
        intro!: tasks_shaped_insert state_task_shape intro: tasks_shapedD)
qed

lemma fold_verdict_shaped:
  assumes "fold_verdict H board payload seats = Inr tasks" "tasks_shaped (bs_tasks board)"
  shows "tasks_shaped tasks"
proof -
  obtain acts touched where acts: "parse_changeset H payload Canonical = Inr acts"
    and run: "rfold (apply_act (sat_succ (bs_rev board))) (bs_tasks board, []) acts = Inr (tasks, touched)"
    using assms(1) by (auto simp: fold_verdict_def apply_changeset_def rbind_eq_Inr)
  have shaped: "\<forall>a \<in> set acts. act_shape a"
    using parse_changeset_shape[OF acts] by (simp add: list_all_iff)
  from run have "tasks_shaped (fst (tasks, touched))"
    by (rule rfold_invariant[where I = "\<lambda>st. tasks_shaped (fst st)"])
      (use shaped assms(2) in \<open>auto intro: apply_act_shaped\<close>)
  then show ?thesis by simp
qed

interpretation shaped_fold: kept_by "\<lambda>b p. fst (kanban_fold_one H b p seats)" "\<lambda>b. tasks_shaped (bs_tasks b)"
  for H seats
  by unfold_locales (auto simp: kanban_fold_one_def intro: fold_verdict_shaped split: sum.splits)

end
