(* ===== verification/Kanban_Props.thy ===== *)
theory Kanban_Props
  imports Kanban_Shapes
begin

text \<open>The theorems on the kanban board.\<close>

section \<open>Changes are stamped\<close>

definition stamped :: "tasks \<Rightarrow> u64 \<Rightarrow> tasks \<Rightarrow> bool" where
  "stamped before rv after \<longleftrightarrow>
     (\<forall>k. bt_get after k = bt_get before k \<or> (\<exists>t. bt_get after k = Some t \<and> tk_touched_rev t = rv))"

lemma fold_set_field_rev: "tk_touched_rev (fold set_field fs t) = tk_touched_rev t"
proof (induction fs arbitrary: t)
  case (Cons f fs)
  then show ?case by (cases f) auto
qed simp

lemma apply_act_stamped:
  assumes "apply_act rv st a = Inr st'" "stamped before rv (fst st)"
  shows "stamped before rv (fst st')"
  using assms
  by (auto simp: apply_act_def rbind_eq_Inr stamped_def bt_get_insert fold_set_field_rev new_task_def
      split: prod.splits act.splits option.splits if_splits)

lemma fold_verdict_stamped:
  assumes "fold_verdict H board payload seats = Inr tasks"
  shows "stamped (bs_tasks board) (sat_succ (bs_rev board)) tasks"
proof -
  obtain acts touched where
    run: "rfold (apply_act (sat_succ (bs_rev board))) (bs_tasks board, []) acts = Inr (tasks, touched)"
    using assms by (auto simp: fold_verdict_def apply_changeset_def rbind_eq_Inr)
  from run have "stamped (bs_tasks board) (sat_succ (bs_rev board)) (fst (tasks, touched))"
    by (rule rfold_invariant[where I = "\<lambda>st. stamped (bs_tasks board) (sat_succ (bs_rev board)) (fst st)"])
      (auto simp: stamped_def[of _ _ "bs_tasks board"] intro: apply_act_stamped)
  then show ?thesis by simp
qed

section \<open>Revisions\<close>

definition is_changeset :: "json \<Rightarrow> bool" where
  "is_changeset payload \<longleftrightarrow> get_str payload ''op'' = Some ''kanban_ops''"

lemma fold_one_rev:
  "bs_rev (fst (kanban_fold_one H board payload seats)) =
   (if is_changeset payload then sat_succ (bs_rev board) else bs_rev board)"
  by (simp add: kanban_fold_one_def is_changeset_def split: sum.splits)

lemma u64_less: "unat (n :: u64) < 2 ^ 64"
  using unsigned_less[of n] by simp

lemma unat_sat_succ: "unat (sat_succ n) = min (2 ^ 64 - 1) (unat n + 1)"
proof (cases "n = - 1")
  case True
  then show ?thesis by (simp add: sat_succ_def unsigned_minus_1_eq_mask mask_eq_exp_minus_1)
next
  case False
  have "unat n \<noteq> 2 ^ 64 - 1"
    using False by (auto simp: word_unat_eq_iff unsigned_minus_1_eq_mask mask_eq_exp_minus_1)
  then show ?thesis using False u64_less[of n] by (simp add: sat_succ_def unat_word_ariths)
qed

definition lifecycle :: "task \<Rightarrow> (task_state \<times> task_state) set" where
  "lifecycle t =
     (if is_series t then {(Todo, Cancelled), (Cancelled, Todo)}
      else {(Todo, Wip), (Wip, Todo), (Wip, Success), (Wip, Fail), (Fail, Wip), (Todo, Cancelled), (Wip, Cancelled),
            (Fail, Cancelled), (Success, Todo), (Fail, Todo), (Cancelled, Todo)}
           \<union> (if is_timed_once t then {(Todo, Success), (Todo, Fail)} else {}))"

lemma unmet_None: "unmet_prerequisite tasks t = None \<longleftrightarrow>
    (\<forall>b \<in> set (tk_blocked_by t). \<exists>p. bt_get tasks b = Some p \<and> is_met (tk_state p))"
  by (auto simp: unmet_prerequisite_def find_map_eq_None split: option.splits if_splits)

lemma blocked_guard_iff: "blocked_guard tasks i t verb = Inr () \<longleftrightarrow> unmet_prerequisite tasks t = None"
  by (auto simp: blocked_guard_def split: option.splits)

lemma needs_note_iff: "needs_note i to note = Inr () \<longleftrightarrow> (\<exists>n. note = Some n \<and> trim n \<noteq> [])"
  by (auto simp: needs_note_def split: option.splits)

section \<open>The theorems\<close>

text \<open>C33: The search for a cycle is exact. When it names a task, that task lies on a cycle of
  \<open>blocked_by\<close> links and is reached from one of the tasks the search started at; when it names
  none, no cycle can be reached from any of them.\<close>

theorem find_cycle_is_exact:
  "case find_cycle tasks roots of
     Some b \<Rightarrow> (b, b) \<in> (link_rel tasks)\<^sup>+ \<and> (\<exists>r. r \<in> set roots \<and> bt_contains tasks r \<and> (r, b) \<in> (link_rel tasks)\<^sup>+)
   | None \<Rightarrow> \<not> (\<exists>r c. r \<in> set roots \<and> bt_contains tasks r \<and> (r, c) \<in> (link_rel tasks)\<^sup>* \<and> (c, c) \<in> (link_rel tasks)\<^sup>+)"
proof (cases "find_cycle tasks roots")
  case None
  then show ?thesis using find_cycle_None[OF None] by auto
next
  case (Some b)
  then show ?thesis using find_cycle_Some[OF Some] by auto
qed

text \<open>C32: Every folded board keeps the rules, whatever the history: the creator and the
  assignees of each task hold seats, a task may start no later than it is due, a series has a
  window and is only open or cancelled, its exceptions are occurrences of it, and the links
  of a task lead to other tasks of the board, join no series, and form no cycle.\<close>

theorem folded_board_keeps_its_rules:
  "board_rules H seats (bs_tasks (kanban_fold H applied seats))"
  by (rule folded_rules)

text \<open>C35: What the wire door checks of a changeset holds of every task of a folded board: ids
  are 32 hex digits, titles, types and list items are single lines, assignees are a non-empty
  list without repetition, links are ids without repetition, a failed or cancelled task says
  why, and only a successful one carries evidence.\<close>

theorem folded_tasks_are_well_formed:
  "tasks_shaped (bs_tasks (kanban_fold H applied seats))"
  unfolding kanban_fold_def kanban_fold_onto_def
  by (rule shaped_fold.fold_keeps) (simp add: board_default_def tasks_shaped_def)

text \<open>The fold of one payload changes a board as little as it says: a payload of another
  kind changes nothing, a void changeset changes the revision only, and after an applied one
  every task that is new or different carries the new revision, with no task lost.\<close>

theorem fold_step_is_all_or_nothing:
  "case kanban_fold_one H board payload seats of (board', outcome) \<Rightarrow>
     (case outcome of
        Skipped \<Rightarrow> board' = board \<and> \<not> is_changeset payload
      | VoidStep why \<Rightarrow> bs_tasks board' = bs_tasks board \<and> bs_rev board' = sat_succ (bs_rev board)
          \<and> (\<exists>f. kanban_precheck H board payload seats = Inl f \<and> bf_reason f = why)
      | AppliedStep \<Rightarrow> bs_rev board' = sat_succ (bs_rev board) \<and> stamped (bs_tasks board) (bs_rev board') (bs_tasks board')
          \<and> kanban_precheck H board payload seats = Inr ())"
  by (auto simp: kanban_fold_one_def is_changeset_def kanban_precheck_def split: sum.splits intro: fold_verdict_stamped)

text \<open>The revision of a folded board counts its changesets, void ones included, and stops
  at the largest 64-bit number instead of wrapping.\<close>

theorem board_revision_counts_changesets:
  "unat (bs_rev (kanban_fold H applied seats)) = min (2 ^ 64 - 1) (length (filter is_changeset applied))"
proof -
  have "unat (bs_rev (foldl (\<lambda>b p. fst (kanban_fold_one H b p seats)) b applied)) =
      min (2 ^ 64 - 1) (unat (bs_rev b) + length (filter is_changeset applied))" for b
  proof (induction applied arbitrary: b)
    case Nil
    then show ?case using u64_less[of "bs_rev b"] by simp
  next
    case (Cons p ps)
    then show ?case by (simp add: fold_one_rev unat_sat_succ min_def)
  qed
  then show ?thesis by (simp add: kanban_fold_def kanban_fold_onto_def board_default_def)
qed

text \<open>A state change is allowed exactly by the lifecycle: the pair of states is an edge of
  it (from open straight to success or failure only for a single timed task, a series only
  closes and reopens), starting and closing an open task waits for every prerequisite, and
  failing or cancelling needs a note that is not blank.\<close>

theorem transition_is_the_lifecycle:
  "transition tasks i to note = Inr () \<longleftrightarrow>
   (\<exists>t. bt_get tasks i = Some t \<and> (tk_state t, to) \<in> lifecycle t \<and>
      (tk_state t \<in> {Wip, Success, Fail, Cancelled} \<or> to = Cancelled
       \<or> {b \<in> set (tk_blocked_by t). \<nexists>p. bt_get tasks b = Some p \<and> is_met (tk_state p)} = {}) \<and>
      (to \<in> {Todo, Wip, Success} \<or> (\<exists>n. note = Some n \<and> trim n \<noteq> [])))"
proof (cases "bt_get tasks i")
  case None
  then show ?thesis by (simp add: transition_def)
next
  case (Some t)
  show ?thesis
    unfolding transition_def Some
    by (cases "tk_state t"; cases to; cases "is_series t"; cases "is_timed_once t")
      (auto simp: lifecycle_def blocked_guard_iff needs_note_iff unmet_None rbind_unit)
qed

end
