(* ===== verification/Kanban_Plan.thy ===== *)
theory Kanban_Plan
  imports Kanban_Order Kanban_Props
begin

text \<open>
  What \<open>derive\<close> says of a folded board: the date a task is needed by is the earliest due date
  of the open work behind it, a task is stuck exactly when a chain of waiting tasks leads to
  a failed one, and the list of an assignee holds exactly the work that can be done now.
\<close>

section \<open>Least dates\<close>

definition least_of :: "'a::linorder set \<Rightarrow> 'a option" where
  "least_of A = (if A = {} then None else Some (Min A))"

lemma least_of_Some: "finite A \<Longrightarrow> least_of A = Some m \<longleftrightarrow> m \<in> A \<and> (\<forall>x \<in> A. m \<le> x)"
  by (auto simp: least_of_def intro: Min_eqI Min_in)

lemma least_of_eqI:
  assumes "finite A" "finite B" "\<And>x. x \<in> A \<Longrightarrow> \<exists>y \<in> B. y \<le> x" "\<And>y. y \<in> B \<Longrightarrow> \<exists>x \<in> A. x \<le> y"
  shows "least_of A = least_of B"
proof (cases "A = {}")
  case True
  then show ?thesis using assms(4) by (auto simp: least_of_def)
next
  case False
  then have "Min A \<in> A" using assms(1) by simp
  then obtain y where y: "y \<in> B" "y \<le> Min A" using assms(3) by blast
  obtain x where x: "x \<in> A" "x \<le> Min B" using assms(2,4) y(1) by (metis Min_in empty_iff)
  have "Min A \<le> Min B" using x Min_le[OF assms(1) x(1)] by simp
  moreover have "Min B \<le> Min A" using y Min_le[OF assms(2) y(1)] by simp
  ultimately show ?thesis using False y(1) by (auto simp: least_of_def)
qed

lemma min_date_least: "min_date ds = least_of (set ds)"
proof (cases ds)
  case (Cons d rest)
  have "fold min rest d = Min (set (d # rest))" by (simp only: Min.set_eq_fold)
  then show ?thesis by (simp add: Cons min_date_def least_of_def)
qed (simp add: min_date_def least_of_def)

lemma least_of_join:
  assumes "finite A" "finite I" "\<And>j. j \<in> I \<Longrightarrow> finite (D j)"
  shows "least_of (A \<union> {m. \<exists>j \<in> I. least_of (D j) = Some m}) = least_of (A \<union> (\<Union>j \<in> I. D j))"
proof (rule least_of_eqI)
  have "{m. \<exists>j \<in> I. least_of (D j) = Some m} = Some -` ((\<lambda>j. least_of (D j)) ` I)"
    by (auto simp: image_iff) (metis)
  then show "finite (A \<union> {m. \<exists>j \<in> I. least_of (D j) = Some m})"
    using assms(1,2) by (simp add: finite_vimageI)
  show "finite (A \<union> (\<Union>j \<in> I. D j))" using assms by auto
next
  fix x assume "x \<in> A \<union> {m. \<exists>j \<in> I. least_of (D j) = Some m}"
  then show "\<exists>y \<in> A \<union> (\<Union>j \<in> I. D j). y \<le> x"
    using assms(3) by (auto simp: least_of_Some intro: bexI[of _ x])
next
  fix y assume "y \<in> A \<union> (\<Union>j \<in> I. D j)"
  then consider "y \<in> A" | j where "j \<in> I" "y \<in> D j" by auto
  then show "\<exists>x \<in> A \<union> {m. \<exists>j \<in> I. least_of (D j) = Some m}. x \<le> y"
  proof cases
    case (2 j)
    then have "least_of (D j) = Some (Min (D j))" by (auto simp: least_of_def)
    moreover have "Min (D j) \<le> y" using 2 assms(3) by simp
    ultimately show ?thesis using 2(1) by (intro bexI[of _ "Min (D j)"]) auto
  qed auto
qed

section \<open>Needed by\<close>

text \<open>
  \<open>open_links\<close> joins an open task to an open prerequisite. A date is wanted of a task when it is
  the due date of an open task that needs it, directly or through others.
\<close>

definition open_links :: "tasks \<Rightarrow> (task_id \<times> task_id) set" where
  "open_links tasks = {(a, b) \<in> link_rel tasks. open_task tasks a \<and> open_task tasks b}"

definition wanted :: "tasks \<Rightarrow> task_id \<Rightarrow> naive_date set" where
  "wanted tasks i =
     {d. open_task tasks i \<and> (\<exists>j t. (j, i) \<in> (open_links tasks)\<^sup>* \<and> bt_get tasks j = Some t \<and> tk_due t = Some d)}"

lemma finite_wanted: "finite (wanted tasks i)"
proof -
  have "wanted tasks i \<subseteq> (\<lambda>x. the (tk_due (snd x))) ` set tasks"
    by (force simp: wanted_def dest: map_of_SomeD)
  then show ?thesis by (rule finite_subset) simp
qed

lemma wanted_unfold:
  assumes "bt_get tasks i = Some t" "is_open t"
  shows "wanted tasks i = set (opt_list (tk_due t)) \<union> (\<Union>j \<in> {j. (j, i) \<in> open_links tasks}. wanted tasks j)"
proof -
  have opn: "open_task tasks i" using assms by (simp add: open_task_def)
  have opens: "open_task tasks j" if "(j, i) \<in> open_links tasks" for j using that by (simp add: open_links_def)
  have split: "(j, i) \<in> (open_links tasks)\<^sup>* \<longleftrightarrow> j = i \<or> (\<exists>k. (j, k) \<in> (open_links tasks)\<^sup>* \<and> (k, i) \<in> open_links tasks)" for j
    by (metis rtrancl.simps)
  show ?thesis
    unfolding wanted_def split using assms(1) opn opens by (auto simp: opt_list_def split: option.splits)
qed

lemma need_step_eq:
  assumes "bt_get tasks i = Some t" "is_open t" "bt_wf tasks"
    and known: "\<And>j. (j, i) \<in> open_links tasks \<Longrightarrow> bt_get nb j = least_of (wanted tasks j)"
  shows "bt_get (need_step tasks (dependents_of tasks) i nb) i = (case least_of (wanted tasks i) of None \<Rightarrow> bt_get nb i | Some d \<Rightarrow> Some d)"
proof -
  let ?down = "List.map_filter (bt_get nb) (filter (open_task tasks) (get_vec (dependents_of tasks) i))"
  have i: "bt_contains tasks i" "open_task tasks i" using assms(1,2) by (simp_all add: bt_contains_def open_task_def)
  have deps: "{j \<in> set (get_vec (dependents_of tasks) i). open_task tasks j} = {j. (j, i) \<in> open_links tasks}"
    using i by (auto simp: set_dependents[OF assms(3)] open_links_def link_rel_def)
  have "set ?down = {m. \<exists>j. (j, i) \<in> open_links tasks \<and> bt_get nb j = Some m}"
    using deps by (auto simp: map_filter_def image_iff) (metis (mono_tags) mem_Collect_eq option.sel option.discI)+
  then have down: "set ?down = {m. \<exists>j \<in> {j. (j, i) \<in> open_links tasks}. least_of (wanted tasks j) = Some m}"
    using known by auto
  have fin: "finite {j. (j, i) \<in> open_links tasks}" unfolding deps[symmetric] by simp
  have "min_date (opt_list (tk_due t) @ ?down) = least_of (wanted tasks i)"
    unfolding min_date_least set_append down
    by (subst least_of_join[OF _ fin]) (simp_all add: finite_wanted wanted_unfold[OF assms(1,2)])
  then show ?thesis using assms(1,2) by (simp add: need_step_def bt_get_insert split: option.splits)
qed

lemma need_step_other: "k \<noteq> i \<Longrightarrow> bt_get (need_step tasks deps i nb) k = bt_get nb k"
  by (simp add: need_step_def bt_get_insert Let_def split: option.splits)

lemma wanted_closed: "\<not> open_task tasks i \<Longrightarrow> wanted tasks i = {}"
  by (simp add: wanted_def)

lemma needed_by_correct:
  assumes "bt_wf tasks" "listed_after tasks order" "distinct order" "set order \<subseteq> {b. bt_contains tasks b}"
  shows "bt_get (fold (need_step tasks (dependents_of tasks)) order []) i =
    (if i \<in> set order then least_of (wanted tasks i) else None)"
  using assms(2-)
proof (induction order arbitrary: i rule: rev_induct)
  case (snoc x order)
  have prefix: "listed_after tasks order"
    using snoc.prems(1) by (auto simp: listed_after_def)
  have before: "{i. x \<in> set (links tasks i)} \<subseteq> set order"
    using snoc.prems(1) by (simp add: listed_after_def)
  have IH: "bt_get (fold (need_step tasks (dependents_of tasks)) order []) j =
      (if j \<in> set order then least_of (wanted tasks j) else None)" for j
    using snoc.IH[OF prefix] snoc.prems by simp
  show ?case
  proof (cases "i = x")
    case False
    then show ?thesis using IH[of i] by (simp add: need_step_other)
  next
    case True
    obtain t where t: "bt_get tasks x = Some t" using snoc.prems(3) by (auto simp: bt_contains_def)
    show ?thesis
    proof (cases "is_open t")
      case False
      then have "wanted tasks x = {}" using t by (intro wanted_closed) (simp add: open_task_def)
      moreover have "need_step tasks (dependents_of tasks) x m = m" for m using False t by (simp add: need_step_def)
      ultimately show ?thesis using True IH[of x] snoc.prems(2) by (simp add: least_of_def)
    next
      case opn: True
      have "bt_get (fold (need_step tasks (dependents_of tasks)) order []) j = least_of (wanted tasks j)"
        if "(j, x) \<in> open_links tasks" for j
        using IH[of j] before that by (auto simp: open_links_def link_rel_def)
      from need_step_eq[OF t opn assms(1) this] show ?thesis
        using True IH[of x] snoc.prems(2) by (cases "least_of (wanted tasks x)") simp_all
    qed
  qed
qed simp

section \<open>Stuck\<close>

inductive waits_on_fail :: "tasks \<Rightarrow> task_id \<Rightarrow> bool" for tasks where
  on_failed: "bt_get tasks i = Some t \<Longrightarrow> tk_state t = Todo \<Longrightarrow> b \<in> set (tk_blocked_by t) \<Longrightarrow> bt_get tasks b = Some p
    \<Longrightarrow> tk_state p = Fail \<Longrightarrow> waits_on_fail tasks i"
| on_waiting: "bt_get tasks i = Some t \<Longrightarrow> tk_state t = Todo \<Longrightarrow> b \<in> set (tk_blocked_by t) \<Longrightarrow> waits_on_fail tasks b
    \<Longrightarrow> waits_on_fail tasks i"

lemma waits_on_fail_task: "waits_on_fail tasks i \<Longrightarrow> \<exists>t. bt_get tasks i = Some t \<and> tk_state t = Todo"
  by (induction rule: waits_on_fail.induct) auto

inductive_simps waits_on_fail_unfold: "waits_on_fail tasks i"

lemma prerequisite_listed_later:
  assumes "listed_after tasks (xs @ x # ys)" "distinct (xs @ x # ys)" "b \<in> set (links tasks x)" "b \<in> set (xs @ x # ys)"
  shows "b \<in> set ys"
proof -
  have first: "x \<in> set us" if "xs @ x # ys = us @ b # vs" for us vs
    using assms(1,3) that by (auto simp: listed_after_def)
  have "b \<noteq> x" using first[of xs ys] assms(2) by auto
  moreover have "b \<notin> set xs"
  proof
    assume "b \<in> set xs"
    then obtain us vs where "xs = us @ b # vs" by (auto dest: split_list)
    then show False using first[of us "vs @ x # ys"] assms(2) by auto
  qed
  ultimately show ?thesis using assms(4) by auto
qed

lemma stuck_correct:
  assumes "listed_after tasks (xs @ ys)" "distinct (xs @ ys)" "set (xs @ ys) = {b. bt_contains tasks b}"
  shows "set (fold (stuck_step tasks) (rev ys) []) = {i \<in> set ys. waits_on_fail tasks i}"
  using assms
proof (induction ys arbitrary: xs)
  case (Cons x ys)
  let ?S = "fold (stuck_step tasks) (rev ys) []"
  have IH: "set ?S = {i \<in> set ys. waits_on_fail tasks i}"
    using Cons.IH[of "xs @ [x]"] Cons.prems by simp
  obtain t where t: "bt_get tasks x = Some t" using Cons.prems(3) by (auto simp: bt_contains_def)
  have later: "waits_on_fail tasks b \<longleftrightarrow> b \<in> set ?S" if "b \<in> set (tk_blocked_by t)" for b
  proof -
    have "b \<in> set ys" if "waits_on_fail tasks b"
    proof (rule prerequisite_listed_later[OF Cons.prems(1,2)])
      show "b \<in> set (links tasks x)" using \<open>b \<in> set (tk_blocked_by t)\<close> t by (simp add: links_def)
      show "b \<in> set (xs @ x # ys)"
        using waits_on_fail_task[OF that] unfolding Cons.prems(3) by (auto simp: bt_contains_def)
    qed
    then show ?thesis unfolding IH by blast
  qed
  have "waits_on_fail tasks x \<longleftrightarrow> x \<in> set (stuck_step tasks x ?S) - set ys"
  proof -
    have "x \<notin> set ys" using Cons.prems(2) by simp
    moreover have "x \<notin> set ?S" using calculation unfolding IH by simp
    moreover have "waits_on_fail tasks x \<longleftrightarrow> tk_state t = Todo \<and>
        (\<exists>b \<in> set (tk_blocked_by t). (\<exists>p. bt_get tasks b = Some p \<and> tk_state p = Fail) \<or> b \<in> set ?S)"
      unfolding waits_on_fail_unfold[of tasks x] using t later by auto
    ultimately show ?thesis using t by (auto simp: stuck_step_def list_ex_iff split: option.splits)
  qed
  moreover have "set (stuck_step tasks x ?S) - {x} = set ?S - {x}"
    using t by (auto simp: stuck_step_def)
  moreover have "x \<notin> set ys" using Cons.prems(2) by simp
  ultimately show ?case using IH by auto
qed simp

section \<open>What comes next\<close>

lemma get_vec_default: "get_vec (entry_default k m) k' = get_vec m k'"
  by (auto simp: get_vec_def entry_default_def bt_get_insert bt_contains_def split: option.splits)

lemma get_vec_defaults: "get_vec (fold entry_default ks m) k = get_vec m k"
  by (induction ks arbitrary: m) (simp_all add: get_vec_default)

lemma get_vec_assign: "set (get_vec (fold (\<lambda>a m. entry_push a i m) as m) a) = set (get_vec m a) \<union> (if a \<in> set as then {i} else {})"
  by (induction as arbitrary: m) (auto simp: get_vec_push)

lemma set_next_pass:
  "set (get_vec (next_pass tasks today prio pw nxt) a) =
   set (get_vec nxt a) \<union> {i \<in> set prio. \<exists>t. bt_get tasks i = Some t \<and> a \<in> set (tk_assignees t) \<and> takes tasks today pw t}"
  unfolding next_pass_def
  by (induction prio arbitrary: nxt) (auto simp: for_task_def get_vec_assign split: option.splits)

lemma get_vec_start: "get_vec (fold (for_task tasks (\<lambda>_ t m. fold entry_default (tk_assignees t) m)) prio m) a = get_vec m a"
  by (induction prio arbitrary: m) (auto simp: for_task_def get_vec_defaults split: option.splits)

lemma set_next_of:
  "set (get_vec (next_of tasks today prio) a) =
   {i \<in> set prio. \<exists>t. bt_get tasks i = Some t \<and> a \<in> set (tk_assignees t) \<and> (takes tasks today True t \<or> takes tasks today False t)}"
  unfolding next_of_def Let_def set_next_pass get_vec_start by (auto simp: get_vec_def)

lemma set_priority:
  "bt_wf tasks \<Longrightarrow> set (priority_of tasks nb) = {i. \<exists>t. bt_get tasks i = Some t \<and> is_open t \<and> \<not> is_series t}"
  using bt_wf_distinct[of tasks] by (force simp: priority_of_def)

lemma unmet_iff:
  assumes "task_rules H tasks seats i t"
  shows "\<not> unmet tasks t \<longleftrightarrow> unmet_prerequisite tasks t = None"
  using assms by (fastforce simp: unmet_def unmet_None list_ex_iff task_rules_def)

lemma can_start_iff:
  assumes "task_rules H tasks seats i t" "bt_get tasks i = Some t" "tk_state t = Todo"
  shows "transition tasks i Wip None = Inr () \<longleftrightarrow> \<not> is_series t \<and> \<not> unmet tasks t"
  using unmet_iff[OF assms(1)] assms(2,3) by (simp add: transition_def blocked_guard_iff)

lemma next_exact:
  assumes "board_rules H seats tasks"
  shows "set (get_vec (next_of tasks today (priority_of tasks nb)) a) =
    {i. \<exists>t. bt_get tasks i = Some t \<and> a \<in> set (tk_assignees t) \<and>
       (tk_state t = Wip \<or> tk_state t = Todo \<and> \<not> after_today today t \<and> transition tasks i Wip None = Inr ())}"
proof -
  have rules: "task_rules H tasks seats i t" if "bt_get tasks i = Some t" for i t
    using assms that by (simp add: board_rules_def)
  have wf: "bt_wf tasks" using assms by (simp add: board_rules_def)
  have series: "\<not> is_series t" if "bt_get tasks i = Some t" "tk_state t = Wip" for i t
    using rules[OF that(1)] that(2) by (auto simp: task_rules_def)
  show ?thesis
    unfolding set_next_of set_priority[OF wf]
    using series can_start_iff[OF rules] by (auto simp: takes_def is_open_def)
qed

section \<open>The derivation of a folded board\<close>

lemma board_order:
  assumes "board_rules H seats tasks"
  obtains order where "dependents_first tasks (dependents_of tasks) = Some order" "distinct order"
    "set order = {b. bt_contains tasks b}" "listed_after tasks order"
proof -
  have wf: "bt_wf tasks" and acyclic: "acyclic (link_rel tasks)" using assms by (auto simp: board_rules_def)
  obtain order waiting where order: "dependents_first tasks (dependents_of tasks) = Some order" "kahn_inv tasks waiting [] order"
    using dependents_first_ends[OF wf] by blast
  then show ?thesis
    using that order_complete[OF order(2) acyclic] by (auto simp: kahn_inv_def)
qed

lemma fold_insert_keyed:
  "bt_get (fold (\<lambda>(i, t) m. bt_insert i (f i t) m) ts m) k =
   (case bt_get (rev ts) k of None \<Rightarrow> bt_get m k | Some t \<Rightarrow> Some (f k t))"
  by (induction ts arbitrary: m) (auto simp: bt_get_insert map_add_def map_of_append split: option.splits)

lemma bt_get_rev: "bt_wf m \<Longrightarrow> bt_get (rev m) k = bt_get m k"
  using bt_wf_distinct[of m] map_of_inject_set[of "rev m" m] by (simp add: rev_map[symmetric])

lemma derive_exact:
  assumes "board_rules H seats (bs_tasks board)"
  shows "\<exists>D. derive H board today = Some D \<and>
    (\<forall>i. map_option (\<lambda>x. (td_needed_by x, td_stuck x)) (bt_get (dv_tasks D) i) =
         map_option (\<lambda>t. (least_of (wanted (bs_tasks board) i), waits_on_fail (bs_tasks board) i)) (bt_get (bs_tasks board) i)) \<and>
    (\<exists>nb. dv_next D = next_of (bs_tasks board) today (priority_of (bs_tasks board) nb))"
proof -
  let ?tasks = "bs_tasks board"
  have wf: "bt_wf ?tasks" using assms by (simp add: board_rules_def)
  obtain order where order: "dependents_first ?tasks (dependents_of ?tasks) = Some order" "distinct order"
    "set order = {b. bt_contains ?tasks b}" "listed_after ?tasks order"
    using board_order[OF assms] .
  note need = needed_by_correct[OF wf order(4,2)] and stuck = stuck_correct[of ?tasks "[]" order]
  obtain D where D: "derive H board today = Some D" by (simp add: derive_def Let_def order(1))
  have "map_option (\<lambda>x. (td_needed_by x, td_stuck x)) (bt_get (dv_tasks D) i) =
         map_option (\<lambda>t. (least_of (wanted ?tasks i), waits_on_fail ?tasks i)) (bt_get ?tasks i)" for i
    using D need[of i] stuck order(2-)
    by (cases "bt_get ?tasks i")
      (auto simp: derive_def Let_def order(1) fold_insert_keyed bt_get_rev wf derive_task_def bt_contains_def)
  moreover have "\<exists>nb. dv_next D = next_of ?tasks today (priority_of ?tasks nb)"
    using D by (auto simp: derive_def Let_def order(1))
  ultimately show ?thesis using D by blast
qed

text \<open>C37: The order behind every derivation is total on a folded board: the search for it ends
  within one turn per task, and it lists every task exactly once, after all the tasks that
  depend on it.\<close>

theorem order_of_a_folded_board:
  "let tasks = bs_tasks (kanban_fold H applied seats) in
   \<exists>order. dependents_first tasks (dependents_of tasks) = Some order
     \<and> distinct order \<and> set order = {b. bt_contains tasks b} \<and> listed_after tasks order"
  unfolding Let_def using board_order[OF folded_rules] by metis

text \<open>C36: On a folded board the date a task is needed by is the least due date of the open
  tasks that need it, directly or through other open tasks, itself included, and the task is
  stuck exactly when a chain of waiting tasks leads from it to a failed one.\<close>

theorem derived_dates_are_exact:
  "let board = kanban_fold H applied seats; tasks = bs_tasks board in
   \<exists>D. derive H board today = Some D \<and>
     (\<forall>i. map_option (\<lambda>x. (td_needed_by x, td_stuck x)) (bt_get (dv_tasks D) i) =
          map_option (\<lambda>t. (least_of (wanted tasks i), waits_on_fail tasks i)) (bt_get tasks i))"
  unfolding Let_def using derive_exact[OF folded_rules[of H seats applied]] by blast

text \<open>The list of what comes next for an assignee holds exactly the assignee's tasks in
  progress and those the lifecycle lets start now: a task the list proposes is never refused
  when it is started, and no task that could be started is left out.\<close>

theorem next_is_what_can_start:
  "let board = kanban_fold H applied seats; tasks = bs_tasks board in
   \<exists>D. derive H board today = Some D \<and>
     set (get_vec (dv_next D) a) =
     {i. \<exists>t. bt_get tasks i = Some t \<and> a \<in> set (tk_assignees t) \<and>
        (tk_state t = Wip \<or> tk_state t = Todo \<and> \<not> after_today today t \<and> transition tasks i Wip None = Inr ())}"
proof -
  obtain D nb where "derive H (kanban_fold H applied seats) today = Some D"
    "dv_next D = next_of (bs_tasks (kanban_fold H applied seats)) today (priority_of (bs_tasks (kanban_fold H applied seats)) nb)"
    using derive_exact[OF folded_rules[of H seats applied]] by blast
  then show ?thesis unfolding Let_def using next_exact[OF folded_rules[of H seats applied]] by auto
qed

end
