(* ===== verification/Kanban_Series.thy ===== *)
theory Kanban_Series
  imports Kanban_Calendar
begin

text \<open>
  The arithmetic of daily and weekly series: the jump to the next occurrence is the walk to it,
  and the position of an occurrence is the number of occurrences before it.
\<close>

section \<open>Days of a series\<close>

definition series_date :: "chrono \<Rightarrow> naive_date \<Rightarrow> repeat_rule \<Rightarrow> naive_date \<Rightarrow> bool" where
  "series_date H start r d \<longleftrightarrow> start \<le> d \<and> position H start r d \<noteq> None"

text \<open>Weekdays repeat every seven days.\<close>

definition weekdays_cycle :: "chrono \<Rightarrow> bool" where
  "weekdays_cycle H \<longleftrightarrow> (\<exists>c. \<forall>d. int (num_days_from_monday (nd_weekday H d)) = (d + c) mod 7)"

text \<open>Day \<open>x\<close> of a weekly series, counted from the Monday before its start.\<close>

definition week_day :: "u8 \<Rightarrow> nat \<Rightarrow> nat \<Rightarrow> bool" where
  "week_day msk interval x \<longleftrightarrow> msk AND day_bit (x mod 7) \<noteq> 0 \<and> (x div 7) mod interval = 0"

definition monday_offset :: "chrono \<Rightarrow> naive_date \<Rightarrow> nat" where
  "monday_offset H d = num_days_from_monday (nd_weekday H d)"

lemma monday_offset_less: "monday_offset H d < 7"
  by (cases "nd_weekday H d") (simp_all add: monday_offset_def)

lemma monday_offset_mod:
  assumes "weekdays_cycle H" "start \<le> d"
  shows "monday_offset H d = (nat (d - start) + monday_offset H start) mod 7"
proof -
  obtain c where c: "\<And>d. int (monday_offset H d) = (d + c) mod 7"
    using assms(1) by (auto simp: weekdays_cycle_def monday_offset_def)
  have "int (monday_offset H d) = ((start + c) mod 7 + (d - start)) mod 7"
    unfolding c by (simp add: mod_simps) (simp add: add.commute)
  also have "\<dots> = int ((nat (d - start) + monday_offset H start) mod 7)"
    unfolding c[symmetric] using assms(2) by (simp add: zmod_int add.commute)
  finally show ?thesis by simp
qed

lemma position_weekly:
  assumes "weekdays_cycle H" "rr_freq r = Weekly" "start < d"
  shows "position H start r d \<noteq> None \<longleftrightarrow>
    week_day (day_mask H start r) (unat (rr_interval r)) (nat (d - start) + monday_offset H start)"
proof -
  let ?x = "nat (d - start) + monday_offset H start"
  have dof: "monday_offset H d = ?x mod 7" using assms by (intro monday_offset_mod) simp_all
  then have "(nat (d - start) + monday_offset H start - monday_offset H d) div 7 = ?x div 7"
    by (simp add: minus_mod_eq_mult_div)
  then show ?thesis
    using assms(2,3) dof by (simp add: position_def Let_def week_day_def monday_offset_def)
qed

section \<open>The weekly search\<close>

lemma checked_mul_Some: "checked_mul a b = Some x \<longleftrightarrow> x = a * b \<and> a * b < 2 ^ 64"
  by (auto simp: checked_mul_def)

lemma checked_mul_None: "checked_mul a b = None \<longleftrightarrow> 2 ^ 64 \<le> a * b"
  by (auto simp: checked_mul_def)

lemma checked_add_Some: "checked_add a b = Some x \<longleftrightarrow> x = a + b \<and> a + b < 2 ^ 64"
  by (auto simp: checked_add_def)

lemma checked_add_None: "checked_add a b = None \<longleftrightarrow> 2 ^ 64 \<le> a + b"
  by (auto simp: checked_add_def)

text \<open>Between two weeks of the series there is no week of it.\<close>

lemma no_week_between:
  assumes "0 < n" "(w :: nat) mod n = 0" "w < v" "v < w + n"
  shows "v mod n \<noteq> 0"
proof -
  obtain k where k: "w = k * n" using assms(2) by (metis add.right_neutral div_mult_mod_eq)
  have "v = k * n + (v - w)" "0 < v - w" "v - w < n" using assms k by auto
  then show ?thesis by (metis mod_less mod_mult_self3 neq0_conv)
qed

definition next_week :: "nat \<Rightarrow> nat \<Rightarrow> nat" where
  "next_week interval week = (week div interval + 1) * interval"

lemma next_week:
  assumes "0 < n"
  shows "next_week n w mod n = 0" "w < next_week n w" "\<And>v. w < v \<Longrightarrow> v < next_week n w \<Longrightarrow> v mod n \<noteq> 0"
proof -
  show "next_week n w mod n = 0" by (simp add: next_week_def)
  show "w < next_week n w" using assms by (simp add: next_week_def) (metis div_mult_mod_eq mod_less_divisor nat_add_left_cancel_less add.commute)
  have div: "w div n * n \<le> w" by simp
  show "v mod n \<noteq> 0" if "w < v" "v < next_week n w" for v
    using no_week_between[OF assms, of "w div n * n" v] that div by (simp add: next_week_def)
qed

lemma week_of_aligned: "week_day msk n x \<Longrightarrow> x div 7 mod n = 0"
  by (simp add: week_day_def)

text \<open>One turn either finds the next day of the series or moves to the start of its next week.\<close>

lemma weekly_turn_found:
  assumes "weekly_turn msk n at = (Some d, z)"
  shows "at \<le> d" "week_day msk n d" "\<And>y. at \<le> y \<Longrightarrow> y < d \<Longrightarrow> \<not> week_day msk n y"
proof -
  obtain dow where aligned: "at div 7 mod n = 0" and dow: "List.find (\<lambda>i. msk AND day_bit i \<noteq> 0) [at mod 7..<7] = Some dow"
    and d: "d = at div 7 * 7 + dow"
    using assms by (auto simp: weekly_turn_def Let_def split: if_splits option.splits)
  from dow obtain k where k: "k < length [at mod 7..<7]" "msk AND day_bit ([at mod 7..<7] ! k) \<noteq> 0" "dow = [at mod 7..<7] ! k"
    "\<forall>j < k. msk AND day_bit ([at mod 7..<7] ! j) = 0" by (auto simp: find_Some_iff)
  have dow7: "dow = at mod 7 + k" "dow < 7" using k by auto
  have dd: "d div 7 = at div 7" "d mod 7 = dow" unfolding d using dow7(2) by simp_all
  show "at \<le> d" unfolding d dow7(1) by (metis add.assoc div_mult_mod_eq le_add1)
  show "week_day msk n d" using k(2,3) aligned by (simp add: week_day_def dd)
  show "\<not> week_day msk n y" if "at \<le> y" "y < d" for y
  proof -
    have y7: "y div 7 = at div 7" using that dd(1) by (metis div_le_mono le_antisym less_imp_le_nat)
    then have "at mod 7 \<le> y mod 7" "y mod 7 < dow"
      using that dd by (metis add_le_cancel_left div_mult_mod_eq, metis add_less_cancel_left div_mult_mod_eq)
    then have "\<exists>j < k. [at mod 7..<7] ! j = y mod 7" using dow7 by (intro exI[of _ "y mod 7 - at mod 7"]) auto
    then show ?thesis using k(4) by (auto simp: week_day_def)
  qed
qed

lemma weekly_turn_moves:
  assumes "weekly_turn msk n at = (None, z)" "0 < n"
  shows "\<exists>at'. at' mod 7 = 0 \<and> at' div 7 mod n = 0 \<and> at < at' \<and> (\<forall>y. at \<le> y \<longrightarrow> y < at' \<longrightarrow> \<not> week_day msk n y)
    \<and> (z = Some at' \<or> z = None \<and> 2 ^ 64 \<le> at')"
proof -
  let ?w = "at div 7"
  have at: "?w * 7 \<le> at" "at < (?w + 1) * 7" by (simp_all add: dividend_less_times_div)
  have later: "?w < y div 7" if "at \<le> y" "y div 7 \<noteq> ?w" for y
    using that by (metis div_le_mono le_neq_implies_less)
  have before: "y div 7 < v" if "y < v * 7" for y v :: nat
    using that by (simp add: less_mult_imp_div_less)
  show ?thesis
  proof (cases "?w mod n = 0")
    case False
    let ?v = "next_week n ?w"
    have "\<not> week_day msk n y" if "at \<le> y" "y < ?v * 7" for y
    proof -
      have "y div 7 mod n \<noteq> 0"
        using next_week(3)[OF assms(2) _ before[OF that(2)]] later[OF that(1)] False by (cases "y div 7 = ?w") auto
      then show ?thesis by (simp add: week_day_def)
    qed
    moreover have "z = Some (?v * 7) \<or> z = None \<and> 2 ^ 64 \<le> ?v * 7"
      using assms(1) False
      by (auto simp: weekly_turn_def Let_def next_week_def checked_mul_Some checked_mul_None bind_eq_Some_conv bind_eq_None_conv
          simp del: power_Suc) (auto simp: checked_mul_def split: if_splits)
    moreover have "at < ?v * 7" using at next_week(2)[OF assms(2), of ?w] by linarith
    ultimately show ?thesis using next_week(1)[OF assms(2), of ?w] by (intro exI[of _ "?v * 7"]) simp
  next
    case True
    let ?v = "?w + n"
    have none: "msk AND day_bit i = 0" if "at mod 7 \<le> i" "i < 7" for i
      using assms(1) True that
      by (auto simp: weekly_turn_def Let_def find_None_iff split: option.splits)
    have "\<not> week_day msk n y" if "at \<le> y" "y < ?v * 7" for y
    proof (cases "y div 7 = ?w")
      case True
      then have "at mod 7 \<le> y mod 7" using that(1) by (metis add_le_cancel_left div_mult_mod_eq)
      then show ?thesis using none[of "y mod 7"] by (simp add: week_day_def)
    next
      case False
      then show ?thesis
        using no_week_between[OF assms(2) True later[OF that(1) False] before[OF that(2)]] by (simp add: week_day_def)
    qed
    moreover have "z = Some (?v * 7) \<or> z = None \<and> 2 ^ 64 \<le> ?v * 7"
      using assms(1) True
      by (auto simp: weekly_turn_def Let_def checked_mul_def checked_add_def split: option.splits if_splits)
    moreover have "at < ?v * 7" using at assms(2) by (simp add: add_mult_distrib)
    ultimately show ?thesis using True by (intro exI[of _ "?v * 7"]) simp
  qed
qed

lemma weekly_turn_aligned:
  assumes "at mod 7 = 0" "at div 7 mod n = 0" "i < 7" "msk AND day_bit i \<noteq> 0"
  shows "\<exists>d z. weekly_turn msk n at = (Some d, z)"
proof -
  have "\<exists>dow. List.find (\<lambda>i. msk AND day_bit i \<noteq> 0) [0..<7] = Some dow"
    using assms(3,4) by (intro find_ex[of i]) auto
  then show ?thesis using assms(1,2) by (auto simp: weekly_turn_def Let_def)
qed

text \<open>Two turns are enough, whatever the interval: the third is never needed.\<close>

lemma weekly_search_exact:
  assumes "0 < n" "i < 7" "msk AND day_bit i \<noteq> 0"
  shows "case weekly_search 3 msk n at of
      Some d \<Rightarrow> at \<le> d \<and> week_day msk n d \<and> (\<forall>y. at \<le> y \<longrightarrow> y < d \<longrightarrow> \<not> week_day msk n y)
    | None \<Rightarrow> \<forall>y. at \<le> y \<longrightarrow> y < 2 ^ 64 \<longrightarrow> \<not> week_day msk n y"
proof (cases "weekly_turn msk n at")
  case (Pair f z)
  show ?thesis
  proof (cases f)
    case (Some d)
    then have "weekly_search 3 msk n at = Some d" using Pair by (simp add: numeral_3_eq_3)
    then show ?thesis using weekly_turn_found Pair Some by auto
  next
    case None
    obtain at' where at': "at' mod 7 = 0" "at' div 7 mod n = 0" "at < at'"
        "\<And>y. at \<le> y \<Longrightarrow> y < at' \<Longrightarrow> \<not> week_day msk n y" "z = Some at' \<or> z = None \<and> 2 ^ 64 \<le> at'"
      using weekly_turn_moves[OF _ assms(1)] Pair None by metis
    show ?thesis
    proof (cases z)
      case z: None
      then have "weekly_search 3 msk n at = None" using Pair None by (simp add: numeral_3_eq_3)
      then show ?thesis using at' z by auto
    next
      case (Some a)
      then have a: "a = at'" using at'(5) by simp
      obtain d z' where d: "weekly_turn msk n at' = (Some d, z')"
        using weekly_turn_aligned[OF at'(1,2) assms(2,3)] by blast
      have "weekly_search 3 msk n at = Some d" using Pair None Some a d by (simp add: numeral_3_eq_3)
      moreover have "\<not> week_day msk n y" if "at \<le> y" "y < d" for y
        using at'(4) weekly_turn_found(3)[OF d] that by (metis not_le)
      ultimately show ?thesis using weekly_turn_found(1,2)[OF d] at'(3) by auto
    qed
  qed
qed

lemma day_bit_self: "i < 8 \<Longrightarrow> (m OR day_bit i) AND day_bit i \<noteq> 0"
  by (auto simp: day_bit_def bit_eq_iff bit_simps intro!: exI[of _ i])

lemma or_keeps: "m AND b \<noteq> 0 \<Longrightarrow> (m OR m') AND b \<noteq> (0 :: u8)"
  by (auto simp: bit_eq_iff bit_simps)

lemma day_mask_some: "\<exists>i < 7. day_mask H start r AND day_bit i \<noteq> 0"
proof -
  have less: "num_days_from_monday w < 7" for w by (cases w) simp_all
  have keeps: "fold (\<lambda>w m. m OR day_bit (num_days_from_monday w)) ws m AND b \<noteq> 0" if "m AND b \<noteq> 0" for ws m b
    using that
  proof (induction ws arbitrary: m)
    case (Cons w ws)
    show ?case using Cons.IH[OF or_keeps[OF Cons.prems]] by simp
  qed simp
  show ?thesis
  proof (cases "rr_byday r")
    case Nil
    then show ?thesis
      using less[of "nd_weekday H start"] day_bit_self[of "num_days_from_monday (nd_weekday H start)" 0]
      by (auto simp: day_mask_def intro!: exI[of _ "num_days_from_monday (nd_weekday H start)"])
  next
    case (Cons w ws)
    have "fold (\<lambda>w m. m OR day_bit (num_days_from_monday w)) ws (0 OR day_bit (num_days_from_monday w))
        AND day_bit (num_days_from_monday w) \<noteq> 0"
      using less[of w] by (intro keeps day_bit_self) simp
    then show ?thesis using less[of w] Cons by (auto simp: day_mask_def intro!: exI[of _ "num_days_from_monday w"])
  qed
qed

section \<open>The next date of a series\<close>

lemma div_ceil_least:
  assumes "0 < (n :: nat)"
  shows "a \<le> div_ceil a n * n" "a \<le> k * n \<Longrightarrow> div_ceil a n * n \<le> k * n"
proof -
  have a: "a = a div n * n + a mod n" "a mod n < n" using assms by simp_all
  show "a \<le> div_ceil a n * n"
  proof (cases "a mod n = 0")
    case True
    then show ?thesis using a(1) by (simp add: div_ceil_def)
  next
    case False
    have "a \<le> a div n * n + n" using a by linarith
    then show ?thesis using False by (simp add: div_ceil_def add.commute)
  qed
  show "div_ceil a n * n \<le> k * n" if "a \<le> k * n"
  proof (rule mult_le_mono1)
    show "div_ceil a n \<le> k"
    proof (cases "a mod n = 0")
      case True
      then show ?thesis using that assms a by (simp add: div_ceil_def) (metis add.right_neutral mult_le_cancel2)
    next
      case False
      then have "a div n * n < k * n" using that a(1) by linarith
      then show ?thesis using False by (simp add: div_ceil_def)
    qed
  qed
qed

definition next_date :: "chrono \<Rightarrow> (naive_date \<Rightarrow> bool) \<Rightarrow> naive_date \<Rightarrow> naive_date option \<Rightarrow> bool" where
  "next_date H P from r =
     (case r of
        Some d \<Rightarrow> from \<le> d \<and> P d \<and> (\<forall>e. from \<le> e \<longrightarrow> e < d \<longrightarrow> \<not> P e)
      | None \<Rightarrow> \<forall>e. from \<le> e \<longrightarrow> e \<le> nd_max H \<longrightarrow> \<not> P e)"

text \<open>Where the source's dates lie: years 0 to 9999, far inside what chrono represents.\<close>

definition inside :: "chrono \<Rightarrow> naive_date \<Rightarrow> bool" where
  "inside H d \<longleftrightarrow> nd_min H + 6 \<le> d \<and> d \<le> nd_max H \<and> nd_max H - nd_min H < 2 ^ 62"

lemma next_hit_daily:
  assumes "rr_freq r = Daily" "rr_interval r \<noteq> 0" "inside H start" "start < from"
  shows "next_date H (series_date H start r) from (next_hit H start r from)"
proof -
  let ?n = "unat (rr_interval r)"
  let ?k = "div_ceil (nat (from - start)) ?n * ?n"
  have n: "0 < ?n" using assms(2) by (simp add: unat_gt_0)
  have hit: "series_date H start r d \<longleftrightarrow> start \<le> d \<and> nat (d - start) mod ?n = 0" for d
    using assms(1) by (auto simp: series_date_def position_def Let_def)
  have off: "nat (from - start) \<le> ?k" by (rule div_ceil_least(1)[OF n])
  have least: "start + int ?k \<le> e" if "from \<le> e" "series_date H start r e" for e
  proof -
    have "nat (e - start) mod ?n = 0" using that(2) by (simp only: hit)
    then have "nat (e - start) = nat (e - start) div ?n * ?n" by (metis add.right_neutral div_mult_mod_eq)
    moreover have "nat (from - start) \<le> nat (e - start)" using that(1) by simp
    ultimately have "?k \<le> nat (e - start)" using div_ceil_least(2)[OF n] by metis
    then show ?thesis using that assms(4) by linarith
  qed
  have mult: "?k mod ?n = 0" by simp
  show ?thesis
  proof (cases "next_hit H start r from")
    case (Some d)
    then have d: "d = start + int ?k"
      using assms(1,4) by (auto simp: next_hit_def Let_def bind_eq_Some_conv checked_mul_Some checked_add_days_def in_range_def split: if_splits)
    have "from \<le> d" using off d assms(4) by linarith
    moreover have "series_date H start r d" unfolding hit d by (simp del: of_nat_mult)
    ultimately show ?thesis using Some least d by (force simp: next_date_def)
  next
    case None
    then have "2 ^ 64 \<le> ?k \<or> \<not> (nd_min H \<le> start + int ?k \<and> start + int ?k \<le> nd_max H)"
      using assms(1,4) by (auto simp: next_hit_def Let_def checked_mul_def checked_add_days_def in_range_def split: if_splits)
    moreover have "nd_max H < start + 2 ^ 64" "nd_min H \<le> start + int ?k" using assms(3) by (simp_all add: inside_def del: of_nat_mult)
    moreover have "2 ^ 64 \<le> int ?k" if "2 ^ 64 \<le> ?k" using of_nat_mono[OF that, where 'a = int] by simp
    ultimately have "nd_max H < start + int ?k" by linarith
    then show ?thesis using None least by (force simp: next_date_def)
  qed
qed

lemma next_hit_weekly:
  assumes "weekdays_cycle H" "rr_freq r = Weekly" "rr_interval r \<noteq> 0" "inside H start" "start < from"
  shows "next_date H (series_date H start r) from (next_hit H start r from)"
proof -
  let ?n = "unat (rr_interval r)" and ?m = "day_mask H start r" and ?so = "monday_offset H start"
  let ?at = "nat (from - start) + ?so"
  have n: "0 < ?n" using assms(3) by (simp add: unat_gt_0)
  obtain i where i: "i < 7" "?m AND day_bit i \<noteq> 0" using day_mask_some by blast
  have hit: "series_date H start r d \<longleftrightarrow> week_day ?m ?n (nat (d - start) + ?so)" if "start < d" for d
    using position_weekly[OF assms(1,2) that] that by (auto simp: series_date_def)
  have monday: "checked_sub_days H start ?so = Some (start - int ?so)"
    using assms(4) monday_offset_less[of H start] by (auto simp: checked_sub_days_def in_range_def inside_def)
  have run: "next_hit H start r from = Option.bind (weekly_search 3 ?m ?n ?at) (checked_add_days H (start - int ?so))"
    using assms(2,5) monday by (simp add: next_hit_def Let_def monday_offset_def)
  note search = weekly_search_exact[OF n i, of ?at]
  have before: "\<not> series_date H start r e" if "from \<le> e" "e < start - int ?so + int x"
    "\<And>y. ?at \<le> y \<Longrightarrow> y < x \<Longrightarrow> \<not> week_day ?m ?n y" for e x
  proof -
    have "?at \<le> nat (e - start) + ?so" "nat (e - start) + ?so < x" using that(1,2) assms(5) by linarith+
    then show ?thesis using that(3) hit[of e] that(1) assms(5) by simp
  qed
  show ?thesis
  proof (cases "weekly_search 3 ?m ?n ?at")
    case None
    have "\<not> series_date H start r e" if "from \<le> e" "e \<le> nd_max H" for e
      using before[of e "2 ^ 64"] search that None assms(4) monday_offset_less[of H start]
      by (auto simp: inside_def)
    then show ?thesis using run None by (simp add: next_date_def)
  next
    case (Some x)
    have x: "?at \<le> x" "week_day ?m ?n x" "\<And>y. ?at \<le> y \<Longrightarrow> y < x \<Longrightarrow> \<not> week_day ?m ?n y"
      using search Some by auto
    let ?d = "start - int ?so + int x"
    have d: "from \<le> ?d" "start < ?d" "nat (?d - start) + ?so = x" using x(1) assms(5) by linarith+
    have "series_date H start r ?d" using hit[OF d(2)] x(2) d(3) by simp
    then show ?thesis
    proof (cases "?d \<le> nd_max H")
      case True
      then have "next_hit H start r from = Some ?d"
        using run Some d(2) assms(4) by (simp add: checked_add_days_def in_range_def inside_def)
      moreover have "\<not> series_date H start r e" if "from \<le> e" "e < ?d" for e
        using that by (rule before) (rule x(3))
      ultimately show ?thesis using \<open>series_date H start r ?d\<close> d(1) unfolding next_date_def by simp
    next
      case False
      then have "next_hit H start r from = None" using run Some by (simp add: checked_add_days_def in_range_def)
      moreover have "\<not> series_date H start r e" if "from \<le> e" "e \<le> nd_max H" for e
        using that(1) _ x(3)
      proof (rule before)
        show "e < ?d" using that(2) False by linarith
      qed
      ultimately show ?thesis by (simp add: next_date_def)
    qed
  qed
qed

section \<open>Positions\<close>

text \<open>
  The number of days before \<open>x\<close> a weekly pattern hits, counted week by week.
\<close>

definition hits :: "(nat \<Rightarrow> bool) \<Rightarrow> nat \<Rightarrow> nat \<Rightarrow> nat" where
  "hits P lo hi = length (filter P [lo..<hi])"

abbreviation bits_between :: "u8 \<Rightarrow> nat \<Rightarrow> nat \<Rightarrow> nat" where
  "bits_between msk \<equiv> hits (\<lambda>i. msk AND day_bit i \<noteq> 0)"

lemma hits_card: "hits P lo hi = card {i. lo \<le> i \<and> i < hi \<and> P i}"
  unfolding hits_def by (subst distinct_card[symmetric]) (auto intro!: arg_cong[where f = card])

lemma hits_split: "a \<le> b \<Longrightarrow> b \<le> c \<Longrightarrow> hits P a c = hits P a b + hits P b c"
  unfolding hits_def by (metis filter_append length_append upt_add_eq_append le_Suc_ex)

lemma hits_none: "(\<And>i. lo \<le> i \<Longrightarrow> i < hi \<Longrightarrow> \<not> P i) \<Longrightarrow> hits P lo hi = 0"
  by (auto simp: hits_def filter_empty_conv)

lemma hits_shift: "(\<And>i. lo \<le> i \<Longrightarrow> i < hi \<Longrightarrow> Q (k + i) = P i) \<Longrightarrow> hits Q (k + lo) (k + hi) = hits P lo hi"
proof (induction hi)
  case (Suc hi)
  then show ?case by (cases "lo \<le> hi") (simp_all add: hits_def)
qed (simp add: hits_def)

lemma bit_day: "i < 8 \<Longrightarrow> msk AND day_bit i \<noteq> 0 \<longleftrightarrow> bit (msk :: u8) i"
  by (simp add: day_bit_def bit_iff_and_push_bit_not_eq_0)

lemma bit_span: "i < 8 \<Longrightarrow> hi \<le> 8 \<Longrightarrow> bit (fold (\<lambda>i m. m OR day_bit i) [lo..<hi] (0 :: u8)) i \<longleftrightarrow> lo \<le> i \<and> i < hi"
proof (induction hi)
  case (Suc hi)
  then show ?case by (cases "lo \<le> hi") (auto simp: bit_simps day_bit_def)
qed simp

lemma mask_between_bits:
  assumes "hi \<le> 7"
  shows "mask_between msk lo hi = bits_between msk lo hi"
proof -
  have "mask_between msk lo hi = length (filter (\<lambda>i. bit msk i \<and> lo \<le> i \<and> i < hi) [0..<8])"
    unfolding mask_between_def count_ones_def using bit_span[of _ hi lo] assms
    by (intro arg_cong[where f = length] filter_cong) (auto simp: bit_simps)
  also have "\<dots> = card {i. i < 8 \<and> bit msk i \<and> lo \<le> i \<and> i < hi}"
    by (subst distinct_card[symmetric]) (auto intro!: arg_cong[where f = card])
  also have "\<dots> = bits_between msk lo hi"
    unfolding hits_card using assms bit_day[of _ msk] by (intro arg_cong[where f = card]) force
  finally show ?thesis .
qed

lemma hits_week:
  assumes "k mod n = 0" "b \<le> 7"
  shows "hits (week_day msk n) (7 * k + a) (7 * k + b) = bits_between msk a b"
  using assms by (intro hits_shift) (auto simp: week_day_def)

lemma hits_gap:
  assumes "0 < n" "k mod n = 0"
  shows "hits (week_day msk n) (7 * (k + 1)) (7 * (k + n)) = 0"
proof (rule hits_none)
  fix x assume "7 * (k + 1) \<le> x" "x < 7 * (k + n)"
  then have "k < x div 7" "x div 7 < k + n" by (simp_all add: Suc_le_eq[symmetric] less_eq_div_iff_mult_less_eq div_less_iff_less_mult)
  then show "\<not> week_day msk n x" using no_week_between[OF assms] by (simp add: week_day_def)
qed

lemma hits_cycle:
  assumes "0 < n" "k mod n = 0" "a \<le> 7"
  shows "hits (week_day msk n) (7 * k + a) (7 * (k + n)) = bits_between msk a 7"
proof -
  have "hits (week_day msk n) (7 * k + a) (7 * (k + n)) =
      hits (week_day msk n) (7 * k + a) (7 * (k + 1)) + hits (week_day msk n) (7 * (k + 1)) (7 * (k + n))"
    using assms by (intro hits_split) auto
  then show ?thesis using hits_gap[OF assms(1,2)] hits_week[OF assms(2), of 7 msk a] by (simp add: add.commute)
qed

lemma hits_cycles:
  assumes "0 < n" "a \<le> 7"
  shows "hits (week_day msk n) a (7 * (Suc q * n)) = bits_between msk a 7 + q * bits_between msk 0 7"
proof (induction q)
  case 0
  then show ?case using hits_cycle[OF assms(1) _ assms(2), of 0] by simp
next
  case (Suc q)
  have "hits (week_day msk n) a (7 * (Suc (Suc q) * n)) =
      hits (week_day msk n) a (7 * (Suc q * n)) + hits (week_day msk n) (7 * (Suc q * n)) (7 * (Suc (Suc q) * n))"
  proof (rule hits_split)
    have "7 * n \<le> 7 * (Suc q * n)" by simp
    moreover have "7 \<le> 7 * n" using assms(1) by simp
    ultimately show "a \<le> 7 * (Suc q * n)" using assms(2) by linarith
  qed simp
  also have "hits (week_day msk n) (7 * (Suc q * n)) (7 * (Suc (Suc q) * n)) = bits_between msk 0 7"
    using hits_cycle[OF assms(1), of "Suc q * n" 0 msk] by (simp add: algebra_simps)
  finally show ?case using Suc by simp
qed

lemma hits_weekly:
  assumes "0 < n" "so < 7" "dof < 7"
  shows "hits (week_day msk n) (so + 1) (7 * (q * n) + dof) =
    (if q = 0 then bits_between msk (so + 1) dof
     else bits_between msk (so + 1) 7 + (q - 1) * bits_between msk 0 7 + bits_between msk 0 dof)"
proof (cases q)
  case 0
  then show ?thesis using hits_week[of 0 n dof msk "so + 1"] assms by simp
next
  case (Suc p)
  have "7 \<le> 7 * (q * n)" using Suc assms(1) by simp
  then have "so + 1 \<le> 7 * (q * n)" using assms(2) by linarith
  then have "hits (week_day msk n) (so + 1) (7 * (q * n) + dof) =
      hits (week_day msk n) (so + 1) (7 * (q * n)) + hits (week_day msk n) (7 * (q * n)) (7 * (q * n) + dof)"
    by (rule hits_split) simp
  also have "hits (week_day msk n) (7 * (q * n)) (7 * (q * n) + dof) = bits_between msk 0 dof"
    using hits_week[of "q * n" n dof msk 0] assms(3) by simp
  finally show ?thesis using hits_cycles[OF assms(1), of "so + 1" msk p] assms(2) Suc by simp
qed

lemma day_mask_no_eighth: "\<not> bit (day_mask H start r) 7"
proof -
  have less: "num_days_from_monday w < 7" for w by (cases w) simp_all
  have one: "\<not> bit (day_bit (num_days_from_monday w)) 7" for w
    using less[of w] by (simp add: day_bit_def bit_simps)
  have "\<not> bit (fold (\<lambda>w m. m OR day_bit (num_days_from_monday w)) ws m) 7" if "\<not> bit m 7" for ws m
    using that one by (induction ws arbitrary: m) (simp_all add: bit_simps)
  then show ?thesis using one by (simp add: day_mask_def)
qed

lemma count_ones_mask: "count_ones (day_mask H start r) = bits_between (day_mask H start r) 0 7"
proof -
  have "count_ones (day_mask H start r) = hits (bit (day_mask H start r)) 0 8" by (simp add: count_ones_def hits_def)
  also have "\<dots> = hits (bit (day_mask H start r)) 0 7" using day_mask_no_eighth by (simp add: hits_def eval_nat_numeral)
  also have "\<dots> = bits_between (day_mask H start r) 0 7"
    unfolding hits_def using bit_day by (intro arg_cong[where f = length] filter_cong) auto
  finally show ?thesis .
qed

lemma series_start: "series_date H start r start"
  by (simp add: series_date_def position_def)

lemma earlier_dates:
  assumes "start < d"
  shows "card {e. e < d \<and> series_date H start r e} = 1 + card {e. start < e \<and> e < d \<and> series_date H start r e}"
proof -
  have "{e. e < d \<and> series_date H start r e} = insert start {e. start < e \<and> e < d \<and> series_date H start r e}"
    using assms series_start[of H start r] by (auto simp: series_date_def)
  moreover have "finite {e. start < e \<and> e < d \<and> series_date H start r e}"
    by (rule finite_subset[of _ "{start..d}"]) auto
  ultimately show ?thesis by simp
qed

lemma position_weekly_counts:
  assumes "weekdays_cycle H" "rr_freq r = Weekly" "rr_interval r \<noteq> 0" "start < d" "series_date H start r d"
  shows "position H start r d = Some (card {e. e < d \<and> series_date H start r e})"
proof -
  let ?n = "unat (rr_interval r)" and ?m = "day_mask H start r" and ?so = "monday_offset H start" and ?dof = "monday_offset H d"
  let ?x = "nat (d - start) + ?so"
  have n: "0 < ?n" using assms(3) by (simp add: unat_gt_0)
  have hit: "series_date H start r e \<longleftrightarrow> week_day ?m ?n (nat (e - start) + ?so)" if "start < e" for e
    using position_weekly[OF assms(1,2) that] that by (auto simp: series_date_def)
  have dof: "?dof = ?x mod 7" using assms by (intro monday_offset_mod) simp_all
  have wd: "week_day ?m ?n ?x" using hit[OF assms(4)] assms(5) by simp
  let ?q = "?x div 7 div ?n"
  have week: "?q * ?n = ?x div 7" using wd by (metis add.right_neutral div_mult_mod_eq week_of_aligned)
  have x: "7 * (?q * ?n) + ?dof = ?x" unfolding week dof by simp
  have less: "?so < 7" "?dof < 7" by (rule monday_offset_less)+
  have image: "(\<lambda>e. nat (e - start) + ?so) ` {e. start < e \<and> e < d \<and> series_date H start r e} = {y. ?so + 1 \<le> y \<and> y < ?x \<and> week_day ?m ?n y}"
    (is "?f ` ?A = ?B")
  proof (intro set_eqI iffI)
    fix y assume y: "y \<in> ?B"
    let ?e = "start + int y - int ?so"
    have f: "nat (?e - start) + ?so = y" using y by auto
    have e: "start < ?e" "?e < d" using y assms(4) by auto
    have "series_date H start r ?e" using y unfolding hit[OF e(1)] f by simp
    then show "y \<in> ?f ` ?A" using e f by (intro image_eqI[of y ?f ?e]) simp_all
  next
    fix y assume "y \<in> ?f ` ?A"
    then obtain e where e: "start < e" "e < d" "series_date H start r e" "y = nat (e - start) + ?so" by auto
    then show "y \<in> ?B" using hit[OF e(1)] by auto
  qed
  have "inj_on (\<lambda>e. nat (e - start) + ?so) {e. start < e \<and> e < d \<and> series_date H start r e}"
    by (auto simp: inj_on_def)
  then have "card {e. start < e \<and> e < d \<and> series_date H start r e} = hits (week_day ?m ?n) (?so + 1) ?x"
    unfolding hits_card image[symmetric] by (rule card_image[symmetric])
  also have "\<dots> = (if ?q = 0 then bits_between ?m (?so + 1) ?dof
      else bits_between ?m (?so + 1) 7 + (?q - 1) * bits_between ?m 0 7 + bits_between ?m 0 ?dof)"
    using hits_weekly[OF n less, of ?m ?q] unfolding x .
  finally have count: "card {e. e < d \<and> series_date H start r e} = 1 + (if ?q = 0 then mask_between ?m (?so + 1) ?dof
      else mask_between ?m (?so + 1) 7 + (?q - 1) * count_ones ?m + mask_between ?m 0 ?dof)"
    unfolding earlier_dates[OF assms(4)] count_ones_mask using less(2) by (simp add: mask_between_bits)
  have weeks: "(?x - ?dof) div 7 = ?x div 7" unfolding dof by (simp add: minus_mod_eq_mult_div)
  have "position H start r d = Some (if ?q = 0 then 1 + mask_between ?m (?so + 1) ?dof
      else 1 + mask_between ?m (?so + 1) 7 + (?q - 1) * count_ones ?m + mask_between ?m 0 ?dof)"
    using assms(2,4) wd weeks unfolding position_def week_day_def dof[symmetric]
    by (simp add: Let_def monday_offset_def[symmetric])
  then show ?thesis unfolding count by simp
qed

lemma position_daily_counts:
  assumes "rr_freq r = Daily" "rr_interval r \<noteq> 0" "start < d" "series_date H start r d"
  shows "position H start r d = Some (card {e. e < d \<and> series_date H start r e})"
proof -
  let ?n = "unat (rr_interval r)"
  let ?k = "nat (d - start) div ?n"
  have n: "0 < ?n" using assms(2) by (simp add: unat_gt_0)
  have hit: "series_date H start r e \<longleftrightarrow> start \<le> e \<and> nat (e - start) mod ?n = 0" for e
    using assms(1) by (auto simp: series_date_def position_def Let_def)
  have d: "nat (d - start) = ?k * ?n" using assms(4) unfolding hit by (metis add.right_neutral div_mult_mod_eq)
  have image: "(\<lambda>e. nat (e - start) div ?n) ` {e. e < d \<and> series_date H start r e} = {..<?k}" (is "?f ` ?A = _")
  proof (intro set_eqI iffI)
    fix k assume "k \<in> ?f ` ?A"
    then obtain e where e: "k = nat (e - start) div ?n" "e < d" "start \<le> e" "nat (e - start) mod ?n = 0" by (auto simp: hit)
    then have "k * ?n < ?k * ?n" using d by (metis add.right_neutral diff_strict_right_mono div_mult_mod_eq nat_less_eq_zless diff_ge_0_iff_ge)
    then show "k \<in> {..<?k}" by simp
  next
    fix k assume "k \<in> {..<?k}"
    then have "k * ?n < ?k * ?n" using n by simp
    then have "k * ?n < nat (d - start)" by (simp only: d[symmetric])
    then have "start + int (k * ?n) \<in> ?A" by (simp add: hit del: of_nat_mult)
    moreover have "?f (start + int (k * ?n)) = k" using n by (simp del: of_nat_mult)
    ultimately show "k \<in> ?f ` ?A" by (intro image_eqI[of k ?f "start + int (k * ?n)"]) (simp_all only:)
  qed
  have "inj_on (\<lambda>e. nat (e - start) div ?n) {e. e < d \<and> series_date H start r e}"
  proof (rule inj_onI)
    fix e e' assume "e \<in> {e. e < d \<and> series_date H start r e}" "e' \<in> {e. e < d \<and> series_date H start r e}"
      and same: "nat (e - start) div ?n = nat (e' - start) div ?n"
    then have e: "start \<le> e" "start \<le> e'" "nat (e - start) mod ?n = 0" "nat (e' - start) mod ?n = 0" by (auto simp: hit)
    then have "nat (e - start) = nat (e' - start)" using same by (metis div_mult_mod_eq)
    then show "e = e'" using e(1,2) by simp
  qed
  from card_image[OF this] have "card {e. e < d \<and> series_date H start r e} = ?k" unfolding image by simp
  then show ?thesis using assms(1,3,4) unfolding hit by (simp add: position_def Let_def)
qed

section \<open>The theorem\<close>

text \<open>A concrete calendar: day 0 is a Monday.\<close>

definition demo_chrono :: chrono where
  "demo_chrono = \<lparr>nd_parse = (\<lambda>_. None), nd_format = (\<lambda>_. []), ndt_parse = (\<lambda>_. None), ndt_format = (\<lambda>_. []),
     nd_year = (\<lambda>_. 2024), nd_month0 = (\<lambda>_. 0), nd_day = (\<lambda>_. 1),
     nd_weekday = (\<lambda>d. [Mon, Tue, Wed, Thu, Fri, Sat, Sun] ! nat (d mod 7)),
     from_ymd_opt = (\<lambda>_ _ _. None), nd_min = - 1000, nd_max = 1000, ndt_max = 86400000\<rparr>"

definition demo_rule :: repeat_rule where
  "demo_rule = \<lparr>rr_freq = Weekly, rr_interval = 2, rr_byday = [Mon, Wed], rr_end = Open\<rparr>"

lemma demo_mask: "day_mask demo_chrono 0 demo_rule = 5"
  by (simp add: day_mask_def demo_rule_def day_bit_def push_bit_eq_mult)

lemma demo_turns: "weekly_turn 5 2 3 = (None, Some 14)" "weekly_turn 5 2 14 = (Some 14, None)"
  by (simp_all add: weekly_turn_def Let_def day_bit_def push_bit_eq_mult upt_rec checked_mul_def checked_add_def)

lemma demo_search: "weekly_search 3 5 2 3 = Some 14"
  by (subst (1) numeral_3_eq_3) (simp add: demo_turns)

lemma demo_fields:
  "rr_freq demo_rule = Weekly" "unat (rr_interval demo_rule) = 2" "nd_weekday demo_chrono 0 = Mon"
  "nd_weekday demo_chrono 14 = Mon" "nd_min demo_chrono = - 1000" "nd_max demo_chrono = 1000"
  by (simp_all add: demo_rule_def demo_chrono_def)

lemma demo_next: "next_hit demo_chrono 0 demo_rule 3 = Some 14"
  by (simp add: next_hit_def Let_def demo_mask demo_fields demo_search checked_sub_days_def checked_add_days_def in_range_def)

lemma demo_hit: "series_date demo_chrono 0 demo_rule 14"
  by (simp add: series_date_def position_def Let_def demo_mask demo_fields day_bit_def)

lemma demo_weekdays: "weekdays_cycle demo_chrono"
proof -
  have "int (num_days_from_monday ([Mon, Tue, Wed, Thu, Fri, Sat, Sun] ! nat (d mod 7))) = d mod 7" for d
  proof -
    have "d mod 7 \<in> {0, 1, 2, 3, 4, 5, 6}" using pos_mod_bound[of 7 d] pos_mod_sign[of 7 d] by auto
    then show ?thesis by (auto simp: eval_nat_numeral)
  qed
  then show ?thesis unfolding weekdays_cycle_def demo_chrono_def by (intro exI[of _ 0]) simp
qed

text \<open>C38: For a daily or weekly series the arithmetic is exact. The jump to the next occurrence
  returns the first date of the series at or after the given day, and nothing only when no
  such date can be represented; the position of an occurrence is the number of occurrences
  before it, which is what a series that ends after a count relies on.\<close>

theorem series_walk_is_exact:
  assumes "weekdays_cycle H" "rr_freq r \<noteq> Monthly" "rr_interval r \<noteq> 0" "inside H start"
  shows "next_date H (series_date H start r) from (next_hit H start r from) \<and>
    (series_date H start r d \<longrightarrow> position H start r d = Some (card {e. e < d \<and> series_date H start r e}))"
proof (intro conjI impI)
  show "next_date H (series_date H start r) from (next_hit H start r from)"
  proof (cases "from \<le> start")
    case True
    then show ?thesis by (auto simp: next_date_def next_hit_def series_start) (auto simp: series_date_def)
  next
    case False
    then show ?thesis using next_hit_daily next_hit_weekly assms by (cases "rr_freq r") auto
  qed
  assume d: "series_date H start r d"
  show "position H start r d = Some (card {e. e < d \<and> series_date H start r e})"
  proof (cases "d = start")
    case True
    have none: "{e. e < start \<and> series_date H start r e} = {}" by (auto simp: series_date_def)
    show ?thesis unfolding True none by (simp add: position_def)
  next
    case False
    then have "start < d" using d by (simp add: series_date_def)
    then show ?thesis
      using position_daily_counts position_weekly_counts assms d by (cases "rr_freq r") auto
  qed
qed

theorem series_walk_is_exact_witness:
  "next_hit demo_chrono 0 demo_rule 3 = Some 14 \<and>
   next_date demo_chrono (series_date demo_chrono 0 demo_rule) 3 (next_hit demo_chrono 0 demo_rule 3) \<and>
   position demo_chrono 0 demo_rule 14 = Some (card {e. e < 14 \<and> series_date demo_chrono 0 demo_rule e})"
proof -
  have "rr_freq demo_rule \<noteq> Monthly" "rr_interval demo_rule \<noteq> 0" "inside demo_chrono 0"
    by (simp_all add: demo_rule_def demo_chrono_def inside_def)
  from series_walk_is_exact[OF demo_weekdays this, of 3 14] show ?thesis
    using demo_next demo_hit by simp
qed

end
