(* ===== verification/Net_Block.thy ===== *)
theory Net_Block
  imports Canon_Bytes Rust_Maps
begin

text \<open>
  The uniform transport block (\<open>molt-net/src/block.rs\<close>) and the per-queue wrapping of a
  chunk plaintext into one block (\<open>molt-net/src/wrap.rs\<close>).

  The AEAD of the \<open>chacha20poly1305\<close> crate is not part of the repository: \<open>wrap\<close> takes its
  \<open>encrypt\<close> and \<open>unwrap_block\<close> its \<open>decrypt\<close> as an argument (key, nonce, message), and the
  nonce the operating system draws is an argument too (\<open>None\<close> where the generator fails).
  What the theorems rely on is the documented behaviour of an AEAD: a ciphertext is the
  message plus a tag of 16 bytes, and decrypting it under the same key and nonce gives the
  message back.
\<close>

section \<open>Buffers\<close>

text \<open>
  A range index \<open>buf[a..b]\<close> panics out of range; \<open>slice\<close> is \<open>None\<close> there. \<open>vec_resize\<close> is
  \<open>Vec::resize\<close> with zeros, \<open>div_ceil\<close> is \<open>usize::div_ceil\<close> and \<open>to_u16\<close> is \<open>u16::try_from\<close>.
\<close>

definition slice :: "nat \<Rightarrow> nat \<Rightarrow> bytes \<Rightarrow> bytes option" where
  "slice a b buf = (if a \<le> b \<and> b \<le> length buf then Some (take (b - a) (drop a buf)) else None)"

definition vec_resize :: "nat \<Rightarrow> bytes \<Rightarrow> bytes" where
  "vec_resize n v = take n v @ replicate (n - length v) (CHR 0x00)"

definition div_ceil :: "nat \<Rightarrow> nat \<Rightarrow> nat" where
  "div_ceil a b = (if a mod b = 0 then a div b else a div b + 1)"

definition to_u16 :: "nat \<Rightarrow> nat option" where
  "to_u16 n = (if n < 2 ^ 16 then Some n else None)"

definition u16_le :: "nat \<Rightarrow> bytes" where
  "u16_le n = le_bytes 2 n"

lemma length_vec_resize [simp]: "length (vec_resize n v) = n"
  by (simp add: vec_resize_def)

lemma length_u16_le [simp]: "length (u16_le n) = 2"
  by (simp add: u16_le_def)

lemma from_le_u16_le [simp]: "n < 2 ^ 16 \<Longrightarrow> from_le_bytes (u16_le n) = n"
  by (simp add: u16_le_def from_le_le_bytes)

lemma to_u16_eq_Some [simp]: "to_u16 n = Some m \<longleftrightarrow> n < 2 ^ 16 \<and> m = n"
  by (auto simp: to_u16_def)

lemma slice_eq_Some:
  "slice a b buf = Some s \<longleftrightarrow> a \<le> b \<and> b \<le> length buf \<and> s = take (b - a) (drop a buf)"
  by (auto simp: slice_def)

lemma slice_length: "slice a b buf = Some s \<Longrightarrow> length s = b - a"
  by (auto simp: slice_eq_Some)

lemma slice_append: "slice (length xs) (length xs + length ys) (xs @ ys @ zs) = Some ys"
  by (simp add: slice_def)

lemma div_ceil_covers: "0 < b \<Longrightarrow> a \<le> div_ceil a b * b"
proof -
  assume b: "0 < b"
  have *: "a = a div b * b + a mod b" by simp
  show ?thesis
  proof (cases "a mod b = 0")
    case True
    with * show ?thesis by (simp add: div_ceil_def)
  next
    case False
    have "a mod b \<le> b" using b by (simp add: less_imp_le)
    with * have "a \<le> a div b * b + b" by linarith
    with False show ?thesis by (simp add: div_ceil_def)
  qed
qed

lemma div_ceil_tight: "0 < b \<Longrightarrow> i < div_ceil a b \<Longrightarrow> i * b < a"
proof -
  assume b: "0 < b" and i: "i < div_ceil a b"
  have *: "a = a div b * b + a mod b" by simp
  show ?thesis
  proof (cases "a mod b = 0")
    case True
    with i have "i < a div b" by (simp add: div_ceil_def)
    then have "i * b < a div b * b" using b by simp
    with True * show ?thesis by linarith
  next
    case False
    with i have "i \<le> a div b" by (simp add: div_ceil_def)
    then have "i * b \<le> a div b * b" by simp
    with False * show ?thesis by linarith
  qed
qed

section \<open>Errors\<close>

text \<open>
  The errors of the transport layer. The code formats one sentence per cause; the model keeps
  the cause and the numbers the sentence reports.
\<close>

datatype framing_error =
    BlockLength nat
  | PlainLength nat
  | NoPayloadRoom nat
  | TooManyChunks nat nat
  | ChunkIndexOverflow
  | ChunkPayloadOverflow
  | ChunkLength nat nat
  | HeaderOutOfBounds nat nat nat
  | CountChanged nat nat
  | LostPartial

datatype crypto_error = RngUnavailable | WrappingFailed | UnwrapFailed

datatype net_error = Framing framing_error | Crypto crypto_error

section \<open>The padded block\<close>

definition SMP_BLOCK_LEN :: nat where "SMP_BLOCK_LEN = 16 * 1024"
definition SMP_FRAMING_RESERVE :: nat where "SMP_FRAMING_RESERVE = 384"
definition PADDED_BLOCK_LEN :: nat where "PADDED_BLOCK_LEN = SMP_BLOCK_LEN - SMP_FRAMING_RESERVE"

definition WRAP_NONCE_LEN :: nat where "WRAP_NONCE_LEN = 24"
definition WRAP_TAG_LEN :: nat where "WRAP_TAG_LEN = 16"
definition CHUNK_PLAIN_LEN :: nat where
  "CHUNK_PLAIN_LEN = PADDED_BLOCK_LEN - WRAP_NONCE_LEN - WRAP_TAG_LEN"

lemmas block_consts = SMP_BLOCK_LEN_def SMP_FRAMING_RESERVE_def PADDED_BLOCK_LEN_def
  WRAP_NONCE_LEN_def WRAP_TAG_LEN_def CHUNK_PLAIN_LEN_def

record padded_block = block_bytes :: bytes

definition from_bytes :: "bytes \<Rightarrow> net_error + padded_block" where
  "from_bytes b =
     (if length b \<noteq> PADDED_BLOCK_LEN then Inl (Framing (BlockLength (length b)))
      else Inr \<lparr>block_bytes = b\<rparr>)"

section \<open>Wrapping\<close>

definition wrap ::
  "(bytes \<Rightarrow> bytes \<Rightarrow> bytes \<Rightarrow> bytes option) \<Rightarrow> bytes \<Rightarrow> bytes option \<Rightarrow> bytes
   \<Rightarrow> net_error + padded_block" where
  "wrap encrypt key random chunk_plain =
     (if length chunk_plain \<noteq> CHUNK_PLAIN_LEN then Inl (Framing (PlainLength (length chunk_plain)))
      else (case random of
              None \<Rightarrow> Inl (Crypto RngUnavailable)
            | Some nonce \<Rightarrow>
                (case encrypt key nonce chunk_plain of
                   None \<Rightarrow> Inl (Crypto WrappingFailed)
                 | Some ct \<Rightarrow> from_bytes (nonce @ ct))))"

definition unwrap_block ::
  "(bytes \<Rightarrow> bytes \<Rightarrow> bytes \<Rightarrow> bytes option) \<Rightarrow> bytes \<Rightarrow> padded_block \<Rightarrow> net_error + bytes" where
  "unwrap_block decrypt key block =
     (let nonce = take WRAP_NONCE_LEN (block_bytes block);
          ct = drop WRAP_NONCE_LEN (block_bytes block) in
      case decrypt key nonce ct of
        None \<Rightarrow> Inl (Crypto UnwrapFailed)
      | Some m \<Rightarrow> Inr m)"

lemma wrap_ok:
  assumes "length chunk = CHUNK_PLAIN_LEN" "length nonce = WRAP_NONCE_LEN"
    and "encrypt key nonce chunk = Some ct" "length ct = length chunk + WRAP_TAG_LEN"
  shows "wrap encrypt key (Some nonce) chunk = Inr \<lparr>block_bytes = nonce @ ct\<rparr>"
  using assms by (simp add: wrap_def from_bytes_def block_consts)

lemma wrap_block_length:
  "wrap encrypt key random chunk = Inr b \<Longrightarrow> length (block_bytes b) = PADDED_BLOCK_LEN"
  by (auto simp: wrap_def from_bytes_def split: if_splits option.splits)

lemma unwrap_wrap:
  assumes "wrap encrypt key (Some nonce) chunk = Inr b" "length nonce = WRAP_NONCE_LEN"
    and "\<And>ct. encrypt key nonce chunk = Some ct \<Longrightarrow> decrypt key nonce ct = Some chunk"
  shows "unwrap_block decrypt key b = Inr chunk"
  using assms
  by (auto simp: wrap_def from_bytes_def unwrap_block_def split: if_splits option.splits)

end
