(* ===== verification/Net_Chunk.thy ===== *)
theory Net_Chunk
  imports Net_Block Extern
begin

text \<open>
  Chunking and reassembly (\<open>molt-net/src/chunk.rs\<close>).

  \<open>chunk_message_sized\<close> splits a message into chunk plaintexts of one size;
  \<open>push\<close> is the whole handler of the reassembler for one untrusted chunk, state in and state
  out. A \<open>u16\<close> of the header is a \<open>nat\<close> below \<open>2 ^ 16\<close> (two bytes read, nothing is computed
  with it); the hash map of partial messages, whose iteration order is never used, is an
  ordered map. An index out of the buffer is \<open>Panic\<close>.
\<close>

section \<open>Message ids\<close>

definition MSG_ID_LEN :: nat where "MSG_ID_LEN = 16"
definition CHUNK_HEADER_LEN :: nat where "CHUNK_HEADER_LEN = MSG_ID_LEN + 2 + 2 + 2"
definition CHUNK_PAYLOAD_BUDGET :: nat where
  "CHUNK_PAYLOAD_BUDGET = CHUNK_PLAIN_LEN - CHUNK_HEADER_LEN"
definition MAX_PARTIALS :: nat where "MAX_PARTIALS = 64"
definition RECENT_COMPLETED :: nat where "RECENT_COMPLETED = 256"

lemmas chunk_consts = MSG_ID_LEN_def CHUNK_HEADER_LEN_def

type_synonym msg_ident = bytes

definition msg_id_epoch :: "extern \<Rightarrow> string \<Rightarrow> string \<Rightarrow> u64 \<Rightarrow> u32 \<Rightarrow> msg_ident" where
  "msg_id_epoch X sender recipient wire_seq resend_epoch =
     take MSG_ID_LEN (sha256 X
       (''molt-msg'' @ sender @ [CHR 0x00] @ recipient @ u64_le wire_seq @
        (if resend_epoch > 0 then ''resend'' @ le_bytes 4 (unat resend_epoch) else [])))"

definition msg_id :: "extern \<Rightarrow> string \<Rightarrow> string \<Rightarrow> u64 \<Rightarrow> msg_ident" where
  "msg_id X sender recipient wire_seq = msg_id_epoch X sender recipient wire_seq 0"

section \<open>Splitting\<close>

definition chunk_at :: "msg_ident \<Rightarrow> bytes \<Rightarrow> nat \<Rightarrow> nat \<Rightarrow> nat \<Rightarrow> nat \<Rightarrow> net_error + bytes" where
  "chunk_at ident payload budget plain_len count_u16 index =
     (let start = index * budget;
          stop = min (length payload) (start + budget);
          first = min start (length payload);
          part = take (stop - first) (drop first payload) in
      rbind (ok_or (Framing ChunkIndexOverflow) (to_u16 index)) (\<lambda>index_u16.
      rbind (ok_or (Framing ChunkPayloadOverflow) (to_u16 (length part))) (\<lambda>len_u16.
      Inr (vec_resize plain_len
             (ident @ u16_le index_u16 @ u16_le count_u16 @ u16_le len_u16 @ part)))))"

definition chunk_message_budgeted :: "msg_ident \<Rightarrow> bytes \<Rightarrow> nat \<Rightarrow> nat \<Rightarrow> net_error + bytes list" where
  "chunk_message_budgeted ident payload budget plain_len =
     (let count = max (div_ceil (length payload) budget) 1 in
      rbind (ok_or (Framing (TooManyChunks (length payload) count)) (to_u16 count)) (\<lambda>count_u16.
      collect (chunk_at ident payload budget plain_len count_u16) [0..<count]))"

definition chunk_message_sized :: "msg_ident \<Rightarrow> bytes \<Rightarrow> nat \<Rightarrow> net_error + bytes list" where
  "chunk_message_sized ident payload plain_len =
     (if CHUNK_HEADER_LEN < plain_len
      then chunk_message_budgeted ident payload (plain_len - CHUNK_HEADER_LEN) plain_len
      else Inl (Framing (NoPayloadRoom plain_len)))"

definition chunk_message :: "msg_ident \<Rightarrow> bytes \<Rightarrow> net_error + bytes list" where
  "chunk_message ident payload = chunk_message_sized ident payload CHUNK_PLAIN_LEN"

section \<open>Reassembly\<close>

datatype push_outcome =
    Complete msg_ident bytes
  | Buffered msg_ident
  | Duplicate msg_ident

record partial =
  pa_count :: nat
  pa_chunks :: "(nat, bytes) btree"

record reassembler =
  re_plain_len :: nat
  re_partial :: "(msg_ident, partial) btree"
  re_order :: "msg_ident list"
  re_completed :: "msg_ident list"

definition new_sized :: "nat \<Rightarrow> reassembler" where
  "new_sized plain_len = \<lparr>re_plain_len = max plain_len (CHUNK_HEADER_LEN + 1),
     re_partial = [], re_order = [], re_completed = []\<rparr>"

definition new_reassembler :: reassembler where
  "new_reassembler = new_sized CHUNK_PLAIN_LEN"

text \<open>The header of a chunk: id, index, count and payload length.\<close>

definition header_word :: "bytes \<Rightarrow> nat \<Rightarrow> nat option" where
  "header_word chunk pos = map_option from_le_bytes (slice pos (pos + 2) chunk)"

definition parse_header :: "bytes \<Rightarrow> (msg_ident \<times> nat \<times> nat \<times> nat) option" where
  "parse_header chunk =
     (case (slice 0 MSG_ID_LEN chunk, header_word chunk MSG_ID_LEN,
            header_word chunk (MSG_ID_LEN + 2), header_word chunk (MSG_ID_LEN + 4)) of
        (Some ident, Some index, Some count, Some len) \<Rightarrow> Some (ident, index, count, len)
      | _ \<Rightarrow> None)"

text \<open>
  A first chunk opens its partial message; at \<open>MAX_PARTIALS\<close> open ones the oldest goes first.
\<close>

definition evict_oldest :: "reassembler \<Rightarrow> reassembler" where
  "evict_oldest r =
     (if length (re_partial r) \<ge> MAX_PARTIALS
      then (case re_order r of
              [] \<Rightarrow> r
            | oldest # rest \<Rightarrow>
                r\<lparr>re_order := rest, re_partial := bt_remove oldest (re_partial r)\<rparr>)
      else r)"

definition open_partial :: "reassembler \<Rightarrow> msg_ident \<Rightarrow> nat \<Rightarrow> reassembler" where
  "open_partial r ident count =
     (let r1 = evict_oldest r in
      r1\<lparr>re_order := re_order r1 @ [ident],
         re_partial := bt_insert ident \<lparr>pa_count = count, pa_chunks = []\<rparr> (re_partial r1)\<rparr>)"

text \<open>
  The last missing chunk: the partial is taken out, its id goes into the ring of completed
  ones and the slices are joined in index order.
\<close>

definition complete :: "reassembler \<Rightarrow> msg_ident \<Rightarrow> reassembler \<times> (net_error fault + push_outcome)" where
  "complete r ident =
     (case bt_get (re_partial r) ident of
        None \<Rightarrow> (r, Inl (Refused (Framing LostPartial)))
      | Some p \<Rightarrow>
          (let ring = re_completed r @ [ident] in
           (r\<lparr>re_partial := bt_remove ident (re_partial r),
              re_order := filter (\<lambda>x. x \<noteq> ident) (re_order r),
              re_completed := (if length ring > RECENT_COMPLETED then tl ring else ring)\<rparr>,
            Inr (Complete ident (concat (map snd (pa_chunks p)))))))"

text \<open>Storing one slice in an open partial.\<close>

definition store :: "reassembler \<Rightarrow> msg_ident \<Rightarrow> partial \<Rightarrow> nat \<Rightarrow> bytes
    \<Rightarrow> reassembler \<times> (net_error fault + push_outcome)" where
  "store r ident p index payload =
     (if bt_contains (pa_chunks p) index then (r, Inr (Duplicate ident))
      else (let p' = p\<lparr>pa_chunks := bt_insert index payload (pa_chunks p)\<rparr>;
                r' = r\<lparr>re_partial := bt_insert ident p' (re_partial r)\<rparr> in
            if length (pa_chunks p') < pa_count p' then (r', Inr (Buffered ident))
            else complete r' ident))"

definition push :: "reassembler \<Rightarrow> bytes \<Rightarrow> reassembler \<times> (net_error fault + push_outcome)" where
  "push r chunk =
     (if length chunk \<noteq> re_plain_len r
      then (r, Inl (Refused (Framing (ChunkLength (re_plain_len r) (length chunk)))))
      else (case parse_header chunk of
              None \<Rightarrow> (r, Inl Panic)
            | Some (ident, index, count, len) \<Rightarrow>
                if count = 0 \<or> index \<ge> count \<or> len > re_plain_len r - CHUNK_HEADER_LEN
                then (r, Inl (Refused (Framing (HeaderOutOfBounds index count len))))
                else if ident \<in> set (re_completed r) then (r, Inr (Duplicate ident))
                else (case slice CHUNK_HEADER_LEN (CHUNK_HEADER_LEN + len) chunk of
                        None \<Rightarrow> (r, Inl Panic)
                      | Some payload \<Rightarrow>
                          (case bt_get (re_partial r) ident of
                             Some p \<Rightarrow>
                               if pa_count p \<noteq> count
                               then (r, Inl (Refused (Framing (CountChanged (pa_count p) count))))
                               else store r ident p index payload
                           | None \<Rightarrow>
                               store (open_partial r ident count) ident
                                 \<lparr>pa_count = count, pa_chunks = []\<rparr> index payload))))"

definition forget :: "reassembler \<Rightarrow> msg_ident \<Rightarrow> reassembler" where
  "forget r ident = r\<lparr>re_completed := filter (\<lambda>x. x \<noteq> ident) (re_completed r)\<rparr>"

text \<open>A stream of chunks, with the outcome of each.\<close>

primrec push_all :: "reassembler \<Rightarrow> bytes list \<Rightarrow> reassembler \<times> (net_error fault + push_outcome) list" where
  "push_all r [] = (r, [])"
| "push_all r (c # cs) =
     (let (r1, o1) = push r c; (r2, os) = push_all r1 cs in (r2, o1 # os))"

section \<open>What the chunker writes\<close>

text \<open>The slice of the payload that chunk \<open>i\<close> carries.\<close>

definition part_of :: "bytes \<Rightarrow> nat \<Rightarrow> nat \<Rightarrow> bytes" where
  "part_of payload budget i = take budget (drop (i * budget) payload)"

lemma concat_parts_upto:
  "concat (map (part_of payload budget) [0..<n]) = take (n * budget) payload"
proof (induction n)
  case (Suc n)
  have "Suc n * budget = n * budget + budget" by simp
  with Suc show ?case
    by (simp only: upt_Suc_append le0 map_append concat_append take_add)
       (simp add: part_of_def)
qed simp

lemma concat_parts:
  "length payload \<le> n * budget \<Longrightarrow> concat (map (part_of payload budget) [0..<n]) = payload"
  by (simp add: concat_parts_upto)

lemma chunk_at_part:
  "take (min (length payload) (i * budget + budget) - min (i * budget) (length payload))
     (drop (min (i * budget) (length payload)) payload) = part_of payload budget i"
  by (cases "i * budget \<le> length payload") (auto simp: part_of_def min_def)

lemma chunk_at_eq:
  "chunk_at ident payload budget plain_len n i =
     (let part = part_of payload budget i in
      rbind (ok_or (Framing ChunkIndexOverflow) (to_u16 i)) (\<lambda>index_u16.
      rbind (ok_or (Framing ChunkPayloadOverflow) (to_u16 (length part))) (\<lambda>len_u16.
      Inr (vec_resize plain_len (ident @ u16_le index_u16 @ u16_le n @ u16_le len_u16 @ part)))))"
  unfolding chunk_at_def Let_def chunk_at_part ..

lemma collect_Inr_map: "collect f xs = Inr ys \<Longrightarrow> length ys = length xs \<and> (\<forall>i < length xs. f (xs ! i) = Inr (ys ! i))"
proof (induction xs arbitrary: ys)
  case (Cons x xs)
  then obtain y zs where "ys = y # zs" "f x = Inr y" "collect f xs = Inr zs"
    by (auto simp: rbind_eq_Inr)
  with Cons.IH[of zs] show ?case by (auto simp: nth_Cons split: nat.splits)
qed simp

text \<open>
  What one chunk of a message is: its length, its header and its slice.
\<close>

definition is_chunk :: "msg_ident \<Rightarrow> bytes \<Rightarrow> nat \<Rightarrow> nat \<Rightarrow> nat \<Rightarrow> bytes \<Rightarrow> bool" where
  "is_chunk ident payload plain n i c \<longleftrightarrow>
     length c = plain \<and>
     parse_header c = Some (ident, i, n, length (part_of payload (plain - CHUNK_HEADER_LEN) i)) \<and>
     length (part_of payload (plain - CHUNK_HEADER_LEN) i) \<le> plain - CHUNK_HEADER_LEN \<and>
     slice CHUNK_HEADER_LEN
       (CHUNK_HEADER_LEN + length (part_of payload (plain - CHUNK_HEADER_LEN) i)) c
       = Some (part_of payload (plain - CHUNK_HEADER_LEN) i)"

lemma is_chunk_layout:
  assumes "length ident = MSG_ID_LEN" "i < 2 ^ 16" "n < 2 ^ 16" "length part < 2 ^ 16"
    and part: "part = part_of payload (plain - CHUNK_HEADER_LEN) i"
    and room: "CHUNK_HEADER_LEN < plain"
  shows "is_chunk ident payload plain n i
           (vec_resize plain (ident @ u16_le i @ u16_le n @ u16_le (length part) @ part))"
proof -
  have short: "length part \<le> plain - CHUNK_HEADER_LEN" by (simp add: part part_of_def)
  let ?pad = "replicate (plain - (MSG_ID_LEN + (6 + length part))) (CHR 0x00)"
  have c: "vec_resize plain (ident @ u16_le i @ u16_le n @ u16_le (length part) @ part)
    = ident @ u16_le i @ u16_le n @ u16_le (length part) @ part @ ?pad"
    using assms(1) short room by (simp add: vec_resize_def chunk_consts)
  have word: "header_word (xs @ u16_le w @ ys) (length xs) = Some w" if "w < 2 ^ 16" for xs w ys
    using slice_append[of xs "u16_le w" ys] that by (simp add: header_word_def)
  let ?c = "ident @ u16_le i @ u16_le n @ u16_le (length part) @ part @ ?pad"
  have "slice 0 MSG_ID_LEN ?c = Some ident"
    using assms(1) by (simp add: slice_def)
  moreover have "header_word ?c MSG_ID_LEN = Some i"
    using word[of i ident] assms(1,2) by simp
  moreover have "header_word ?c (MSG_ID_LEN + 2) = Some n"
    using word[of n "ident @ u16_le i"] assms(1,3) by simp
  moreover have "header_word ?c (MSG_ID_LEN + 4) = Some (length part)"
    using word[of "length part" "ident @ u16_le i @ u16_le n"] assms(1,4) by simp
  ultimately have "parse_header ?c = Some (ident, i, n, length part)"
    by (simp add: parse_header_def)
  moreover have "slice CHUNK_HEADER_LEN (CHUNK_HEADER_LEN + length part) ?c = Some part"
    using slice_append[of "ident @ u16_le i @ u16_le n @ u16_le (length part)" part ?pad] assms(1)
    by (simp add: chunk_consts)
  moreover have "length ?c = plain"
    using assms(1) short room by (simp add: chunk_consts)
  ultimately show ?thesis using short unfolding is_chunk_def part[symmetric] c by simp
qed

lemma chunk_message_sized_chunks:
  assumes "chunk_message_sized ident payload plain = Inr cs" and "length ident = MSG_ID_LEN"
  shows "CHUNK_HEADER_LEN < plain" and "0 < length cs" and "length cs < 2 ^ 16"
    and "length payload \<le> length cs * (plain - CHUNK_HEADER_LEN)"
    and "\<And>i. i < length cs \<Longrightarrow> is_chunk ident payload plain (length cs) i (cs ! i)"
proof -
  let ?b = "plain - CHUNK_HEADER_LEN"
  let ?n = "max (div_ceil (length payload) ?b) 1"
  show room: "CHUNK_HEADER_LEN < plain"
    using assms(1) by (simp add: chunk_message_sized_def split: if_splits)
  have col: "collect (chunk_at ident payload ?b plain ?n) [0..<?n] = Inr cs" and n: "?n < 2 ^ 16"
    using assms(1) room
    by (auto simp: chunk_message_sized_def chunk_message_budgeted_def Let_def rbind_eq_Inr)
  note all = collect_Inr_map[OF col]
  then have len: "length cs = ?n" by simp
  then show "0 < length cs" "length cs < 2 ^ 16" using n by simp_all
  have "length payload \<le> div_ceil (length payload) ?b * ?b" using room by (intro div_ceil_covers) simp
  also have "\<dots> \<le> ?n * ?b" by (rule mult_le_mono1) simp
  finally show "length payload \<le> length cs * ?b" by (simp add: len)
  fix i assume i: "i < length cs"
  then have "chunk_at ident payload ?b plain (length cs) i = Inr (cs ! i)"
    using all len by simp
  then have "length (part_of payload ?b i) < 2 ^ 16"
    and "cs ! i = vec_resize plain (ident @ u16_le i @ u16_le (length cs) @
           u16_le (length (part_of payload ?b i)) @ part_of payload ?b i)"
    by (auto simp: chunk_at_eq Let_def rbind_eq_Inr)
  then show "is_chunk ident payload plain (length cs) i (cs ! i)"
    using is_chunk_layout[OF assms(2) _ _ _ refl room, of i "length cs"] i n len by simp
qed

end
