(* ===== verification/Net_Chunk_Laws.thy ===== *)
theory Net_Chunk_Laws
  imports Net_Chunk
begin

text \<open>
  Laws of the reassembler (\<open>Net_Chunk\<close>): the invariant \<open>reassembler_ok\<close> that \<open>push\<close> and
  \<open>forget\<close> keep whatever bytes arrive, that a refused chunk changes nothing and that no input
  panics; and what a stream of chunks gives back.
\<close>

section \<open>Sizes of ordered maps\<close>

lemma bt_length_card: "bt_wf m \<Longrightarrow> length m = card (fst ` set m)"
  using bt_wf_distinct[of m] distinct_card[of "map fst m"] by simp

lemma bt_dom_remove [simp]: "fst ` set (bt_remove k m) = fst ` set m - {k}"
  by (auto simp: bt_remove_def image_iff)

lemma bt_get_None_iff: "bt_get m k = None \<longleftrightarrow> k \<notin> fst ` set m"
  by (simp add: map_of_eq_None_iff)

lemma length_bt_insert:
  "bt_wf m \<Longrightarrow> length (bt_insert k v m) = (if k \<in> fst ` set m then length m else Suc (length m))"
  by (simp add: bt_length_card set_bt_insert insert_absorb)

lemma set_bt_insert_wf: "bt_wf m \<Longrightarrow> set (bt_insert k v m) = insert (k, v) {e \<in> set m. fst e \<noteq> k}"
proof -
  assume wf: "bt_wf m"
  have mem: "(a, b) \<in> set n \<longleftrightarrow> bt_get n a = Some b" if "bt_wf n" for n :: "('a, 'b) btree" and a b
    using that by (simp add: bt_wf_distinct)
  have "(a, b) \<in> set (bt_insert k v m) \<longleftrightarrow> (a, b) \<in> insert (k, v) {e \<in> set m. fst e \<noteq> k}" for a b
    using mem[OF wf, of a b] mem[OF bt_wf_insert[OF wf], of a b k v]
    by (auto simp: bt_get_insert)
  then show ?thesis by auto
qed

section \<open>The invariant\<close>

definition partial_ok :: "nat \<Rightarrow> partial \<Rightarrow> bool" where
  "partial_ok plain p \<longleftrightarrow>
     0 < length (pa_chunks p) \<and> length (pa_chunks p) < pa_count p \<and> pa_count p < 2 ^ 16 \<and>
     bt_wf (pa_chunks p) \<and>
     list_all (\<lambda>(i, b). i < pa_count p \<and> length b \<le> plain - CHUNK_HEADER_LEN) (pa_chunks p)"

text \<open>
  \<open>ok_except K\<close> is the invariant with the partial messages in \<open>K\<close> left out, which is the
  state between opening a message and storing its first slice.
\<close>

definition ok_except :: "msg_ident set \<Rightarrow> reassembler \<Rightarrow> bool" where
  "ok_except K r \<longleftrightarrow>
     CHUNK_HEADER_LEN < re_plain_len r \<and>
     bt_wf (re_partial r) \<and>
     list_all (\<lambda>(k, p). k \<in> K \<or> partial_ok (re_plain_len r) p) (re_partial r) \<and>
     distinct (re_order r) \<and> set (re_order r) = fst ` set (re_partial r) \<and>
     length (re_partial r) \<le> MAX_PARTIALS \<and>
     distinct (re_completed r) \<and> length (re_completed r) \<le> RECENT_COMPLETED \<and>
     set (re_completed r) \<inter> set (re_order r) = {}"

definition reassembler_ok :: "reassembler \<Rightarrow> bool" where
  "reassembler_ok r \<longleftrightarrow> ok_except {} r"

lemma new_sized_ok: "reassembler_ok (new_sized n)"
  by (simp add: reassembler_ok_def ok_except_def new_sized_def max_def)

lemma forget_ok: "reassembler_ok r \<Longrightarrow> reassembler_ok (forget r ident)"
  by (auto simp: reassembler_ok_def ok_except_def forget_def le_trans[OF length_filter_le])

lemma order_length: "reassembler_ok r \<Longrightarrow> length (re_partial r) = length (re_order r)"
  by (simp add: reassembler_ok_def ok_except_def bt_length_card flip: distinct_card)

lemma evict_oldest_ok:
  assumes ok: "reassembler_ok r"
  shows "reassembler_ok (evict_oldest r)" and "length (re_partial (evict_oldest r)) < MAX_PARTIALS"
    and "set (re_order (evict_oldest r)) \<subseteq> set (re_order r)"
proof (atomize(full), cases "length (re_partial r) \<ge> MAX_PARTIALS")
  case False
  then show "reassembler_ok (evict_oldest r) \<and> length (re_partial (evict_oldest r)) < MAX_PARTIALS \<and>
    set (re_order (evict_oldest r)) \<subseteq> set (re_order r)"
    using ok by (simp add: evict_oldest_def)
next
  case True
  then obtain oldest rest where o: "re_order r = oldest # rest"
    using order_length[OF ok] by (cases "re_order r") (simp_all add: MAX_PARTIALS_def)
  have r1: "evict_oldest r = r\<lparr>re_order := rest, re_partial := bt_remove oldest (re_partial r)\<rparr>"
    using True by (simp add: evict_oldest_def o)
  have "fst ` set (re_partial r) = insert oldest (set rest)" and "oldest \<notin> set rest"
    and wf: "bt_wf (re_partial r)" and dr: "distinct rest"
    using ok by (auto simp: reassembler_ok_def ok_except_def o)
  then have keys: "fst ` set (bt_remove oldest (re_partial r)) = set rest" by auto
  have len: "length (bt_remove oldest (re_partial r)) = length rest"
    by (simp only: bt_length_card[OF bt_wf_remove[OF wf]] keys distinct_card[OF dr])
  have subset: "set (bt_remove oldest (re_partial r)) \<subseteq> set (re_partial r)"
    by (auto simp: bt_remove_def)
  have "length (re_partial r) \<le> MAX_PARTIALS"
    using ok by (simp add: reassembler_ok_def ok_except_def)
  with order_length[OF ok] o have "length rest < MAX_PARTIALS" by simp
  with ok show "reassembler_ok (evict_oldest r) \<and> length (re_partial (evict_oldest r)) < MAX_PARTIALS \<and>
    set (re_order (evict_oldest r)) \<subseteq> set (re_order r)"
    using keys len subset
    by (auto simp: r1 reassembler_ok_def ok_except_def o list_all_iff simp del: bt_dom_remove)
qed

lemma evict_oldest_simps [simp]:
  "re_completed (evict_oldest r) = re_completed r"
  "re_plain_len (evict_oldest r) = re_plain_len r"
  by (auto simp: evict_oldest_def split: list.splits)

lemma open_partial_ok:
  assumes ok: "reassembler_ok r" and fresh: "bt_get (re_partial r) ident = None"
    and new: "ident \<notin> set (re_completed r)"
  shows "ok_except {ident} (open_partial r ident n)"
proof -
  note ev = evict_oldest_ok[OF ok]
  have absent: "ident \<notin> set (re_order (evict_oldest r))"
    using ok fresh ev(3) by (auto simp: reassembler_ok_def ok_except_def bt_get_None_iff)
  then have absent': "ident \<notin> fst ` set (re_partial (evict_oldest r))"
    using ev(1) by (simp add: reassembler_ok_def ok_except_def)
  then show ?thesis
    using ev(1,2) absent new
    by (auto simp: open_partial_def Let_def reassembler_ok_def ok_except_def length_bt_insert
        set_bt_insert set_bt_insert_wf list_all_iff)
qed

lemma open_partial_simps [simp]:
  "bt_get (re_partial (open_partial r ident n)) ident = Some \<lparr>pa_count = n, pa_chunks = []\<rparr>"
  "re_completed (open_partial r ident n) = re_completed r"
  "re_plain_len (open_partial r ident n) = re_plain_len r"
  by (auto simp: open_partial_def Let_def bt_get_insert split: list.splits)

text \<open>Taking a partial out, and storing a slice.\<close>

lemma complete_ok:
  assumes ok: "ok_except {ident} r" and p: "bt_get (re_partial r) ident = Some p"
    and new: "ident \<notin> set (re_completed r)" and res: "complete r ident = (r', res)"
  shows "reassembler_ok r'" and "\<exists>m. res = Inr (Complete ident m)"
proof -
  define ring where "ring = re_completed r @ [ident]"
  define ring' where "ring' = (if length ring > RECENT_COMPLETED then tl ring else ring)"
  have r': "r' = r\<lparr>re_partial := bt_remove ident (re_partial r),
      re_order := filter (\<lambda>x. x \<noteq> ident) (re_order r), re_completed := ring'\<rparr>"
    and out: "res = Inr (Complete ident (concat (map snd (pa_chunks p))))"
    using res p unfolding complete_def Let_def ring'_def ring_def by auto
  have "distinct ring" using ok new by (simp add: ok_except_def ring_def)
  then have d: "distinct ring'" by (simp add: distinct_tl ring'_def)
  have "set ring' \<subseteq> insert ident (set (re_completed r))"
    by (cases "re_completed r") (auto simp: ring'_def ring_def)
  then have "set ring' \<inter> set (filter (\<lambda>x. x \<noteq> ident) (re_order r)) = {}"
    using ok unfolding ok_except_def by auto
  moreover have "length ring' \<le> RECENT_COMPLETED"
    using ok by (auto simp: ok_except_def RECENT_COMPLETED_def ring'_def ring_def)
  moreover have "list_all (\<lambda>(k, p). partial_ok (re_plain_len r) p) (bt_remove ident (re_partial r))"
    using ok by (auto simp: ok_except_def bt_remove_def list_all_iff)
  moreover have "length (bt_remove ident (re_partial r)) \<le> MAX_PARTIALS"
    using ok le_trans[OF length_filter_le] unfolding ok_except_def bt_remove_def by blast
  ultimately show "reassembler_ok r'"
    using ok d unfolding r' reassembler_ok_def ok_except_def by auto
  show "\<exists>m. res = Inr (Complete ident m)" using out by simp
qed

definition slice_ok :: "nat \<Rightarrow> partial \<Rightarrow> bool" where
  "slice_ok plain p \<longleftrightarrow>
     length (pa_chunks p) < pa_count p \<and> pa_count p < 2 ^ 16 \<and> bt_wf (pa_chunks p) \<and>
     list_all (\<lambda>(i, b). i < pa_count p \<and> length b \<le> plain - CHUNK_HEADER_LEN) (pa_chunks p)"

lemma store_ok:
  assumes ok: "ok_except {ident} r" and p: "bt_get (re_partial r) ident = Some p"
    and po: "slice_ok (re_plain_len r) p" and old: "pa_chunks p = [] \<or> reassembler_ok r"
    and new: "ident \<notin> set (re_completed r)" and i: "i < pa_count p"
    and b: "length b \<le> re_plain_len r - CHUNK_HEADER_LEN"
    and res: "store r ident p i b = (r', res)"
  shows "reassembler_ok r'" and "\<exists>out. res = Inr out"
proof (atomize(full), cases "bt_contains (pa_chunks p) i")
  case True
  then show "reassembler_ok r' \<and> (\<exists>out. res = Inr out)"
    using res old by (auto simp: store_def bt_contains_def)
next
  case False
  define p' where "p' = p\<lparr>pa_chunks := bt_insert i b (pa_chunks p)\<rparr>"
  define r1 where "r1 = r\<lparr>re_partial := bt_insert ident p' (re_partial r)\<rparr>"
  have key: "ident \<in> fst ` set (re_partial r)" using p by (metis bt_get_None_iff option.distinct(1))
  have ok1: "ok_except {ident} r1"
    using ok key
    by (auto simp: r1_def ok_except_def set_bt_insert length_bt_insert set_bt_insert_wf list_all_iff
        insert_absorb)
  have shape: "slice_ok (re_plain_len r) p \<Longrightarrow>
      0 < length (pa_chunks p') \<and> pa_count p' < 2 ^ 16 \<and> bt_wf (pa_chunks p') \<and>
      list_all (\<lambda>(i, b). i < pa_count p' \<and> length b \<le> re_plain_len r - CHUNK_HEADER_LEN) (pa_chunks p')"
    using i b by (auto simp: p'_def slice_ok_def length_bt_insert set_bt_insert_wf list_all_iff)
  have store: "store r ident p i b =
     (if length (pa_chunks p') < pa_count p' then (r1, Inr (Buffered ident)) else complete r1 ident)"
    using False by (simp add: store_def p'_def r1_def Let_def)
  show "reassembler_ok r' \<and> (\<exists>out. res = Inr out)"
  proof (cases "length (pa_chunks p') < pa_count p'")
    case True
    then have "partial_ok (re_plain_len r) p'" using shape[OF po] by (simp add: partial_ok_def)
    moreover have "r' = r1" using res True by (simp add: store)
    ultimately show ?thesis
      using ok1 ok res True
      by (auto simp: store r1_def reassembler_ok_def ok_except_def set_bt_insert_wf list_all_iff)
  next
    case False
    then have "complete r1 ident = (r', res)" using res by (simp add: store)
    moreover have "bt_get (re_partial r1) ident = Some p'" "ident \<notin> set (re_completed r1)"
      using new by (simp_all add: r1_def bt_get_insert)
    ultimately show ?thesis using complete_ok[OF ok1] by blast
  qed
qed

section \<open>One chunk\<close>

lemma parse_header_total:
  assumes "CHUNK_HEADER_LEN < length c"
  shows "\<exists>k i n l. parse_header c = Some (k, i, n, l) \<and> i < 2 ^ 16 \<and> n < 2 ^ 16 \<and> length k = MSG_ID_LEN"
proof -
  have w: "\<exists>v. header_word c pos = Some v \<and> v < 2 ^ 16" if "pos + 2 \<le> length c" for pos
  proof -
    have "length (take 2 (drop pos c)) = 2" using that by simp
    then have "from_le_bytes (take 2 (drop pos c)) < 2 ^ 16"
      using from_le_bytes_bound[of "take 2 (drop pos c)"] by simp
    with that show ?thesis by (simp add: header_word_def slice_def)
  qed
  from assms have "MSG_ID_LEN + 2 \<le> length c" "MSG_ID_LEN + 2 + 2 \<le> length c" "MSG_ID_LEN + 4 + 2 \<le> length c"
    by (simp_all add: chunk_consts)
  with w obtain i n l where "header_word c MSG_ID_LEN = Some i" "i < 2 ^ 16"
    "header_word c (MSG_ID_LEN + 2) = Some n" "n < 2 ^ 16" "header_word c (MSG_ID_LEN + 4) = Some l"
    by blast
  moreover have "slice 0 MSG_ID_LEN c = Some (take MSG_ID_LEN c)" "length (take MSG_ID_LEN c) = MSG_ID_LEN"
    using assms by (simp_all add: slice_def chunk_consts)
  ultimately show ?thesis by (simp add: parse_header_def)
qed

lemma partial_okD:
  "reassembler_ok r \<Longrightarrow> bt_get (re_partial r) k = Some p \<Longrightarrow> partial_ok (re_plain_len r) p"
  by (auto simp: reassembler_ok_def ok_except_def list_all_iff dest!: map_of_SomeD)

lemma ok_except_mono: "reassembler_ok r \<Longrightarrow> ok_except K r"
  by (auto simp: reassembler_ok_def ok_except_def list_all_iff)

text \<open>The chunks a reassembler can act on: the right length and a header within bounds.\<close>

definition chunk_id :: "nat \<Rightarrow> bytes \<Rightarrow> msg_ident option" where
  "chunk_id plain c = (if length c = plain then map_option fst (parse_header c) else None)"

lemma push_cases [consumes 1, case_names refused dup more first]:
  assumes ok: "reassembler_ok r"
  obtains e where "push r c = (r, Inl (Refused (Framing e)))" "e \<noteq> LostPartial"
  | k where "chunk_id (re_plain_len r) c = Some k" "push r c = (r, Inr (Duplicate k))"
  | k i n b p where "chunk_id (re_plain_len r) c = Some k" "k \<notin> set (re_completed r)"
      "i < n" "n < 2 ^ 16" "length b \<le> re_plain_len r - CHUNK_HEADER_LEN"
      "bt_get (re_partial r) k = Some p" "pa_count p = n" "push r c = store r k p i b"
  | k i n b where "chunk_id (re_plain_len r) c = Some k" "k \<notin> set (re_completed r)"
      "i < n" "n < 2 ^ 16" "length b \<le> re_plain_len r - CHUNK_HEADER_LEN"
      "bt_get (re_partial r) k = None"
      "push r c = store (open_partial r k n) k \<lparr>pa_count = n, pa_chunks = []\<rparr> i b"
proof (cases "length c = re_plain_len r")
  case False
  then show ?thesis by (intro that(1)) (auto simp: push_def)
next
  case True
  then have long: "CHUNK_HEADER_LEN < length c" using ok by (simp add: reassembler_ok_def ok_except_def)
  then obtain k i n l where h: "parse_header c = Some (k, i, n, l)" "n < 2 ^ 16"
    using parse_header_total by blast
  then have cid: "chunk_id (re_plain_len r) c = Some k" using True by (simp add: chunk_id_def)
  consider "n = 0 \<or> i \<ge> n \<or> l > re_plain_len r - CHUNK_HEADER_LEN"
    | "\<not> (n = 0 \<or> i \<ge> n \<or> l > re_plain_len r - CHUNK_HEADER_LEN)" "k \<in> set (re_completed r)"
    | "i < n" "l \<le> re_plain_len r - CHUNK_HEADER_LEN" "k \<notin> set (re_completed r)"
    by linarith
  then show ?thesis
  proof cases
    case 1
    with h True show ?thesis by (intro that(1)) (auto simp: push_def)
  next
    case 2
    with h True cid show ?thesis by (intro that(2)) (auto simp: push_def)
  next
    case 3
    let ?b = "take l (drop CHUNK_HEADER_LEN c)"
    have sl: "slice CHUNK_HEADER_LEN (CHUNK_HEADER_LEN + l) c = Some ?b" and lb: "length ?b = l"
      using 3 True long by (auto simp: slice_def)
    show ?thesis
    proof (cases "bt_get (re_partial r) k")
      case None
      have "push r c = store (open_partial r k n) k \<lparr>pa_count = n, pa_chunks = []\<rparr> i ?b"
        using 3 True h sl None by (simp add: push_def)
      with 3 h cid None lb show ?thesis by (intro that(4)[of k i n ?b]) simp_all
    next
      case (Some p)
      show ?thesis
      proof (cases "pa_count p = n")
        case False
        with 3 True h sl Some show ?thesis by (intro that(1)) (auto simp: push_def)
      next
        case c: True
        have "push r c = store r k p i ?b" using 3 True h sl Some c by (simp add: push_def)
        with 3 h cid Some c lb show ?thesis by (intro that(3)[of k i n ?b p]) simp_all
      qed
    qed
  qed
qed

lemma push_keeps:
  assumes ok: "reassembler_ok r" and res: "push r c = (r', res)"
  shows "reassembler_ok r' \<and>
    ((\<exists>out. res = Inr out) \<or> r' = r \<and> (\<exists>e. res = Inl (Refused (Framing e)) \<and> e \<noteq> LostPartial))"
  using ok
proof (cases rule: push_cases[of _ c])
  case (more k i n b p)
  from partial_okD[OF ok more(6)] have "slice_ok (re_plain_len r) p"
    by (simp add: partial_ok_def slice_ok_def)
  from store_ok[OF ok_except_mono[OF ok] more(6) this _ more(2) _ more(5), of i r' res] more res ok
  show ?thesis by auto
next
  case (first k i n b)
  from store_ok[OF open_partial_ok[OF ok first(6,2)] open_partial_simps(1), of n i b r' res] first res
  show ?thesis by (auto simp: slice_ok_def)
qed (use ok res in auto)

section \<open>Streams\<close>

text \<open>
  A stream that names at most \<open>MAX_PARTIALS\<close> messages never fills the table: nothing is
  evicted and no completed id falls out of the ring. \<open>roomy ids r\<close> is the state of such a
  stream, \<open>ids\<close> the messages it names.
\<close>

definition roomy :: "msg_ident set \<Rightarrow> reassembler \<Rightarrow> bool" where
  "roomy ids r \<longleftrightarrow> finite ids \<and> card ids \<le> MAX_PARTIALS \<and> reassembler_ok r \<and>
     set (re_order r) \<union> set (re_completed r) \<subseteq> ids"

lemma roomy_no_eviction:
  assumes "roomy ids r" "k \<in> ids" "bt_get (re_partial r) k = None"
  shows "evict_oldest r = r"
proof -
  have "k \<notin> set (re_order r)" and "distinct (re_order r)"
    using assms by (auto simp: roomy_def reassembler_ok_def ok_except_def bt_get_None_iff)
  then have "length (re_order r) < card ids"
    using assms psubset_card_mono[of ids "set (re_order r)"] by (auto simp: roomy_def distinct_card)
  with assms order_length[of r] have "length (re_partial r) < MAX_PARTIALS" by (simp add: roomy_def)
  then show ?thesis by (simp add: evict_oldest_def)
qed

lemma roomy_ring:
  assumes "roomy ids r"
  shows "length (re_completed r) < RECENT_COMPLETED"
proof -
  have "length (re_completed r) = card (set (re_completed r))"
    using assms by (simp add: roomy_def reassembler_ok_def ok_except_def distinct_card)
  also have "\<dots> \<le> card ids" using assms by (intro card_mono) (auto simp: roomy_def)
  finally show ?thesis using assms by (simp add: roomy_def MAX_PARTIALS_def RECENT_COMPLETED_def)
qed

text \<open>What storing a slice of one message leaves of the others.\<close>

lemma store_frame:
  assumes p: "bt_get (re_partial r) k = Some p" and ring: "length (re_completed r) < RECENT_COMPLETED"
    and res: "store r k p i b = (r', res)"
  shows "re_plain_len r' = re_plain_len r"
    and "j \<noteq> k \<Longrightarrow> bt_get (re_partial r') j = bt_get (re_partial r) j"
    and "j \<noteq> k \<Longrightarrow> j \<in> set (re_completed r') \<longleftrightarrow> j \<in> set (re_completed r)"
    and "set (re_order r') \<subseteq> set (re_order r)"
    and "set (re_completed r') \<subseteq> insert k (set (re_completed r))"
    and "j \<noteq> k \<Longrightarrow> res \<noteq> Inr (Complete j m)"
  using res ring
  by (auto simp: store_def complete_def Let_def bt_get_insert bt_get_remove split: if_splits)

lemma open_partial_roomy:
  assumes "roomy ids r" "k \<in> ids" "bt_get (re_partial r) k = None"
  shows "open_partial r k n = r\<lparr>re_order := re_order r @ [k],
         re_partial := bt_insert k \<lparr>pa_count = n, pa_chunks = []\<rparr> (re_partial r)\<rparr>"
  using roomy_no_eviction[OF assms] by (simp add: open_partial_def)

lemma push_roomy:
  assumes room: "roomy ids r" and res: "push r c = (r', res)"
    and named: "\<And>k. chunk_id (re_plain_len r) c = Some k \<Longrightarrow> k \<in> ids"
  shows "roomy ids r'" and "re_plain_len r' = re_plain_len r"
proof -
  have ok: "reassembler_ok r" using room by (simp add: roomy_def)
  have "set (re_order r') \<union> set (re_completed r') \<subseteq> ids \<and> re_plain_len r' = re_plain_len r"
    using ok
  proof (cases rule: push_cases[of _ c])
    case (more k i n b p)
    have "store r k p i b = (r', res)" using res more(8) by simp
    note fr = store_frame[OF more(6) roomy_ring[OF room] this]
    have "k \<in> ids" using named more(1) by simp
    with fr(1,4,5) room show ?thesis by (auto simp: roomy_def)
  next
    case (first k i n b)
    have k: "k \<in> ids" using named first(1) by simp
    note op = open_partial_roomy[OF room k first(6), of n]
    have st: "store (open_partial r k n) k \<lparr>pa_count = n, pa_chunks = []\<rparr> i b = (r', res)"
      using res first(7) by simp
    have "length (re_completed (open_partial r k n)) < RECENT_COMPLETED"
      using roomy_ring[OF room] by simp
    note fr = store_frame[OF open_partial_simps(1) this st]
    from fr(1,4,5) room k show ?thesis by (auto simp: roomy_def op)
  qed (use room res in \<open>auto simp: roomy_def\<close>)
  with push_keeps[OF ok res] room show "roomy ids r'" "re_plain_len r' = re_plain_len r"
    by (simp_all add: roomy_def)
qed

text \<open>A chunk of another message, or a refused one.\<close>

lemma push_foreign:
  assumes room: "roomy ids r" and res: "push r c = (r', res)"
    and named: "\<And>k. chunk_id (re_plain_len r) c = Some k \<Longrightarrow> k \<in> ids"
    and other: "chunk_id (re_plain_len r) c \<noteq> Some j"
  shows "bt_get (re_partial r') j = bt_get (re_partial r) j"
    and "j \<in> set (re_completed r') \<longleftrightarrow> j \<in> set (re_completed r)"
    and "res \<noteq> Inr (Complete j m)"
proof -
  have ok: "reassembler_ok r" using room by (simp add: roomy_def)
  have "bt_get (re_partial r') j = bt_get (re_partial r) j \<and>
    (j \<in> set (re_completed r') \<longleftrightarrow> j \<in> set (re_completed r)) \<and> res \<noteq> Inr (Complete j m)"
    using ok
  proof (cases rule: push_cases[of _ c])
    case (more k i n b p)
    have "store r k p i b = (r', res)" using res more(8) by simp
    note fr = store_frame[OF more(6) roomy_ring[OF room] this]
    have "j \<noteq> k" using other more(1) by auto
    from fr(2,3,6)[OF this] show ?thesis by simp
  next
    case (first k i n b)
    have k: "k \<in> ids" using named first(1) by simp
    note op = open_partial_roomy[OF room k first(6), of n]
    have st: "store (open_partial r k n) k \<lparr>pa_count = n, pa_chunks = []\<rparr> i b = (r', res)"
      using res first(7) by simp
    have "length (re_completed (open_partial r k n)) < RECENT_COMPLETED"
      using roomy_ring[OF room] by simp
    note fr = store_frame[OF open_partial_simps(1) this st]
    have "j \<noteq> k" using other first(1) by auto
    from fr(2,3,6)[OF this] show ?thesis by (simp add: op bt_get_insert \<open>j \<noteq> k\<close>)
  qed (use res in auto)
  then show "bt_get (re_partial r') j = bt_get (re_partial r) j"
    "j \<in> set (re_completed r') \<longleftrightarrow> j \<in> set (re_completed r)" "res \<noteq> Inr (Complete j m)" by auto
qed

end
