(* ===== verification/Net_Chunk_Props.thy ===== *)
theory Net_Chunk_Props
  imports Net_Chunk_Laws
begin

text \<open>
  The message a stream of chunks gives back: the chunks of one message in any order, with
  duplicates, mixed with chunks of other messages and with junk.
\<close>

section \<open>One message in the table\<close>

text \<open>
  \<open>received\<close> describes what the reassembler holds of one message when the chunks \<open>ix\<close> of its
  \<open>n\<close> have arrived: the slices themselves while some are missing, the completed id after that.
\<close>

definition received :: "msg_ident \<Rightarrow> bytes \<Rightarrow> nat \<Rightarrow> nat set \<Rightarrow> reassembler \<Rightarrow> bool" where
  "received ident payload n ix r \<longleftrightarrow>
     ix \<subseteq> {0..<n} \<and>
     (if ix = {0..<n} then ident \<in> set (re_completed r)
      else ident \<notin> set (re_completed r) \<and>
        (if ix = {} then bt_get (re_partial r) ident = None
         else \<exists>p. bt_get (re_partial r) ident = Some p \<and> pa_count p = n \<and> bt_wf (pa_chunks p) \<and>
           (\<forall>j. bt_get (pa_chunks p) j =
              (if j \<in> ix then Some (part_of payload (re_plain_len r - CHUNK_HEADER_LEN) j) else None))))"

lemma received_cong:
  assumes "re_plain_len r' = re_plain_len r"
    and "ident \<in> set (re_completed r') \<longleftrightarrow> ident \<in> set (re_completed r)"
    and "bt_get (re_partial r') ident = bt_get (re_partial r) ident"
  shows "received ident payload n ix r' = received ident payload n ix r"
  by (simp only: received_def assms)

lemma full_slices:
  assumes "bt_wf m" "\<And>j. bt_get m j = (if j \<in> {0..<n} then Some (f j) else None)"
  shows "m = map (\<lambda>j. (j, f j)) [0..<n]"
proof (rule bt_wf_eqI[OF assms(1)])
  show "bt_wf (map (\<lambda>j. (j, f j)) [0..<n])" by (simp add: bt_wf_def comp_def)
  fix k
  show "bt_get m k = bt_get (map (\<lambda>j. (j, f j)) [0..<n]) k"
    using assms(2)[of k] by (auto simp: map_of_map_restrict restrict_map_def)
qed

lemma slices_card:
  assumes "bt_wf m" "\<And>j. bt_get m j = (if j \<in> ix then Some (f j) else None)"
  shows "length m = card ix"
proof -
  have "k \<in> fst ` set m \<longleftrightarrow> k \<in> ix" for k
    using assms(2)[of k] bt_get_None_iff[of m k] by (auto split: if_splits)
  then have "fst ` set m = ix" by blast
  then show ?thesis using bt_length_card[OF assms(1)] by simp
qed

lemma push_chunk:
  assumes c: "is_chunk ident payload (re_plain_len r) n i c" "i < n"
  shows "push r c =
     (if ident \<in> set (re_completed r) then (r, Inr (Duplicate ident))
      else (case bt_get (re_partial r) ident of
              Some p \<Rightarrow>
                if pa_count p \<noteq> n
                then (r, Inl (Refused (Framing (CountChanged (pa_count p) n))))
                else store r ident p i (part_of payload (re_plain_len r - CHUNK_HEADER_LEN) i)
            | None \<Rightarrow>
                store (open_partial r ident n) ident \<lparr>pa_count = n, pa_chunks = []\<rparr> i
                  (part_of payload (re_plain_len r - CHUNK_HEADER_LEN) i)))"
  using assms by (simp add: push_def is_chunk_def)

text \<open>Storing a slice that is new, into a partial that holds the slices \<open>ix\<close>.\<close>

lemma store_new:
  assumes p: "bt_get (re_partial r) ident = Some p" "pa_count p = n" "bt_wf (pa_chunks p)"
    and slices: "\<And>j. bt_get (pa_chunks p) j =
       (if j \<in> ix then Some (part_of payload (re_plain_len r - CHUNK_HEADER_LEN) j) else None)"
    and ix: "ix \<subseteq> {0..<n}" "i < n" "i \<notin> ix"
    and new: "ident \<notin> set (re_completed r)" and ring: "length (re_completed r) < RECENT_COMPLETED"
    and len: "length payload \<le> n * (re_plain_len r - CHUNK_HEADER_LEN)"
    and res: "store r ident p i (part_of payload (re_plain_len r - CHUNK_HEADER_LEN) i) = (r', res)"
  shows "received ident payload n (insert i ix) r'"
    and "res = (if insert i ix = {0..<n} then Inr (Complete ident payload) else Inr (Buffered ident))"
proof -
  let ?f = "part_of payload (re_plain_len r - CHUNK_HEADER_LEN)"
  let ?m = "bt_insert i (?f i) (pa_chunks p)"
  let ?p = "p\<lparr>pa_chunks := ?m\<rparr>"
  let ?r = "r\<lparr>re_partial := bt_insert ident ?p (re_partial r)\<rparr>"
  have wf: "bt_wf ?m" using p(3) by simp
  have get: "bt_get ?m j = (if j \<in> insert i ix then Some (?f j) else None)" for j
    using slices by (simp add: bt_get_insert)
  have fin: "finite (insert i ix)" using ix(1) finite_subset by auto
  have card: "length ?m = card (insert i ix)" by (rule slices_card[OF wf get])
  have st: "store r ident p i (?f i) =
     (if length ?m < n then (?r, Inr (Buffered ident)) else complete ?r ident)"
    using slices[of i] ix(3) p(2) by (simp add: store_def bt_contains_def Let_def)
  have sub: "insert i ix \<subseteq> {0..<n}" using ix by auto
  have full: "length ?m < n \<longleftrightarrow> insert i ix \<noteq> {0..<n}"
    using card_subset_eq[OF finite_atLeastLessThan sub] card_mono[OF finite_atLeastLessThan sub] card
    by fastforce
  show "received ident payload n (insert i ix) r'"
    and "res = (if insert i ix = {0..<n} then Inr (Complete ident payload) else Inr (Buffered ident))"
  proof (atomize(full), cases "insert i ix = {0..<n}")
    case True
    then have "?m = map (\<lambda>j. (j, ?f j)) [0..<n]" using full_slices[OF wf] get by simp
    then have msg: "concat (map snd ?m) = payload"
      using concat_parts[OF len] by (simp add: comp_def)
    have "complete ?r ident = (r', res)" using res st full True by simp
    moreover have "bt_get (re_partial ?r) ident = Some ?p" by (simp add: bt_get_insert)
    ultimately have "res = Inr (Complete ident payload)" "re_completed r' = re_completed r @ [ident]"
      using ring msg by (auto simp: complete_def Let_def)
    then show "received ident payload n (insert i ix) r' \<and>
      res = (if insert i ix = {0..<n} then Inr (Complete ident payload) else Inr (Buffered ident))"
      using True by (simp add: received_def)
  next
    case False
    then have "r' = ?r" "res = Inr (Buffered ident)" using res st full by simp_all
    then show "received ident payload n (insert i ix) r' \<and>
      res = (if insert i ix = {0..<n} then Inr (Complete ident payload) else Inr (Buffered ident))"
      using False sub new wf get p(2) by (simp add: received_def bt_get_insert)
  qed
qed

lemma push_own:
  assumes room: "roomy ids r" "ident \<in> ids" and rec: "received ident payload n ix r"
    and c: "is_chunk ident payload (re_plain_len r) n i c" "i < n"
    and len: "length payload \<le> n * (re_plain_len r - CHUNK_HEADER_LEN)"
    and res: "push r c = (r', res)"
  shows "received ident payload n (insert i ix) r'"
    and "\<And>m. res = Inr (Complete ident m) \<longleftrightarrow> m = payload \<and> ix \<noteq> {0..<n} \<and> insert i ix = {0..<n}"
proof -
  have "received ident payload n (insert i ix) r' \<and>
    (\<forall>m. res = Inr (Complete ident m) \<longleftrightarrow> m = payload \<and> ix \<noteq> {0..<n} \<and> insert i ix = {0..<n})"
  proof (cases "ix = {0..<n}")
    case True
    then have "push r c = (r, Inr (Duplicate ident))"
      using rec by (simp add: push_chunk[OF c] received_def)
    with True res rec c(2) show ?thesis by (auto simp: insert_absorb)
  next
    case part: False
    then have new: "ident \<notin> set (re_completed r)" and sub: "ix \<subseteq> {0..<n}"
      using rec by (simp_all add: received_def)
    show ?thesis
    proof (cases "ix = {}")
      case True
      then have none: "bt_get (re_partial r) ident = None" using rec part by (simp add: received_def)
      have st: "store (open_partial r ident n) ident \<lparr>pa_count = n, pa_chunks = []\<rparr> i
          (part_of payload (re_plain_len (open_partial r ident n) - CHUNK_HEADER_LEN) i) = (r', res)"
        using res new none by (simp add: push_chunk[OF c])
      have "length (re_completed (open_partial r ident n)) < RECENT_COMPLETED"
        using roomy_ring[OF room(1)] by simp
      from store_new[OF open_partial_simps(1) _ _ _ _ c(2) _ _ this _ st, of "{}"] new len
      show ?thesis using True part by auto
    next
      case False
      then obtain p where p: "bt_get (re_partial r) ident = Some p" "pa_count p = n" "bt_wf (pa_chunks p)"
        and slices: "\<And>j. bt_get (pa_chunks p) j =
          (if j \<in> ix then Some (part_of payload (re_plain_len r - CHUNK_HEADER_LEN) j) else None)"
        using rec part by (auto simp: received_def)
      have st: "store r ident p i (part_of payload (re_plain_len r - CHUNK_HEADER_LEN) i) = (r', res)"
        using res new p by (simp add: push_chunk[OF c])
      show ?thesis
      proof (cases "i \<in> ix")
        case True
        then have "r' = r" "res = Inr (Duplicate ident)"
          using st slices[of i] by (auto simp: store_def bt_contains_def)
        with rec True part show ?thesis by (simp add: insert_absorb)
      next
        case i: False
        from store_new[OF p slices sub c(2) i new roomy_ring[OF room(1)] len st]
        show ?thesis using part by auto
      qed
    qed
  qed
  then show "received ident payload n (insert i ix) r'"
    "\<And>m. res = Inr (Complete ident m) \<longleftrightarrow> m = payload \<and> ix \<noteq> {0..<n} \<and> insert i ix = {0..<n}"
    by blast+
qed

section \<open>Streams of chunks\<close>

abbreviation completes :: "msg_ident \<Rightarrow> (net_error fault + push_outcome) \<Rightarrow> bool" where
  "completes ident res \<equiv> (case res of Inr (Complete k m) \<Rightarrow> k = ident | _ \<Rightarrow> False)"

lemma completes_iff: "completes ident res \<longleftrightarrow> (\<exists>m. res = Inr (Complete ident m))"
  by (auto split: sum.splits push_outcome.splits)

lemma is_chunk_index: "is_chunk ident payload plain n i c \<Longrightarrow> is_chunk ident payload plain n j c \<Longrightarrow> i = j"
  by (auto simp: is_chunk_def)

text \<open>The chunks of a message that a stream delivers.\<close>

definition arrived :: "msg_ident \<Rightarrow> bytes \<Rightarrow> nat \<Rightarrow> nat \<Rightarrow> bytes list \<Rightarrow> nat set" where
  "arrived ident payload plain n ds = {i. i < n \<and> (\<exists>d \<in> set ds. is_chunk ident payload plain n i d)}"

lemma arrived_Nil [simp]: "arrived ident payload plain n [] = {}"
  by (simp add: arrived_def)

lemma arrived_Cons:
  "arrived ident payload plain n (d # ds) = arrived ident payload plain n [d] \<union> arrived ident payload plain n ds"
  by (auto simp: arrived_def)

lemma arrived_subset: "arrived ident payload plain n ds \<subseteq> {0..<n}"
  by (auto simp: arrived_def)

lemma arrived_own: "is_chunk ident payload plain n i d \<Longrightarrow> i < n \<Longrightarrow> arrived ident payload plain n [d] = {i}"
  by (auto simp: arrived_def intro: is_chunk_index)

lemma arrived_foreign: "chunk_id plain d \<noteq> Some ident \<Longrightarrow> arrived ident payload plain n [d] = {}"
  by (auto simp: arrived_def is_chunk_def chunk_id_def)

lemma push_received:
  assumes room: "roomy ids r" "ident \<in> ids" and rec: "received ident payload n ix r"
    and len: "length payload \<le> n * (re_plain_len r - CHUNK_HEADER_LEN)" and res: "push r d = (r', res)"
    and named: "\<And>k. chunk_id (re_plain_len r) d = Some k \<Longrightarrow> k \<in> ids"
    and own: "chunk_id (re_plain_len r) d = Some ident \<Longrightarrow>
        \<exists>i < n. is_chunk ident payload (re_plain_len r) n i d"
  defines "got \<equiv> ix \<union> arrived ident payload (re_plain_len r) n [d]"
  shows "received ident payload n got r' \<and>
    filter (completes ident) [res] =
      (if ix \<noteq> {0..<n} \<and> got = {0..<n} then [Inr (Complete ident payload)] else [])"
proof (cases "chunk_id (re_plain_len r) d = Some ident")
  case True
  then obtain i where i: "i < n" "is_chunk ident payload (re_plain_len r) n i d" using own by auto
  note po = push_own[OF room rec i(2,1) len res]
  have got: "got = insert i ix" by (simp add: got_def arrived_own[OF i(2,1)])
  have "completes ident res \<longleftrightarrow> ix \<noteq> {0..<n} \<and> got = {0..<n}"
    and "completes ident res \<Longrightarrow> res = Inr (Complete ident payload)"
    unfolding completes_iff got po(2) by simp_all
  with po(1) got show ?thesis by simp
next
  case False
  note pf = push_foreign[OF room(1) res named False]
  have got: "got = ix" by (simp add: got_def arrived_foreign[OF False])
  have "received ident payload n ix r'"
    using rec pf(1,2) push_roomy(2)[OF room(1) res named] by (simp add: received_cong[of r' r])
  moreover have "\<not> completes ident res" unfolding completes_iff using pf(3) by blast
  ultimately show ?thesis unfolding got by simp
qed

lemma push_all_received:
  assumes "push_all r ds = (r', outs)" "roomy ids r" "ident \<in> ids" "received ident payload n ix r"
    and "re_plain_len r = plain" "length payload \<le> n * (plain - CHUNK_HEADER_LEN)"
    and "\<And>d k. d \<in> set ds \<Longrightarrow> chunk_id plain d = Some k \<Longrightarrow> k \<in> ids"
    and "\<And>d. d \<in> set ds \<Longrightarrow> chunk_id plain d = Some ident \<Longrightarrow>
        \<exists>i < n. is_chunk ident payload plain n i d"
  shows "received ident payload n (ix \<union> arrived ident payload plain n ds) r' \<and>
    filter (completes ident) outs =
      (if ix \<noteq> {0..<n} \<and> ix \<union> arrived ident payload plain n ds = {0..<n}
       then [Inr (Complete ident payload)] else [])"
  using assms
proof (induction ds arbitrary: r ix outs)
  case Nil
  then show ?case by auto
next
  case (Cons d ds)
  obtain r1 o1 where p1: "push r d = (r1, o1)" by force
  obtain os where p2: "push_all r1 ds = (r', os)" and outs: "outs = [o1] @ os"
    using Cons.prems(1) p1 by (auto split: prod.splits)
  have nm: "\<And>k. chunk_id (re_plain_len r) d = Some k \<Longrightarrow> k \<in> ids"
    using Cons.prems(7)[of d] Cons.prems(5) by simp
  note room1 = push_roomy[OF Cons.prems(2) p1 nm]
  define here where "here = arrived ident payload plain n [d]"
  define rest where "rest = arrived ident payload plain n ds"
  have step: "received ident payload n (ix \<union> here) r1 \<and>
    filter (completes ident) [o1] =
      (if ix \<noteq> {0..<n} \<and> ix \<union> here = {0..<n} then [Inr (Complete ident payload)] else [])"
    using push_received[OF Cons.prems(2,3,4) _ p1 nm] Cons.prems(5,6) Cons.prems(8)[of d]
    by (simp add: here_def)
  have IH: "received ident payload n (ix \<union> here \<union> rest) r' \<and>
    filter (completes ident) os =
      (if ix \<union> here \<noteq> {0..<n} \<and> ix \<union> here \<union> rest = {0..<n}
       then [Inr (Complete ident payload)] else [])"
    unfolding rest_def
    by (rule Cons.IH[OF p2 room1(1) Cons.prems(3) conjunct1[OF step]])
      (use Cons.prems(5,6) room1(2) Cons.prems(7,8)[OF list.set_intros(2)] in simp_all)
  have sub: "ix \<union> here \<union> rest \<subseteq> {0..<n}"
    using conjunct1[OF IH] by (simp add: received_def)
  have all: "ix \<union> arrived ident payload plain n (d # ds) = ix \<union> here \<union> rest"
    by (simp add: arrived_Cons[of _ _ _ _ d ds] here_def rest_def Un_assoc)
  have up: "ix \<union> here \<union> rest = {0..<n}" if "ix \<union> here = {0..<n}" using that sub by blast
  have keep: "ix \<union> here = {0..<n}" if "ix = {0..<n}" using that sub by blast
  show ?case
    unfolding all outs filter_append conjunct2[OF step] conjunct2[OF IH]
    using conjunct1[OF IH] up keep by simp
qed

text \<open>C25: a message split by the chunker comes back whole and exactly once from the reassembler,
  whatever the order of its chunks and however often each is delivered, also when the stream
  mixes in chunks of other messages and refused bytes, as long as the stream names at most
  \<open>MAX_PARTIALS\<close> messages and nobody else forges chunks under this message id.
\<close>

theorem reassembly_returns_the_message_once:
  assumes "chunk_message_sized ident payload plain = Inr cs" and "length ident = MSG_ID_LEN"
    and "set cs \<subseteq> set ds"
    and "\<forall>d \<in> set ds. chunk_id plain d = Some ident \<longrightarrow> d \<in> set cs"
    and "card (set (List.map_filter (chunk_id plain) ds)) \<le> MAX_PARTIALS"
  shows "filter (completes ident) (snd (push_all (new_sized plain) ds)) = [Inr (Complete ident payload)]"
proof -
  note ch = chunk_message_sized_chunks[OF assms(1,2)]
  let ?n = "length cs" and ?ids = "set (List.map_filter (chunk_id plain) ds)"
  have plain: "re_plain_len (new_sized plain) = plain"
    using ch(1) by (simp add: new_sized_def max_def)
  have named: "k \<in> ?ids" if "d \<in> set ds" "chunk_id plain d = Some k" for d k
    using that by (force simp: map_filter_def)
  have "cs ! 0 \<in> set ds" using assms(3) ch(2) by auto
  then have "ident \<in> ?ids"
    by (rule named) (use ch(5)[OF ch(2)] in \<open>simp add: is_chunk_def chunk_id_def\<close>)
  moreover have "roomy ?ids (new_sized plain)"
    using assms(5) new_sized_ok[of plain] by (auto simp: roomy_def new_sized_def)
  moreover have "received ident payload ?n {} (new_sized plain)"
    using ch(2) by (auto simp: received_def new_sized_def)
  moreover have own: "\<exists>i < ?n. is_chunk ident payload plain ?n i d"
    if "d \<in> set ds" "chunk_id plain d = Some ident" for d
    using that assms(4) ch(5) by (metis in_set_conv_nth)
  moreover have "{} \<union> arrived ident payload plain ?n ds = {0..<?n}"
  proof -
    have "i \<in> arrived ident payload plain ?n ds" if "i < ?n" for i
      unfolding arrived_def using assms(3) ch(5)[OF that] nth_mem[OF that] that by blast
    with arrived_subset[of ident payload plain ?n ds] show ?thesis by auto
  qed
  moreover have "{} \<noteq> {0..<?n}" using ch(2) by auto
  ultimately show ?thesis
    using push_all_received[of "new_sized plain" ds _ _ ?ids ident payload ?n "{}" plain] plain ch(4) named
    by (metis (no_types, lifting) prod.collapse)
qed

text \<open>
  The witness: two chunks of one byte each, delivered last first and once more, with a chunk of
  another message and a truncated one in between.
\<close>

definition demo_chunk :: "char \<Rightarrow> nat \<Rightarrow> nat \<Rightarrow> char \<Rightarrow> bytes" where
  "demo_chunk k i n b = replicate 16 k @ u16_le i @ u16_le n @ u16_le 1 @ [b]"

definition demo_stream :: "bytes list" where
  "demo_stream = [demo_chunk CHR ''m'' 1 2 CHR ''y'', ''junk'', demo_chunk CHR ''o'' 0 3 CHR ''z'',
     demo_chunk CHR ''m'' 1 2 CHR ''y'', demo_chunk CHR ''m'' 0 2 CHR ''x'']"

lemma demo_chunked:
  "chunk_message_sized (replicate 16 CHR ''m'') ''xy'' 23 =
     Inr [demo_chunk CHR ''m'' 0 2 CHR ''x'', demo_chunk CHR ''m'' 1 2 CHR ''y'']"
  by (simp add: chunk_message_sized_def chunk_message_budgeted_def chunk_consts div_ceil_def
      chunk_at_eq part_of_def Let_def upt_rec to_u16_def demo_chunk_def vec_resize_def
      flip: numeral_2_eq_2)

lemma demo_ids:
  "chunk_id 23 (demo_chunk k i n b) = Some (replicate 16 k)"
  "chunk_id 23 ''junk'' = None"
  by (simp_all add: chunk_id_def demo_chunk_def parse_header_def header_word_def slice_def chunk_consts)

lemma reassembly_returns_the_message_once_witness:
  "filter (completes (replicate 16 CHR ''m'')) (snd (push_all (new_sized 23) demo_stream)) =
     [Inr (Complete (replicate 16 CHR ''m'') ''xy'')]"
  by (rule reassembly_returns_the_message_once[OF demo_chunked])
    (auto simp: demo_stream_def MSG_ID_LEN_def MAX_PARTIALS_def List.map_filter_simps demo_ids
      card_insert_if)

section \<open>Hostile input\<close>

datatype reassembler_event = Push bytes | Forget msg_ident

fun event_step :: "reassembler \<Rightarrow> reassembler_event \<Rightarrow> reassembler" where
  "event_step r (Push c) = fst (push r c)"
| "event_step r (Forget ident) = forget r ident"

lemma event_step_ok: "reassembler_ok r \<Longrightarrow> reassembler_ok (event_step r e)"
  using push_keeps[of r] by (cases e) (auto simp: forget_ok intro: prod.collapse[symmetric])

text \<open>C26: whatever bytes arrive, in whatever order, the reassembler stays within its bounds: at
  most \<open>MAX_PARTIALS\<close> open messages, each with fewer slices than it announced and none longer
  than a chunk carries, at most \<open>RECENT_COMPLETED\<close> remembered ids, the eviction queue naming
  exactly the open messages; and the next chunk either has an outcome or is refused with the
  state unchanged: no input panics and no partial is lost.
\<close>

theorem reassembler_survives_any_input:
  "reassembler_ok (foldl event_step (new_sized plain) events) \<and>
   (is_ok (snd (push (foldl event_step (new_sized plain) events) chunk)) \<or>
    (\<exists>e. push (foldl event_step (new_sized plain) events) chunk =
           (foldl event_step (new_sized plain) events, Inl (Refused (Framing e)))))"
proof -
  have "reassembler_ok (foldl event_step r events)" if "reassembler_ok r" for r
    using that by (induction events arbitrary: r) (auto simp: event_step_ok)
  from this[OF new_sized_ok] have ok: "reassembler_ok (foldl event_step (new_sized plain) events)" .
  from push_keeps[OF ok, of chunk] ok show ?thesis
    by (cases "push (foldl event_step (new_sized plain) events) chunk") (auto simp: is_ok_iff)
qed

section \<open>What the chunker accepts\<close>

lemma collect_ok: "is_ok (collect f xs) \<longleftrightarrow> (\<forall>x \<in> set xs. is_ok (f x))"
proof (induction xs)
  case (Cons x xs)
  then show ?case by (cases "f x"; cases "collect f xs") auto
qed simp

text \<open>The chunker accepts a message exactly if the chunk size leaves room after the header,
  the number of chunks fits the 16-bit count and a slice fits the 16-bit length; then every
  chunk has the one uniform size.
\<close>

theorem chunker_accepts_exactly:
  "(is_ok (chunk_message_sized ident payload plain) \<longleftrightarrow>
      CHUNK_HEADER_LEN < plain \<and>
      max (div_ceil (length payload) (plain - CHUNK_HEADER_LEN)) 1 < 2 ^ 16 \<and>
      min (length payload) (plain - CHUNK_HEADER_LEN) < 2 ^ 16) \<and>
   list_all (\<lambda>c. length c = plain)
     (case chunk_message_sized ident payload plain of Inl _ \<Rightarrow> [] | Inr cs \<Rightarrow> cs)"
proof
  let ?b = "plain - CHUNK_HEADER_LEN"
  let ?n = "max (div_ceil (length payload) ?b) 1"
  have at: "is_ok (chunk_at ident payload ?b plain ?n i) \<longleftrightarrow>
      i < 2 ^ 16 \<and> length (part_of payload ?b i) < 2 ^ 16" for i
    by (auto simp: chunk_at_eq Let_def is_ok_iff rbind_eq_Inr)
  have part: "length (part_of payload ?b i) \<le> min (length payload) ?b" for i
    by (auto simp: part_of_def)
  have zero: "length (part_of payload ?b 0) = min (length payload) ?b" by (simp add: part_of_def min.commute)
  have "is_ok (collect (chunk_at ident payload ?b plain ?n) [0..<?n]) \<longleftrightarrow>
      min (length payload) ?b < 2 ^ 16" if "?n < 2 ^ 16"
    unfolding collect_ok at
  proof safe
    assume "\<forall>i \<in> set [0..<?n]. i < 2 ^ 16 \<and> length (part_of payload ?b i) < 2 ^ 16"
    then have "length (part_of payload ?b 0) < 2 ^ 16" by (auto dest: bspec[of _ _ 0])
    then show "min (length payload) ?b < 2 ^ 16" using zero by simp
  next
    fix i assume "min (length payload) ?b < 2 ^ 16" "i \<in> set [0..<?n]"
    then show "i < 2 ^ 16" "length (part_of payload ?b i) < 2 ^ 16"
      using that part[of i] by auto
  qed
  then show "is_ok (chunk_message_sized ident payload plain) \<longleftrightarrow>
      CHUNK_HEADER_LEN < plain \<and> ?n < 2 ^ 16 \<and> min (length payload) ?b < 2 ^ 16"
    by (auto simp: chunk_message_sized_def chunk_message_budgeted_def Let_def to_u16_def)
  show "list_all (\<lambda>c. length c = plain)
     (case chunk_message_sized ident payload plain of Inl _ \<Rightarrow> [] | Inr cs \<Rightarrow> cs)"
  proof (cases "chunk_message_sized ident payload plain")
    case (Inr cs)
    then have col: "collect (chunk_at ident payload ?b plain ?n) [0..<?n] = Inr cs"
      by (auto simp: chunk_message_sized_def chunk_message_budgeted_def Let_def rbind_eq_Inr
          split: if_splits)
    have "length (cs ! i) = plain" if "i < length cs" for i
    proof -
      have "chunk_at ident payload ?b plain ?n i = Inr (cs ! i)"
        using collect_Inr_map[OF col] that by simp
      then show ?thesis by (auto simp: chunk_at_eq Let_def rbind_eq_Inr dest!: sym[of _ "cs ! i"])
    qed
    then show ?thesis by (simp add: Inr list_all_length)
  qed simp
qed

end
