(* ===== verification/Wiki_Base.thy ===== *)
theory Wiki_Base
  imports Cut_Fold
begin

text \<open>
  The folded wiki as a node keeps it: the fold with its history, the cache that is extended by
  the appended entries, the check of an open patch against the tree, and the list of changes
  since a revision (\<open>molt-engine/src/proposals.rs\<close>, the types of
  \<open>molt-engine/src/lib.rs\<close>). Reading the committed base aborts when its canonical bytes
  have no length: \<open>Panic\<close>.
\<close>

section \<open>Types\<close>

record wiki_touch =
  wt_path :: string
  wt_kind :: string
  wt_from :: "string option"

record wiki_rev_changes =
  wr_rev :: u64
  wr_proposal :: "u64 option"
  wr_items :: "wiki_touch list"

record wiki_cache =
  wc_tree :: wiki_tree
  wc_rev :: u64
  wc_legacy :: nat
  wc_chain :: nat
  wc_epoch :: u64
  wc_history :: "wiki_rev_changes list"
  wc_base :: "string option"
  wc_rev_at_cut :: "u64 option"
  wc_below_cut :: "(wiki_rev_changes list \<times> u64) option"

record pending_patch =
  pp_files :: "patch_file list"
  pp_paths :: "string list"

datatype wiki_error = WikiBasePending u64 u64 string

section \<open>Patches of a payload\<close>

definition wiki_patch_files :: "json \<Rightarrow> patch_file list option" where
  "wiki_patch_files payload =
     (if get_str payload ''op'' \<noteq> Some ''wiki_patch'' then None
      else map_option parse_patch (get_str payload ''value''))"

definition wiki_payload_paths :: "json \<Rightarrow> string list option" where
  "wiki_payload_paths payload = map_option touched_paths (wiki_patch_files payload)"

definition wiki_touch_of :: "patch_file \<Rightarrow> wiki_touch" where
  "wiki_touch_of f =
     (let renamed = pf_renamed f \<and> \<not> pf_deleted f in
      \<lparr>wt_path = display_path f,
       wt_kind = (if pf_deleted f then ''deleted'' else if renamed then ''renamed''
                  else if pf_added f then ''added'' else ''modified''),
       wt_from = (if renamed then Some (pf_old_path f) else None)\<rparr>)"

text \<open>Whether an open patch still applies: over the tree restricted to the paths it names.\<close>

definition wiki_patch_applies :: "wiki_tree \<Rightarrow> pending_patch \<Rightarrow> bool" where
  "wiki_patch_applies tree pending =
     (let restricted = fold (\<lambda>path r. case bt_get tree path of None \<Rightarrow> r | Some content \<Rightarrow> bt_insert path content r)
                         (pp_paths pending) [] in
      case apply_patch restricted (pp_files pending) of Inl _ \<Rightarrow> False | Inr _ \<Rightarrow> True)"

section \<open>The fold\<close>

definition fold_wiki_step :: "wiki_cache \<Rightarrow> u64 option \<times> json \<Rightarrow> wiki_cache" where
  "fold_wiki_step cache e =
     (case wiki_patch_files (snd e) of
        None \<Rightarrow> cache
      | Some files \<Rightarrow>
          (case apply_patch (wc_tree cache) files of
             Inl _ \<Rightarrow> cache
           | Inr tree \<Rightarrow>
               cache\<lparr>wc_tree := tree, wc_rev := sat_inc (wc_rev cache),
                     wc_history := wc_history cache
                       @ [\<lparr>wr_rev = sat_inc (wc_rev cache), wr_proposal = fst e,
                           wr_items = map wiki_touch_of files\<rparr>]\<rparr>))"

definition fold_wiki_entry ::
  "extern \<Rightarrow> wiki_tree option \<Rightarrow> wiki_cache \<Rightarrow> u64 option \<times> json \<Rightarrow> wiki_error fault + wiki_cache" where
  "fold_wiki_entry X held cache e =
     (case base_commitment_of (snd e) of
        None \<Rightarrow> Inr (fold_wiki_step cache e)
      | Some (want, sz) \<Rightarrow>
          (case held of
             None \<Rightarrow> Inl (Refused (WikiBasePending 0 sz want))
           | Some tree \<Rightarrow>
               rbind (or_panic (wiki_commitment X tree)) (\<lambda>(have, _).
                 if have = want
                 then Inr (cache\<lparr>wc_tree := tree, wc_history := [],
                                 wc_rev_at_cut := rev_at_cut_of (snd e),
                                 wc_rev := (case rev_at_cut_of (snd e) of None \<Rightarrow> 0 | Some r \<Rightarrow> r),
                                 wc_base := Some want\<rparr>)
                 else Inl (Refused (WikiBasePending 0 sz want)))))"

definition wiki_cache_empty :: "nat \<Rightarrow> nat \<Rightarrow> u64 \<Rightarrow> wiki_cache" where
  "wiki_cache_empty legacy chain epoch =
     \<lparr>wc_tree = [], wc_rev = 0, wc_legacy = legacy, wc_chain = chain, wc_epoch = epoch,
      wc_history = [], wc_base = None, wc_rev_at_cut = None, wc_below_cut = None\<rparr>"

text \<open>Legacy entries first, then the chain's.\<close>

definition fold_wiki_from_base ::
  "extern \<Rightarrow> wiki_tree option \<Rightarrow> (u64 option \<times> json) list \<Rightarrow> (u64 option \<times> json) list \<Rightarrow> u64
   \<Rightarrow> wiki_error fault + wiki_cache" where
  "fold_wiki_from_base X held legacy chain epoch =
     rfold (fold_wiki_entry X held) (wiki_cache_empty (length legacy) (length chain) epoch) (legacy @ chain)"

definition wiki_stamps_of :: "wiki_cache \<Rightarrow> (u64 \<times> u64) list" where
  "wiki_stamps_of cache =
     List.map_filter (\<lambda>e. map_option (\<lambda>p. (p, wr_rev e)) (wr_proposal e)) (wc_history cache)"

definition wiki_cache_base_held :: "wiki_tree option \<Rightarrow> wiki_cache \<Rightarrow> bool" where
  "wiki_cache_base_held held c \<longleftrightarrow> wc_base c = None \<or> held \<noteq> None"

section \<open>The cache\<close>

definition extendable ::
  "wiki_tree option \<Rightarrow> nat \<Rightarrow> nat \<Rightarrow> u64 \<Rightarrow> wiki_cache \<Rightarrow> bool" where
  "extendable held legacy chain epoch c \<longleftrightarrow>
     wc_epoch c = epoch \<and>
     ((wc_chain c = 0 \<and> chain = 0 \<and> wc_legacy c \<le> legacy) \<or> (wc_legacy c = legacy \<and> wc_chain c \<le> chain)) \<and>
     wiki_cache_base_held held c"

text \<open>The appended entries up to the first committed base; the flag says one was met.\<close>

fun extend_loop :: "wiki_cache \<Rightarrow> (u64 option \<times> json) list \<Rightarrow> wiki_cache \<times> bool" where
  "extend_loop c [] = (c, False)"
| "extend_loop c (e # es) =
     (if base_commitment_of (snd e) \<noteq> None then (c, True) else extend_loop (fold_wiki_step c e) es)"

text \<open>
  The refreshed cache with the revisions to stamp on the cards, \<open>None\<close> on an abort.
\<close>

definition refreshed ::
  "extern \<Rightarrow> wiki_tree option \<Rightarrow> (u64 option \<times> json) list \<Rightarrow> (u64 option \<times> json) list \<Rightarrow> u64
   \<Rightarrow> wiki_cache option \<Rightarrow> (wiki_cache option \<times> (u64 \<times> u64) list) option" where
  "refreshed X held legacy chain epoch old =
     (let kept = (case old of
                    None \<Rightarrow> None
                  | Some c \<Rightarrow> if extendable held (length legacy) (length chain) epoch c then Some c else None);
          (cache, stamps) =
            (case kept of
               None \<Rightarrow> (None, [])
             | Some c \<Rightarrow>
                 (case extend_loop c (drop (wc_legacy c) legacy @ drop (wc_chain c) chain) of
                    (c', folded) \<Rightarrow>
                      (if folded then None
                       else Some (c'\<lparr>wc_legacy := length legacy, wc_chain := length chain\<rparr>),
                       wiki_stamps_of c')));
          filled = (case cache of
                      Some c \<Rightarrow> Some (Some c)
                    | None \<Rightarrow>
                        (case fold_wiki_from_base X held legacy chain epoch of
                           Inl Panic \<Rightarrow> None
                         | Inl (Refused _) \<Rightarrow> Some None
                         | Inr c \<Rightarrow> Some (Some c))) in
      map_option (\<lambda>cache. (cache, stamps @ (case cache of None \<Rightarrow> [] | Some c \<Rightarrow> wiki_stamps_of c))) filled)"

text \<open>The folded base and its revision: from the cache while it describes the logs, else folded.\<close>

definition wiki_base_of ::
  "extern \<Rightarrow> wiki_tree option \<Rightarrow> (u64 option \<times> json) list \<Rightarrow> (u64 option \<times> json) list \<Rightarrow> u64
   \<Rightarrow> wiki_cache option \<Rightarrow> wiki_error fault + wiki_tree \<times> u64" where
  "wiki_base_of X held legacy chain epoch old =
     (let folded = rbind (fold_wiki_from_base X held legacy chain epoch) (\<lambda>c. Inr (wc_tree c, wc_rev c)) in
      case old of
        None \<Rightarrow> folded
      | Some c \<Rightarrow>
          if wc_epoch c = epoch \<and> wc_legacy c = length legacy \<and> wc_chain c = length chain \<and> wiki_cache_base_held held c
          then Inr (wc_tree c, wc_rev c)
          else folded)"

section \<open>What changed since a revision\<close>

record wiki_change =
  wg_path :: string
  wg_kind :: string
  wg_rev :: u64
  wg_from :: "string option"

definition or_opt :: "'a option \<Rightarrow> 'a option \<Rightarrow> 'a option" where
  "or_opt a b = (case a of None \<Rightarrow> b | Some _ \<Rightarrow> a)"

definition coalesce_item ::
  "u64 \<Rightarrow> (string, string \<times> wiki_change) btree \<Rightarrow> wiki_touch \<Rightarrow> (string, string \<times> wiki_change) btree" where
  "coalesce_item rv seen item =
     (let (seen1, first1, from1) =
            (case wt_from item of
               None \<Rightarrow> (seen, wt_kind item, None)
             | Some old \<Rightarrow>
                 (case bt_get seen old of
                    None \<Rightarrow> (seen, wt_kind item, Some old)
                  | Some (was, prev) \<Rightarrow> (bt_remove old seen, was, or_opt (wg_from prev) (Some old))));
          (first2, from2) =
            (case bt_get seen1 (wt_path item) of
               None \<Rightarrow> (first1, from1)
             | Some (was, prev) \<Rightarrow> (was, or_opt from1 (wg_from prev))) in
      bt_insert (wt_path item)
        (first2, \<lparr>wg_path = wt_path item, wg_kind = wt_kind item, wg_rev = rv, wg_from = from2\<rparr>) seen1)"

definition coalesce_last :: "string \<times> wiki_change \<Rightarrow> wiki_change option" where
  "coalesce_last e =
     (if fst e \<noteq> ''added'' then Some (snd e)
      else if wg_kind (snd e) = ''deleted'' then None
      else Some ((snd e)\<lparr>wg_kind := ''added'', wg_from := None\<rparr>))"

definition coalesce_wiki_changes :: "wiki_rev_changes list \<Rightarrow> u64 \<Rightarrow> wiki_change list" where
  "coalesce_wiki_changes history since =
     List.map_filter coalesce_last
       (map snd (fold (\<lambda>e seen. fold (\<lambda>item seen. coalesce_item (wr_rev e) seen item) (wr_items e) seen)
                   (filter (\<lambda>e. wr_rev e > since) history) []))"

end
