(* ===== verification/Gov_State.thy ===== *)
theory Gov_State
  imports Chain_Laws Wiki_Base
begin

text \<open>
  The governance state of one node: the proposal cards, the registered chain changes, the
  ephemeral signature collection and the parked votes (\<open>State\<close> and \<open>ChainProjection\<close> of
  \<open>molt-engine/src/lib.rs\<close>, the fields the governance code reads or writes), with the
  lookups of \<open>molt-engine/src/chain/governance.rs\<close> and the id classes of
  \<open>molt-engine/src/proposals.rs\<close>.

  A hash map that is only looked up is a map, one that is walked or counted is an ordered
  map: where the code walks it, the order does not matter or is fixed by a sort. A \<open>BTreeSet\<close> is its ascending list. Integer overflow aborts (the workspace
  builds with \<open>overflow-checks\<close>): such a result is \<open>None\<close>, like the abort of an encoder whose
  length does not fit its prefix. The clock of the node is the field \<open>gv_now\<close>.
\<close>

section \<open>Records\<close>

datatype proposal_state = StProposed | StApplied | StRejected

datatype superseded_kind = Rebase | Conflict

record proposal_record =
  pr_surface :: surface
  pr_payload :: json
  pr_approvals :: nat
  pr_state :: proposal_state
  pr_applied_at :: u64
  pr_declined_at :: u64
  pr_declined_by :: string
  pr_decliners :: "string list"
  pr_voted :: "string list"
  pr_by :: string
  pr_superseded :: bool
  pr_superseded_kind :: "superseded_kind option"
  pr_withdrawn :: bool
  pr_wiki_rev :: "u64 option"

definition settle_applied :: "proposal_record \<Rightarrow> proposal_record" where
  "settle_applied p = p\<lparr>pr_state := StApplied, pr_superseded := False, pr_superseded_kind := None\<rparr>"

text \<open>The card a sighting creates, and the one a block materializes.\<close>

definition fresh_record :: "surface \<Rightarrow> json \<Rightarrow> proposal_state \<Rightarrow> string \<Rightarrow> proposal_record" where
  "fresh_record sf payload st by_member =
     \<lparr>pr_surface = sf, pr_payload = payload, pr_approvals = 0, pr_state = st, pr_applied_at = 0,
      pr_declined_at = 0, pr_declined_by = [], pr_decliners = [], pr_voted = [], pr_by = by_member,
      pr_superseded = False, pr_superseded_kind = None, pr_withdrawn = False, pr_wiki_rev = None\<rparr>"

record pending_approval =
  pend_height :: u64
  pend_sigs :: "roster_attestation list"
  pend_verified :: "string list"

definition pending_default :: pending_approval where
  "pending_default = \<lparr>pend_height = 0, pend_sigs = [], pend_verified = []\<rparr>"

record replica =
  rp_member :: string
  rp_roster :: "string list"
  rp_identities :: "member_identity list"
  rp_republic_id :: string
  rp_rule_m :: u8

record gov_state =
  gv_config_member :: string
  gv_config_members :: "string list"
  gv_replica :: "replica option"
  gv_next_id :: u64
  gv_now :: u64
  gv_nostr :: bool
  gv_proposals :: "(u64, proposal_record) btree"
  gv_head :: "chain_head option"
  gv_head_moved_at :: u64
  gv_blocks :: "chain_block list"
  gv_walk :: "chain_walk option"
  gv_blob :: "checkpoint_state option"
  gv_held :: held
  gv_legacy :: "surface \<Rightarrow> (u64 option \<times> json) list"
  gv_applied :: "surface \<Rightarrow> (u64 option \<times> json) list"
  gv_epoch :: u64
  gv_wiki_cache :: "wiki_cache option"
  gv_wiki_pending :: "(u64, pending_patch) btree"
  gv_adoption_pending :: bool
  gv_replay_held_at :: "(u64, u64) btree"
  gv_applied_sigs :: "u64 \<rightharpoonup> roster_attestation list"
  gv_anchors :: "string \<rightharpoonup> string"
  gv_member_relays :: "string \<rightharpoonup> string list"
  gv_proposal_changes :: "(u64, chain_change) btree"
  gv_pending_sigs :: "(u64, pending_approval) btree"
  gv_own_approvals :: "u64 list"
  gv_pending_declines :: "(u64, (string \<times> u64 \<times> string) list) btree"
  gv_pending_withdrawals :: "(u64, string \<times> u64) btree"
  gv_id_collisions :: "(u64, string) btree"
  gv_seen_signing :: "(string, u64) btree"
  gv_refused_at :: "(string, u64) btree"
  gv_seal_held :: "u64 list"

section \<open>Who this node is\<close>

definition gov_member :: "gov_state \<Rightarrow> string" where
  "gov_member s = (case gv_replica s of Some r \<Rightarrow> rp_member r | None \<Rightarrow> gv_config_member s)"

definition gov_roster :: "gov_state \<Rightarrow> string list" where
  "gov_roster s = (case gv_replica s of Some r \<Rightarrow> rp_roster r | None \<Rightarrow> gv_config_members s)"

definition gov_republic_id :: "gov_state \<Rightarrow> string" where
  "gov_republic_id s = (case gv_replica s of Some r \<Rightarrow> rp_republic_id r | None \<Rightarrow> [])"

definition is_chain_governed :: "gov_state \<Rightarrow> bool" where
  "is_chain_governed s \<longleftrightarrow> gv_head s \<noteq> None"

definition working_nostr_pk :: "gov_state \<Rightarrow> string \<Rightarrow> string" where
  "working_nostr_pk s member =
     (case gv_anchors s member of
        Some pk \<Rightarrow> pk
      | None \<Rightarrow>
          (case gv_replica s of
             None \<Rightarrow> []
           | Some r \<Rightarrow> (case member_of (rp_identities r) member of None \<Rightarrow> [] | Some i \<Rightarrow> mi_nostr_pk i)))"

definition anchored_identity :: "gov_state \<Rightarrow> string \<Rightarrow> string option" where
  "anchored_identity s member =
     Option.bind (gv_head s) (\<lambda>h. map_option mi_identity_pk (member_of (ch_identities h) member))"

text \<open>The height after the head, \<open>None\<close> on overflow.\<close>

definition target_of :: "chain_head \<Rightarrow> u64 option" where
  "target_of h = (if unat (ch_height h) = 2 ^ 64 - 1 then None else Some (ch_height h + 1))"

definition u64_sat_add :: "u64 \<Rightarrow> u64 \<Rightarrow> u64" where
  "u64_sat_add a b = (if unat a + unat b \<ge> 2 ^ 64 then - 1 else a + b)"

definition u64_sat_sub :: "u64 \<Rightarrow> u64 \<Rightarrow> u64" where
  "u64_sat_sub a b = (if a < b then 0 else a - b)"

definition PARKED_DECLINE_ID_WINDOW :: u64 where "PARKED_DECLINE_ID_WINDOW = 1024"
definition PARKED_DECLINE_IDS_MAX :: nat where "PARKED_DECLINE_IDS_MAX = 1024"
definition PARKED_DECLINES_PER_MEMBER_MAX :: nat where "PARKED_DECLINES_PER_MEMBER_MAX = 64"
definition ID_COLLISIONS_MAX :: nat where "ID_COLLISIONS_MAX = 64"
definition OPEN_CARDS_PER_PROPOSER_MAX :: nat where "OPEN_CARDS_PER_PROPOSER_MAX = 64"
definition SEAL_PACE_SECS :: u64 where "SEAL_PACE_SECS = 5"
definition VOTE_REFUSAL_DEBOUNCE_SECS :: u64 where "VOTE_REFUSAL_DEBOUNCE_SECS = 30"

definition plausible_wire_id :: "gov_state \<Rightarrow> u64 \<Rightarrow> bool" where
  "plausible_wire_id s i \<longleftrightarrow> i \<le> u64_sat_add (gv_next_id s) PARKED_DECLINE_ID_WINDOW"

text \<open>The ids the verified chain has consumed.\<close>

definition gov_seen :: "gov_state \<Rightarrow> u64 list" where
  "gov_seen s = (case gv_walk s of None \<Rightarrow> [] | Some w \<Rightarrow> w_seen w)"

text \<open>Every ingest keeps the mint counter above the ids it has seen.\<close>

definition bump_next_id :: "u64 \<Rightarrow> gov_state \<Rightarrow> gov_state" where
  "bump_next_id i s = s\<lparr>gv_next_id := max (gv_next_id s) (u64_sat_add i 1)\<rparr>"

section \<open>Proposal ids\<close>

text \<open>
  Seat \<open>k\<close> of \<open>n\<close> in the sorted roster mints only ids that are \<open>k + 1\<close> modulo \<open>n\<close>.
\<close>

definition seat_stride :: "gov_state \<Rightarrow> nat \<times> nat" where
  "seat_stride s =
     (case gv_replica s of
        None \<Rightarrow> (1, 0)
      | Some r \<Rightarrow>
          (let roster = sort (rp_roster r) in
           (max (length roster) 1,
            case position_of (\<lambda>m. m = rp_member r) roster of None \<Rightarrow> 0 | Some k \<Rightarrow> k)))"

definition mint_proposal_id :: "gov_state \<Rightarrow> (gov_state \<times> u64) option" where
  "mint_proposal_id s =
     (let (n, k) = seat_stride s;
          floor = max (unat (gv_next_id s)) 1;
          want = (k + 1) mod n;
          i = floor + (want + n - floor mod n) mod n in
      if i < 2 ^ 64
      then Some (s\<lparr>gv_next_id := u64_sat_add (word_of_nat i) 1\<rparr>, word_of_nat i)
      else None)"

definition minting_seat :: "gov_state \<Rightarrow> u64 \<Rightarrow> string option" where
  "minting_seat s i =
     (case gv_replica s of
        None \<Rightarrow> None
      | Some r \<Rightarrow>
          (let roster = sort (rp_roster r); n = length roster in
           if n = 0 then None
           else (let k = (unat i mod n + n - 1) mod n in
                 if k < n then Some (roster ! k) else None)))"

section \<open>The change a proposal enacts\<close>

definition proposal_change :: "gov_state \<Rightarrow> u64 \<Rightarrow> chain_change option" where
  "proposal_change s i =
     (case bt_get (gv_proposal_changes s) i of
        Some change \<Rightarrow> Some change
      | None \<Rightarrow>
          (case bt_get (gv_proposals s) i of
             None \<Rightarrow> None
           | Some p \<Rightarrow>
               if get_str (pr_payload p) ''op'' \<in> {Some ''restore_member'', Some ''add_member''} then None
               else Some (Applied i (pr_surface p) (pr_payload p))))"

fun membership_word :: "membership_op \<Rightarrow> string" where
  "membership_word Restored = ''restore_member''"
| "membership_word Joined = ''add_member''"

text \<open>Whether a card is the visible record of a membership change.\<close>

definition wears_membership :: "proposal_record \<Rightarrow> membership_op \<Rightarrow> string \<Rightarrow> bool" where
  "wears_membership p op member \<longleftrightarrow>
     pr_surface p = Organization \<and> get_str (pr_payload p) ''op'' = Some (membership_word op) \<and>
     get_str (pr_payload p) ''member'' = Some member"

definition id_free_for :: "gov_state \<Rightarrow> u64 \<Rightarrow> chain_change \<Rightarrow> bool" where
  "id_free_for s i change =
     (case bt_get (gv_proposal_changes s) i of
        Some existing \<Rightarrow> existing = change
      | None \<Rightarrow>
          (case bt_get (gv_proposals s) i of
             None \<Rightarrow> True
           | Some p \<Rightarrow>
               (case change of
                  Membership op member _ _ _ _ \<Rightarrow> wears_membership p op member
                | _ \<Rightarrow> False)))"

definition open_card :: "gov_state \<Rightarrow> u64 \<Rightarrow> bool" where
  "open_card s i \<longleftrightarrow> (case bt_get (gv_proposals s) i of Some p \<Rightarrow> pr_state p = StProposed | None \<Rightarrow> False)"

definition terminal_card :: "gov_state \<Rightarrow> u64 \<Rightarrow> bool" where
  "terminal_card s i \<longleftrightarrow> (case bt_get (gv_proposals s) i of Some p \<Rightarrow> pr_state p \<noteq> StProposed | None \<Rightarrow> False)"

definition chain_approval_count :: "gov_state \<Rightarrow> u64 \<Rightarrow> nat" where
  "chain_approval_count s i =
     (case bt_get (gv_pending_sigs s) i of None \<Rightarrow> 0 | Some p \<Rightarrow> length (pend_verified p))"

definition own_signature_stands :: "gov_state \<Rightarrow> u64 \<Rightarrow> bool option" where
  "own_signature_stands s i =
     (case gv_head s of
        None \<Rightarrow> Some False
      | Some h \<Rightarrow>
          map_option (\<lambda>target.
            case bt_get (gv_pending_sigs s) i of
              None \<Rightarrow> False
            | Some p \<Rightarrow> pend_height p = target \<and> list_ex (\<lambda>a. at_member a = gov_member s) (pend_sigs p))
            (target_of h))"

section \<open>Updates of one entry\<close>

definition upd_pending :: "u64 \<Rightarrow> (pending_approval \<Rightarrow> pending_approval) \<Rightarrow> gov_state \<Rightarrow> gov_state" where
  "upd_pending i f s =
     (case bt_get (gv_pending_sigs s) i of
        None \<Rightarrow> s
      | Some p \<Rightarrow> s\<lparr>gv_pending_sigs := bt_insert i (f p) (gv_pending_sigs s)\<rparr>)"

definition upd_card :: "u64 \<Rightarrow> (proposal_record \<Rightarrow> proposal_record) \<Rightarrow> gov_state \<Rightarrow> gov_state" where
  "upd_card i f s =
     (case bt_get (gv_proposals s) i of
        None \<Rightarrow> s
      | Some p \<Rightarrow> s\<lparr>gv_proposals := bt_insert i (f p) (gv_proposals s)\<rparr>)"

text \<open>The voters as they stood are kept on the record.\<close>

definition stash_voted :: "u64 \<Rightarrow> gov_state \<Rightarrow> gov_state" where
  "stash_voted i s =
     (let members = (case bt_get (gv_pending_sigs s) i of None \<Rightarrow> [] | Some p \<Rightarrow> map at_member (pend_sigs p)) in
      upd_card i (\<lambda>p. p\<lparr>pr_voted := fold (\<lambda>m v. if m \<in> set v then v else v @ [m]) members (pr_voted p)\<rparr>) s)"

section \<open>Restore consents, judged on this chain\<close>

definition restore_consent_at ::
  "extern \<Rightarrow> gov_state \<Rightarrow> chain_change \<Rightarrow> u64 \<Rightarrow> string fault + consent_kind" where
  "restore_consent_at X s change height =
     (case change of
        Membership _ member _ nostr_pk relays (Some consent) \<Rightarrow>
          rbind (ok_or (Refused ''not an anchored seat'') (anchored_identity s member)) (\<lambda>anchored.
          rbind (verify_restore_consent X (gov_republic_id s) anchored height member nostr_pk relays consent) (\<lambda>kind.
          rbind (refusing id (consent_spends change (working_nostr_pk s))) (\<lambda>_.
            Inr kind)))
      | _ \<Rightarrow> Inl (Refused ''no consent''))"

lemma upd_card_get:
  "bt_get (gv_proposals (upd_card i f s)) j =
     (if j = i then map_option f (bt_get (gv_proposals s) i) else bt_get (gv_proposals s) j)"
  by (auto simp: upd_card_def bt_get_insert split: option.splits)

end
