(* ===== verification/Wiki_Cache.thy ===== *)
theory Wiki_Cache
  imports Wiki_Base
begin

text \<open>
  The wiki cache is transparent: extending it by the appended entries reaches the very fold a
  rebuild would reach, so a read never depends on whether, or when, a cache was built.
\<close>

section \<open>The bookkeeping does not influence the fold\<close>

definition shifted_cache :: "nat \<Rightarrow> nat \<Rightarrow> (wiki_rev_changes list \<times> u64) option \<Rightarrow> wiki_cache \<Rightarrow> wiki_cache" where
  "shifted_cache l k b c = c\<lparr>wc_legacy := l, wc_chain := k, wc_below_cut := b\<rparr>"

lemma fold_wiki_step_shifted:
  "fold_wiki_step (shifted_cache l k b c) e = shifted_cache l k b (fold_wiki_step c e)"
  by (simp add: fold_wiki_step_def shifted_cache_def split: option.splits sum.splits)

lemma fold_wiki_entry_shifted:
  "fold_wiki_entry X held (shifted_cache l k b c) e = map_sum id (shifted_cache l k b) (fold_wiki_entry X held c e)"
proof (cases "base_commitment_of (snd e)")
  case None
  then show ?thesis by (simp add: fold_wiki_entry_def fold_wiki_step_shifted)
next
  case (Some p)
  then show ?thesis
    by (cases p; cases held)
      (auto simp: fold_wiki_entry_def shifted_cache_def or_panic_def rbind_def split: option.splits prod.splits)
qed

lemma rfold_wiki_shifted:
  "rfold (fold_wiki_entry X held) (shifted_cache l k b c) es
     = map_sum id (shifted_cache l k b) (rfold (fold_wiki_entry X held) c es)"
proof (induction es arbitrary: c)
  case (Cons e es)
  then show ?case
    by (cases "fold_wiki_entry X held c e") (simp_all add: fold_wiki_entry_shifted)
qed simp

lemma fold_wiki_entry_counts:
  "fold_wiki_entry X held c e = Inr d \<Longrightarrow> wc_legacy d = wc_legacy c \<and> wc_chain d = wc_chain c \<and>
     wc_epoch d = wc_epoch c \<and> wc_below_cut d = wc_below_cut c"
  by (auto simp: fold_wiki_entry_def fold_wiki_step_def rbind_def or_panic_def
      split: option.splits sum.splits prod.splits if_splits)

lemma rfold_wiki_counts:
  "rfold (fold_wiki_entry X held) c es = Inr d \<Longrightarrow> wc_legacy d = wc_legacy c \<and> wc_chain d = wc_chain c \<and>
     wc_epoch d = wc_epoch c \<and> wc_below_cut d = wc_below_cut c"
proof (induction es arbitrary: c)
  case (Cons e es)
  then obtain c1 where "fold_wiki_entry X held c e = Inr c1" "rfold (fold_wiki_entry X held) c1 es = Inr d"
    by (cases "fold_wiki_entry X held c e") auto
  then show ?case using Cons.IH[of c1] fold_wiki_entry_counts[of X held c e c1] by simp
qed simp

lemma extend_loop_rfold:
  "extend_loop c es = (d, False) \<Longrightarrow> rfold (fold_wiki_entry X held) c es = Inr d"
proof (induction c es rule: extend_loop.induct)
  case (2 c e es)
  then have "base_commitment_of (snd e) = None" by (cases "base_commitment_of (snd e)") simp_all
  then show ?case using 2 by (simp add: fold_wiki_entry_def)
qed simp

section \<open>Honest caches\<close>

text \<open>A cache describes the fold of a prefix of each log, under the base held.\<close>

definition honest ::
  "extern \<Rightarrow> wiki_tree option \<Rightarrow> (u64 option \<times> json) list \<Rightarrow> (u64 option \<times> json) list \<Rightarrow> wiki_cache \<Rightarrow> bool" where
  "honest X held legacy chain c \<longleftrightarrow>
     (\<exists>d. fold_wiki_from_base X held (take (wc_legacy c) legacy) (take (wc_chain c) chain) (wc_epoch c) = Inr d \<and>
        c = d\<lparr>wc_below_cut := wc_below_cut c\<rparr>)"

lemma honest_extend:
  assumes hon: "honest X held legacy chain c" and ext: "extendable held (length legacy) (length chain) epoch c"
    and run: "extend_loop c (drop (wc_legacy c) legacy @ drop (wc_chain c) chain) = (c', False)"
  shows "\<exists>d. fold_wiki_from_base X held legacy chain epoch = Inr d \<and>
     c'\<lparr>wc_legacy := length legacy, wc_chain := length chain\<rparr> = d\<lparr>wc_below_cut := wc_below_cut c\<rparr>"
proof -
  have ep: "wc_epoch c = epoch" and fit: "wc_legacy c \<le> length legacy" "wc_chain c \<le> length chain"
    using ext by (auto simp: extendable_def)
  have split: "legacy @ chain = (take (wc_legacy c) legacy @ take (wc_chain c) chain)
      @ (drop (wc_legacy c) legacy @ drop (wc_chain c) chain)"
    using ext by (auto simp: extendable_def)
  obtain d where d: "rfold (fold_wiki_entry X held) (wiki_cache_empty (wc_legacy c) (wc_chain c) epoch)
      (take (wc_legacy c) legacy @ take (wc_chain c) chain) = Inr d" "c = d\<lparr>wc_below_cut := wc_below_cut c\<rparr>"
    using hon ep fit by (auto simp: honest_def fold_wiki_from_base_def min_absorb2)
  have cs: "c = shifted_cache (wc_legacy c) (wc_chain c) (wc_below_cut c) d"
  proof -
    have "wc_legacy d = wc_legacy c" "wc_chain d = wc_chain c"
      using rfold_wiki_counts[OF d(1)] by (simp_all add: wiki_cache_empty_def)
    then have "d = d\<lparr>wc_legacy := wc_legacy c, wc_chain := wc_chain c\<rparr>" by simp
    then show ?thesis unfolding shifted_cache_def using d(2) by metis
  qed
  have tail: "rfold (fold_wiki_entry X held) c (drop (wc_legacy c) legacy @ drop (wc_chain c) chain) = Inr c'"
    by (rule extend_loop_rfold[OF run])
  then obtain e where e: "rfold (fold_wiki_entry X held) d (drop (wc_legacy c) legacy @ drop (wc_chain c) chain) = Inr e"
    "c' = shifted_cache (wc_legacy c) (wc_chain c) (wc_below_cut c) e"
    using rfold_wiki_shifted[of X held "wc_legacy c" "wc_chain c" "wc_below_cut c" d] cs
    by (cases "rfold (fold_wiki_entry X held) d (drop (wc_legacy c) legacy @ drop (wc_chain c) chain)") auto
  have whole: "rfold (fold_wiki_entry X held) (wiki_cache_empty (wc_legacy c) (wc_chain c) epoch) (legacy @ chain) = Inr e"
    unfolding split rfold_append[of _ _ "take (wc_legacy c) legacy @ take (wc_chain c) chain"] d(1)
    using e(1) by simp
  have "wiki_cache_empty (length legacy) (length chain) epoch
      = shifted_cache (length legacy) (length chain) None (wiki_cache_empty (wc_legacy c) (wc_chain c) epoch)"
    by (simp add: wiki_cache_empty_def shifted_cache_def)
  then have "fold_wiki_from_base X held legacy chain epoch = Inr (shifted_cache (length legacy) (length chain) None e)"
    unfolding fold_wiki_from_base_def using whole by (simp add: rfold_wiki_shifted)
  then show ?thesis by (intro exI[of _ "shifted_cache (length legacy) (length chain) None e"])
      (simp add: e(2) shifted_cache_def)
qed

text \<open>Only a cache that passes the guards (its epoch is the current one, the base it stands on is held) has
  to be honest; a stale one may say anything.\<close>

lemma refresh_is_refold:
  assumes "\<And>c. old = Some c \<Longrightarrow> wc_epoch c = epoch \<Longrightarrow> wiki_cache_base_held held c \<Longrightarrow> honest X held legacy chain c"
  shows "(case refreshed X held legacy chain epoch old of
            None \<Rightarrow> fold_wiki_from_base X held legacy chain epoch = Inl Panic
          | Some (None, _) \<Rightarrow> \<exists>e. fold_wiki_from_base X held legacy chain epoch = Inl (Refused e)
          | Some (Some c, _) \<Rightarrow> \<exists>d. fold_wiki_from_base X held legacy chain epoch = Inr d \<and>
              c = d\<lparr>wc_below_cut := wc_below_cut c\<rparr>)
       \<and> wiki_base_of X held legacy chain epoch old = wiki_base_of X held legacy chain epoch None"
proof
  show "case refreshed X held legacy chain epoch old of
            None \<Rightarrow> fold_wiki_from_base X held legacy chain epoch = Inl Panic
          | Some (None, _) \<Rightarrow> \<exists>e. fold_wiki_from_base X held legacy chain epoch = Inl (Refused e)
          | Some (Some c, _) \<Rightarrow> \<exists>d. fold_wiki_from_base X held legacy chain epoch = Inr d \<and>
              c = d\<lparr>wc_below_cut := wc_below_cut c\<rparr>"
  proof (cases "\<exists>c c'. old = Some c \<and> extendable held (length legacy) (length chain) epoch c \<and>
      extend_loop c (drop (wc_legacy c) legacy @ drop (wc_chain c) chain) = (c', False)")
    case True
    then obtain c c' where c: "old = Some c" "extendable held (length legacy) (length chain) epoch c"
      "extend_loop c (drop (wc_legacy c) legacy @ drop (wc_chain c) chain) = (c', False)" by blast
    have "honest X held legacy chain c" using assms[OF c(1)] c(2) by (simp add: extendable_def)
    from honest_extend[OF this c(2,3)] obtain d where
      d: "fold_wiki_from_base X held legacy chain epoch = Inr d"
        "c'\<lparr>wc_legacy := length legacy, wc_chain := length chain\<rparr> = d\<lparr>wc_below_cut := wc_below_cut c\<rparr>" by blast
    have "d\<lparr>wc_below_cut := wc_below_cut c\<rparr> = d\<lparr>wc_below_cut := wc_below_cut (d\<lparr>wc_below_cut := wc_below_cut c\<rparr>)\<rparr>"
      by simp
    then show ?thesis using c d by (simp add: refreshed_def)
  next
    case False
    have "\<exists>st. refreshed X held legacy chain epoch old =
        map_option (\<lambda>cache. (cache, st @ (case cache of None \<Rightarrow> [] | Some c \<Rightarrow> wiki_stamps_of c)))
          (case fold_wiki_from_base X held legacy chain epoch of
             Inl Panic \<Rightarrow> None | Inl (Refused _) \<Rightarrow> Some None | Inr c \<Rightarrow> Some (Some c))"
    proof (cases "\<exists>c. old = Some c \<and> extendable held (length legacy) (length chain) epoch c")
      case no: False
      then show ?thesis by (intro exI[of _ "[]"]) (auto simp: refreshed_def split: option.splits)
    next
      case True
      then obtain c where c: "old = Some c" "extendable held (length legacy) (length chain) epoch c" by blast
      obtain c' f where x: "extend_loop c (drop (wc_legacy c) legacy @ drop (wc_chain c) chain) = (c', f)" by fastforce
      then have f using False c by (cases f) auto
      then show ?thesis using c x by (intro exI[of _ "wiki_stamps_of c'"]) (simp add: refreshed_def)
    qed
    then show ?thesis by (auto split: sum.splits fault.splits)
  qed
next
  show "wiki_base_of X held legacy chain epoch old = wiki_base_of X held legacy chain epoch None"
    using assms by (auto simp: wiki_base_of_def honest_def rbind_def Let_def split: option.splits)
      (metis wiki_cache.select_convs(1,2) wiki_cache.surjective wiki_cache.update_convs(9))+
qed

section \<open>What happens to the inputs of the fold\<close>

text \<open>
  The state the cache depends on, and everything that changes it: the logs grow; a held base is dropped
  because the chain commits to another one, or a fetched one is taken while no cache of this epoch stands
  on a base; the projection is rebuilt, which replaces anything and moves the epoch; the cache is refreshed;
  the history below the cut is filled in or forgotten. The number counts the moves of the epoch.
\<close>

record wiki_view =
  wv_held :: "wiki_tree option"
  wv_legacy :: "(u64 option \<times> json) list"
  wv_chain :: "(u64 option \<times> json) list"
  wv_epoch :: u64
  wv_cache :: "wiki_cache option"

inductive view_run :: "extern \<Rightarrow> nat \<Rightarrow> wiki_view \<Rightarrow> bool" for X where
  opened: "wv_cache v = None \<Longrightarrow> view_run X 0 v"
| grown: "view_run X n v \<Longrightarrow> view_run X n (v\<lparr>wv_legacy := wv_legacy v @ l, wv_chain := wv_chain v @ k\<rparr>)"
| base_dropped: "view_run X n v \<Longrightarrow> view_run X n (v\<lparr>wv_held := None\<rparr>)"
| base_taken: "view_run X n v \<Longrightarrow> \<forall>c. wv_cache v = Some c \<and> wc_epoch c = wv_epoch v \<longrightarrow> wc_base c = None \<Longrightarrow>
    view_run X n (v\<lparr>wv_held := Some t\<rparr>)"
| rebuilt: "view_run X n v \<Longrightarrow>
    view_run X (Suc n) (v\<lparr>wv_held := h, wv_legacy := l, wv_chain := k, wv_epoch := wv_epoch v + 1\<rparr>)"
| refreshes: "view_run X n v \<Longrightarrow>
    refreshed X (wv_held v) (wv_legacy v) (wv_chain v) (wv_epoch v) (wv_cache v) = Some (c, stamps) \<Longrightarrow>
    view_run X n (v\<lparr>wv_cache := c\<rparr>)"
| below_cut: "view_run X n v \<Longrightarrow> view_run X n (v\<lparr>wv_cache := map_option (\<lambda>c. c\<lparr>wc_below_cut := b\<rparr>) (wv_cache v)\<rparr>)"

lemma honest_grown:
  assumes "honest X held legacy chain c"
  shows "honest X held (legacy @ l) (chain @ k) c"
proof -
  have "wc_legacy c \<le> length legacy \<and> wc_chain c \<le> length chain"
  proof -
    obtain d where d: "fold_wiki_from_base X held (take (wc_legacy c) legacy) (take (wc_chain c) chain) (wc_epoch c) = Inr d"
      "c = d\<lparr>wc_below_cut := wc_below_cut c\<rparr>" using assms by (auto simp: honest_def)
    have "wc_legacy d = min (length legacy) (wc_legacy c)" "wc_chain d = min (length chain) (wc_chain c)"
      using rfold_wiki_counts[OF d(1)[unfolded fold_wiki_from_base_def]] by (simp_all add: wiki_cache_empty_def)
    moreover have "wc_legacy c = wc_legacy d" "wc_chain c = wc_chain d"
      by (subst d(2), simp)+
    ultimately show ?thesis by linarith
  qed
  then show ?thesis using assms by (simp add: honest_def)
qed

lemma fold_without_base:
  assumes "rfold (fold_wiki_entry X held) c es = Inr d" "wc_base d = None"
  shows "rfold (fold_wiki_entry X held') c es = Inr d"
proof -
  have based: "wc_base d' \<noteq> None" if "rfold (fold_wiki_entry X held) c' es' = Inr d'" "wc_base c' \<noteq> None" for c' es' d'
    using that
    by (rule rfold_invariant[where I = "\<lambda>c. wc_base c \<noteq> None"])
      (auto simp: fold_wiki_entry_def fold_wiki_step_def rbind_def or_panic_def
        split: option.splits sum.splits prod.splits if_splits)
  show ?thesis using assms
  proof (induction es arbitrary: c)
    case (Cons e es)
    then obtain c1 where c1: "fold_wiki_entry X held c e = Inr c1" "rfold (fold_wiki_entry X held) c1 es = Inr d"
      by (cases "fold_wiki_entry X held c e") auto
    have "base_commitment_of (snd e) = None"
    proof (rule ccontr)
      assume "base_commitment_of (snd e) \<noteq> None"
      then have "wc_base c1 \<noteq> None"
        using c1(1) by (auto simp: fold_wiki_entry_def rbind_def or_panic_def split: option.splits prod.splits if_splits)
      then show False using based[OF c1(2)] Cons.prems(2) by simp
    qed
    then have "fold_wiki_entry X held' c e = Inr c1" using c1(1) by (simp add: fold_wiki_entry_def)
    then show ?case using Cons.IH[OF c1(2) Cons.prems(2)] by simp
  qed simp
qed

lemma honest_without_base:
  assumes "honest X held legacy chain c" "wc_base c = None"
  shows "honest X held' legacy chain c"
proof -
  obtain d where d: "fold_wiki_from_base X held (take (wc_legacy c) legacy) (take (wc_chain c) chain) (wc_epoch c) = Inr d"
    "c = d\<lparr>wc_below_cut := wc_below_cut c\<rparr>" using assms(1) unfolding honest_def by blast
  have "wc_base d = None" using assms(2) by (subst (asm) d(2)) simp
  with fold_without_base[OF d(1)[unfolded fold_wiki_from_base_def]]
  have "fold_wiki_from_base X held' (take (wc_legacy c) legacy) (take (wc_chain c) chain) (wc_epoch c) = Inr d"
    unfolding fold_wiki_from_base_def by blast
  then show ?thesis using d(2) unfolding honest_def by blast
qed

lemma honest_below_cut:
  assumes "honest X held legacy chain c"
  shows "honest X held legacy chain (c\<lparr>wc_below_cut := b\<rparr>)"
proof -
  obtain d where d: "fold_wiki_from_base X held (take (wc_legacy c) legacy) (take (wc_chain c) chain) (wc_epoch c) = Inr d"
    "c = d\<lparr>wc_below_cut := wc_below_cut c\<rparr>" using assms unfolding honest_def by blast
  have "c\<lparr>wc_below_cut := b\<rparr> = d\<lparr>wc_below_cut := wc_below_cut (c\<lparr>wc_below_cut := b\<rparr>)\<rparr>" by (subst d(2)) simp
  moreover have "fold_wiki_from_base X held (take (wc_legacy (c\<lparr>wc_below_cut := b\<rparr>)) legacy)
      (take (wc_chain (c\<lparr>wc_below_cut := b\<rparr>)) chain) (wc_epoch (c\<lparr>wc_below_cut := b\<rparr>)) = Inr d" using d(1) by simp
  ultimately show ?thesis unfolding honest_def by blast
qed

text \<open>The invariant: the cache was made \<open>j\<close> moves of the epoch ago, and it is honest if none lies between.\<close>

definition cached ::
  "extern \<Rightarrow> nat \<Rightarrow> wiki_tree option \<Rightarrow> (u64 option \<times> json) list \<Rightarrow> (u64 option \<times> json) list \<Rightarrow> u64 \<Rightarrow> wiki_cache \<Rightarrow> bool" where
  "cached X n held legacy chain epoch c \<longleftrightarrow> (\<exists>j \<le> n. epoch = wc_epoch c + of_nat j \<and>
     (j = 0 \<longrightarrow> wiki_cache_base_held held c \<longrightarrow> honest X held legacy chain c))"

definition cache_inv :: "extern \<Rightarrow> nat \<Rightarrow> wiki_view \<Rightarrow> bool" where
  "cache_inv X n v \<longleftrightarrow>
     (\<forall>c. wv_cache v = Some c \<longrightarrow> cached X n (wv_held v) (wv_legacy v) (wv_chain v) (wv_epoch v) c)"

lemma cached_honest: "honest X held legacy chain c \<Longrightarrow> wc_epoch c = epoch \<Longrightarrow> cached X n held legacy chain epoch c"
  unfolding cached_def by (intro exI[of _ 0]) simp

lemma cached_mono:
  assumes "cached X n held legacy chain epoch c" "wc_epoch d = wc_epoch c"
    "epoch = wc_epoch c \<Longrightarrow> wiki_cache_base_held held' d \<Longrightarrow>
       wiki_cache_base_held held c \<and> (honest X held legacy chain c \<longrightarrow> honest X held' legacy' chain' d)"
  shows "cached X n held' legacy' chain' epoch d"
  using assms unfolding cached_def by (elim exE conjE) (rule exI, auto)

lemma cached_later: "cached X n held legacy chain epoch c \<Longrightarrow> cached X (Suc n) held' legacy' chain' (epoch + 1) c"
proof -
  assume "cached X n held legacy chain epoch c"
  then obtain j where "j \<le> n" "epoch = wc_epoch c + of_nat j" by (auto simp: cached_def)
  then show ?thesis unfolding cached_def by (intro exI[of _ "Suc j"]) simp
qed

lemma cache_inv_guards:
  assumes "cache_inv X n v" "n < 2 ^ 64" "wv_cache v = Some c" "wc_epoch c = wv_epoch v" "wiki_cache_base_held (wv_held v) c"
  shows "honest X (wv_held v) (wv_legacy v) (wv_chain v) c"
proof -
  obtain j where j: "j \<le> n" "wv_epoch v = wc_epoch c + of_nat j"
    "j = 0 \<longrightarrow> wiki_cache_base_held (wv_held v) c \<longrightarrow> honest X (wv_held v) (wv_legacy v) (wv_chain v) c"
    using assms(1,3) unfolding cache_inv_def cached_def by blast
  have "(of_nat j :: u64) = 0" using j(2) assms(4) by simp
  moreover have "unat (of_nat j :: u64) = j" using j(1) assms(2) by (simp add: unat_of_nat)
  ultimately have "j = 0" by simp
  then show ?thesis using j(3) assms(5) by blast
qed

lemma refreshed_honest:
  assumes "\<And>c. wv_cache v = Some c \<Longrightarrow> wc_epoch c = wv_epoch v \<Longrightarrow> wiki_cache_base_held (wv_held v) c \<Longrightarrow>
      honest X (wv_held v) (wv_legacy v) (wv_chain v) c"
    and "refreshed X (wv_held v) (wv_legacy v) (wv_chain v) (wv_epoch v) (wv_cache v) = Some (Some c, stamps)"
  shows "honest X (wv_held v) (wv_legacy v) (wv_chain v) c \<and> wc_epoch c = wv_epoch v"
proof -
  obtain d where d: "fold_wiki_from_base X (wv_held v) (wv_legacy v) (wv_chain v) (wv_epoch v) = Inr d"
    "c = d\<lparr>wc_below_cut := wc_below_cut c\<rparr>"
    using conjunct1[OF refresh_is_refold[of "wv_cache v" "wv_epoch v" "wv_held v" X "wv_legacy v" "wv_chain v", OF assms(1)]]
      assms(2) by auto
  have "wc_legacy d = length (wv_legacy v) \<and> wc_chain d = length (wv_chain v) \<and> wc_epoch d = wv_epoch v"
    using rfold_wiki_counts[OF d(1)[unfolded fold_wiki_from_base_def]] by (simp add: wiki_cache_empty_def)
  then have "wc_legacy c = length (wv_legacy v)" "wc_chain c = length (wv_chain v)" "wc_epoch c = wv_epoch v"
    by (subst d(2), simp)+
  then show ?thesis using d by (simp add: honest_def)
qed

lemma view_run_inv: "view_run X n v \<Longrightarrow> n < 2 ^ 64 \<Longrightarrow> cache_inv X n v"
proof (induction rule: view_run.induct)
  case (opened v)
  then show ?case by (simp add: cache_inv_def)
next
  case (grown n v l k)
  then show ?case by (auto simp: cache_inv_def intro!: honest_grown elim!: cached_mono)
next
  case (base_dropped n v)
  then show ?case
    by (auto simp: cache_inv_def wiki_cache_base_held_def elim!: cached_mono) (erule (1) honest_without_base)
next
  case (base_taken n v t)
  then show ?case
    by (auto simp: cache_inv_def wiki_cache_base_held_def intro: honest_without_base elim!: cached_mono)
next
  case (rebuilt n v k l h)
  then show ?case by (auto simp: cache_inv_def intro: cached_later)
next
  case (refreshes n v c stamps)
  then have "cache_inv X n v" by simp
  then have "c = Some d \<Longrightarrow> honest X (wv_held v) (wv_legacy v) (wv_chain v) d \<and> wc_epoch d = wv_epoch v" for d
    using refreshed_honest[of v X d stamps] cache_inv_guards[OF _ refreshes(4)] refreshes(2) by blast
  then show ?case by (auto simp: cache_inv_def intro: cached_honest)
next
  case (below_cut n v b)
  then show ?case
    by (auto simp: cache_inv_def wiki_cache_base_held_def intro!: honest_below_cut elim!: cached_mono)
qed

text \<open>C22: The wiki cache is transparent. Open a node without a cache and let anything happen to the inputs of
  the fold, fewer than \<open>2 ^ 64\<close> moves of the epoch (where the counter wraps): the logs grow, a base is dropped or
  taken, the projection is rebuilt from anything while the old cache is kept, the cache is refreshed. Whatever
  cache is left then, fresh or stale: refreshing it reaches the fold of the whole logs from the committed
  base, entry for entry (tree, revision, history, base), it fails exactly when that fold refuses for a
  missing base, and the base a reader is given is that fold's whether or not a cache is there.
\<close>

theorem wiki_cache_is_transparent:
  assumes "view_run X n v" "n < 2 ^ 64"
  shows "(case refreshed X (wv_held v) (wv_legacy v) (wv_chain v) (wv_epoch v) (wv_cache v) of
            None \<Rightarrow> fold_wiki_from_base X (wv_held v) (wv_legacy v) (wv_chain v) (wv_epoch v) = Inl Panic
          | Some (None, _) \<Rightarrow> \<exists>e. fold_wiki_from_base X (wv_held v) (wv_legacy v) (wv_chain v) (wv_epoch v) = Inl (Refused e)
          | Some (Some c, _) \<Rightarrow> \<exists>d. fold_wiki_from_base X (wv_held v) (wv_legacy v) (wv_chain v) (wv_epoch v) = Inr d \<and>
              c = d\<lparr>wc_below_cut := wc_below_cut c\<rparr>)
       \<and> wiki_base_of X (wv_held v) (wv_legacy v) (wv_chain v) (wv_epoch v) (wv_cache v) =
         wiki_base_of X (wv_held v) (wv_legacy v) (wv_chain v) (wv_epoch v) None"
  by (rule refresh_is_refold) (rule cache_inv_guards[OF view_run_inv[OF assms] assms(2)])

lemma add_patch_step:
  "fold_wiki_step (wiki_cache_empty l k ep) (Some 7, wiki_payload add_patch) =
     (wiki_cache_empty l k ep)\<lparr>wc_tree := [(''n/a.md'', ''hi'' @ [nl])], wc_rev := 1,
       wc_history := [\<lparr>wr_rev = 1, wr_proposal = Some 7,
          wr_items = [\<lparr>wt_path = ''n/a.md'', wt_kind = ''added'', wt_from = None\<rparr>]\<rparr>]\<rparr>"
proof -
  have p: "parse_patch add_patch = [\<lparr>pf_old_path = ''n/a.md'', pf_new_path = ''n/a.md'', pf_added = True,
      pf_deleted = False, pf_renamed = False,
      pf_hunks = [\<lparr>h_old_start = 0, h_old_count = 0, h_lines = [\<lparr>hl_op = CHR ''+'', hl_text = ''hi'', hl_newline = True\<rparr>]\<rparr>]\<rparr>]"
    by (simp add: add_patch_def parse_eval)
  have f: "wiki_patch_files (wiki_payload add_patch) = Some (parse_patch add_patch)"
    by (simp add: wiki_patch_files_def wiki_payload_def get_str_def)
  have a: "apply_patch [] (parse_patch add_patch) = Inr [(''n/a.md'', ''hi'' @ [nl])]"
    by (simp add: p apply_eval starts_with_def)
  show ?thesis
    using f a by (simp add: fold_wiki_step_def wiki_cache_empty_def sat_inc_def p wiki_touch_of_def display_path_def)
qed

theorem wiki_cache_is_transparent_witness:
  "\<exists>c. refreshed demo_extern None [] [(Some 7, wiki_payload add_patch)] 0 None = Some (Some c, [(7, 1)]) \<and>
     bt_keys (wc_tree c) = [''n/a.md''] \<and> wiki_base_of demo_extern None [] [] 1 (Some c) = Inr ([], 0)"
proof -
  let ?log = "[(Some 7, wiki_payload add_patch)]"
  have nb: "base_commitment_of (wiki_payload add_patch) = None"
    by (simp add: base_commitment_of_def wiki_payload_def get_str_def)
  obtain c where c: "refreshed demo_extern None [] ?log 0 None = Some (Some c, [(7, 1)])" "bt_keys (wc_tree c) = [''n/a.md'']"
    using nb add_patch_step[of 0 1 0]
    by (simp add: refreshed_def fold_wiki_from_base_def fold_wiki_entry_def bt_keys_def)
      (simp add: wiki_cache_empty_def wiki_stamps_of_def map_filter_simps)
  let ?v = "\<lparr>wv_held = None, wv_legacy = [], wv_chain = ?log, wv_epoch = 0, wv_cache = None\<rparr>"
  have "view_run demo_extern 0 ?v" by (rule opened) simp
  from refreshes[OF this, of "Some c" "[(7, 1)]"] c(1)
  have "view_run demo_extern 0 (?v\<lparr>wv_cache := Some c\<rparr>)" by simp
  from rebuilt[OF this, of "[]" "[]" None]
  have run: "view_run demo_extern 1 \<lparr>wv_held = None, wv_legacy = [], wv_chain = [], wv_epoch = 1, wv_cache = Some c\<rparr>" by simp
  have "wiki_base_of demo_extern None [] [] 1 (Some c) = wiki_base_of demo_extern None [] [] 1 None"
    using wiki_cache_is_transparent[OF run] by simp
  also have "\<dots> = Inr ([], 0)" by (simp add: wiki_base_of_def fold_wiki_from_base_def wiki_cache_empty_def)
  finally show ?thesis using c by blast
qed

section \<open>A rename hides a path that is gone\<close>

text \<open>
  Between two revisions a page \<open>b\<close> is deleted, a page \<open>x\<close> is moved there and then moved on
  to \<open>c\<close>. The change list a caller is given names \<open>c\<close> and, as its origin, \<open>x\<close>; that \<open>b\<close> is
  gone is said nowhere. The same happens to \<open>x\<close> when it is moved to \<open>b\<close>, deleted there, and
  another page \<open>a\<close> is moved to \<open>b\<close>.
\<close>

definition touch :: "string \<Rightarrow> string \<Rightarrow> string option \<Rightarrow> wiki_touch" where
  "touch path kind origin = \<lparr>wt_path = path, wt_kind = kind, wt_from = origin\<rparr>"

lemma change_list_loses_a_deleted_path:
  "coalesce_wiki_changes
     [\<lparr>wr_rev = 1, wr_proposal = None, wr_items = [touch ''b'' ''deleted'' None]\<rparr>,
      \<lparr>wr_rev = 2, wr_proposal = None, wr_items = [touch ''b'' ''renamed'' (Some ''x'')]\<rparr>,
      \<lparr>wr_rev = 3, wr_proposal = None, wr_items = [touch ''c'' ''renamed'' (Some ''b'')]\<rparr>] 0
   = [\<lparr>wg_path = ''c'', wg_kind = ''renamed'', wg_rev = 3, wg_from = Some ''x''\<rparr>] \<and>
   coalesce_wiki_changes
     [\<lparr>wr_rev = 1, wr_proposal = None, wr_items = [touch ''b'' ''renamed'' (Some ''x'')]\<rparr>,
      \<lparr>wr_rev = 2, wr_proposal = None, wr_items = [touch ''b'' ''deleted'' None]\<rparr>,
      \<lparr>wr_rev = 3, wr_proposal = None, wr_items = [touch ''b'' ''renamed'' (Some ''a'')]\<rparr>] 0
   = [\<lparr>wg_path = ''b'', wg_kind = ''renamed'', wg_rev = 3, wg_from = Some ''a''\<rparr>]"
  by (simp add: coalesce_wiki_changes_def coalesce_item_def coalesce_last_def touch_def or_opt_def bt_remove_def
      map_filter_simps)

end
