(* ===== verification/Gov_Wiki.thy ===== *)
theory Gov_Wiki
  imports Gov_State Wiki_Cache
begin

text \<open>
  The wiki base of a node and the supersede walk (\<open>molt-engine/src/proposals.rs\<close>): after the
  Memory projection moved, or when a patch is learned late, every open wiki patch is checked
  against the new tree; one that no longer applies is retired, mechanically and without a vote.
\<close>

section \<open>The base\<close>

definition refresh_wiki_cache :: "extern \<Rightarrow> gov_state \<Rightarrow> gov_state option" where
  "refresh_wiki_cache X s =
     map_option (\<lambda>(cache, stamps).
         fold (\<lambda>(i, rv). upd_card i (\<lambda>p. p\<lparr>pr_wiki_rev := Some rv\<rparr>)) stamps (s\<lparr>gv_wiki_cache := cache\<rparr>))
       (refreshed X (held_wiki (gv_held s)) (gv_legacy s Memory) (gv_applied s Memory) (gv_epoch s) (gv_wiki_cache s))"

definition wiki_base :: "extern \<Rightarrow> gov_state \<Rightarrow> wiki_error fault + wiki_tree \<times> u64" where
  "wiki_base X s =
     wiki_base_of X (held_wiki (gv_held s)) (gv_legacy s Memory) (gv_applied s Memory) (gv_epoch s) (gv_wiki_cache s)"

definition bump_applied_epoch :: "gov_state \<Rightarrow> gov_state" where
  "bump_applied_epoch s = s\<lparr>gv_epoch := gv_epoch s + 1\<rparr>"

definition forget_wiki_stamps :: "gov_state \<Rightarrow> gov_state" where
  "forget_wiki_stamps s =
     s\<lparr>gv_proposals := map (\<lambda>(i, p). (i, if pr_surface p = Memory then p\<lparr>pr_wiki_rev := None\<rparr> else p)) (gv_proposals s),
       gv_wiki_cache := map_option (\<lambda>c. c\<lparr>wc_below_cut := None\<rparr>) (gv_wiki_cache s)\<rparr>"

section \<open>The history below a cut\<close>

definition stamped_card :: "u64 \<Rightarrow> u64 \<times> proposal_record \<Rightarrow> wiki_rev_changes option" where
  "stamped_card rev_at_cut e =
     (if pr_surface (snd e) = Memory \<and> pr_state (snd e) = StApplied
      then (case pr_wiki_rev (snd e) of
              None \<Rightarrow> None
            | Some rv \<Rightarrow>
                if rv \<le> rev_at_cut
                then map_option (\<lambda>patch. \<lparr>wr_rev = rv, wr_proposal = Some (fst e),
                                          wr_items = map wiki_touch_of (parse_patch patch)\<rparr>)
                       (get_str (pr_payload (snd e)) ''value'')
                else None)
      else None)"

text \<open>The run of stamps down from the cut: a missing revision ends it, and so does a repeated one.\<close>

fun stamp_floor :: "u64 \<Rightarrow> u64 list \<Rightarrow> u64" where
  "stamp_floor fl [] = fl"
| "stamp_floor fl (rv # rvs) = (if rv = fl \<and> fl > 0 then stamp_floor (fl - 1) rvs else max fl rv)"

definition wiki_history_below_the_cut :: "gov_state \<Rightarrow> u64 \<Rightarrow> wiki_rev_changes list \<times> u64" where
  "wiki_history_below_the_cut s rev_at_cut =
     (let below = sort_key wr_rev (List.map_filter (stamped_card rev_at_cut) (gv_proposals s));
          fl = stamp_floor rev_at_cut (rev (map wr_rev below)) in
      (filter (\<lambda>e. wr_rev e > fl) below, fl))"

section \<open>The supersede walk\<close>

definition is_open_wiki_patch :: "proposal_record \<Rightarrow> bool" where
  "is_open_wiki_patch p \<longleftrightarrow>
     pr_surface p = Memory \<and> pr_state p = StProposed \<and> get_str (pr_payload p) ''op'' = Some ''wiki_patch''"

definition wiki_candidates :: "gov_state \<Rightarrow> u64 list" where
  "wiki_candidates s = map fst (filter (\<lambda>(_, p). is_open_wiki_patch p) (gv_proposals s))"

text \<open>Parse the open patches that are not parsed yet, and drop the others.\<close>

definition parse_pending :: "gov_state \<Rightarrow> (u64, pending_patch) btree" where
  "parse_pending s =
     filter (\<lambda>(i, _). i \<in> set (wiki_candidates s))
       (fold (\<lambda>i m. if bt_contains m i then m
                    else (case Option.bind (bt_get (gv_proposals s) i) (\<lambda>p. wiki_patch_files (pr_payload p)) of
                            None \<Rightarrow> m
                          | Some files \<Rightarrow> bt_insert i \<lparr>pp_files = files, pp_paths = touched_paths files\<rparr> m))
         (wiki_candidates s) (gv_wiki_pending s))"

definition chain_moved_since :: "chain_block list \<Rightarrow> u64 \<Rightarrow> string list \<Rightarrow> bool" where
  "chain_moved_since blocks height paths =
     list_ex (\<lambda>b. case blk_change b of
                    Applied _ sf payload \<Rightarrow>
                      sf = Memory \<and> (case wiki_payload_paths payload of
                                       None \<Rightarrow> False | Some m \<Rightarrow> \<not> list_all (\<lambda>p. p \<notin> set paths) m)
                  | Checkpoint _ _ \<Rightarrow> True | CheckpointFolded _ _ \<Rightarrow> True | CheckpointVault _ _ _ \<Rightarrow> True
                  | _ \<Rightarrow> False)
       (filter (\<lambda>b. blk_height b \<ge> height) blocks)"

definition note_replay_held :: "u64 \<Rightarrow> u64 \<Rightarrow> gov_state \<Rightarrow> gov_state" where
  "note_replay_held i height s =
     s\<lparr>gv_replay_held_at :=
         bt_insert i (min (case bt_get (gv_replay_held_at s) i of None \<Rightarrow> height | Some h \<Rightarrow> h) height)
           (gv_replay_held_at s)\<rparr>"

definition mark_rebased :: "u64 \<Rightarrow> gov_state \<Rightarrow> gov_state" where
  "mark_rebased i s = upd_card i (\<lambda>p. p\<lparr>pr_superseded_kind := Some Rebase\<rparr>) s"

definition retire_patch :: "u64 \<Rightarrow> gov_state \<Rightarrow> gov_state" where
  "retire_patch i s =
     (let s1 = stash_voted i (upd_card i (\<lambda>p. p\<lparr>pr_state := StRejected, pr_superseded := True,
                                              pr_superseded_kind := Some Conflict\<rparr>) s) in
      s1\<lparr>gv_wiki_pending := bt_remove i (gv_wiki_pending s1)\<rparr>)"

text \<open>The open patches a walk judges: all of them, or those that name a path that moved.\<close>

definition judged_patches ::
  "string list option \<Rightarrow> (u64, pending_patch) btree \<Rightarrow> u64 list \<Rightarrow> (u64 \<times> pending_patch) list" where
  "judged_patches moved pending cands =
     List.map_filter (\<lambda>i.
         case bt_get pending i of
           None \<Rightarrow> None
         | Some p \<Rightarrow>
             if (case moved of None \<Rightarrow> False | Some m \<Rightarrow> list_all (\<lambda>q. q \<notin> set m) (pp_paths p)) then None
             else Some (i, p)) cands"

definition supersede_stale_wiki :: "extern \<Rightarrow> string list option \<Rightarrow> gov_state \<Rightarrow> gov_state option" where
  "supersede_stale_wiki X moved s =
     (let cands = wiki_candidates s in
      if gv_adoption_pending s then Some s
      else if cands = [] then Some (s\<lparr>gv_wiki_pending := [], gv_replay_held_at := []\<rparr>)
      else Option.bind (refresh_wiki_cache X (s\<lparr>gv_wiki_pending := parse_pending s\<rparr>)) (\<lambda>s1.
        case wiki_base X s1 of
          Inl Panic \<Rightarrow> None
        | Inl (Refused _) \<Rightarrow> Some s1
        | Inr (tree, _) \<Rightarrow>
            (let judged = judged_patches moved (gv_wiki_pending s1) cands;
                 held_at = gv_replay_held_at s1;
                 rebased = filter (\<lambda>(i, p). wiki_patch_applies tree p \<and>
                     (moved \<noteq> None \<or>
                      (case bt_get held_at i of
                         None \<Rightarrow> False
                       | Some h \<Rightarrow> chain_moved_since (gv_blocks s1) h (pp_paths p)))) judged;
                 stale = filter (\<lambda>(i, p). \<not> wiki_patch_applies tree p) judged in
             Some (fold retire_patch (map fst stale)
                     (fold mark_rebased (map fst rebased) (s1\<lparr>gv_replay_held_at := []\<rparr>))))))"

definition mark_open_wiki_patches_rebased :: "gov_state \<Rightarrow> gov_state" where
  "mark_open_wiki_patches_rebased s =
     s\<lparr>gv_proposals := map (\<lambda>(i, p). (i, if is_open_wiki_patch p
                                          then p\<lparr>pr_superseded_kind := Some Rebase\<rparr> else p)) (gv_proposals s)\<rparr>"

end
