(* ===== verification/Gov_Votes.thy ===== *)
theory Gov_Votes
  imports Gov_Wiki
begin

text \<open>
  The votes of a chain-governed republic: collecting and verifying approvals, sealing a block
  (\<open>molt-engine/src/chain/governance.rs\<close>), and registering declines and withdrawals
  (\<open>molt-engine/src/proposals.rs\<close>).

  \<open>try_commit\<close> returns the block it seals; the adoption of a block is an operation of its own
  (\<open>Gov_Chain\<close>). The verdicts of the vault and wallet components and the local signing key
  are arguments (record \<open>gates\<close>): this code only branches on them. What a function gossips
  (the \<open>Approved\<close> envelope it records) is part of its result.
\<close>

section \<open>What other components answer\<close>

record gates =
  ga_sign :: "(bytes \<Rightarrow> string) option"
  ga_base_pending :: bool
  ga_vault_approve :: "json \<Rightarrow> bool"
  ga_wallet_approve :: "json \<Rightarrow> bool"
  ga_vault_wire :: "u64 \<Rightarrow> json \<Rightarrow> bool"
  ga_vault_enable_refused :: "surface \<Rightarrow> json \<Rightarrow> bool"
  ga_purse_op :: "json \<Rightarrow> bool"
  ga_wallet_feature_refused :: "surface \<Rightarrow> json \<Rightarrow> bool"
  ga_after_vault :: "u64 \<Rightarrow> gov_state \<Rightarrow> gov_state"

section \<open>Collecting signatures\<close>

definition rostered :: "gov_state \<Rightarrow> string \<Rightarrow> bool" where
  "rostered s member =
     (case gv_head s of
        Some h \<Rightarrow> list_ex (\<lambda>i. mi_member i = member) (ch_identities h)
      | None \<Rightarrow> member \<in> set (gov_roster s))"

text \<open>One signature into the set of a proposal, at a height.\<close>

definition collect_entry :: "pending_approval \<Rightarrow> u64 \<Rightarrow> string \<Rightarrow> string \<Rightarrow> bool \<Rightarrow> pending_approval" where
  "collect_entry e height member sig verified =
     (if height < pend_height e then e
      else (let e1 = (if height > pend_height e
                      then \<lparr>pend_height = height, pend_sigs = [], pend_verified = []\<rparr> else e) in
            if \<not> verified \<and> member \<in> set (pend_verified e1) then e1
            else e1\<lparr>pend_sigs := filter (\<lambda>a. at_member a \<noteq> member) (pend_sigs e1)
                                 @ [\<lparr>at_member = member, at_sig = sig\<rparr>],
                    pend_verified := filter (\<lambda>m. m \<noteq> member) (pend_verified e1)\<rparr>))"

definition collect_sig :: "gov_state \<Rightarrow> u64 \<Rightarrow> u64 \<Rightarrow> string \<Rightarrow> string \<Rightarrow> bool \<Rightarrow> gov_state" where
  "collect_sig s i height member sig verified =
     (if terminal_card s i then s
      else if \<not> rostered s member then s
      else if \<not> verified \<and> member = gov_member s then s
      else (let e = (case bt_get (gv_pending_sigs s) i of None \<Rightarrow> pending_default | Some p \<Rightarrow> p) in
            s\<lparr>gv_pending_sigs := bt_insert i (collect_entry e height member sig verified)
                                  (gv_pending_sigs s)\<rparr>))"

definition mark_verified :: "u64 \<Rightarrow> string \<Rightarrow> gov_state \<Rightarrow> gov_state" where
  "mark_verified i member s =
     upd_pending i (\<lambda>p. p\<lparr>pend_verified := bset_insert member (pend_verified p)\<rparr>) s"

definition note_signer :: "string \<Rightarrow> u64 \<Rightarrow> gov_state \<Rightarrow> gov_state" where
  "note_signer member height s =
     s\<lparr>gv_seen_signing := bt_insert member
         (max (case bt_get (gv_seen_signing s) member of None \<Rightarrow> 0 | Some h \<Rightarrow> h) height)
         (gv_seen_signing s)\<rparr>"

text \<open>Does this signature verify against the change being voted on, at the live target?\<close>

definition approval_verifies ::
  "extern \<Rightarrow> gov_state \<Rightarrow> u64 \<Rightarrow> u64 \<Rightarrow> string \<Rightarrow> string \<Rightarrow> bool option" where
  "approval_verifies X s i height member sig =
     (case gv_head s of
        None \<Rightarrow> Some False
      | Some h \<Rightarrow>
          Option.bind (target_of h) (\<lambda>target.
            if height \<noteq> target then Some False
            else (case proposal_change s i of
                    None \<Rightarrow> Some False
                  | Some change \<Rightarrow>
                      map_option (\<lambda>msg.
                        list_ex (\<lambda>k. mi_member k = member \<and> identity_verify X (mi_identity_pk k) msg sig)
                          (ch_identities h))
                        (approval_bytes X (gov_republic_id s) height change))))"

definition reverify_pending :: "extern \<Rightarrow> gov_state \<Rightarrow> u64 \<Rightarrow> gov_state option" where
  "reverify_pending X s i =
     (case bt_get (gv_pending_sigs s) i of
        None \<Rightarrow> Some s
      | Some pending \<Rightarrow>
          fold (\<lambda>a acc. Option.bind acc (\<lambda>t.
                  map_option (\<lambda>ok. if ok then note_signer (at_member a) (pend_height pending)
                                            (mark_verified i (at_member a) t) else t)
                    (approval_verifies X t i (pend_height pending) (at_member a) (at_sig a))))
            (filter (\<lambda>a. at_member a \<notin> set (pend_verified pending)) (pend_sigs pending)) (Some s))"

section \<open>Decided proposals\<close>

definition stamp_applied_at :: "u64 \<Rightarrow> u64 \<Rightarrow> gov_state \<Rightarrow> gov_state" where
  "stamp_applied_at i at s =
     (if at = 0 then s
      else upd_card i (\<lambda>p. p\<lparr>pr_applied_at := (if pr_applied_at p = 0 then at else min (pr_applied_at p) at)\<rparr>) s)"

definition forget_vote :: "u64 \<Rightarrow> gov_state \<Rightarrow> gov_state" where
  "forget_vote i s =
     (let s1 = stash_voted i s in
      s1\<lparr>gv_pending_sigs := bt_remove i (gv_pending_sigs s1),
         gv_proposal_changes := bt_remove i (gv_proposal_changes s1)\<rparr>)"

definition forget_votes_for :: "chain_change \<Rightarrow> gov_state \<Rightarrow> gov_state" where
  "forget_votes_for sealed s =
     fold forget_vote (map fst (filter (\<lambda>(_, c). c = sealed) (gv_proposal_changes s))) s"

definition settle_membership_records :: "chain_change \<Rightarrow> gov_state \<Rightarrow> gov_state" where
  "settle_membership_records sealed s =
     (case sealed of
        Membership op member _ _ _ _ \<Rightarrow>
          forget_votes_for sealed
            (fold (\<lambda>i. upd_card i settle_applied)
              (map fst (filter (\<lambda>(_, p). pr_state p = StProposed \<and> wears_membership p op member)
                          (gv_proposals s))) s)
      | _ \<Rightarrow> s)"

section \<open>Sealing\<close>

text \<open>\<open>Vec::dedup_by\<close> on equal keys: of a run of neighbours the first stays.\<close>

fun dedup_by_key :: "('a \<Rightarrow> 'b) \<Rightarrow> 'a list \<Rightarrow> 'a list" where
  "dedup_by_key f (x # y # zs) = (if f x = f y then dedup_by_key f (x # zs) else x # dedup_by_key f (y # zs))"
| "dedup_by_key f xs = xs"

text \<open>The signatures that count: no current decliner, the roster key verifies, one per member.\<close>

definition valid_votes ::
  "extern \<Rightarrow> chain_head \<Rightarrow> bytes \<Rightarrow> string list \<Rightarrow> roster_attestation list \<Rightarrow> roster_attestation list" where
  "valid_votes X h msg decliners sigs =
     dedup_by_key at_member (sort_key at_member
       (filter (\<lambda>a. at_member a \<notin> set decliners \<and>
                   list_ex (\<lambda>k. mi_member k = at_member a \<and> identity_verify X (mi_identity_pk k) msg (at_sig a))
                     (ch_identities h)) sigs))"

definition seals_needed :: "chain_head \<Rightarrow> chain_change \<Rightarrow> nat" where
  "seals_needed h change =
     (if cut_kind_of change \<noteq> None then length (ch_identities h) else unat (ch_rule_m h))"

text \<open>
  The signatures of the block, \<open>None\<close> while the threshold is open: a consented restore counts
  the member's consent as one voice and never its own roster signature.
\<close>

definition sealing_sigs ::
  "extern \<Rightarrow> gov_state \<Rightarrow> chain_head \<Rightarrow> u64 \<Rightarrow> chain_change \<Rightarrow> roster_attestation list
   \<Rightarrow> roster_attestation list option option" where
  "sealing_sigs X s h target change valid =
     (let need = seals_needed h change;
          close = (\<lambda>v consented. if length v \<ge> need then Some (take need v)
                                 else if length v + consented < need then None else Some v) in
      case change of
        Membership Restored member _ _ _ (Some _) \<Rightarrow>
          (case restore_consent_at X s change target of
             Inl Panic \<Rightarrow> None
           | Inl (Refused _) \<Rightarrow> Some None
           | Inr _ \<Rightarrow> Some (close (filter (\<lambda>a. at_member a \<noteq> member) valid) 1))
      | _ \<Rightarrow> Some (close valid 0))"

definition seal_pace_secs :: "gov_state \<Rightarrow> u64" where
  "seal_pace_secs s = (if gv_nostr s then SEAL_PACE_SECS else 0)"

definition seal_is_paced :: "gov_state \<Rightarrow> bool" where
  "seal_is_paced s \<longleftrightarrow>
     seal_pace_secs s > 0 \<and> u64_sat_sub (gv_now s) (gv_head_moved_at s) < seal_pace_secs s"

definition current_decliners :: "gov_state \<Rightarrow> u64 \<Rightarrow> string list" where
  "current_decliners s i = (case bt_get (gv_proposals s) i of None \<Rightarrow> [] | Some p \<Rightarrow> pr_decliners p)"

definition try_commit :: "extern \<Rightarrow> gov_state \<Rightarrow> u64 \<Rightarrow> (gov_state \<times> chain_block option) option" where
  "try_commit X s i =
     (case gv_head s of
        None \<Rightarrow> Some (s, None)
      | Some h \<Rightarrow>
          if terminal_card s i then Some (s, None)
          else Option.bind (target_of h) (\<lambda>target.
            case proposal_change s i of
              None \<Rightarrow> Some (s, None)
            | Some change \<Rightarrow>
                Option.bind (approval_bytes X (gov_republic_id s) target change) (\<lambda>msg.
                case bt_get (gv_pending_sigs s) i of
                  None \<Rightarrow> Some (s, None)
                | Some pending \<Rightarrow>
                    if pend_height pending \<noteq> target then Some (s, None)
                    else
                      Option.bind (sealing_sigs X s h target change
                                     (valid_votes X h msg (current_decliners s i) (pend_sigs pending))) (\<lambda>sealing.
                      case sealing of
                        None \<Rightarrow> Some (s, None)
                      | Some sigs \<Rightarrow>
                          if seal_is_paced s
                          then Some (s\<lparr>gv_seal_held := bset_insert i (gv_seal_held s)\<rparr>, None)
                          else Some (s\<lparr>gv_seal_held := filter (\<lambda>j. j \<noteq> i) (gv_seal_held s)\<rparr>,
                                     Some \<lparr>blk_height = target, blk_prev = ch_hash h,
                                           blk_change = change, blk_sigs = sigs\<rparr>)))))"

definition seal_hold_secs :: "gov_state \<Rightarrow> u64 \<Rightarrow> u64 option" where
  "seal_hold_secs s i =
     (if i \<notin> set (gv_seal_held s) then None
      else Some (u64_sat_sub (seal_pace_secs s) (u64_sat_sub (gv_now s) (gv_head_moved_at s))))"

section \<open>Approving\<close>

record approved_event =
  ae_id :: u64
  ae_by :: string
  ae_height :: u64
  ae_sig :: string

text \<open>
  Whether this node signs a change at all: no cut over a base it does not hold, and the vault
  and wallet gates hold on every path that signs.
\<close>

definition may_sign :: "gates \<Rightarrow> chain_change \<Rightarrow> bool" where
  "may_sign g change \<longleftrightarrow>
     \<not> (cut_kind_of change \<noteq> None \<and> ga_base_pending g) \<and>
     (case change of
        Applied _ sf payload \<Rightarrow>
          (sf \<noteq> Vault \<or> ga_vault_approve g payload) \<and> (sf \<noteq> Wallet \<or> ga_wallet_approve g payload)
      | _ \<Rightarrow> True)"

definition sign_approval ::
  "extern \<Rightarrow> gates \<Rightarrow> gov_state \<Rightarrow> u64 \<Rightarrow> (gov_state \<times> approved_event option \<times> chain_block option) option" where
  "sign_approval X g s i =
     (case (ga_sign g, gv_head s) of
        (Some sign, Some h) \<Rightarrow>
          Option.bind (target_of h) (\<lambda>height.
          case proposal_change s i of
            None \<Rightarrow> Some (s, None, None)
          | Some change \<Rightarrow>
              if \<not> may_sign g change then Some (s, None, None)
              else Option.bind (approval_bytes X (gov_republic_id s) height change) (\<lambda>msg.
                (let sig = sign msg; me = gov_member s;
                     s1 = s\<lparr>gv_own_approvals := bset_insert i (gv_own_approvals s)\<rparr>;
                     s2 = note_signer me height (mark_verified i me (collect_sig s1 i height me sig True)) in
                 map_option (\<lambda>(s3, block).
                     (s3, Some \<lparr>ae_id = i, ae_by = me, ae_height = height, ae_sig = sig\<rparr>, block))
                   (try_commit X s2 i))))
      | _ \<Rightarrow> Some (s, None, None))"

text \<open>An approval from the wire; the flag says it was dropped for a height beyond the next.\<close>

definition receive_approval ::
  "extern \<Rightarrow> gov_state \<Rightarrow> u64 \<Rightarrow> string \<Rightarrow> u64 \<Rightarrow> string
   \<Rightarrow> (gov_state \<times> bool \<times> chain_block option) option" where
  "receive_approval X s i by_member height sig =
     (if sig = [] then Some (s, False, None)
      else if \<not> plausible_wire_id s i then Some (s, False, None)
      else Option.bind (case gv_head s of None \<Rightarrow> Some None | Some h \<Rightarrow> map_option Some (target_of h)) (\<lambda>target.
        if (case target of None \<Rightarrow> False | Some t \<Rightarrow> height > t) then Some (s, True, None)
        else Option.bind (approval_verifies X s i height by_member sig) (\<lambda>verified.
          (let s1 = collect_sig s i height by_member sig verified;
               s2 = (if verified then note_signer by_member height (mark_verified i by_member s1) else s1) in
           map_option (\<lambda>(s3, block). (s3, False, block)) (try_commit X s2 i)))))"

section \<open>Declining\<close>

datatype decline_outcome = Voice | VoteRejected | Known | Parked

definition decline_payload_hash :: "extern \<Rightarrow> json \<Rightarrow> string" where
  "decline_payload_hash X payload =
     hex_encode X (sha256 X (''molt-decline-payload-v1'' @ [CHR 0x00] @ json_to_vec X payload))"

definition is_wallet_init :: "json \<Rightarrow> bool" where
  "is_wallet_init payload \<longleftrightarrow> get_str payload ''op'' = Some ''wallet_init''"

text \<open>How many voices against leave the threshold reachable.\<close>

definition veto_room :: "gov_state \<Rightarrow> u64 \<Rightarrow> nat" where
  "veto_room s i =
     (if (case bt_get (gv_proposals s) i of
            None \<Rightarrow> False | Some p \<Rightarrow> pr_surface p = Wallet \<and> is_wallet_init (pr_payload p))
      then 0
      else (case gv_replica s of
              None \<Rightarrow> 0
            | Some r \<Rightarrow> length (rp_roster r) - max (unat (rp_rule_m r)) 1))"

definition member_parked :: "gov_state \<Rightarrow> string \<Rightarrow> nat" where
  "member_parked s by_member =
     length (filter (\<lambda>(_, ps). list_ex (\<lambda>(m, _, _). m = by_member) ps) (gv_pending_declines s))"

definition park_is_full :: "gov_state \<Rightarrow> u64 \<Rightarrow> string \<Rightarrow> bool" where
  "park_is_full s i by_member \<longleftrightarrow>
     \<not> bt_contains (gv_pending_declines s) i \<and>
     (length (gv_pending_declines s) \<ge> PARKED_DECLINE_IDS_MAX \<or>
      member_parked s by_member \<ge> PARKED_DECLINES_PER_MEMBER_MAX)"

definition decline_would_shed :: "gov_state \<Rightarrow> u64 \<Rightarrow> string \<Rightarrow> bool" where
  "decline_would_shed s i by_member \<longleftrightarrow>
     (if \<not> is_chain_governed s \<or> bt_contains (gv_proposals s) i then False
      else if i > u64_sat_add (gv_next_id s) PARKED_DECLINE_ID_WINDOW then False
      else if bt_contains (gv_pending_declines s) i then False
      else length (gv_pending_declines s) \<ge> PARKED_DECLINE_IDS_MAX \<or>
           member_parked s by_member \<ge> PARKED_DECLINES_PER_MEMBER_MAX)"

definition park_decline :: "gov_state \<Rightarrow> u64 \<Rightarrow> string \<Rightarrow> u64 \<Rightarrow> string \<Rightarrow> gov_state \<times> decline_outcome" where
  "park_decline s i by_member ts hash =
     (if i > u64_sat_add (gv_next_id s) PARKED_DECLINE_ID_WINDOW then (s, Known)
      else (let s1 = bump_next_id i s in
            if park_is_full s1 i by_member then (s1, Known)
            else (let parked = (case bt_get (gv_pending_declines s1) i of None \<Rightarrow> [] | Some ps \<Rightarrow> ps);
                      parked' = (if list_ex (\<lambda>(m, _, _). m = by_member) parked then parked
                                 else parked @ [(by_member, ts, hash)]) in
                  (s1\<lparr>gv_pending_declines := bt_insert i parked' (gv_pending_declines s1)\<rparr>, Parked))))"

text \<open>A decline retracts the signature its member gave: one member, one stance.\<close>

definition retract_vote :: "u64 \<Rightarrow> string \<Rightarrow> gov_state \<Rightarrow> gov_state" where
  "retract_vote i by_member s =
     (let s1 = upd_pending i (\<lambda>p. p\<lparr>pend_sigs := filter (\<lambda>a. at_member a \<noteq> by_member) (pend_sigs p),
                                     pend_verified := filter (\<lambda>m. m \<noteq> by_member) (pend_verified p)\<rparr>) s in
      if by_member = gov_member s
      then s1\<lparr>gv_own_approvals := filter (\<lambda>j. j \<noteq> i) (gv_own_approvals s1)\<rparr> else s1)"

definition register_decline ::
  "extern \<Rightarrow> gov_state \<Rightarrow> u64 \<Rightarrow> string \<Rightarrow> u64 \<Rightarrow> string \<Rightarrow> gov_state \<times> decline_outcome" where
  "register_decline X s i by_member ts hash =
     (case bt_get (gv_proposals s) i of
        None \<Rightarrow> park_decline s i by_member ts hash
      | Some p \<Rightarrow>
          if hash \<noteq> [] \<and> decline_payload_hash X (pr_payload p) \<noteq> hash then (s, Known)
          else if pr_state p \<noteq> StProposed \<or> by_member \<in> set (pr_decliners p) then (s, Known)
          else (let s1 = retract_vote i by_member s; decliners = pr_decliners p @ [by_member] in
                if length decliners > veto_room s i
                then (stash_voted i
                        (upd_card i (\<lambda>q. q\<lparr>pr_decliners := decliners, pr_state := StRejected,
                                           pr_declined_at := ts, pr_declined_by := by_member\<rparr>) s1),
                      VoteRejected)
                else (upd_card i (\<lambda>q. q\<lparr>pr_decliners := decliners\<rparr>) s1, Voice)))"

record park_drain =
  pd_voices :: "string list"
  pd_rejected :: bool

definition register_parked_declines :: "extern \<Rightarrow> gov_state \<Rightarrow> u64 \<Rightarrow> gov_state \<times> park_drain" where
  "register_parked_declines X s i =
     (case bt_get (gv_pending_declines s) i of
        None \<Rightarrow> (s, \<lparr>pd_voices = [], pd_rejected = False\<rparr>)
      | Some parked \<Rightarrow>
          fold (\<lambda>(by_member, ts, hash) (t, d).
                  case register_decline X t i by_member ts hash of
                    (t', VoteRejected) \<Rightarrow> (t', \<lparr>pd_voices = pd_voices d @ [by_member], pd_rejected = True\<rparr>)
                  | (t', Voice) \<Rightarrow> (t', d\<lparr>pd_voices := pd_voices d @ [by_member]\<rparr>)
                  | (t', _) \<Rightarrow> (t', d))
            parked
            (s\<lparr>gv_pending_declines := bt_remove i (gv_pending_declines s)\<rparr>,
             \<lparr>pd_voices = [], pd_rejected = False\<rparr>))"

section \<open>Withdrawing\<close>

datatype withdraw_outcome = Withdrawn | WithdrawParked | Ignored

definition register_withdraw :: "gov_state \<Rightarrow> u64 \<Rightarrow> string \<Rightarrow> u64 \<Rightarrow> gov_state \<times> withdraw_outcome" where
  "register_withdraw s i by_member ts =
     (case bt_get (gv_proposals s) i of
        None \<Rightarrow>
          if i > u64_sat_add (gv_next_id s) PARKED_DECLINE_ID_WINDOW then (s, Ignored)
          else (let s1 = bump_next_id i s in
                if \<not> bt_contains (gv_pending_withdrawals s1) i \<and>
                   length (gv_pending_withdrawals s1) \<ge> PARKED_DECLINE_IDS_MAX
                then (s1, Ignored)
                else (s1\<lparr>gv_pending_withdrawals :=
                          (if bt_contains (gv_pending_withdrawals s1) i then gv_pending_withdrawals s1
                           else bt_insert i (by_member, ts) (gv_pending_withdrawals s1))\<rparr>, WithdrawParked))
      | Some p \<Rightarrow>
          if pr_state p \<noteq> StProposed then (s, Ignored)
          else (let proposer = (case minting_seat s i of Some m \<Rightarrow> m | None \<Rightarrow> pr_by p) in
                if proposer \<noteq> by_member then (s, Ignored)
                else (let s1 = stash_voted i (upd_card i (\<lambda>q. q\<lparr>pr_state := StRejected,
                                  pr_withdrawn := True, pr_declined_at := ts\<rparr>) s) in
                      (s1\<lparr>gv_pending_sigs := bt_remove i (gv_pending_sigs s1),
                          gv_own_approvals := filter (\<lambda>j. j \<noteq> i) (gv_own_approvals s1),
                          gv_pending_declines := bt_remove i (gv_pending_declines s1)\<rparr>, Withdrawn))))"

definition register_parked_withdrawal :: "gov_state \<Rightarrow> u64 \<Rightarrow> gov_state \<times> withdraw_outcome" where
  "register_parked_withdrawal s i =
     (case bt_get (gv_pending_withdrawals s) i of
        None \<Rightarrow> (s, Ignored)
      | Some (by_member, ts) \<Rightarrow>
          register_withdraw (s\<lparr>gv_pending_withdrawals := bt_remove i (gv_pending_withdrawals s)\<rparr>) i by_member ts)"

section \<open>Proposals from the wire\<close>

definition open_cards_by :: "gov_state \<Rightarrow> string \<Rightarrow> nat" where
  "open_cards_by s by_member =
     length (filter (\<lambda>(_, p). pr_state p = StProposed \<and> pr_by p = by_member) (gv_proposals s))"

text \<open>The refusals that look at the message alone.\<close>

definition proposed_refused :: "gates \<Rightarrow> gov_state \<Rightarrow> u64 \<Rightarrow> surface \<Rightarrow> json \<Rightarrow> string \<Rightarrow> bool" where
  "proposed_refused g s i sf payload by_member \<longleftrightarrow>
     \<not> plausible_wire_id s i \<or> is_base_entry_op payload \<or> ga_vault_enable_refused g sf payload \<or>
     (sf = Vault \<and> \<not> ga_vault_wire g i payload) \<or> (sf = Wallet \<and> \<not> ga_purse_op g payload) \<or>
     ga_wallet_feature_refused g sf payload \<or>
     (\<not> bt_contains (gv_proposals s) i \<and> open_cards_by s by_member \<ge> OPEN_CARDS_PER_PROPOSER_MAX)"

definition note_collision :: "u64 \<Rightarrow> string \<Rightarrow> gov_state \<Rightarrow> gov_state" where
  "note_collision i by_member s =
     (if length (gv_id_collisions s) < ID_COLLISIONS_MAX \<or> bt_contains (gv_id_collisions s) i
      then s\<lparr>gv_id_collisions := bt_insert i by_member (gv_id_collisions s)\<rparr> else s)"

definition receive_proposed ::
  "extern \<Rightarrow> gates \<Rightarrow> gov_state \<Rightarrow> u64 \<Rightarrow> surface \<Rightarrow> json \<Rightarrow> string \<Rightarrow> (gov_state \<times> bool) option" where
  "receive_proposed X g s i sf payload by_member =
     (if proposed_refused g s i sf payload by_member then Some (s, False)
      else (let s1 = bump_next_id i s in
            if bt_contains (gv_proposal_changes s1) i then Some (s1, False)
            else if i \<in> set (gov_seen s1) then Some (s1, False)
            else (case bt_get (gv_proposals s1) i of
                    Some existing \<Rightarrow>
                      if pr_surface existing \<noteq> sf \<or> pr_payload existing \<noteq> payload
                      then Some (note_collision i by_member s1, False)
                      else Some (s1, False)
                  | None \<Rightarrow>
                      (let s2 = s1\<lparr>gv_proposals := bt_insert i (fresh_record sf payload StProposed by_member)
                                                    (gv_proposals s1)\<rparr>;
                           s3 = (if sf = Vault then ga_after_vault g i s2 else s2) in
                       Option.bind (if sf = Memory then supersede_stale_wiki X None s3 else Some s3) (\<lambda>s4.
                         map_option (\<lambda>t. (t, True)) (reverify_pending X s4 i))))))"

end
