(* ===== verification/Gov_Laws.thy ===== *)
theory Gov_Laws
  imports Gov_Votes "HOL-Library.Multiset"
begin

text \<open>
  Laws of the governance state (\<open>Gov_State\<close>, \<open>Gov_Votes\<close>): proposal id classes, the invariant
  of the signature collection under every message, what the wire cannot undo, and the sealer
  against the verifier.
\<close>

section \<open>Proposal ids\<close>

lemma position_of_nth:
  "position_of P xs = Some k \<Longrightarrow> k < length xs \<and> P (xs ! k)"
  by (induction xs arbitrary: k) (auto split: if_splits)

lemma position_of_ex: "x \<in> set xs \<Longrightarrow> P x \<Longrightarrow> \<exists>k. position_of P xs = Some k"
  by (induction xs) auto

lemma unat_u64_of_nat: "n < 2 ^ 64 \<Longrightarrow> unat (word_of_nat n :: u64) = n"
  by (simp add: unsigned_of_nat take_bit_nat_eq_self)

lemma next_in_class:
  fixes n floor want :: nat
  assumes "0 < n" "want < n"
  shows "(floor + (want + n - floor mod n) mod n) mod n = want"
    and "floor \<le> floor + (want + n - floor mod n) mod n"
    and "floor + (want + n - floor mod n) mod n < floor + n"
proof -
  have "(floor + (want + n - floor mod n)) mod n = (floor mod n + (want + n - floor mod n)) mod n"
    by (simp add: mod_add_left_eq)
  also have "floor mod n + (want + n - floor mod n) = want + n"
    using assms mod_less_divisor[OF assms(1), of floor] by linarith
  finally show "(floor + (want + n - floor mod n) mod n) mod n = want"
    using assms by (simp add: mod_add_right_eq)
qed (use assms in auto)

lemma mint_class:
  assumes "mint_proposal_id s = Some (s', i)"
  shows "unat i mod fst (seat_stride s) = (snd (seat_stride s) + 1) mod fst (seat_stride s)"
    and "gv_next_id s \<le> i" and "1 \<le> unat i"
    and "unat i < unat (gv_next_id s) + fst (seat_stride s) + 1"
    and "s' = s\<lparr>gv_next_id := u64_sat_add i 1\<rparr>"
proof -
  obtain n k where st: "seat_stride s = (n, k)" by fastforce
  have n: "0 < n" using st by (auto simp: seat_stride_def Let_def split: option.splits)
  let ?f = "max (unat (gv_next_id s)) 1" and ?w = "(k + 1) mod n"
  let ?i = "?f + (?w + n - ?f mod n) mod n"
  have lt: "?i < 2 ^ 64" and i: "i = word_of_nat ?i" and s': "s' = s\<lparr>gv_next_id := u64_sat_add i 1\<rparr>"
    using assms by (auto simp: mint_proposal_id_def st Let_def split: if_splits)
  have ui: "unat i = ?i" unfolding i by (rule unat_u64_of_nat[OF lt])
  note nc = next_in_class[OF n mod_less_divisor[OF n], of ?f "k + 1"]
  show "unat i mod fst (seat_stride s) = (snd (seat_stride s) + 1) mod fst (seat_stride s)"
    using nc(1) by (simp add: ui st)
  show "gv_next_id s \<le> i" using nc(2) ui by (simp add: word_le_nat_alt)
  show "1 \<le> unat i" using nc(2) ui by simp
  show "unat i < unat (gv_next_id s) + fst (seat_stride s) + 1" using nc(3) unfolding ui st by simp
  show "s' = s\<lparr>gv_next_id := u64_sat_add i 1\<rparr>" by (rule s')
qed

lemma class_seat:
  fixes n k :: nat
  assumes "k < n" "u mod n = (k + 1) mod n"
  shows "(u mod n + n - 1) mod n = k"
proof (cases "k + 1 = n")
  case True
  then show ?thesis using assms by simp
next
  case False
  then have "u mod n = k + 1" using assms by simp
  then show ?thesis using assms by simp
qed

text \<open>The seat that mints an id is read back from the id alone.\<close>

lemma minting_seat_mint:
  assumes "gv_replica s = Some r" "rp_member r \<in> set (rp_roster r)" "mint_proposal_id s = Some (s', i)"
    and "gv_replica t = Some r'" "mset (rp_roster r') = mset (rp_roster r)"
  shows "minting_seat t i = Some (rp_member r)"
proof -
  let ?roster = "sort (rp_roster r)"
  obtain k where k: "position_of (\<lambda>m. m = rp_member r) ?roster = Some k"
    using position_of_ex[of "rp_member r" ?roster "\<lambda>m. m = rp_member r"] assms(2) by auto
  then have kn: "k < length ?roster" "?roster ! k = rp_member r" using position_of_nth by fastforce+
  then have st: "seat_stride s = (length (rp_roster r), k)"
    using assms(1) k by (simp add: seat_stride_def Let_def max_def)
  have same: "sort (rp_roster r') = ?roster"
    by (rule properties_for_sort) (use assms(5) in simp_all)
  have "unat i mod length (rp_roster r) = (k + 1) mod length (rp_roster r)"
    using mint_class(1)[OF assms(3)] by (simp add: st)
  from class_seat[OF _ this] kn
  have "(unat i mod length (rp_roster r) + length (rp_roster r) - 1) mod length (rp_roster r) = k"
    by simp
  moreover have "length (rp_roster r') = length (rp_roster r)" using assms(5) by (metis size_mset)
  moreover have "0 < length ?roster" using kn by linarith
  ultimately show ?thesis using assms(4) kn
    unfolding minting_seat_def by (auto simp: same Let_def simp flip: length_greater_0_conv)
qed

section \<open>One collection\<close>

text \<open>
  A collection of signatures is well formed: one signature per member, the verified names among
  them and in order.
\<close>

definition pend_ok :: "pending_approval \<Rightarrow> bool" where
  "pend_ok p \<longleftrightarrow>
     distinct (map at_member (pend_sigs p)) \<and> set (pend_verified p) \<subseteq> at_member ` set (pend_sigs p) \<and>
     sorted_wrt (<) (pend_verified p)"

lemma pend_ok_default: "pend_ok pending_default"
  by (simp add: pend_ok_def pending_default_def)

lemma pend_ok_empty: "pend_ok \<lparr>pend_height = h, pend_sigs = [], pend_verified = []\<rparr>"
  by (simp add: pend_ok_def)

lemma pend_ok_put:
  assumes "pend_ok p"
  shows "pend_ok (p\<lparr>pend_sigs := filter (\<lambda>a. at_member a \<noteq> m) (pend_sigs p) @ [\<lparr>at_member = m, at_sig = g\<rparr>],
            pend_verified := filter (\<lambda>k. k \<noteq> m) (pend_verified p)\<rparr>)"
  using assms
  by (auto simp: pend_ok_def distinct_map_filter sorted_wrt_filter)

lemma pend_ok_retract:
  assumes "pend_ok p"
  shows "pend_ok (p\<lparr>pend_sigs := filter (\<lambda>a. at_member a \<noteq> m) (pend_sigs p),
            pend_verified := filter (\<lambda>k. k \<noteq> m) (pend_verified p)\<rparr>)"
  using assms by (auto simp: pend_ok_def distinct_map_filter sorted_wrt_filter)

lemma pend_ok_verify:
  "pend_ok p \<Longrightarrow> m \<in> at_member ` set (pend_sigs p) \<Longrightarrow> pend_ok (p\<lparr>pend_verified := bset_insert m (pend_verified p)\<rparr>)"
  by (auto simp: pend_ok_def sorted_bset_insert)

lemma collect_entry_cases:
  obtains "collect_entry e height m g v = e" "height < pend_height e \<or> (height = pend_height e \<and> \<not> v \<and> m \<in> set (pend_verified e))"
  | e1 where "height \<ge> pend_height e"
      "e1 = (if height > pend_height e then \<lparr>pend_height = height, pend_sigs = [], pend_verified = []\<rparr> else e)"
      "v \<or> m \<notin> set (pend_verified e1)"
      "collect_entry e height m g v =
         e1\<lparr>pend_sigs := filter (\<lambda>a. at_member a \<noteq> m) (pend_sigs e1) @ [\<lparr>at_member = m, at_sig = g\<rparr>],
            pend_verified := filter (\<lambda>k. k \<noteq> m) (pend_verified e1)\<rparr>"
proof -
  consider "height < pend_height e" | "height = pend_height e" "\<not> v" "m \<in> set (pend_verified e)"
    | "height = pend_height e" "v \<or> m \<notin> set (pend_verified e)" | "height > pend_height e"
    by force
  then show ?thesis
  proof cases
    case 1
    then show ?thesis by (intro that(1)) (simp_all add: collect_entry_def)
  next
    case 2
    then show ?thesis by (intro that(1)) (simp_all add: collect_entry_def Let_def)
  next
    case 3
    then show ?thesis by (intro that(2)[of e]) (auto simp: collect_entry_def Let_def)
  next
    case 4
    then show ?thesis by (intro that(2)) (auto simp: collect_entry_def Let_def)
  qed
qed

lemma pend_ok_collect: "pend_ok e \<Longrightarrow> pend_ok (collect_entry e height m g v)"
proof (rule collect_entry_cases[of e height m g v], goal_cases)
  case (2 e1)
  have "pend_ok e1" unfolding 2(3) using 2(1) pend_ok_empty by simp
  from pend_ok_put[OF this] show ?case unfolding 2(5) .
qed simp

section \<open>The whole state\<close>

text \<open>
  \<open>votes_ok\<close>: every collection of an open vote is well formed, holds only roster members and is bound to a
  height no later than the next block; and a name marked verified has a signature that verifies
  for the change being voted on, as long as the collection stands at the live target.
\<close>

definition genuine :: "extern \<Rightarrow> gov_state \<Rightarrow> u64 \<Rightarrow> pending_approval \<Rightarrow> bool" where
  "genuine X s i p \<longleftrightarrow>
     (\<forall>h. gv_head s = Some h \<longrightarrow> target_of h = Some (pend_height p) \<longrightarrow>
        (\<forall>a \<in> set (pend_sigs p). at_member a \<in> set (pend_verified p) \<longrightarrow>
           approval_verifies X s i (pend_height p) (at_member a) (at_sig a) = Some True))"

definition votes_ok :: "extern \<Rightarrow> gov_state \<Rightarrow> bool" where
  "votes_ok X s \<longleftrightarrow>
     bt_wf (gv_pending_sigs s) \<and>
     (\<forall>i p. bt_get (gv_pending_sigs s) i = Some p \<longrightarrow> \<not> terminal_card s i \<longrightarrow>
        pend_ok p \<and> genuine X s i p \<and>
        (\<forall>h. gv_head s = Some h \<longrightarrow> at_member ` set (pend_sigs p) \<subseteq> mi_member ` set (ch_identities h)) \<and>
        (\<forall>h t. gv_head s = Some h \<longrightarrow> target_of h = Some t \<longrightarrow> pend_height p \<le> t))"

text \<open>
  What \<open>approval_verifies\<close> and \<open>rostered\<close> read is kept, and a decided card stays decided.
\<close>

definition ballot_kept :: "gov_state \<Rightarrow> gov_state \<Rightarrow> bool" where
  "ballot_kept s t \<longleftrightarrow> gv_head t = gv_head s \<and> gv_replica t = gv_replica s \<and>
     gv_config_member t = gv_config_member s \<and> gv_config_members t = gv_config_members s \<and>
     (\<forall>i. proposal_change t i = proposal_change s i) \<and>
     (\<forall>i. terminal_card s i \<longrightarrow> terminal_card t i)"

lemma ballot_kept_refl [simp]: "ballot_kept s s"
  by (simp add: ballot_kept_def)

lemma ballot_kept_trans: "ballot_kept s t \<Longrightarrow> ballot_kept t u \<Longrightarrow> ballot_kept s u"
  by (simp add: ballot_kept_def)

lemma ballot_kept_verifies:
  assumes "ballot_kept s t"
  shows "approval_verifies X t i height m g = approval_verifies X s i height m g"
proof -
  have "gv_head t = gv_head s" "gov_republic_id t = gov_republic_id s"
    "proposal_change t i = proposal_change s i"
    using assms by (simp_all add: ballot_kept_def gov_republic_id_def)
  then show ?thesis by (simp only: approval_verifies_def)
qed

lemma ballot_kept_genuine: "ballot_kept s t \<Longrightarrow> genuine X t i p = genuine X s i p"
  by (simp add: genuine_def ballot_kept_verifies) (simp add: ballot_kept_def)

lemma ballot_kept_pending [simp]:
  "ballot_kept s (t\<lparr>gv_pending_sigs := q\<rparr>) = ballot_kept s t"
  "ballot_kept s (t\<lparr>gv_seen_signing := w\<rparr>) = ballot_kept s t"
  "ballot_kept s (t\<lparr>gv_own_approvals := o1\<rparr>) = ballot_kept s t"
  "ballot_kept s (t\<lparr>gv_seal_held := o1\<rparr>) = ballot_kept s t"
  "ballot_kept s (t\<lparr>gv_pending_declines := d\<rparr>) = ballot_kept s t"
  "ballot_kept s (t\<lparr>gv_pending_withdrawals := pw\<rparr>) = ballot_kept s t"
  "ballot_kept s (t\<lparr>gv_id_collisions := c\<rparr>) = ballot_kept s t"
  "ballot_kept s (t\<lparr>gv_next_id := n\<rparr>) = ballot_kept s t"
  by (simp_all add: ballot_kept_def proposal_change_def terminal_card_def cong: option.case_cong)

lemma votes_okI:
  assumes "votes_ok X s" "ballot_kept s t" "bt_wf (gv_pending_sigs t)"
    and "\<And>i p. bt_get (gv_pending_sigs t) i = Some p \<Longrightarrow> \<not> terminal_card t i \<Longrightarrow>
       bt_get (gv_pending_sigs s) i = Some p \<or>
       (pend_ok p \<and> genuine X s i p \<and>
        (\<forall>h. gv_head s = Some h \<longrightarrow> at_member ` set (pend_sigs p) \<subseteq> mi_member ` set (ch_identities h)) \<and>
        (\<forall>h u. gv_head s = Some h \<longrightarrow> target_of h = Some u \<longrightarrow> pend_height p \<le> u))"
  shows "votes_ok X t"
proof -
  have h: "gv_head t = gv_head s" and decided: "\<And>i. \<not> terminal_card t i \<Longrightarrow> \<not> terminal_card s i"
    using assms(2) by (auto simp: ballot_kept_def)
  show ?thesis
    unfolding votes_ok_def h ballot_kept_genuine[OF assms(2)]
    using assms(1,3,4) decided unfolding votes_ok_def by blast
qed

lemma votes_okD:
  assumes "votes_ok X s" "bt_get (gv_pending_sigs s) i = Some p" "\<not> terminal_card s i"
  shows "pend_ok p" "genuine X s i p"
    "gv_head s = Some h \<Longrightarrow> at_member ` set (pend_sigs p) \<subseteq> mi_member ` set (ch_identities h)"
    "gv_head s = Some h \<Longrightarrow> target_of h = Some t \<Longrightarrow> pend_height p \<le> t"
  using assms unfolding votes_ok_def by blast+

lemma votes_ok_same_pending:
  "votes_ok X s \<Longrightarrow> ballot_kept s t \<Longrightarrow> gv_pending_sigs t = gv_pending_sigs s \<Longrightarrow> votes_ok X t"
  by (rule votes_okI) (auto simp: votes_ok_def)

text \<open>The obligation of a change to the collection of one proposal.\<close>

definition entry_ok :: "extern \<Rightarrow> gov_state \<Rightarrow> u64 \<Rightarrow> pending_approval \<Rightarrow> bool" where
  "entry_ok X s i p \<longleftrightarrow> pend_ok p \<and> genuine X s i p \<and>
     (\<forall>h. gv_head s = Some h \<longrightarrow> at_member ` set (pend_sigs p) \<subseteq> mi_member ` set (ch_identities h)) \<and>
     (\<forall>h u. gv_head s = Some h \<longrightarrow> target_of h = Some u \<longrightarrow> pend_height p \<le> u)"

lemma votes_ok_entry:
  assumes "votes_ok X s" "ballot_kept s t" "bt_wf (gv_pending_sigs t)"
    and "\<And>j. j \<noteq> i \<Longrightarrow> bt_get (gv_pending_sigs t) j = bt_get (gv_pending_sigs s) j"
    and "\<And>p. \<not> terminal_card t i \<Longrightarrow> bt_get (gv_pending_sigs t) i = Some p \<Longrightarrow> entry_ok X s i p"
  shows "votes_ok X t"
  by (rule votes_okI[OF assms(1-3)]) (use assms(4,5) in \<open>metis entry_ok_def\<close>)

lemma votes_ok_entryD:
  assumes "votes_ok X s" "bt_get (gv_pending_sigs s) i = Some p" "\<not> terminal_card s i"
  shows "entry_ok X s i p"
  using votes_okD[OF assms] by (simp add: entry_ok_def)

subsection \<open>Updates of one entry\<close>

lemma upd_pending_simps [simp]:
  "gv_head (upd_pending i f s) = gv_head s"
  "gv_proposals (upd_pending i f s) = gv_proposals s"
  "gv_replica (upd_pending i f s) = gv_replica s"
  "bt_get (gv_pending_sigs (upd_pending i f s)) j =
     (if j = i then map_option f (bt_get (gv_pending_sigs s) i) else bt_get (gv_pending_sigs s) j)"
  by (auto simp: upd_pending_def bt_get_insert split: option.splits)

lemma upd_pending_wf: "bt_wf (gv_pending_sigs s) \<Longrightarrow> bt_wf (gv_pending_sigs (upd_pending i f s))"
  by (auto simp: upd_pending_def split: option.splits)

lemma upd_pending_ballot [simp]: "ballot_kept s (upd_pending i f t) = ballot_kept s t"
  by (auto simp: upd_pending_def split: option.splits)

lemma note_signer_simps [simp]:
  "ballot_kept s (note_signer m h t) = ballot_kept s t"
  "gv_pending_sigs (note_signer m h t) = gv_pending_sigs t"
  "gv_proposals (note_signer m h t) = gv_proposals t"
  "gv_head (note_signer m h t) = gv_head t"
  by (simp_all add: note_signer_def)

declare upd_card_get [simp]

lemma upd_card_simps [simp]:
  "gv_head (upd_card i f s) = gv_head s" "gv_replica (upd_card i f s) = gv_replica s"
  "gv_pending_sigs (upd_card i f s) = gv_pending_sigs s"
  "gv_proposal_changes (upd_card i f s) = gv_proposal_changes s"
  "gv_config_member (upd_card i f s) = gv_config_member s"
  "gv_config_members (upd_card i f s) = gv_config_members s"
  "gv_next_id (upd_card i f s) = gv_next_id s"
  "gv_pending_declines (upd_card i f s) = gv_pending_declines s"
  "gv_own_approvals (upd_card i f s) = gv_own_approvals s"
  by (simp_all add: upd_card_def split: option.splits)

text \<open>Writing a card keeps the ballot if it keeps the change and never reopens.\<close>

lemma upd_card_ballot:
  assumes "\<And>p. bt_get (gv_proposals s) i = Some p \<Longrightarrow>
     pr_surface (f p) = pr_surface p \<and> pr_payload (f p) = pr_payload p \<and>
     (pr_state p \<noteq> StProposed \<longrightarrow> pr_state (f p) \<noteq> StProposed)"
  shows "ballot_kept s (upd_card i f s)"
proof -
  have "proposal_change (upd_card i f s) j = proposal_change s j" for j
    using assms by (auto simp: proposal_change_def split: option.splits)
  moreover have "terminal_card s j \<Longrightarrow> terminal_card (upd_card i f s) j" for j
    using assms by (auto simp: terminal_card_def split: option.splits)
  ultimately show ?thesis by (simp add: ballot_kept_def)
qed

lemma stash_voted_ballot [simp]: "ballot_kept s (stash_voted i t) = ballot_kept s t"
proof -
  have k: "ballot_kept t (stash_voted i t)" and b: "ballot_kept (stash_voted i t) t"
  proof -
    show "ballot_kept t (stash_voted i t)"
      unfolding stash_voted_def Let_def by (rule upd_card_ballot) simp
    have "proposal_change t j = proposal_change (stash_voted i t) j" for j
      by (auto simp: stash_voted_def Let_def proposal_change_def split: option.splits)
    moreover have "terminal_card (stash_voted i t) j \<Longrightarrow> terminal_card t j" for j
      by (auto simp: stash_voted_def Let_def terminal_card_def split: option.splits if_splits)
    ultimately show "ballot_kept (stash_voted i t) t"
      by (simp add: ballot_kept_def stash_voted_def Let_def)
  qed
  show ?thesis using ballot_kept_trans[OF _ k] ballot_kept_trans[OF _ b] by blast
qed

lemma stash_voted_simps [simp]:
  "gv_pending_sigs (stash_voted i s) = gv_pending_sigs s"
  "gv_head (stash_voted i s) = gv_head s"
  "gv_replica (stash_voted i s) = gv_replica s"
  "gv_own_approvals (stash_voted i s) = gv_own_approvals s"
  "gv_next_id (stash_voted i s) = gv_next_id s"
  "gv_pending_declines (stash_voted i s) = gv_pending_declines s"
  by (simp_all add: stash_voted_def Let_def)

subsection \<open>A vote lands\<close>

definition land :: "gov_state \<Rightarrow> u64 \<Rightarrow> u64 \<Rightarrow> string \<Rightarrow> string \<Rightarrow> bool \<Rightarrow> gov_state" where
  "land s i height m g verified =
     (let s1 = collect_sig s i height m g verified in
      if verified then note_signer m height (mark_verified i m s1) else s1)"

lemma collect_sig_ballot [simp]: "ballot_kept s (collect_sig t i height m g v) = ballot_kept s t"
  by (simp add: collect_sig_def Let_def)

lemma collect_sig_wf: "bt_wf (gv_pending_sigs s) \<Longrightarrow> bt_wf (gv_pending_sigs (collect_sig s i height m g v))"
  by (simp add: collect_sig_def Let_def)

lemma collect_sig_other: "j \<noteq> i \<Longrightarrow> bt_get (gv_pending_sigs (collect_sig s i height m g v)) j = bt_get (gv_pending_sigs s) j"
  by (simp add: collect_sig_def Let_def bt_get_insert)

lemma land_ballot [simp]: "ballot_kept s (land t i height m g v) = ballot_kept s t"
  by (simp add: land_def Let_def mark_verified_def)

lemma land_wf: "bt_wf (gv_pending_sigs s) \<Longrightarrow> bt_wf (gv_pending_sigs (land s i height m g v))"
  by (simp add: land_def Let_def mark_verified_def upd_pending_wf collect_sig_wf)

lemma land_other: "j \<noteq> i \<Longrightarrow> bt_get (gv_pending_sigs (land s i height m g v)) j = bt_get (gv_pending_sigs s) j"
  by (simp add: land_def Let_def mark_verified_def collect_sig_other)

definition held_entry :: "gov_state \<Rightarrow> u64 \<Rightarrow> pending_approval" where
  "held_entry s i = (case bt_get (gv_pending_sigs s) i of None \<Rightarrow> pending_default | Some p \<Rightarrow> p)"

definition landed :: "pending_approval \<Rightarrow> u64 \<Rightarrow> string \<Rightarrow> string \<Rightarrow> bool \<Rightarrow> pending_approval" where
  "landed e height m g v =
     (let e' = collect_entry e height m g v in
      if v then e'\<lparr>pend_verified := bset_insert m (pend_verified e')\<rparr> else e')"

lemma land_entry:
  assumes "\<not> terminal_card s i" "rostered s m" "v \<or> m \<noteq> gov_member s"
  shows "bt_get (gv_pending_sigs (land s i height m g v)) i = Some (landed (held_entry s i) height m g v)"
  using assms
  by (auto simp: land_def landed_def Let_def mark_verified_def collect_sig_def held_entry_def
      bt_get_insert)

lemma land_ignored:
  assumes "terminal_card s i \<or> \<not> rostered s m \<or> (\<not> v \<and> m = gov_member s)" "\<not> v"
  shows "land s i height m g v = s"
  using assms by (auto simp: land_def Let_def collect_sig_def)

lemma verifies_rostered:
  "approval_verifies X s i height m g = Some True \<Longrightarrow>
     rostered s m \<and> (\<exists>h. gv_head s = Some h \<and> target_of h = Some height)"
  by (auto simp: approval_verifies_def rostered_def list_ex_iff bind_eq_Some_conv
      split: option.splits if_splits)

lemma landed_shape:
  assumes "v \<longrightarrow> pend_height e \<le> height"
  obtains "landed e height m g v = e" "\<not> v"
  | e1 where "pend_height e \<le> height"
      "e1 = (if height > pend_height e then \<lparr>pend_height = height, pend_sigs = [], pend_verified = []\<rparr> else e)"
      "pend_height (landed e height m g v) = height"
      "set (pend_sigs (landed e height m g v)) =
         insert \<lparr>at_member = m, at_sig = g\<rparr> {a \<in> set (pend_sigs e1). at_member a \<noteq> m}"
      "set (pend_verified (landed e height m g v)) = (set (pend_verified e1) - {m}) \<union> (if v then {m} else {})"
proof (cases rule: collect_entry_cases[of e height m g v])
  case 1
  then have "\<not> v" using assms by auto
  with 1 show ?thesis by (intro that(1)) (simp_all add: landed_def)
next
  case (2 e1)
  have "pend_height e1 = height" using 2(1,2) by auto
  with 2 show ?thesis by (intro that(2)[OF 2(1,2)]) (auto simp: landed_def Let_def)
qed

lemma landed_ok:
  assumes "pend_ok e" "v \<Longrightarrow> pend_height e \<le> height"
  shows "pend_ok (landed e height m g v)"
proof (cases v)
  case True
  have "m \<in> at_member ` set (pend_sigs (collect_entry e height m g v))"
  proof (cases rule: collect_entry_cases[of e height m g v])
    case 1
    then show ?thesis using True assms(2) by auto
  qed simp
  with pend_ok_verify[OF pend_ok_collect[OF assms(1)]] True show ?thesis
    by (simp add: landed_def Let_def)
qed (simp add: landed_def pend_ok_collect assms)

lemma land_votes_ok:
  assumes ok: "votes_ok X s"
    and ver: "v \<Longrightarrow> approval_verifies X s i height m g = Some True"
    and low: "\<And>h t. gv_head s = Some h \<Longrightarrow> target_of h = Some t \<Longrightarrow> height \<le> t"
  shows "votes_ok X (land s i height m g v)"
proof (cases "terminal_card s i \<or> \<not> rostered s m \<or> (\<not> v \<and> m = gov_member s)")
  case True
  show ?thesis
  proof (cases v)
    case False
    with True show ?thesis using ok land_ignored by simp
  next
    case v: True
    then have dec: "terminal_card s i" using True verifies_rostered[OF ver[OF v]] by simp
    have tb: "terminal_card (land s i height m g v) i"
      using dec land_ballot[of s s i height m g v] by (simp only: ballot_kept_def) blast
    show ?thesis
      by (rule votes_ok_entry[OF ok, of _ i]) (use ok tb in \<open>simp_all add: land_wf votes_ok_def land_other\<close>)
  qed
next
  case False
  then have nt: "\<not> terminal_card s i" and ro: "rostered s m" and own: "v \<or> m \<noteq> gov_member s" by auto
  let ?e = "held_entry s i"
  have e: "pend_ok ?e" "genuine X s i ?e"
    "\<And>h. gv_head s = Some h \<Longrightarrow> at_member ` set (pend_sigs ?e) \<subseteq> mi_member ` set (ch_identities h)"
    "\<And>h t. gv_head s = Some h \<Longrightarrow> target_of h = Some t \<Longrightarrow> pend_height ?e \<le> t"
    using votes_okD[OF ok _ nt]
    by (auto simp: held_entry_def pend_ok_empty genuine_def pending_default_def split: option.splits)
  have up: "v \<Longrightarrow> pend_height ?e \<le> height" using verifies_rostered[OF ver] e(4) by auto
  then have up': "v \<longrightarrow> pend_height ?e \<le> height" by blast
  let ?p = "landed ?e height m g v"
  have "entry_ok X s i ?p"
  proof (cases rule: landed_shape[of v ?e height m g, OF up'])
    case 1
    then show ?thesis using e by (simp add: entry_ok_def)
  next
    case (2 e1)
    have e1: "genuine X s i e1" using e(2) 2(2) by (simp add: genuine_def)
    have h1: "pend_height e1 = height" using 2(1,2) by auto
    have mem: "at_member ` set (pend_sigs e1) \<subseteq> at_member ` set (pend_sigs ?e)" using 2(2) by auto
    have "genuine X s i ?p"
      unfolding genuine_def 2(3) 2(4) 2(5)
    proof (intro allI impI ballI, goal_cases)
      case (1 h a)
      show ?case
      proof (cases "at_member a = m")
        case True
        then have "v" "a = \<lparr>at_member = m, at_sig = g\<rparr>" using 1(3,4) by (auto split: if_splits)
        then show ?thesis using ver by simp
      next
        case False
        then have "a \<in> set (pend_sigs e1)" "at_member a \<in> set (pend_verified e1)"
          using 1(3,4) by (auto split: if_splits)
        then show ?thesis using e1 1(1,2) h1 unfolding genuine_def by blast
      qed
    qed
    moreover have "at_member ` set (pend_sigs ?p) \<subseteq> mi_member ` set (ch_identities h)"
      if "gv_head s = Some h" for h
    proof -
      have "m \<in> mi_member ` set (ch_identities h)" using ro that by (auto simp: rostered_def list_ex_iff)
      moreover have "at_member ` set (pend_sigs e1) \<subseteq> mi_member ` set (ch_identities h)"
        using mem e(3)[OF that] by (rule subset_trans)
      ultimately show ?thesis unfolding 2(4) by auto
    qed
    ultimately show ?thesis using landed_ok[OF e(1) up] low 2(3) by (simp add: entry_ok_def)
  qed
  then show ?thesis
    using land_entry[OF nt ro own, of height g] ok
    by (intro votes_ok_entry[OF ok, of _ i]) (simp_all add: land_wf votes_ok_def land_other)
qed

subsection \<open>Every operation\<close>

text \<open>The block \<open>try_commit\<close> seals, and what it is made of.\<close>

lemma try_commit_cases:
  assumes "try_commit X s i = Some (s', b)"
  obtains (waiting) "s' = s" "b = None"
  | (sealed) h target change msg p sigs where
      "gv_head s = Some h" "\<not> terminal_card s i" "target_of h = Some target"
      "proposal_change s i = Some change" "approval_bytes X (gov_republic_id s) target change = Some msg"
      "bt_get (gv_pending_sigs s) i = Some p" "pend_height p = target"
      "sealing_sigs X s h target change (valid_votes X h msg (current_decliners s i) (pend_sigs p)) = Some (Some sigs)"
      "if seal_is_paced s
       then s' = s\<lparr>gv_seal_held := bset_insert i (gv_seal_held s)\<rparr> \<and> b = None
       else s' = s\<lparr>gv_seal_held := filter (\<lambda>j. j \<noteq> i) (gv_seal_held s)\<rparr> \<and>
         b = Some \<lparr>blk_height = target, blk_prev = ch_hash h, blk_change = change, blk_sigs = sigs\<rparr>"
proof (cases "gv_head s")
  case None
  with assms show thesis by (intro that(1)) (auto simp: try_commit_def)
next
  case h: (Some h)
  show thesis
  proof (cases "terminal_card s i")
    case True
    with assms h show thesis by (intro that(1)) (auto simp: try_commit_def)
  next
    case nt: False
    from assms h nt obtain t where t: "target_of h = Some t"
      by (auto simp: try_commit_def bind_eq_Some_conv)
    show thesis
    proof (cases "proposal_change s i")
      case None
      with assms h nt t show thesis by (intro that(1)) (auto simp: try_commit_def)
    next
      case c: (Some change)
      from assms h nt t c obtain msg where msg: "approval_bytes X (gov_republic_id s) t change = Some msg"
        by (auto simp: try_commit_def bind_eq_Some_conv)
      show thesis
      proof (cases "\<exists>p. bt_get (gv_pending_sigs s) i = Some p \<and> pend_height p = t")
        case False
        with assms h nt t c msg show thesis
          by (intro that(1)) (auto simp: try_commit_def split: option.split_asm if_split_asm)
      next
        case True
        then obtain p where p: "bt_get (gv_pending_sigs s) i = Some p" "pend_height p = t" by blast
        from assms h nt t c msg p obtain seal where
          seal: "sealing_sigs X s h t change (valid_votes X h msg (current_decliners s i) (pend_sigs p)) = Some seal"
          by (auto simp: try_commit_def bind_eq_Some_conv)
        show thesis
        proof (cases seal)
          case None
          with assms h nt t c msg p seal show thesis by (intro that(1)) (auto simp: try_commit_def)
        next
          case (Some sigs)
          show thesis
            by (rule that(2)[OF h nt t c msg p])
              (use assms h nt t c msg p seal Some in \<open>auto simp: try_commit_def\<close>)
        qed
      qed
    qed
  qed
qed

lemma try_commit_state:
  assumes "try_commit X s i = Some (s', b)"
  shows "\<exists>held. s' = s\<lparr>gv_seal_held := held\<rparr>"
  using assms
proof (cases rule: try_commit_cases)
  case waiting
  then show ?thesis by (intro exI[of _ "gv_seal_held s"]) simp
qed (auto split: if_splits)

lemma seal_held_votes [simp]: "votes_ok X (s\<lparr>gv_seal_held := q\<rparr>) = votes_ok X s"
  using votes_ok_same_pending[of X s "s\<lparr>gv_seal_held := q\<rparr>"]
    votes_ok_same_pending[of X "s\<lparr>gv_seal_held := q\<rparr>" s]
  by (auto simp: ballot_kept_def proposal_change_def terminal_card_def cong: option.case_cong)

lemma receive_approval_land:
  assumes "receive_approval X s i m height g = Some (s', d, b)"
  shows "(s' = s \<and> b = None) \<or>
     (\<exists>v held. approval_verifies X s i height m g = Some v \<and>
        (\<forall>h t. gv_head s = Some h \<longrightarrow> target_of h = Some t \<longrightarrow> height \<le> t) \<and>
        try_commit X (land s i height m g v) i = Some (s', b) \<and>
        s' = (land s i height m g v)\<lparr>gv_seal_held := held\<rparr>)"
proof (cases "g = [] \<or> \<not> plausible_wire_id s i")
  case True
  then show ?thesis using assms by (cases "g = []") (auto simp: receive_approval_def)
next
  case False
  then obtain target where t: "(case gv_head s of None \<Rightarrow> Some None | Some h \<Rightarrow> map_option Some (target_of h)) = Some target"
    using assms by (auto simp: receive_approval_def bind_eq_Some_conv)
  show ?thesis
  proof (cases "case target of None \<Rightarrow> False | Some t \<Rightarrow> height > t")
    case True
    with False t assms show ?thesis by (auto simp: receive_approval_def)
  next
    case low: False
    with False t assms obtain v where v: "approval_verifies X s i height m g = Some v"
      and c: "try_commit X (land s i height m g v) i = Some (s', b)"
      by (auto simp: receive_approval_def bind_eq_Some_conv land_def Let_def split: if_splits)
    have "\<forall>h t. gv_head s = Some h \<longrightarrow> target_of h = Some t \<longrightarrow> height \<le> t" using low t by auto
    with v c try_commit_state[OF c] show ?thesis by blast
  qed
qed

lemma receive_approval_votes_ok:
  assumes ok: "votes_ok X s" and res: "receive_approval X s i m height g = Some (s', d, b)"
  shows "votes_ok X s'"
  using receive_approval_land[OF res]
proof (elim disjE exE conjE)
  fix v held assume v: "approval_verifies X s i height m g = Some v"
    and low: "\<forall>h t. gv_head s = Some h \<longrightarrow> target_of h = Some t \<longrightarrow> height \<le> t"
    and s': "s' = (land s i height m g v)\<lparr>gv_seal_held := held\<rparr>"
  have "votes_ok X (land s i height m g v)" by (rule land_votes_ok[OF ok]) (use v low in auto)
  then show ?thesis by (simp add: s')
qed (use ok in simp)

text \<open>The own signature is genuine if the local key is the one the head anchors for this seat.\<close>

definition own_key :: "extern \<Rightarrow> gates \<Rightarrow> gov_state \<Rightarrow> bool" where
  "own_key X g s \<longleftrightarrow>
     (\<forall>h sign msg. gv_head s = Some h \<longrightarrow> ga_sign g = Some sign \<longrightarrow>
        (\<exists>k \<in> set (ch_identities h). mi_member k = gov_member s \<and>
           identity_verify X (mi_identity_pk k) msg (sign msg)))"

lemma sign_approval_land:
  assumes "sign_approval X ga s i = Some (s', ev, b)"
  shows "(s' = s \<and> ev = None \<and> b = None) \<or>
     (\<exists>h height change msg sign held s1. gv_head s = Some h \<and> target_of h = Some height \<and>
        proposal_change s i = Some change \<and> may_sign ga change \<and> ga_sign ga = Some sign \<and>
        approval_bytes X (gov_republic_id s) height change = Some msg \<and>
        s1 = land (s\<lparr>gv_own_approvals := bset_insert i (gv_own_approvals s)\<rparr>) i height (gov_member s) (sign msg) True \<and>
        try_commit X s1 i = Some (s', b) \<and> s' = s1\<lparr>gv_seal_held := held\<rparr>)"
proof (cases "\<exists>sign h. ga_sign ga = Some sign \<and> gv_head s = Some h")
  case False
  then show ?thesis using assms by (auto simp: sign_approval_def split: option.splits)
next
  case True
  then obtain sign h where sh: "ga_sign ga = Some sign" "gv_head s = Some h" by blast
  from assms sh obtain height where t: "target_of h = Some height"
    by (auto simp: sign_approval_def bind_eq_Some_conv)
  show ?thesis
  proof (cases "proposal_change s i")
    case None
    then show ?thesis using assms sh t by (auto simp: sign_approval_def)
  next
    case (Some change)
    show ?thesis
    proof (cases "may_sign ga change")
      case False
      then show ?thesis using assms sh t Some by (auto simp: sign_approval_def)
    next
      case True
      let ?s1 = "\<lambda>msg. land (s\<lparr>gv_own_approvals := bset_insert i (gv_own_approvals s)\<rparr>) i height (gov_member s) (sign msg) True"
      from True assms sh t Some obtain msg where
        "approval_bytes X (gov_republic_id s) height change = Some msg"
        "try_commit X (?s1 msg) i = Some (s', b)"
        by (auto simp: sign_approval_def bind_eq_Some_conv land_def Let_def)
      with try_commit_state[of X "?s1 msg" i s' b] sh t Some True show ?thesis by blast
    qed
  qed
qed

lemma sign_approval_votes_ok:
  assumes ok: "votes_ok X s" and key: "own_key X ga s" and res: "sign_approval X ga s i = Some (s', ev, b)"
  shows "votes_ok X s'"
  using sign_approval_land[OF res]
proof (elim disjE exE conjE)
  fix h height change msg sign held s1
  assume h: "gv_head s = Some h" and t: "target_of h = Some height" and c: "proposal_change s i = Some change"
    and sg: "ga_sign ga = Some sign" and m: "approval_bytes X (gov_republic_id s) height change = Some msg"
    and s1: "s1 = land (s\<lparr>gv_own_approvals := bset_insert i (gv_own_approvals s)\<rparr>) i height (gov_member s) (sign msg) True"
    and s': "s' = s1\<lparr>gv_seal_held := held\<rparr>"
  let ?s0 = "s\<lparr>gv_own_approvals := bset_insert i (gv_own_approvals s)\<rparr>"
  have kept: "ballot_kept s ?s0" by simp
  have ok0: "votes_ok X ?s0" by (rule votes_ok_same_pending[OF ok kept]) simp
  have "approval_verifies X s i height (gov_member s) (sign msg) = Some True"
    using h t c m key sg by (auto simp: approval_verifies_def own_key_def list_ex_iff)
  then have "approval_verifies X ?s0 i height (gov_member s) (sign msg) = Some True"
    by (simp only: ballot_kept_verifies[OF kept])
  then have "votes_ok X s1" unfolding s1 using h t by (intro land_votes_ok[OF ok0]) auto
  then show ?thesis by (simp add: s')
qed (use ok in simp)

end
