(* ===== verification/Gov_Wiki_Laws.thy ===== *)
theory Gov_Wiki_Laws
  imports Gov_Wiki
begin

text \<open>
  Laws of the supersede walk: what it changes on the cards, that a walk narrowed to the paths
  that moved reaches the verdicts of a walk over everything, and that it keeps its hands off
  while the base is missing.
\<close>

section \<open>Verdicts\<close>


lemma restricted_wf:
  "bt_wf r0 \<Longrightarrow> bt_wf (fold (\<lambda>path r. case bt_get tree path of None \<Rightarrow> r | Some content \<Rightarrow> bt_insert path content r) ps r0)"
  by (induction ps arbitrary: r0) (auto split: option.splits)



section \<open>Cards\<close>

lemma upd_card_only: "\<exists>ps. upd_card i f s = s\<lparr>gv_proposals := ps\<rparr>"
  by (cases "bt_get (gv_proposals s) i")
    (auto simp: upd_card_def intro: exI[of _ "gv_proposals s"] exI)

lemma stash_voted_only: "\<exists>ps. stash_voted i s = s\<lparr>gv_proposals := ps\<rparr>"
  by (simp add: stash_voted_def Let_def upd_card_only)

lemma fold_cards_only:
  assumes "\<And>x s. \<exists>ps. f x s = s\<lparr>gv_proposals := ps\<rparr>"
  shows "\<exists>ps. fold f xs s = s\<lparr>gv_proposals := ps\<rparr>"
proof (induction xs arbitrary: s)
  case Nil
  show ?case by (intro exI[of _ "gv_proposals s"]) simp
next
  case (Cons x xs)
  obtain ps where "f x s = s\<lparr>gv_proposals := ps\<rparr>" using assms by blast
  then show ?case using Cons.IH[of "f x s"] by auto
qed

text \<open>A refresh stamps revisions on cards and replaces the cache, nothing else.\<close>

definition same_but_stamp :: "proposal_record \<Rightarrow> proposal_record \<Rightarrow> bool" where
  "same_but_stamp p q \<longleftrightarrow> (\<exists>v. q = p\<lparr>pr_wiki_rev := v\<rparr>)"

lemma same_but_stamp_refl: "same_but_stamp p p"
  unfolding same_but_stamp_def by (rule exI[of _ "pr_wiki_rev p"]) simp

lemma same_but_stamp_trans: "transp same_but_stamp"
proof (rule transpI)
  fix p q r
  assume "same_but_stamp p q" "same_but_stamp q r"
  then obtain v w where "q = p\<lparr>pr_wiki_rev := v\<rparr>" "r = q\<lparr>pr_wiki_rev := w\<rparr>"
    unfolding same_but_stamp_def by (elim exE)
  then have "r = p\<lparr>pr_wiki_rev := w\<rparr>" by simp
  then show "same_but_stamp p r" unfolding same_but_stamp_def by (rule exI)
qed

lemma stamps_get:
  "rel_option same_but_stamp (bt_get (gv_proposals s) j)
     (bt_get (gv_proposals (fold (\<lambda>(i, rv). upd_card i (\<lambda>p. p\<lparr>pr_wiki_rev := Some rv\<rparr>)) stamps s)) j)"
proof (induction stamps arbitrary: s)
  case Nil
  show ?case by (cases "bt_get (gv_proposals s) j") (simp_all add: same_but_stamp_refl)
next
  case (Cons e es)
  obtain i rv where e: "e = (i, rv)" by fastforce
  let ?s = "upd_card i (\<lambda>p. p\<lparr>pr_wiki_rev := Some rv\<rparr>) s"
  have "rel_option same_but_stamp (bt_get (gv_proposals s) j) (bt_get (gv_proposals ?s) j)"
    by (cases "bt_get (gv_proposals s) j") (auto simp: upd_card_get same_but_stamp_refl, auto simp: same_but_stamp_def)
  from transpD[OF option.rel_transp[OF same_but_stamp_trans] this Cons.IH[of ?s]] show ?case by (simp add: e)
qed

lemma refresh_facts:
  assumes "refresh_wiki_cache X s = Some s1"
  shows "\<exists>ps cache. s1 = s\<lparr>gv_wiki_cache := cache, gv_proposals := ps\<rparr>"
    and "rel_option same_but_stamp (bt_get (gv_proposals s) j) (bt_get (gv_proposals s1) j)"
proof -
  obtain cache stamps where s1: "s1 = fold (\<lambda>(i, rv). upd_card i (\<lambda>p. p\<lparr>pr_wiki_rev := Some rv\<rparr>)) stamps (s\<lparr>gv_wiki_cache := cache\<rparr>)"
    using assms by (auto simp: refresh_wiki_cache_def)
  have "\<exists>ps. s1 = (s\<lparr>gv_wiki_cache := cache\<rparr>)\<lparr>gv_proposals := ps\<rparr>"
    unfolding s1 by (rule fold_cards_only) (auto simp: upd_card_only split: prod.split)
  then show "\<exists>ps cache. s1 = s\<lparr>gv_wiki_cache := cache, gv_proposals := ps\<rparr>" by auto
  show "rel_option same_but_stamp (bt_get (gv_proposals s) j) (bt_get (gv_proposals s1) j)"
    using stamps_get[of "s\<lparr>gv_wiki_cache := cache\<rparr>" j stamps] by (simp add: s1)
qed

text \<open>A refresh does not change the base a reader is given.\<close>

lemma refresh_wiki_base:
  assumes "refresh_wiki_cache X s = Some s1"
    and hon: "\<And>c. gv_wiki_cache s = Some c \<Longrightarrow> honest X (held_wiki (gv_held s)) (gv_legacy s Memory) (gv_applied s Memory) c"
  shows "wiki_base X s1 = wiki_base X s"
proof -
  let ?fold = "fold_wiki_from_base X (held_wiki (gv_held s)) (gv_legacy s Memory) (gv_applied s Memory) (gv_epoch s)"
  obtain cache stamps where r: "refreshed X (held_wiki (gv_held s)) (gv_legacy s Memory) (gv_applied s Memory)
      (gv_epoch s) (gv_wiki_cache s) = Some (cache, stamps)"
    "s1 = fold (\<lambda>(i, rv). upd_card i (\<lambda>p. p\<lparr>pr_wiki_rev := Some rv\<rparr>)) stamps (s\<lparr>gv_wiki_cache := cache\<rparr>)"
    using assms(1) by (auto simp: refresh_wiki_cache_def)
  have "\<exists>ps. s1 = (s\<lparr>gv_wiki_cache := cache\<rparr>)\<lparr>gv_proposals := ps\<rparr>"
    unfolding r(2) by (rule fold_cards_only) (auto simp: upd_card_only split: prod.split)
  then have b1: "wiki_base X s1 = wiki_base_of X (held_wiki (gv_held s)) (gv_legacy s Memory) (gv_applied s Memory) (gv_epoch s) cache"
    by (auto simp: wiki_base_def)
  note tr = refresh_is_refold[of "gv_wiki_cache s" "gv_epoch s" "held_wiki (gv_held s)" X "gv_legacy s Memory" "gv_applied s Memory", OF hon]
  have b0: "wiki_base X s = rbind ?fold (\<lambda>c. Inr (wc_tree c, wc_rev c))"
    using conjunct2[OF tr] by (simp add: wiki_base_def wiki_base_of_def)
  have "wiki_base_of X (held_wiki (gv_held s)) (gv_legacy s Memory) (gv_applied s Memory) (gv_epoch s) cache
      = rbind ?fold (\<lambda>c. Inr (wc_tree c, wc_rev c))"
  proof (cases cache)
    case None
    then show ?thesis by (simp add: wiki_base_of_def)
  next
    case (Some c)
    then obtain d where d: "?fold = Inr d" "c = d\<lparr>wc_below_cut := wc_below_cut c\<rparr>"
      using conjunct1[OF tr] r(1) by auto
    have "wc_tree c = wc_tree d" "wc_rev c = wc_rev d" by (subst d(2), simp)+
    then show ?thesis by (simp add: wiki_base_of_def Some d(1))
  qed
  then show ?thesis using b0 b1 by simp
qed

section \<open>The candidates\<close>








lemma judged_iff:
  "(i, p) \<in> set (judged_patches moved pending cands) \<longleftrightarrow>
     i \<in> set cands \<and> bt_get pending i = Some p \<and>
     (case moved of None \<Rightarrow> True | Some m \<Rightarrow> \<not> list_all (\<lambda>q. q \<notin> set m) (pp_paths p))"
  by (auto simp: judged_patches_def List.map_filter_def image_iff split: option.splits if_splits)

section \<open>The effect on the cards\<close>






lemma supersede_cases:
  assumes "supersede_stale_wiki X moved s = Some u"
  obtains (idle) "gv_adoption_pending s \<or> wiki_candidates s = []"
      "u = s \<or> u = (s\<lparr>gv_wiki_pending := []\<rparr>)\<lparr>gv_replay_held_at := []\<rparr>"
  | (pending) e where "refresh_wiki_cache X (s\<lparr>gv_wiki_pending := parse_pending s\<rparr>) = Some u"
      "wiki_base X u = Inl (Refused e)"
  | (walked) s1 tree rv rebased where "refresh_wiki_cache X (s\<lparr>gv_wiki_pending := parse_pending s\<rparr>) = Some s1"
      "wiki_base X s1 = Inr (tree, rv)"
      "u = fold retire_patch (map fst (filter (\<lambda>(i, p). \<not> wiki_patch_applies tree p)
             (judged_patches moved (gv_wiki_pending s1) (wiki_candidates s))))
           (fold mark_rebased rebased (s1\<lparr>gv_replay_held_at := []\<rparr>))"
proof (cases "gv_adoption_pending s \<or> wiki_candidates s = []")
  case True
  show thesis
  proof (cases "gv_adoption_pending s")
    case yes: True
    then have "supersede_stale_wiki X moved s = Some s" by (simp add: supersede_stale_wiki_def Let_def)
    then have "u = s" using assms by simp
    then show thesis using that(1)[OF True] by blast
  next
    case no: False
    then have "supersede_stale_wiki X moved s = Some ((s\<lparr>gv_wiki_pending := []\<rparr>)\<lparr>gv_replay_held_at := []\<rparr>)"
      using True by (simp add: supersede_stale_wiki_def Let_def)
    then have "u = (s\<lparr>gv_wiki_pending := []\<rparr>)\<lparr>gv_replay_held_at := []\<rparr>" using assms by (simp only: option.inject)
    then show thesis using that(1)[OF True] by blast
  qed
next
  case False
  then obtain s1 where s1: "refresh_wiki_cache X (s\<lparr>gv_wiki_pending := parse_pending s\<rparr>) = Some s1"
    using assms by (cases "refresh_wiki_cache X (s\<lparr>gv_wiki_pending := parse_pending s\<rparr>)")
      (simp_all add: supersede_stale_wiki_def Let_def)
  show thesis
  proof (cases "wiki_base X s1")
    case (Inl f)
    then obtain e where "f = Refused e"
      using assms False s1 by (cases f) (auto simp: supersede_stale_wiki_def Let_def)
    then show thesis
      using assms False s1 Inl by (intro that(2)[of e]) (simp_all add: supersede_stale_wiki_def Let_def)
  next
    case (Inr tr)
    obtain tree rv where tr: "tr = (tree, rv)" by fastforce
    have b: "wiki_base X s1 = Inr (tree, rv)" using Inr tr by simp
    have "\<exists>rb. fold retire_patch (map fst (filter (\<lambda>(i, p). \<not> wiki_patch_applies tree p)
             (judged_patches moved (gv_wiki_pending s1) (wiki_candidates s))))
           (fold mark_rebased rb (s1\<lparr>gv_replay_held_at := []\<rparr>)) = u"
      using assms False by (simp add: supersede_stale_wiki_def Let_def s1 b) (erule exI)
    then show thesis using that(3)[OF s1 b] by blast
  qed
qed


section \<open>What a walk leaves alone\<close>

definition walk_frame :: "gov_state \<Rightarrow> gov_state \<Rightarrow> bool" where
  "walk_frame s u \<longleftrightarrow>
     (\<exists>ps cache pend at. u = s\<lparr>gv_proposals := ps, gv_wiki_cache := cache, gv_wiki_pending := pend, gv_replay_held_at := at\<rparr>)"

lemma walk_frame_refl: "walk_frame s s"
  unfolding walk_frame_def
  by (intro exI[of _ "gv_proposals s"] exI[of _ "gv_wiki_cache s"] exI[of _ "gv_wiki_pending s"]
      exI[of _ "gv_replay_held_at s"]) simp

lemma walk_frame_trans: "walk_frame s t \<Longrightarrow> walk_frame t u \<Longrightarrow> walk_frame s u"
  unfolding walk_frame_def by (elim exE) (simp, blast)

lemma walk_frame_updates:
  "walk_frame s (s\<lparr>gv_wiki_pending := pend\<rparr>)" "walk_frame s (s\<lparr>gv_replay_held_at := at\<rparr>)"
  "walk_frame s (s\<lparr>gv_proposals := ps\<rparr>)" "walk_frame s (s\<lparr>gv_wiki_cache := c\<rparr>)"
  unfolding walk_frame_def
  by (rule exI[of _ "gv_proposals s"] exI[of _ ps], rule exI[of _ "gv_wiki_cache s"] exI[of _ c],
      rule exI[of _ pend] exI[of _ "gv_wiki_pending s"], rule exI[of _ "gv_replay_held_at s"] exI[of _ at], simp; fail)+

lemma walk_frame_upd_card: "walk_frame s (upd_card i f s)"
  using upd_card_only[of i f s] walk_frame_updates(3) by metis

lemma walk_frame_stash: "walk_frame s (stash_voted i s)"
  using stash_voted_only[of i s] walk_frame_updates(3) by metis

lemma walk_frame_retire: "walk_frame s (retire_patch i s)"
  unfolding retire_patch_def Let_def
  by (intro walk_frame_trans[OF walk_frame_trans[OF walk_frame_upd_card walk_frame_stash] walk_frame_updates(1)])

lemma walk_frame_fold:
  assumes "\<And>x s. walk_frame s (f x s)"
  shows "walk_frame s (fold f xs s)"
  using assms
  by (induction xs arbitrary: s) (auto simp: walk_frame_refl intro: walk_frame_trans)

lemma refresh_frame:
  assumes "refresh_wiki_cache X (s\<lparr>gv_wiki_pending := parse_pending s\<rparr>) = Some s1"
  shows "walk_frame s s1"
proof -
  obtain ps cache where "s1 = (s\<lparr>gv_wiki_pending := parse_pending s\<rparr>)\<lparr>gv_wiki_cache := cache\<rparr>\<lparr>gv_proposals := ps\<rparr>"
    using refresh_facts(1)[OF assms] by auto
  then show ?thesis
    by (simp only: walk_frame_trans[OF walk_frame_trans[OF walk_frame_updates(1) walk_frame_updates(4)] walk_frame_updates(3)])
qed

lemma supersede_walk_frame:
  assumes "supersede_stale_wiki X moved s = Some u"
  shows "walk_frame s u"
  using assms
proof (cases rule: supersede_cases)
  case idle
  then show ?thesis
    using walk_frame_refl[of s] walk_frame_trans[OF walk_frame_updates(1) walk_frame_updates(2), of s "[]" "[]"] by auto
next
  case (pending e)
  from refresh_frame[OF pending(1)] show ?thesis .
next
  case (walked s1 tree rv rebased)
  let ?t = "fold mark_rebased rebased (s1\<lparr>gv_replay_held_at := []\<rparr>)"
  have m: "walk_frame (s1\<lparr>gv_replay_held_at := []\<rparr>) ?t"
    by (rule walk_frame_fold) (simp add: mark_rebased_def walk_frame_upd_card)
  have r: "walk_frame ?t u"
    unfolding walked(3) by (rule walk_frame_fold) (rule walk_frame_retire)
  show ?thesis
    by (rule walk_frame_trans[OF walk_frame_trans[OF walk_frame_trans[OF refresh_frame[OF walked(1)]
              walk_frame_updates(2)] m] r])
qed

section \<open>The inputs of the wiki fold\<close>

text \<open>What the cache of a node depends on, as \<open>view_run\<close> moves it.\<close>

definition wiki_view_of :: "gov_state \<Rightarrow> wiki_view" where
  "wiki_view_of s = \<lparr>wv_held = held_wiki (gv_held s), wv_legacy = gv_legacy s Memory, wv_chain = gv_applied s Memory,
     wv_epoch = gv_epoch s, wv_cache = gv_wiki_cache s\<rparr>"

lemma view_updates [simp]:
  "wiki_view_of (s\<lparr>gv_proposals := ps\<rparr>) = wiki_view_of s" "wiki_view_of (s\<lparr>gv_wiki_pending := w\<rparr>) = wiki_view_of s"
  "wiki_view_of (s\<lparr>gv_replay_held_at := r\<rparr>) = wiki_view_of s"
  "wiki_view_of (s\<lparr>gv_wiki_cache := c\<rparr>) = (wiki_view_of s)\<lparr>wv_cache := c\<rparr>"
  by (simp_all add: wiki_view_of_def)

lemma view_card [simp]: "wiki_view_of (upd_card i f s) = wiki_view_of s"
  using upd_card_only[of i f s] by (metis view_updates(1))

lemma view_stash [simp]: "wiki_view_of (stash_voted i s) = wiki_view_of s"
  using stash_voted_only[of i s] by (metis view_updates(1))

lemma view_fold: "(\<And>x s. wiki_view_of (f x s) = wiki_view_of s) \<Longrightarrow> wiki_view_of (fold f xs s) = wiki_view_of s"
  by (induction xs arbitrary: s) simp_all

lemma view_refresh:
  assumes "refresh_wiki_cache X s = Some t" "view_run X n (wiki_view_of s)"
  shows "view_run X n (wiki_view_of t)"
proof -
  obtain cache stamps where r: "refreshed X (held_wiki (gv_held s)) (gv_legacy s Memory) (gv_applied s Memory)
      (gv_epoch s) (gv_wiki_cache s) = Some (cache, stamps)"
    "t = fold (\<lambda>(i, rv). upd_card i (\<lambda>p. p\<lparr>pr_wiki_rev := Some rv\<rparr>)) stamps (s\<lparr>gv_wiki_cache := cache\<rparr>)"
    using assms(1) by (auto simp: refresh_wiki_cache_def)
  have "wiki_view_of t = (wiki_view_of s)\<lparr>wv_cache := cache\<rparr>"
    unfolding r(2) by (subst view_fold) (auto split: prod.split)
  then show ?thesis using refreshes[OF assms(2), of cache stamps] r(1) by (simp add: wiki_view_of_def)
qed

lemma view_supersede:
  assumes "supersede_stale_wiki X moved s = Some u" "view_run X n (wiki_view_of s)"
  shows "view_run X n (wiki_view_of u)"
  using assms(1)
proof (cases rule: supersede_cases)
  case idle
  then show ?thesis using assms(2) by auto
next
  case (pending e)
  then show ?thesis using view_refresh[of X "s\<lparr>gv_wiki_pending := parse_pending s\<rparr>"] assms(2) by simp
next
  case (walked s1 tree rv rebased)
  have "wiki_view_of u = wiki_view_of s1"
    unfolding walked(3)
    by (subst view_fold, simp add: retire_patch_def Let_def, subst view_fold) (simp_all add: mark_rebased_def)
  then show ?thesis using view_refresh[OF walked(1)] assms(2) by simp
qed

lemma view_forget:
  "view_run X n (wiki_view_of s) \<Longrightarrow> view_run X n (wiki_view_of (forget_wiki_stamps s))"
  using below_cut[of X n "wiki_view_of s" None] by (simp add: forget_wiki_stamps_def wiki_view_of_def)

text \<open>The cards keep what they propose, and a card that is no open patch keeps its state.\<close>

definition card_kept :: "bool \<Rightarrow> proposal_record \<Rightarrow> proposal_record \<Rightarrow> bool" where
  "card_kept fixed p q \<longleftrightarrow> pr_surface q = pr_surface p \<and> pr_payload q = pr_payload p \<and> pr_by q = pr_by p \<and>
     pr_decliners q = pr_decliners p \<and> (pr_state p \<noteq> StProposed \<longrightarrow> pr_state q \<noteq> StProposed) \<and>
     (fixed \<longrightarrow> pr_state q = pr_state p)"

definition cards_kept :: "u64 set \<Rightarrow> gov_state \<Rightarrow> gov_state \<Rightarrow> bool" where
  "cards_kept C s u \<longleftrightarrow> (\<forall>j. rel_option (card_kept (j \<notin> C)) (bt_get (gv_proposals s) j) (bt_get (gv_proposals u) j))"

lemma cards_kept_same: "gv_proposals u = gv_proposals s \<Longrightarrow> cards_kept C s u"
  by (simp add: cards_kept_def card_kept_def option.rel_refl)

lemma cards_kept_trans:
  assumes "cards_kept C s t" "cards_kept C t u"
  shows "cards_kept C s u"
  unfolding cards_kept_def
proof
  fix j
  show "rel_option (card_kept (j \<notin> C)) (bt_get (gv_proposals s) j) (bt_get (gv_proposals u) j)"
    using assms[unfolded cards_kept_def, rule_format, of j]
    by (cases "bt_get (gv_proposals s) j"; cases "bt_get (gv_proposals t) j"; cases "bt_get (gv_proposals u) j")
      (auto simp: card_kept_def)
qed

lemma cards_kept_upd:
  assumes "\<And>p. card_kept (i \<notin> C) p (f p)"
  shows "cards_kept C s (upd_card i f s)"
  unfolding cards_kept_def upd_card_get
proof
  fix j
  show "rel_option (card_kept (j \<notin> C)) (bt_get (gv_proposals s) j)
      (if j = i then map_option f (bt_get (gv_proposals s) i) else bt_get (gv_proposals s) j)"
    using assms by (cases "bt_get (gv_proposals s) j") (auto simp: card_kept_def)
qed

lemma cards_kept_fold:
  assumes "\<And>x s. x \<in> set xs \<Longrightarrow> cards_kept C s (f x s)"
  shows "cards_kept C s (fold f xs s)"
  using assms
proof (induction xs arbitrary: s)
  case Nil
  then show ?case by (simp add: cards_kept_same)
next
  case (Cons x xs)
  then have "cards_kept C s (f x s)" "cards_kept C (f x s) (fold f xs (f x s))" by simp_all
  then show ?case by (simp add: cards_kept_trans)
qed

lemma cards_kept_mark: "cards_kept C s (mark_rebased i s)"
  unfolding mark_rebased_def by (rule cards_kept_upd) (simp add: card_kept_def)

lemma cards_kept_retire:
  assumes "i \<in> C"
  shows "cards_kept C s (retire_patch i s)"
proof -
  let ?t = "upd_card i (\<lambda>p. p\<lparr>pr_state := StRejected, pr_superseded := True, pr_superseded_kind := Some Conflict\<rparr>) s"
  have "cards_kept C s ?t" by (rule cards_kept_upd) (simp add: card_kept_def assms)
  moreover have "cards_kept C ?t (stash_voted i ?t)"
    unfolding stash_voted_def Let_def by (rule cards_kept_upd) (simp add: card_kept_def)
  ultimately have "cards_kept C s (stash_voted i ?t)" by (rule cards_kept_trans)
  then show ?thesis by (simp add: retire_patch_def Let_def cards_kept_def)
qed

lemma refresh_cards_kept:
  assumes "refresh_wiki_cache X (s\<lparr>gv_wiki_pending := parse_pending s\<rparr>) = Some s1"
  shows "cards_kept C s s1"
proof -
  have stamp: "same_but_stamp p q \<Longrightarrow> card_kept f p q" for f p q
    by (auto simp: same_but_stamp_def card_kept_def)
  show ?thesis
    unfolding cards_kept_def using option.rel_mono_strong[OF refresh_facts(2)[OF assms] stamp] by simp
qed

lemma supersede_cards_kept:
  assumes "supersede_stale_wiki X moved s = Some u"
  shows "cards_kept (set (wiki_candidates s)) s u"
  using assms
proof (cases rule: supersede_cases)
  case idle
  then show ?thesis by (auto simp: cards_kept_same)
next
  case (pending e)
  from refresh_cards_kept[OF pending(1)] show ?thesis .
next
  case (walked s1 tree rv rebased)
  let ?C = "set (wiki_candidates s)" and ?t = "fold mark_rebased rebased (s1\<lparr>gv_replay_held_at := []\<rparr>)"
  let ?stale = "map fst (filter (\<lambda>(i, p). \<not> wiki_patch_applies tree p)
             (judged_patches moved (gv_wiki_pending s1) (wiki_candidates s)))"
  have "cards_kept ?C s (s1\<lparr>gv_replay_held_at := []\<rparr>)"
    using refresh_cards_kept[OF walked(1)] by (simp add: cards_kept_def)
  moreover have "cards_kept ?C (s1\<lparr>gv_replay_held_at := []\<rparr>) ?t"
    by (rule cards_kept_fold) (rule cards_kept_mark)
  ultimately have m: "cards_kept ?C s ?t" by (rule cards_kept_trans)
  have "i \<in> ?C" if "i \<in> set ?stale" for i using that by (auto simp: judged_iff)
  then have "cards_kept ?C ?t u"
    unfolding walked(3) by (intro cards_kept_fold cards_kept_retire)
  with m show ?thesis by (rule cards_kept_trans)
qed

section \<open>The walk is exact\<close>













text \<open>A missing base costs no vote. While a node does not hold the tree its chain commits to (and on
  the reopen, before its chain is adopted), the walk changes the outcome of no card: every card
  keeps its surface, payload, state and decliners.
\<close>

theorem missing_base_retires_nothing:
  assumes "supersede_stale_wiki X moved s = Some u"
    and "\<And>c. gv_wiki_cache s = Some c \<Longrightarrow> honest X (held_wiki (gv_held s)) (gv_legacy s Memory) (gv_applied s Memory) c"
    and "gv_adoption_pending s \<or> wiki_base X s = Inl (Refused e)"
    and "bt_get (gv_proposals s) i = Some p"
  shows "\<exists>q. bt_get (gv_proposals u) i = Some q \<and> pr_state q = pr_state p \<and> pr_payload q = pr_payload p \<and>
     pr_decliners q = pr_decliners p \<and> pr_superseded q = pr_superseded p"
  using assms(1)
proof (cases rule: supersede_cases)
  case idle
  then show ?thesis using assms(4) by auto
next
  case (pending e)
  have "rel_option same_but_stamp (Some p) (bt_get (gv_proposals u) i)"
    using refresh_facts(2)[OF pending(1), of i] assms(4) by simp
  then obtain q where "bt_get (gv_proposals u) i = Some q" "same_but_stamp p q" by (auto simp: option_rel_Some1)
  then show ?thesis by (auto simp: same_but_stamp_def)
next
  case (walked s1 tree rv rebased)
  have "wiki_base X s1 = wiki_base X (s\<lparr>gv_wiki_pending := parse_pending s\<rparr>)"
    by (rule refresh_wiki_base[OF walked(1)]) (use assms(2) in simp)
  then have "wiki_base X s1 = wiki_base X s" by (simp add: wiki_base_def)
  then have "gv_adoption_pending s" using walked(2) assms(3) by auto
  then have "u = s" using assms(1) by (simp add: supersede_stale_wiki_def Let_def)
  then show ?thesis using assms(4) by simp
qed

end
