(* ===== verification/Gov_Wire.thy ===== *)
theory Gov_Wire
  imports Gov_Laws Gov_Wiki_Laws
begin

text \<open>
  The messages a node receives as one event system: an approval, a proposal, a decline, a
  withdrawal, and the node's own signature. Every event keeps \<open>votes_ok\<close>; what stands after any
  stream of them is proved from the one-event lemmas.
\<close>

section \<open>Re-checking signatures that outran their card\<close>

lemma mark_verified_entry:
  assumes ok: "votes_ok X s" and p: "bt_get (gv_pending_sigs s) i = Some p"
    and a: "a \<in> set (pend_sigs p)"
    and ver: "approval_verifies X s i (pend_height p) (at_member a) (at_sig a) = Some True"
  shows "votes_ok X (mark_verified i (at_member a) s)"
proof (rule votes_ok_entry[OF ok, of _ i])
  fix q assume "\<not> terminal_card (mark_verified i (at_member a) s) i"
    and q: "bt_get (gv_pending_sigs (mark_verified i (at_member a) s)) i = Some q"
  then have nt: "\<not> terminal_card s i" by (simp add: mark_verified_def terminal_card_def)
  have e: "entry_ok X s i p" by (rule votes_ok_entryD[OF ok p nt])
  have q': "q = p\<lparr>pend_verified := bset_insert (at_member a) (pend_verified p)\<rparr>"
    using q p by (simp add: mark_verified_def)
  have po: "pend_ok p" using e by (simp add: entry_ok_def)
  have "genuine X s i q"
    unfolding genuine_def
  proof (intro allI impI ballI, goal_cases)
    case (1 h b)
    show ?case
    proof (cases "at_member b = at_member a")
      case True
      then have "b = a" using po a 1(3)
        by (auto simp: pend_ok_def q' distinct_map dest: inj_onD)
      then show ?thesis using ver by (simp add: q')
    next
      case False
      then show ?thesis using e 1 by (auto simp: entry_ok_def genuine_def q')
    qed
  qed
  then show "entry_ok X s i q"
    using e pend_ok_verify[OF po] a by (simp add: entry_ok_def q')
qed (use ok in \<open>simp_all add: mark_verified_def upd_pending_wf votes_ok_def\<close>)

definition recheck :: "extern \<Rightarrow> u64 \<Rightarrow> u64 \<Rightarrow> roster_attestation \<Rightarrow> gov_state option \<Rightarrow> gov_state option" where
  "recheck X i height a acc =
     Option.bind acc (\<lambda>t.
       map_option (\<lambda>ok. if ok then note_signer (at_member a) height (mark_verified i (at_member a) t) else t)
         (approval_verifies X t i height (at_member a) (at_sig a)))"

lemma recheck_None: "fold (recheck X i height) xs None = None"
  by (induction xs) (simp_all add: recheck_def)

lemma recheck_Some:
  "recheck X i height a (Some s) =
     (case approval_verifies X s i height (at_member a) (at_sig a) of
        None \<Rightarrow> None
      | Some v \<Rightarrow> Some (if v then note_signer (at_member a) height (mark_verified i (at_member a) s) else s))"
  by (simp add: recheck_def split: option.splits)

text \<open>
  Marking touches the verdicts of one collection only: heights, signatures and everything
  outside the collection stay.
\<close>

definition only_verdicts :: "u64 \<Rightarrow> gov_state \<Rightarrow> gov_state \<Rightarrow> bool" where
  "only_verdicts i s t \<longleftrightarrow> ballot_kept s t \<and> gv_proposals t = gv_proposals s \<and>
     (\<forall>j. j \<noteq> i \<longrightarrow> bt_get (gv_pending_sigs t) j = bt_get (gv_pending_sigs s) j) \<and>
     (\<forall>p. bt_get (gv_pending_sigs s) i = Some p \<longrightarrow>
        (\<exists>q. bt_get (gv_pending_sigs t) i = Some q \<and> pend_height q = pend_height p \<and>
             pend_sigs q = pend_sigs p \<and> set (pend_verified p) \<subseteq> set (pend_verified q)))"

lemma only_verdicts_refl: "only_verdicts i s s"
  by (simp add: only_verdicts_def)

lemma only_verdicts_trans: "only_verdicts i s t \<Longrightarrow> only_verdicts i t u \<Longrightarrow> only_verdicts i s u"
  unfolding only_verdicts_def using ballot_kept_trans
  by (smt (verit, ccfv_threshold) subset_trans)

lemma mark_only_verdicts: "only_verdicts i s (note_signer m h (mark_verified i m s))"
  by (auto simp: only_verdicts_def mark_verified_def)

lemma recheck_fold:
  assumes "votes_ok X s" "bt_get (gv_pending_sigs s) i = Some p" "set xs \<subseteq> set (pend_sigs p)"
    and "fold (recheck X i (pend_height p)) xs (Some s) = Some t"
  shows "votes_ok X t \<and> only_verdicts i s t"
  using assms
proof (induction xs arbitrary: s p)
  case Nil
  then show ?case by (simp add: only_verdicts_refl)
next
  case (Cons a xs)
  from Cons.prems(4) obtain v where v: "approval_verifies X s i (pend_height p) (at_member a) (at_sig a) = Some v"
    by (cases "approval_verifies X s i (pend_height p) (at_member a) (at_sig a)")
      (auto simp: recheck_Some recheck_None)
  show ?case
  proof (cases v)
    case False
    then show ?thesis using Cons.IH[OF Cons.prems(1,2)] Cons.prems(3,4) v by (simp add: recheck_Some)
  next
    case True
    let ?s = "note_signer (at_member a) (pend_height p) (mark_verified i (at_member a) s)"
    have "votes_ok X (mark_verified i (at_member a) s)"
      using mark_verified_entry[OF Cons.prems(1,2)] Cons.prems(3) v True by simp
    then have ok: "votes_ok X ?s"
      by (rule votes_ok_same_pending) simp_all
    let ?p = "p\<lparr>pend_verified := bset_insert (at_member a) (pend_verified p)\<rparr>"
    have g: "bt_get (gv_pending_sigs ?s) i = Some ?p"
      using Cons.prems(2) by (simp add: mark_verified_def)
    have "votes_ok X t \<and> only_verdicts i ?s t"
      by (rule Cons.IH[OF ok g]) (use Cons.prems(3,4) v True in \<open>simp_all add: recheck_Some\<close>)
    with only_verdicts_trans[OF mark_only_verdicts] show ?thesis by blast
  qed
qed

lemma reverify_pending_ok:
  assumes "votes_ok X s" "reverify_pending X s i = Some t"
  shows "votes_ok X t \<and> only_verdicts i s t"
proof (cases "bt_get (gv_pending_sigs s) i")
  case None
  then show ?thesis using assms by (simp add: reverify_pending_def only_verdicts_refl)
next
  case (Some p)
  have "fold (recheck X i (pend_height p))
      (filter (\<lambda>a. at_member a \<notin> set (pend_verified p)) (pend_sigs p)) (Some s) = Some t"
    using assms(2) Some unfolding reverify_pending_def recheck_def[abs_def] by simp
  then show ?thesis by (rule recheck_fold[OF assms(1) Some, rotated]) auto
qed

section \<open>Declines and withdrawals\<close>

lemma retract_vote_ballot [simp]: "ballot_kept s (retract_vote i m t) = ballot_kept s t"
  by (simp add: retract_vote_def Let_def)

lemma retract_vote_get:
  "bt_get (gv_pending_sigs (retract_vote i m s)) j =
     (if j = i then map_option (\<lambda>p. p\<lparr>pend_sigs := filter (\<lambda>a. at_member a \<noteq> m) (pend_sigs p),
        pend_verified := filter (\<lambda>k. k \<noteq> m) (pend_verified p)\<rparr>) (bt_get (gv_pending_sigs s) i)
      else bt_get (gv_pending_sigs s) j)"
  by (simp add: retract_vote_def Let_def)

lemma retract_vote_simps [simp]:
  "gv_proposals (retract_vote i m s) = gv_proposals s" "gv_head (retract_vote i m s) = gv_head s"
  "gv_replica (retract_vote i m s) = gv_replica s"
  "bt_wf (gv_pending_sigs s) \<Longrightarrow> bt_wf (gv_pending_sigs (retract_vote i m s))"
  by (simp_all add: retract_vote_def Let_def upd_pending_wf)

lemma retract_vote_ok:
  assumes ok: "votes_ok X s"
  shows "votes_ok X (retract_vote i m s)"
proof (rule votes_ok_entry[OF ok, of _ i])
  fix q assume "\<not> terminal_card (retract_vote i m s) i"
    and q: "bt_get (gv_pending_sigs (retract_vote i m s)) i = Some q"
  then have nt: "\<not> terminal_card s i" by (simp add: terminal_card_def)
  obtain p where p: "bt_get (gv_pending_sigs s) i = Some p"
    and q': "q = p\<lparr>pend_sigs := filter (\<lambda>a. at_member a \<noteq> m) (pend_sigs p),
        pend_verified := filter (\<lambda>k. k \<noteq> m) (pend_verified p)\<rparr>"
    using q by (auto simp: retract_vote_get)
  from votes_ok_entryD[OF ok p nt] pend_ok_retract[of p m] show "entry_ok X s i q"
    unfolding q' entry_ok_def genuine_def by (auto simp: image_subset_iff)
qed (use ok in \<open>simp_all add: retract_vote_get votes_ok_def\<close>)

lemma park_decline_simps:
  assumes "park_decline s i m ts hash = (s', out)"
  shows "ballot_kept s s'" "gv_pending_sigs s' = gv_pending_sigs s" "gv_proposals s' = gv_proposals s"
    "gv_head s' = gv_head s" "gv_own_approvals s' = gv_own_approvals s"
  using assms by (auto simp: park_decline_def Let_def bump_next_id_def split: if_splits)

lemma register_decline_cases:
  assumes "register_decline X s i m ts hash = (s', out)"
  obtains (park) "bt_get (gv_proposals s) i = None" "park_decline s i m ts hash = (s', out)"
  | (known) "s' = s" "out = Known"
  | (voice) p where "bt_get (gv_proposals s) i = Some p" "pr_state p = StProposed" "m \<notin> set (pr_decliners p)"
      "length (pr_decliners p) < veto_room s i" "out = Voice"
      "s' = upd_card i (\<lambda>q. q\<lparr>pr_decliners := pr_decliners p @ [m]\<rparr>) (retract_vote i m s)"
  | (rejected) p where "bt_get (gv_proposals s) i = Some p" "pr_state p = StProposed" "m \<notin> set (pr_decliners p)"
      "veto_room s i \<le> length (pr_decliners p)" "out = VoteRejected"
      "s' = stash_voted i (upd_card i (\<lambda>q. q\<lparr>pr_decliners := pr_decliners p @ [m], pr_state := StRejected,
         pr_declined_at := ts, pr_declined_by := m\<rparr>) (retract_vote i m s))"
proof (cases "bt_get (gv_proposals s) i")
  case None
  with assms show thesis by (intro that(1)) (auto simp: register_decline_def)
next
  case p: (Some p)
  show thesis
  proof (cases "(hash \<noteq> [] \<and> decline_payload_hash X (pr_payload p) \<noteq> hash) \<or>
      pr_state p \<noteq> StProposed \<or> m \<in> set (pr_decliners p)")
    case True
    with assms p show thesis by (intro that(2)) (auto simp: register_decline_def split: if_splits)
  next
    case False
    show thesis
    proof (cases "length (pr_decliners p) < veto_room s i")
      case True
      with False assms p show thesis
        by (intro that(3)[OF p]) (auto simp: register_decline_def Let_def)
    next
      case nr: False
      with False assms p show thesis
        by (intro that(4)[OF p]) (auto simp: register_decline_def Let_def)
    qed
  qed
qed

lemma register_decline_ok:
  assumes ok: "votes_ok X s" and res: "register_decline X s i m ts hash = (s', out)"
  shows "votes_ok X s' \<and> ballot_kept s s'"
  using res
proof (cases rule: register_decline_cases)
  case park
  note ps = park_decline_simps[OF park(2)]
  show ?thesis using votes_ok_same_pending[OF ok ps(1,2)] ps(1) by simp
next
  case known
  then show ?thesis using ok by simp
next
  case (voice p)
  let ?f = "\<lambda>q. q\<lparr>pr_decliners := pr_decliners p @ [m]\<rparr>"
  have b: "ballot_kept (retract_vote i m s) (upd_card i ?f (retract_vote i m s))"
    by (rule upd_card_ballot) simp
  show ?thesis
    using votes_ok_same_pending[OF retract_vote_ok[OF ok, of i m] b] ballot_kept_trans[OF _ b, of s]
    by (simp add: voice(6))
next
  case (rejected p)
  let ?f = "\<lambda>q. q\<lparr>pr_decliners := pr_decliners p @ [m], pr_state := StRejected,
         pr_declined_at := ts, pr_declined_by := m\<rparr>"
  let ?t = "upd_card i ?f (retract_vote i m s)"
  have b: "ballot_kept (retract_vote i m s) ?t" by (rule upd_card_ballot) simp
  then have b': "ballot_kept (retract_vote i m s) (stash_voted i ?t)" by simp
  show ?thesis
    using votes_ok_same_pending[OF retract_vote_ok[OF ok, of i m] b'] ballot_kept_trans[OF _ b', of s]
    by (simp add: rejected(6))
qed

lemma register_withdraw_cases:
  assumes "register_withdraw s i m ts = (s', out)"
  obtains (park) "bt_get (gv_proposals s) i = None" "ballot_kept s s'" "gv_pending_sigs s' = gv_pending_sigs s"
      "gv_proposals s' = gv_proposals s" "gv_own_approvals s' = gv_own_approvals s" "out \<noteq> Withdrawn"
  | (ignored) "s' = s" "out = Ignored"
  | (withdrawn) p where "bt_get (gv_proposals s) i = Some p" "pr_state p = StProposed" "out = Withdrawn"
      "(case minting_seat s i of Some k \<Rightarrow> k | None \<Rightarrow> pr_by p) = m"
      "s' = (stash_voted i (upd_card i (\<lambda>q. q\<lparr>pr_state := StRejected, pr_withdrawn := True, pr_declined_at := ts\<rparr>) s))
         \<lparr>gv_pending_sigs := bt_remove i (gv_pending_sigs s),
          gv_own_approvals := filter (\<lambda>j. j \<noteq> i) (gv_own_approvals s),
          gv_pending_declines := bt_remove i (gv_pending_declines s)\<rparr>"
proof (cases "bt_get (gv_proposals s) i")
  case None
  with assms show thesis
    by (intro that(1)) (auto simp: register_withdraw_def Let_def bump_next_id_def split: if_splits)
next
  case p: (Some p)
  show thesis
  proof (cases "pr_state p = StProposed \<and> (case minting_seat s i of Some k \<Rightarrow> k | None \<Rightarrow> pr_by p) = m")
    case False
    with assms p show thesis
      by (intro that(2)) (auto simp: register_withdraw_def Let_def split: if_splits)
  next
    case True
    with assms p show thesis by (intro that(3)[OF p]) (auto simp: register_withdraw_def Let_def)
  qed
qed

lemma register_withdraw_ok:
  assumes ok: "votes_ok X s" and res: "register_withdraw s i m ts = (s', out)"
  shows "votes_ok X s' \<and> ballot_kept s s'"
  using res
proof (cases rule: register_withdraw_cases)
  case park
  then show ?thesis using votes_ok_same_pending[OF ok] by simp
next
  case ignored
  then show ?thesis using ok by simp
next
  case (withdrawn p)
  let ?f = "\<lambda>q. q\<lparr>pr_state := StRejected, pr_withdrawn := True, pr_declined_at := ts\<rparr>"
  have "ballot_kept s (upd_card i ?f s)" by (rule upd_card_ballot) simp
  then have b: "ballot_kept s s'" by (simp add: withdrawn(5))
  have "votes_ok X s'"
    by (rule votes_ok_entry[OF ok b, of i])
      (use ok in \<open>simp_all add: withdrawn(5) bt_get_remove votes_ok_def\<close>)
  with b show ?thesis by simp
qed

section \<open>Proposals\<close>

text \<open>
  A card that is new gives its id a change where there was none, and nothing else: verdicts of
  a collection that outran the card are still absent.
\<close>

text \<open>The card of a Memory proposal is judged against the wiki at once.\<close>

definition card_judged :: "extern \<Rightarrow> gov_state \<Rightarrow> gov_state \<Rightarrow> bool" where
  "card_judged X t0 t1 \<longleftrightarrow> t1 = t0 \<or> supersede_stale_wiki X None t0 = Some t1"

lemma walk_frame_simps:
  assumes "walk_frame s u"
  shows "gv_head u = gv_head s" "gv_replica u = gv_replica s" "gv_config_member u = gv_config_member s"
    "gv_config_members u = gv_config_members s" "gv_pending_sigs u = gv_pending_sigs s"
    "gv_proposal_changes u = gv_proposal_changes s" "gv_next_id u = gv_next_id s"
    "gv_own_approvals u = gv_own_approvals s" "gv_pending_declines u = gv_pending_declines s"
  using assms by (auto simp: walk_frame_def)

lemma cards_kept_ballot:
  assumes fr: "walk_frame s u" and cards: "cards_kept C s u"
  shows "ballot_kept s u"
proof -
  have "proposal_change u j = proposal_change s j \<and> (terminal_card s j \<longrightarrow> terminal_card u j)" for j
  proof (cases "bt_get (gv_proposals s) j")
    case None
    then have "bt_get (gv_proposals u) j = None"
      using cards[unfolded cards_kept_def, rule_format, of j] by simp
    then show ?thesis using None walk_frame_simps(6)[OF fr]
      by (simp add: proposal_change_def terminal_card_def cong: option.case_cong)
  next
    case (Some p)
    then obtain q where "bt_get (gv_proposals u) j = Some q" "card_kept (j \<notin> C) p q"
      using cards[unfolded cards_kept_def, rule_format, of j] by (auto simp: option_rel_Some1)
    then show ?thesis using Some walk_frame_simps(6)[OF fr]
      by (simp add: proposal_change_def terminal_card_def card_kept_def cong: option.case_cong)
  qed
  then show ?thesis using walk_frame_simps(1-4)[OF fr] by (simp add: ballot_kept_def)
qed

lemma card_judged_facts:
  assumes "card_judged X s u"
  shows "ballot_kept s u" "walk_frame s u"
  using assms supersede_walk_frame[of X None s u] supersede_cards_kept[of X None s u] cards_kept_ballot
  by (auto simp: card_judged_def walk_frame_refl)

lemma receive_proposed_cases:
  assumes "receive_proposed X ga s i sf payload m = Some (s', fresh)"
  obtains (old) "ballot_kept s s'" "gv_pending_sigs s' = gv_pending_sigs s" "gv_proposals s' = gv_proposals s"
      "gv_own_approvals s' = gv_own_approvals s" "\<not> fresh"
  | (new) n u where "bt_get (gv_proposals s) i = None" "bt_get (gv_proposal_changes s) i = None" "fresh"
      "sf \<noteq> Vault \<Longrightarrow> card_judged X (s\<lparr>gv_next_id := n,
          gv_proposals := bt_insert i (fresh_record sf payload StProposed m) (gv_proposals s)\<rparr>) u"
      "reverify_pending X u i = Some s'"
proof (cases "proposed_refused ga s i sf payload m")
  case True
  with assms show thesis by (intro that(1)) (auto simp: receive_proposed_def)
next
  case nr: False
  let ?s1 = "bump_next_id i s"
  show thesis
  proof (cases "bt_contains (gv_proposal_changes ?s1) i \<or> i \<in> set (gov_seen ?s1) \<or> bt_get (gv_proposals s) i \<noteq> None")
    case True
    with assms nr show thesis
      by (intro that(1))
        (auto simp: receive_proposed_def Let_def bump_next_id_def note_collision_def split: if_splits option.splits)
  next
    case False
    let ?n = "max (gv_next_id s) (u64_sat_add i 1)"
    let ?t = "s\<lparr>gv_next_id := ?n, gv_proposals := bt_insert i (fresh_record sf payload StProposed m) (gv_proposals s)\<rparr>"
    let ?h = "if sf = Vault then ga_after_vault ga i ?t else ?t"
    have "Option.bind (if sf = Memory then supersede_stale_wiki X None ?h else Some ?h) (\<lambda>u.
        map_option (\<lambda>t. (t, True)) (reverify_pending X u i)) = Some (s', fresh)"
      using assms nr False by (auto simp: receive_proposed_def Let_def bump_next_id_def bt_contains_def)
    then obtain u where u: "(if sf = Memory then supersede_stale_wiki X None ?h else Some ?h) = Some u"
      "reverify_pending X u i = Some s'" "fresh" by (auto simp: bind_eq_Some_conv)
    have "sf \<noteq> Vault \<Longrightarrow> card_judged X ?t u" using u(1) by (auto simp: card_judged_def split: if_splits)
    then show thesis using False u(2,3) by (intro that(2)) (auto simp: bump_next_id_def bt_contains_def)
  qed
qed

lemma new_card_votes_ok:
  assumes ok: "votes_ok X s" and none: "bt_get (gv_proposals s) i = None" "bt_get (gv_proposal_changes s) i = None"
  shows "votes_ok X (s\<lparr>gv_next_id := n, gv_proposals := bt_insert i (fresh_record sf payload StProposed m) (gv_proposals s)\<rparr>)"
    (is "votes_ok X ?t")
proof -
  have nc: "proposal_change s i = None" using none by (simp add: proposal_change_def)
  have eq: "proposal_change ?t j = proposal_change s j" if "j \<noteq> i" for j
    using that by (simp add: proposal_change_def bt_get_insert cong: option.case_cong)
  have dec: "terminal_card ?t j = terminal_card s j" for j
    using none by (auto simp: terminal_card_def bt_get_insert fresh_record_def)
  have rid: "gov_republic_id ?t = gov_republic_id s" by (simp add: gov_republic_id_def)
  have hd: "gv_head ?t = gv_head s" by simp
  have ver: "approval_verifies X ?t j h k g = approval_verifies X s j h k g" if "j \<noteq> i" for j h k g
    unfolding approval_verifies_def eq[OF that] rid hd ..
  have nov: "approval_verifies X s i h k g \<noteq> Some True" for h k g
    by (auto simp: approval_verifies_def nc bind_eq_Some_conv split: option.splits if_splits)
  have "genuine X ?t j p" if "genuine X s j p" "pend_ok p" for j p
  proof (cases "j = i")
    case True
    have "\<not> (a \<in> set (pend_sigs p) \<and> at_member a \<in> set (pend_verified p))"
      if "gv_head s = Some h" "target_of h = Some (pend_height p)" for h a
      using \<open>genuine X s j p\<close> that nov True unfolding genuine_def by blast
    then show ?thesis unfolding genuine_def hd by blast
  next
    case False
    then show ?thesis using that by (simp add: genuine_def ver)
  qed
  then show ?thesis using ok by (simp add: votes_ok_def dec)
qed

lemma judged_card_votes_ok:
  assumes "votes_ok X s" "bt_get (gv_proposals s) i = None" "bt_get (gv_proposal_changes s) i = None"
    and "card_judged X (s\<lparr>gv_next_id := n, gv_proposals := bt_insert i (fresh_record sf payload StProposed m) (gv_proposals s)\<rparr>) u"
  shows "votes_ok X u"
  using votes_ok_same_pending[OF new_card_votes_ok[OF assms(1-3)] card_judged_facts(1)[OF assms(4)]]
    walk_frame_simps(5)[OF card_judged_facts(2)[OF assms(4)]] by simp

lemma receive_proposed_ok:
  assumes ok: "votes_ok X s" and res: "receive_proposed X ga s i sf payload m = Some (s', fresh)" and nv: "sf \<noteq> Vault"
  shows "votes_ok X s'"
  using res
proof (cases rule: receive_proposed_cases)
  case old
  then show ?thesis using votes_ok_same_pending[OF ok] by simp
next
  case (new n u)
  from reverify_pending_ok[OF judged_card_votes_ok[OF ok new(1,2) new(4)[OF nv]] new(5)] show ?thesis by simp
qed

section \<open>The event system\<close>

datatype gov_event =
    EvApproved u64 string u64 string
  | EvProposed u64 surface json string
  | EvDeclined u64 string u64 string
  | EvWithdrawn u64 string u64
  | EvSign u64

fun gov_step :: "extern \<Rightarrow> gates \<Rightarrow> gov_state \<Rightarrow> gov_event \<Rightarrow> (gov_state \<times> chain_block option) option" where
  "gov_step X ga s (EvApproved i m height g) =
     map_option (\<lambda>(t, _, b). (t, b)) (receive_approval X s i m height g)"
| "gov_step X ga s (EvProposed i sf payload m) =
     map_option (\<lambda>(t, _). (t, None)) (receive_proposed X ga s i sf payload m)"
| "gov_step X ga s (EvDeclined i m ts hash) = Some (fst (register_decline X s i m ts hash), None)"
| "gov_step X ga s (EvWithdrawn i m ts) = Some (fst (register_withdraw s i m ts), None)"
| "gov_step X ga s (EvSign i) = map_option (\<lambda>(t, _, b). (t, b)) (sign_approval X ga s i)"

text \<open>
  A proposal of the vault surface runs the vault's own hook, which this model takes as an
  argument: the laws are about the other events.
\<close>

fun quiet :: "gov_event \<Rightarrow> bool" where
  "quiet (EvProposed i sf payload m) \<longleftrightarrow> sf \<noteq> Vault"
| "quiet _ \<longleftrightarrow> True"

text \<open>
  A stream of votes between two blocks: it ends with the first block it seals. Adopting that block, or one
  received from a peer, moves the head and drops the collections of the old height; that is the
  business of \<open>adopt_committed\<close> and \<open>rebase_pending_approvals\<close>, not of this run.
\<close>

fun gov_run :: "extern \<Rightarrow> gates \<Rightarrow> gov_state \<Rightarrow> gov_event list \<Rightarrow> (gov_state \<times> chain_block option) option" where
  "gov_run X ga s [] = Some (s, None)"
| "gov_run X ga s (e # es) =
     (case gov_step X ga s e of
        None \<Rightarrow> None
      | Some (t, Some b) \<Rightarrow> Some (t, Some b)
      | Some (t, None) \<Rightarrow> gov_run X ga t es)"

text \<open>No event moves the head, changes who this node is or reopens a decided card.\<close>

definition seat_kept :: "gov_state \<Rightarrow> gov_state \<Rightarrow> bool" where
  "seat_kept s t \<longleftrightarrow> gv_head t = gv_head s \<and> gv_replica t = gv_replica s \<and>
     gv_config_member t = gv_config_member s \<and> (\<forall>i. terminal_card s i \<longrightarrow> terminal_card t i)"

lemma ballot_seat: "ballot_kept s t \<Longrightarrow> seat_kept s t"
  by (simp add: ballot_kept_def seat_kept_def)

lemma seat_kept_refl [simp]: "seat_kept s s"
  by (simp add: seat_kept_def)

lemma seat_kept_trans: "seat_kept s t \<Longrightarrow> seat_kept t u \<Longrightarrow> seat_kept s u"
  by (simp add: seat_kept_def)

lemma seat_kept_member: "seat_kept s t \<Longrightarrow> gov_member t = gov_member s"
  by (cases "gv_replica s") (simp_all add: seat_kept_def gov_member_def)

lemma seat_kept_own_key:
  assumes "seat_kept s t"
  shows "own_key X ga t = own_key X ga s"
  using assms by (simp add: own_key_def seat_kept_member) (simp add: seat_kept_def)

lemma receive_proposed_seat:
  assumes "votes_ok X s" "receive_proposed X ga s i sf payload m = Some (s', fresh)" "sf \<noteq> Vault"
  shows "seat_kept s s'"
  using assms(2)
proof (cases rule: receive_proposed_cases)
  case old
  then show ?thesis by (simp add: ballot_seat)
next
  case (new n u)
  let ?t = "s\<lparr>gv_next_id := n, gv_proposals := bt_insert i (fresh_record sf payload StProposed m) (gv_proposals s)\<rparr>"
  have "seat_kept s ?t"
    using new(1) by (auto simp: seat_kept_def terminal_card_def bt_get_insert)
  moreover have "ballot_kept ?t s'"
    using ballot_kept_trans[OF card_judged_facts(1)[OF new(4)[OF assms(3)]]]
      reverify_pending_ok[OF judged_card_votes_ok[OF assms(1) new(1,2) new(4)[OF assms(3)]] new(5)]
    by (simp add: only_verdicts_def)
  ultimately show ?thesis using ballot_seat seat_kept_trans by blast
qed

lemma gov_step_ok:
  assumes ok: "votes_ok X s" and key: "own_key X ga s" and q: "quiet e" and res: "gov_step X ga s e = Some (t, b)"
  shows "votes_ok X t" and "seat_kept s t"
proof (atomize(full), cases e)
  case (EvApproved i m height g)
  with res obtain d where r: "receive_approval X s i m height g = Some (t, d, b)" by auto
  have "ballot_kept s t" using receive_approval_land[OF r] by auto
  with receive_approval_votes_ok[OF ok r] show "votes_ok X t \<and> seat_kept s t" by (simp add: ballot_seat)
next
  case (EvProposed i sf payload m)
  with res obtain f where r: "receive_proposed X ga s i sf payload m = Some (t, f)" by auto
  have nv: "sf \<noteq> Vault" using q EvProposed by simp
  from receive_proposed_ok[OF ok r nv] receive_proposed_seat[OF ok r nv] show "votes_ok X t \<and> seat_kept s t" ..
next
  case (EvDeclined i m ts hash)
  then have t: "register_decline X s i m ts hash = (t, snd (register_decline X s i m ts hash))"
    using res by auto
  from register_decline_ok[OF ok t] show "votes_ok X t \<and> seat_kept s t" by (simp add: ballot_seat)
next
  case (EvWithdrawn i m ts)
  then have t: "register_withdraw s i m ts = (t, snd (register_withdraw s i m ts))" using res by auto
  from register_withdraw_ok[OF ok t] show "votes_ok X t \<and> seat_kept s t" by (simp add: ballot_seat)
next
  case (EvSign i)
  with res obtain ev where r: "sign_approval X ga s i = Some (t, ev, b)" by auto
  have "ballot_kept s t" using sign_approval_land[OF r] by auto
  with sign_approval_votes_ok[OF ok key r] show "votes_ok X t \<and> seat_kept s t" by (simp add: ballot_seat)
qed

lemma gov_run_invariant:
  assumes "gov_run X ga s es = Some (t, b)" "votes_ok X s" "own_key X ga s" "list_all quiet es" "I s"
    and "\<And>s e t b. e \<in> set es \<Longrightarrow> votes_ok X s \<Longrightarrow> own_key X ga s \<Longrightarrow> I s \<Longrightarrow>
       gov_step X ga s e = Some (t, b) \<Longrightarrow> I t"
  shows "votes_ok X t \<and> own_key X ga t \<and> I t"
  using assms
proof (induction es arbitrary: s)
  case Nil
  then show ?case by simp
next
  case (Cons e es)
  from Cons.prems(1) obtain u c where u: "gov_step X ga s e = Some (u, c)"
    by (auto split: option.splits)
  have q: "quiet e" "list_all quiet es" using Cons.prems(4) by simp_all
  note st = gov_step_ok[OF Cons.prems(2,3) q(1) u]
  have Iu: "I u" by (rule Cons.prems(6)[OF _ Cons.prems(2,3,5) u]) simp
  have key: "own_key X ga u" using Cons.prems(3) seat_kept_own_key[OF st(2)] by simp
  show ?case
  proof (cases c)
    case (Some c')
    then show ?thesis using Cons.prems(1) u st(1) key Iu by auto
  next
    case None
    then have "gov_run X ga u es = Some (t, b)" using Cons.prems(1) u by simp
    from Cons.IH[OF this st(1) key q(2) Iu] Cons.prems(6) show ?thesis by (metis list.set_intros(2))
  qed
qed

lemma gov_run_seat:
  assumes "gov_run X ga s es = Some (t, b)" "votes_ok X s" "own_key X ga s" "list_all quiet es"
  shows "seat_kept s t"
proof -
  have "votes_ok X t \<and> own_key X ga t \<and> seat_kept s t"
    by (rule gov_run_invariant[OF assms])
      (use assms(4) gov_step_ok(2) seat_kept_trans in \<open>auto simp: list_all_iff\<close>)
  then show ?thesis by blast
qed

section \<open>What the wire cannot undo\<close>

text \<open>A verified vote at the live target.\<close>

definition stands :: "gov_state \<Rightarrow> u64 \<Rightarrow> string \<Rightarrow> bool" where
  "stands s i m \<longleftrightarrow>
     (\<exists>h p. gv_head s = Some h \<and> bt_get (gv_pending_sigs s) i = Some p \<and>
        target_of h = Some (pend_height p) \<and> m \<in> set (pend_verified p))"

lemma ballot_head: "ballot_kept s t \<Longrightarrow> gv_head t = gv_head s"
  by (simp add: ballot_kept_def)

lemma land_stands:
  assumes ok: "votes_ok X s" and st: "stands s i m" and nt: "\<not> terminal_card s i"
    and ver: "v \<Longrightarrow> approval_verifies X s j height k g = Some True"
    and low: "\<And>h t. gv_head s = Some h \<Longrightarrow> target_of h = Some t \<Longrightarrow> height \<le> t"
  shows "stands (land s j height k g v) i m"
proof -
  obtain h p where p: "gv_head s = Some h" "bt_get (gv_pending_sigs s) i = Some p"
    "target_of h = Some (pend_height p)" "m \<in> set (pend_verified p)"
    using st by (auto simp: stands_def)
  have hd: "gv_head (land s j height k g v) = Some h"
    using ballot_head[of s "land s j height k g v"] p(1) by simp
  show ?thesis
  proof (cases "j = i \<and> rostered s k \<and> (v \<or> k \<noteq> gov_member s)")
    case False
    have "bt_get (gv_pending_sigs (land s j height k g v)) i = bt_get (gv_pending_sigs s) i"
    proof (cases "j = i")
      case True
      have "\<not> v" using False True verifies_rostered[OF ver] by auto
      then show ?thesis using False True land_ignored[of s j k v] by auto
    qed (simp add: land_other)
    then show ?thesis using p hd by (auto simp: stands_def)
  next
    case True
    then have g: "bt_get (gv_pending_sigs (land s j height k g v)) i = Some (landed p height k g v)"
      using land_entry[of s i k v height g] nt p(2) by (auto simp: held_entry_def)
    have le: "height \<le> pend_height p" by (rule low[OF p(1,3)])
    have vh: "v \<longrightarrow> pend_height p \<le> height"
      using verifies_rostered[OF ver] p(1,3) by auto
    have "pend_height (landed p height k g v) = pend_height p \<and> m \<in> set (pend_verified (landed p height k g v))"
    proof (cases "height < pend_height p")
      case True
      then show ?thesis using vh p(4) by (auto simp: landed_def collect_entry_def Let_def)
    next
      case False
      then have e: "height = pend_height p" using le by simp
      show ?thesis
      proof (cases "\<not> v \<and> k \<in> set (pend_verified p)")
        case True
        then show ?thesis using e p(4) by (simp add: landed_def collect_entry_def)
      next
        case False
        then show ?thesis using e p(4) by (auto simp: landed_def collect_entry_def Let_def)
      qed
    qed
    then show ?thesis using g hd p(3) by (auto simp: stands_def)
  qed
qed

lemma only_verdicts_stands:
  assumes ov: "only_verdicts i s t" and st: "stands s j m"
  shows "stands t j m"
proof -
  obtain h p where p: "gv_head s = Some h" "bt_get (gv_pending_sigs s) j = Some p"
    "target_of h = Some (pend_height p)" "m \<in> set (pend_verified p)"
    using st by (auto simp: stands_def)
  have "ballot_kept s t" using ov by (simp add: only_verdicts_def)
  then have hd: "gv_head t = Some h" using p(1) ballot_head by metis
  show ?thesis
  proof (cases "j = i")
    case True
    then obtain q where "bt_get (gv_pending_sigs t) j = Some q" "pend_height q = pend_height p"
      "set (pend_verified p) \<subseteq> set (pend_verified q)"
      using ov p(2) by (auto simp: only_verdicts_def)
    then show ?thesis using hd p(3,4) by (auto simp: stands_def)
  next
    case False
    then have "bt_get (gv_pending_sigs t) j = Some p" using ov p(2) by (auto simp: only_verdicts_def)
    then show ?thesis using hd p(3,4) by (auto simp: stands_def)
  qed
qed

lemma decline_stands:
  assumes st: "stands s i m" and res: "register_decline X s j k ts hash = (t, out)"
    and live: "\<not> terminal_card t i" and other: "\<not> (j = i \<and> k = m)"
  shows "stands t i m"
  using res
proof (cases rule: register_decline_cases)
  case park
  from park_decline_simps[OF park(2)] st show ?thesis by (simp add: stands_def)
next
  case known
  then show ?thesis using st by simp
next
  case (voice p)
  then show ?thesis using st other by (auto simp: stands_def retract_vote_get)
next
  case (rejected p)
  have "j \<noteq> i"
    using live rejected(1) by (auto simp: rejected(6) terminal_card_def stash_voted_def Let_def)
  then show ?thesis using st by (auto simp: rejected(6) stands_def retract_vote_get)
qed

lemma withdraw_stands:
  assumes st: "stands s i m" and res: "register_withdraw s j k ts = (t, out)"
    and live: "\<not> terminal_card t i"
  shows "stands t i m"
  using res
proof (cases rule: register_withdraw_cases)
  case park
  then show ?thesis using st by (auto simp: stands_def ballot_kept_def)
next
  case ignored
  then show ?thesis using st by simp
next
  case (withdrawn p)
  have "j \<noteq> i"
    using live withdrawn(1) by (auto simp: withdrawn(5) terminal_card_def stash_voted_def Let_def)
  then show ?thesis using st by (auto simp: withdrawn(5) stands_def bt_get_remove)
qed

lemma gov_step_stands:
  assumes ok: "votes_ok X s" and key: "own_key X ga s" and q: "quiet e" and st: "stands s i m"
    and res: "gov_step X ga s e = Some (t, b)" and live: "\<not> terminal_card t i"
    and other: "\<And>ts hash. e \<noteq> EvDeclined i m ts hash"
  shows "stands t i m"
proof -
  have nt: "\<not> terminal_card s i"
    using gov_step_ok(2)[OF ok key q res] live by (auto simp: seat_kept_def)
  have held: "stands (u\<lparr>gv_seal_held := q\<rparr>) i m" if "stands u i m" for u q
    using that by (simp add: stands_def)
  show ?thesis
  proof (cases e)
    case (EvApproved j k height g)
    with res obtain d where r: "receive_approval X s j k height g = Some (t, d, b)" by auto
    from receive_approval_land[OF r] show ?thesis
      using st held land_stands[OF ok st nt] by (metis (full_types))
  next
    case (EvProposed j sf payload k)
    with res obtain f where r: "receive_proposed X ga s j sf payload k = Some (t, f)" by auto
    then show ?thesis
    proof (cases rule: receive_proposed_cases)
      case old
      then show ?thesis using st by (auto simp: stands_def ballot_kept_def)
    next
      case (new n u)
      have nv: "sf \<noteq> Vault" using q EvProposed by simp
      have "stands u i m"
        using st walk_frame_simps(1,5)[OF card_judged_facts(2)[OF new(4)[OF nv]]] by (simp add: stands_def)
      moreover have "only_verdicts j u t"
        using reverify_pending_ok[OF judged_card_votes_ok[OF ok new(1,2) new(4)[OF nv]] new(5)] ..
      ultimately show ?thesis by (rule only_verdicts_stands[rotated])
    qed
  next
    case (EvDeclined j k ts hash)
    then have "register_decline X s j k ts hash = (t, snd (register_decline X s j k ts hash))"
      using res by auto
    from decline_stands[OF st this live] other EvDeclined show ?thesis by auto
  next
    case (EvWithdrawn j k ts)
    then have "register_withdraw s j k ts = (t, snd (register_withdraw s j k ts))" using res by auto
    from withdraw_stands[OF st this live] show ?thesis .
  next
    case (EvSign j)
    with res obtain ev where r: "sign_approval X ga s j = Some (t, ev, b)" by auto
    from sign_approval_land[OF r] show ?thesis
    proof (elim disjE exE conjE)
      fix h height change msg sign hl s1
      assume h: "gv_head s = Some h" "target_of h = Some height" "proposal_change s j = Some change"
        "ga_sign ga = Some sign" "approval_bytes X (gov_republic_id s) height change = Some msg"
        and s1: "s1 = land (s\<lparr>gv_own_approvals := bset_insert j (gv_own_approvals s)\<rparr>) j height (gov_member s) (sign msg) True"
        and t: "t = s1\<lparr>gv_seal_held := hl\<rparr>"
      let ?s0 = "s\<lparr>gv_own_approvals := bset_insert j (gv_own_approvals s)\<rparr>"
      have kept: "ballot_kept s ?s0" by simp
      have ok0: "votes_ok X ?s0" by (rule votes_ok_same_pending[OF ok kept]) simp
      have "approval_verifies X s j height (gov_member s) (sign msg) = Some True"
        using h key by (auto simp: approval_verifies_def own_key_def list_ex_iff)
      then have v: "approval_verifies X ?s0 j height (gov_member s) (sign msg) = Some True"
        by (simp only: ballot_kept_verifies[OF kept])
      have "stands s1 i m"
        unfolding s1
        by (rule land_stands[OF ok0]) (use st nt v h in \<open>simp_all add: stands_def terminal_card_def\<close>)
      then show ?thesis by (simp add: t held)
    qed (use st in simp)
  qed
qed

lemma gov_run_stands:
  assumes "gov_run X ga s es = Some (t, b)" "votes_ok X s" "own_key X ga s" "stands s i m" "list_all quiet es"
    and "\<not> terminal_card t i" "\<And>ts hash. EvDeclined i m ts hash \<notin> set es"
  shows "stands t i m"
  using assms
proof (induction es arbitrary: s)
  case Nil
  then show ?case by simp
next
  case (Cons e es)
  from Cons.prems(1) obtain u c where u: "gov_step X ga s e = Some (u, c)"
    by (auto split: option.splits)
  have q: "quiet e" "list_all quiet es" using Cons.prems(5) by simp_all
  note st = gov_step_ok[OF Cons.prems(2,3) q(1) u]
  have key: "own_key X ga u" using Cons.prems(3) seat_kept_own_key[OF st(2)] by simp
  have other: "\<And>ts hash. e \<noteq> EvDeclined i m ts hash" using Cons.prems(7) by auto
  show ?case
  proof (cases c)
    case (Some c')
    then have "t = u" using Cons.prems(1) u by simp
    then show ?thesis using gov_step_stands[OF Cons.prems(2,3) q(1) Cons.prems(4) u _ other] Cons.prems(6) by simp
  next
    case None
    then have r: "gov_run X ga u es = Some (t, b)" using Cons.prems(1) u by simp
    have "\<not> terminal_card u i"
      using gov_run_seat[OF r st(1) key q(2)] Cons.prems(6) by (auto simp: seat_kept_def)
    from gov_step_stands[OF Cons.prems(2,3) q(1) Cons.prems(4) u this other]
    show ?thesis using Cons.IH[OF r st(1) key] q(2) Cons.prems(6,7) by simp
  qed
qed

end
