(* ===== verification/Gov_Seal.thy ===== *)
theory Gov_Seal
  imports Gov_Wire
begin

text \<open>
  The sealer against the verifier: the block \<open>try_commit\<close> seals carries only signatures the
  verifier of \<open>Chain_Verify\<close> counts, and enough of them; it depends on the set of valid votes,
  not on the order they arrived in; and it is sealed as soon as enough verified votes stand.
\<close>

section \<open>Sorting and deduplication by member\<close>

lemma dedup_by_key_set: "set (dedup_by_key f xs) \<subseteq> set xs"
  by (induction f xs rule: dedup_by_key.induct) auto

lemma dedup_by_key_keys: "f ` set (dedup_by_key f xs) = f ` set xs"
  by (induction f xs rule: dedup_by_key.induct) auto

lemma dedup_by_key_sorted:
  "sorted (map f xs) \<Longrightarrow> sorted_wrt (<) (map f (dedup_by_key f xs))"
proof (induction f xs rule: dedup_by_key.induct)
  case (1 f x y zs)
  show ?case
  proof (cases "f x = f y")
    case True
    then show ?thesis using 1 by simp
  next
    case False
    then have lt: "f x < f y" using 1(3) by (auto simp: less_le)
    have "f x < v" if "v \<in> f ` set (dedup_by_key f (y # zs))" for v
      using that 1(3) lt by (auto simp: dedup_by_key_keys)
    then show ?thesis using False 1 by auto
  qed
qed auto

lemma dedup_by_key_distinct: "distinct (map f xs) \<Longrightarrow> dedup_by_key f xs = xs"
  by (induction f xs rule: dedup_by_key.induct) auto

lemma sort_key_same_set:
  fixes f :: "'a \<Rightarrow> 'b::linorder"
  assumes "distinct (map f xs)" "distinct (map f ys)" "set xs = set ys"
  shows "sort_key f xs = sort_key f ys"
proof (rule map_sorted_distinct_set_unique[of f])
  show "inj_on f (set (sort_key f xs) \<union> set (sort_key f ys))"
    using assms by (simp add: distinct_map)
qed (use assms in \<open>simp_all add: distinct_map\<close>)

section \<open>The votes that count\<close>

definition counts :: "extern \<Rightarrow> chain_head \<Rightarrow> bytes \<Rightarrow> string list \<Rightarrow> roster_attestation \<Rightarrow> bool" where
  "counts X h msg decliners a \<longleftrightarrow> at_member a \<notin> set decliners \<and>
     list_ex (\<lambda>k. mi_member k = at_member a \<and> identity_verify X (mi_identity_pk k) msg (at_sig a)) (ch_identities h)"

lemma valid_votes_counts: "valid_votes X h msg d sigs = dedup_by_key at_member (sort_key at_member (filter (counts X h msg d) sigs))"
  by (simp add: valid_votes_def counts_def[abs_def])

lemma valid_votes_sorted: "sorted_wrt (<) (map at_member (valid_votes X h msg d sigs))"
  unfolding valid_votes_counts by (rule dedup_by_key_sorted) simp

lemma valid_votes_distinct: "distinct (map at_member (valid_votes X h msg d sigs))"
  using valid_votes_sorted by (simp add: strict_sorted_iff)

lemma valid_votes_members:
  "at_member ` set (valid_votes X h msg d sigs) = at_member ` {a \<in> set sigs. counts X h msg d a}"
  unfolding valid_votes_counts by (simp add: dedup_by_key_keys)

lemma valid_votes_subset: "set (valid_votes X h msg d sigs) \<subseteq> {a \<in> set sigs. counts X h msg d a}"
  unfolding valid_votes_counts using dedup_by_key_set[of at_member] by fastforce

lemma valid_votes_same_set:
  assumes "distinct (map at_member xs)" "distinct (map at_member ys)"
    and "{a \<in> set xs. counts X h msg d a} = {a \<in> set ys. counts X h msg d' a}"
  shows "valid_votes X h msg d xs = valid_votes X h msg d' ys"
proof -
  have "sort_key at_member (filter (counts X h msg d) xs) = sort_key at_member (filter (counts X h msg d') ys)"
    by (rule sort_key_same_set) (use assms in \<open>simp_all add: distinct_map_filter\<close>)
  then show ?thesis unfolding valid_votes_counts by simp
qed

text \<open>The verifier counts exactly these signatures, on a roster with distinct names.\<close>

lemma member_of_unique:
  "distinct (map mi_member ids) \<Longrightarrow> k \<in> set ids \<Longrightarrow> member_of ids (mi_member k) = Some k"
  unfolding member_of_def by (induction ids) auto

lemma counts_signed:
  assumes "distinct (map mi_member (ch_identities h))" "counts X h msg d a" "a \<in> set sigs"
  shows "signed_by X (ch_identities h) msg sigs (at_member a)"
proof -
  obtain k where k: "k \<in> set (ch_identities h)" "mi_member k = at_member a"
    "identity_verify X (mi_identity_pk k) msg (at_sig a)"
    using assms(2) by (auto simp: counts_def list_ex_iff)
  then have "member_of (ch_identities h) (at_member a) = Some k"
    using member_of_unique[OF assms(1), of k] by simp
  with k assms(3) show ?thesis by (auto simp: signed_by_def)
qed

lemma valid_signers_of_votes:
  assumes "distinct (map mi_member (ch_identities h))" "distinct (map at_member sigs)"
    and "\<And>a. a \<in> set sigs \<Longrightarrow> counts X h msg d a"
  shows "set (valid_signers X (ch_identities h) msg sigs) = at_member ` set sigs"
    and "length (valid_signers X (ch_identities h) msg sigs) = length sigs"
proof -
  show s: "set (valid_signers X (ch_identities h) msg sigs) = at_member ` set sigs"
    unfolding set_valid_signers using counts_signed[OF assms(1) assms(3)]
    by (auto simp: signed_by_def)
  have "length (valid_signers X (ch_identities h) msg sigs) = card (at_member ` set sigs)"
    using valid_signers_sorted[of X "ch_identities h" msg sigs] s
    by (metis distinct_card strict_sorted_iff)
  also have "\<dots> = length sigs" using distinct_card[OF assms(2)] by simp
  finally show "length (valid_signers X (ch_identities h) msg sigs) = length sigs" .
qed

section \<open>The signatures of a sealed block\<close>

definition consented_restore :: "chain_change \<Rightarrow> string option" where
  "consented_restore c =
     (case c of Membership Restored member _ _ _ (Some _) \<Rightarrow> Some member | _ \<Rightarrow> None)"

lemma sealing_sigs_eq:
  "sealing_sigs X s h target change valid =
     (case consented_restore change of
        None \<Rightarrow> Some (if length valid \<ge> seals_needed h change then Some (take (seals_needed h change) valid) else None)
      | Some member \<Rightarrow>
          (case restore_consent_at X s change target of
             Inl Panic \<Rightarrow> None
           | Inl (Refused _) \<Rightarrow> Some None
           | Inr _ \<Rightarrow>
               (let v = filter (\<lambda>a. at_member a \<noteq> member) valid in
                Some (if length v \<ge> seals_needed h change then Some (take (seals_needed h change) v)
                      else if length v + 1 < seals_needed h change then None else Some v))))"
  by (cases change)
    (auto simp: sealing_sigs_def consented_restore_def Let_def split: membership_op.splits option.splits
      sum.splits fault.splits)

lemma sealing_sigs_sub:
  assumes "sealing_sigs X s h target change valid = Some (Some sigs)"
  shows "set sigs \<subseteq> set valid" "distinct (map at_member valid) \<Longrightarrow> distinct (map at_member sigs)"
    "consented_restore change = None \<Longrightarrow> seals_needed h change \<le> length sigs"
    "consented_restore change = Some m \<Longrightarrow> seals_needed h change \<le> length sigs + 1 \<and>
       m \<notin> at_member ` set sigs \<and> (\<exists>kind. restore_consent_at X s change target = Inr kind)"
  using assms
  by (auto simp: sealing_sigs_eq Let_def distinct_map_filter take_map[symmetric]
      split: option.splits if_splits sum.splits fault.splits dest: in_set_takeD)

text \<open>What \<open>try_commit\<close> seals: a block at the target, with the signatures of the counting votes.\<close>

lemma try_commit_sealed:
  assumes "try_commit X s i = Some (s', Some b)"
  obtains h target change msg p sigs where
    "gv_head s = Some h" "\<not> terminal_card s i" "target_of h = Some target"
    "proposal_change s i = Some change" "approval_bytes X (gov_republic_id s) target change = Some msg"
    "bt_get (gv_pending_sigs s) i = Some p" "pend_height p = target"
    "sealing_sigs X s h target change (valid_votes X h msg (current_decliners s i) (pend_sigs p)) = Some (Some sigs)"
    "b = \<lparr>blk_height = target, blk_prev = ch_hash h, blk_change = change, blk_sigs = sigs\<rparr>"
  using assms
proof (cases rule: try_commit_cases)
  case (sealed h target change msg p sigs)
  have "b = \<lparr>blk_height = target, blk_prev = ch_hash h, blk_change = change, blk_sigs = sigs\<rparr>"
    using sealed(9) by (cases "seal_is_paced s") simp_all
  with sealed(1-8) that show thesis by blast
qed simp

lemma target_of_Some: "target_of h = Some t \<longleftrightarrow> unat (ch_height h) \<noteq> 2 ^ 64 - 1 \<and> t = ch_height h + 1"
  by (auto simp: target_of_def)

lemma restore_consent_verifies:
  assumes "restore_consent_at X s (Membership op m pk npk relays (Some consent)) t = Inr kind" "gv_head s = Some h"
  shows "\<exists>k. member_of (ch_identities h) m = Some k \<and>
     verify_restore_consent X (gov_republic_id s) (mi_identity_pk k) t m npk relays consent = Inr kind"
  using assms
  by (auto simp: restore_consent_at_def rbind_eq_Inr anchored_identity_def ok_or_def split: option.splits)

lemma consented_restore_change:
  "consented_restore c = Some m \<Longrightarrow> \<exists>pk npk relays consent. c = Membership Restored m pk npk relays (Some consent)"
  by (auto simp: consented_restore_def split: chain_change.splits membership_op.splits option.splits)

lemma length_bset_insert: "x \<notin> set xs \<Longrightarrow> length (bset_insert x xs) = Suc (length xs)"
  by (induction xs) auto

text \<open>The verifier's signer set of a sealed block reaches the threshold the sealer used.\<close>

lemma sealed_signers:
  assumes "distinct (map mi_member (ch_identities h))" "gv_head s = Some h" "gov_republic_id s = ch_republic_id h"
    and msg: "approval_bytes X (ch_republic_id h) t change = Some msg"
    and seal: "sealing_sigs X s h t change (valid_votes X h msg d ps) = Some (Some sigs)"
    and op: "\<And>m pk npk relays consent. change \<noteq> Membership Joined m pk npk relays (Some consent)"
  shows "\<exists>signers. block_signers X (ch_republic_id h) (ch_identities h)
       \<lparr>blk_height = t, blk_prev = pv, blk_change = change, blk_sigs = sigs\<rparr> = Inr signers \<and>
     seals_needed h change \<le> length signers"
proof -
  note sub = sealing_sigs_sub[OF seal]
  have ds: "distinct (map at_member sigs)" by (rule sub(2)[OF valid_votes_distinct])
  have cnt: "counts X h msg d a" if "a \<in> set sigs" for a
    using that sub(1) valid_votes_subset by blast
  note vs = valid_signers_of_votes[OF assms(1) ds cnt]
  show ?thesis
  proof (cases "consented_restore change")
    case None
    then have "block_signers X (ch_republic_id h) (ch_identities h)
        \<lparr>blk_height = t, blk_prev = pv, blk_change = change, blk_sigs = sigs\<rparr>
        = Inr (valid_signers X (ch_identities h) msg sigs)"
      using msg op by (auto simp: block_signers_def consented_restore_def Let_def
          split: chain_change.splits membership_op.splits option.splits)
    then show ?thesis using vs(2) sub(3)[OF None] by simp
  next
    case (Some m)
    from consented_restore_change[OF Some] obtain pk npk relays consent where
      c: "change = Membership Restored m pk npk relays (Some consent)" by blast
    from sub(4)[OF Some] obtain kind where k: "seals_needed h change \<le> length sigs + 1"
      "m \<notin> at_member ` set sigs" "restore_consent_at X s change t = Inr kind" by blast
    from restore_consent_verifies[OF k(3)[unfolded c] assms(2)] obtain i where
      i: "member_of (ch_identities h) m = Some i"
      "verify_restore_consent X (ch_republic_id h) (mi_identity_pk i) t m npk relays consent = Inr kind"
      unfolding assms(3) by blast
    have nm: "m \<notin> set (valid_signers X (ch_identities h) msg sigs)" using k(2) vs(1) by simp
    have "block_signers X (ch_republic_id h) (ch_identities h)
        \<lparr>blk_height = t, blk_prev = pv, blk_change = change, blk_sigs = sigs\<rparr>
        = Inr (bset_insert m (valid_signers X (ch_identities h) msg sigs))"
      using msg nm i by (simp add: block_signers_def c reject_if_def map_refusal_def ok_or_def)
    moreover have "length (bset_insert m (valid_signers X (ch_identities h) msg sigs))
        = Suc (length (valid_signers X (ch_identities h) msg sigs))"
      using nm by (simp add: length_bset_insert)
    ultimately show ?thesis using k(1) vs(2) by simp
  qed
qed

end
