(* ===== verification/Gov_Props.thy ===== *)
theory Gov_Props
  imports Gov_Seal Chain_Demo
begin

text \<open>
  The properties of governance: what the sealer promises, what a stream of wire messages can
  and cannot do to a vote, and how declines close a proposal. The witnesses run on a republic
  of two seats over the demo functions of \<open>Extern\<close>.
\<close>

section \<open>A republic of two seats\<close>

definition demo_seat :: "string \<Rightarrow> char \<Rightarrow> member_identity" where
  "demo_seat m c = \<lparr>mi_member = m, mi_identity_pk = replicate 32 c, mi_nostr_pk = ''d'', mi_vault_pk = []\<rparr>"

definition duo_head :: chain_head where
  "duo_head = \<lparr>ch_height = 1, ch_hash = ''h'', ch_republic_id = ''h'', ch_rule_m = 2,
     ch_identities = [demo_seat ''a'' (CHR ''c''), demo_seat ''b'' (CHR ''e'')]\<rparr>"

definition duo_vote :: "string \<Rightarrow> char \<Rightarrow> roster_attestation" where
  "duo_vote m c = \<lparr>at_member = m, at_sig = replicate 64 c\<rparr>"

definition duo_sigs :: "roster_attestation list" where
  "duo_sigs = [duo_vote ''b'' (CHR ''e''), duo_vote ''a'' (CHR ''c'')]"

text \<open>The node of seat \<open>a\<close>, one open card and the votes given.\<close>

definition duo :: "(u64, pending_approval) btree \<Rightarrow> gov_state" where
  "duo pend = \<lparr>gv_config_member = ''a'', gv_config_members = [''a'', ''b''],
     gv_replica = Some \<lparr>rp_member = ''a'', rp_roster = [''a'', ''b''], rp_identities = ch_identities duo_head,
                        rp_republic_id = ''h'', rp_rule_m = 2\<rparr>,
     gv_next_id = 6, gv_now = 100, gv_nostr = False,
     gv_proposals = [(5, fresh_record Memory JNull StProposed ''a'')],
     gv_head = Some duo_head, gv_head_moved_at = 0, gv_blocks = [], gv_walk = None, gv_blob = None,
     gv_held = held_default, gv_legacy = (\<lambda>_. []), gv_applied = (\<lambda>_. []), gv_epoch = 0,
     gv_wiki_cache = None, gv_wiki_pending = [], gv_adoption_pending = False, gv_replay_held_at = [], gv_applied_sigs = Map.empty, gv_anchors = Map.empty,
     gv_member_relays = Map.empty, gv_proposal_changes = [], gv_pending_sigs = pend, gv_own_approvals = [],
     gv_pending_declines = [], gv_pending_withdrawals = [], gv_id_collisions = [], gv_seen_signing = [],
     gv_refused_at = [], gv_seal_held = []\<rparr>"

definition duo_full :: gov_state where
  "duo_full = duo [(5, \<lparr>pend_height = 2, pend_sigs = duo_sigs, pend_verified = [''a'', ''b'']\<rparr>)]"

lemma duo_keys:
  "identity_verify demo_extern (replicate 32 c) msg (replicate 64 c)"
  by (simp add: identity_verify_def flip: replicate_add)

lemma duo_fields [simp]:
  "gov_republic_id (duo q) = ''h''" "gov_member (duo q) = ''a''" "gv_head (duo q) = Some duo_head"
  "gv_pending_sigs (duo q) = q" "target_of duo_head = Some 2" "ch_republic_id duo_head = ''h''"
  "proposal_change (duo q) 5 = Some (Applied 5 Memory JNull)" "\<not> terminal_card (duo q) 5"
  "current_decliners (duo q) 5 = []" "\<not> seal_is_paced (duo q)"
  by (simp_all add: duo_def gov_republic_id_def gov_member_def target_of_def duo_head_def proposal_change_def
      terminal_card_def current_decliners_def seal_is_paced_def seal_pace_secs_def fresh_record_def get_str_def)

lemma duo_counts: "a \<in> set duo_sigs \<Longrightarrow> counts demo_extern duo_head msg [] a"
  using duo_keys by (auto simp: counts_def duo_sigs_def duo_vote_def duo_head_def demo_seat_def)

lemma duo_verifies: "a \<in> set duo_sigs \<Longrightarrow> approval_verifies demo_extern (duo q) 5 2 (at_member a) (at_sig a) = Some True"
  using duo_counts[of a] approval_demo_applied[of 2 5]
  by (auto simp: approval_verifies_def counts_def)

lemma duo_full_votes_ok: "votes_ok demo_extern duo_full"
proof -
  have "pend_ok \<lparr>pend_height = 2, pend_sigs = duo_sigs, pend_verified = [''a'', ''b'']\<rparr>"
    by (simp add: pend_ok_def duo_sigs_def duo_vote_def)
  moreover have "at_member ` set duo_sigs \<subseteq> mi_member ` set (ch_identities duo_head)"
    by (simp add: duo_sigs_def duo_vote_def duo_head_def demo_seat_def)
  ultimately show ?thesis
    using duo_verifies by (auto simp: votes_ok_def duo_full_def genuine_def bt_wf_def split: if_splits)
qed

section \<open>Sealing\<close>

lemma standing_votes_count:
  assumes ok: "votes_ok X s" and nt: "\<not> terminal_card s i" and p: "bt_get (gv_pending_sigs s) i = Some p"
    and h: "gv_head s = Some h" "target_of h = Some (pend_height p)"
    and c: "proposal_change s i = Some change"
    and msg: "approval_bytes X (gov_republic_id s) (pend_height p) change = Some msg"
  shows "{m \<in> set (pend_verified p). m \<notin> set d} \<subseteq> at_member ` set (valid_votes X h msg d (pend_sigs p))"
proof
  fix m
  assume m: "m \<in> {m \<in> set (pend_verified p). m \<notin> set d}"
  then obtain a where a: "a \<in> set (pend_sigs p)" "at_member a = m"
    using votes_okD(1)[OF ok p nt] by (auto simp: pend_ok_def)
  then have "approval_verifies X s i (pend_height p) m (at_sig a) = Some True"
    using votes_okD(2)[OF ok p nt] h m by (auto simp: genuine_def)
  then have "counts X h msg d a"
    using h c msg m a(2) by (auto simp: approval_verifies_def counts_def)
  with a show "m \<in> at_member ` set (valid_votes X h msg d (pend_sigs p))"
    unfolding valid_votes_members by blast
qed

text \<open>The voices standing for a change: verified, not declining and, for a restore that carries a consent,
  other than the member restored, whose consent is a voice of its own.\<close>

definition standing_voices :: "gov_state \<Rightarrow> u64 \<Rightarrow> pending_approval \<Rightarrow> chain_change \<Rightarrow> string set" where
  "standing_voices s i p change =
     {m \<in> set (pend_verified p). m \<notin> set (current_decliners s i) \<and> consented_restore change \<noteq> Some m}"

definition consent_voice :: "chain_change \<Rightarrow> nat" where
  "consent_voice change = (if consented_restore change = None then 0 else 1)"

lemma sealing_closes:
  assumes "consented_restore change \<noteq> None \<Longrightarrow> \<exists>k. restore_consent_at X s change t = Inr k"
    and "seals_needed h change \<le>
      length (filter (\<lambda>a. consented_restore change \<noteq> Some (at_member a)) v) + consent_voice change"
  shows "\<exists>sigs. sealing_sigs X s h t change v = Some (Some sigs) \<and> length sigs \<le> seals_needed h change \<and>
    seals_needed h change \<le> length sigs + consent_voice change"
proof (cases "consented_restore change")
  case None
  then show ?thesis using assms(2) by (simp add: sealing_sigs_eq consent_voice_def)
next
  case (Some m)
  then obtain k where k: "restore_consent_at X s change t = Inr k" using assms(1) by auto
  have "filter (\<lambda>a. consented_restore change \<noteq> Some (at_member a)) v = filter (\<lambda>a. at_member a \<noteq> m) v"
    using Some by (intro filter_cong) auto
  then show ?thesis using assms(2) Some k by (simp add: sealing_sigs_eq consent_voice_def Let_def)
qed

text \<open>C10: Sealing is live. On a reachable ballot (\<open>votes_ok\<close>) whose collection stands at the next height, when
  the standing voices (verified, not declining; a valid restore consent is one more voice, and the
  restored member's own signature then does not count) are as many as the change needs (the threshold
  \<open>m\<close>, or every seat for a cut), \<open>try_commit\<close> acts: outside the pacing round it returns a block at the
  target height, on the current head, with the proposal's change and as many signatures as are needed
  beside the consent; inside the pacing round it seals nothing and remembers the proposal as held.
\<close>

theorem standing_votes_seal:
  assumes "votes_ok X s" "\<not> terminal_card s i" "gv_head s = Some h" "target_of h = Some t"
    and "proposal_change s i = Some change"
    and "approval_bytes X (gov_republic_id s) t change = Some msg"
    and "bt_get (gv_pending_sigs s) i = Some p" "pend_height p = t"
    and "consented_restore change \<noteq> None \<Longrightarrow> \<exists>k. restore_consent_at X s change t = Inr k"
    and "seals_needed h change \<le> card (standing_voices s i p change) + consent_voice change"
  shows "if seal_is_paced s then try_commit X s i = Some (s\<lparr>gv_seal_held := bset_insert i (gv_seal_held s)\<rparr>, None)
    else \<exists>s' b. try_commit X s i = Some (s', Some b) \<and> blk_height b = t \<and> blk_prev b = ch_hash h \<and>
           blk_change b = change \<and> length (blk_sigs b) \<le> seals_needed h change \<and>
           seals_needed h change \<le> length (blk_sigs b) + consent_voice change"
proof -
  let ?v = "valid_votes X h msg (current_decliners s i) (pend_sigs p)"
  let ?v' = "filter (\<lambda>a. consented_restore change \<noteq> Some (at_member a)) ?v"
  have "{m \<in> set (pend_verified p). m \<notin> set (current_decliners s i)} \<subseteq> at_member ` set ?v"
    by (rule standing_votes_count[OF assms(1,2,7,3)]) (use assms in simp_all)
  then have "standing_voices s i p change \<subseteq> at_member ` set ?v'" by (auto simp: standing_voices_def)
  then have "card (standing_voices s i p change) \<le> card (at_member ` set ?v')" by (intro card_mono) simp_all
  also have "\<dots> \<le> length ?v'" by (rule order_trans[OF card_image_le card_length]) simp
  finally obtain sigs where "sealing_sigs X s h t change ?v = Some (Some sigs)" "length sigs \<le> seals_needed h change"
    "seals_needed h change \<le> length sigs + consent_voice change"
    using sealing_closes[of change X s t h ?v] assms(9,10) by auto
  then show ?thesis using assms(2-8) by (auto simp: try_commit_def)
qed

lemma duo_seals_needed: "seals_needed duo_head (Applied 5 Memory JNull) = 2"
  by (simp add: seals_needed_def duo_head_def)

theorem standing_votes_seal_witness:
  "\<exists>s' b. try_commit demo_extern duo_full 5 = Some (s', Some b) \<and> length (blk_sigs b) = 2"
proof -
  obtain msg where msg: "approval_bytes demo_extern ''h'' 2 (Applied 5 Memory JNull) = Some msg"
    using approval_demo_applied[of 2 5] by blast
  have "{m. m = ''a'' \<or> m = ''b''} = {''a'', ''b''}" by auto
  then have "card {m. m = ''a'' \<or> m = ''b''} = 2" by simp
  moreover have "\<not> seal_is_paced duo_full" by (simp add: duo_full_def)
  ultimately show ?thesis
    using standing_votes_seal[OF duo_full_votes_ok, of 5 duo_head 2 "Applied 5 Memory JNull" msg
        "\<lparr>pend_height = 2, pend_sigs = duo_sigs, pend_verified = [''a'', ''b'']\<rparr>"] msg
    by (auto simp: duo_full_def duo_seals_needed consented_restore_def standing_voices_def consent_voice_def)
qed

text \<open>C9: What a node seals, every verifier accepts. The sealer counts signatures exactly as
  \<open>verify_next\<close> does, consented restores included: a block returned by \<open>try_commit\<close> on the
  head \<open>h\<close> passes the verifier's height, link, signer and threshold checks, so that only the
  content of the change can still be refused (\<open>check_change\<close>, \<open>apply_membership\<close>); when that
  stands, \<open>verify_next\<close> returns the successor head.
\<close>

theorem sealed_block_verifies:
  assumes "try_commit X s i = Some (s', Some b)" "gv_head s = Some h"
    and "distinct (map mi_member (ch_identities h))" "gov_republic_id s = ch_republic_id h"
    and "unat (ch_rule_m h) \<le> length (ch_identities h)"
    and "check_change b seen = Inr consumed"
    and "(case blk_change b of
            Membership op member identity_pk _ _ _ \<Rightarrow> apply_membership (ch_identities h) op member identity_pk
          | _ \<Rightarrow> Inr (ch_identities h)) = Inr ids"
    and "block_hash X (ch_republic_id h) b = Some hash"
  shows "verify_next X h b seen =
     Inr (\<lparr>ch_height = ch_height h + 1, ch_hash = hash, ch_republic_id = ch_republic_id h,
           ch_rule_m = ch_rule_m h, ch_identities = ids\<rparr>, consumed)"
  using assms(1)
proof (cases rule: try_commit_sealed)
  case (1 h' target change msg p sigs)
  then have h': "h' = h" using assms(2) by simp
  have op: "change \<noteq> Membership Joined m pk npk relays (Some consent)" for m pk npk relays consent
    using assms(7) 1(9) by (auto simp: apply_membership_def)
  have msg: "approval_bytes X (ch_republic_id h) target change = Some msg" using 1(5) assms(4) by simp
  from sealed_signers[OF assms(3,2,4) msg 1(8)[unfolded h'] op, of "ch_hash h"]
  obtain signers where sg: "block_signers X (ch_republic_id h) (ch_identities h) b = Inr signers"
    "seals_needed h change \<le> length signers"
    using 1(9) h' by auto
  have m: "unat (ch_rule_m h) \<le> length signers" using sg(2) assms(5) by (auto simp: seals_needed_def split: if_splits)
  have t: "unat (ch_height h) \<noteq> 2 ^ 64 - 1" "target = ch_height h + 1" using 1(3) h' by (simp_all add: target_of_Some)
  have b: "blk_height b = ch_height h + 1" "blk_prev b = ch_hash h" using 1(9) h' t by simp_all
  show ?thesis
    using sg(1) m t(1) b assms(6,7,8) unfolding verify_next_def by (simp add: reject_if_def or_panic_def)
qed

definition duo_block :: chain_block where
  "duo_block = \<lparr>blk_height = 2, blk_prev = ''h'', blk_change = Applied 5 Memory JNull,
     blk_sigs = [duo_vote ''a'' (CHR ''c''), duo_vote ''b'' (CHR ''e'')]\<rparr>"

lemma duo_valid_votes:
  "valid_votes demo_extern duo_head msg [] duo_sigs = [duo_vote ''a'' (CHR ''c''), duo_vote ''b'' (CHR ''e'')]"
proof -
  have "filter (counts demo_extern duo_head msg []) duo_sigs = duo_sigs"
    using duo_counts by (simp add: filter_id_conv)
  then show ?thesis unfolding valid_votes_counts by (simp add: duo_sigs_def duo_vote_def)
qed

lemma duo_commit: "\<exists>s'. try_commit demo_extern duo_full 5 = Some (s', Some duo_block)"
proof -
  obtain msg where "approval_bytes demo_extern ''h'' 2 (Applied 5 Memory JNull) = Some msg"
    using approval_demo_applied[of 2 5] by blast
  moreover have "ch_hash duo_head = ''h''" by (simp add: duo_head_def)
  ultimately show ?thesis
    by (simp add: try_commit_def duo_full_def duo_valid_votes sealing_sigs_def duo_seals_needed duo_block_def)
qed

lemma duo_block_hash: "block_hash demo_extern ''h'' duo_block = Some ''h''"
proof -
  obtain msg where "approval_bytes demo_extern ''h'' 2 (Applied 5 Memory JNull) = Some msg" "length msg < 1000"
    using approval_demo_applied[of 2 5] by blast
  then show ?thesis
    by (simp add: block_hash_def block_link_bytes_def duo_block_def duo_vote_def demo_bytes)
qed

theorem sealed_block_verifies_witness:
  "\<exists>hd. verify_next demo_extern duo_head duo_block [] = Inr (hd, Some 5)"
proof -
  obtain s' where s': "try_commit demo_extern duo_full 5 = Some (s', Some duo_block)" using duo_commit by blast
  show ?thesis
    using sealed_block_verifies[OF s', of duo_head "[]" "Some 5" "ch_identities duo_head" "''h''"] duo_block_hash
    by (simp add: duo_full_def) (simp add: duo_block_def check_change_def duo_head_def demo_seat_def)
qed

lemma try_commit_sealed_at:
  assumes "try_commit X s i = Some (s', Some b)" "gv_head s = Some h"
    "proposal_change s i = Some change" "bt_get (gv_pending_sigs s) i = Some p"
  shows "\<exists>sigs. target_of h = Some (pend_height p) \<and>
    (\<forall>m. approval_bytes X (gov_republic_id s) (pend_height p) change = Some m \<longrightarrow>
      sealing_sigs X s h (pend_height p) change (valid_votes X h m (current_decliners s i) (pend_sigs p)) = Some (Some sigs)) \<and>
    b = \<lparr>blk_height = pend_height p, blk_prev = ch_hash h, blk_change = change, blk_sigs = sigs\<rparr>"
  using assms(1)
proof (cases rule: try_commit_sealed)
  case (1 h' target change' msg' p' sigs)
  have eq: "h' = h" "p' = p" "change' = change" using 1(1,4,6) assms(2-4) by simp_all
  have "target = pend_height p" using 1(7) eq by simp
  then show ?thesis using 1(3,5,8,9) eq by simp
qed

text \<open>C15: Nodes that count the same votes seal the identical block. Two nodes on the same head that
  both seal a proposal with the same change, and whose collections hold the same counting
  signatures (valid, one per member, not of a current decliner), in whatever order they
  arrived and whatever else the collections hold, return equal blocks, signatures included.
\<close>

theorem same_votes_same_block:
  assumes "try_commit X s i = Some (s', Some b)" "try_commit X t j = Some (t', Some c)"
    and "gv_head s = Some h" "gv_head t = Some h" "gov_republic_id s = gov_republic_id t"
    and "proposal_change s i = Some change" "proposal_change t j = Some change"
    and "bt_get (gv_pending_sigs s) i = Some p" "bt_get (gv_pending_sigs t) j = Some q"
    and "distinct (map at_member (pend_sigs p))" "distinct (map at_member (pend_sigs q))"
    and "approval_bytes X (gov_republic_id s) (pend_height p) change = Some msg"
    and "{a \<in> set (pend_sigs p). counts X h msg (current_decliners s i) a}
       = {a \<in> set (pend_sigs q). counts X h msg (current_decliners t j) a}"
  shows "b = c"
proof -
  note b = try_commit_sealed_at[OF assms(1,3,6,8)]
  note c = try_commit_sealed_at[OF assms(2,4,7,9)]
  have "pend_height q = pend_height p" using b c by auto
  with b c assms(5,12) obtain sigs sigs' where
    b: "sealing_sigs X s h (pend_height p) change (valid_votes X h msg (current_decliners s i) (pend_sigs p)) = Some (Some sigs)"
      "b = \<lparr>blk_height = pend_height p, blk_prev = ch_hash h, blk_change = change, blk_sigs = sigs\<rparr>"
    and c: "sealing_sigs X t h (pend_height p) change (valid_votes X h msg (current_decliners t j) (pend_sigs q)) = Some (Some sigs')"
      "c = \<lparr>blk_height = pend_height p, blk_prev = ch_hash h, blk_change = change, blk_sigs = sigs'\<rparr>"
    by auto
  note same = valid_votes_same_set[OF assms(10,11,13)]
  have "sigs = sigs'"
    using b(1) c(1) unfolding same sealing_sigs_eq
    by (auto simp: Let_def split: option.splits sum.splits fault.splits if_splits)
  then show ?thesis using b(2) c(2) by simp
qed

theorem same_votes_same_block_witness:
  "\<exists>s' t' b. try_commit demo_extern duo_full 5 = Some (s', Some b) \<and>
     try_commit demo_extern (duo [(5, \<lparr>pend_height = 2, pend_sigs = rev duo_sigs, pend_verified = []\<rparr>)]) 5
       = Some (t', Some b)"
proof -
  let ?t = "duo [(5, \<lparr>pend_height = 2, pend_sigs = rev duo_sigs, pend_verified = []\<rparr>)]"
  obtain msg where msg: "approval_bytes demo_extern ''h'' 2 (Applied 5 Memory JNull) = Some msg"
    using approval_demo_applied[of 2 5] by blast
  obtain s' where s': "try_commit demo_extern duo_full 5 = Some (s', Some duo_block)" using duo_commit by blast
  have "length (valid_votes demo_extern duo_head msg [] (rev duo_sigs)) = 2"
    using duo_counts by (simp add: valid_votes_counts filter_id_conv[THEN iffD2]) (simp add: duo_sigs_def duo_vote_def)
  then obtain t' c where t': "try_commit demo_extern ?t 5 = Some (t', Some c)"
    using msg by (simp add: try_commit_def sealing_sigs_def duo_seals_needed)
  have "duo_block = c"
    by (rule same_votes_same_block[OF s' t', of duo_head "Applied 5 Memory JNull"
          "\<lparr>pend_height = 2, pend_sigs = duo_sigs, pend_verified = [''a'', ''b'']\<rparr>"
          "\<lparr>pend_height = 2, pend_sigs = rev duo_sigs, pend_verified = []\<rparr>" msg])
      (use msg in \<open>simp_all add: duo_full_def\<close>, simp_all add: duo_sigs_def duo_vote_def)
  with s' t' show ?thesis by blast
qed

text \<open>
  The premise on the votes is needed: with a threshold below the number of seats, two nodes that
  hold different sufficient votes seal different blocks for the same change, and the difference
  is in the block hash (it covers the signatures).
\<close>

definition solo_head :: chain_head where
  "solo_head = duo_head\<lparr>ch_rule_m := 1\<rparr>"

definition solo :: "string \<Rightarrow> char \<Rightarrow> gov_state" where
  "solo m c = (duo [(5, \<lparr>pend_height = 2, pend_sigs = [duo_vote m c], pend_verified = [m]\<rparr>)])\<lparr>gv_head := Some solo_head\<rparr>"

lemma solo_commit:
  assumes "m = ''a'' \<and> c = CHR ''c'' \<or> m = ''b'' \<and> c = CHR ''e''"
  shows "\<exists>s'. try_commit demo_extern (solo m c) 5 =
     Some (s', Some \<lparr>blk_height = 2, blk_prev = ''h'', blk_change = Applied 5 Memory JNull, blk_sigs = [duo_vote m c]\<rparr>)"
proof -
  obtain msg where "approval_bytes demo_extern ''h'' 2 (Applied 5 Memory JNull) = Some msg"
    using approval_demo_applied[of 2 5] by blast
  moreover have "valid_votes demo_extern solo_head msg [] [duo_vote m c] = [duo_vote m c]"
    using assms duo_keys by (auto simp: valid_votes_def solo_head_def duo_head_def duo_vote_def demo_seat_def)
  moreover have "seals_needed solo_head (Applied 5 Memory JNull) = 1" "target_of solo_head = Some 2"
    "ch_hash solo_head = ''h''"
    by (simp_all add: seals_needed_def solo_head_def duo_head_def target_of_def)
  moreover have "gov_republic_id (solo m c) = ''h''" "proposal_change (solo m c) 5 = Some (Applied 5 Memory JNull)"
    "\<not> terminal_card (solo m c) 5" "current_decliners (solo m c) 5 = []" "\<not> seal_is_paced (solo m c)"
    "gv_head (solo m c) = Some solo_head"
    "gv_pending_sigs (solo m c) = [(5, \<lparr>pend_height = 2, pend_sigs = [duo_vote m c], pend_verified = [m]\<rparr>)]"
    by (simp_all add: solo_def duo_def fresh_record_def get_str_def gov_republic_id_def proposal_change_def terminal_card_def current_decliners_def
        seal_is_paced_def seal_pace_secs_def)
  ultimately show ?thesis by (simp add: try_commit_def sealing_sigs_def)
qed

theorem different_votes_different_blocks:
  "\<exists>s' t' b c. try_commit demo_extern (solo ''a'' (CHR ''c'')) 5 = Some (s', Some b) \<and>
     try_commit demo_extern (solo ''b'' (CHR ''e'')) 5 = Some (t', Some c) \<and>
     blk_change b = blk_change c \<and> b \<noteq> c \<and>
     block_link_bytes demo_extern ''h'' b \<noteq> block_link_bytes demo_extern ''h'' c"
proof -
  obtain msg where msg: "approval_bytes demo_extern ''h'' 2 (Applied 5 Memory JNull) = Some msg" "length msg < 1000"
    using approval_demo_applied[of 2 5] by blast
  let ?b = "\<lambda>m c. \<lparr>blk_height = 2, blk_prev = ''h'', blk_change = Applied 5 Memory JNull, blk_sigs = [duo_vote m c]\<rparr>"
  have "block_link_bytes demo_extern ''h'' (?b ''a'' (CHR ''c'')) \<noteq> block_link_bytes demo_extern ''h'' (?b ''b'' (CHR ''e''))"
    using msg by (simp add: block_link_bytes_def duo_vote_def demo_bytes)
  moreover obtain s' t' where
    "try_commit demo_extern (solo ''a'' (CHR ''c'')) 5 = Some (s', Some (?b ''a'' (CHR ''c'')))"
    "try_commit demo_extern (solo ''b'' (CHR ''e'')) 5 = Some (t', Some (?b ''b'' (CHR ''e'')))"
    using solo_commit[of "''a''" "CHR ''c''"] solo_commit[of "''b''" "CHR ''e''"] by blast
  ultimately show ?thesis by fastforce
qed

end
