(* ===== verification/Gov_Vote_Props.thy ===== *)
theory Gov_Vote_Props
  imports Gov_Props
begin

text \<open>
  The properties of the votes: what a stream of wire messages and own signatures keeps, that the
  displayed count is one the verifier confirms, when declines close a proposal, the parked
  votes, and the proposal ids.
\<close>

definition duo_gates :: gates where
  "duo_gates = \<lparr>ga_sign = Some (\<lambda>_. replicate 64 (CHR ''c'')), ga_base_pending = False,
     ga_vault_approve = (\<lambda>_. True), ga_wallet_approve = (\<lambda>_. True), ga_vault_wire = (\<lambda>_ _. True),
     ga_vault_enable_refused = (\<lambda>_ _. False), ga_purse_op = (\<lambda>_. True),
     ga_wallet_feature_refused = (\<lambda>_ _. False), ga_after_vault = (\<lambda>_ s. s)\<rparr>"

lemma duo_own_key: "own_key demo_extern duo_gates (duo q)"
  using duo_keys by (auto simp: own_key_def duo_gates_def duo_head_def demo_seat_def)

section \<open>Streams of messages\<close>

text \<open>C11: While the head stands, a verified vote survives the wire. Take a reachable ballot (\<open>votes_ok\<close>) on which
  the vote of member \<open>m\<close> for proposal \<open>i\<close> stands verified at the live target, and any stream of vote messages
  (approvals of any height and signature, proposals except of the vault surface, declines,
  withdrawals) interleaved with this node's own signing (with the key of its seat, \<open>own_key\<close>), up to the first block it seals. As long as the
  stream holds no decline of \<open>m\<close> itself and the proposal is not decided, the vote of \<open>m\<close> still stands
  afterwards: no replayed, forged or unverifiable vote message can displace it. A block ends the stream:
  when the head moves, \<open>rebase_pending_approvals\<close> drops every vote of the old height by design.
\<close>

theorem verified_vote_survives_the_wire:
  assumes "gov_run X ga s es = Some (t, b)" "votes_ok X s" "own_key X ga s" "stands s i m" "list_all quiet es"
    and "\<not> terminal_card t i" "\<And>ts hash. EvDeclined i m ts hash \<notin> set es"
  shows "stands t i m"
  by (rule gov_run_stands[OF assms])

definition duo_half :: gov_state where
  "duo_half = duo [(5, \<lparr>pend_height = 2, pend_sigs = [duo_vote ''b'' (CHR ''e'')], pend_verified = [''b'']\<rparr>)]"

lemma duo_half_votes_ok: "votes_ok demo_extern duo_half"
proof -
  have "duo_vote ''b'' (CHR ''e'') \<in> set duo_sigs" by (simp add: duo_sigs_def)
  then have "approval_verifies demo_extern duo_half 5 2 ''b'' (replicate 64 (CHR ''e'')) = Some True"
    using duo_verifies[of "duo_vote ''b'' (CHR ''e'')"] unfolding duo_half_def by (simp add: duo_vote_def)
  moreover have "''b'' \<in> mi_member ` set (ch_identities duo_head)" by (simp add: duo_head_def demo_seat_def)
  ultimately show ?thesis
    by (auto simp: votes_ok_def duo_half_def genuine_def bt_wf_def pend_ok_def duo_vote_def split: if_splits)
qed

lemma duo_half_forged:
  "receive_approval demo_extern duo_half 5 ''b'' 2 ''x'' = Some (duo_half, False, None)"
proof -
  obtain msg where msg: "approval_bytes demo_extern ''h'' 2 (Applied 5 Memory JNull) = Some msg"
    using approval_demo_applied[of 2 5] by blast
  have r: "rostered duo_half ''b''"
    by (simp add: rostered_def duo_half_def) (simp add: duo_head_def demo_seat_def)
  have v: "approval_verifies demo_extern duo_half 5 2 ''b'' ''x'' = Some False"
    using msg by (simp add: approval_verifies_def duo_half_def)
      (simp add: duo_head_def demo_seat_def identity_verify_def)
  have c: "collect_sig duo_half 5 2 ''b'' ''x'' False = duo_half"
    using r by (simp add: collect_sig_def collect_entry_def duo_half_def) (simp add: duo_def)
  have t: "try_commit demo_extern duo_half 5 = Some (duo_half, None)"
    using msg duo_keys by (simp add: try_commit_def duo_half_def valid_votes_def sealing_sigs_def duo_seals_needed)
  have p: "plausible_wire_id duo_half 5"
    by (simp add: plausible_wire_id_def duo_half_def duo_def u64_sat_add_def PARKED_DECLINE_ID_WINDOW_def)
  show ?thesis using p v c t by (simp add: receive_approval_def duo_half_def)
qed

theorem verified_vote_survives_the_wire_witness:
  "stands duo_half 5 ''b'' \<and>
   gov_run demo_extern duo_gates duo_half [EvApproved 5 ''b'' 2 ''x'', EvApproved 5 ''b'' 2 ''x''] = Some (duo_half, None) \<and>
   stands (fst (the (gov_run demo_extern duo_gates duo_half [EvApproved 5 ''b'' 2 ''x'', EvApproved 5 ''b'' 2 ''x'']))) 5 ''b''"
proof -
  have st: "stands duo_half 5 ''b''" by (simp add: stands_def duo_half_def)
  have run: "gov_run demo_extern duo_gates duo_half [EvApproved 5 ''b'' 2 ''x'', EvApproved 5 ''b'' 2 ''x''] = Some (duo_half, None)"
    by (simp add: duo_half_forged)
  have "stands duo_half 5 ''b''"
    by (rule verified_vote_survives_the_wire[OF run duo_half_votes_ok _ st])
      (simp_all add: duo_half_def duo_own_key)
  with st run show ?thesis by simp
qed

text \<open>C14: The displayed vote count is one the verifier confirms. Start with an empty collection and
  run any stream of messages (no proposal of the vault surface) and own signatures: for every proposal still open, whose
  collection stands at the live target, the count shown to the members
  (\<open>chain_approval_count\<close>) is at most the number of distinct roster members whose collected
  signature verifies over the proposal's approval bytes, counted by \<open>valid_signers\<close>, the
  function the block verifier uses.
\<close>

theorem displayed_count_is_genuine:
  assumes "gov_run X ga s es = Some (t, b)" "gv_pending_sigs s = []" "own_key X ga s" "list_all quiet es"
    and "\<not> terminal_card t i" "gv_head t = Some h" "bt_get (gv_pending_sigs t) i = Some p"
    and "target_of h = Some (pend_height p)" "proposal_change t i = Some change"
    and "approval_bytes X (gov_republic_id t) (pend_height p) change = Some msg"
    and "distinct (map mi_member (ch_identities h))"
  shows "chain_approval_count t i \<le> length (valid_signers X (ch_identities h) msg (pend_sigs p))"
proof -
  have "votes_ok X s" using assms(2) by (simp add: votes_ok_def)
  then have ok: "votes_ok X t" using gov_run_invariant[OF assms(1) _ assms(3,4), of "\<lambda>_. True"] by blast
  have "set (pend_verified p) \<subseteq> at_member ` set (valid_votes X h msg [] (pend_sigs p))"
    using standing_votes_count[OF ok assms(5,7,6,8,9,10), of "[]"] by simp
  also have "\<dots> \<subseteq> set (valid_signers X (ch_identities h) msg (pend_sigs p))"
    unfolding valid_votes_members set_valid_signers
    using counts_signed[OF assms(11)] by auto
  finally have "set (pend_verified p) \<subseteq> set (valid_signers X (ch_identities h) msg (pend_sigs p))" .
  moreover have "distinct (pend_verified p)"
    using votes_okD(1)[OF ok assms(7,5)] by (simp add: pend_ok_def strict_sorted_iff)
  ultimately show ?thesis
    using assms(7) card_mono[of "set (valid_signers X (ch_identities h) msg (pend_sigs p))" "set (pend_verified p)"]
      card_length[of "valid_signers X (ch_identities h) msg (pend_sigs p)"]
    by (simp add: chain_approval_count_def distinct_card)
qed

definition duo_signed :: gov_state where
  "duo_signed = (duo [(5, \<lparr>pend_height = 2, pend_sigs = [duo_vote ''a'' (CHR ''c'')], pend_verified = [''a'']\<rparr>)])
     \<lparr>gv_own_approvals := [5], gv_seen_signing := [(''a'', 2)]\<rparr>"

lemma duo_signed_fields [simp]:
  "gov_republic_id duo_signed = ''h''" "gv_head duo_signed = Some duo_head" "\<not> terminal_card duo_signed 5"
  "proposal_change duo_signed 5 = Some (Applied 5 Memory JNull)" "current_decliners duo_signed 5 = []"
  "gv_pending_sigs duo_signed = [(5, \<lparr>pend_height = 2, pend_sigs = [duo_vote ''a'' (CHR ''c'')], pend_verified = [''a'']\<rparr>)]"
  by (simp_all add: duo_signed_def duo_def gov_republic_id_def proposal_change_def terminal_card_def
      current_decliners_def fresh_record_def get_str_def)

lemma duo_signs: "gov_run demo_extern duo_gates (duo []) [EvSign 5] = Some (duo_signed, None)"
proof -
  obtain msg where msg: "approval_bytes demo_extern ''h'' 2 (Applied 5 Memory JNull) = Some msg"
    using approval_demo_applied[of 2 5] by blast
  let ?s1 = "(duo [])\<lparr>gv_own_approvals := bset_insert 5 (gv_own_approvals (duo []))\<rparr>"
  have "rostered ?s1 ''a''" "\<not> terminal_card ?s1 5"
    by (simp_all add: rostered_def duo_def duo_head_def demo_seat_def terminal_card_def fresh_record_def)
  then have c: "note_signer ''a'' 2 (mark_verified 5 ''a'' (collect_sig ?s1 5 2 ''a'' (replicate 64 (CHR ''c'')) True)) = duo_signed"
    by (simp add: collect_sig_def collect_entry_def pending_default_def mark_verified_def upd_pending_def
        note_signer_def duo_signed_def) (simp add: duo_def duo_vote_def)
  have t: "try_commit demo_extern duo_signed 5 = Some (duo_signed, None)"
    using msg by (simp add: try_commit_def sealing_sigs_def duo_seals_needed valid_votes_def)
  have m: "may_sign duo_gates (Applied 5 Memory JNull)" by (simp add: may_sign_def)
  have "ga_sign duo_gates = Some (\<lambda>_. replicate 64 (CHR ''c''))" by (simp add: duo_gates_def)
  then show ?thesis using msg m t by (simp add: sign_approval_def c Let_def)
qed

theorem displayed_count_is_genuine_witness:
  "gov_run demo_extern duo_gates (duo []) [EvSign 5] = Some (duo_signed, None) \<and>
   chain_approval_count duo_signed 5 = 1 \<and>
   (\<exists>msg. 1 \<le> length (valid_signers demo_extern (ch_identities duo_head) msg [duo_vote ''a'' (CHR ''c'')]))"
proof -
  obtain msg where msg: "approval_bytes demo_extern ''h'' 2 (Applied 5 Memory JNull) = Some msg"
    using approval_demo_applied[of 2 5] by blast
  have one: "chain_approval_count duo_signed 5 = 1" by (simp add: chain_approval_count_def)
  have "distinct (map mi_member (ch_identities duo_head))" by (simp add: duo_head_def demo_seat_def)
  then have "chain_approval_count duo_signed 5 \<le> length (valid_signers demo_extern (ch_identities duo_head) msg
      (pend_sigs \<lparr>pend_height = 2, pend_sigs = [duo_vote ''a'' (CHR ''c'')], pend_verified = [''a'']\<rparr>))"
    by (intro displayed_count_is_genuine[OF duo_signs, where change = "Applied 5 Memory JNull"])
      (use msg in \<open>simp_all add: duo_own_key\<close>)
  then show ?thesis using duo_signs one by auto
qed

section \<open>Declines\<close>

lemma stash_voted_card:
  "bt_get (gv_proposals (stash_voted i s)) i = map_option
     (\<lambda>p. p\<lparr>pr_voted := fold (\<lambda>m v. if m \<in> set v then v else v @ [m])
        (case bt_get (gv_pending_sigs s) i of None \<Rightarrow> [] | Some q \<Rightarrow> map at_member (pend_sigs q)) (pr_voted p)\<rparr>)
     (bt_get (gv_proposals s) i)"
  by (simp add: stash_voted_def Let_def upd_card_def bt_get_insert split: option.splits)

lemma upd_card_pending [simp]: "gv_pending_sigs (upd_card i f s) = gv_pending_sigs s"
  by (simp add: upd_card_def split: option.splits)

lemma stash_voted_pending [simp]: "gv_pending_sigs (stash_voted i s) = gv_pending_sigs s"
  by (simp add: stash_voted_def Let_def)

text \<open>C23: A decline is one voice, and a known proposal is rejected exactly when the rest cannot carry it. A
  decline of a proposal that is not open, of a member who has declined already, or with the content
  anchor of another payload changes nothing. Every other decline adds the member to the decliners,
  takes the member's collected signature and its verified mark back (if a collection stands), keeps
  every other member's, and leaves the proposal open exactly when it is not the purse's init card (which one
  decline rejects) and the seats that have not declined are still at least the threshold \<open>m\<close>;
  otherwise it is rejected, with the tipping decliner and the time on the record. The node has a
  replica whose threshold is between one and the number of seats.
\<close>

theorem decline_rejects_exactly_when_unreachable:
  assumes "bt_get (gv_proposals s) i = Some p"
    and "gv_replica s = Some r" "1 \<le> rp_rule_m r" "unat (rp_rule_m r) \<le> length (rp_roster r)"
  shows "if pr_state p \<noteq> StProposed \<or> m \<in> set (pr_decliners p) \<or> hash \<noteq> [] \<and> hash \<noteq> decline_payload_hash X (pr_payload p)
     then register_decline X s i m ts hash = (s, Known)
     else case register_decline X s i m ts hash of (t, out) \<Rightarrow>
     (\<exists>p'. bt_get (gv_proposals t) i = Some p' \<and> pr_decliners p' = pr_decliners p @ [m] \<and>
        (if \<not> (pr_surface p = Wallet \<and> is_wallet_init (pr_payload p))
            \<and> unat (rp_rule_m r) + length (pr_decliners p') \<le> length (rp_roster r)
         then out = Voice \<and> pr_state p' = StProposed
         else out = VoteRejected \<and> pr_state p' = StRejected \<and> pr_declined_by p' = m \<and> pr_declined_at p' = ts)) \<and>
     bt_get (gv_pending_sigs t) i =
       map_option (\<lambda>q. q\<lparr>pend_sigs := filter (\<lambda>a. at_member a \<noteq> m) (pend_sigs q),
                         pend_verified := filter (\<lambda>k. k \<noteq> m) (pend_verified q)\<rparr>) (bt_get (gv_pending_sigs s) i)"
proof (cases "pr_state p \<noteq> StProposed \<or> m \<in> set (pr_decliners p) \<or> hash \<noteq> [] \<and> hash \<noteq> decline_payload_hash X (pr_payload p)")
  case True
  then show ?thesis using assms(1) by (auto simp: register_decline_def)
next
  case False
  have one: "1 \<le> unat (rp_rule_m r)" using assms(3) by (simp add: word_le_nat_alt)
  have iff: "(\<not> (pr_surface p = Wallet \<and> is_wallet_init (pr_payload p)) \<and>
      unat (rp_rule_m r) + Suc (length (pr_decliners p)) \<le> length (rp_roster r)) \<longleftrightarrow> Suc (length (pr_decliners p)) \<le> veto_room s i"
    using assms one by (auto simp: veto_room_def)
  have pend: "bt_get (gv_pending_sigs (retract_vote i m s)) i =
      map_option (\<lambda>q. q\<lparr>pend_sigs := filter (\<lambda>a. at_member a \<noteq> m) (pend_sigs q),
                        pend_verified := filter (\<lambda>k. k \<noteq> m) (pend_verified q)\<rparr>) (bt_get (gv_pending_sigs s) i)"
    by (simp add: retract_vote_get)
  have card: "bt_get (gv_proposals (retract_vote i m s)) i = Some p"
    using assms(1) by (simp add: retract_vote_def Let_def upd_pending_def split: option.split)
  show ?thesis
    unfolding if_not_P[OF False]
    using assms(1) False iff pend card
    by (auto simp: register_decline_def Let_def upd_card_get stash_voted_card not_le)
qed

theorem decline_rejects_exactly_when_unreachable_witness:
  "\<exists>t p'. register_decline demo_extern duo_half 5 ''b'' 9 [] = (t, VoteRejected) \<and>
     bt_get (gv_proposals t) 5 = Some p' \<and> pr_state p' = StRejected \<and> pr_decliners p' = [''b'']"
proof -
  have f: "bt_get (gv_proposals duo_half) 5 = Some (fresh_record Memory JNull StProposed ''a'')"
    "bt_get (gv_pending_sigs duo_half) 5 = Some \<lparr>pend_height = 2, pend_sigs = [duo_vote ''b'' (CHR ''e'')], pend_verified = [''b'']\<rparr>"
    "gv_replica duo_half = Some \<lparr>rp_member = ''a'', rp_roster = [''a'', ''b''], rp_identities = ch_identities duo_head,
                        rp_republic_id = ''h'', rp_rule_m = 2\<rparr>"
    by (simp_all add: duo_half_def duo_def)
  show ?thesis
    using decline_rejects_exactly_when_unreachable[OF f(1) f(3), of "''b''" "[]" demo_extern 9]
    by (cases "register_decline demo_extern duo_half 5 ''b'' 9 []") (auto simp: fresh_record_def)
qed

text \<open>The admission check of a wire decline is the exact read-only twin of its registration: on a
  chain-governed node, \<open>decline_would_shed\<close> holds exactly when registering the decline would
  drop a voice that belongs to no known card although its id is plausible. So a voice accepted
  because the check said no is never lost to a full park.
\<close>

theorem would_shed_is_exact:
  assumes "is_chain_governed s"
  shows "decline_would_shed s i m \<longleftrightarrow>
     bt_get (gv_proposals s) i = None \<and> i \<le> u64_sat_add (gv_next_id s) PARKED_DECLINE_ID_WINDOW \<and>
     snd (register_decline X s i m ts hash) = Known"
proof (cases "bt_get (gv_proposals s) i = None \<and> i \<le> u64_sat_add (gv_next_id s) PARKED_DECLINE_ID_WINDOW")
  case True
  have "park_is_full (bump_next_id i s) i m = park_is_full s i m"
    by (simp add: park_is_full_def member_parked_def bump_next_id_def)
  with True show ?thesis
    using assms by (auto simp: decline_would_shed_def register_decline_def park_decline_def Let_def
        park_is_full_def bt_contains_def)
next
  case False
  then show ?thesis using assms by (auto simp: decline_would_shed_def bt_contains_def not_le)
qed

section \<open>Votes that arrive before their proposal\<close>

text \<open>No operation on a card or a collection looks at the park.\<close>

lemma declines_frame:
  "upd_pending i f (s\<lparr>gv_pending_declines := d\<rparr>) = (upd_pending i f s)\<lparr>gv_pending_declines := d\<rparr>"
  "upd_card i k (s\<lparr>gv_pending_declines := d\<rparr>) = (upd_card i k s)\<lparr>gv_pending_declines := d\<rparr>"
  "stash_voted i (s\<lparr>gv_pending_declines := d\<rparr>) = (stash_voted i s)\<lparr>gv_pending_declines := d\<rparr>"
  "note_signer m h (s\<lparr>gv_pending_declines := d\<rparr>) = (note_signer m h s)\<lparr>gv_pending_declines := d\<rparr>"
  by (simp_all add: upd_pending_def upd_card_def stash_voted_def note_signer_def Let_def split: option.splits)

lemma verifies_frame:
  "approval_verifies X (s\<lparr>gv_pending_declines := d\<rparr>) i height m g = approval_verifies X s i height m g"
  by (rule ballot_kept_verifies) simp

lemma retract_frame:
  "retract_vote i m (s\<lparr>gv_pending_declines := d\<rparr>) = (retract_vote i m s)\<lparr>gv_pending_declines := d\<rparr>"
proof -
  have "gov_member (s\<lparr>gv_pending_declines := d\<rparr>) = gov_member s" by (simp add: gov_member_def split: option.split)
  then show ?thesis by (simp only: retract_vote_def Let_def declines_frame) simp
qed

lemma decline_frame:
  assumes "bt_get (gv_proposals s) i = Some p"
  shows "fst (register_decline X (s\<lparr>gv_pending_declines := d\<rparr>) i m ts hash)
     = (fst (register_decline X s i m ts hash))\<lparr>gv_pending_declines := d\<rparr>"
  using assms by (simp add: register_decline_def Let_def retract_frame declines_frame veto_room_def)

lemma recheck_frame:
  "fold (recheck X i height) xs (Some (s\<lparr>gv_pending_declines := d\<rparr>))
     = map_option (\<lambda>t. t\<lparr>gv_pending_declines := d\<rparr>) (fold (recheck X i height) xs (Some s))"
proof (induction xs arbitrary: s)
  case (Cons a xs)
  show ?case
  proof (cases "approval_verifies X s i height (at_member a) (at_sig a)")
    case None
    then show ?thesis by (simp add: recheck_def[of X i height a] verifies_frame recheck_None)
  next
    case (Some ok)
    then show ?thesis
      using Cons by (simp add: recheck_def[of X i height a] verifies_frame mark_verified_def declines_frame)
  qed
qed simp

lemma reverify_frame:
  "reverify_pending X (s\<lparr>gv_pending_declines := d\<rparr>) i
     = map_option (\<lambda>t. t\<lparr>gv_pending_declines := d\<rparr>) (reverify_pending X s i)"
  using recheck_frame[of X i]
  by (simp add: reverify_pending_def recheck_def[abs_def] split: option.splits)

lemma fold_frame:
  assumes "\<And>x s. f x (s\<lparr>gv_pending_declines := d\<rparr>) = (f x s)\<lparr>gv_pending_declines := d\<rparr>"
  shows "fold f xs (s\<lparr>gv_pending_declines := d\<rparr>) = (fold f xs s)\<lparr>gv_pending_declines := d\<rparr>"
  by (induction xs arbitrary: s) (simp_all add: assms)

lemma declines_swap:
  "s\<lparr>gv_pending_declines := d, gv_wiki_pending := w\<rparr> = (s\<lparr>gv_wiki_pending := w\<rparr>)\<lparr>gv_pending_declines := d\<rparr>"
  "s\<lparr>gv_pending_declines := d, gv_wiki_cache := c\<rparr> = (s\<lparr>gv_wiki_cache := c\<rparr>)\<lparr>gv_pending_declines := d\<rparr>"
  "s\<lparr>gv_pending_declines := d, gv_replay_held_at := r\<rparr> = (s\<lparr>gv_replay_held_at := r\<rparr>)\<lparr>gv_pending_declines := d\<rparr>"
  by simp_all

lemma refresh_declines_frame:
  "refresh_wiki_cache X (s\<lparr>gv_pending_declines := d\<rparr>)
     = map_option (\<lambda>t. t\<lparr>gv_pending_declines := d\<rparr>) (refresh_wiki_cache X s)"
proof -
  have f: "fold (\<lambda>(i, rv). upd_card i (\<lambda>p. p\<lparr>pr_wiki_rev := Some rv\<rparr>)) st (t\<lparr>gv_pending_declines := d\<rparr>)
      = (fold (\<lambda>(i, rv). upd_card i (\<lambda>p. p\<lparr>pr_wiki_rev := Some rv\<rparr>)) st t)\<lparr>gv_pending_declines := d\<rparr>" for st t
    by (rule fold_frame) (auto simp: declines_frame split: prod.split)
  show ?thesis
    by (cases "refreshed X (held_wiki (gv_held s)) (gv_legacy s Memory) (gv_applied s Memory) (gv_epoch s) (gv_wiki_cache s)")
      (auto simp: refresh_wiki_cache_def declines_swap(2) f split: prod.split)
qed

lemma supersede_declines_frame:
  "supersede_stale_wiki X moved (s\<lparr>gv_pending_declines := d\<rparr>)
     = map_option (\<lambda>t. t\<lparr>gv_pending_declines := d\<rparr>) (supersede_stale_wiki X moved s)"
proof -
  have sel: "gv_proposals (s\<lparr>gv_pending_declines := d\<rparr>) = gv_proposals s"
    "gv_wiki_pending (s\<lparr>gv_pending_declines := d\<rparr>) = gv_wiki_pending s" by simp_all
  have same: "wiki_candidates (s\<lparr>gv_pending_declines := d\<rparr>) = wiki_candidates s"
    "parse_pending (s\<lparr>gv_pending_declines := d\<rparr>) = parse_pending s"
    unfolding parse_pending_def wiki_candidates_def sel by (rule refl)+
  have base: "wiki_base X (t\<lparr>gv_pending_declines := d\<rparr>) = wiki_base X t" for t by (simp add: wiki_base_def)
  have m: "fold mark_rebased xs (t\<lparr>gv_pending_declines := d\<rparr>) = (fold mark_rebased xs t)\<lparr>gv_pending_declines := d\<rparr>" for xs t
    by (rule fold_frame) (simp add: mark_rebased_def declines_frame)
  have r: "fold retire_patch xs (t\<lparr>gv_pending_declines := d\<rparr>) = (fold retire_patch xs t)\<lparr>gv_pending_declines := d\<rparr>" for xs t
    by (rule fold_frame) (simp add: retire_patch_def Let_def declines_frame)
  show ?thesis
  proof (cases "gv_adoption_pending s \<or> wiki_candidates s = []")
    case True
    then show ?thesis
      by (cases "gv_adoption_pending s") (simp_all add: supersede_stale_wiki_def Let_def same)
  next
    case False
    then show ?thesis
      by (cases "refresh_wiki_cache X (s\<lparr>gv_wiki_pending := parse_pending s\<rparr>)")
        (simp_all add: supersede_stale_wiki_def Let_def same declines_swap refresh_declines_frame base m r
          split: sum.split fault.split prod.split cong: option.case_cong)
  qed
qed

lemma bt_remove_insert_new: "bt_get m k = None \<Longrightarrow> bt_remove k (bt_insert k v m) = m"
proof (induction m)
  case (Cons p m)
  have "bt_remove k m = m" if "bt_get m k = None"
    using that by (force simp: bt_remove_def filter_id_conv map_of_eq_None_iff)
  with Cons show ?case by (cases p) (auto simp: bt_remove_def split: if_splits)
qed (simp add: bt_remove_def)

lemma unat_u64_sat_add: "unat (u64_sat_add a b) = min (unat a + unat b) (2 ^ 64 - 1)"
proof (cases "unat a + unat b \<ge> 2 ^ 64")
  case True
  have "unat (- 1 :: u64) = 2 ^ 64 - 1" by (simp add: unsigned_minus_1_eq_mask mask_eq_exp_minus_1)
  then show ?thesis using True by (simp add: u64_sat_add_def)
next
  case False
  then show ?thesis by (simp add: u64_sat_add_def unat_word_ariths)
qed

lemma receive_proposed_new:
  assumes "receive_proposed X ga s i sf payload by_member = Some (t, True)"
  shows "\<not> proposed_refused ga s i sf payload by_member" "bt_get (gv_proposals s) i = None"
    "bt_get (gv_proposal_changes s) i = None" "i \<notin> set (gov_seen s)"
    "sf \<noteq> Vault \<Longrightarrow> \<exists>u. (if sf = Memory then supersede_stale_wiki X None ((bump_next_id i s)\<lparr>gv_proposals :=
          bt_insert i (fresh_record sf payload StProposed by_member) (gv_proposals s)\<rparr>)
        else Some ((bump_next_id i s)\<lparr>gv_proposals :=
          bt_insert i (fresh_record sf payload StProposed by_member) (gv_proposals s)\<rparr>)) = Some u \<and>
        reverify_pending X u i = Some t"
proof -
  have same: "gv_proposals (bump_next_id i s) = gv_proposals s" "gv_proposal_changes (bump_next_id i s) = gv_proposal_changes s"
    "gov_seen (bump_next_id i s) = gov_seen s"
    by (simp_all add: bump_next_id_def gov_seen_def)
  show nr: "\<not> proposed_refused ga s i sf payload by_member"
    using assms by (auto simp: receive_proposed_def)
  show nc: "bt_get (gv_proposal_changes s) i = None"
    using assms nr same by (auto simp: receive_proposed_def Let_def bt_contains_def split: if_splits)
  show ns: "i \<notin> set (gov_seen s)"
    using assms nr same by (auto simp: receive_proposed_def Let_def split: if_splits)
  show np: "bt_get (gv_proposals s) i = None"
    using assms nr same nc ns by (auto simp: receive_proposed_def Let_def bt_contains_def split: if_splits option.splits)
  show "\<exists>u. (if sf = Memory then supersede_stale_wiki X None ((bump_next_id i s)\<lparr>gv_proposals :=
          bt_insert i (fresh_record sf payload StProposed by_member) (gv_proposals s)\<rparr>)
        else Some ((bump_next_id i s)\<lparr>gv_proposals :=
          bt_insert i (fresh_record sf payload StProposed by_member) (gv_proposals s)\<rparr>)) = Some u \<and>
        reverify_pending X u i = Some t" if "sf \<noteq> Vault"
    using assms nr same nc ns np that
    by (simp add: receive_proposed_def Let_def bt_contains_def) (auto simp: bind_eq_Some_conv)
qed

lemma recheck_cards:
  "fold (recheck X i height) xs (Some s) = Some t \<Longrightarrow> gv_proposals t = gv_proposals s \<and>
     gv_pending_declines t = gv_pending_declines s"
proof (induction xs arbitrary: s)
  case (Cons a xs)
  obtain s1 where s1: "recheck X i height a (Some s) = Some s1" "fold (recheck X i height) xs (Some s1) = Some t"
    using Cons.prems by (cases "recheck X i height a (Some s)") (simp_all add: recheck_None)
  from s1(1) have "gv_proposals s1 = gv_proposals s \<and> gv_pending_declines s1 = gv_pending_declines s"
    by (auto simp: recheck_def mark_verified_def upd_pending_def note_signer_def split: option.splits if_splits)
  with Cons.IH[OF s1(2)] show ?case by simp
qed simp

lemma reverify_cards:
  "reverify_pending X s i = Some t \<Longrightarrow> gv_proposals t = gv_proposals s \<and> gv_pending_declines t = gv_pending_declines s"
  using recheck_cards[of X i] by (auto simp: reverify_pending_def recheck_def[abs_def] split: option.splits)

text \<open>C24: A decline that can be parked is not lost to arrival order. Let the sighting of a proposal (of any surface
  but the vault) create its card on a node. When the decline of a member arrives before that sighting,
  the park has room for it (it is not full for this id and member) and holds nothing for the id yet,
  then it is parked, the sighting still creates the card, and draining the park afterwards gives the
  very state of the other order: the proposal first, the decline second. With a full park an early
  decline is dropped (\<open>would_shed_is_exact\<close>).
\<close>

theorem parked_decline_equals_late_decline:
  assumes "receive_proposed X ga s i sf payload by_member = Some (t, True)"
    and "sf \<noteq> Vault" "bt_get (gv_pending_declines s) i = None" "\<not> park_is_full s i m"
  shows "\<exists>u. snd (register_decline X s i m ts hash) = Parked \<and>
     receive_proposed X ga (fst (register_decline X s i m ts hash)) i sf payload by_member = Some (u, True) \<and>
     fst (register_parked_declines X u i) = fst (register_decline X t i m ts hash)"
proof -
  note new = receive_proposed_new[OF assms(1)]
  let ?d = "bt_insert i [(m, ts, hash)] (gv_pending_declines s)"
  let ?s = "(bump_next_id i s)\<lparr>gv_pending_declines := ?d\<rparr>"
  let ?n = "\<lambda>s. s\<lparr>gv_proposals := bt_insert i (fresh_record sf payload StProposed by_member) (gv_proposals s)\<rparr>"
  have plaus: "i \<le> u64_sat_add (gv_next_id s) PARKED_DECLINE_ID_WINDOW"
    using new(1) by (simp add: proposed_refused_def plausible_wire_id_def)
  have full: "\<not> park_is_full (bump_next_id i s) i m"
    using assms(4) by (simp add: park_is_full_def member_parked_def bump_next_id_def)
  have dec: "register_decline X s i m ts hash = (?s, Parked)"
    using new(2) plaus full assms(3)
    by (simp add: register_decline_def park_decline_def Let_def) (simp add: bump_next_id_def)
  have bump: "bump_next_id i ?s = ?s" by (simp add: bump_next_id_def)
  have "plausible_wire_id ?s i"
    using plaus by (auto simp: plausible_wire_id_def bump_next_id_def word_le_nat_alt unat_u64_sat_add max_def)
  then have nr: "\<not> proposed_refused ga ?s i sf payload by_member"
    using new(1) by (simp add: proposed_refused_def bump_next_id_def open_cards_by_def)
  let ?walk = "\<lambda>t. if sf = Memory then supersede_stale_wiki X None t else Some t"
  have gp: "gv_proposals (bump_next_id i s) = gv_proposals s" by (simp add: bump_next_id_def)
  obtain w where w: "?walk (?n (bump_next_id i s)) = Some w" "reverify_pending X w i = Some t"
    using new(5)[OF assms(2)] unfolding gp by blast
  have comm: "?n ?s = (?n (bump_next_id i s))\<lparr>gv_pending_declines := ?d\<rparr>" by simp
  have wk: "?walk (?n ?s) = Some (w\<lparr>gv_pending_declines := ?d\<rparr>)"
    using w(1) unfolding comm by (simp add: supersede_declines_frame split: if_splits)
  have rv: "reverify_pending X (w\<lparr>gv_pending_declines := ?d\<rparr>) i = Some (t\<lparr>gv_pending_declines := ?d\<rparr>)"
    using w(2) by (simp add: reverify_frame)
  have rp: "receive_proposed X ga ?s i sf payload by_member = Some (t\<lparr>gv_pending_declines := ?d\<rparr>, True)"
  proof -
    have f: "gv_proposals ?s = gv_proposals s" "gv_proposal_changes ?s = gv_proposal_changes s" "gov_seen ?s = gov_seen s"
      by (simp_all add: bump_next_id_def gov_seen_def)
    have wk': "?walk (?s\<lparr>gv_proposals := bt_insert i (fresh_record sf payload StProposed by_member) (gv_proposals s)\<rparr>)
        = Some (w\<lparr>gv_pending_declines := ?d\<rparr>)" using wk by (simp only: f)
    show ?thesis
      using nr new(2-4) assms(2) wk' rv unfolding receive_proposed_def bump Let_def f
      by (cases "sf = Memory") (simp_all add: bt_contains_def)
  qed
  have wf: "gv_pending_declines w = gv_pending_declines s"
    using w(1) walk_frame_simps(9)[OF supersede_walk_frame] by (auto simp: bump_next_id_def split: if_splits)
  have cards: "gv_pending_declines t = gv_pending_declines s"
    using reverify_cards[OF w(2)] wf by simp
  have drop: "bt_remove i ?d = gv_pending_declines t"
    using bt_remove_insert_new[OF assms(3)] cards by simp
  have "fst (register_parked_declines X (t\<lparr>gv_pending_declines := ?d\<rparr>) i)
      = fst (register_decline X (t\<lparr>gv_pending_declines := gv_pending_declines t\<rparr>) i m ts hash)"
    by (simp add: register_parked_declines_def bt_get_insert drop split: prod.splits decline_outcome.splits)
  also have "t\<lparr>gv_pending_declines := gv_pending_declines t\<rparr> = t" by simp
  finally show ?thesis using dec rp by auto
qed

theorem parked_decline_equals_late_decline_witness:
  "\<exists>t u. receive_proposed demo_extern duo_gates duo_half 7 Memory JNull ''b'' = Some (t, True) \<and>
     receive_proposed demo_extern duo_gates (fst (register_decline demo_extern duo_half 7 ''a'' 0 [])) 7 Memory JNull ''b''
       = Some (u, True) \<and>
     fst (register_parked_declines demo_extern u 7) = fst (register_decline demo_extern t 7 ''a'' 0 [])"
proof -
  have "\<not> proposed_refused duo_gates duo_half 7 Memory JNull ''b''"
    by (simp add: proposed_refused_def plausible_wire_id_def duo_half_def duo_def u64_sat_add_def duo_gates_def
        PARKED_DECLINE_ID_WINDOW_def is_base_entry_op_def get_str_def open_cards_by_def OPEN_CARDS_PER_PROPOSER_MAX_def)
  then obtain t where t: "receive_proposed demo_extern duo_gates duo_half 7 Memory JNull ''b'' = Some (t, True)"
    by (simp add: receive_proposed_def bump_next_id_def bt_contains_def gov_seen_def reverify_pending_def
        duo_half_def duo_def Let_def supersede_stale_wiki_def wiki_candidates_def is_open_wiki_patch_def
        fresh_record_def get_str_def)
  have "bt_get (gv_pending_declines duo_half) 7 = None" "\<not> park_is_full duo_half 7 ''a''"
    by (simp_all add: duo_half_def duo_def park_is_full_def member_parked_def PARKED_DECLINE_IDS_MAX_def
        PARKED_DECLINES_PER_MEMBER_MAX_def)
  from parked_decline_equals_late_decline[OF t _ this, of 0 "[]"] t show ?thesis by blast
qed

section \<open>Proposal ids\<close>

text \<open>C28: Seats never mint the same proposal id, whatever their counters say. When two nodes with the
  same roster (in any order, names distinct) mint an id each for different members, the ids differ, and each
  node reads the other's seat back from the id; a minted id is never below the counter and never
  zero, and the counter moves past it.
\<close>

theorem minted_ids_never_collide:
  assumes "gv_replica s = Some r" "rp_member r \<in> set (rp_roster r)" "mint_proposal_id s = Some (s', i)"
    and "gv_replica t = Some q" "rp_member q \<in> set (rp_roster q)" "mint_proposal_id t = Some (t', j)"
    and "mset (rp_roster q) = mset (rp_roster r)" "rp_member r \<noteq> rp_member q"
  shows "i \<noteq> j \<and> minting_seat t i = Some (rp_member r) \<and> minting_seat s j = Some (rp_member q) \<and>
     gv_next_id s \<le> i \<and> 0 < i \<and> gv_next_id s' = u64_sat_add i 1"
proof -
  have a: "minting_seat t i = Some (rp_member r)" by (rule minting_seat_mint[OF assms(1-4,7)])
  have b: "minting_seat s j = Some (rp_member q)" by (rule minting_seat_mint[OF assms(4-6,1) assms(7)[symmetric]])
  have c: "minting_seat t j = Some (rp_member q)" by (rule minting_seat_mint[OF assms(4-6,4) refl])
  have "0 < i" using mint_class(3)[OF assms(3)] by (simp add: word_less_nat_alt)
  with a b c mint_class(2,5)[OF assms(3)] assms(8) show ?thesis by auto
qed

definition duo_other :: gov_state where
  "duo_other = (duo [])\<lparr>gv_replica := Some \<lparr>rp_member = ''b'', rp_roster = [''b'', ''a''], rp_identities = [],
     rp_republic_id = ''h'', rp_rule_m = 2\<rparr>\<rparr>"

theorem minted_ids_never_collide_witness:
  "map_option snd (mint_proposal_id (duo [])) = Some 7 \<and> map_option snd (mint_proposal_id duo_other) = Some 6 \<and>
   minting_seat duo_other 7 = Some ''a''"
proof -
  have "seat_stride (duo []) = (2, 0)" "seat_stride duo_other = (2, 1)"
    "gv_next_id (duo []) = 6" "gv_next_id duo_other = 6"
    by (simp_all add: seat_stride_def duo_other_def duo_def)
  then have m: "mint_proposal_id (duo []) = Some ((duo [])\<lparr>gv_next_id := 8\<rparr>, 7)"
    "mint_proposal_id duo_other = Some (duo_other\<lparr>gv_next_id := 7\<rparr>, 6)"
    by (simp_all add: mint_proposal_id_def Let_def u64_sat_add_def)
  have r: "gv_replica (duo []) = Some \<lparr>rp_member = ''a'', rp_roster = [''a'', ''b''], rp_identities = ch_identities duo_head,
       rp_republic_id = ''h'', rp_rule_m = 2\<rparr>"
    "gv_replica duo_other = Some \<lparr>rp_member = ''b'', rp_roster = [''b'', ''a''], rp_identities = [],
       rp_republic_id = ''h'', rp_rule_m = 2\<rparr>"
    by (simp_all add: duo_def duo_other_def)
  show ?thesis
    using minted_ids_never_collide[OF r(1) _ m(1) r(2) _ m(2)] m by (simp add: add_mset_commute)
qed

lemma land_next [simp]: "gv_next_id (land s i height m g v) = gv_next_id s"
  by (auto simp: land_def collect_sig_def mark_verified_def note_signer_def upd_pending_def Let_def split: option.splits)

lemma reverify_next: "reverify_pending X s i = Some t \<Longrightarrow> gv_next_id t = gv_next_id s"
proof -
  have "fold (recheck X i height) xs (Some s) = Some t \<Longrightarrow> gv_next_id t = gv_next_id s" for height xs
  proof (induction xs arbitrary: s)
    case (Cons a xs)
    obtain s1 where s1: "recheck X i height a (Some s) = Some s1" "fold (recheck X i height) xs (Some s1) = Some t"
      using Cons.prems by (cases "recheck X i height a (Some s)") (simp_all add: recheck_None)
    from s1(1) have "gv_next_id s1 = gv_next_id s"
      by (auto simp: recheck_def mark_verified_def upd_pending_def note_signer_def split: option.splits if_splits)
    with Cons.IH[OF s1(2)] show ?case by simp
  qed simp
  then show "reverify_pending X s i = Some t \<Longrightarrow> gv_next_id t = gv_next_id s"
    by (auto simp: reverify_pending_def recheck_def[abs_def] split: option.splits)
qed

text \<open>The one way a message moves the counter: past a plausible id.\<close>

definition counter_moved :: "gov_state \<Rightarrow> gov_state \<Rightarrow> bool" where
  "counter_moved s t \<longleftrightarrow> gv_next_id t = gv_next_id s \<or> (\<exists>i. plausible_wire_id s i \<and> gv_next_id t = gv_next_id (bump_next_id i s))"

lemma counter_moved_bounds:
  assumes "counter_moved s t"
  shows "gv_next_id s \<le> gv_next_id t" "unat (gv_next_id t) \<le> unat (gv_next_id s) + 1025"
  using assms
  by (auto simp: counter_moved_def bump_next_id_def plausible_wire_id_def PARKED_DECLINE_ID_WINDOW_def
      word_le_nat_alt unat_u64_sat_add max_def)

lemma card_ops_next [simp]:
  "gv_next_id (upd_card i f s) = gv_next_id s" "gv_next_id (stash_voted i s) = gv_next_id s"
  "gv_next_id (retract_vote i m s) = gv_next_id s"
  by (simp_all add: upd_card_def stash_voted_def retract_vote_def upd_pending_def Let_def split: option.splits)

lemma register_decline_counter: "counter_moved s (fst (register_decline X s i m ts hash))"
proof (cases "register_decline X s i m ts hash")
  case (Pair t out)
  then show ?thesis
  proof (cases rule: register_decline_cases)
    case park
    then show ?thesis using Pair
      by (auto simp: counter_moved_def park_decline_def Let_def plausible_wire_id_def not_less split: if_splits)
  qed (simp_all add: Pair counter_moved_def)
qed

lemma register_withdraw_counter: "counter_moved s (fst (register_withdraw s i m ts))"
  by (cases "bt_get (gv_proposals s) i")
    (auto simp: register_withdraw_def counter_moved_def Let_def plausible_wire_id_def not_less)

lemma receive_proposed_counter:
  assumes "receive_proposed X ga s i sf payload m = Some (t, fresh)" and nv: "sf \<noteq> Vault"
  shows "counter_moved s t"
proof (cases fresh)
  case True
  then have r: "receive_proposed X ga s i sf payload m = Some (t, True)" using assms(1) by simp
  note new = receive_proposed_new[OF r]
  obtain u where u: "(if sf = Memory then supersede_stale_wiki X None ((bump_next_id i s)\<lparr>gv_proposals :=
          bt_insert i (fresh_record sf payload StProposed m) (gv_proposals s)\<rparr>)
        else Some ((bump_next_id i s)\<lparr>gv_proposals :=
          bt_insert i (fresh_record sf payload StProposed m) (gv_proposals s)\<rparr>)) = Some u"
    "reverify_pending X u i = Some t" using new(5)[OF nv] by blast
  have "gv_next_id u = gv_next_id (bump_next_id i s)"
    using u(1) walk_frame_simps(7)[OF supersede_walk_frame] by (auto split: if_splits)
  then have "gv_next_id t = gv_next_id (bump_next_id i s)" using reverify_next[OF u(2)] by simp
  then show ?thesis using new(1) by (auto simp: counter_moved_def proposed_refused_def)
next
  case False
  then show ?thesis
    using assms by (auto simp: receive_proposed_def Let_def counter_moved_def proposed_refused_def note_collision_def
        bind_eq_Some_conv split: if_splits option.splits)
qed

lemma gov_step_counter:
  assumes "gov_step X ga s e = Some (t, b)" "quiet e"
  shows "counter_moved s t"
proof (cases e)
  case (EvApproved i m height g)
  with assms obtain d where "receive_approval X s i m height g = Some (t, d, b)" by auto
  from receive_approval_land[OF this] show ?thesis by (auto simp: counter_moved_def)
next
  case (EvProposed i sf payload m)
  with assms obtain f where "receive_proposed X ga s i sf payload m = Some (t, f)" by auto
  from receive_proposed_counter[OF this] assms(2) EvProposed show ?thesis by simp
next
  case (EvDeclined i m ts hash)
  then show ?thesis using assms register_decline_counter by auto
next
  case (EvWithdrawn i m ts)
  then show ?thesis using assms register_withdraw_counter by auto
next
  case (EvSign i)
  with assms obtain ev where "sign_approval X ga s i = Some (t, ev, b)" by auto
  from sign_approval_land[OF this] show ?thesis by (auto simp: counter_moved_def)
qed

text \<open>A hostile id cannot poison the mint counter. Over any stream of wire messages (no proposal of
  the vault surface) and own signatures the counter never falls, and it rises by at most the plausibility window plus one
  (1025) per message, whatever ids the messages carry.
\<close>

theorem mint_counter_moves_within_the_window:
  assumes "gov_run X ga s es = Some (t, b)" "list_all quiet es"
  shows "gv_next_id s \<le> gv_next_id t \<and> unat (gv_next_id t) \<le> unat (gv_next_id s) + 1025 * length es"
  using assms
proof (induction es arbitrary: s)
  case (Cons e es)
  obtain u c where u: "gov_step X ga s e = Some (u, c)" using Cons.prems by (auto split: option.splits)
  have q: "quiet e" "list_all quiet es" using Cons.prems(2) by simp_all
  note m = counter_moved_bounds[OF gov_step_counter[OF u q(1)]]
  show ?case
  proof (cases c)
    case None
    then have "gov_run X ga u es = Some (t, b)" using Cons.prems u by simp
    from Cons.IH[OF this q(2)] m show ?thesis by (auto intro: order_trans)
  next
    case (Some c')
    then show ?thesis using Cons.prems u m by auto
  qed
qed simp

end
