(* ===== verification/Gov_Chain.thy ===== *)
theory Gov_Chain
  imports Gov_Votes Chain_Served
begin

text \<open>
  The chain a node holds and its projection into the node's state: verifying a candidate in the
  holder's context, extending by one block over the cached walk, adopting a whole chain, the
  per-block and the whole-chain folds, and settling the cards against the chain
  (\<open>molt-engine/src/chain/projection.rs\<close>, \<open>governance.rs\<close>, \<open>molt-engine/src/vault/fold.rs\<close>).

  The reactions of components outside this theory (vault, wallet, organization) are functions
  on the state (record \<open>hooks\<close>). The times at which the ingest saw the blocks' envelopes
  are an argument, a map from heights. An abort is \<open>None\<close>.
\<close>

section \<open>Reactions of other components\<close>

record hooks =
  hk_vault_stale :: "gov_state \<Rightarrow> gov_state"
  hk_vault_applied :: "json \<Rightarrow> gov_state \<Rightarrow> gov_state"
  hk_wallet_applied :: "u64 \<Rightarrow> json \<Rightarrow> gov_state \<Rightarrow> gov_state"
  hk_org_applied :: "gov_state \<Rightarrow> gov_state"
  hk_vault_displaced :: "chain_block list \<Rightarrow> u64 list \<Rightarrow> gov_state \<Rightarrow> gov_state"
  hk_wallet_commit :: "gov_state \<Rightarrow> gov_state"
  hk_wiki_base_durable :: bool
  hk_vault_base_durable :: bool
  hk_chain_durable :: bool

section \<open>The bases a holder keeps\<close>

definition applied_payloads :: "gov_state \<Rightarrow> surface \<Rightarrow> json list" where
  "applied_payloads s sf = map snd (gv_legacy s sf @ gv_applied s sf)"

definition vault_founding_ctx :: "gov_state \<Rightarrow> vault_ctx option" where
  "vault_founding_ctx s =
     (if gv_head s = None then None
      else (case gv_blob s of
              Some blob \<Rightarrow> ctx_from_founding (cs_rule_m blob) (cs_founding_identities blob)
            | None \<Rightarrow>
                (case gv_blocks s of
                   [] \<Rightarrow> None
                 | b # _ \<Rightarrow> (case blk_change b of
                                Genesis _ _ rule_m _ identities _ _ _ \<Rightarrow> ctx_from_founding rule_m identities
                              | _ \<Rightarrow> None))))"

definition is_vault_prepared :: "gov_state \<Rightarrow> bool" where
  "is_vault_prepared s \<longleftrightarrow> vault_founding_ctx s \<noteq> None"

definition wiki_base_committed :: "gov_state \<Rightarrow> (string \<times> u64) option" where
  "wiki_base_committed s = find_map base_commitment_of (applied_payloads s Memory)"

definition vault_base_committed :: "gov_state \<Rightarrow> (string \<times> u64) option" where
  "vault_base_committed s =
     (if is_vault_prepared s then find_map vault_commitment_of (applied_payloads s Vault) else None)"

definition wiki_base_pending :: "gov_state \<Rightarrow> bool" where
  "wiki_base_pending s \<longleftrightarrow> wiki_base_committed s \<noteq> None \<and> held_wiki (gv_held s) = None"

definition vault_base_empty :: vault_base where
  "vault_base_empty = \<lparr>vb_deposits = []\<rparr>"

text \<open>
  The code keeps the hash of the held vault base beside it, computed when the base was set; a base
  whose bytes have no length aborted there.
\<close>

definition base_answers :: "extern \<Rightarrow> vault_base \<Rightarrow> string \<Rightarrow> bool" where
  "base_answers X base want \<longleftrightarrow> map_option fst (vault_commitment X base) = Some want"

definition vault_base_now :: "extern \<Rightarrow> gov_state \<Rightarrow> vault_base option" where
  "vault_base_now X s =
     (case vault_base_committed s of
        None \<Rightarrow> None
      | Some (want, _) \<Rightarrow>
          if (case held_vault (gv_held s) of None \<Rightarrow> False | Some b \<Rightarrow> base_answers X b want)
          then held_vault (gv_held s)
          else if base_answers X vault_base_empty want then Some vault_base_empty else None)"

definition vault_base_pending :: "extern \<Rightarrow> gov_state \<Rightarrow> bool" where
  "vault_base_pending X s \<longleftrightarrow> vault_base_committed s \<noteq> None \<and> vault_base_now X s = None"

definition held_bases :: "extern \<Rightarrow> gov_state \<Rightarrow> held" where
  "held_bases X s = \<lparr>held_wiki = held_wiki (gv_held s), held_vault = vault_base_now X s\<rparr>"

definition set_vault_base :: "vault_base option \<Rightarrow> gov_state \<Rightarrow> gov_state" where
  "set_vault_base base s = s\<lparr>gv_held := (gv_held s)\<lparr>held_vault := base\<rparr>\<rparr>"

definition set_wiki_base :: "wiki_tree option \<Rightarrow> gov_state \<Rightarrow> gov_state" where
  "set_wiki_base tree s = s\<lparr>gv_held := (gv_held s)\<lparr>held_wiki := tree\<rparr>\<rparr>"

definition drop_a_stale_wiki_base :: "extern \<Rightarrow> gov_state \<Rightarrow> gov_state option" where
  "drop_a_stale_wiki_base X s =
     (case held_wiki (gv_held s) of
        None \<Rightarrow> Some s
      | Some t \<Rightarrow>
          map_option (\<lambda>(have, _).
              if Some have \<noteq> map_option fst (wiki_base_committed s) then set_wiki_base None s else s)
            (wiki_commitment X t))"

definition drop_a_stale_vault_base :: "extern \<Rightarrow> gov_state \<Rightarrow> gov_state" where
  "drop_a_stale_vault_base X s =
     (case held_vault (gv_held s) of
        None \<Rightarrow> s
      | Some b \<Rightarrow>
          (case vault_base_committed s of
             Some (want, _) \<Rightarrow> if base_answers X b want then s else set_vault_base None s
           | None \<Rightarrow> set_vault_base None s))"

section \<open>Verifying in the holder's context\<close>

definition walk_own :: "extern \<Rightarrow> gov_state \<Rightarrow> chain_block list \<Rightarrow> string fault + chain_walk" where
  "walk_own X s blocks =
     (case gv_blob s of
        None \<Rightarrow> walk_chain X blocks
      | Some blob \<Rightarrow> walk_suffix_chain X blob blocks (gov_republic_id s) (held_bases X s))"

definition verify_own :: "extern \<Rightarrow> gov_state \<Rightarrow> chain_block list \<Rightarrow> string fault + chain_head" where
  "verify_own X s blocks = rbind (walk_own X s blocks) (\<lambda>w. Inr (w_head w))"

text \<open>The cached walk while it describes the chain, a full walk otherwise.\<close>

definition current_walk :: "extern \<Rightarrow> gov_state \<Rightarrow> string fault + chain_walk" where
  "current_walk X s =
     (case gv_walk s of
        None \<Rightarrow> walk_own X s (gv_blocks s)
      | Some w \<Rightarrow>
          (case describes X w (gv_blocks s) (gv_blob s) of
             None \<Rightarrow> Inl Panic
           | Some True \<Rightarrow> Inr w
           | Some False \<Rightarrow> walk_own X s (gv_blocks s)))"

definition extend_own ::
  "extern \<Rightarrow> gov_state \<Rightarrow> chain_block \<Rightarrow> gov_state \<times> (string fault + chain_head)" where
  "extend_own X s block =
     (case current_walk X s of
        Inl e \<Rightarrow> (s\<lparr>gv_walk := None\<rparr>, Inl e)
      | Inr w \<Rightarrow>
          (case walk_step X w block (held_bases X s) of
             (w', stepped) \<Rightarrow> (s\<lparr>gv_walk := Some w'\<rparr>, rbind stepped (\<lambda>_. Inr (w_head w')))))"

definition own_cut_state ::
  "extern \<Rightarrow> gov_state \<Rightarrow> u64 \<Rightarrow> cut_kind \<Rightarrow> string fault + checkpoint_state \<times> folded_cut" where
  "own_cut_state X s up kind =
     rbind (case gv_blob s of
              None \<Rightarrow> checkpoint_state_of X (gv_blocks s) up
            | Some blob \<Rightarrow> fold_state X blob (gv_blocks s) up) (\<lambda>state.
       fold_cut X state kind (held_bases X s))"

definition own_cut_hash :: "extern \<Rightarrow> gov_state \<Rightarrow> u64 \<Rightarrow> cut_kind \<Rightarrow> string fault + string" where
  "own_cut_hash X s up kind = rbind (own_cut_state X s up kind) (\<lambda>(_, c). Inr (fc_hash c))"

definition own_cut_kind :: "gov_state \<Rightarrow> bool \<Rightarrow> cut_kind" where
  "own_cut_kind s wiki = \<lparr>ck_wiki = wiki, ck_vault = is_vault_prepared s\<rparr>"

section \<open>One block into the projection\<close>

definition bump_next_id_past_chain :: "gov_state \<Rightarrow> gov_state" where
  "bump_next_id_past_chain s =
     (case gv_walk s of
        None \<Rightarrow> s
      | Some w \<Rightarrow>
          if w_seen w = [] then s
          else s\<lparr>gv_next_id := max (gv_next_id s) (u64_sat_add (last (w_seen w)) 1)\<rparr>)"

definition adopt_head_roster :: "gov_state \<Rightarrow> gov_state" where
  "adopt_head_roster s =
     (case gv_head s of
        None \<Rightarrow> s
      | Some h \<Rightarrow>
          s\<lparr>gv_replica := map_option (\<lambda>r. r\<lparr>rp_identities := ch_identities h,
                                              rp_roster := map mi_member (ch_identities h)\<rparr>) (gv_replica s)\<rparr>)"

definition project_one :: "chain_block \<Rightarrow> gov_state \<Rightarrow> gov_state" where
  "project_one block s =
     adopt_head_roster
       (case blk_change block of
          Applied i sf payload \<Rightarrow>
            s\<lparr>gv_applied := (gv_applied s)(sf := gv_applied s sf @ [(Some i, payload)]),
              gv_applied_sigs := (gv_applied_sigs s)(i \<mapsto> blk_sigs block)\<rparr>
        | Membership _ member _ nostr_pk relays _ \<Rightarrow>
            (let s1 = (case nostr_pk of
                         Some pk \<Rightarrow> if pk \<noteq> [] then s\<lparr>gv_anchors := (gv_anchors s)(member \<mapsto> pk)\<rparr> else s
                       | None \<Rightarrow> s) in
             if relays \<noteq> [] then s1\<lparr>gv_member_relays := (gv_member_relays s1)(member \<mapsto> relays)\<rparr> else s1)
        | _ \<Rightarrow> s)"

definition append_committed_block :: "extern \<Rightarrow> gov_state \<Rightarrow> chain_block \<Rightarrow> (gov_state \<times> bool) option" where
  "append_committed_block X s block =
     (case extend_own X s block of
        (s1, Inr h) \<Rightarrow>
          (let s2 = project_one block (s1\<lparr>gv_head := Some h, gv_head_moved_at := gv_now s1\<rparr>) in
           Some (bump_next_id_past_chain (s2\<lparr>gv_blocks := gv_blocks s2 @ [block]\<rparr>), True))
      | (s1, Inl (Refused _)) \<Rightarrow> Some (s1, False)
      | (s1, Inl Panic) \<Rightarrow> None)"

section \<open>The whole chain into the projection\<close>

definition set_checkpoint_blob :: "checkpoint_state option \<Rightarrow> gov_state \<Rightarrow> gov_state" where
  "set_checkpoint_blob blob s = bump_applied_epoch (s\<lparr>gv_blob := blob, gv_walk := None\<rparr>)"

definition ensure_applied_record :: "u64 \<Rightarrow> surface \<Rightarrow> json \<Rightarrow> gov_state \<Rightarrow> gov_state" where
  "ensure_applied_record i sf payload s =
     (if bt_contains (gv_proposals s) i then s
      else s\<lparr>gv_proposals := bt_insert i (fresh_record sf payload StApplied []) (gv_proposals s)\<rparr>)"

definition applied_change :: "chain_block \<Rightarrow> (u64 \<times> surface \<times> json) option" where
  "applied_change b = (case blk_change b of Applied i sf payload \<Rightarrow> Some (i, sf, payload) | _ \<Rightarrow> None)"

text \<open>
  Every entry the summary and the blocks apply, in the order the code meets them.
\<close>

definition blob_entries :: "checkpoint_state \<Rightarrow> (u64 \<times> surface \<times> json) list" where
  "blob_entries blob = concat (map (\<lambda>(sf, es). map (\<lambda>(i, p). (i, sf, p)) es) (cs_applied blob))"

definition decided_entries :: "gov_state \<Rightarrow> (u64 \<times> surface \<times> json) list" where
  "decided_entries s =
     (case gv_blob s of None \<Rightarrow> [] | Some blob \<Rightarrow> blob_entries blob)
     @ List.map_filter applied_change (gv_blocks s)"

definition cards_to_materialize :: "gov_state \<Rightarrow> (u64 \<times> surface \<times> json) list" where
  "cards_to_materialize s = filter (\<lambda>(i, _). \<not> bt_contains (gv_proposals s) i) (decided_entries s)"

definition unsettled :: "gov_state \<Rightarrow> u64 \<Rightarrow> bool" where
  "unsettled s i =
     (case bt_get (gv_proposals s) i of None \<Rightarrow> False | Some p \<Rightarrow> pr_state p \<noteq> StApplied)"

definition cards_to_settle :: "gov_state \<Rightarrow> u64 list" where
  "cards_to_settle s =
     filter (unsettled s)
       ((case gv_blob s of
           None \<Rightarrow> []
         | Some blob \<Rightarrow> map fst (blob_entries blob) @ cs_consumed_ids blob)
        @ map fst (List.map_filter applied_change (gv_blocks s)))"

definition settle_cards_against_chain :: "(u64 \<rightharpoonup> u64) \<Rightarrow> gov_state \<Rightarrow> gov_state" where
  "settle_cards_against_chain ts s =
     (let s1 = fold (\<lambda>(i, sf, p) t. forget_vote i (ensure_applied_record i sf p t)) (cards_to_materialize s) s;
          s2 = fold (\<lambda>i t. forget_vote i (upd_card i settle_applied t)) (cards_to_settle s) s1;
          s3 = fold (\<lambda>b t. case (applied_change b, ts (blk_height b)) of
                              (Some (i, _), Some at) \<Rightarrow> stamp_applied_at i at t
                            | _ \<Rightarrow> t) (gv_blocks s) s2 in
      fold settle_membership_records
        (map blk_change (filter (\<lambda>b. is_membership (blk_change b)) (gv_blocks s))) s3)"

definition projected_applied :: "checkpoint_state option \<Rightarrow> chain_block list \<Rightarrow> surface \<Rightarrow> (u64 option \<times> json) list" where
  "projected_applied blob blocks =
     fold (\<lambda>(i, sf, p) m. m(sf := m sf @ [(Some i, p)]))
       ((case blob of None \<Rightarrow> [] | Some b \<Rightarrow> blob_entries b) @ List.map_filter applied_change blocks)
       (\<lambda>_. [])"

definition projected_sigs :: "chain_block list \<Rightarrow> u64 \<rightharpoonup> roster_attestation list" where
  "projected_sigs blocks =
     fold (\<lambda>b m. case applied_change b of None \<Rightarrow> m | Some (i, _) \<Rightarrow> m(i \<mapsto> blk_sigs b)) blocks Map.empty"

text \<open>Collecting pairs into a hash map: the last pair of a key wins.\<close>

definition collect_map :: "('k \<times> 'v) list \<Rightarrow> 'k \<rightharpoonup> 'v" where
  "collect_map kvs = fold (\<lambda>(k, v) m. m(k \<mapsto> v)) kvs Map.empty"

definition projected_anchors :: "checkpoint_state option \<Rightarrow> chain_block list \<Rightarrow> string \<rightharpoonup> string" where
  "projected_anchors blob blocks =
     (case blob of None \<Rightarrow> Map.empty | Some b \<Rightarrow> collect_map (cs_anchors b)) ++ working_anchors blocks"

definition projected_relays :: "checkpoint_state option \<Rightarrow> chain_block list \<Rightarrow> string \<rightharpoonup> string list" where
  "projected_relays blob blocks =
     (case blob of None \<Rightarrow> Map.empty | Some b \<Rightarrow> collect_map (cs_member_relays b)) ++ declared_relays blocks"

definition apply_chain_to_state ::
  "extern \<Rightarrow> hooks \<Rightarrow> (u64 \<rightharpoonup> u64) \<Rightarrow> gov_state \<Rightarrow> gov_state option" where
  "apply_chain_to_state X H ts s =
     (let s1 = bump_applied_epoch
                 (s\<lparr>gv_applied := projected_applied (gv_blob s) (gv_blocks s),
                    gv_applied_sigs := projected_sigs (gv_blocks s)\<rparr>);
          s2 = settle_cards_against_chain ts s1 in
      Option.bind (refresh_wiki_cache X s2) (\<lambda>s3.
      Option.bind (supersede_stale_wiki X None s3) (\<lambda>s4.
        (let s5 = hk_vault_stale H s4 in
         Some (adopt_head_roster
           (s5\<lparr>gv_anchors := projected_anchors (gv_blob s5) (gv_blocks s5),
               gv_member_relays := projected_relays (gv_blob s5) (gv_blocks s5)\<rparr>))))))"

section \<open>Adopting a chain\<close>

definition genesis_chain :: "sealed_roster \<Rightarrow> chain_block list" where
  "genesis_chain sealed =
     (if sr_republic_id sealed = [] \<or> sr_identities sealed = [] \<or>
         length (sr_attestations sealed) \<noteq> length (sr_identities sealed)
      then []
      else [\<lparr>blk_height = 0, blk_prev = genesis_prev,
             blk_change = Genesis (sr_name sealed) (sr_republic_id sealed) (sr_rule_m sealed) (sr_rule_n sealed)
               (sr_identities sealed) (sr_agenda sealed) (sr_relays sealed) (sr_features sealed),
             blk_sigs = sr_attestations sealed\<rparr>])"

definition adopt_chain ::
  "extern \<Rightarrow> hooks \<Rightarrow> (u64 \<rightharpoonup> u64) \<Rightarrow> chain_block list \<Rightarrow> gov_state \<Rightarrow> gov_state option" where
  "adopt_chain X H ts blocks s0 =
     (let s = s0\<lparr>gv_adoption_pending := False\<rparr> in
      case walk_own X s blocks of
        Inr w \<Rightarrow>
          apply_chain_to_state X H ts
            (bump_next_id_past_chain
              (s\<lparr>gv_blocks := blocks, gv_head := Some (w_head w), gv_head_moved_at := gv_now s,
                 gv_walk := Some w\<rparr>))
      | Inl (Refused _) \<Rightarrow>
          Some (set_checkpoint_blob None (s\<lparr>gv_blocks := [], gv_head := None, gv_walk := None\<rparr>))
      | Inl Panic \<Rightarrow> None)"

definition max_applied_proposal_id :: "chain_block list \<Rightarrow> u64 option" where
  "max_applied_proposal_id blocks =
     (case map fst (List.map_filter applied_change blocks) of [] \<Rightarrow> None | i # is \<Rightarrow> Some (fold max is i))"

section \<open>The effective settings\<close>

definition ratified_relays :: "gov_state \<Rightarrow> string list" where
  "ratified_relays s =
     (case gv_blob s of
        Some blob \<Rightarrow> cs_relays blob
      | None \<Rightarrow>
          (case gv_blocks s of
             [] \<Rightarrow> []
           | b # _ \<Rightarrow> (case blk_change b of Genesis _ _ _ _ _ _ relays _ \<Rightarrow> relays | _ \<Rightarrow> [])))"

definition effective_relays :: "gov_state \<Rightarrow> string list" where
  "effective_relays s =
     foldl (\<lambda>pool v. if get_str v ''op'' = Some ''set_relays''
                     then fold_pool_edit pool (str_or_default v ''value'') else pool)
       (ratified_relays s) (applied_payloads s Organization)"

definition member_relays_of :: "gov_state \<Rightarrow> string \<Rightarrow> string list" where
  "member_relays_of s member =
     (case gv_member_relays s member of Some declared \<Rightarrow> declared | None \<Rightarrow> effective_relays s)"

text \<open>Pairs of seats, in roster order, that share no relay.\<close>

definition relay_splits :: "gov_state \<Rightarrow> (string \<times> string) list" where
  "relay_splits s =
     (let roster = gov_roster s in
      concat (map (\<lambda>i. List.map_filter (\<lambda>j.
          let a = member_relays_of s (roster ! i); b = member_relays_of s (roster ! j) in
          if a = [] \<or> b = [] \<or> list_ex (\<lambda>r. r \<in> set b) a then None else Some (roster ! i, roster ! j))
        [Suc i..<length roster]) [0..<length roster]))"

end
