(* ===== verification/Gov_Chain_Laws.thy ===== *)
theory Gov_Chain_Laws
  imports Gov_Chain Gov_Wire
begin

text \<open>
  What the holder's chain keeps: the chain a node holds is always one it verified, the cached
  walk is never trusted for another chain, and the projection that grows block by block is the
  one a rebuild from the whole chain gives.
\<close>

section \<open>The part of the state the chain owns\<close>

definition chain_part :: "gov_state \<Rightarrow> chain_head option \<times> chain_block list \<times> chain_walk option
    \<times> checkpoint_state option \<times> held \<times> (surface \<Rightarrow> (u64 option \<times> json) list)
    \<times> (surface \<Rightarrow> (u64 option \<times> json) list) \<times> (u64 \<rightharpoonup> roster_attestation list)
    \<times> (string \<rightharpoonup> string) \<times> (string \<rightharpoonup> string list) \<times> replica option" where
  "chain_part s = (gv_head s, gv_blocks s, gv_walk s, gv_blob s, gv_held s, gv_legacy s, gv_applied s,
     gv_applied_sigs s, gv_anchors s, gv_member_relays s, gv_replica s)"

lemma chain_part_eqD:
  assumes "chain_part t = chain_part s"
  shows "gv_head t = gv_head s" "gv_blocks t = gv_blocks s" "gv_walk t = gv_walk s" "gv_blob t = gv_blob s"
    "gv_held t = gv_held s" "gv_legacy t = gv_legacy s" "gv_applied t = gv_applied s"
    "gv_applied_sigs t = gv_applied_sigs s" "gv_anchors t = gv_anchors s"
    "gv_member_relays t = gv_member_relays s" "gv_replica t = gv_replica s"
  using assms by (simp_all add: chain_part_def)

lemma chain_part_fold:
  "(\<And>x t. chain_part (f x t) = chain_part t) \<Longrightarrow> chain_part (fold f xs s) = chain_part s"
  by (induction xs arbitrary: s) simp_all

lemma chain_part_upd_card [simp]: "chain_part (upd_card i f s) = chain_part s"
  by (simp add: upd_card_def chain_part_def split: option.split)

lemma chain_part_upd_pending [simp]: "chain_part (upd_pending i f s) = chain_part s"
  by (simp add: upd_pending_def chain_part_def split: option.split)

lemma chain_part_updates [simp]:
  "chain_part (s\<lparr>gv_pending_sigs := a\<rparr>) = chain_part s" "chain_part (s\<lparr>gv_proposal_changes := b\<rparr>) = chain_part s"
  "chain_part (s\<lparr>gv_proposals := c\<rparr>) = chain_part s" "chain_part (s\<lparr>gv_own_approvals := d\<rparr>) = chain_part s"
  "chain_part (s\<lparr>gv_seal_held := d\<rparr>) = chain_part s" "chain_part (s\<lparr>gv_seen_signing := e\<rparr>) = chain_part s"
  "chain_part (s\<lparr>gv_next_id := i\<rparr>) = chain_part s" "chain_part (s\<lparr>gv_epoch := i\<rparr>) = chain_part s"
  "chain_part (s\<lparr>gv_head_moved_at := i\<rparr>) = chain_part s" "chain_part (s\<lparr>gv_adoption_pending := z\<rparr>) = chain_part s"
  "chain_part (s\<lparr>gv_refused_at := e\<rparr>) = chain_part s" "chain_part (s\<lparr>gv_id_collisions := j\<rparr>) = chain_part s"
  by (simp_all add: chain_part_def)

lemma chain_part_ops [simp]:
  "chain_part (stash_voted i s) = chain_part s" "chain_part (forget_vote i s) = chain_part s"
  "chain_part (ensure_applied_record i sf p s) = chain_part s" "chain_part (stamp_applied_at i at s) = chain_part s"
  "chain_part (collect_sig s i height m g v) = chain_part s" "chain_part (mark_verified i m s) = chain_part s"
  "chain_part (note_signer m height s) = chain_part s" "chain_part (bump_applied_epoch s) = chain_part s"
  "chain_part (bump_next_id i s) = chain_part s" "chain_part (bump_next_id_past_chain s) = chain_part s"
  by (simp_all add: stash_voted_def forget_vote_def ensure_applied_record_def stamp_applied_at_def collect_sig_def
      mark_verified_def note_signer_def bump_applied_epoch_def bump_next_id_def bump_next_id_past_chain_def Let_def
      split: option.split)

lemma chain_part_forget_votes_for [simp]: "chain_part (forget_votes_for c s) = chain_part s"
  unfolding forget_votes_for_def by (rule chain_part_fold) simp

lemma chain_part_settle_membership [simp]: "chain_part (settle_membership_records c s) = chain_part s"
  by (auto simp: settle_membership_records_def chain_part_fold split: chain_change.split)

lemma chain_part_settle_cards [simp]: "chain_part (settle_cards_against_chain ts s) = chain_part s"
  unfolding settle_cards_against_chain_def Let_def
  by (simp add: chain_part_fold split: option.split prod.split)

lemma walk_frame_chain: "walk_frame s u \<Longrightarrow> chain_part u = chain_part s"
  by (auto simp: walk_frame_def chain_part_def)

lemma chain_part_supersede: "supersede_stale_wiki X moved s = Some u \<Longrightarrow> chain_part u = chain_part s"
  by (rule walk_frame_chain[OF supersede_walk_frame])

lemma chain_part_refresh: "refresh_wiki_cache X s = Some u \<Longrightarrow> chain_part u = chain_part s"
  using refresh_facts(1)[of X s u] by (auto simp: chain_part_def)

lemma chain_part_try_commit: "try_commit X s i = Some (s1, b) \<Longrightarrow> chain_part s1 = chain_part s"
  using try_commit_state by fastforce

lemma chain_part_sign: "sign_approval X g s i = Some (s1, ev, b) \<Longrightarrow> chain_part s1 = chain_part s"
  by (auto simp: sign_approval_def bind_eq_Some_conv Let_def dest!: chain_part_try_commit
      split: option.splits if_splits prod.splits)

section \<open>The chain of a holder as a transition system\<close>

text \<open>
  \<open>own_walks X blob rid bs w\<close>: the blocks lead from a genesis, or from the anchor of the
  holder's summary, to the walk \<open>w\<close>, each block verified against the bases held at that time.
\<close>

inductive own_walks :: "extern \<Rightarrow> checkpoint_state option \<Rightarrow> string \<Rightarrow> chain_block list \<Rightarrow> chain_walk \<Rightarrow> bool"
  for X blob rid where
  own_genesis: "blob = None \<Longrightarrow> genesis_walk X g = Inr w \<Longrightarrow> own_walks X blob rid [g] w"
| own_anchor: "blob = Some c \<Longrightarrow> anchor_walk X c a rid = Inr w \<Longrightarrow> own_walks X blob rid [a] w"
| own_step: "own_walks X blob rid bs w \<Longrightarrow> step X h w b = Inr w' \<Longrightarrow> own_walks X blob rid (bs @ [b]) w'"

lemma own_walks_rfold:
  "own_walks X blob rid pre w \<Longrightarrow> rfold (step X h) w bs = Inr v \<Longrightarrow> own_walks X blob rid (pre @ bs) v"
proof (induction bs arbitrary: pre w)
  case (Cons b bs)
  then obtain w1 where "step X h w b = Inr w1" "rfold (step X h) w1 bs = Inr v" by (auto simp: rbind_eq_Inr)
  then show ?case using Cons.IH[of "pre @ [b]" w1] own_step[OF Cons.prems(1)] by simp
qed simp

lemma walk_own_walks:
  assumes "walk_own X s bs = Inr w"
  shows "own_walks X (gv_blob s) (gov_republic_id s) bs w"
proof (cases "gv_blob s")
  case None
  with assms obtain g rest w0 where g: "bs = g # rest" "genesis_walk X g = Inr w0"
    "rfold (step X held_default) w0 rest = Inr w"
    by (auto simp: walk_own_def walk_chain_def rbind_eq_Inr split: list.splits)
  from own_walks_rfold[OF own_genesis[OF None g(2)] g(3)] show ?thesis by (simp add: g(1))
next
  case (Some c)
  with assms obtain a rest w0 where a: "bs = a # rest" "anchor_walk X c a (gov_republic_id s) = Inr w0"
    "rfold (step X (held_bases X s)) w0 rest = Inr w"
    by (auto simp: walk_own_def walk_suffix_chain_def rbind_eq_Inr split: list.splits)
  from own_walks_rfold[OF own_anchor[OF Some a(2)] a(3)] show ?thesis by (simp add: a(1))
qed

lemma own_walks_not_Nil: "own_walks X blob rid bs w \<Longrightarrow> bs \<noteq> []"
  by (induction rule: own_walks.induct) auto

inductive_cases own_walks_snocE: "own_walks X blob rid (bs @ [b]) w"

lemma step_same_walk:
  assumes "step X h w b = Inr v" "step X h' w b = Inr v'"
  shows "v = v'"
  using assms by (auto simp: step_Inr step_checks_Inr)

lemma own_walks_unique: "own_walks X blob rid bs w \<Longrightarrow> own_walks X blob rid bs v \<Longrightarrow> v = w"
proof (induction arbitrary: v rule: own_walks.induct)
  case (own_genesis g w)
  from own_genesis(3) show ?case
    using own_genesis(1,2) by (cases rule: own_walks.cases) (auto dest: own_walks_not_Nil)
next
  case (own_anchor c a w)
  from own_anchor(3) show ?case
    using own_anchor(1,2) by (cases rule: own_walks.cases) (auto dest: own_walks_not_Nil)
next
  case (own_step bs w h b w')
  from own_step.prems obtain u h' where "own_walks X blob rid bs u" "step X h' u b = Inr v"
    using own_walks_not_Nil[OF own_step(1)] by (cases rule: own_walks.cases) auto
  then show ?case using own_step.IH own_step(2) step_same_walk by metis
qed

text \<open>Where the walk stands: the head is the last block, the count and the floor are the chain's.\<close>

definition stands_at :: "extern \<Rightarrow> checkpoint_state option \<Rightarrow> chain_block list \<Rightarrow> chain_walk \<Rightarrow> bool" where
  "stands_at X blob bs w \<longleftrightarrow>
     ch_height (w_head w) = blk_height (last bs) \<and>
     block_hash X (ch_republic_id (w_head w)) (last bs) = Some (ch_hash (w_head w)) \<and>
     w_folded w = length bs \<and> w_floor w = map_option cs_upto blob \<and>
     (\<forall>i. Suc i < length bs \<longrightarrow> unat (blk_height (bs ! Suc i)) = Suc (unat (blk_height (bs ! i))))"

lemma own_walks_stands: "own_walks X blob rid bs w \<Longrightarrow> stands_at X blob bs w"
proof (induction rule: own_walks.induct)
  case (own_genesis g w)
  from genesis_walk_Inr[OF own_genesis(2)] obtain hd0 where g: "verify_genesis X g = Inr hd0" "w_head w = hd0"
    "w_folded w = 1" "w_floor w = None" by auto
  from verify_genesis_Inr[OF g(1)] g own_genesis(1) show ?case by (auto simp: stands_at_def)
next
  case (own_anchor c a w)
  then show ?case by (auto simp: anchor_walk_def stands_at_def rbind_eq_Inr Let_def split: option.splits)
next
  case (own_step bs w h b w')
  note n = next_facts[OF own_step(2)] and f = step_facts(5,7)[OF own_step(2)]
  have ne: "bs \<noteq> []" by (rule own_walks_not_Nil[OF own_step(1)])
  have up: "unat (blk_height b) = Suc (unat (blk_height (last bs)))"
    using n own_step.IH by (auto simp: stands_at_def unat_Suc_u64)
  have "unat (blk_height ((bs @ [b]) ! Suc i)) = Suc (unat (blk_height ((bs @ [b]) ! i)))"
    if "Suc i < length (bs @ [b])" for i
  proof (cases "Suc i < length bs")
    case True
    then show ?thesis using own_step.IH by (simp add: stands_at_def nth_append)
  next
    case False
    then have i: "Suc i = length bs" using that by simp
    then have "bs ! i = last bs" using ne by (simp add: last_conv_nth flip: i)
    then show ?thesis using up i by (simp add: nth_append)
  qed
  then show ?case using n f own_step.IH by (simp add: stands_at_def)
qed

lemma describes_own:
  assumes "own_walks X blob rid bs w" "ch_republic_id (w_head c) = ch_republic_id (w_head w)"
    "describes X c bs blob = Some True"
  shows "ch_hash (w_head c) = ch_hash (w_head w)"
  using own_walks_stands[OF assms(1)] assms(2,3)
  by (auto simp: describes_def stands_at_def split: if_splits)

section \<open>The chain a node holds verifies\<close>

text \<open>
  A cached walk is the walk of the held chain, or it was left behind by a smaller block that took the
  tip; then its head hash lies above the tip's and it no longer describes the chain.
\<close>

definition cache_ok :: "chain_walk \<Rightarrow> chain_walk \<Rightarrow> bool" where
  "cache_ok w c \<longleftrightarrow>
     c = w \<or> ch_republic_id (w_head c) = ch_republic_id (w_head w) \<and> ch_hash (w_head w) < ch_hash (w_head c)"

definition chain_ok :: "extern \<Rightarrow> gov_state \<Rightarrow> bool" where
  "chain_ok X s \<longleftrightarrow>
     gov_republic_id s \<noteq> [] \<and>
     (case gv_head s of
        None \<Rightarrow> gv_blocks s = [] \<and> gv_walk s = None
      | Some h \<Rightarrow> \<exists>w. own_walks X (gv_blob s) (gov_republic_id s) (gv_blocks s) w \<and> h = w_head w \<and>
                      ch_republic_id h = gov_republic_id s \<and> (\<forall>c. gv_walk s = Some c \<longrightarrow> cache_ok w c))"

lemma chain_okI:
  assumes "own_walks X (gv_blob s) (gov_republic_id s) (gv_blocks s) w" "gv_head s = Some (w_head w)"
    "ch_republic_id (w_head w) = gov_republic_id s" "gov_republic_id s \<noteq> []"
    "\<And>c. gv_walk s = Some c \<Longrightarrow> cache_ok w c"
  shows "chain_ok X s"
  using assms by (auto simp: chain_ok_def)

lemma chain_okE:
  assumes "chain_ok X s" "gv_head s = Some h"
  obtains w where "own_walks X (gv_blob s) (gov_republic_id s) (gv_blocks s) w" "h = w_head w"
    "ch_republic_id h = gov_republic_id s" "gov_republic_id s \<noteq> []" "\<And>c. gv_walk s = Some c \<Longrightarrow> cache_ok w c"
  using assms by (auto simp: chain_ok_def)

lemma chain_part_rid: "chain_part t = chain_part s \<Longrightarrow> gov_republic_id t = gov_republic_id s"
  using chain_part_eqD(11)[of t s] by (simp add: gov_republic_id_def)

lemma chain_ok_part: "chain_part t = chain_part s \<Longrightarrow> chain_ok X t = chain_ok X s"
  using chain_part_eqD[of t s] chain_part_rid[of t s] by (simp add: chain_ok_def split: option.split)

lemma walk_step_refused:
  assumes "walk_step X w b h = (w', Inl e)"
  shows "w' = w"
proof (cases "step_checks X w b h")
  case (Inr p)
  obtain hd1 consumed where "p = (hd1, consumed)" by fastforce
  with assms Inr chain_fold_one_neutral[of b] show ?thesis
    by (cases "cut_kind_of (blk_change b)") (simp_all add: walk_step_def Let_def split: sum.splits prod.splits)
qed (use assms in \<open>simp add: walk_step_def\<close>)

lemma walk_step_taken: "walk_step X w b h = (w', Inr u) \<Longrightarrow> step X h w b = Inr w'"
  by (simp add: step_def)

lemma current_walk_own:
  assumes "chain_ok X s" "gv_head s = Some h" "current_walk X s = Inr v"
  shows "own_walks X (gv_blob s) (gov_republic_id s) (gv_blocks s) v"
proof -
  obtain w where w: "own_walks X (gv_blob s) (gov_republic_id s) (gv_blocks s) w"
    "\<And>c. gv_walk s = Some c \<Longrightarrow> cache_ok w c"
    using chain_okE[OF assms(1,2)] by metis
  show ?thesis
  proof (cases "\<exists>c. gv_walk s = Some c \<and> describes X c (gv_blocks s) (gv_blob s) = Some True")
    case True
    then obtain c where c: "gv_walk s = Some c" "describes X c (gv_blocks s) (gv_blob s) = Some True" by blast
    from w(2)[OF c(1)] describes_own[OF w(1) _ c(2)] have "c = w" by (auto simp: cache_ok_def)
    then show ?thesis using assms(3) c w(1) by (simp add: current_walk_def)
  next
    case False
    then have "walk_own X s (gv_blocks s) = Inr v"
      using assms(3) by (auto simp: current_walk_def split: option.splits bool.splits)
    then show ?thesis by (rule walk_own_walks)
  qed
qed

lemma adopt_head_roster_simps [simp]:
  "gv_head (adopt_head_roster s) = gv_head s" "gv_blocks (adopt_head_roster s) = gv_blocks s"
  "gv_walk (adopt_head_roster s) = gv_walk s" "gv_blob (adopt_head_roster s) = gv_blob s"
  "gv_held (adopt_head_roster s) = gv_held s" "gv_legacy (adopt_head_roster s) = gv_legacy s"
  "gv_applied (adopt_head_roster s) = gv_applied s" "gv_applied_sigs (adopt_head_roster s) = gv_applied_sigs s"
  "gv_anchors (adopt_head_roster s) = gv_anchors s" "gv_member_relays (adopt_head_roster s) = gv_member_relays s"
  "gov_republic_id (adopt_head_roster s) = gov_republic_id s" "gov_member (adopt_head_roster s) = gov_member s"
  "gv_proposals (adopt_head_roster s) = gv_proposals s" "gv_next_id (adopt_head_roster s) = gv_next_id s"
  by (cases "gv_head s"; cases "gv_replica s"; simp add: adopt_head_roster_def gov_republic_id_def gov_member_def)+

text \<open>The four folds of one block.\<close>

definition ext_applied :: "chain_block \<Rightarrow> (surface \<Rightarrow> (u64 option \<times> json) list) \<Rightarrow> surface \<Rightarrow> (u64 option \<times> json) list" where
  "ext_applied b m = (case applied_change b of None \<Rightarrow> m | Some (i, sf, p) \<Rightarrow> m(sf := m sf @ [(Some i, p)]))"

definition ext_sigs :: "chain_block \<Rightarrow> (u64 \<rightharpoonup> roster_attestation list) \<Rightarrow> u64 \<rightharpoonup> roster_attestation list" where
  "ext_sigs b m = (case applied_change b of None \<Rightarrow> m | Some (i, _) \<Rightarrow> m(i \<mapsto> blk_sigs b))"

definition ext_anchors :: "chain_block \<Rightarrow> (string \<rightharpoonup> string) \<Rightarrow> string \<rightharpoonup> string" where
  "ext_anchors b m = (case anchor_of (blk_change b) of None \<Rightarrow> m | Some (k, pk) \<Rightarrow> m(k \<mapsto> pk))"

definition ext_relays :: "chain_block \<Rightarrow> (string \<rightharpoonup> string list) \<Rightarrow> string \<rightharpoonup> string list" where
  "ext_relays b m = (case relays_of (blk_change b) of None \<Rightarrow> m | Some (k, rs) \<Rightarrow> m(k \<mapsto> rs))"

lemma project_one_eq:
  "project_one b s = adopt_head_roster
     (s\<lparr>gv_applied := ext_applied b (gv_applied s), gv_applied_sigs := ext_sigs b (gv_applied_sigs s),
        gv_anchors := ext_anchors b (gv_anchors s), gv_member_relays := ext_relays b (gv_member_relays s)\<rparr>)"
  by (cases "blk_change b")
    (auto simp: project_one_def applied_change_def anchor_of_def relays_of_def ext_applied_def ext_sigs_def
      ext_anchors_def ext_relays_def Let_def split: option.split)

lemma project_one_simps [simp]:
  "gv_head (project_one b s) = gv_head s" "gv_blocks (project_one b s) = gv_blocks s"
  "gv_walk (project_one b s) = gv_walk s" "gv_blob (project_one b s) = gv_blob s"
  "gv_held (project_one b s) = gv_held s" "gv_legacy (project_one b s) = gv_legacy s"
  "gov_republic_id (project_one b s) = gov_republic_id s" "gov_member (project_one b s) = gov_member s"
  "gv_proposals (project_one b s) = gv_proposals s" "gv_next_id (project_one b s) = gv_next_id s"
  by (simp_all add: project_one_eq) (simp_all add: gov_republic_id_def gov_member_def split: option.split)

lemma rid_update [simp]:
  "gov_republic_id (s\<lparr>gv_blocks := bs\<rparr>) = gov_republic_id s" "gov_republic_id (s\<lparr>gv_walk := w\<rparr>) = gov_republic_id s"
  "gov_republic_id (s\<lparr>gv_head := h\<rparr>) = gov_republic_id s" "gov_republic_id (s\<lparr>gv_head_moved_at := n\<rparr>) = gov_republic_id s"
  by (simp_all add: gov_republic_id_def)

lemma append_cases:
  assumes "append_committed_block X s b = Some (t, ok)"
  obtains (kept) e where "\<not> ok" "current_walk X s = Inl e" "t = s\<lparr>gv_walk := None\<rparr>"
  | (refused) w where "\<not> ok" "current_walk X s = Inr w" "t = s\<lparr>gv_walk := Some w\<rparr>"
  | (taken) w w' where "ok" "current_walk X s = Inr w" "step X (held_bases X s) w b = Inr w'"
      "t = (let s2 = project_one b (s\<lparr>gv_walk := Some w', gv_head := Some (w_head w'), gv_head_moved_at := gv_now s\<rparr>)
            in bump_next_id_past_chain (s2\<lparr>gv_blocks := gv_blocks s2 @ [b]\<rparr>))"
proof (cases "current_walk X s")
  case (Inl e)
  with assms show thesis
    by (intro kept) (auto simp: append_committed_block_def extend_own_def split: fault.splits)
next
  case (Inr w)
  obtain w' r where r: "walk_step X w b (held_bases X s) = (w', r)" by fastforce
  show thesis
  proof (cases r)
    case (Inl e)
    with assms Inr r walk_step_refused[of X w b _ w' e] show thesis
      by (intro refused[OF _ Inr]) (auto simp: append_committed_block_def extend_own_def split: fault.splits)
  next
    case (Inr u)
    with assms \<open>current_walk X s = Inr w\<close> r walk_step_taken[of X w b _ w' u] show thesis
      by (intro taken[of w w']) (auto simp: append_committed_block_def extend_own_def Let_def)
  qed
qed

lemma append_chain_ok:
  assumes ok: "chain_ok X s" and h: "gv_head s = Some h" and a: "append_committed_block X s b = Some (t, r)"
  shows "chain_ok X t"
  using a
proof (cases rule: append_cases)
  case (kept e)
  then show ?thesis using ok h by (auto simp: chain_ok_def gov_republic_id_def)
next
  case (refused w)
  obtain v where v: "own_walks X (gv_blob s) (gov_republic_id s) (gv_blocks s) v" "h = w_head v"
    "ch_republic_id h = gov_republic_id s" "gov_republic_id s \<noteq> []"
    using chain_okE[OF ok h] by metis
  have "w = v" using own_walks_unique[OF v(1) current_walk_own[OF ok h refused(2)]] .
  then show ?thesis
    using v h refused(3) by (intro chain_okI[where w = v]) (simp_all add: gov_republic_id_def cache_ok_def)
next
  case (taken w w')
  obtain v where v: "own_walks X (gv_blob s) (gov_republic_id s) (gv_blocks s) v" "h = w_head v"
    "ch_republic_id h = gov_republic_id s" "gov_republic_id s \<noteq> []"
    using chain_okE[OF ok h] by metis
  have w: "w = v" using own_walks_unique[OF v(1) current_walk_own[OF ok h taken(2)]] .
  have "own_walks X (gv_blob s) (gov_republic_id s) (gv_blocks s @ [b]) w'"
    using own_step[OF v(1)] taken(3) w by blast
  moreover have "ch_republic_id (w_head w') = gov_republic_id s"
    using next_facts[OF taken(3)] w v by simp
  ultimately have "chain_ok X (project_one b
      (s\<lparr>gv_walk := Some w', gv_head := Some (w_head w'), gv_head_moved_at := gv_now s\<rparr>)
      \<lparr>gv_blocks := gv_blocks s @ [b]\<rparr>)"
    using v(4) by (intro chain_okI[where w = w']) (simp_all add: cache_ok_def)
  then show ?thesis by (simp add: taken(4) Let_def chain_ok_part[OF chain_part_ops(10)])
qed

section \<open>The projection\<close>

text \<open>What a rebuild from the summary and the blocks would put into the state.\<close>

definition projected :: "gov_state \<Rightarrow> bool" where
  "projected s \<longleftrightarrow>
     gv_applied s = projected_applied (gv_blob s) (gv_blocks s) \<and>
     gv_applied_sigs s = projected_sigs (gv_blocks s) \<and>
     gv_anchors s = projected_anchors (gv_blob s) (gv_blocks s) \<and>
     gv_member_relays s = projected_relays (gv_blob s) (gv_blocks s) \<and>
     (\<forall>h r. gv_head s = Some h \<longrightarrow> gv_replica s = Some r \<longrightarrow>
        rp_identities r = ch_identities h \<and> rp_roster r = map mi_member (ch_identities h))"

lemma projected_part: "chain_part t = chain_part s \<Longrightarrow> projected t = projected s"
  using chain_part_eqD[of t s] by (simp add: projected_def)

lemma projected_applied_snoc: "projected_applied blob (bs @ [b]) = ext_applied b (projected_applied blob bs)"
  by (simp add: projected_applied_def ext_applied_def map_filter_def split: option.split prod.split)

lemma projected_sigs_snoc: "projected_sigs (bs @ [b]) = ext_sigs b (projected_sigs bs)"
  by (simp add: projected_sigs_def ext_sigs_def split: option.split)

lemma projected_anchors_snoc: "projected_anchors blob (bs @ [b]) = ext_anchors b (projected_anchors blob bs)"
  by (simp add: projected_anchors_def ext_anchors_def working_anchors_def split: option.split)

lemma projected_relays_snoc: "projected_relays blob (bs @ [b]) = ext_relays b (projected_relays blob bs)"
  by (simp add: projected_relays_def ext_relays_def declared_relays_def split: option.split)

lemmas projected_snoc = projected_applied_snoc projected_sigs_snoc projected_anchors_snoc projected_relays_snoc

lemma adopt_head_roster_seats:
  assumes "gv_head s = Some h" "gv_replica (adopt_head_roster s) = Some r"
  shows "rp_identities r = ch_identities h \<and> rp_roster r = map mi_member (ch_identities h)"
  using assms by (auto simp: adopt_head_roster_def)

lemma project_one_seats:
  assumes "gv_head s = Some h" "gv_replica (project_one b s) = Some r"
  shows "rp_identities r = ch_identities h \<and> rp_roster r = map mi_member (ch_identities h)"
  using assms unfolding project_one_eq by (intro adopt_head_roster_seats) auto

lemma append_projected:
  assumes "projected s" "append_committed_block X s b = Some (t, r)"
  shows "projected t"
  using assms(2)
proof (cases rule: append_cases)
  case (taken w w')
  let ?s = "s\<lparr>gv_walk := Some w', gv_head := Some (w_head w'), gv_head_moved_at := gv_now s\<rparr>"
  have t: "chain_part t = chain_part (project_one b ?s\<lparr>gv_blocks := gv_blocks s @ [b]\<rparr>)"
    by (simp add: taken(4) Let_def)
  have seats: "\<forall>r. gv_replica (project_one b ?s) = Some r \<longrightarrow>
      rp_identities r = ch_identities (w_head w') \<and> rp_roster r = map mi_member (ch_identities (w_head w'))"
    using project_one_seats[of ?s "w_head w'"] by simp
  show ?thesis
    unfolding projected_part[OF t] using assms(1) seats
    by (simp add: projected_def projected_snoc) (simp add: project_one_eq)
qed (use assms(1) in \<open>simp_all add: projected_def\<close>)

text \<open>
  What the other components may do when they react: they work on their own cards and never on
  the chain.
\<close>

definition hooks_ok :: "hooks \<Rightarrow> bool" where
  "hooks_ok H \<longleftrightarrow>
     (\<forall>s. chain_part (hk_vault_stale H s) = chain_part s) \<and>
     (\<forall>p s. chain_part (hk_vault_applied H p s) = chain_part s) \<and>
     (\<forall>i p s. chain_part (hk_wallet_applied H i p s) = chain_part s) \<and>
     (\<forall>s. chain_part (hk_org_applied H s) = chain_part s) \<and>
     (\<forall>bs ids s. chain_part (hk_vault_displaced H bs ids s) = chain_part s) \<and>
     (\<forall>s. chain_part (hk_wallet_commit H s) = chain_part s)"

lemma hooks_part [simp]:
  assumes "hooks_ok H"
  shows "chain_part (hk_vault_stale H s) = chain_part s" "chain_part (hk_vault_applied H p s) = chain_part s"
    "chain_part (hk_wallet_applied H i p s) = chain_part s" "chain_part (hk_org_applied H s) = chain_part s"
    "chain_part (hk_vault_displaced H bs ids s) = chain_part s" "chain_part (hk_wallet_commit H s) = chain_part s"
  using assms by (simp_all add: hooks_ok_def)

lemma apply_chain_facts:
  assumes "hooks_ok H" "apply_chain_to_state X H ts s = Some t"
  shows "gv_head t = gv_head s" "gv_blocks t = gv_blocks s" "gv_walk t = gv_walk s" "gv_blob t = gv_blob s"
    "gv_held t = gv_held s" "gv_legacy t = gv_legacy s" "gov_republic_id t = gov_republic_id s" "projected t"
proof -
  let ?s1 = "bump_applied_epoch (s\<lparr>gv_applied := projected_applied (gv_blob s) (gv_blocks s),
                    gv_applied_sigs := projected_sigs (gv_blocks s)\<rparr>)"
  obtain s3 s4 where r: "refresh_wiki_cache X (settle_cards_against_chain ts ?s1) = Some s3"
    "supersede_stale_wiki X None s3 = Some s4"
    "t = adopt_head_roster ((hk_vault_stale H s4)\<lparr>gv_anchors := projected_anchors (gv_blob (hk_vault_stale H s4)) (gv_blocks (hk_vault_stale H s4)),
               gv_member_relays := projected_relays (gv_blob (hk_vault_stale H s4)) (gv_blocks (hk_vault_stale H s4))\<rparr>)"
    using assms(2) by (auto simp: apply_chain_to_state_def Let_def bind_eq_Some_conv)
  have c: "chain_part (hk_vault_stale H s4) = chain_part (s\<lparr>gv_applied := projected_applied (gv_blob s) (gv_blocks s),
                    gv_applied_sigs := projected_sigs (gv_blocks s)\<rparr>)"
    using chain_part_refresh[OF r(1)] chain_part_supersede[OF r(2)] assms(1) by simp
  note d = chain_part_eqD[OF c]
  show k: "gv_head t = gv_head s" "gv_blocks t = gv_blocks s" "gv_walk t = gv_walk s" "gv_blob t = gv_blob s"
    "gv_held t = gv_held s" "gv_legacy t = gv_legacy s" "gov_republic_id t = gov_republic_id s"
    using d unfolding r(3) by (simp_all, simp add: gov_republic_id_def)
  have "gv_applied t = projected_applied (gv_blob s) (gv_blocks s)" "gv_applied_sigs t = projected_sigs (gv_blocks s)"
    "gv_anchors t = projected_anchors (gv_blob s) (gv_blocks s)" "gv_member_relays t = projected_relays (gv_blob s) (gv_blocks s)"
    using d unfolding r(3) by simp_all
  moreover have "rp_identities r = ch_identities h \<and> rp_roster r = map mi_member (ch_identities h)"
    if "gv_head t = Some h" "gv_replica t = Some r" for h r
    using that d(1) unfolding r(3) by (intro adopt_head_roster_seats) auto
  ultimately show "projected t" using k by (simp add: projected_def)
qed

lemma apply_chain_chain_ok:
  assumes "hooks_ok H" "apply_chain_to_state X H ts s = Some t"
  shows "chain_ok X t = chain_ok X s"
  using apply_chain_facts[OF assms] by (simp add: chain_ok_def split: option.split)

section \<open>Adopting a whole chain\<close>

lemma own_walks_rid:
  assumes "own_walks X (Some c) rid bs w"
  shows "ch_republic_id (w_head w) = rid"
  using assms
proof (induction rule: own_walks.induct)
  case (own_anchor c' a w)
  then show ?case
    by (auto simp: anchor_walk_def check_anchor_founding_def rbind_eq_Inr Let_def split: option.splits)
next
  case (own_step bs w h b w')
  then show ?case using next_facts[OF own_step(2)] by simp
qed auto

lemma own_walks_genesis:
  assumes "own_walks X None rid bs w"
  shows "\<exists>g rest hd0. bs = g # rest \<and> verify_genesis X g = Inr hd0 \<and> ch_republic_id (w_head w) = ch_republic_id hd0"
  using assms
proof (induction rule: own_walks.induct)
  case (own_genesis g w)
  then show ?case using genesis_walk_Inr[OF own_genesis(2)] by auto
next
  case (own_step bs w h b w')
  then show ?case using next_facts[OF own_step(2)] by auto
qed auto

text \<open>The genesis of a candidate names this republic; a holder of a summary checks it in the walk.\<close>

definition names_republic :: "gov_state \<Rightarrow> chain_block list \<Rightarrow> bool" where
  "names_republic s bs =
     (gv_blob s \<noteq> None \<or> (case bs of [] \<Rightarrow> True
        | g # _ \<Rightarrow> (case blk_change g of Genesis _ rid _ _ _ _ _ _ \<Rightarrow> rid = gov_republic_id s | _ \<Rightarrow> True)))"

lemma own_walks_names:
  assumes "own_walks X (gv_blob s) (gov_republic_id s) bs w" "names_republic s bs"
  shows "ch_republic_id (w_head w) = gov_republic_id s"
proof (cases "gv_blob s")
  case None
  with assms(1) own_walks_genesis[of X "gov_republic_id s" bs w] obtain g rest hd0
    where g: "bs = g # rest" "verify_genesis X g = Inr hd0" "ch_republic_id (w_head w) = ch_republic_id hd0" by auto
  from verify_genesis_Inr[OF g(2)] g assms(2) None show ?thesis by (auto simp: names_republic_def)
next
  case (Some c)
  then show ?thesis using assms(1) own_walks_rid by metis
qed

lemma adopt_chain_ok:
  assumes H: "hooks_ok H" and a: "adopt_chain X H ts bs s = Some t" and rid: "gov_republic_id s \<noteq> []"
    and n: "names_republic s bs"
  shows "chain_ok X t" "gv_head t \<noteq> None \<Longrightarrow> projected t"
proof -
  let ?s = "s\<lparr>gv_adoption_pending := False\<rparr>"
  have s: "gov_republic_id ?s = gov_republic_id s" "gv_blob ?s = gv_blob s" by (simp_all add: gov_republic_id_def)
  have "chain_ok X t \<and> (gv_head t \<noteq> None \<longrightarrow> projected t)"
  proof (cases "walk_own X ?s bs")
    case (Inr w)
    let ?u = "bump_next_id_past_chain (?s\<lparr>gv_blocks := bs, gv_head := Some (w_head w), gv_head_moved_at := gv_now ?s,
                 gv_walk := Some w\<rparr>)"
    have t: "apply_chain_to_state X H ts ?u = Some t" using a Inr by (simp add: adopt_chain_def)
    have w: "own_walks X (gv_blob s) (gov_republic_id s) bs w" using walk_own_walks[OF Inr] s by simp
    have u: "chain_part ?u = chain_part (?s\<lparr>gv_blocks := bs, gv_head := Some (w_head w), gv_walk := Some w\<rparr>)"
      by (simp add: chain_part_def bump_next_id_past_chain_def)
    have "chain_ok X (?s\<lparr>gv_blocks := bs, gv_head := Some (w_head w), gv_walk := Some w\<rparr>)"
      using w own_walks_names[OF w n] rid s by (intro chain_okI[where w = w]) (simp_all add: cache_ok_def)
    then show ?thesis
      using apply_chain_chain_ok[OF H t] apply_chain_facts(8)[OF H t] chain_ok_part[OF u] by simp
  next
    case (Inl e)
    then show ?thesis using a rid
      by (auto simp: adopt_chain_def chain_ok_def set_checkpoint_blob_def bump_applied_epoch_def gov_republic_id_def
          split: fault.splits)
  qed
  then show "chain_ok X t" "gv_head t \<noteq> None \<Longrightarrow> projected t" by simp_all
qed

end
