(* ===== verification/Gov_Prune.thy ===== *)
theory Gov_Prune
  imports Gov_Chain_Laws Chain_Pruning
begin

text \<open>
  A compaction cut at the tip: the summary a holder computes from its own chain anchors the block
  that sealed it, for a holder from the genesis and for one that was already pruned.
\<close>

section \<open>What every walk of a holder keeps of the founding\<close>

definition ratified :: "extern \<Rightarrow> chain_walk \<Rightarrow> bool" where
  "ratified X w \<longleftrightarrow>
     founding_inv w \<and>
     republic_id X (cs_founding_name (w_running w)) (cs_rule_m (w_running w)) (cs_rule_n (w_running w))
       (cs_founding_identities (w_running w)) = Some (cs_republic_id (w_running w)) \<and>
     cs_rule_m (w_running w) \<noteq> 0 \<and> cs_rule_m (w_running w) \<le> cs_rule_n (w_running w) \<and>
     unat (cs_rule_n (w_running w)) = length (cs_founding_identities (w_running w)) \<and>
     (list_ex (\<lambda>i. mi_vault_pk i \<noteq> []) (cs_founding_identities (w_running w)) \<longrightarrow>
        is_ok (check_roster_keys X (cs_rule_m (w_running w)) (cs_rule_n (w_running w))
                 (cs_founding_identities (w_running w)) (cs_founding_features (w_running w))))"

definition seated :: "checkpoint_state option \<Rightarrow> bool" where
  "seated blob \<longleftrightarrow> (\<forall>c. blob = Some c \<longrightarrow> cs_roster c = cs_founding_identities c)"

lemma anchor_walk_facts:
  assumes "anchor_walk X c a rid = Inr w"
  shows "w_running w = c" "w_vault w = ctx_from_founding (cs_rule_m c) (cs_founding_identities c)"
    "ch_republic_id (w_head w) = cs_republic_id c" "ch_rule_m (w_head w) = cs_rule_m c"
    "ch_identities (w_head w) = cs_roster c" "\<exists>k. check_anchor_founding X c rid k = Inr ()"
    "\<exists>k. cut_kind_of (blk_change a) = Some k" "ch_height (w_head w) = blk_height a"
  using assms by (auto simp: anchor_walk_def rbind_eq_Inr Let_def split: option.splits)

lemma anchor_founding_facts:
  assumes "check_anchor_founding X c rid k = Inr ()"
  shows "republic_id X (cs_founding_name c) (cs_rule_m c) (cs_rule_n c) (cs_founding_identities c) = Some (cs_republic_id c)"
    "cs_rule_m c \<noteq> 0" "cs_rule_m c \<le> cs_rule_n c" "unat (cs_rule_n c) = length (cs_founding_identities c)"
    "list_ex (\<lambda>i. mi_vault_pk i \<noteq> []) (cs_founding_identities c) \<longrightarrow>
        is_ok (check_roster_keys X (cs_rule_m c) (cs_rule_n c) (cs_founding_identities c) (cs_founding_features c))"
  using assms
  by (auto simp: check_anchor_founding_def rbind_eq_Inr Let_def refusing_eq_Inr is_ok_iff split: if_splits)

lemma own_walks_ratified:
  assumes "own_walks X blob rid bs w" "seated blob"
  shows "ratified X w"
  using assms
proof (induction rule: own_walks.induct)
  case (own_genesis g w)
  note w = walks_genesis[OF own_genesis(2)]
  show ?case using walks_founding_inv[OF w] walks_constitution[OF w] by (simp add: ratified_def)
next
  case (own_anchor c a w)
  from anchor_walk_facts(6)[OF own_anchor(2)] obtain k where k: "check_anchor_founding X c rid k = Inr ()" by blast
  show ?case
    using anchor_walk_facts(1-5)[OF own_anchor(2)] anchor_founding_facts[OF k] own_anchor(1,3)
    by (simp add: ratified_def founding_inv_def seated_def)
next
  case (own_step bs w h b w')
  from chain_fold_one_fixed[OF step_facts(3)[OF own_step(2)]]
  have c: "constitution_of (w_running w') = constitution_of (w_running w)" "cs_roster (w_running w') = cs_roster (w_running w)"
    by simp_all
  show ?case
    using own_step c next_facts[OF own_step(2)] step_facts(6)[OF own_step(2)]
    by (simp add: ratified_def founding_inv_def constitution_of_def)
qed

section \<open>Heights of a held chain\<close>

lemma stands_height:
  assumes "stands_at X blob bs w" "i < length bs"
  shows "unat (blk_height (bs ! i)) = unat (blk_height (hd bs)) + i"
  using assms(2)
proof (induction i)
  case 0
  then show ?case by (simp add: hd_conv_nth)
next
  case (Suc i)
  then show ?case using assms(1) by (simp add: stands_at_def)
qed

lemma stands_below_head:
  assumes "stands_at X blob bs w" "b \<in> set bs"
  shows "blk_height b \<le> ch_height (w_head w)"
proof -
  have ne: "bs \<noteq> []" using assms(2) by auto
  obtain i where i: "i < length bs" "b = bs ! i" using assms(2) by (auto simp: in_set_conv_nth)
  have "unat (blk_height (last bs)) = unat (blk_height (hd bs)) + (length bs - 1)"
    using stands_height[OF assms(1), of "length bs - 1"] ne by (simp add: last_conv_nth)
  then show ?thesis
    using stands_height[OF assms(1) i(1)] i assms(1) by (simp add: stands_at_def word_le_nat_alt)
qed

lemma stands_tail_above:
  assumes "stands_at X blob (pre @ [b]) w" "x \<in> set pre"
  shows "blk_height x < blk_height b"
proof -
  obtain i where i: "i < length pre" "x = pre ! i" using assms(2) by (auto simp: in_set_conv_nth)
  show ?thesis
    using stands_height[OF assms(1), of i] stands_height[OF assms(1), of "length pre"] i
    by (simp add: nth_append word_less_nat_alt)
qed

section \<open>The projection at a cut\<close>

definition own_state :: "extern \<Rightarrow> checkpoint_state option \<Rightarrow> chain_block list \<Rightarrow> u64 \<Rightarrow> string fault + checkpoint_state" where
  "own_state X blob bs up = (case blob of None \<Rightarrow> checkpoint_state_of X bs up | Some c \<Rightarrow> fold_state X c bs up)"

lemma own_walks_running:
  assumes "own_walks X blob rid bs w"
  shows "case blob of
      None \<Rightarrow> (\<exists>g rest w0. bs = g # rest \<and> genesis_walk X g = Inr w0 \<and> w_vault w = w_vault w0 \<and>
        rfold (\<lambda>s b. chain_fold_one X s b (w_vault w0)) (w_running w0) rest = Inr (w_running w))
    | Some c \<Rightarrow> w_vault w = ctx_from_founding (cs_rule_m c) (cs_founding_identities c) \<and>
        rfold (\<lambda>s b. chain_fold_one X s b (ctx_from_founding (cs_rule_m c) (cs_founding_identities c))) c bs
          = Inr (w_running w)"
  using assms
proof (induction rule: own_walks.induct)
  case (own_genesis g w)
  then show ?case by auto
next
  case (own_anchor c a w)
  from anchor_walk_facts(7)[OF own_anchor(2)] chain_fold_one_neutral
  have "chain_fold_one X c a v = Inr c" for v by blast
  then show ?case using own_anchor(1) anchor_walk_facts(1,2)[OF own_anchor(2)] by simp
next
  case (own_step bs w h b w')
  note f = step_facts(3,6)[OF own_step(2)]
  show ?case
  proof (cases blob)
    case None
    with own_step.IH obtain g rest w0 where r: "bs = g # rest" "genesis_walk X g = Inr w0" "w_vault w = w_vault w0"
      "rfold (\<lambda>s b. chain_fold_one X s b (w_vault w0)) (w_running w0) rest = Inr (w_running w)" by auto
    have "rfold (\<lambda>s b. chain_fold_one X s b (w_vault w0)) (w_running w0) (rest @ [b]) = Inr (w_running w')"
      using r(3,4) f(1) by (simp add: rfold_append)
    then show ?thesis using None r f(2) by auto
  next
    case (Some c)
    then show ?thesis using own_step.IH f by (simp add: rfold_append)
  qed
qed

lemma own_state_at_tip:
  assumes w: "own_walks X blob rid pre w" and b: "blk_height b > ch_height (w_head w)"
  shows "own_state X blob (pre @ [b]) (ch_height (w_head w)) = Inr (at_cut (w_running w) (ch_height (w_head w)))"
proof -
  let ?up = "ch_height (w_head w)"
  have all: "takeWhile (\<lambda>x. \<not> blk_height x > ?up) (xs @ [b]) = xs" if "set xs \<subseteq> set pre" for xs
  proof -
    have "\<not> blk_height x > ?up" if "x \<in> set xs" for x
      using stands_below_head[OF own_walks_stands[OF w], of x] \<open>set xs \<subseteq> set pre\<close> that by (auto simp: not_less)
    then show ?thesis using b by (simp add: takeWhile_append2)
  qed
  show ?thesis
  proof (cases blob)
    case None
    with own_walks_running[OF w] obtain g rest w0 where r: "pre = g # rest" "genesis_walk X g = Inr w0"
      "rfold (\<lambda>s b. chain_fold_one X s b (w_vault w0)) (w_running w0) rest = Inr (w_running w)" by auto
    from genesis_walk_Inr[OF r(2)] obtain nm rid' m n ids ag rl ft where
      g: "blk_change g = Genesis nm rid' m n ids ag rl ft" "w_running w0 = genesis_base nm m n ids ag rid' rl ft"
        "w_vault w0 = ctx_from_founding m ids" by auto
    have "takeWhile (\<lambda>x. \<not> blk_height x > ?up) (rest @ [b]) = rest" by (rule all) (auto simp: r(1))
    then show ?thesis
      using r g by (simp add: own_state_def None checkpoint_state_of_def fold_state_def Let_def genesis_base_def)
  next
    case (Some c)
    then show ?thesis
      using own_walks_running[OF w] all[of pre] by (simp add: own_state_def fold_state_def Let_def)
  qed
qed

section \<open>The summary anchors the cut\<close>

lemma vault_summarize_state_fixed:
  assumes "vault_summarize_state X s base = Inr (s', b)"
  shows "constitution_of s' = constitution_of s \<and> cs_roster s' = cs_roster s \<and> cs_upto s' = cs_upto s"
  using assms by (auto simp: vault_summarize_state_def rbind_eq_Inr constitution_of_def split: option.splits)

lemma fold_cut_fixed:
  assumes "fold_cut X s kind h = Inr (blob, fc)"
  shows "constitution_of blob = constitution_of s" "cs_roster blob = cs_roster s" "cs_upto blob = cs_upto s"
    "checkpoint_state_hash X blob = Some (fc_hash fc)"
proof -
  obtain s1 tree where s1: "(if ck_wiki kind then wiki_summarize_state X s (case held_wiki h of None \<Rightarrow> [] | Some t \<Rightarrow> t)
      else Inr (s, None)) = Inr (s1, tree)"
    and r: "rbind (if ck_vault kind then rbind (vault_summarize_state X s1 (held_vault h)) (\<lambda>(s, b). Inr (s, Some b))
            else Inr (s1, None)) (\<lambda>(state2, vault).
     rbind (or_panic (checkpoint_state_hash X state2)) (\<lambda>hash.
       Inr (state2, \<lparr>fc_tree = tree, fc_vault = vault, fc_hash = hash\<rparr>))) = Inr (blob, fc)"
    using assms by (auto simp: fold_cut_def rbind_eq_Inr)
  have a: "constitution_of s1 = constitution_of s \<and> cs_roster s1 = cs_roster s \<and> cs_upto s1 = cs_upto s"
  proof (cases "ck_wiki kind")
    case True
    from s1 True have "wiki_summarize_state X s (case held_wiki h of None \<Rightarrow> [] | Some t \<Rightarrow> t) = Inr (s1, tree)"
      by (simp only: if_True)
    from wiki_summarize_state_fixed[OF this] show ?thesis by (simp add: rest_rel_def)
  qed (use s1 in simp)
  have b: "constitution_of blob = constitution_of s1 \<and> cs_roster blob = cs_roster s1 \<and> cs_upto blob = cs_upto s1 \<and>
      checkpoint_state_hash X blob = Some (fc_hash fc)"
  proof (cases "ck_vault kind")
    case True
    then obtain vb where "vault_summarize_state X s1 (held_vault h) = Inr (blob, vb)"
      "checkpoint_state_hash X blob = Some (fc_hash fc)"
      using r by (auto simp: rbind_eq_Inr)
    then show ?thesis using vault_summarize_state_fixed by blast
  qed (use r in \<open>auto simp: rbind_eq_Inr\<close>)
  show "constitution_of blob = constitution_of s" "cs_roster blob = cs_roster s" "cs_upto blob = cs_upto s"
    "checkpoint_state_hash X blob = Some (fc_hash fc)" using a b by simp_all
qed

lemma ratified_founding:
  assumes "ratified X w" "constitution_of blob = constitution_of (w_running w)" "cs_roster blob = cs_roster (w_running w)"
    "(w_vault w \<noteq> None) = ck_vault kind"
  shows "check_anchor_founding X blob (cs_republic_id blob) kind = Inr ()" "check_anchor_roster blob = Inr ()"
proof -
  have c: "cs_founding_name blob = cs_founding_name (w_running w)" "cs_rule_m blob = cs_rule_m (w_running w)"
    "cs_rule_n blob = cs_rule_n (w_running w)" "cs_republic_id blob = cs_republic_id (w_running w)"
    "cs_founding_identities blob = cs_founding_identities (w_running w)"
    "cs_founding_features blob = cs_founding_features (w_running w)"
    using assms(2) by (simp_all add: constitution_of_def)
  have f: "founding_inv w" using assms(1) by (simp add: ratified_def)
  have keyed: "list_ex (\<lambda>i. mi_vault_pk i \<noteq> []) (cs_founding_identities blob) = ck_vault kind"
    using assms(4) f c
    by (auto simp: founding_inv_def ctx_from_founding_def list_ex_iff list_all_iff split: if_splits)
  have roster: "cs_roster blob = cs_founding_identities blob" using f assms(3) c by (simp add: founding_inv_def)
  have ne: "cs_founding_identities (w_running w) \<noteq> []"
    using assms(1) by (auto simp: ratified_def word_le_nat_alt unsigned_eq_0_iff)
  show "check_anchor_founding X blob (cs_republic_id blob) kind = Inr ()"
    unfolding check_anchor_founding_def Let_def keyed
    using assms(1) roster ne keyed by (auto simp: c ratified_def is_ok_iff reject_if_def refusing_def not_less)
  show "check_anchor_roster blob = Inr ()" by (rule check_roster_ok[OF roster])
qed

lemma cut_anchors:
  assumes w: "own_walks X blob rid pre w" and seat: "seated blob" and c: "step X h w c = Inr w1"
    and cut: "cut_kind_of (blk_change c) = Some (up, sh, kind)"
    and kept: "fold_cut X (at_cut (w_running w) up) kind h = Inr (blob', fc)"
  shows "\<exists>v. anchor_walk X blob' c (ch_republic_id (w_head w)) = Inr v \<and> w_head v = w_head w1" "seated (Some blob')"
proof -
  note n = next_facts[OF c] and r = own_walks_ratified[OF w seat]
  have inv: "founding_inv w" using r by (simp add: ratified_def)
  have checks: "check_cut_kind w (blk_height c) kind = Inr ()" "check_cut_content X w up sh kind h = Inr ()"
    using step_facts(8)[OF c cut] by simp_all
  have vault: "(w_vault w \<noteq> None) = ck_vault kind"
    using checks(1) by (auto simp: check_cut_kind_def rbind_eq_Inr)
  have hash: "fc_hash fc = sh"
    using checks(2) kept by (auto simp: check_cut_content_def rbind_eq_Inr hash_walk_state_def)
  have height: "blk_height c \<noteq> 0" "up = blk_height c - 1"
    using n check_change_consumed[of c "w_seen w" "applied_id c"] cut by auto
  have same: "constitution_of blob' = constitution_of (w_running w)" "cs_roster blob' = cs_roster (w_running w)"
    "cs_upto blob' = up" "checkpoint_state_hash X blob' = Some sh"
    using fold_cut_fixed[OF kept] hash by (simp_all add: at_cut_def constitution_of_def)
  have roster: "cs_roster blob' = cs_founding_identities blob'" "ch_identities (w_head w) = cs_founding_identities blob'"
    "ch_republic_id (w_head w) = cs_republic_id blob'" "ch_rule_m (w_head w) = cs_rule_m blob'"
    using same inv by (auto simp: constitution_of_def founding_inv_def)
  obtain msg where msg: "approval_bytes X (cs_republic_id blob') (blk_height c) (blk_change c) = Some msg"
    using n roster(3) by (auto simp: block_hash_def block_link_bytes_def cat_Cons_Some bind_eq_Some_conv)
  have signers: "unat (cs_rule_m blob') \<le> length (valid_signers X (cs_founding_identities blob') msg (blk_sigs c))"
    using n cut_signers[OF cut msg, of "cs_founding_identities blob'"] roster by simp
  have bh: "block_hash X (cs_republic_id blob') c = Some (ch_hash (w_head w1))" using n roster(3) by simp
  have "w_head w1 = \<lparr>ch_height = blk_height c, ch_hash = ch_hash (w_head w1), ch_republic_id = cs_republic_id blob',
      ch_rule_m = cs_rule_m blob', ch_identities = cs_roster blob'\<rparr>"
    using n roster by (intro chain_head.equality) simp_all
  then show "\<exists>v. anchor_walk X blob' c (ch_republic_id (w_head w)) = Inr v \<and> w_head v = w_head w1"
    unfolding anchor_walk_def roster(3)
    using same(3,4) height ratified_founding[OF r same(1,2) vault] msg signers bh
    by (simp add: cut reject_if_def Let_def)
  show "seated (Some blob')" using roster(1) by (simp add: seated_def)
qed

end
