(* ===== verification/Gov_Commit.thy ===== *)
theory Gov_Commit
  imports Gov_Chain
begin

text \<open>
  A node and what a committed block sets in motion: signing and gossiping, sealing and adopting,
  the bookkeeping behind every applied block, the re-base of standing approvals, consented
  restores and compaction cuts (\<open>molt-engine/src/chain/governance.rs\<close>, \<open>membership.rs\<close>,
  \<open>checkpoint.rs\<close>).

  A signature may seal a block, and its adoption re-signs other proposals, which may seal again.
  The functions take the adoption as an argument; \<open>adopt_committed\<close> closes the recursion with a bound
  on its depth. Each level has a higher head, so the heights left are a bound that is
  never reached. What a node records for its peers is appended to \<open>nd_out\<close>. An abort is \<open>None\<close>.

  Left out is what touches neither the chain nor its votes: events for the front ends, chat
  summaries, what an applied file or quest does, the re-key a coordinator runs, the recovery
  queues, and storage beyond whether a write reached the disk.
\<close>

section \<open>The node\<close>

datatype workspace_event =
    EvApproval approved_event
  | EvCommitted chain_block
  | EvCheckpointProposed u64 u64 string bool
  | EvCheckpointServed checkpoint_state
  | EvMembershipProposed u64 chain_change
  | EvChainRequest u64 "(u64 \<times> string) list"

record chain_divergence =
  dv_peer :: string
  dv_since_height :: u64
  dv_seen_ts :: u64

record node =
  nd_gov :: gov_state
  nd_pending_blocks :: "(u64, chain_block) btree"
  nd_fork_candidates :: "(u64, chain_block) btree"
  nd_diverged :: "(string, chain_divergence) btree"
  nd_peer_heights :: "(string, u64) btree"
  nd_catchup_from :: "u64 option"
  nd_served_blob :: "checkpoint_state option"
  nd_block_ts :: "u64 \<rightharpoonup> u64"
  nd_self_cosign :: bool
  nd_out :: "workspace_event list"

text \<open>Everything around a node: external code, the gates and the reactions of other components.\<close>

record surround =
  su_extern :: extern
  su_gates :: "gov_state \<Rightarrow> gates"
  su_hooks :: hooks
  su_canonical_pk :: "string \<Rightarrow> bool"
  su_blob_fits :: "checkpoint_state \<Rightarrow> bool"

type_synonym adopter = "node \<Rightarrow> chain_block \<Rightarrow> u64 \<Rightarrow> node option"

definition on_gov :: "(gov_state \<Rightarrow> gov_state) \<Rightarrow> node \<Rightarrow> node" where
  "on_gov f n = n\<lparr>nd_gov := f (nd_gov n)\<rparr>"

definition on_gov_opt :: "(gov_state \<Rightarrow> gov_state option) \<Rightarrow> node \<Rightarrow> node option" where
  "on_gov_opt f n = map_option (\<lambda>s. n\<lparr>nd_gov := s\<rparr>) (f (nd_gov n))"

definition record_event :: "workspace_event \<Rightarrow> node \<Rightarrow> node" where
  "record_event ev n = n\<lparr>nd_out := nd_out n @ [ev]\<rparr>"

text \<open>A loop whose body may abort.\<close>

fun ofold :: "('a \<Rightarrow> 'b \<Rightarrow> 'b option) \<Rightarrow> 'a list \<Rightarrow> 'b \<Rightarrow> 'b option" where
  "ofold f [] b = Some b"
| "ofold f (x # xs) b = Option.bind (f x b) (ofold f xs)"

section \<open>Signing and sealing\<close>

definition gates_at :: "surround \<Rightarrow> gov_state \<Rightarrow> gates" where
  "gates_at E s =
     (su_gates E s)\<lparr>ga_base_pending := vault_base_pending (su_extern E) s \<or> wiki_base_pending s\<rparr>"

definition chain_sign_and_gossip_approval :: "surround \<Rightarrow> adopter \<Rightarrow> u64 \<Rightarrow> node \<Rightarrow> node option" where
  "chain_sign_and_gossip_approval E adopt i n =
     (case sign_approval (su_extern E) (gates_at E (nd_gov n)) (nd_gov n) i of
        None \<Rightarrow> None
      | Some (s, ev, block) \<Rightarrow>
          (let n1 = (case ev of None \<Rightarrow> n\<lparr>nd_gov := s\<rparr> | Some e \<Rightarrow> record_event (EvApproval e) (n\<lparr>nd_gov := s\<rparr>)) in
           case block of None \<Rightarrow> Some n1 | Some b \<Rightarrow> adopt n1 b i))"

definition commit_if_sealed :: "surround \<Rightarrow> adopter \<Rightarrow> u64 \<Rightarrow> node \<Rightarrow> node option" where
  "commit_if_sealed E adopt i n =
     (case try_commit (su_extern E) (nd_gov n) i of
        None \<Rightarrow> None
      | Some (s, block) \<Rightarrow>
          (case block of None \<Rightarrow> Some (n\<lparr>nd_gov := s\<rparr>) | Some b \<Rightarrow> adopt (n\<lparr>nd_gov := s\<rparr>) b i))"

definition drain_held_seals :: "surround \<Rightarrow> adopter \<Rightarrow> node \<Rightarrow> node option" where
  "drain_held_seals E adopt n =
     (let s = nd_gov n;
          held = filter (\<lambda>i. case bt_get (gv_proposals s) i of None \<Rightarrow> True | Some p \<Rightarrow> pr_state p = StProposed)
                   (gv_seal_held s) in
      ofold (commit_if_sealed E adopt) held (n\<lparr>nd_gov := s\<lparr>gv_seal_held := []\<rparr>\<rparr>))"

section \<open>Consented restores\<close>

definition next_chain_height :: "gov_state \<Rightarrow> u64" where
  "next_chain_height s = (case gv_head s of None \<Rightarrow> 1 | Some h \<Rightarrow> u64_sat_add (ch_height h) 1)"

text \<open>The answer of a check: \<open>None\<close> on an abort, otherwise the refusal if there is one.\<close>

definition refusal_of :: "string fault + 'a \<Rightarrow> string option option" where
  "refusal_of r = (case r of Inr _ \<Rightarrow> Some None | Inl (Refused why) \<Rightarrow> Some (Some why) | Inl Panic \<Rightarrow> None)"

definition consent_never_seals :: "extern \<Rightarrow> gov_state \<Rightarrow> chain_change \<Rightarrow> string option option" where
  "consent_never_seals X s change =
     (let nxt = next_chain_height s in
      case change of
        Membership _ member _ nostr_pk relays (Some consent) \<Rightarrow>
          (case parse_restore_consent consent of
             Some (ConsentV2 anchor_height _ _) \<Rightarrow>
               if nxt \<le> anchor_height then
                 if anchor_height - nxt \<ge> restore_consent_window
                 then Some (Some ''consent is ahead of the chain'')
                 else (case anchored_identity s member of
                         None \<Rightarrow> Some (Some ''not an anchored seat'')
                       | Some anchored \<Rightarrow>
                           refusal_of (verify_restore_consent X (gov_republic_id s) anchored
                             (u64_sat_add anchor_height 1) member nostr_pk relays consent))
               else refusal_of (restore_consent_at X s change nxt)
           | _ \<Rightarrow> refusal_of (restore_consent_at X s change nxt))
      | _ \<Rightarrow> refusal_of (restore_consent_at X s change nxt))"

definition anchor_seen_in_chain :: "gov_state \<Rightarrow> string \<Rightarrow> bool" where
  "anchor_seen_in_chain s pk \<longleftrightarrow>
     pk \<noteq> [] \<and>
     ((case gv_replica s of None \<Rightarrow> False | Some r \<Rightarrow> list_ex (\<lambda>i. mi_nostr_pk i = pk) (rp_identities r)) \<or>
      list_ex (\<lambda>b. case blk_change b of Membership Restored _ _ (Some a) _ _ \<Rightarrow> a = pk | _ \<Rightarrow> False) (gv_blocks s) \<or>
      (case gv_blob s of None \<Rightarrow> False | Some blob \<Rightarrow> list_ex (\<lambda>(_, a). a = pk) (cs_anchors blob)))"

definition restore_sealed :: "gov_state \<Rightarrow> chain_change \<Rightarrow> bool" where
  "restore_sealed s change =
     (case change of
        Membership Restored member _ (Some pk) _ _ \<Rightarrow>
          list_ex (\<lambda>b. case blk_change b of Membership Restored m _ (Some a) _ _ \<Rightarrow> m = member \<and> a = pk | _ \<Rightarrow> False)
            (gv_blocks s) \<or>
          (case gv_blob s of None \<Rightarrow> False | Some blob \<Rightarrow> list_ex (\<lambda>(m, a). m = member \<and> a = pk) (cs_anchors blob))
      | _ \<Rightarrow> False)"

definition auto_approve_restore :: "surround \<Rightarrow> adopter \<Rightarrow> u64 \<Rightarrow> node \<Rightarrow> node option" where
  "auto_approve_restore E adopt i n =
     (let s = nd_gov n; me = gov_member s in
      case bt_get (gv_proposal_changes s) i of
        Some (Membership Restored member identity_pk nostr_pk relays (Some consent)) \<Rightarrow>
          if terminal_card s i \<or> me = member then Some n
          else (case gv_head s of
                  None \<Rightarrow> Some n
                | Some h \<Rightarrow>
                    if anchored_identity s member \<noteq> Some identity_pk then Some n
                    else if (case nostr_pk of None \<Rightarrow> False
                             | Some npk \<Rightarrow> \<not> su_canonical_pk E npk \<or> anchor_seen_in_chain s npk) then Some n
                    else if me \<in> set (current_decliners s i) then Some n
                    else (case restore_consent_at (su_extern E) s
                                 (Membership Restored member identity_pk nostr_pk relays (Some consent))
                                 (u64_sat_add (ch_height h) 1) of
                            Inl Panic \<Rightarrow> None
                          | Inl (Refused _) \<Rightarrow> Some n
                          | Inr KindV1 \<Rightarrow> Some n
                          | Inr (KindV2 _) \<Rightarrow>
                              Option.bind (own_signature_stands s i) (\<lambda>stands.
                                if stands then Some n else chain_sign_and_gossip_approval E adopt i n)))
      | _ \<Rightarrow> Some n)"

text \<open>One registered change in the sweep: dead, reachable or neither.\<close>

definition sweep_entry ::
  "extern \<Rightarrow> gov_state \<Rightarrow> u64 \<times> chain_change \<Rightarrow> u64 list \<times> u64 list \<Rightarrow> (u64 list \<times> u64 list) option" where
  "sweep_entry X s e acc =
     (case (snd e, acc) of
        (Membership _ _ _ _ _ (Some consent), (dead, reachable)) \<Rightarrow>
          (case parse_restore_consent consent of
             Some (ConsentV2 anchor_height _ _) \<Rightarrow>
               Option.bind (consent_never_seals X s (snd e)) (\<lambda>why.
                 if why \<noteq> None then Some (dead @ [fst e], reachable)
                 else if (case gv_head s of None \<Rightarrow> False | Some h \<Rightarrow> ch_height h \<ge> anchor_height) \<and>
                         fst e \<notin> set (gv_own_approvals s) \<and> gov_member s \<notin> set (current_decliners s (fst e))
                 then Some (dead, reachable @ [fst e])
                 else Some acc)
           | _ \<Rightarrow> Some acc)
      | _ \<Rightarrow> Some acc)"

definition sweep_consented_restores :: "surround \<Rightarrow> adopter \<Rightarrow> node \<Rightarrow> node option" where
  "sweep_consented_restores E adopt n =
     (let s = nd_gov n in
      if gv_head s = None then Some n
      else Option.bind (ofold (sweep_entry (su_extern E) s) (gv_proposal_changes s) ([], [])) (\<lambda>(dead, reachable).
        ofold (auto_approve_restore E adopt) reachable (on_gov (fold forget_vote dead) n)))"

section \<open>Re-basing standing approvals\<close>

definition drop_vote :: "u64 \<Rightarrow> gov_state \<Rightarrow> gov_state" where
  "drop_vote i s = s\<lparr>gv_proposal_changes := bt_remove i (gv_proposal_changes s),
                     gv_pending_sigs := bt_remove i (gv_pending_sigs s)\<rparr>"

definition rebase_one :: "surround \<Rightarrow> adopter \<Rightarrow> u64 \<Rightarrow> node \<Rightarrow> node option" where
  "rebase_one E adopt i n =
     (let mine = i \<in> set (gv_own_approvals (nd_gov n));
          n1 = on_gov (\<lambda>s. s\<lparr>gv_pending_sigs := bt_remove i (gv_pending_sigs s)\<rparr>) n in
      if mine \<and> open_card (nd_gov n1) i then chain_sign_and_gossip_approval E adopt i n1 else Some n1)"

definition rebase_pending_approvals :: "surround \<Rightarrow> adopter \<Rightarrow> node \<Rightarrow> node option" where
  "rebase_pending_approvals E adopt n =
     (let s = nd_gov n in
      case gv_head s of
        None \<Rightarrow> Some n
      | Some h \<Rightarrow>
          Option.bind (target_of h) (\<lambda>target.
            (let stale = map fst (filter (\<lambda>(_, p). pend_height p < target) (gv_pending_sigs s));
                 swept = map fst (filter (\<lambda>(_, c). case cut_kind_of c of None \<Rightarrow> False
                                                     | Some (up, _, _) \<Rightarrow> up < ch_height h) (gv_proposal_changes s)) in
             Option.bind (ofold (rebase_one E adopt) stale (on_gov (fold drop_vote swept) n))
               (sweep_consented_restores E adopt))))"

section \<open>After a block was applied\<close>

text \<open>A cut seals: the summary becomes the anchor once the bases it folds are on disk.\<close>

definition apply_cut :: "surround \<Rightarrow> (u64 \<rightharpoonup> u64) \<Rightarrow> u64 \<Rightarrow> u64 \<Rightarrow> cut_kind \<Rightarrow> gov_state \<Rightarrow> gov_state option" where
  "apply_cut E ts anchor_height up kind s =
     (case own_cut_state (su_extern E) s up kind of
        Inl Panic \<Rightarrow> None
      | Inl (Refused _) \<Rightarrow> Some s
      | Inr (blob, folded) \<Rightarrow>
          if fc_tree folded \<noteq> None \<and> \<not> hk_wiki_base_durable (su_hooks E) then Some s
          else if fc_vault folded \<noteq> None \<and> \<not> hk_vault_base_durable (su_hooks E) then Some s
          else (let s1 = (case fc_tree folded of None \<Rightarrow> s | Some t \<Rightarrow> set_wiki_base (Some t) s);
                    s2 = (case fc_vault folded of None \<Rightarrow> s1 | Some b \<Rightarrow> set_vault_base (Some b) s1);
                    s3 = set_checkpoint_blob (Some blob) s2 in
                map_option mark_open_wiki_patches_rebased
                  (apply_chain_to_state (su_extern E) (su_hooks E) ts
                    (s3\<lparr>gv_blocks := filter (\<lambda>b. blk_height b \<ge> anchor_height) (gv_blocks s3)\<rparr>))))"

definition settle_card_of :: "u64 \<Rightarrow> json \<Rightarrow> gov_state \<Rightarrow> gov_state" where
  "settle_card_of i payload s =
     upd_card i (\<lambda>p. if pr_payload p = payload \<or> pr_by p = [] then settle_applied p else p) s"

definition after_applied ::
  "surround \<Rightarrow> (u64 \<rightharpoonup> u64) \<Rightarrow> u64 \<Rightarrow> u64 \<Rightarrow> surface \<Rightarrow> json \<Rightarrow> gov_state \<Rightarrow> gov_state option" where
  "after_applied E ts height i sf payload s =
     (let s1 = settle_card_of i payload (ensure_applied_record i sf payload s) in
      Option.bind (if sf = Memory
                   then Option.bind (refresh_wiki_cache (su_extern E) s1)
                          (supersede_stale_wiki (su_extern E) (wiki_payload_paths payload))
                   else Some s1) (\<lambda>s2.
        (let s3 = stash_voted i s2;
             s4 = s3\<lparr>gv_pending_sigs := bt_remove i (gv_pending_sigs s3)\<rparr>;
             s5 = stamp_applied_at i (case ts height of None \<Rightarrow> 0 | Some at \<Rightarrow> at) s4 in
         Some (if sf = Organization then hk_org_applied (su_hooks E) s5
               else if sf = Vault then hk_vault_applied (su_hooks E) payload s5
               else if sf = Wallet then hk_wallet_applied (su_hooks E) i payload s5
               else s5))))"

definition block_bookkeeping :: "surround \<Rightarrow> (u64 \<rightharpoonup> u64) \<Rightarrow> chain_block \<Rightarrow> gov_state \<Rightarrow> gov_state option" where
  "block_bookkeeping E ts block s =
     (case blk_change block of
        Applied i sf payload \<Rightarrow> after_applied E ts (blk_height block) i sf payload s
      | Membership _ _ _ _ _ _ \<Rightarrow> Some (settle_membership_records (blk_change block) s)
      | Genesis _ _ _ _ _ _ _ _ \<Rightarrow> Some s
      | _ \<Rightarrow>
          (case cut_kind_of (blk_change block) of
             None \<Rightarrow> Some s
           | Some (up, _, kind) \<Rightarrow>
               apply_cut E ts (blk_height block) up kind (forget_votes_for (blk_change block) s)))"

definition after_block_applied :: "surround \<Rightarrow> adopter \<Rightarrow> chain_block \<Rightarrow> node \<Rightarrow> node option" where
  "after_block_applied E adopt block n =
     Option.bind (on_gov_opt (block_bookkeeping E (nd_block_ts n) block) n) (rebase_pending_approvals E adopt)"

section \<open>Compaction cuts\<close>

definition AUTO_CHECKPOINT_MIN_LEN :: nat where "AUTO_CHECKPOINT_MIN_LEN = 32"

text \<open>The proposer's half; the second component is the refusal or the minted id.\<close>

definition cmd_propose_checkpoint :: "surround \<Rightarrow> adopter \<Rightarrow> node \<Rightarrow> (node \<times> (string + u64)) option" where
  "cmd_propose_checkpoint E adopt n =
     (let s = nd_gov n; X = su_extern E in
      case gv_head s of
        None \<Rightarrow> Some (n, Inl ''checkpoints need a chain-governed republic'')
      | Some h \<Rightarrow>
          if vault_base_pending X s then Some (n, Inl ''vault base pending'')
          else (case own_cut_state X s (ch_height h) (own_cut_kind s False) of
                  Inl Panic \<Rightarrow> None
                | Inl (Refused e) \<Rightarrow> Some (n, Inl e)
                | Inr (unfolded, _) \<Rightarrow>
                    (let folded = worth_folding unfolded; kind = own_cut_kind s folded in
                     case own_cut_hash X s (ch_height h) kind of
                       Inl Panic \<Rightarrow> None
                     | Inl (Refused e) \<Rightarrow> Some (n, Inl e)
                     | Inr state_hash \<Rightarrow>
                         Option.bind (mint_proposal_id s) (\<lambda>(s1, i).
                           (let s2 = s1\<lparr>gv_proposal_changes := bt_insert i (cut_change kind (ch_height h) state_hash)
                                          (gv_proposal_changes s1)\<rparr>;
                                n1 = record_event (EvCheckpointProposed i (ch_height h) state_hash folded) (n\<lparr>nd_gov := s2\<rparr>) in
                            map_option (\<lambda>n2. (n2, Inr i))
                              (if nd_self_cosign n then chain_sign_and_gossip_approval E adopt i n1 else Some n1))))))"

definition vote_open :: "gov_state \<Rightarrow> bool" where
  "vote_open s \<longleftrightarrow>
     list_ex (\<lambda>(_, p). pr_state p = StProposed) (gv_proposals s) \<or> gv_pending_sigs s \<noteq> [] \<or>
     list_ex (\<lambda>(_, c). cut_kind_of c \<noteq> None) (gv_proposal_changes s)"

definition lowest_member :: "chain_head \<Rightarrow> string option" where
  "lowest_member h = (case map mi_member (ch_identities h) of [] \<Rightarrow> None | m # ms \<Rightarrow> Some (fold min ms m))"

definition maybe_auto_checkpoint :: "surround \<Rightarrow> adopter \<Rightarrow> node \<Rightarrow> node option" where
  "maybe_auto_checkpoint E adopt n =
     (let s = nd_gov n in
      if length (gv_blocks s) < AUTO_CHECKPOINT_MIN_LEN then Some n
      else (case gv_head s of
              None \<Rightarrow> Some n
            | Some h \<Rightarrow>
                if nd_catchup_from n \<noteq> None then Some n
                else Option.bind (target_of h) (\<lambda>target.
                  if bt_contains (nd_pending_blocks n) target \<or> lowest_member h \<noteq> Some (gov_member s) \<or> vote_open s \<or>
                     vault_base_pending (su_extern E) s \<or> wiki_base_pending s
                  then Some n
                  else map_option fst (cmd_propose_checkpoint E adopt n))))"

text \<open>The receiver's half: verify before signing.\<close>

definition receive_checkpoint_proposal ::
  "surround \<Rightarrow> adopter \<Rightarrow> u64 \<Rightarrow> u64 \<Rightarrow> string \<Rightarrow> bool \<Rightarrow> node \<Rightarrow> node option" where
  "receive_checkpoint_proposal E adopt i up state_hash folded n =
     (let s0 = nd_gov n; X = su_extern E in
      if \<not> plausible_wire_id s0 i then Some n
      else (let s = bump_next_id i s0; n1 = n\<lparr>nd_gov := s\<rparr>; kind = own_cut_kind s folded;
                this = cut_change kind up state_hash in
            case gv_head s of
              None \<Rightarrow> Some n1
            | Some h \<Rightarrow>
                if ch_height h \<noteq> up then Some n1
                else (case own_cut_hash X s up kind of
                        Inl Panic \<Rightarrow> None
                      | Inl (Refused _) \<Rightarrow> Some n1
                      | Inr ours \<Rightarrow>
                          if ours \<noteq> state_hash then Some n1
                          else if \<not> id_free_for s i this then Some n1
                          else if list_ex (\<lambda>(j, c). j \<noteq> i \<and> c = this) (gv_proposal_changes s) then Some n1
                          else (let n2 = on_gov (\<lambda>t. t\<lparr>gv_proposal_changes := bt_insert i this (gv_proposal_changes t)\<rparr>) n1 in
                                Option.bind (own_signature_stands (nd_gov n2) i) (\<lambda>stands.
                                  if stands then Some n2 else chain_sign_and_gossip_approval E adopt i n2)))))"

section \<open>Membership proposals\<close>

definition CONSENTED_PER_SEAT :: nat where "CONSENTED_PER_SEAT = 3"

definition propose_membership_with ::
  "surround \<Rightarrow> adopter \<Rightarrow> chain_change \<Rightarrow> bool \<Rightarrow> node \<Rightarrow> (node \<times> u64) option" where
  "propose_membership_with E adopt change cosign n =
     Option.bind (mint_proposal_id (nd_gov n)) (\<lambda>(s1, i).
       (let s2 = s1\<lparr>gv_proposal_changes := bt_insert i change (gv_proposal_changes s1)\<rparr>;
            n1 = record_event (EvMembershipProposed i change) (n\<lparr>nd_gov := s2\<rparr>) in
        map_option (\<lambda>n2. (n2, i)) (if cosign then chain_sign_and_gossip_approval E adopt i n1 else Some n1)))"

definition seat_cards_full :: "gov_state \<Rightarrow> chain_change \<Rightarrow> bool" where
  "seat_cards_full s change =
     (case change of
        Membership _ member _ _ _ (Some _) \<Rightarrow>
          length (filter (\<lambda>(_, c). case c of Membership _ m _ _ _ (Some _) \<Rightarrow> m = member | _ \<Rightarrow> False)
                    (gv_proposal_changes s)) \<ge> CONSENTED_PER_SEAT
      | _ \<Rightarrow> False)"

definition sealable_membership :: "extern \<Rightarrow> gov_state \<Rightarrow> u64 \<Rightarrow> chain_change \<Rightarrow> string option option" where
  "sealable_membership X s i change =
     (case change of
        Membership op member identity_pk _ _ consent \<Rightarrow>
          if op = Joined then Some (Some ''joined is reserved'')
          else if anchored_identity s member \<noteq> Some identity_pk then Some (Some ''not the anchored identity'')
          else (case consent of
                  Some _ \<Rightarrow> consent_never_seals X s change
                | None \<Rightarrow>
                    if list_ex (\<lambda>(j, c). j \<noteq> i \<and>
                         (case c of Membership Restored m _ _ _ None \<Rightarrow> m = member | _ \<Rightarrow> False)) (gv_proposal_changes s)
                       \<and> \<not> restore_sealed s change
                    then Some (Some ''a consent-less card for this seat is pending'')
                    else Some None)
      | _ \<Rightarrow> Some None)"

definition admits_membership_proposal :: "extern \<Rightarrow> gov_state \<Rightarrow> u64 \<Rightarrow> chain_change \<Rightarrow> bool option" where
  "admits_membership_proposal X s i change =
     (if \<not> plausible_wire_id s i then Some False
      else map_option (\<lambda>why. why = None \<and>
                 \<not> (\<not> bt_contains (gv_proposal_changes s) i \<and> seat_cards_full s change) \<and> id_free_for s i change)
             (sealable_membership X s i change))"

definition receive_membership_proposal ::
  "surround \<Rightarrow> adopter \<Rightarrow> u64 \<Rightarrow> chain_change \<Rightarrow> node \<Rightarrow> node option" where
  "receive_membership_proposal E adopt i change n =
     Option.bind (admits_membership_proposal (su_extern E) (nd_gov n) i change) (\<lambda>admitted.
       if \<not> admitted then Some n
       else (let n1 = on_gov (bump_next_id i) n; s = nd_gov n1 in
             if restore_sealed s change
             then Some (on_gov (upd_card i (\<lambda>p. if pr_state p = StProposed then settle_applied p else p)) n1)
             else Option.bind (reverify_pending (su_extern E)
                      (s\<lparr>gv_proposal_changes := bt_insert i change (gv_proposal_changes s)\<rparr>) i) (\<lambda>s1.
                    auto_approve_restore E adopt i (n1\<lparr>nd_gov := s1\<rparr>))))"

section \<open>Adopting a block this node sealed\<close>

definition adopt_committed_block :: "surround \<Rightarrow> adopter \<Rightarrow> node \<Rightarrow> chain_block \<Rightarrow> u64 \<Rightarrow> node option" where
  "adopt_committed_block E adopt n block proposal_id =
     Option.bind (append_committed_block (su_extern E) (nd_gov n) block) (\<lambda>(s, taken).
       if \<not> taken then Some (n\<lparr>nd_gov := s\<rparr>)
       else Option.bind (after_block_applied E adopt block (n\<lparr>nd_gov := s\<rparr>)) (\<lambda>n1.
         (let n2 = on_gov (forget_vote proposal_id) n1 in
          if \<not> hk_chain_durable (su_hooks E) then Some n2
          else maybe_auto_checkpoint E adopt (record_event (EvCommitted block) n2))))"

fun adopt_committed :: "surround \<Rightarrow> nat \<Rightarrow> adopter" where
  "adopt_committed E 0 n block i = None"
| "adopt_committed E (Suc k) n block i = adopt_committed_block E (adopt_committed E k) n block i"

end
