(* ===== verification/Gov_Commit_Laws.thy ===== *)
theory Gov_Commit_Laws
  imports Gov_Prune Gov_Commit
begin

text \<open>
  What a committed block may change: signing, sealing, adopting and the bookkeeping behind a block
  keep the held chain verified and its projection exact, and they only ever continue the
  history, dropping its past at a cut.
\<close>

section \<open>Sound holders\<close>

definition sound :: "extern \<Rightarrow> gov_state \<Rightarrow> bool" where
  "sound X s \<longleftrightarrow> chain_ok X s \<and> seated (gv_blob s) \<and> projected s \<and> gv_head s \<noteq> None"

lemma sound_part: "chain_part t = chain_part s \<Longrightarrow> sound X t = sound X s"
  using chain_ok_part[of t s] projected_part[of t s] chain_part_eqD[of t s] by (simp add: sound_def)

section \<open>A block at the tip\<close>

lemma held_bases_cong:
  assumes "gv_held t = gv_held s" "gv_legacy t = gv_legacy s" "gv_applied t = gv_applied s"
    "vault_founding_ctx t = vault_founding_ctx s"
  shows "held_bases X t = held_bases X s"
  unfolding held_bases_def vault_base_now_def vault_base_committed_def is_vault_prepared_def applied_payloads_def assms ..

lemma held_bases_part:
  assumes "chain_part t = chain_part s"
  shows "held_bases X t = held_bases X s"
  by (rule held_bases_cong) (simp_all only: vault_founding_ctx_def chain_part_eqD[OF assms])

lemma own_cut_state_part:
  assumes "chain_part t = chain_part s"
  shows "own_cut_state X t up kind = own_cut_state X s up kind"
  unfolding own_cut_state_def chain_part_eqD[OF assms] held_bases_part[OF assms] ..

lemma append_fields:
  assumes "append_committed_block X s b = Some (t, True)"
  obtains w w' where "current_walk X s = Inr w" "step X (held_bases X s) w b = Inr w'"
    "gv_head t = Some (w_head w')" "gv_blocks t = gv_blocks s @ [b]" "gv_walk t = Some w'" "gv_blob t = gv_blob s"
    "gv_held t = gv_held s" "gv_legacy t = gv_legacy s" "gov_republic_id t = gov_republic_id s"
    "gv_applied t = ext_applied b (gv_applied s)"
  using assms
proof (cases rule: append_cases)
  case (taken w w')
  let ?u = "project_one b (s\<lparr>gv_walk := Some w', gv_head := Some (w_head w'), gv_head_moved_at := gv_now s\<rparr>)
      \<lparr>gv_blocks := gv_blocks s @ [b]\<rparr>"
  have t: "chain_part t = chain_part ?u" by (simp add: taken(4) Let_def)
  have a: "gv_applied ?u = ext_applied b (gv_applied s)" by (simp add: project_one_eq)
  show thesis
    by (rule that[OF taken(2,3)]) (use chain_part_eqD[OF t] chain_part_rid[OF t] a in simp_all)
qed simp_all

lemma mark_rebased_part [simp]: "chain_part (mark_open_wiki_patches_rebased s) = chain_part s"
  by (simp add: mark_open_wiki_patches_rebased_def)

lemma forget_stamps_part [simp]: "chain_part (forget_wiki_stamps s) = chain_part s"
  unfolding forget_wiki_stamps_def
  by (simp add: chain_part_def)

lemma cut_is_not_applied: "cut_kind_of (blk_change b) = Some c \<Longrightarrow> ext_applied b m = m"
  by (cases "blk_change b") (simp_all add: ext_applied_def applied_change_def)

lemma soundE:
  assumes "sound X s"
  obtains w where "own_walks X (gv_blob s) (gov_republic_id s) (gv_blocks s) w" "gv_head s = Some (w_head w)"
    "ch_republic_id (w_head w) = gov_republic_id s" "gov_republic_id s \<noteq> []"
    "\<And>c. gv_walk s = Some c \<Longrightarrow> cache_ok w c" "seated (gv_blob s)" "projected s"
proof -
  from assms obtain h where h: "gv_head s = Some h" "chain_ok X s" by (auto simp: sound_def)
  from chain_okE[OF h(2,1)] obtain w where w: "own_walks X (gv_blob s) (gov_republic_id s) (gv_blocks s) w" "h = w_head w"
    "ch_republic_id h = gov_republic_id s" "gov_republic_id s \<noteq> []" "\<And>c. gv_walk s = Some c \<Longrightarrow> cache_ok w c"
    by metis
  show thesis by (rule that[OF w(1)]) (use w h assms in \<open>simp_all add: sound_def\<close>)
qed

lemma sound_rid: "sound X s \<Longrightarrow> map_option ch_republic_id (gv_head s) = Some (gov_republic_id s)"
  by (erule soundE) simp

section \<open>Continuing a history\<close>

text \<open>
  \<open>b\<close> follows \<open>a\<close>: the next height, and the link of \<open>b\<close> is the digest of \<open>a\<close>. A history is continued by a
  nonempty list of blocks when more blocks that follow one another stand at its end and some are
  dropped at its beginning, as at a cut.
\<close>

definition follows :: "extern \<Rightarrow> string \<Rightarrow> chain_block \<Rightarrow> chain_block \<Rightarrow> bool" where
  "follows X rid a b \<longleftrightarrow> unat (blk_height b) = Suc (unat (blk_height a)) \<and> block_hash X rid a = Some (blk_prev b)"

definition same_history :: "extern \<Rightarrow> string \<Rightarrow> chain_block list \<Rightarrow> chain_block list \<Rightarrow> bool" where
  "same_history X rid A B \<longleftrightarrow>
     (\<exists>rest k. successively (follows X rid) (A @ rest) \<and> k < length (A @ rest) \<and> B = drop k (A @ rest))"

lemma own_walks_chained: "own_walks X blob rid bs w \<Longrightarrow> successively (follows X (ch_republic_id (w_head w))) bs"
proof (induction rule: own_walks.induct)
  case (own_step bs w h b w')
  note n = next_facts[OF own_step(2)]
  have "follows X (ch_republic_id (w_head w)) (last bs) b"
    using n own_walks_stands[OF own_step(1)] by (auto simp: follows_def stands_at_def unat_Suc_u64)
  then show ?case using n own_step.IH by (simp add: successively_append_iff)
qed simp_all

lemma sound_chained: "sound X s \<Longrightarrow> successively (follows X (gov_republic_id s)) (gv_blocks s) \<and> gv_blocks s \<noteq> []"
  by (erule soundE) (use own_walks_chained own_walks_not_Nil in metis)

lemma same_history_drop:
  "successively (follows X rid) A \<Longrightarrow> k < length A \<Longrightarrow> same_history X rid A (drop k A)"
  unfolding same_history_def by (intro exI[of _ "[]"] exI[of _ k]) simp

lemma same_history_sound: "sound X s \<Longrightarrow> rid = gov_republic_id s \<Longrightarrow> same_history X rid (gv_blocks s) (gv_blocks s)"
  using sound_chained[of X s] same_history_drop[of X rid "gv_blocks s" 0] by simp

lemma same_history_append:
  "successively (follows X rid) (A @ rest) \<Longrightarrow> A @ rest \<noteq> [] \<Longrightarrow> same_history X rid A (A @ rest)"
  unfolding same_history_def by (intro exI[of _ rest] exI[of _ 0]) simp

lemma same_history_trans:
  assumes "same_history X rid A B" "same_history X rid B C"
  shows "same_history X rid A C"
proof -
  obtain m k where b: "successively (follows X rid) (A @ m)" "k < length (A @ m)" "B = drop k (A @ m)"
    using assms(1) by (auto simp: same_history_def)
  obtain m' k' where c: "successively (follows X rid) (B @ m')" "k' < length (B @ m')" "C = drop k' (B @ m')"
    using assms(2) by (auto simp: same_history_def)
  have whole: "B @ m' = drop k ((A @ m) @ m')" using b(2,3) by simp
  have "C = drop (k' + k) ((A @ m) @ m')" using c(3) unfolding whole by (simp only: drop_drop)
  moreover have "last B = last (A @ m)" "B \<noteq> []" using b(2,3) by (simp_all only: last_drop drop_eq_Nil not_le)
  then have "successively (follows X rid) ((A @ m) @ m')"
    using b(1) c(1) by (simp only: successively_append_iff) auto
  moreover have "k' + k < length ((A @ m) @ m')" using b(2,3) c(2) by simp
  ultimately show ?thesis unfolding same_history_def append_assoc by blast
qed

text \<open>A continuation holds no rival: at a height the history covers it holds the history's block.\<close>

lemma chained_heights:
  "successively (follows X rid) bs \<Longrightarrow> i < length bs \<Longrightarrow> unat (blk_height (bs ! i)) = unat (blk_height (hd bs)) + i"
proof (induction bs arbitrary: i)
  case (Cons b bs)
  show ?case
  proof (cases i)
    case (Suc j)
    then have "follows X rid b (hd bs)" "successively (follows X rid) bs" "j < length bs"
      using Cons.prems by (auto simp: successively_Cons)
    then show ?thesis using Cons.IH[of j] Suc by (simp add: follows_def)
  qed simp
qed simp

lemma same_history_no_rival:
  assumes "same_history X rid A B" "a \<in> set A" "b \<in> set B" "blk_height a = blk_height b"
  shows "a = b"
proof -
  obtain m k where c: "successively (follows X rid) (A @ m)" "B = drop k (A @ m)"
    using assms(1) by (auto simp: same_history_def)
  have "a \<in> set (A @ m)" "b \<in> set (A @ m)" using assms(2,3) c(2) by (auto dest: in_set_dropD)
  then obtain i j where i: "i < length (A @ m)" "a = (A @ m) ! i" and j: "j < length (A @ m)" "b = (A @ m) ! j"
    by (auto simp only: in_set_conv_nth)
  have "unat (blk_height a) = unat (blk_height b)" using assms(4) by simp
  then have "i = j"
    using chained_heights[OF c(1) i(1)] chained_heights[OF c(1) j(1)] unfolding i(2) j(2) by simp
  then show ?thesis using i(2) j(2) by simp
qed

lemma append_sound:
  assumes "sound X s" "append_committed_block X s b = Some (t, r)"
  shows "sound X t"
proof -
  obtain h where h: "gv_head s = Some h" "chain_ok X s" using assms(1) by (auto simp: sound_def)
  have "gv_blob t = gv_blob s \<and> gv_head t \<noteq> None"
  proof (cases r)
    case True
    then show ?thesis using append_fields[of X s b t] assms(2) by auto
  next
    case False
    with assms(2) h show ?thesis by (cases rule: append_cases) simp_all
  qed
  then show ?thesis
    using append_chain_ok[OF h(2,1) assms(2)] append_projected[OF _ assms(2)] assms(1) by (simp add: sound_def)
qed

lemma append_refused_part:
  assumes "append_committed_block X s b = Some (t, False)"
  shows "gv_blocks t = gv_blocks s" "gv_head t = gv_head s"
  using assms by (cases rule: append_cases; simp)+

text \<open>What the state of a holder is cut down to.\<close>

lemma filter_from_tip:
  assumes "stands_at X blob (pre @ [b]) w"
  shows "filter (\<lambda>x. blk_height x \<ge> blk_height b) (pre @ [b]) = [b]"
  using stands_tail_above[OF assms] by (auto simp: filter_empty_conv not_le)

lemma cut_at_tip:
  assumes s: "sound X s" and a: "append_committed_block X s b = Some (t, True)"
    and cut: "cut_kind_of (blk_change b) = Some (up, sh, kind)"
    and own: "own_cut_state X t up kind = Inr (blob, fc)"
  shows "\<exists>v. own_walks X (Some blob) (gov_republic_id t) [b] v \<and> gv_head t = Some (w_head v) \<and>
      ch_republic_id (w_head v) = gov_republic_id t" "seated (Some blob)"
    "filter (\<lambda>x. blk_height x \<ge> blk_height b) (gv_blocks t) = [b]"
proof -
  from a obtain w0 w' where f: "current_walk X s = Inr w0" "step X (held_bases X s) w0 b = Inr w'"
    "gv_head t = Some (w_head w')" "gv_blocks t = gv_blocks s @ [b]" "gv_blob t = gv_blob s"
    "gv_held t = gv_held s" "gv_legacy t = gv_legacy s" "gov_republic_id t = gov_republic_id s"
    "gv_applied t = gv_applied s"
    by (rule append_fields) (simp add: cut_is_not_applied[OF cut])
  from s obtain w where w: "own_walks X (gv_blob s) (gov_republic_id s) (gv_blocks s) w" "gv_head s = Some (w_head w)"
    "ch_republic_id (w_head w) = gov_republic_id s" "seated (gv_blob s)"
    by (rule soundE)
  have w0: "w0 = w"
    using own_walks_unique[OF w(1) current_walk_own[OF _ w(2) f(1)]] s by (simp add: sound_def)
  note st = f(2)[unfolded w0]
  have up: "up = ch_height (w_head w)" "blk_height b > ch_height (w_head w)"
    using next_facts[OF st] check_change_consumed[of b "w_seen w" "applied_id b"] cut
    by (auto simp: word_less_nat_alt unat_Suc_u64)
  have held: "held_bases X t = held_bases X s"
  proof (rule held_bases_cong[OF f(6,7,9)])
    have "\<exists>g rest. gv_blocks s = g # rest" using own_walks_not_Nil[OF w(1)] by (cases "gv_blocks s") auto
    then show "vault_founding_ctx t = vault_founding_ctx s"
      using f(3,4,5) w(2) by (cases "gv_blob s") (auto simp: vault_founding_ctx_def)
  qed
  have "own_state X (gv_blob s) (gv_blocks s @ [b]) up = Inr (at_cut (w_running w) up)"
    using own_state_at_tip[OF w(1) up(2)] up(1) by simp
  then have "fold_cut X (at_cut (w_running w) up) kind (held_bases X s) = Inr (blob, fc)"
    using own f held by (simp add: own_cut_state_def own_state_def rbind_eq_Inr split: option.splits)
  from cut_anchors[OF w(1,4) st cut this] obtain v where
    v: "anchor_walk X blob b (ch_republic_id (w_head w)) = Inr v" "w_head v = w_head w'" "seated (Some blob)" by blast
  have "own_walks X (Some blob) (gov_republic_id t) [b] v"
    using own_anchor[of "Some blob" blob X b "gov_republic_id t" v] v(1) w(3) f(8) by simp
  moreover have "ch_republic_id (w_head v) = gov_republic_id t"
    using next_facts[OF st] v(2) w(3) f(8) by simp
  ultimately show "\<exists>v. own_walks X (Some blob) (gov_republic_id t) [b] v \<and> gv_head t = Some (w_head v) \<and>
      ch_republic_id (w_head v) = gov_republic_id t" using v(2) f(3) by auto
  show "seated (Some blob)" by (rule v(3))
  show "filter (\<lambda>x. blk_height x \<ge> blk_height b) (gv_blocks t) = [b]"
    using filter_from_tip[OF own_walks_stands[OF own_step[OF w(1) st]]] f(4) by simp
qed

lemma apply_cut_sound:
  assumes H: "hooks_ok (su_hooks E)" and s: "sound (su_extern E) s"
    and a: "append_committed_block (su_extern E) s b = Some (t, True)"
    and cut: "cut_kind_of (blk_change b) = Some (up, sh, kind)"
    and t': "chain_part t' = chain_part t" and c: "apply_cut E ts (blk_height b) up kind t' = Some u"
  shows "sound (su_extern E) u" "same_history (su_extern E) (gov_republic_id t) (gv_blocks t) (gv_blocks u)" "gv_head u = gv_head t"
proof -
  let ?X = "su_extern E"
  have t: "sound ?X t" by (rule append_sound[OF s a])
  have "chain_part u = chain_part t \<or> (sound ?X u \<and> gv_blocks u = [b] \<and> gv_head u = gv_head t)"
  proof (cases "own_cut_state ?X t' up kind")
    case (Inr p)
    obtain blob fc where p: "p = (blob, fc)" by fastforce
    have own: "own_cut_state ?X t up kind = Inr (blob, fc)" using Inr p own_cut_state_part[OF t'] by simp
    note cu = cut_at_tip[OF s a cut own]
    let ?s1 = "case fc_tree fc of None \<Rightarrow> t' | Some x \<Rightarrow> set_wiki_base (Some x) t'"
    let ?s2 = "case fc_vault fc of None \<Rightarrow> ?s1 | Some x \<Rightarrow> set_vault_base (Some x) ?s1"
    let ?s3 = "set_checkpoint_blob (Some blob) ?s2"
    let ?s4 = "?s3\<lparr>gv_blocks := filter (\<lambda>x. blk_height x \<ge> blk_height b) (gv_blocks ?s3)\<rparr>"
    have s3: "gv_blocks ?s4 = [b]" "gv_head ?s4 = gv_head t" "gv_blob ?s4 = Some blob" "gv_walk ?s4 = None"
      "gov_republic_id ?s4 = gov_republic_id t"
      using chain_part_eqD[OF t'] cu(3)
      by (auto simp: set_wiki_base_def set_vault_base_def set_checkpoint_blob_def bump_applied_epoch_def gov_republic_id_def
          split: option.splits)
    show ?thesis
    proof (cases "fc_tree fc \<noteq> None \<and> \<not> hk_wiki_base_durable (su_hooks E) \<or>
        fc_vault fc \<noteq> None \<and> \<not> hk_vault_base_durable (su_hooks E)")
      case True
      then have "u = t'" using c Inr p by (simp add: apply_cut_def split: if_splits)
      then show ?thesis using t' by simp
    next
      case False
      then have "map_option mark_open_wiki_patches_rebased (apply_chain_to_state ?X (su_hooks E) ts ?s4) = Some u"
        using c by (simp only: apply_cut_def Inr p sum.case prod.case Let_def de_Morgan_disj if_False)
      then obtain v where v: "apply_chain_to_state ?X (su_hooks E) ts ?s4 = Some v" "u = mark_open_wiki_patches_rebased v"
        by (auto simp only: map_option_eq_Some)
      have u: "chain_part u = chain_part v" using v(2) by simp
      from cu(1) obtain w where "own_walks ?X (Some blob) (gov_republic_id t) [b] w" "gv_head t = Some (w_head w)"
        "ch_republic_id (w_head w) = gov_republic_id t" by blast
      moreover have "gov_republic_id t \<noteq> []" using t by (rule soundE)
      ultimately have "chain_ok ?X ?s4" using s3 by (intro chain_okI[where w = w]) simp_all
      then have "chain_ok ?X v" using apply_chain_chain_ok[OF H v(1)] by simp
      moreover have "gv_head v = gv_head t" "gv_blob v = Some blob" "gv_blocks v = [b]" "projected v"
        using apply_chain_facts[OF H v(1)] s3 by simp_all
      moreover have "gv_head t \<noteq> None" using t by (simp add: sound_def)
      ultimately show ?thesis
        using sound_part[OF u] chain_part_eqD[OF u] cu(2) by (simp add: sound_def)
    qed
  next
    case (Inl e)
    then have "u = t'" using c by (cases e) (simp_all add: apply_cut_def)
    then show ?thesis using t' by simp
  qed
  moreover have "same_history ?X (gov_republic_id t) (gv_blocks t) [b]"
  proof -
    have "gv_blocks t = gv_blocks s @ [b]" using a by (rule append_fields)
    then show ?thesis
      using same_history_drop[of ?X "gov_republic_id t" "gv_blocks t" "length (gv_blocks s)"] sound_chained[OF t] by simp
  qed
  ultimately show "sound ?X u" "same_history ?X (gov_republic_id t) (gv_blocks t) (gv_blocks u)" "gv_head u = gv_head t"
    using t sound_part[of u t ?X] chain_part_eqD(1,2)[of u t] same_history_sound[OF t refl] by auto
qed

section \<open>Every operation advances\<close>

text \<open>The part of a node only the synchronisation writes.\<close>

definition sync_part :: "node \<Rightarrow> (u64, chain_block) btree \<times> (u64, chain_block) btree \<times> (string, chain_divergence) btree
    \<times> (string, u64) btree \<times> u64 option \<times> checkpoint_state option \<times> (u64 \<rightharpoonup> u64)" where
  "sync_part n = (nd_pending_blocks n, nd_fork_candidates n, nd_diverged n, nd_peer_heights n, nd_catchup_from n,
     nd_served_blob n, nd_block_ts n)"

definition head_height :: "gov_state \<Rightarrow> nat" where
  "head_height s = (case gv_head s of None \<Rightarrow> 0 | Some h \<Rightarrow> unat (ch_height h))"

definition advances :: "extern \<Rightarrow> node \<Rightarrow> node \<Rightarrow> bool" where
  "advances X n n' \<longleftrightarrow>
     sync_part n' = sync_part n \<and>
     (sound X (nd_gov n) \<longrightarrow>
        sound X (nd_gov n') \<and> same_history X (gov_republic_id (nd_gov n)) (gv_blocks (nd_gov n)) (gv_blocks (nd_gov n')) \<and>
        head_height (nd_gov n) \<le> head_height (nd_gov n') \<and>
        gov_republic_id (nd_gov n') = gov_republic_id (nd_gov n))"

lemma advances_refl [simp]: "advances X n n"
  by (simp add: advances_def same_history_sound)

lemma advances_trans [trans]:
  assumes "advances X n m" "advances X m k"
  shows "advances X n k"
  using assms same_history_trans unfolding advances_def by (metis order_trans)

lemma advances_part:
  assumes "sync_part n' = sync_part n" "chain_part (nd_gov n') = chain_part (nd_gov n)"
  shows "advances X n n'"
  using assms chain_part_eqD(1,2)[OF assms(2)] sound_part[OF assms(2)] chain_part_rid[OF assms(2)]
  by (simp add: advances_def head_height_def same_history_sound)

lemma sync_part_simps [simp]:
  "sync_part (n\<lparr>nd_gov := s\<rparr>) = sync_part n" "sync_part (record_event ev n) = sync_part n"
  "sync_part (on_gov f n) = sync_part n"
  by (simp_all add: sync_part_def record_event_def on_gov_def)

lemma nd_gov_simps [simp]: "nd_gov (record_event ev n) = nd_gov n" "nd_gov (on_gov f n) = f (nd_gov n)"
  by (simp_all add: record_event_def on_gov_def)

lemma advances_ofold:
  assumes "\<And>x n n'. f x n = Some n' \<Longrightarrow> advances X n n'" "ofold f xs n = Some n'"
  shows "advances X n n'"
  using assms(2)
proof (induction xs arbitrary: n)
  case (Cons x xs)
  then obtain m where "f x n = Some m" "ofold f xs m = Some n'" by (auto simp: bind_eq_Some_conv)
  then show ?case using assms(1) Cons.IH advances_trans by blast
qed simp

section \<open>Results that keep the chain\<close>

text \<open>
  \<open>keeps X n r\<close>: if \<open>r\<close> returns a node, that node advances \<open>n\<close>. The rules follow the shape of the
  definitions, so a handler is checked branch by branch.
\<close>

named_theorems keeps_rules \<open>results that keep the chain\<close>

definition keeps :: "extern \<Rightarrow> node \<Rightarrow> node option \<Rightarrow> bool" where
  "keeps X n r \<longleftrightarrow> (\<forall>n'. r = Some n' \<longrightarrow> advances X n n')"

lemma keepsD: "keeps X n r \<Longrightarrow> r = Some n' \<Longrightarrow> advances X n n'"
  by (simp add: keeps_def)

lemma keeps_Some: "advances X n m \<Longrightarrow> keeps X n (Some m)"
  by (simp add: keeps_def)

lemma keeps_refl [keeps_rules]: "keeps X n (Some n)"
  by (simp add: keeps_def)

lemma keeps_None [keeps_rules]: "keeps X n None"
  by (simp add: keeps_def)

lemma keeps_if [keeps_rules]: "keeps X n a \<Longrightarrow> keeps X n b \<Longrightarrow> keeps X n (if P then a else b)"
  by simp

lemma keeps_option [keeps_rules]:
  "keeps X n a \<Longrightarrow> (\<And>x. keeps X n (f x)) \<Longrightarrow> keeps X n (case m of None \<Rightarrow> a | Some x \<Rightarrow> f x)"
  by (cases m) simp_all

lemma keeps_sum [keeps_rules]:
  "(\<And>x. keeps X n (f x)) \<Longrightarrow> (\<And>y. keeps X n (g y)) \<Longrightarrow> keeps X n (case m of Inl x \<Rightarrow> f x | Inr y \<Rightarrow> g y)"
  by (cases m) simp_all

lemma keeps_fault [keeps_rules]:
  "(\<And>x. keeps X n (f x)) \<Longrightarrow> keeps X n g \<Longrightarrow> keeps X n (case m of Refused x \<Rightarrow> f x | Panic \<Rightarrow> g)"
  by (cases m) simp_all

lemma keeps_kind [keeps_rules]:
  "keeps X n f \<Longrightarrow> (\<And>x. keeps X n (g x)) \<Longrightarrow> keeps X n (case m of KindV1 \<Rightarrow> f | KindV2 x \<Rightarrow> g x)"
  by (cases m) simp_all

lemma keeps_op [keeps_rules]:
  "keeps X n f \<Longrightarrow> keeps X n g \<Longrightarrow> keeps X n (case m of Joined \<Rightarrow> f | Restored \<Rightarrow> g)"
  by (cases m) simp_all

lemma keeps_list [keeps_rules]:
  "keeps X n a \<Longrightarrow> (\<And>x xs. keeps X n (f x xs)) \<Longrightarrow> keeps X n (case m of [] \<Rightarrow> a | x # xs \<Rightarrow> f x xs)"
  by (cases m) simp_all

lemma keeps_prod [keeps_rules]: "(\<And>x y. keeps X n (f x y)) \<Longrightarrow> keeps X n (case m of (x, y) \<Rightarrow> f x y)"
  by (cases m) simp

lemma keeps_bind_any [keeps_rules]: "(\<And>x. keeps X n (f x)) \<Longrightarrow> keeps X n (Option.bind m f)"
  by (cases m) (simp_all add: keeps_None)

lemma keeps_then: "keeps X n r \<Longrightarrow> (\<And>m. keeps X m (f m)) \<Longrightarrow> keeps X n (Option.bind r f)"
  by (cases r) (auto simp: keeps_def intro: advances_trans)

lemma keeps_from: "advances X n m \<Longrightarrow> keeps X m r \<Longrightarrow> keeps X n r"
  by (auto simp: keeps_def intro: advances_trans)

lemma keeps_touch:
  "sync_part m = sync_part n \<Longrightarrow> chain_part (nd_gov m) = chain_part (nd_gov n) \<Longrightarrow> keeps X m r \<Longrightarrow> keeps X n r"
  by (rule keeps_from[OF advances_part])

lemma keeps_ofold: "(\<And>x m. keeps X m (f x m)) \<Longrightarrow> keeps X n (ofold f xs n)"
  by (induction xs arbitrary: n) (simp_all add: keeps_refl keeps_then)

definition adopter_ok :: "surround \<Rightarrow> adopter \<Rightarrow> bool" where
  "adopter_ok E adopt \<longleftrightarrow> (\<forall>n b i. keeps (su_extern E) n (adopt n b i))"

lemma sign_keeps:
  assumes "adopter_ok E adopt"
  shows "keeps (su_extern E) n (chain_sign_and_gossip_approval E adopt i n)"
proof (cases "sign_approval (su_extern E) (gates_at E (nd_gov n)) (nd_gov n) i")
  case (Some r)
  obtain s ev b where r: "r = (s, ev, b)" by (metis prod_cases3)
  let ?n1 = "case ev of None \<Rightarrow> n\<lparr>nd_gov := s\<rparr> | Some e \<Rightarrow> record_event (EvApproval e) (n\<lparr>nd_gov := s\<rparr>)"
  have "keeps (su_extern E) n (case b of None \<Rightarrow> Some ?n1 | Some b' \<Rightarrow> adopt ?n1 b' i)"
    by (rule keeps_touch[of ?n1])
      (use chain_part_sign[OF Some[unfolded r]] assms in
        \<open>simp_all add: keeps_refl adopter_ok_def split: option.split\<close>)
  then show ?thesis by (simp only: chain_sign_and_gossip_approval_def Some r option.case prod.case Let_def)
qed (simp add: chain_sign_and_gossip_approval_def keeps_None)

lemma commit_keeps:
  assumes "adopter_ok E adopt"
  shows "keeps (su_extern E) n (commit_if_sealed E adopt i n)"
proof (cases "try_commit (su_extern E) (nd_gov n) i")
  case (Some r)
  obtain s b where r: "r = (s, b)" by fastforce
  show ?thesis
    unfolding commit_if_sealed_def
    using Some r assms keeps_touch[of "n\<lparr>nd_gov := s\<rparr>" n] chain_part_try_commit[OF Some[unfolded r]]
    by (simp add: adopter_ok_def keeps_refl split: option.split)
qed (simp add: commit_if_sealed_def keeps_None)

lemma auto_approve_keeps:
  assumes "adopter_ok E adopt"
  shows "keeps (su_extern E) n (auto_approve_restore E adopt i n)"
proof -
  have c: "keeps X n (f c)" if "\<And>op m pk npk rl con. keeps X n (f (Membership op m pk npk rl con))"
    "\<And>c. \<not> is_membership c \<Longrightarrow> keeps X n (f c)" for X n c and f :: "chain_change \<Rightarrow> node option"
    using that by (cases c) (simp_all add: is_membership_def)
  show ?thesis
    unfolding auto_approve_restore_def Let_def
    by (rule keeps_option, rule keeps_refl, rule c)
      (auto intro!: keeps_rules sign_keeps[OF assms] simp: is_membership_def split: chain_change.split)
qed

lemma sweep_keeps:
  assumes "adopter_ok E adopt"
  shows "keeps (su_extern E) n (sweep_consented_restores E adopt n)"
  unfolding sweep_consented_restores_def Let_def
  by (intro keeps_rules; rule keeps_touch[OF _ _ keeps_ofold[OF auto_approve_keeps[OF assms]]])
    (simp_all add: chain_part_fold)

lemma rebase_one_keeps:
  assumes "adopter_ok E adopt"
  shows "keeps (su_extern E) n (rebase_one E adopt i n)"
  unfolding rebase_one_def Let_def
  by (rule keeps_touch[of "on_gov (\<lambda>s. s\<lparr>gv_pending_sigs := bt_remove i (gv_pending_sigs s)\<rparr>) n"])
    (simp_all add: keeps_refl sign_keeps[OF assms])

lemma rebase_keeps:
  assumes "adopter_ok E adopt"
  shows "keeps (su_extern E) n (rebase_pending_approvals E adopt n)"
  unfolding rebase_pending_approvals_def Let_def
  by (rule keeps_option, rule keeps_refl, rule keeps_bind_any, rule keeps_then[OF _ sweep_keeps[OF assms]],
      rule keeps_touch[OF _ _ keeps_ofold[OF rebase_one_keeps[OF assms]]])
    (simp_all add: chain_part_fold drop_vote_def)

lemma drain_seals_keeps:
  assumes "adopter_ok E adopt"
  shows "keeps (su_extern E) n (drain_held_seals E adopt n)"
  unfolding drain_held_seals_def Let_def
  by (rule keeps_touch[OF _ _ keeps_ofold[OF commit_keeps[OF assms]]]) simp_all

section \<open>Blocks and cuts\<close>

lemma after_applied_part:
  assumes "hooks_ok (su_hooks E)" "after_applied E ts height i sf payload s = Some u"
  shows "chain_part u = chain_part s"
proof -
  let ?s1 = "settle_card_of i payload (ensure_applied_record i sf payload s)"
  obtain s2 where s2: "(if sf = Memory
      then Option.bind (refresh_wiki_cache (su_extern E) ?s1) (supersede_stale_wiki (su_extern E) (wiki_payload_paths payload))
      else Some ?s1) = Some s2"
    and u: "chain_part u = chain_part s2"
    using assms by (auto simp: after_applied_def Let_def bind_eq_Some_conv split: if_splits)
  have "chain_part s2 = chain_part ?s1"
    using s2 by (auto simp: bind_eq_Some_conv dest!: chain_part_refresh chain_part_supersede split: if_splits)
  then show ?thesis using u by (simp add: settle_card_of_def)
qed

lemma bookkeeping_part:
  assumes "hooks_ok (su_hooks E)" "cut_kind_of (blk_change b) = None" "block_bookkeeping E ts b s = Some u"
  shows "chain_part u = chain_part s"
  using assms by (cases "blk_change b") (auto simp: block_bookkeeping_def dest: after_applied_part)

lemma after_block_keeps:
  assumes "hooks_ok (su_hooks E)" "adopter_ok E adopt" "cut_kind_of (blk_change b) = None"
  shows "keeps (su_extern E) n (after_block_applied E adopt b n)"
proof (cases "block_bookkeeping E (nd_block_ts n) b (nd_gov n)")
  case (Some s)
  have "keeps (su_extern E) n (rebase_pending_approvals E adopt (n\<lparr>nd_gov := s\<rparr>))"
    by (rule keeps_touch[OF _ _ rebase_keeps[OF assms(2)]]) (use bookkeeping_part[OF assms(1,3) Some] in simp_all)
  then show ?thesis by (simp add: after_block_applied_def on_gov_opt_def Some)
qed (simp add: after_block_applied_def on_gov_opt_def keeps_None)

lemma append_height:
  assumes "sound X s" "append_committed_block X s b = Some (t, True)"
  shows "head_height t = Suc (head_height s)"
proof -
  from assms(2) obtain w0 w' where f: "current_walk X s = Inr w0" "step X (held_bases X s) w0 b = Inr w'"
    "gv_head t = Some (w_head w')" by (rule append_fields)
  from assms(1) obtain w where w: "own_walks X (gv_blob s) (gov_republic_id s) (gv_blocks s) w" "gv_head s = Some (w_head w)"
    by (rule soundE)
  have "w0 = w" using own_walks_unique[OF w(1) current_walk_own[OF _ w(2) f(1)]] assms(1) by (simp add: sound_def)
  then show ?thesis using next_facts[OF f(2)] f(3) w(2) by (simp add: head_height_def unat_Suc_u64)
qed

lemma bookkeeping_sound:
  assumes H: "hooks_ok (su_hooks E)" and sn: "sound (su_extern E) s0"
    and a: "append_committed_block (su_extern E) s0 b = Some (t, True)"
    and s: "block_bookkeeping E ts b t = Some s"
  shows "sound (su_extern E) s \<and> same_history (su_extern E) (gov_republic_id t) (gv_blocks t) (gv_blocks s) \<and> head_height s = head_height t \<and>
    gov_republic_id s = gov_republic_id t"
proof -
  let ?X = "su_extern E"
  have t: "sound ?X t" by (rule append_sound[OF sn a])
  show ?thesis
  proof (cases "cut_kind_of (blk_change b)")
    case None
    from bookkeeping_part[OF H None s] have p: "chain_part s = chain_part t" .
    show ?thesis using sound_part[OF p] chain_part_eqD[OF p] chain_part_rid[OF p] t
      by (simp add: head_height_def same_history_sound)
  next
    case (Some k)
    obtain up sh kind where k: "k = (up, sh, kind)" by (metis prod_cases3)
    have "apply_cut E ts (blk_height b) up kind (forget_votes_for (blk_change b) t) = Some s"
      using s Some k by (cases "blk_change b") (auto simp: block_bookkeeping_def)
    note ap = apply_cut_sound[OF H sn a Some[unfolded k] _ this]
    have ap': "sound ?X s" "same_history ?X (gov_republic_id t) (gv_blocks t) (gv_blocks s)" "gv_head s = gv_head t" using ap by simp_all
    have "Some (gov_republic_id s) = Some (gov_republic_id t)"
      unfolding sound_rid[OF t, symmetric] sound_rid[OF ap'(1), symmetric] ap'(3) ..
    then show ?thesis using ap' by (simp add: head_height_def)
  qed
qed

lemma append_then_after:
  assumes H: "hooks_ok (su_hooks E)" and ad: "adopter_ok E adopt"
    and a: "append_committed_block (su_extern E) (nd_gov n) b = Some (t, True)"
    and c: "after_block_applied E adopt b (n\<lparr>nd_gov := t\<rparr>) = Some n'"
  shows "advances (su_extern E) n n'"
    "sound (su_extern E) (nd_gov n) \<Longrightarrow> head_height (nd_gov n) < head_height (nd_gov n')"
    "sound (su_extern E) (nd_gov n) \<Longrightarrow>
       same_history (su_extern E) (gov_republic_id (nd_gov n)) (gv_blocks (nd_gov n) @ [b]) (gv_blocks (nd_gov n'))"
proof -
  let ?X = "su_extern E"
  obtain s where s: "block_bookkeeping E (nd_block_ts n) b t = Some s"
    "rebase_pending_approvals E adopt (n\<lparr>nd_gov := s\<rparr>) = Some n'"
    using c by (auto simp: after_block_applied_def on_gov_opt_def bind_eq_Some_conv)
  note r = keepsD[OF rebase_keeps[OF ad] s(2)]
  have sync: "sync_part n' = sync_part n" using r by (simp add: advances_def)
  have f: "gv_blocks t = gv_blocks (nd_gov n) @ [b]" "gov_republic_id t = gov_republic_id (nd_gov n)"
    by (rule append_fields[OF a], simp)+
  let ?rid = "gov_republic_id (nd_gov n)"
  have all: "sound ?X (nd_gov n') \<and> same_history ?X ?rid (gv_blocks (nd_gov n)) (gv_blocks t) \<and> same_history ?X ?rid (gv_blocks (nd_gov n) @ [b]) (gv_blocks (nd_gov n')) \<and>
      Suc (head_height (nd_gov n)) \<le> head_height (nd_gov n') \<and> gov_republic_id (nd_gov n') = gov_republic_id (nd_gov n)"
    if sn: "sound ?X (nd_gov n)"
  proof -
    have t: "sound ?X t" "head_height t = Suc (head_height (nd_gov n))"
      using append_sound[OF sn a] append_height[OF sn a] by simp_all
    note bookkeeping_sound[OF H sn a s(1)]
    then show ?thesis
      using r t(2) f same_history_trans[of ?X ?rid "gv_blocks t" "gv_blocks s"]
        same_history_append[of ?X ?rid "gv_blocks (nd_gov n)" "[b]"] sound_chained[OF t(1)] by (simp add: advances_def)
  qed
  then show "advances ?X n n'" "sound ?X (nd_gov n) \<Longrightarrow> head_height (nd_gov n) < head_height (nd_gov n')"
    "sound ?X (nd_gov n) \<Longrightarrow> same_history ?X ?rid (gv_blocks (nd_gov n) @ [b]) (gv_blocks (nd_gov n'))"
    using sync same_history_trans[of ?X ?rid "gv_blocks (nd_gov n)" "gv_blocks t"] f(1) by (auto simp: advances_def)
qed

section \<open>Cuts and memberships\<close>

lemma mint_part: "mint_proposal_id s = Some (t, i) \<Longrightarrow> chain_part t = chain_part s"
proof -
  assume a: "mint_proposal_id s = Some (t, i)"
  obtain m k where "seat_stride s = (m, k)" by fastforce
  with a obtain nid where "t = s\<lparr>gv_next_id := nid\<rparr>"
    by (simp only: mint_proposal_id_def prod.case Let_def option.inject prod.inject option.distinct split: if_splits) blast
  then show "chain_part t = chain_part s" by simp
qed

lemma keeps_minted:
  assumes "adopter_ok E adopt"
  shows "keeps (su_extern E) n (Option.bind (mint_proposal_id (nd_gov n)) (\<lambda>(s1, i).
     (if cosign
      then chain_sign_and_gossip_approval E adopt i
             (record_event (ev i) (n\<lparr>nd_gov := s1\<lparr>gv_proposal_changes := bt_insert i (ch i) (gv_proposal_changes s1)\<rparr>\<rparr>))
      else Some (record_event (ev i) (n\<lparr>nd_gov := s1\<lparr>gv_proposal_changes := bt_insert i (ch i) (gv_proposal_changes s1)\<rparr>\<rparr>)))))"
proof (cases "mint_proposal_id (nd_gov n)")
  case (Some r)
  obtain s1 i where r: "r = (s1, i)" by fastforce
  show ?thesis
    unfolding Some r bind.simps prod.case
    by (rule keeps_touch[of "record_event (ev i) (n\<lparr>nd_gov := s1\<lparr>gv_proposal_changes := bt_insert i (ch i) (gv_proposal_changes s1)\<rparr>\<rparr>)"])
      (use mint_part[OF Some[unfolded r]] in \<open>simp_all add: keeps_refl sign_keeps[OF assms]\<close>)
qed (simp add: keeps_None)

lemma propose_checkpoint_keeps:
  assumes "adopter_ok E adopt"
  shows "keeps (su_extern E) n (map_option fst (cmd_propose_checkpoint E adopt n))"
proof -
  have push: "map_option fst (if P then a else b) = (if P then map_option fst a else map_option fst b)" for P and a b :: "(node \<times> (string + u64)) option"
    by simp
  have bnd: "map_option fst (Option.bind m (\<lambda>(s, i). map_option (\<lambda>x. (x, Inr i)) (f s i))) = Option.bind m (\<lambda>(s, i). f s i)"
    for m :: "(gov_state \<times> u64) option" and f :: "gov_state \<Rightarrow> u64 \<Rightarrow> node option"
    by (cases m) (auto simp: option.map_comp comp_def option.map_ident)
  show ?thesis
    unfolding cmd_propose_checkpoint_def Let_def option.case_distrib[of "map_option fst"] sum.case_distrib[of "map_option fst"]
      fault.case_distrib[of "map_option fst"] prod.case_distrib[of "map_option fst"] push bnd
    by (rule keeps_option | rule keeps_if | rule keeps_sum | rule keeps_fault | rule keeps_prod |
        rule keeps_minted[OF assms] | simp add: keeps_refl keeps_None)+
qed

lemma auto_checkpoint_keeps:
  assumes "adopter_ok E adopt"
  shows "keeps (su_extern E) n (maybe_auto_checkpoint E adopt n)"
  unfolding maybe_auto_checkpoint_def Let_def
  by (intro keeps_rules propose_checkpoint_keeps[OF assms])

lemma adopt_block_keeps:
  assumes H: "hooks_ok (su_hooks E)" and ad: "adopter_ok E adopt"
  shows "keeps (su_extern E) n (adopt_committed_block E adopt n b i)"
  unfolding keeps_def
proof (intro allI impI)
  fix n' assume a: "adopt_committed_block E adopt n b i = Some n'"
  let ?X = "su_extern E"
  obtain t taken where t: "append_committed_block ?X (nd_gov n) b = Some (t, taken)"
    using a by (auto simp: adopt_committed_block_def bind_eq_Some_conv)
  show "advances (su_extern E) n n'"
  proof (cases taken)
    case False
    then have n': "n' = n\<lparr>nd_gov := t\<rparr>" using a t by (simp add: adopt_committed_block_def)
    have "append_committed_block ?X (nd_gov n) b = Some (t, False)" using t False by simp
    note p = append_refused_part[OF this]
    have "gov_republic_id t = gov_republic_id (nd_gov n)"
      using \<open>append_committed_block ?X (nd_gov n) b = Some (t, False)\<close> by (cases rule: append_cases) simp_all
    then show ?thesis using append_sound[OF _ t] p n' by (simp add: advances_def same_history_sound head_height_def)
  next
    case True
    then obtain n1 where n1: "after_block_applied E adopt b (n\<lparr>nd_gov := t\<rparr>) = Some n1"
      and r: "(if \<not> hk_chain_durable (su_hooks E) then Some (on_gov (forget_vote i) n1)
          else maybe_auto_checkpoint E adopt (record_event (EvCommitted b) (on_gov (forget_vote i) n1))) = Some n'"
      using a t by (auto simp: adopt_committed_block_def Let_def bind_eq_Some_conv)
    have "advances ?X n n1" using append_then_after(1)[OF H ad _ n1] t True by simp
    also have "advances ?X n1 (on_gov (forget_vote i) n1)" by (rule advances_part) simp_all
    also have "advances ?X \<dots> n'"
    proof (cases "hk_chain_durable (su_hooks E)")
      case True
      have "advances ?X (on_gov (forget_vote i) n1) (record_event (EvCommitted b) (on_gov (forget_vote i) n1))"
        by (rule advances_part) simp_all
      also have "advances ?X \<dots> n'" by (rule keepsD[OF auto_checkpoint_keeps[OF ad]]) (use r True in simp)
      finally show ?thesis .
    qed (use r in simp)
    finally show ?thesis .
  qed
qed

text \<open>However deep the recursion is allowed to go, an adoption that returns has kept the chain.\<close>

lemma adopt_committed_ok: "hooks_ok (su_hooks E) \<Longrightarrow> adopter_ok E (adopt_committed E k)"
proof (induction k)
  case 0
  then show ?case by (simp add: adopter_ok_def keeps_None)
next
  case (Suc k)
  then show ?case using adopt_block_keeps by (auto simp: adopter_ok_def)
qed

lemma receive_checkpoint_keeps:
  assumes "adopter_ok E adopt"
  shows "keeps (su_extern E) n (receive_checkpoint_proposal E adopt i up sh folded n)"
  unfolding receive_checkpoint_proposal_def Let_def
  by (rule keeps_if, rule keeps_refl, rule keeps_touch[of "n\<lparr>nd_gov := bump_next_id i (nd_gov n)\<rparr>"], simp, simp)
    (rule keeps_option keeps_if keeps_sum keeps_fault keeps_bind_any keeps_refl keeps_None |
      rule keeps_touch[OF _ _ sign_keeps[OF assms]] | rule keeps_Some, rule advances_part | simp)+

lemma propose_membership_keeps:
  assumes "adopter_ok E adopt"
  shows "keeps (su_extern E) n (map_option fst (propose_membership_with E adopt change cosign n))"
  using keeps_minted[OF assms, of n cosign "\<lambda>i. EvMembershipProposed i change" "\<lambda>_. change"]
  by (simp add: propose_membership_with_def map_option_bind option.map_comp comp_def Let_def split_def option.map_ident)

lemma reverify_part:
  assumes "reverify_pending X s i = Some t"
  shows "chain_part t = chain_part s"
proof (cases "bt_get (gv_pending_sigs s) i")
  case (Some p)
  have "chain_part t = chain_part u" if "fold (recheck X i h) xs (Some u) = Some t" for xs u h
    using that
  proof (induction xs arbitrary: u)
    case (Cons a xs)
    show ?case
    proof (cases "approval_verifies X u i h (at_member a) (at_sig a)")
      case None
      then show ?thesis using Cons.prems by (simp add: recheck_def[of X i h a] recheck_None)
    next
      case (Some ok)
      then show ?thesis using Cons.IH Cons.prems by (cases ok) (auto simp: recheck_def[of X i h a])
    qed
  qed simp
  then show ?thesis using assms Some by (simp add: reverify_pending_def recheck_def[abs_def])
qed (use assms in \<open>simp add: reverify_pending_def\<close>)

lemma receive_membership_keeps:
  assumes "adopter_ok E adopt"
  shows "keeps (su_extern E) n (receive_membership_proposal E adopt i change n)"
proof -
  let ?s = "bump_next_id i (nd_gov n)"
  have inner: "keeps (su_extern E) n (Option.bind (reverify_pending (su_extern E)
          (?s\<lparr>gv_proposal_changes := bt_insert i change (gv_proposal_changes ?s)\<rparr>) i)
          (\<lambda>s1. auto_approve_restore E adopt i ((on_gov (bump_next_id i) n)\<lparr>nd_gov := s1\<rparr>)))"
  proof (cases "reverify_pending (su_extern E) (?s\<lparr>gv_proposal_changes := bt_insert i change (gv_proposal_changes ?s)\<rparr>) i")
    case (Some s1)
    show ?thesis unfolding Some bind.simps
      by (rule keeps_touch[OF _ _ auto_approve_keeps[OF assms]]) (use reverify_part[OF Some] in simp_all)
  qed (simp add: keeps_None)
  show ?thesis
    unfolding receive_membership_proposal_def Let_def
    by (rule keeps_bind_any, rule keeps_if, rule keeps_refl, rule keeps_if, rule keeps_Some)
      (use inner in \<open>simp_all add: advances_part\<close>)
qed

end
