(* ===== verification/Chain_Sync.thy ===== *)
theory Chain_Sync
  imports Gov_Commit
begin

text \<open>
  How blocks travel between holders (\<open>molt-engine/src/chain/sync.rs\<close> and the served summaries of
  \<open>checkpoint.rs\<close>): a received block extends the chain, contends for its tip, belongs to another
  branch or is buffered; the deep tie-break between branches; catch-up requests and
  their answers; and what a node knows of its peers.

  Buffers are ordered maps, so shedding the highest entries keeps the front of the list. The clock
  is the node's \<open>gv_now\<close>. Loops that consume a map run on its length.
\<close>

definition CATCHUP_BUFFER_WINDOW :: nat where "CATCHUP_BUFFER_WINDOW = 4096"
definition KNOWN_HEADS_MAX :: nat where "KNOWN_HEADS_MAX = 16"
definition SILENT_AFTER_SECS :: u64 where "SILENT_AFTER_SECS = 120"
definition STALE_AFTER_BLOCKS :: nat where "STALE_AFTER_BLOCKS = 2"

section \<open>What a node knows of its peers\<close>

definition note_peer_height :: "string \<Rightarrow> u64 \<Rightarrow> node \<Rightarrow> node" where
  "note_peer_height from_member height n =
     (if from_member = [] \<or> from_member = gov_member (nd_gov n) then n
      else n\<lparr>nd_peer_heights := bt_insert from_member
               (max (case bt_get (nd_peer_heights n) from_member of None \<Rightarrow> 0 | Some h \<Rightarrow> h) height)
               (nd_peer_heights n)\<rparr>)"

definition note_divergence :: "string \<Rightarrow> u64 \<Rightarrow> node \<Rightarrow> node" where
  "note_divergence from_member since n =
     (if from_member = [] then n
      else (let now = gv_now (nd_gov n);
                e = (case bt_get (nd_diverged n) from_member of
                       Some d \<Rightarrow> d
                     | None \<Rightarrow> \<lparr>dv_peer = from_member, dv_since_height = since, dv_seen_ts = now\<rparr>) in
            n\<lparr>nd_diverged := bt_insert from_member
                (e\<lparr>dv_since_height := min (dv_since_height e) since, dv_seen_ts := now\<rparr>) (nd_diverged n)\<rparr>))"

definition clear_divergence :: "string \<Rightarrow> node \<Rightarrow> node" where
  "clear_divergence from_member n = n\<lparr>nd_diverged := bt_remove from_member (nd_diverged n)\<rparr>"

record chain_lag_view =
  cl_peers_ahead :: u64
  cl_silent :: "(string \<times> u64) list"

text \<open>The presence of a member and the founding date are arguments; 0 stands for unknown.\<close>

definition silent_entry :: "u64 \<Rightarrow> u64 \<Rightarrow> (string \<Rightarrow> u64) \<Rightarrow> string \<Rightarrow> (string \<times> u64) option" where
  "silent_entry now founded_at last_seen member =
     (let seen = last_seen member;
          (secs, unknown) = (if seen = 0 \<and> founded_at = 0 then (0, True)
                             else if seen = 0 then (u64_sat_sub now founded_at, False)
                             else (u64_sat_sub now seen, False)) in
      if unknown \<or> secs \<ge> SILENT_AFTER_SECS then Some (member, secs) else None)"

definition chain_lag :: "node \<Rightarrow> u64 \<Rightarrow> (string \<Rightarrow> u64) \<Rightarrow> chain_lag_view" where
  "chain_lag n founded_at last_seen =
     (let s = nd_gov n; h = (case gv_head s of None \<Rightarrow> 0 | Some hd0 \<Rightarrow> ch_height hd0) in
      \<lparr>cl_peers_ahead = u64_sat_sub (fold max (map snd (nd_peer_heights n)) 0) h,
       cl_silent = List.map_filter (silent_entry (gv_now s) founded_at last_seen)
                     (filter (\<lambda>m. m \<noteq> gov_member s) (gov_roster s))\<rparr>)"

definition last_signed :: "gov_state \<Rightarrow> string \<Rightarrow> u64" where
  "last_signed s member =
     max (fold max (map blk_height (filter (\<lambda>b. list_ex (\<lambda>a. at_member a = member) (blk_sigs b)) (gv_blocks s))) 0)
         (case bt_get (gv_seen_signing s) member of None \<Rightarrow> 0 | Some h \<Rightarrow> h)"

definition stale_signers :: "gov_state \<Rightarrow> (string \<times> u64) list option" where
  "stale_signers s =
     (case gv_head s of
        None \<Rightarrow> Some []
      | Some h \<Rightarrow>
          (let lasts = map (\<lambda>i. (mi_member i, last_signed s (mi_member i))) (ch_identities h) in
           if list_ex (\<lambda>(_, l). unat l + STALE_AFTER_BLOCKS \<ge> 2 ^ 64) lasts then None
           else Some (filter (\<lambda>(_, l). unat l + STALE_AFTER_BLOCKS \<le> unat (ch_height h)) lasts)))"

section \<open>Catch-up requests\<close>

definition block_at :: "gov_state \<Rightarrow> u64 \<Rightarrow> chain_block option" where
  "block_at s h = List.find (\<lambda>b. blk_height b = h) (gv_blocks s)"

fun known_loop :: "extern \<Rightarrow> gov_state \<Rightarrow> u64 \<Rightarrow> nat \<Rightarrow> nat \<Rightarrow> (u64 \<times> string) list option" where
  "known_loop X s head_height back 0 = Some []"
| "known_loop X s head_height back (Suc room) =
     (if unat head_height < back then Some []
      else (let h = word_of_nat (unat head_height - back) in
            case block_at s h of
              None \<Rightarrow> Some []
            | Some b \<Rightarrow>
                Option.bind (block_hash X (gov_republic_id s) b) (\<lambda>hash.
                map_option (\<lambda>rest. (h, hash) # rest)
                  (known_loop X s head_height (if back = 0 then 1 else 2 * back) room))))"

definition known_heads :: "extern \<Rightarrow> gov_state \<Rightarrow> (u64 \<times> string) list option" where
  "known_heads X s =
     (if gv_blocks s = [] then Some []
      else known_loop X s (blk_height (last (gv_blocks s))) 0 KNOWN_HEADS_MAX)"

definition request_catchup :: "surround \<Rightarrow> u64 \<Rightarrow> node \<Rightarrow> node option" where
  "request_catchup E from_height n =
     (if gv_head (nd_gov n) = None \<or> nd_catchup_from n = Some from_height then Some n
      else map_option (\<lambda>known. record_event (EvChainRequest from_height known)
                                 (n\<lparr>nd_catchup_from := Some from_height\<rparr>))
             (known_heads (su_extern E) (nd_gov n)))"

definition names_own_block :: "extern \<Rightarrow> gov_state \<Rightarrow> u64 \<times> string \<Rightarrow> bool" where
  "names_own_block X s k \<longleftrightarrow>
     list_ex (\<lambda>b. blk_height b = fst k \<and> block_hash X (gov_republic_id s) b = Some (snd k)) (gv_blocks s)"

definition serve_from_for :: "extern \<Rightarrow> gov_state \<Rightarrow> u64 \<Rightarrow> (u64 \<times> string) list \<Rightarrow> u64" where
  "serve_from_for X s from_height known =
     (case map (\<lambda>k. u64_sat_add (fst k) 1) (filter (names_own_block X s) known) of
        [] \<Rightarrow> from_height
      | h # hs \<Rightarrow> fold max hs h)"

definition serve_chain_from :: "surround \<Rightarrow> u64 \<Rightarrow> node \<Rightarrow> node" where
  "serve_chain_from E from_height n =
     (let s = nd_gov n; blocks = filter (\<lambda>b. blk_height b \<ge> from_height) (gv_blocks s) in
      if blocks = [] then n
      else (let n1 = (case (gv_blob s, gv_blocks s) of
                        (Some blob, anchor # _) \<Rightarrow>
                          if from_height < blk_height anchor \<and> su_blob_fits E blob
                          then record_event (EvCheckpointServed blob) n else n
                      | _ \<Rightarrow> n) in
            fold (\<lambda>b. record_event (EvCommitted b)) blocks n1))"

definition anchor_bootstrap :: "surround \<Rightarrow> gov_state \<Rightarrow> workspace_event list" where
  "anchor_bootstrap E s =
     (case gv_blocks s of
        [] \<Rightarrow> []
      | anchor # _ \<Rightarrow>
          (case gv_blob s of
             Some blob \<Rightarrow> if su_blob_fits E blob then [EvCheckpointServed blob] else []
           | None \<Rightarrow> [])
          @ [EvCommitted anchor])"

definition serve_chain_anchor :: "surround \<Rightarrow> node \<Rightarrow> node" where
  "serve_chain_anchor E n = fold record_event (anchor_bootstrap E (nd_gov n)) n"

section \<open>Applying and buffering\<close>

definition shed_highest :: "(u64, chain_block) btree \<Rightarrow> (u64, chain_block) btree" where
  "shed_highest m = take CATCHUP_BUFFER_WINDOW m"

definition keep_above :: "u64 \<Rightarrow> (u64, chain_block) btree \<Rightarrow> (u64, chain_block) btree" where
  "keep_above h m = filter (\<lambda>(k, _). k > h) m"

definition apply_next_block :: "surround \<Rightarrow> adopter \<Rightarrow> chain_block \<Rightarrow> node \<Rightarrow> (node \<times> bool) option" where
  "apply_next_block E adopt block n =
     Option.bind (append_committed_block (su_extern E) (nd_gov n) block) (\<lambda>(s, taken).
       if \<not> taken then Some (n\<lparr>nd_gov := s\<rparr>, False)
       else map_option (\<lambda>n1.
              (if (case nd_catchup_from n1 of None \<Rightarrow> False | Some f \<Rightarrow> f \<le> blk_height block)
               then n1\<lparr>nd_catchup_from := None\<rparr> else n1, True))
            (after_block_applied E adopt block (n\<lparr>nd_gov := s\<rparr>)))"

fun drain_loop :: "surround \<Rightarrow> adopter \<Rightarrow> nat \<Rightarrow> node \<Rightarrow> node option" where
  "drain_loop E adopt 0 n = None"
| "drain_loop E adopt (Suc k) n =
     (case gv_head (nd_gov n) of
        None \<Rightarrow> Some n
      | Some h \<Rightarrow>
          Option.bind (target_of h) (\<lambda>nxt.
            case bt_get (nd_pending_blocks n) nxt of
              None \<Rightarrow> Some n
            | Some block \<Rightarrow>
                Option.bind (apply_next_block E adopt block (n\<lparr>nd_pending_blocks := bt_remove nxt (nd_pending_blocks n)\<rparr>))
                  (\<lambda>(n1, taken). if taken then drain_loop E adopt k n1 else Some n1)))"

definition head_height_or_0 :: "gov_state \<Rightarrow> u64" where
  "head_height_or_0 s = (case gv_head s of None \<Rightarrow> 0 | Some h \<Rightarrow> ch_height h)"

definition drain_buffered_blocks :: "surround \<Rightarrow> adopter \<Rightarrow> node \<Rightarrow> node option" where
  "drain_buffered_blocks E adopt n =
     map_option (\<lambda>n1. n1\<lparr>nd_pending_blocks := keep_above (head_height_or_0 (nd_gov n1)) (nd_pending_blocks n1)\<rparr>)
       (drain_loop E adopt (Suc (length (nd_pending_blocks n))) n)"

section \<open>Served summaries\<close>

text \<open>The blocks buffered from a height upward, without a gap.\<close>

fun collect_run :: "(u64, chain_block) btree \<Rightarrow> u64 \<Rightarrow> nat \<Rightarrow> chain_block list" where
  "collect_run m h 0 = []"
| "collect_run m h (Suc k) =
     (case bt_get m h of
        None \<Rightarrow> []
      | Some b \<Rightarrow> b # (if unat h = 2 ^ 64 - 1 then [] else collect_run m (h + 1) k))"

definition after_reanchor_block :: "surround \<Rightarrow> chain_block \<Rightarrow> gov_state \<Rightarrow> gov_state" where
  "after_reanchor_block E b s =
     (case blk_change b of
        Applied _ sf payload \<Rightarrow> if sf = Vault then hk_vault_applied (su_hooks E) payload s else s
      | _ \<Rightarrow> s)"

definition touches_org :: "chain_block \<Rightarrow> bool" where
  "touches_org b = (case blk_change b of Applied _ sf _ \<Rightarrow> sf = Organization | _ \<Rightarrow> False)"

definition reanchor :: "surround \<Rightarrow> adopter \<Rightarrow> checkpoint_state \<Rightarrow> chain_block list \<Rightarrow> chain_head \<Rightarrow> node \<Rightarrow> node option" where
  "reanchor E adopt blob candidate h n =
     (let X = su_extern E;
          s1 = (set_checkpoint_blob (Some blob) (nd_gov n))\<lparr>gv_blocks := candidate, gv_head := Some h\<rparr>;
          n1 = n\<lparr>nd_served_blob := None, nd_pending_blocks := keep_above (ch_height h) (nd_pending_blocks n)\<rparr> in
      Option.bind (apply_chain_to_state X (su_hooks E) (nd_block_ts n) (forget_wiki_stamps s1)) (\<lambda>s2.
      Option.bind (drop_a_stale_wiki_base X s2) (\<lambda>s3.
        (let s4 = fold (after_reanchor_block E) candidate (drop_a_stale_vault_base X s3);
             s5 = (if list_ex touches_org candidate then hk_org_applied (su_hooks E) s4 else s4) in
         map_option (\<lambda>n2. if (case nd_catchup_from n2 of None \<Rightarrow> False | Some f \<Rightarrow> f \<le> ch_height h)
                          then n2\<lparr>nd_catchup_from := None\<rparr> else n2)
           (rebase_pending_approvals E adopt (n1\<lparr>nd_gov := hk_wallet_commit (su_hooks E) s5\<rparr>))))))"

definition try_adopt_from_blob :: "surround \<Rightarrow> adopter \<Rightarrow> node \<Rightarrow> node option" where
  "try_adopt_from_blob E adopt n =
     (case nd_served_blob n of
        None \<Rightarrow> Some n
      | Some blob \<Rightarrow>
          (let s = nd_gov n; gone = n\<lparr>nd_served_blob := None\<rparr> in
           if (case gv_head s of None \<Rightarrow> False | Some h \<Rightarrow> ch_height h > cs_upto blob) then Some gone
           else if unat (cs_upto blob) = 2 ^ 64 - 1 then Some gone
           else if \<not> bt_contains (nd_pending_blocks n) (cs_upto blob + 1) then Some n
           else (let candidate = collect_run (nd_pending_blocks n) (cs_upto blob + 1) (length (nd_pending_blocks n)) in
                 case walk_suffix_chain (su_extern E) blob candidate (gov_republic_id s) (held_bases (su_extern E) s) of
                   Inl Panic \<Rightarrow> None
                 | Inl (Refused _) \<Rightarrow> Some gone
                 | Inr w \<Rightarrow> reanchor E adopt blob candidate (w_head w) n)))"

definition receive_checkpoint_blob :: "surround \<Rightarrow> adopter \<Rightarrow> checkpoint_state \<Rightarrow> node \<Rightarrow> node option" where
  "receive_checkpoint_blob E adopt blob n =
     (let s = nd_gov n in
      if \<not> (case gv_head s of None \<Rightarrow> True | Some h \<Rightarrow> ch_height h < cs_upto blob) \<or> nd_served_blob n \<noteq> None
      then Some n
      else Option.bind (republic_id (su_extern E) (cs_founding_name blob) (cs_rule_m blob) (cs_rule_n blob)
                          (cs_founding_identities blob)) (\<lambda>rid.
             if rid \<noteq> gov_republic_id s \<or> rid \<noteq> cs_republic_id blob then Some n
             else try_adopt_from_blob E adopt (n\<lparr>nd_served_blob := Some blob\<rparr>)))"

section \<open>Other branches\<close>

definition stash_fork_candidate :: "chain_block \<Rightarrow> node \<Rightarrow> node" where
  "stash_fork_candidate block n =
     n\<lparr>nd_fork_candidates := shed_highest (bt_insert (blk_height block) block (nd_fork_candidates n))\<rparr>"

text \<open>The lowest candidate above the anchor that links into the held chain.\<close>

fun find_fork :: "extern \<Rightarrow> gov_state \<Rightarrow> u64 \<Rightarrow> (u64, chain_block) btree \<Rightarrow> u64 option option" where
  "find_fork X s anchor [] = Some None"
| "find_fork X s anchor ((h, cand) # rest) =
     (if h \<le> anchor then find_fork X s anchor rest
      else (case block_at s (h - 1) of
              None \<Rightarrow> find_fork X s anchor rest
            | Some below \<Rightarrow>
                Option.bind (block_hash X (gov_republic_id s) below) (\<lambda>hash.
                  if hash = blk_prev cand then Some (Some h) else find_fork X s anchor rest)))"

fun linked_run :: "extern \<Rightarrow> string \<Rightarrow> (u64, chain_block) btree \<Rightarrow> u64 \<Rightarrow> chain_block option \<Rightarrow> nat \<Rightarrow> chain_block list option" where
  "linked_run X rid m h prev 0 = Some []"
| "linked_run X rid m h prev (Suc k) =
     (case bt_get m h of
        None \<Rightarrow> Some []
      | Some c \<Rightarrow>
          (case prev of
             None \<Rightarrow> map_option (Cons c) (linked_run X rid m (u64_sat_add h 1) (Some c) k)
           | Some p \<Rightarrow>
               Option.bind (block_hash X rid p) (\<lambda>hash.
                 if blk_prev c \<noteq> hash then Some []
                 else map_option (Cons c) (linked_run X rid m (u64_sat_add h 1) (Some c) k))))"

text \<open>A card of a displaced decision: materialized ones go, deliberated ones are a vote again.\<close>

definition reopen_card :: "u64 \<Rightarrow> gov_state \<Rightarrow> gov_state" where
  "reopen_card i s =
     (case bt_get (gv_proposals s) i of
        None \<Rightarrow> s
      | Some p \<Rightarrow>
          if pr_by p = [] then s\<lparr>gv_proposals := bt_remove i (gv_proposals s)\<rparr>
          else upd_card i (\<lambda>q. q\<lparr>pr_state := StProposed\<rparr>) s)"

definition reopen_displaced :: "u64 list \<Rightarrow> chain_block \<Rightarrow> gov_state \<Rightarrow> gov_state" where
  "reopen_displaced kept b s =
     (case applied_change b of
        None \<Rightarrow> s
      | Some (i, _) \<Rightarrow> if i \<in> set kept then s else reopen_card i s)"

text \<open>Our blocks above a variant, linked anew onto it.\<close>

fun relink :: "extern \<Rightarrow> string \<Rightarrow> chain_block list \<Rightarrow> chain_block list \<Rightarrow> chain_block list option" where
  "relink X rid candidate [] = Some candidate"
| "relink X rid candidate (b # bs) =
     Option.bind (if candidate = [] then Some [] else block_hash X rid (last candidate)) (\<lambda>prev.
       relink X rid (candidate @ [b\<lparr>blk_prev := prev\<rparr>]) bs)"

definition relink_onto_variant :: "surround \<Rightarrow> adopter \<Rightarrow> string \<Rightarrow> chain_block list \<Rightarrow> node \<Rightarrow> node option" where
  "relink_onto_variant E adopt from_member candidate0 n =
     (let s = nd_gov n; X = su_extern E;
          top_height = (if candidate0 = [] then 0 else blk_height (last candidate0)) in
      Option.bind (relink X (gov_republic_id s) candidate0 (filter (\<lambda>b. blk_height b > top_height) (gv_blocks s)))
        (\<lambda>candidate.
          (let n1 = n\<lparr>nd_fork_candidates := []\<rparr> in
           case walk_own X s candidate of
             Inl Panic \<Rightarrow> None
           | Inl (Refused _) \<Rightarrow> Some n1
           | Inr _ \<Rightarrow>
               (let fresh = filter (\<lambda>b. blk_height b > head_height_or_0 s) candidate in
                Option.bind (on_gov_opt (adopt_chain X (su_hooks E) (nd_block_ts n) candidate) n1) (\<lambda>n2.
                map_option (clear_divergence from_member)
                  (ofold (after_block_applied E adopt) fresh n2))))))"

text \<open>Taking the other branch: the dropped decisions are votes again, own approvals re-sign.\<close>

definition take_branch ::
  "surround \<Rightarrow> adopter \<Rightarrow> u64 \<Rightarrow> chain_block list \<Rightarrow> chain_block list \<Rightarrow> node \<Rightarrow> node option" where
  "take_branch E adopt f suffix candidate n =
     (let s = nd_gov n; X = su_extern E;
          dropped = filter (\<lambda>b. blk_height b \<ge> f) (gv_blocks s);
          kept = bset_of_list (map fst (List.map_filter applied_change suffix)) in
      Option.bind (adopt_chain X (su_hooks E) (nd_block_ts n) candidate (forget_wiki_stamps s)) (\<lambda>s1.
      Option.bind (ofold (after_block_applied E adopt) suffix
          (n\<lparr>nd_gov := hk_vault_displaced (su_hooks E) dropped kept (fold (reopen_displaced kept) dropped s1)\<rparr>)) (\<lambda>n1.
      Option.bind (ofold (chain_sign_and_gossip_approval E adopt)
          (filter (open_card (nd_gov n1)) (gv_own_approvals (nd_gov n1)))
          (on_gov (\<lambda>t. t\<lparr>gv_pending_sigs := []\<rparr>) n1)) (\<lambda>n2.
        (let n3 = n2\<lparr>nd_fork_candidates := [], nd_diverged := []\<rparr> in
         case gv_head (nd_gov n3) of
           None \<Rightarrow> Some n3
         | Some h \<Rightarrow> request_catchup E (u64_sat_add (ch_height h) 1) (n3\<lparr>nd_catchup_from := None\<rparr>))))))"

definition ask_below :: "surround \<Rightarrow> u64 \<Rightarrow> node \<Rightarrow> node option" where
  "ask_below E anchor n =
     (case nd_fork_candidates n of
        [] \<Rightarrow> Some n
      | (lowest, _) # _ \<Rightarrow>
          if lowest > u64_sat_add anchor 1
          then request_catchup E (max (u64_sat_sub lowest 1) (u64_sat_add anchor 1)) n else Some n)"

definition same_decisions :: "gov_state \<Rightarrow> chain_block list \<Rightarrow> bool" where
  "same_decisions s suffix =
     list_all (\<lambda>c. case block_at s (blk_height c) of None \<Rightarrow> True | Some o0 \<Rightarrow> blk_change o0 = blk_change c) suffix"

definition try_reorg :: "surround \<Rightarrow> adopter \<Rightarrow> string \<Rightarrow> node \<Rightarrow> node option" where
  "try_reorg E adopt from_member n =
     (let s = nd_gov n; X = su_extern E; rid = gov_republic_id s in
      case gv_blocks s of
        [] \<Rightarrow> Some n
      | anchor_block # _ \<Rightarrow>
          (let anchor = blk_height anchor_block in
           Option.bind (find_fork X s anchor (nd_fork_candidates n)) (\<lambda>fork.
           case fork of
             None \<Rightarrow> ask_below E anchor n
           | Some f \<Rightarrow>
               Option.bind (linked_run X rid (nd_fork_candidates n) f None (Suc (length (nd_fork_candidates n)))) (\<lambda>suffix.
               case block_at s f of
                 None \<Rightarrow> Some n
               | Some ours \<Rightarrow>
                   Option.bind (block_hash X rid ours) (\<lambda>mine.
                   Option.bind (block_hash X rid (hd suffix)) (\<lambda>theirs.
                     if mine \<le> theirs then Some (n\<lparr>nd_fork_candidates := []\<rparr>)
                     else (let candidate = filter (\<lambda>b. blk_height b < f) (gv_blocks s) @ suffix in
                           if same_decisions s suffix then relink_onto_variant E adopt from_member candidate n
                           else (case walk_own X s candidate of
                                   Inl Panic \<Rightarrow> None
                                 | Inl (Refused _) \<Rightarrow> Some (n\<lparr>nd_fork_candidates := []\<rparr>)
                                 | Inr _ \<Rightarrow> take_branch E adopt f suffix candidate n))))))))"

section \<open>A contender for a filled slot\<close>

text \<open>The incoming block took the tip; the displaced decision goes back to its card.\<close>

definition settle_swap :: "surround \<Rightarrow> adopter \<Rightarrow> chain_block \<Rightarrow> chain_block \<Rightarrow> node \<Rightarrow> node option" where
  "settle_swap E adopt displaced block n =
     Option.bind (on_gov_opt (apply_chain_to_state (su_extern E) (su_hooks E) (nd_block_ts n)) n) (\<lambda>n1.
       (let s1 = nd_gov n1;
            s2 = (case applied_change displaced of
                    None \<Rightarrow> s1
                  | Some (i, _) \<Rightarrow> forget_wiki_stamps (reopen_card i s1));
            kept = (case applied_change block of None \<Rightarrow> [] | Some (i, _) \<Rightarrow> [i]) in
        after_block_applied E adopt block (n1\<lparr>nd_gov := hk_vault_displaced (su_hooks E) [displaced] kept s2\<rparr>)))"

definition swap_tip :: "surround \<Rightarrow> adopter \<Rightarrow> chain_block \<Rightarrow> node \<Rightarrow> node option" where
  "swap_tip E adopt block n =
     (let s = nd_gov n; blocks = butlast (gv_blocks s) @ [block] in
      case verify_own (su_extern E) (s\<lparr>gv_blocks := blocks\<rparr>) blocks of
        Inl Panic \<Rightarrow> None
      | Inl (Refused _) \<Rightarrow> Some n
      | Inr h \<Rightarrow>
          settle_swap E adopt (last (gv_blocks s)) block
            (n\<lparr>nd_gov := s\<lparr>gv_blocks := blocks, gv_head := Some h, gv_head_moved_at := gv_now s\<rparr>\<rparr>))"

definition carries_threshold :: "extern \<Rightarrow> gov_state \<Rightarrow> chain_block \<Rightarrow> bool option" where
  "carries_threshold X s block =
     (case gv_head s of
        None \<Rightarrow> Some False
      | Some h \<Rightarrow>
          (case block_signers X (gov_republic_id s) (ch_identities h) block of
             Inr signers \<Rightarrow> Some (length signers \<ge> unat (ch_rule_m h))
           | Inl (Refused _) \<Rightarrow> Some False
           | Inl Panic \<Rightarrow> None))"

definition shares_prev :: "extern \<Rightarrow> gov_state \<Rightarrow> chain_block \<Rightarrow> bool option" where
  "shares_prev X s block =
     (case List.find (\<lambda>b. u64_sat_add (blk_height b) 1 = blk_height block) (gv_blocks s) of
        None \<Rightarrow> Some True
      | Some below \<Rightarrow> map_option (\<lambda>hash. hash = blk_prev block) (block_hash X (gov_republic_id s) below))"

definition tie_break :: "surround \<Rightarrow> adopter \<Rightarrow> string \<Rightarrow> chain_block \<Rightarrow> node \<Rightarrow> node option" where
  "tie_break E adopt from_member block n =
     (let s = nd_gov n; X = su_extern E; rid = gov_republic_id s in
      case block_at s (blk_height block) of
        None \<Rightarrow> Some n
      | Some existing \<Rightarrow>
          if existing = block then Some (clear_divergence from_member n)
          else
            Option.bind (block_hash X rid block) (\<lambda>incoming.
            Option.bind (block_hash X rid existing) (\<lambda>current.
            Option.bind (shares_prev X s block) (\<lambda>shared_prev.
            Option.bind (carries_threshold X s block) (\<lambda>signed.
              (let is_tip = (gv_blocks s \<noteq> [] \<and> blk_height (last (gv_blocks s)) = blk_height block) in
               if shared_prev \<and> blk_change existing = blk_change block then
                 if incoming < current \<and> signed
                 then try_reorg E adopt from_member (stash_fork_candidate block n) else Some n
               else if \<not> shared_prev \<or> \<not> is_tip then
                 try_reorg E adopt from_member
                   (stash_fork_candidate block
                     (note_divergence from_member
                       (if shared_prev then blk_height block else u64_sat_sub (blk_height block) 1) n))
               else if incoming < current \<and> signed then swap_tip E adopt block n
               else Some n))))))"

section \<open>A block from the wire\<close>

definition other_republic :: "gov_state \<Rightarrow> chain_block \<Rightarrow> bool" where
  "other_republic s block =
     (case blk_change block of
        Genesis _ rid _ _ _ _ _ _ \<Rightarrow> gov_republic_id s \<noteq> [] \<and> rid \<noteq> gov_republic_id s
      | _ \<Rightarrow> False)"

definition receive_headless :: "surround \<Rightarrow> adopter \<Rightarrow> chain_block \<Rightarrow> node \<Rightarrow> node option" where
  "receive_headless E adopt block n =
     (if blk_height block = 0 then
        if other_republic (nd_gov n) block then Some n
        else Option.bind (on_gov_opt (adopt_chain (su_extern E) (su_hooks E) (nd_block_ts n) [block]) n) (\<lambda>n1.
               if gv_head (nd_gov n1) = None then Some n1 else drain_buffered_blocks E adopt n1)
      else try_adopt_from_blob E adopt
             (n\<lparr>nd_pending_blocks := shed_highest (bt_insert (blk_height block) block (nd_pending_blocks n))\<rparr>))"

definition window_end :: "u64 \<Rightarrow> u64" where
  "window_end h = u64_sat_add h (word_of_nat CATCHUP_BUFFER_WINDOW)"

definition buffer_gap :: "surround \<Rightarrow> adopter \<Rightarrow> u64 \<Rightarrow> chain_block \<Rightarrow> node \<Rightarrow> node option" where
  "buffer_gap E adopt head_height block n =
     (let anchor_ok = (case nd_served_blob n of
                         None \<Rightarrow> False
                       | Some blob \<Rightarrow> blk_height block > cs_upto blob \<and> blk_height block \<le> window_end (cs_upto blob)) in
      if blk_height block > window_end head_height \<and> \<not> anchor_ok then Some n
      else Option.bind (try_adopt_from_blob E adopt
               (n\<lparr>nd_pending_blocks := shed_highest
                    (bt_insert (blk_height block) block (keep_above head_height (nd_pending_blocks n)))\<rparr>))
             (request_catchup E (head_height + 1)))"

definition receive_block_from :: "surround \<Rightarrow> adopter \<Rightarrow> string \<Rightarrow> chain_block \<Rightarrow> node \<Rightarrow> node option" where
  "receive_block_from E adopt from_member block n0 =
     (let n = note_peer_height from_member (blk_height block) n0 in
      case gv_head (nd_gov n) of
        None \<Rightarrow> receive_headless E adopt block n
      | Some h \<Rightarrow>
          Option.bind (target_of h) (\<lambda>nxt.
            if blk_height block = nxt then
              if blk_prev block \<noteq> ch_hash h
              then try_reorg E adopt from_member
                     (stash_fork_candidate block (note_divergence from_member (ch_height h) n))
              else Option.bind (apply_next_block E adopt block n) (\<lambda>(n1, taken).
                     if taken then drain_buffered_blocks E adopt (clear_divergence from_member n1) else Some n1)
            else if blk_height block \<le> ch_height h then tie_break E adopt from_member block n
            else buffer_gap E adopt (ch_height h) block n))"

end
