(* ===== verification/Sync_Laws.thy ===== *)
theory Sync_Laws
  imports Gov_Commit_Laws Chain_Sync
begin

text \<open>
  What the synchronisation keeps. Whatever block or summary a peer sends, the chain a node
  holds afterwards is one it verified, and its projection is the one a rebuild gives.
\<close>

section \<open>Holders with and without a chain\<close>

definition headless :: "extern \<Rightarrow> gov_state \<Rightarrow> bool" where
  "headless X s \<longleftrightarrow> chain_ok X s \<and> seated (gv_blob s) \<and> gv_head s = None"

definition holder_ok :: "extern \<Rightarrow> gov_state \<Rightarrow> bool" where
  "holder_ok X s \<longleftrightarrow> sound X s \<or> headless X s"

text \<open>\<open>holds X n r\<close>: if \<open>r\<close> returns a node, it is as sound as \<open>n\<close> was.\<close>

definition holds :: "extern \<Rightarrow> node \<Rightarrow> node option \<Rightarrow> bool" where
  "holds X n r \<longleftrightarrow> (\<forall>n'. r = Some n' \<longrightarrow> sound X (nd_gov n) \<longrightarrow> sound X (nd_gov n'))"

lemma holdsD: "holds X n r \<Longrightarrow> r = Some n' \<Longrightarrow> sound X (nd_gov n) \<Longrightarrow> sound X (nd_gov n')"
  by (simp add: holds_def)

lemma holds_same: "chain_part (nd_gov m) = chain_part (nd_gov n) \<Longrightarrow> holds X n (Some m)"
  using sound_part[of "nd_gov m" "nd_gov n" X] by (simp add: holds_def)

lemma holds_None: "holds X n None"
  by (simp add: holds_def)

lemma holds_keeps: "keeps X n r \<Longrightarrow> holds X n r"
  by (auto simp: holds_def keeps_def advances_def)

lemma holds_touch: "chain_part (nd_gov m) = chain_part (nd_gov n) \<Longrightarrow> holds X m r \<Longrightarrow> holds X n r"
  using sound_part[of "nd_gov m" "nd_gov n" X] by (simp add: holds_def)

lemma holds_if: "(P \<Longrightarrow> holds X n a) \<Longrightarrow> (\<not> P \<Longrightarrow> holds X n b) \<Longrightarrow> holds X n (if P then a else b)"
  by simp

lemma holds_bind: "(\<And>x. m = Some x \<Longrightarrow> holds X n (f x)) \<Longrightarrow> holds X n (Option.bind m f)"
  by (cases m) (simp_all add: holds_None)

lemma holds_then: "holds X n r \<Longrightarrow> (\<And>m. holds X m (f m)) \<Longrightarrow> holds X n (Option.bind r f)"
  by (cases r) (auto simp: holds_def)

lemma holds_after:
  assumes "holds X n r" "\<And>m. chain_part (nd_gov (f m)) = chain_part (nd_gov m)"
  shows "holds X n (map_option f r)"
proof (cases r)
  case (Some m)
  then show ?thesis using assms(1) sound_part[OF assms(2)[of m], of X] by (simp add: holds_def)
qed (simp add: holds_None)

section \<open>What the buffers do not touch\<close>

lemma sync_gov [simp]:
  "nd_gov (note_peer_height m h n) = nd_gov n" "nd_gov (note_divergence m h n) = nd_gov n"
  "nd_gov (clear_divergence m n) = nd_gov n" "nd_gov (stash_fork_candidate b n) = nd_gov n"
  by (simp_all add: note_peer_height_def note_divergence_def clear_divergence_def stash_fork_candidate_def Let_def)

lemma request_gov: "request_catchup E f n = Some n' \<Longrightarrow> nd_gov n' = nd_gov n"
  by (auto simp: request_catchup_def split: if_splits)

lemma holds_request: "holds X n (request_catchup E f n)"
  using request_gov by (auto simp: holds_def)

lemma holds_ask_below: "holds X n (ask_below E a n)"
  by (auto simp: ask_below_def holds_request holds_same split: list.split)

section \<open>Extending the chain\<close>

lemma apply_next_sound:
  assumes H: "hooks_ok (su_hooks E)" and ad: "adopter_ok E adopt"
    and a: "apply_next_block E adopt b n = Some (n', r)" and s: "sound (su_extern E) (nd_gov n)"
  shows "sound (su_extern E) (nd_gov n')"
proof -
  obtain t taken where t: "append_committed_block (su_extern E) (nd_gov n) b = Some (t, taken)"
    using a by (auto simp: apply_next_block_def bind_eq_Some_conv)
  show ?thesis
  proof (cases taken)
    case False
    then show ?thesis using a t append_sound[OF s t] by (simp add: apply_next_block_def) auto
  next
    case True
    then obtain n1 where n1: "after_block_applied E adopt b (n\<lparr>nd_gov := t\<rparr>) = Some n1" "nd_gov n' = nd_gov n1"
      using a t by (auto simp: apply_next_block_def split: if_splits)
    then show ?thesis using append_then_after(1)[OF H ad _ n1(1)] t True s by (simp add: advances_def)
  qed
qed

lemma drain_loop_holds:
  assumes "hooks_ok (su_hooks E)" "adopter_ok E adopt"
  shows "holds (su_extern E) n (drain_loop E adopt k n)"
proof (induction k arbitrary: n)
  case (Suc k)
  have "holds (su_extern E) n (Option.bind (apply_next_block E adopt b m) (\<lambda>(n1, taken). if taken then drain_loop E adopt k n1 else Some n1))"
    if "nd_gov m = nd_gov n" for b m
    using apply_next_sound[OF assms, of b m] Suc that
    by (auto simp: holds_def bind_eq_Some_conv split: if_splits)
  then show ?case by (auto simp: holds_same intro!: holds_bind split: option.split)
qed (simp add: holds_None)

lemma drain_holds:
  assumes "hooks_ok (su_hooks E)" "adopter_ok E adopt"
  shows "holds (su_extern E) n (drain_buffered_blocks E adopt n)"
  unfolding drain_buffered_blocks_def by (rule holds_after[OF drain_loop_holds[OF assms]]) simp

section \<open>Adopting whole chains\<close>

lemma adopt_chain_blob:
  assumes "hooks_ok H" "adopt_chain X H ts bs s = Some t" "seated (gv_blob s)"
  shows "seated (gv_blob t)"
proof (cases "walk_own X (s\<lparr>gv_adoption_pending := False\<rparr>) bs")
  case (Inr w)
  then have "apply_chain_to_state X H ts (bump_next_id_past_chain (s\<lparr>gv_adoption_pending := False, gv_blocks := bs,
      gv_head := Some (w_head w), gv_head_moved_at := gv_now s, gv_walk := Some w\<rparr>)) = Some t"
    using assms(2) by (simp add: adopt_chain_def)
  from apply_chain_facts(4)[OF assms(1) this] assms(3) show ?thesis by (simp add: bump_next_id_past_chain_def)
next
  case (Inl e)
  then show ?thesis using assms(2)
    by (cases e) (auto simp: adopt_chain_def set_checkpoint_blob_def bump_applied_epoch_def seated_def)
qed

lemma adopt_chain_holder:
  assumes "hooks_ok H" "adopt_chain X H ts bs s = Some t" "gov_republic_id s \<noteq> []" "names_republic s bs"
    "seated (gv_blob s)"
  shows "holder_ok X t"
  using adopt_chain_ok[OF assms(1-4)] adopt_chain_blob[OF assms(1,2,5)]
  by (cases "gv_head t") (simp_all add: holder_ok_def sound_def headless_def)

lemma walk_own_part:
  assumes "chain_part t = chain_part s"
  shows "walk_own X t bs = walk_own X s bs"
  unfolding walk_own_def chain_part_eqD[OF assms] chain_part_rid[OF assms] held_bases_part[OF assms] ..

lemma adopt_verified:
  assumes H: "hooks_ok H" and a: "adopt_chain X H ts bs t = Some u" and v: "walk_own X s bs = Inr w"
    and t: "chain_part t = chain_part s" and s: "sound X s" and n: "names_republic s bs"
  shows "sound X u" "gv_blocks u = bs" "gv_head u = Some (w_head w)"
proof -
  let ?t = "t\<lparr>gv_adoption_pending := False\<rparr>"
  have w: "walk_own X ?t bs = Inr w" using walk_own_part[of ?t s] t v by simp
  have "apply_chain_to_state X H ts (bump_next_id_past_chain (?t\<lparr>gv_blocks := bs,
      gv_head := Some (w_head w), gv_head_moved_at := gv_now ?t, gv_walk := Some w\<rparr>)) = Some u"
    using a w by (simp add: adopt_chain_def)
  note f = apply_chain_facts(1,2)[OF H this]
  show h: "gv_blocks u = bs" "gv_head u = Some (w_head w)" using f by (simp_all add: bump_next_id_past_chain_def)
  have "gov_republic_id s \<noteq> []" using s by (rule soundE)
  then have "gov_republic_id t \<noteq> []" "seated (gv_blob t)" "names_republic t bs"
    using s n unfolding names_republic_def chain_part_rid[OF t] chain_part_eqD(4)[OF t] by (simp_all add: sound_def)
  from adopt_chain_holder[OF H a this(1,3,2)] show "sound X u" using h(2) by (simp add: holder_ok_def headless_def)
qed

text \<open>The chain a holder keeps names its own republic.\<close>

lemma sound_names: "sound X s \<Longrightarrow> names_republic s (gv_blocks s)"
proof (erule soundE)
  fix w assume w: "own_walks X (gv_blob s) (gov_republic_id s) (gv_blocks s) w" "ch_republic_id (w_head w) = gov_republic_id s"
  show ?thesis
  proof (cases "gv_blob s")
    case None
    with w own_walks_genesis[of X "gov_republic_id s" "gv_blocks s" w] obtain g rest hd0
      where g: "gv_blocks s = g # rest" "verify_genesis X g = Inr hd0" "gov_republic_id s = ch_republic_id hd0" by auto
    from verify_genesis_Inr[OF g(2)] g None show ?thesis by (auto simp: names_republic_def)
  qed (simp add: names_republic_def)
qed

lemma names_same_first: "names_republic s bs \<Longrightarrow> bs \<noteq> [] \<Longrightarrow> cs \<noteq> [] \<Longrightarrow> hd cs = hd bs \<Longrightarrow> names_republic s cs"
  by (cases bs; cases cs) (auto simp: names_republic_def)

section \<open>Other branches\<close>

lemma linked_run_mem: "linked_run X rid m h prev k = Some r \<Longrightarrow> b \<in> set r \<Longrightarrow> b \<in> snd ` set m"
proof (induction X rid m h prev k arbitrary: r rule: linked_run.induct)
  case (2 X rid m h prev k)
  then show ?case
    by (auto dest!: map_of_SomeD simp: bind_eq_Some_conv split: option.splits if_splits) force+
qed simp

lemma find_fork_above: "find_fork X s anchor m = Some (Some f) \<Longrightarrow> f > anchor"
  by (induction X s anchor m rule: find_fork.induct) (auto simp: bind_eq_Some_conv split: if_splits option.splits)

lemma relink_extends: "relink X rid c bs = Some r \<Longrightarrow> \<exists>q. r = c @ q \<and> map blk_height q = map blk_height bs"
proof (induction X rid c bs arbitrary: r rule: relink.induct)
  case (2 X rid c b bs)
  then obtain p where p: "(if c = [] then Some [] else block_hash X rid (last c)) = Some p"
    "relink X rid (c @ [b\<lparr>blk_prev := p\<rparr>]) bs = Some r"
    by (auto simp only: relink.simps bind_eq_Some_conv)
  from "2.IH"[OF p] obtain q where "r = (c @ [b\<lparr>blk_prev := p\<rparr>]) @ q" "map blk_height q = map blk_height bs" by blast
  then show ?case by (intro exI[of _ "b\<lparr>blk_prev := p\<rparr> # q"]) simp
qed simp

lemma heights_filter: "map blk_height q = map blk_height (filter P bs) \<Longrightarrow> set (map blk_height q) \<subseteq> set (map blk_height bs)"
  by auto

definition no_cuts :: "chain_block list \<Rightarrow> bool" where
  "no_cuts = list_all (\<lambda>b. cut_kind_of (blk_change b) = None)"

lemma after_blocks_keep:
  assumes "hooks_ok (su_hooks E)" "adopter_ok E adopt" "no_cuts bs"
  shows "keeps (su_extern E) n (ofold (after_block_applied E adopt) bs n)"
  using assms(3)
  by (induction bs arbitrary: n) (simp_all add: no_cuts_def keeps_refl keeps_then after_block_keeps[OF assms(1,2)])

lemma reopen_card_part [simp]: "chain_part (reopen_card i s) = chain_part s"
  by (simp add: reopen_card_def split: option.split)

lemma reopen_displaced_part [simp]: "chain_part (reopen_displaced kept b s) = chain_part s"
  by (simp add: reopen_displaced_def split: option.split)

text \<open>A run of candidates on our own blocks below the fork keeps our first block.\<close>

lemma below_fork:
  assumes "sound X s" "gv_blocks s = a # rest" "f > blk_height a"
  shows "names_republic s (filter (\<lambda>b. blk_height b < f) (gv_blocks s) @ q)"
  by (rule names_same_first[OF sound_names[OF assms(1)]]) (use assms in simp_all)

lemma sound_heights:
  assumes "sound X s" "b \<in> set (gv_blocks s)"
  shows "blk_height b \<le> head_height_or_0 s"
proof -
  from assms(1) obtain w where w: "own_walks X (gv_blob s) (gov_republic_id s) (gv_blocks s) w" "gv_head s = Some (w_head w)"
    by (rule soundE)
  from stands_below_head[OF own_walks_stands[OF w(1)] assms(2)] show ?thesis by (simp add: head_height_or_0_def w(2))
qed

lemma relink_holds:
  assumes H: "hooks_ok (su_hooks E)" and ad: "adopter_ok E adopt" and suf: "no_cuts suffix"
    and f: "gv_blocks (nd_gov n) = a # rest" "f > blk_height a"
  shows "holds (su_extern E) n
    (relink_onto_variant E adopt from_member (filter (\<lambda>b. blk_height b < f) (gv_blocks (nd_gov n)) @ suffix) n)"
  unfolding holds_def
proof (intro allI impI)
  fix n'
  let ?X = "su_extern E" and ?s = "nd_gov n" and ?n1 = "n\<lparr>nd_fork_candidates := []\<rparr>"
  let ?c0 = "filter (\<lambda>b. blk_height b < f) (gv_blocks ?s) @ suffix"
  assume r: "relink_onto_variant E adopt from_member ?c0 n = Some n'" and s: "sound ?X ?s"
  obtain c where c: "relink ?X (gov_republic_id ?s) ?c0
      (filter (\<lambda>b. blk_height b > (if ?c0 = [] then 0 else blk_height (last ?c0))) (gv_blocks ?s)) = Some c"
    using r by (auto simp only: relink_onto_variant_def Let_def bind_eq_Some_conv)
  from relink_extends[OF this] obtain q where q: "c = ?c0 @ q" "set (map blk_height q) \<subseteq> set (map blk_height (gv_blocks ?s))"
    using heights_filter by blast
  show "sound ?X (nd_gov n')"
  proof (cases "walk_own ?X ?s c")
    case (Inl e)
    then show ?thesis using r c s by (cases e) (auto simp: relink_onto_variant_def Let_def)
  next
    case (Inr w)
    let ?fresh = "filter (\<lambda>b. blk_height b > head_height_or_0 ?s) c"
    have fresh: "no_cuts ?fresh"
    proof -
      have "blk_height b \<le> head_height_or_0 ?s" if "b \<in> set (filter (\<lambda>b. blk_height b < f) (gv_blocks ?s)) \<or> b \<in> set q" for b
      proof -
        have "blk_height b \<in> blk_height ` set (gv_blocks ?s)" using that q(2) by auto
        then show ?thesis using sound_heights[OF s] by auto
      qed
      then show ?thesis using suf by (auto simp: q(1) no_cuts_def list_all_iff simp flip: not_le)
    qed
    obtain u n2 where u: "adopt_chain ?X (su_hooks E) (nd_block_ts n) c ?s = Some u"
      and n2: "ofold (after_block_applied E adopt) ?fresh (?n1\<lparr>nd_gov := u\<rparr>) = Some n2" "nd_gov n' = nd_gov n2"
      using r c Inr by (auto simp: relink_onto_variant_def Let_def on_gov_opt_def bind_eq_Some_conv)
    have "names_republic ?s c" unfolding q(1) append_assoc by (rule below_fork[OF s f])
    from adopt_verified(1)[OF H u Inr refl s this] have "sound ?X (nd_gov (?n1\<lparr>nd_gov := u\<rparr>))" by simp
    from holdsD[OF holds_keeps[OF after_blocks_keep[OF H ad fresh]] n2(1) this] show ?thesis using n2(2) by simp
  qed
qed

lemma take_branch_holds:
  assumes H: "hooks_ok (su_hooks E)" and ad: "adopter_ok E adopt" and suf: "no_cuts suffix"
    and f: "gv_blocks (nd_gov n) = a # rest" "f > blk_height a"
    and c: "candidate = filter (\<lambda>b. blk_height b < f) (gv_blocks (nd_gov n)) @ suffix"
    and v: "walk_own (su_extern E) (nd_gov n) candidate = Inr w"
  shows "holds (su_extern E) n (take_branch E adopt f suffix candidate n)"
  unfolding holds_def
proof (intro allI impI)
  fix n'
  let ?X = "su_extern E" and ?s = "nd_gov n"
  assume r: "take_branch E adopt f suffix candidate n = Some n'" and s: "sound ?X ?s"
  let ?dropped = "filter (\<lambda>b. blk_height b \<ge> f) (gv_blocks ?s)"
  let ?kept = "bset_of_list (map fst (List.map_filter applied_change suffix))"
  obtain s1 n1 n2 where s1: "adopt_chain ?X (su_hooks E) (nd_block_ts n) candidate (forget_wiki_stamps ?s) = Some s1"
    and n1: "ofold (after_block_applied E adopt) suffix
          (n\<lparr>nd_gov := hk_vault_displaced (su_hooks E) ?dropped ?kept (fold (reopen_displaced ?kept) ?dropped s1)\<rparr>) = Some n1"
    and n2: "ofold (chain_sign_and_gossip_approval E adopt)
          (filter (open_card (nd_gov n1)) (gv_own_approvals (nd_gov n1)))
          (on_gov (\<lambda>t. t\<lparr>gv_pending_sigs := []\<rparr>) n1) = Some n2"
    and n': "nd_gov n' = nd_gov n2"
    using r unfolding take_branch_def Let_def bind_eq_Some_conv
    by (auto split: option.splits dest!: request_gov)
  let ?m = "n\<lparr>nd_gov := hk_vault_displaced (su_hooks E) ?dropped ?kept (fold (reopen_displaced ?kept) ?dropped s1)\<rparr>"
  have "names_republic ?s candidate" unfolding c by (rule below_fork[OF s f])
  from adopt_verified(1)[OF H s1 v _ s this] have "sound ?X s1" by simp
  moreover have "chain_part (nd_gov ?m) = chain_part s1" using H by (simp add: chain_part_fold)
  ultimately have "sound ?X (nd_gov ?m)" using sound_part[of "nd_gov ?m" s1 ?X] by simp
  then have 1: "sound ?X (nd_gov n1)" by (rule holdsD[OF holds_keeps[OF after_blocks_keep[OF H ad suf]] n1])
  let ?m1 = "on_gov (\<lambda>t. t\<lparr>gv_pending_sigs := []\<rparr>) n1"
  have "sound ?X (nd_gov ?m1)" using 1 sound_part[of "nd_gov ?m1" "nd_gov n1" ?X] by simp
  from holdsD[OF holds_keeps[OF keeps_ofold[OF sign_keeps[OF ad]]] n2 this] show "sound ?X (nd_gov n')" using n' by simp
qed

definition calm :: "node \<Rightarrow> bool" where
  "calm n = no_cuts (map snd (nd_fork_candidates n))"

lemma reorg_holds:
  assumes H: "hooks_ok (su_hooks E)" and ad: "adopter_ok E adopt" and c: "calm n"
  shows "holds (su_extern E) n (try_reorg E adopt from_member n)"
proof (cases "gv_blocks (nd_gov n)")
  case Nil
  then show ?thesis by (simp add: try_reorg_def holds_same)
next
  case (Cons a rest)
  let ?X = "su_extern E" and ?s = "nd_gov n"
  have br: "holds ?X n (if same_decisions ?s suffix
        then relink_onto_variant E adopt from_member (filter (\<lambda>b. blk_height b < f) (gv_blocks ?s) @ suffix) n
        else (case walk_own ?X ?s (filter (\<lambda>b. blk_height b < f) (gv_blocks ?s) @ suffix) of
                Inl Panic \<Rightarrow> None
              | Inl (Refused _) \<Rightarrow> Some (n\<lparr>nd_fork_candidates := []\<rparr>)
              | Inr _ \<Rightarrow> take_branch E adopt f suffix (filter (\<lambda>b. blk_height b < f) (gv_blocks ?s) @ suffix) n))"
    if "f > blk_height a" "no_cuts suffix" for f suffix
  proof (cases "walk_own ?X ?s (filter (\<lambda>b. blk_height b < f) (gv_blocks ?s) @ suffix)")
    case (Inl e)
    then show ?thesis
      by (cases e) (simp_all add: relink_holds[OF H ad that(2) Cons that(1)] holds_same holds_None)
  next
    case (Inr w)
    then show ?thesis
      using relink_holds[OF H ad that(2) Cons that(1)] take_branch_holds[OF H ad that(2) Cons that(1) refl Inr] by simp
  qed
  have suf: "no_cuts suffix"
    if "linked_run ?X (gov_republic_id ?s) (nd_fork_candidates n) f None k = Some suffix" for suffix f k
    using linked_run_mem[OF that] c by (fastforce simp: calm_def no_cuts_def list_all_iff)
  have tail: "holds ?X n (case block_at ?s f of None \<Rightarrow> Some n | Some ours \<Rightarrow>
        Option.bind (block_hash ?X (gov_republic_id ?s) ours) (\<lambda>mine.
        Option.bind (block_hash ?X (gov_republic_id ?s) (hd suffix)) (\<lambda>theirs.
          if mine \<le> theirs then Some (n\<lparr>nd_fork_candidates := []\<rparr>) else r)))"
    if "holds ?X n r" for f suffix r
    using that by (cases "block_at ?s f") (simp_all add: holds_same, intro holds_bind holds_if, simp_all add: holds_same)
  show ?thesis
  proof (cases "find_fork ?X ?s (blk_height a) (nd_fork_candidates n)")
    case (Some fork)
    show ?thesis
    proof (cases fork)
      case None
      then show ?thesis using Some by (simp add: try_reorg_def Cons holds_ask_below)
    next
      case f: (Some f)
      from find_fork_above[OF Some[unfolded f]] have fa: "f > blk_height a" .
      show ?thesis
        unfolding try_reorg_def Let_def Cons list.case Some f bind.bind_lunit option.case
        by (rule holds_bind, rule tail[OF br[OF fa suf], unfolded Cons], assumption)
    qed
  qed (simp add: try_reorg_def Cons holds_None)
qed

section \<open>The contended tip\<close>

lemma own_hash:
  assumes "sound X s" "gv_head s = Some h"
  shows "block_hash X (gov_republic_id s) (last (gv_blocks s)) = Some (ch_hash h)" "blk_height (last (gv_blocks s)) = ch_height h"
proof -
  from assms obtain w where w: "own_walks X (gv_blob s) (gov_republic_id s) (gv_blocks s) w" "h = w_head w"
    "ch_republic_id (w_head w) = gov_republic_id s"
    by (metis soundE option.inject)
  then show "block_hash X (gov_republic_id s) (last (gv_blocks s)) = Some (ch_hash h)" "blk_height (last (gv_blocks s)) = ch_height h"
    using own_walks_stands[OF w(1)] by (simp_all add: stands_at_def)
qed

text \<open>A smaller block took the tip: the cached walk was left behind.\<close>

lemma swapped_chain_ok:
  assumes s: "sound X s" and h: "gv_head s = Some h"
    and v: "walk_own X (s\<lparr>gv_blocks := bs\<rparr>) bs = Inr w" and n: "names_republic s bs"
    and less: "ch_hash (w_head w) < ch_hash h"
  shows "chain_ok X (s\<lparr>gv_blocks := bs, gv_head := Some (w_head w), gv_head_moved_at := at\<rparr>)"
proof -
  from s h obtain w0 where w0: "own_walks X (gv_blob s) (gov_republic_id s) (gv_blocks s) w0" "h = w_head w0"
    "ch_republic_id (w_head w0) = gov_republic_id s" "gov_republic_id s \<noteq> []" "\<And>c. gv_walk s = Some c \<Longrightarrow> cache_ok w0 c"
    by (metis soundE option.inject)
  have w: "own_walks X (gv_blob s) (gov_republic_id s) bs w" using walk_own_walks[OF v] by simp
  note rid = own_walks_names[OF w n]
  have "cache_ok w c" if "gv_walk s = Some c" for c
    using w0(5)[OF that] rid w0(2,3) less by (auto simp: cache_ok_def)
  then show ?thesis using w rid w0(4) by (intro chain_okI[where w = w]) simp_all
qed

lemma settle_swap_holds:
  assumes H: "hooks_ok (su_hooks E)" and ad: "adopter_ok E adopt" and b: "cut_kind_of (blk_change b) = None"
    and ok: "chain_ok (su_extern E) (nd_gov n)" "seated (gv_blob (nd_gov n))" "gv_head (nd_gov n) \<noteq> None"
    and r: "settle_swap E adopt displaced b n = Some n'"
  shows "sound (su_extern E) (nd_gov n')"
    "same_history (su_extern E) (gov_republic_id (nd_gov n)) (gv_blocks (nd_gov n)) (gv_blocks (nd_gov n'))"
proof -
  let ?X = "su_extern E"
  obtain t where t: "apply_chain_to_state ?X (su_hooks E) (nd_block_ts n) (nd_gov n) = Some t"
    using r by (auto simp: settle_swap_def on_gov_opt_def bind_eq_Some_conv)
  let ?s2 = "case applied_change displaced of None \<Rightarrow> t | Some (i, _) \<Rightarrow> forget_wiki_stamps (reopen_card i t)"
  let ?kept = "case applied_change b of None \<Rightarrow> [] | Some (i, _) \<Rightarrow> [i]"
  let ?m = "n\<lparr>nd_gov := hk_vault_displaced (su_hooks E) [displaced] ?kept ?s2\<rparr>"
  have m: "after_block_applied E adopt b ?m = Some n'"
    using r unfolding settle_swap_def on_gov_opt_def t Let_def by simp (simp split: option.splits prod.splits)
  have p: "chain_part (nd_gov ?m) = chain_part t" using H by (simp split: option.split prod.split)
  have "sound ?X t"
    using apply_chain_chain_ok[OF H t] apply_chain_facts[OF H t] ok by (simp add: sound_def)
  then have sm: "sound ?X (nd_gov ?m)" using sound_part[OF p] by simp
  from keepsD[OF after_block_keeps[OF H ad b] m] sm
  show "sound ?X (nd_gov n')" "same_history ?X (gov_republic_id (nd_gov n)) (gv_blocks (nd_gov n)) (gv_blocks (nd_gov n'))"
    using chain_part_eqD(2)[OF p] chain_part_rid[OF p] apply_chain_facts[OF H t] by (simp_all add: advances_def)
qed

lemma swap_tip_sound:
  assumes H: "hooks_ok (su_hooks E)" and ad: "adopter_ok E adopt" and b: "cut_kind_of (blk_change b) = None"
    and s: "sound (su_extern E) (nd_gov n)" and h: "gv_head (nd_gov n) = Some h"
    and n: "names_republic (nd_gov n) (butlast (gv_blocks (nd_gov n)) @ [b])"
    and hash: "block_hash (su_extern E) (gov_republic_id (nd_gov n)) b = Some x" "x < ch_hash h"
    and r: "swap_tip E adopt b n = Some n'"
  shows "sound (su_extern E) (nd_gov n')"
    "verify_own (su_extern E) ((nd_gov n)\<lparr>gv_blocks := butlast (gv_blocks (nd_gov n)) @ [b]\<rparr>)
       (butlast (gv_blocks (nd_gov n)) @ [b]) = Inr h'
     \<Longrightarrow> same_history (su_extern E) (gov_republic_id (nd_gov n)) (butlast (gv_blocks (nd_gov n)) @ [b]) (gv_blocks (nd_gov n'))"
proof -
  let ?X = "su_extern E" and ?s = "nd_gov n" and ?bs = "butlast (gv_blocks (nd_gov n)) @ [b]"
  let ?v = "walk_own ?X (?s\<lparr>gv_blocks := ?bs\<rparr>) ?bs"
  have "sound ?X (nd_gov n') \<and> ((\<exists>w. ?v = Inr w) \<longrightarrow> same_history ?X (gov_republic_id ?s) ?bs (gv_blocks (nd_gov n')))"
  proof (cases ?v)
    case (Inl e)
    then show ?thesis using r s by (cases e) (simp_all add: swap_tip_def verify_own_def)
  next
    case (Inr w)
    let ?t = "?s\<lparr>gv_blocks := ?bs, gv_head := Some (w_head w), gv_head_moved_at := gv_now ?s\<rparr>"
    have w: "own_walks ?X (gv_blob ?s) (gov_republic_id ?s) ?bs w" using walk_own_walks[OF Inr] by simp
    have "ch_hash (w_head w) = x"
      using own_walks_stands[OF w] own_walks_names[OF w n] hash(1) by (simp add: stands_at_def)
    then have ok: "chain_ok ?X ?t" using swapped_chain_ok[OF s h Inr n] hash(2) by simp
    have st: "settle_swap E adopt (last (gv_blocks ?s)) b (n\<lparr>nd_gov := ?t\<rparr>) = Some n'"
      using r Inr by (simp add: swap_tip_def verify_own_def Let_def)
    show ?thesis
      using settle_swap_holds[OF H ad b _ _ _ st] ok s by (simp add: sound_def)
  qed
  then show "sound ?X (nd_gov n')" "verify_own ?X (?s\<lparr>gv_blocks := ?bs\<rparr>) ?bs = Inr h' \<Longrightarrow> same_history ?X (gov_republic_id ?s) ?bs (gv_blocks (nd_gov n'))"
    by (auto simp: verify_own_def rbind_eq_Inr)
qed

lemma calm_stash:
  assumes "calm n" "cut_kind_of (blk_change b) = None"
  shows "calm (stash_fork_candidate b n)"
proof -
  have "x \<in> set (bt_insert k v m) \<Longrightarrow> x = (k, v) \<or> x \<in> set m" for x k and v :: chain_block and m :: "(u64, chain_block) btree"
    by (induction k v m rule: bt_insert.induct) (auto split: if_splits)
  then show ?thesis
    using assms by (fastforce simp: calm_def stash_fork_candidate_def shed_highest_def no_cuts_def list_all_iff dest!: in_set_takeD)
qed

lemma block_at_last:
  assumes "sound X s"
  shows "block_at s (blk_height (last (gv_blocks s))) = Some (last (gv_blocks s))"
proof -
  from assms obtain w where w: "own_walks X (gv_blob s) (gov_republic_id s) (gv_blocks s) w" by (rule soundE)
  obtain pre b where p: "gv_blocks s = pre @ [b]" using own_walks_not_Nil[OF w] by (metis append_butlast_last_id)
  have "x \<notin> set pre" if "blk_height x = blk_height b" for x
    using stands_tail_above[OF own_walks_stands[OF w[unfolded p]], of x] that by auto
  then have "List.find (\<lambda>x. blk_height x = blk_height b) pre = None" by (auto simp: find_None_iff)
  then have "List.find (\<lambda>x. blk_height x = blk_height b) (pre @ [b]) = Some b" by (induction pre) (auto split: if_splits)
  then show ?thesis by (simp add: block_at_def p)
qed

lemma names_swapped:
  assumes "sound X s" "\<not> other_republic s b"
  shows "names_republic s (butlast (gv_blocks s) @ [b])"
proof (cases "butlast (gv_blocks s)")
  case Nil
  have "gov_republic_id s \<noteq> []" using assms(1) by (rule soundE)
  then show ?thesis using assms(2) Nil by (auto simp: names_republic_def other_republic_def split: chain_change.splits)
next
  case (Cons a rest)
  then have "gv_blocks s \<noteq> []" "hd (gv_blocks s) = a" by (cases "gv_blocks s"; auto split: if_splits)+
  then show ?thesis using names_same_first[OF sound_names[OF assms(1)], of "butlast (gv_blocks s) @ [b]"] Cons by simp
qed

lemma tie_break_holds:
  assumes H: "hooks_ok (su_hooks E)" and ad: "adopter_ok E adopt" and b: "cut_kind_of (blk_change b) = None"
    and c: "calm n" and o: "\<not> other_republic (nd_gov n) b"
  shows "holds (su_extern E) n (tie_break E adopt from_member b n)"
proof (cases "block_at (nd_gov n) (blk_height b)")
  case (Some existing)
  let ?X = "su_extern E" and ?s = "nd_gov n"
  have stash: "holds ?X n (try_reorg E adopt from_member (stash_fork_candidate b m))"
    if "nd_gov m = nd_gov n" "nd_fork_candidates m = nd_fork_candidates n" for m
    by (rule holds_touch[OF _ reorg_holds[OF H ad calm_stash]]) (use that b c in \<open>simp_all add: calm_def\<close>)
  have swap: "holds ?X n (swap_tip E adopt b n)"
    if "gv_blocks ?s \<noteq> []" "blk_height (last (gv_blocks ?s)) = blk_height b"
      "block_hash ?X (gov_republic_id ?s) b = Some incoming" "block_hash ?X (gov_republic_id ?s) existing = Some current"
      "incoming < current" for incoming current
    unfolding holds_def
  proof (intro allI impI)
    fix n' assume r: "swap_tip E adopt b n = Some n'" and s: "sound ?X ?s"
    obtain h where h: "gv_head ?s = Some h" using s by (auto simp: sound_def)
    have "existing = last (gv_blocks ?s)" using block_at_last[OF s] Some that(2) by simp
    then have cur: "current = ch_hash h" using own_hash(1)[OF s h] that(4) by simp
    show "sound ?X (nd_gov n')"
      by (rule swap_tip_sound(1)[OF H ad b s h names_swapped[OF s o] that(3) _ r]) (use that(5) cur in simp)
  qed
  show ?thesis
    unfolding tie_break_def Let_def Some option.case
    by (intro holds_if holds_bind stash swap; (elim conjE)?) (simp_all add: holds_same note_divergence_def Let_def)
qed (simp add: tie_break_def holds_same)

section \<open>Served summaries\<close>

lemma sound_held:
  assumes "gv_head t = gv_head s" "gv_blocks t = gv_blocks s" "gv_walk t = gv_walk s" "gv_blob t = gv_blob s"
    "gv_applied t = gv_applied s" "gv_applied_sigs t = gv_applied_sigs s" "gv_anchors t = gv_anchors s"
    "gv_member_relays t = gv_member_relays s" "gv_replica t = gv_replica s"
  shows "sound X t = sound X s"
proof -
  have "gov_republic_id t = gov_republic_id s" by (simp add: gov_republic_id_def assms)
  then show ?thesis by (simp add: sound_def chain_ok_def projected_def assms split: option.split)
qed

lemma set_bases_sound [simp]: "sound X (set_wiki_base w s) = sound X s" "sound X (set_vault_base v s) = sound X s"
  by (rule sound_held; simp add: set_wiki_base_def set_vault_base_def)+

lemma drop_bases_sound:
  "drop_a_stale_wiki_base X s = Some t \<Longrightarrow> sound X t = sound X s" "sound X (drop_a_stale_vault_base X s) = sound X s"
  by (auto simp: drop_a_stale_wiki_base_def drop_a_stale_vault_base_def split: option.splits if_splits)

lemma reanchor_sound:
  assumes H: "hooks_ok (su_hooks E)" and ad: "adopter_ok E adopt" and rid: "gov_republic_id (nd_gov n) \<noteq> []"
    and seat: "seated (Some blob)"
    and v: "walk_suffix_chain (su_extern E) blob candidate (gov_republic_id (nd_gov n)) hb = Inr w"
    and r: "reanchor E adopt blob candidate (w_head w) n = Some n'"
  shows "sound (su_extern E) (nd_gov n')"
proof -
  let ?X = "su_extern E" and ?s = "nd_gov n"
  let ?s1 = "(set_checkpoint_blob (Some blob) ?s)\<lparr>gv_blocks := candidate, gv_head := Some (w_head w)\<rparr>"
  let ?n1 = "n\<lparr>nd_served_blob := None, nd_pending_blocks := keep_above (ch_height (w_head w)) (nd_pending_blocks n)\<rparr>"
  have s1: "gv_blob ?s1 = Some blob" "gv_walk ?s1 = None" "gov_republic_id ?s1 = gov_republic_id ?s"
    by (simp_all add: set_checkpoint_blob_def bump_applied_epoch_def gov_republic_id_def)
  obtain s2 s3 n2 where s2: "apply_chain_to_state ?X (su_hooks E) (nd_block_ts n) (forget_wiki_stamps ?s1) = Some s2"
    and s3: "drop_a_stale_wiki_base ?X s2 = Some s3"
    and n2: "rebase_pending_approvals E adopt (?n1\<lparr>nd_gov := hk_wallet_commit (su_hooks E)
        (let s4 = fold (after_reanchor_block E) candidate (drop_a_stale_vault_base ?X s3) in
         if list_ex touches_org candidate then hk_org_applied (su_hooks E) s4 else s4)\<rparr>) = Some n2" "nd_gov n' = nd_gov n2"
    using r by (auto simp: reanchor_def Let_def bind_eq_Some_conv)
  obtain a rest w0 where a: "candidate = a # rest" "anchor_walk ?X blob a (gov_republic_id ?s) = Inr w0"
    "rfold (step ?X hb) w0 rest = Inr w"
    using v by (auto simp: walk_suffix_chain_def rbind_eq_Inr split: list.splits)
  have w: "own_walks ?X (Some blob) (gov_republic_id ?s) candidate w"
    using own_walks_rfold[OF own_anchor[OF refl a(2)] a(3)] by (simp add: a(1))
  have "chain_ok ?X ?s1"
    using w own_walks_rid[OF w] rid s1 by (intro chain_okI[where w = w]) simp_all
  then have ok: "chain_ok ?X (forget_wiki_stamps ?s1)" using chain_ok_part[OF forget_stamps_part] by simp
  have "sound ?X s2"
    using apply_chain_chain_ok[OF H s2] ok apply_chain_facts(1,4,8)[OF H s2]
      chain_part_eqD(1,4)[OF forget_stamps_part[of ?s1]] s1(1) seat by (simp add: sound_def)
  then have 3: "sound ?X (drop_a_stale_vault_base ?X s3)" using drop_bases_sound(1)[OF s3] by (simp add: drop_bases_sound)
  have hook: "chain_part (after_reanchor_block E b t) = chain_part t" for b t
    using H by (simp add: after_reanchor_block_def split: chain_change.split)
  let ?m = "?n1\<lparr>nd_gov := hk_wallet_commit (su_hooks E)
        (let s4 = fold (after_reanchor_block E) candidate (drop_a_stale_vault_base ?X s3) in
         if list_ex touches_org candidate then hk_org_applied (su_hooks E) s4 else s4)\<rparr>"
  have p: "chain_part (nd_gov ?m) = chain_part (drop_a_stale_vault_base ?X s3)"
    using H by (simp add: Let_def chain_part_fold[OF hook])
  from holdsD[OF holds_keeps[OF rebase_keeps[OF ad]] n2(1)] 3 sound_part[OF p, of ?X] show ?thesis using n2(2) by simp
qed

definition seated_offer :: "node \<Rightarrow> bool" where
  "seated_offer n = seated (nd_served_blob n)"

lemma blob_adopts:
  assumes H: "hooks_ok (su_hooks E)" and ad: "adopter_ok E adopt" and c: "seated_offer n"
    and ok: "holder_ok (su_extern E) (nd_gov n)" and r: "try_adopt_from_blob E adopt n = Some n'"
  shows "sound (su_extern E) (nd_gov n') \<or> nd_gov n' = nd_gov n"
proof -
  have rid: "gov_republic_id (nd_gov n) \<noteq> []" using ok by (auto simp: holder_ok_def sound_def headless_def chain_ok_def)
  have "sound (su_extern E) (nd_gov n')"
    if "walk_suffix_chain (su_extern E) blob candidate (gov_republic_id (nd_gov n)) hb = Inr w" "nd_served_blob n = Some blob"
      "reanchor E adopt blob candidate (w_head w) n = Some n'" for blob candidate hb w
    by (rule reanchor_sound[OF H ad rid _ that(1,3)]) (use c that(2) in \<open>simp add: seated_offer_def\<close>)
  then show ?thesis
    using r by (auto simp: try_adopt_from_blob_def Let_def split: option.splits if_splits sum.splits fault.splits)
qed

end
