(* ===== verification/Sync_Buffers.thy ===== *)
theory Sync_Buffers
  imports Sync_Laws
begin

text \<open>
  What a node keeps of other branches, of blocks ahead of it and of a served summary: one call adds at
  most the block that came in, and the shedding keeps every buffer within its bound.
\<close>

section \<open>Shrinking\<close>

text \<open>Within one call the buffers only shrink, but for the block that came in.\<close>

definition trims :: "node \<Rightarrow> node option \<Rightarrow> bool" where
  "trims n r \<longleftrightarrow> (\<forall>n'. r = Some n' \<longrightarrow>
     (nd_fork_candidates n' = nd_fork_candidates n \<or> nd_fork_candidates n' = []) \<and>
     (nd_served_blob n' = nd_served_blob n \<or> nd_served_blob n' = None) \<and>
     length (nd_pending_blocks n') \<le> length (nd_pending_blocks n))"

lemma trims_None [simp]: "trims n None"
  by (simp add: trims_def)

lemma trims_refl [simp]: "trims n (Some n)"
  by (simp add: trims_def)

lemma trims_keeps: "keeps X n r \<Longrightarrow> trims n r"
  by (auto simp: trims_def keeps_def advances_def sync_part_def)

lemma trims_then: "trims n r \<Longrightarrow> (\<And>m. r = Some m \<Longrightarrow> trims m (f m)) \<Longrightarrow> trims n (Option.bind r f)"
  by (cases r) (fastforce simp: trims_def)+

lemma trims_from: "trims n (Some m) \<Longrightarrow> trims m r \<Longrightarrow> trims n r"
  by (fastforce simp: trims_def)

lemma trims_after: "trims n r \<Longrightarrow> (\<And>m. trims m (Some (f m))) \<Longrightarrow> trims n (map_option f r)"
  using trims_then[of n r "Some \<circ> f"] by (simp add: map_conv_bind_option)

lemma trims_bind: "(\<And>x. m = Some x \<Longrightarrow> trims n (f x)) \<Longrightarrow> trims n (Option.bind m f)"
  by (cases m) simp_all

lemma trims_if: "(P \<Longrightarrow> trims n a) \<Longrightarrow> (\<not> P \<Longrightarrow> trims n b) \<Longrightarrow> trims n (if P then a else b)"
  by simp

lemma trims_touch:
  "nd_fork_candidates m = nd_fork_candidates n \<Longrightarrow> nd_served_blob m = nd_served_blob n \<Longrightarrow>
   nd_pending_blocks m = nd_pending_blocks n \<Longrightarrow> trims m r \<Longrightarrow> trims n r"
  by (simp add: trims_def)

lemma keep_above_length [simp]: "length (keep_above h m) \<le> length m"
  by (simp add: keep_above_def)

lemma bt_remove_length: "length (bt_remove k m) \<le> length m"
  by (simp add: bt_remove_def)

lemma trims_request: "trims n (request_catchup E f n)"
  by (auto simp: request_catchup_def trims_def record_event_def split: if_splits)

lemma trims_after_block:
  assumes "hooks_ok (su_hooks E)" "adopter_ok E adopt"
  shows "trims n (after_block_applied E adopt b n)"
proof -
  have "trims n (Option.bind (Some (n\<lparr>nd_gov := s\<rparr>)) (rebase_pending_approvals E adopt))" for s
    by (rule trims_then[OF _ trims_keeps[OF rebase_keeps[OF assms(2)]]]) (simp add: trims_def)
  then show ?thesis by (auto simp: after_block_applied_def on_gov_opt_def intro!: trims_bind)
qed

lemma trims_after_blocks:
  assumes "hooks_ok (su_hooks E)" "adopter_ok E adopt"
  shows "trims n (ofold (after_block_applied E adopt) bs n)"
  by (induction bs arbitrary: n) (simp_all add: trims_then[OF trims_after_block[OF assms]])

lemma trims_apply_next:
  assumes "hooks_ok (su_hooks E)" "adopter_ok E adopt" "apply_next_block E adopt b n = Some (n', r)"
  shows "trims n (Some n')"
proof -
  obtain t taken where t: "append_committed_block (su_extern E) (nd_gov n) b = Some (t, taken)"
    using assms(3) by (auto simp: apply_next_block_def bind_eq_Some_conv)
  show ?thesis
  proof (cases taken)
    case True
    then obtain n1 where n1: "after_block_applied E adopt b (n\<lparr>nd_gov := t\<rparr>) = Some n1"
      and n': "n' = (if (case nd_catchup_from n1 of None \<Rightarrow> False | Some f \<Rightarrow> f \<le> blk_height b) then n1\<lparr>nd_catchup_from := None\<rparr> else n1)"
      using assms(3) t by (auto simp: apply_next_block_def)
    have "trims n (Some n1)"
      using trims_after_block[OF assms(1,2), of "n\<lparr>nd_gov := t\<rparr>" b] n1 by (simp add: trims_def)
    then show ?thesis by (rule trims_from) (simp add: n' trims_def)
  qed (use assms(3) t in \<open>auto simp: apply_next_block_def trims_def\<close>)
qed

lemma trims_drain:
  assumes "hooks_ok (su_hooks E)" "adopter_ok E adopt"
  shows "trims n (drain_buffered_blocks E adopt n)"
proof -
  have "trims n (drain_loop E adopt k n)" for k
  proof (induction k arbitrary: n)
    case (Suc k)
    have "trims n (Option.bind (apply_next_block E adopt b (n\<lparr>nd_pending_blocks := bt_remove nxt (nd_pending_blocks n)\<rparr>))
            (\<lambda>(n1, taken). if taken then drain_loop E adopt k n1 else Some n1))" for b nxt
    proof (rule trims_bind, clarify)
      fix n1 taken
      assume a: "apply_next_block E adopt b (n\<lparr>nd_pending_blocks := bt_remove nxt (nd_pending_blocks n)\<rparr>) = Some (n1, taken)"
      have "trims n (Some (n\<lparr>nd_pending_blocks := bt_remove nxt (nd_pending_blocks n)\<rparr>))"
        by (simp add: trims_def bt_remove_length)
      from trims_from[OF this trims_apply_next[OF assms a]]
      show "trims n (if taken then drain_loop E adopt k n1 else Some n1)" using Suc trims_from by auto
    qed
    then show ?case by (auto intro!: trims_bind split: option.split)
  qed simp
  then show ?thesis unfolding drain_buffered_blocks_def by (rule trims_after) (simp add: trims_def)
qed

lemma trims_signs:
  assumes "adopter_ok E adopt"
  shows "trims n (ofold (chain_sign_and_gossip_approval E adopt) is n)"
  by (rule trims_keeps[OF keeps_ofold[OF sign_keeps[OF assms]]])

lemma trims_clear: "trims n (Some (n\<lparr>nd_fork_candidates := []\<rparr>))"
  by (simp add: trims_def)

lemma trims_relink:
  assumes "hooks_ok (su_hooks E)" "adopter_ok E adopt"
  shows "trims n (relink_onto_variant E adopt from_member c0 n)"
proof -
  have go: "trims n (Option.bind (on_gov_opt f (n\<lparr>nd_fork_candidates := []\<rparr>)) (\<lambda>n2.
      map_option (clear_divergence from_member) (ofold (after_block_applied E adopt) fresh n2)))" for f fresh
  proof (rule trims_then)
    show "trims n (on_gov_opt f (n\<lparr>nd_fork_candidates := []\<rparr>))" by (auto simp: on_gov_opt_def trims_def)
    show "trims m (map_option (clear_divergence from_member) (ofold (after_block_applied E adopt) fresh m))" for m
      by (rule trims_after[OF trims_after_blocks[OF assms]]) (simp add: clear_divergence_def trims_def)
  qed
  show ?thesis
    unfolding relink_onto_variant_def Let_def
    by (rule trims_bind) (auto intro!: go trims_clear split: sum.split fault.split)
qed

lemma trims_branch:
  assumes "hooks_ok (su_hooks E)" "adopter_ok E adopt"
  shows "trims n (take_branch E adopt f suffix c n)"
  unfolding take_branch_def Let_def
proof (rule trims_bind, rule trims_then)
  show "trims n (ofold (after_block_applied E adopt) suffix (n\<lparr>nd_gov := g\<rparr>))" for g
    using trims_after_blocks[OF assms, of "n\<lparr>nd_gov := g\<rparr>" suffix] by (simp add: trims_def)
next
  fix m :: node
  let ?c = "\<lambda>n2. case gv_head (nd_gov (n2\<lparr>nd_fork_candidates := [], nd_diverged := []\<rparr>)) of
      None \<Rightarrow> Some (n2\<lparr>nd_fork_candidates := [], nd_diverged := []\<rparr>)
    | Some h \<Rightarrow> request_catchup E (u64_sat_add (ch_height h) 1)
        (n2\<lparr>nd_fork_candidates := [], nd_diverged := [], nd_catchup_from := None\<rparr>)"
  have c: "trims k (?c k)" for k
  proof (cases "gv_head (nd_gov k)")
    case (Some h)
    have "trims k (Some (k\<lparr>nd_fork_candidates := [], nd_diverged := [], nd_catchup_from := None\<rparr>))" by (simp add: trims_def)
    from trims_from[OF this trims_request] show ?thesis using Some by simp
  qed (simp add: trims_def)
  have s: "trims m (ofold (chain_sign_and_gossip_approval E adopt) is (on_gov (\<lambda>t. t\<lparr>gv_pending_sigs := []\<rparr>) m))" for "is"
    using trims_signs[OF assms(2), of "on_gov (\<lambda>t. t\<lparr>gv_pending_sigs := []\<rparr>) m" "is"] by (simp add: trims_def on_gov_def)
  show "trims m (Option.bind (ofold (chain_sign_and_gossip_approval E adopt)
      (filter (open_card (nd_gov m)) (gv_own_approvals (nd_gov m))) (on_gov (\<lambda>t. t\<lparr>gv_pending_sigs := []\<rparr>) m)) ?c)"
    by (rule trims_then[OF s c])
qed

lemma trims_reorg:
  assumes "hooks_ok (su_hooks E)" "adopter_ok E adopt"
  shows "trims n (try_reorg E adopt from_member n)"
proof -
  have w: "trims n (case r of Inl Panic \<Rightarrow> None | Inl (Refused x) \<Rightarrow> Some (n\<lparr>nd_fork_candidates := []\<rparr>)
      | Inr y \<Rightarrow> take_branch E adopt f suffix c n)" for r :: "string fault + chain_walk" and f suffix c
    using trims_branch[OF assms] by (auto simp: trims_def split: sum.split fault.split)
  have a: "trims n (ask_below E h n)" for h
    using trims_request by (auto simp: ask_below_def split: list.split)
  show ?thesis
    unfolding try_reorg_def Let_def
    by (auto intro!: trims_bind trims_if w a trims_clear trims_relink[OF assms] split: list.split option.split)
qed

lemma trims_swap:
  assumes "hooks_ok (su_hooks E)" "adopter_ok E adopt"
  shows "trims n (swap_tip E adopt b n)"
proof -
  have st: "trims n (settle_swap E adopt d b (n\<lparr>nd_gov := g\<rparr>))" for d g
    unfolding settle_swap_def Let_def
  proof (rule trims_then)
    show "trims n (on_gov_opt f (n\<lparr>nd_gov := g\<rparr>))" for f by (auto simp: on_gov_opt_def trims_def)
    show "trims m (after_block_applied E adopt b (m\<lparr>nd_gov := g'\<rparr>))" for m g'
      using trims_after_block[OF assms, of "m\<lparr>nd_gov := g'\<rparr>" b] by (simp add: trims_def)
  qed
  show ?thesis unfolding swap_tip_def Let_def by (auto intro!: st split: sum.split fault.split)
qed

lemma trims_blob:
  assumes "adopter_ok E adopt"
  shows "trims n (try_adopt_from_blob E adopt n)"
proof -
  have re: "trims n (reanchor E adopt blob c h n)" for blob c h
  proof -
    have "trims n (map_option (\<lambda>n2. if (case nd_catchup_from n2 of None \<Rightarrow> False | Some f \<Rightarrow> f \<le> ch_height h)
          then n2\<lparr>nd_catchup_from := None\<rparr> else n2) (rebase_pending_approvals E adopt
          (n\<lparr>nd_served_blob := None, nd_pending_blocks := keep_above (ch_height h) (nd_pending_blocks n), nd_gov := g\<rparr>)))" for g
    proof (rule trims_after)
      let ?m = "n\<lparr>nd_served_blob := None, nd_pending_blocks := keep_above (ch_height h) (nd_pending_blocks n), nd_gov := g\<rparr>"
      have "trims n (Some ?m)" by (simp add: trims_def)
      then show "trims n (rebase_pending_approvals E adopt ?m)" by (rule trims_from[OF _ trims_keeps[OF rebase_keeps[OF assms]]])
    qed (simp add: trims_def)
    then show ?thesis unfolding reanchor_def Let_def by (intro trims_bind) simp
  qed
  have g: "trims n (Some (n\<lparr>nd_served_blob := None\<rparr>))" by (simp add: trims_def)
  show ?thesis
    unfolding try_adopt_from_blob_def Let_def
    by (auto intro!: re g split: option.split sum.split fault.split)
qed

section \<open>Properties of the buffers\<close>

text \<open>\<open>yields P r\<close>: what \<open>r\<close> returns satisfies \<open>P\<close>; \<open>shrinkable P\<close>: shrinking keeps \<open>P\<close>.\<close>

definition yields :: "('a \<Rightarrow> bool) \<Rightarrow> 'a option \<Rightarrow> bool" where
  "yields P r \<longleftrightarrow> (\<forall>x. r = Some x \<longrightarrow> P x)"

definition shrinkable :: "(node \<Rightarrow> bool) \<Rightarrow> bool" where
  "shrinkable P \<longleftrightarrow> (\<forall>n n'. trims n (Some n') \<longrightarrow> P n \<longrightarrow> P n')"

lemma yieldsD: "yields P r \<Longrightarrow> r = Some x \<Longrightarrow> P x"
  by (simp add: yields_def)

lemma yields_Some: "P x \<Longrightarrow> yields P (Some x)"
  by (simp add: yields_def)

lemma yields_None [simp]: "yields P None"
  by (simp add: yields_def)

lemma yields_if: "(Q \<Longrightarrow> yields P a) \<Longrightarrow> (\<not> Q \<Longrightarrow> yields P b) \<Longrightarrow> yields P (if Q then a else b)"
  by simp

lemma yields_bind: "(\<And>x. m = Some x \<Longrightarrow> yields P (f x)) \<Longrightarrow> yields P (Option.bind m f)"
  by (cases m) simp_all

lemma yields_then: "yields P r \<Longrightarrow> (\<And>x. P x \<Longrightarrow> yields Q (f x)) \<Longrightarrow> yields Q (Option.bind r f)"
  by (cases r) (simp_all add: yields_def)

lemma yields_trims: "shrinkable P \<Longrightarrow> trims n r \<Longrightarrow> P n \<Longrightarrow> yields P r"
  by (cases r) (auto simp: yields_def shrinkable_def)

lemma shrink_touch:
  assumes "shrinkable P" "P n" "nd_fork_candidates m = nd_fork_candidates n" "nd_served_blob m = nd_served_blob n"
    "nd_pending_blocks m = nd_pending_blocks n"
  shows "P m"
proof -
  have "trims n (Some m)" by (simp add: trims_def assms(3-))
  then show ?thesis using assms(1,2) by (auto simp: shrinkable_def)
qed

lemma note_fields [simp]:
  "nd_fork_candidates (note_divergence m h n) = nd_fork_candidates n" "nd_served_blob (note_divergence m h n) = nd_served_blob n"
  "nd_fork_candidates (note_peer_height m h n) = nd_fork_candidates n" "nd_served_blob (note_peer_height m h n) = nd_served_blob n"
  "nd_fork_candidates (clear_divergence m n) = nd_fork_candidates n" "nd_served_blob (clear_divergence m n) = nd_served_blob n"
  "nd_pending_blocks (note_divergence m h n) = nd_pending_blocks n" "nd_pending_blocks (note_peer_height m h n) = nd_pending_blocks n"
  "nd_pending_blocks (clear_divergence m n) = nd_pending_blocks n"
  by (simp_all add: note_divergence_def note_peer_height_def clear_divergence_def Let_def)

lemma stash_ends:
  assumes "hooks_ok (su_hooks E)" "adopter_ok E adopt" "shrinkable P" "P (stash_fork_candidate b n)"
  shows "yields P (try_reorg E adopt m (stash_fork_candidate b n))"
    "yields P (try_reorg E adopt m (stash_fork_candidate b (note_divergence from_member h n)))"
proof -
  have "P (stash_fork_candidate b (note_divergence from_member h n))"
    by (rule shrink_touch[OF assms(3,4)]) (simp_all add: stash_fork_candidate_def)
  then show "yields P (try_reorg E adopt m (stash_fork_candidate b n))"
    "yields P (try_reorg E adopt m (stash_fork_candidate b (note_divergence from_member h n)))"
    using yields_trims[OF assms(3) trims_reorg[OF assms(1,2)]] assms(4) by simp_all
qed

lemma tie_break_ends:
  assumes "hooks_ok (su_hooks E)" "adopter_ok E adopt" "shrinkable P" "P n" "P (stash_fork_candidate b n)"
  shows "yields P (tie_break E adopt m b n)"
proof (cases "block_at (nd_gov n) (blk_height b)")
  case (Some existing)
  have "P (clear_divergence m n)" by (rule shrink_touch[OF assms(3,4)]) simp_all
  then show ?thesis
    unfolding tie_break_def Let_def Some option.case
    by (intro yields_if yields_bind stash_ends[OF assms(1-3,5)] yields_Some yields_trims[OF assms(3) trims_swap[OF assms(1,2)] assms(4)])
      (use assms(4) in simp_all)
qed (simp add: tie_break_def yields_Some[of P, OF assms(4)])

lemma apply_drain_ends:
  assumes H: "hooks_ok (su_hooks E)" and ad: "adopter_ok E adopt" and P: "shrinkable P" "P n"
  shows "yields P (Option.bind (apply_next_block E adopt b n) (\<lambda>(n1, taken).
           if taken then drain_buffered_blocks E adopt (clear_divergence m n1) else Some n1))"
proof (rule yields_bind, clarify)
  fix n1 taken assume "apply_next_block E adopt b n = Some (n1, taken)"
  from trims_apply_next[OF H ad this] have 1: "P n1" using P by (auto simp: shrinkable_def)
  have "P (clear_divergence m n1)" by (rule shrink_touch[OF P(1) 1]) simp_all
  from yields_trims[OF P(1) trims_drain[OF H ad] this] 1
  show "yields P (if taken then drain_buffered_blocks E adopt (clear_divergence m n1) else Some n1)"
    by (simp add: yields_Some)
qed

definition buffered :: "chain_block \<Rightarrow> (u64, chain_block) btree \<Rightarrow> (u64, chain_block) btree" where
  "buffered b m = shed_highest (bt_insert (blk_height b) b m)"

lemma buffer_gap_ends:
  assumes ad: "adopter_ok E adopt" and P: "shrinkable P" "P n"
    "P (n\<lparr>nd_pending_blocks := buffered b (keep_above h (nd_pending_blocks n))\<rparr>)"
  shows "yields P (buffer_gap E adopt h b n)"
proof -
  have "yields P (Option.bind (try_adopt_from_blob E adopt (n\<lparr>nd_pending_blocks := buffered b (keep_above h (nd_pending_blocks n))\<rparr>))
      (request_catchup E (h + 1)))"
    by (rule yields_then[OF yields_trims[OF P(1) trims_blob[OF ad] P(3)] yields_trims[OF P(1) trims_request]])
  then show ?thesis using P(2) by (simp add: buffer_gap_def Let_def buffered_def yields_Some)
qed

text \<open>A block above the head that does not contradict it.\<close>

definition extends_head :: "gov_state \<Rightarrow> chain_block \<Rightarrow> bool" where
  "extends_head s b =
     (case gv_head s of
        None \<Rightarrow> True
      | Some h \<Rightarrow> blk_height b > ch_height h \<and> (Some (blk_height b) = target_of h \<longrightarrow> blk_prev b = ch_hash h))"

lemma receive_block_ends:
  assumes H: "hooks_ok (su_hooks E)" and ad: "adopter_ok E adopt" and P: "shrinkable P" "P n"
    and st: "\<not> extends_head (nd_gov n) b \<Longrightarrow> P (stash_fork_candidate b n)"
    and bu: "\<And>m. length m \<le> length (nd_pending_blocks n) \<Longrightarrow> P (n\<lparr>nd_pending_blocks := buffered b m\<rparr>)"
    and head: "gv_head (nd_gov n) = Some h"
  shows "yields P (receive_block_from E adopt from_member b n)"
proof -
  let ?n = "note_peer_height from_member (blk_height b) n"
  have n: "P ?n" by (rule shrink_touch[OF P]) simp_all
  have s: "P (stash_fork_candidate b ?n)" if "\<not> extends_head (nd_gov n) b"
    by (rule shrink_touch[OF P(1) st[OF that]]) (simp_all add: stash_fork_candidate_def)
  have g: "P (?n\<lparr>nd_pending_blocks := buffered b (keep_above (ch_height h) (nd_pending_blocks ?n))\<rparr>)"
    by (rule shrink_touch[OF P(1) bu[of "keep_above (ch_height h) (nd_pending_blocks n)"]]) simp_all
  show ?thesis
    unfolding receive_block_from_def Let_def sync_gov head option.case
    by (intro yields_bind yields_if stash_ends[OF H ad P(1) s] apply_drain_ends[OF H ad P(1) n]
        tie_break_ends[OF H ad P(1) n s] buffer_gap_ends[OF ad P(1) n g])
      (use head in \<open>auto simp: extends_head_def\<close>)
qed

end
