(* ===== verification/Chain_Node.thy ===== *)
theory Chain_Node
  imports Sync_Buffers
begin

text \<open>
  A node as a machine: what it does on every event that reaches its chain, from the wire
  (\<open>molt-engine/src/net/ingest.rs\<close>), from the ticker and from its own seat. Every state it reaches from
  a sound one is sound again.
\<close>

section \<open>Events\<close>

datatype node_event =
    NVote gov_event
  | NBlock string u64 chain_block
  | NBlob checkpoint_state
  | NCheckpoint string u64 u64 string bool
  | NMembership u64 chain_change
  | NTick
  | NProposeCheckpoint
  | NProposeMembership chain_change bool

fun event_card :: "gov_event \<Rightarrow> u64" where
  "event_card (Gov_Wire.EvApproved i m height g) = i"
| "event_card (EvProposed i sf payload m) = i"
| "event_card (EvDeclined i m ts hash) = i"
| "event_card (EvWithdrawn i m ts) = i"
| "event_card (EvSign i) = i"

text \<open>A vote; the block it may seal is adopted.\<close>

definition take_vote :: "surround \<Rightarrow> adopter \<Rightarrow> gov_event \<Rightarrow> node \<Rightarrow> node option" where
  "take_vote E adopt e n =
     (case e of
        EvSign i \<Rightarrow> chain_sign_and_gossip_approval E adopt i n
      | _ \<Rightarrow>
          (case gov_step (su_extern E) (gates_at E (nd_gov n)) (nd_gov n) e of
             None \<Rightarrow> None
           | Some (s, None) \<Rightarrow> Some (n\<lparr>nd_gov := s\<rparr>)
           | Some (s, Some b) \<Rightarrow> adopt (n\<lparr>nd_gov := s\<rparr>) b (event_card e)))"

text \<open>The display stamp of a height is the earliest one a sender gave.\<close>

definition ingest_committed :: "surround \<Rightarrow> adopter \<Rightarrow> string \<Rightarrow> u64 \<Rightarrow> chain_block \<Rightarrow> node \<Rightarrow> node option" where
  "ingest_committed E adopt from_member ts block n =
     (let at = (case nd_block_ts n (blk_height block) of None \<Rightarrow> ts | Some t \<Rightarrow> min t ts) in
      receive_block_from E adopt from_member block (n\<lparr>nd_block_ts := (nd_block_ts n)(blk_height block \<mapsto> at)\<rparr>))"

definition ingest_checkpoint ::
  "surround \<Rightarrow> adopter \<Rightarrow> string \<Rightarrow> u64 \<Rightarrow> u64 \<Rightarrow> string \<Rightarrow> bool \<Rightarrow> node \<Rightarrow> node option" where
  "ingest_checkpoint E adopt from_member i up state_hash folded n =
     receive_checkpoint_proposal E adopt i up state_hash folded (note_peer_height from_member up n)"

text \<open>What comes from the wire reaches a node only while it has a chain.\<close>

definition at_door :: "(node \<Rightarrow> node option) \<Rightarrow> node \<Rightarrow> node option" where
  "at_door f n = (if is_chain_governed (nd_gov n) then f n else Some n)"

fun node_step :: "surround \<Rightarrow> adopter \<Rightarrow> node_event \<Rightarrow> node \<Rightarrow> node option" where
  "node_step E adopt (NVote e) n = at_door (take_vote E adopt e) n"
| "node_step E adopt (NBlock m ts b) n = at_door (ingest_committed E adopt m ts b) n"
| "node_step E adopt (NBlob blob) n = at_door (receive_checkpoint_blob E adopt blob) n"
| "node_step E adopt (NCheckpoint m i up h folded) n = at_door (ingest_checkpoint E adopt m i up h folded) n"
| "node_step E adopt (NMembership i c) n = at_door (receive_membership_proposal E adopt i c) n"
| "node_step E adopt NTick n = drain_held_seals E adopt n"
| "node_step E adopt NProposeCheckpoint n = map_option fst (cmd_propose_checkpoint E adopt n)"
| "node_step E adopt (NProposeMembership c cosign) n = map_option fst (propose_membership_with E adopt c cosign n)"

fun node_run :: "surround \<Rightarrow> adopter \<Rightarrow> node_event list \<Rightarrow> node \<Rightarrow> node option" where
  "node_run E adopt [] n = Some n"
| "node_run E adopt (e # es) n = Option.bind (node_step E adopt e n) (node_run E adopt es)"

text \<open>
  What the laws ask of an event. A cut may arrive as the next block of the chain, or above it,
  but not as a contender; a genesis names this republic; a served summary seats its
  founders; the vault's own hook is left out.
\<close>

fun admissible :: "node_event \<Rightarrow> node \<Rightarrow> bool" where
  "admissible (NVote e) n \<longleftrightarrow> quiet e"
| "admissible (NBlock m ts b) n \<longleftrightarrow>
     (extends_head (nd_gov n) b \<or> cut_kind_of (blk_change b) = None) \<and> \<not> other_republic (nd_gov n) b"
| "admissible (NBlob blob) n \<longleftrightarrow> cs_roster blob = cs_founding_identities blob"
| "admissible _ n \<longleftrightarrow> True"

fun admissible_run :: "surround \<Rightarrow> adopter \<Rightarrow> node_event list \<Rightarrow> node \<Rightarrow> bool" where
  "admissible_run E adopt [] n \<longleftrightarrow> True"
| "admissible_run E adopt (e # es) n \<longleftrightarrow>
     admissible e n \<and> (case node_step E adopt e n of None \<Rightarrow> True | Some m \<Rightarrow> admissible_run E adopt es m)"

section \<open>Votes\<close>

lemma park_updates_part [simp]:
  "chain_part (s\<lparr>gv_pending_declines := d\<rparr>) = chain_part s" "chain_part (s\<lparr>gv_pending_withdrawals := w\<rparr>) = chain_part s"
  by (simp_all add: chain_part_def)

lemma decline_part: "chain_part (fst (register_decline X s i m ts hash)) = chain_part s"
  by (auto simp: register_decline_def park_decline_def retract_vote_def Let_def split: option.split)

lemma withdraw_part: "chain_part (fst (register_withdraw s i m ts)) = chain_part s"
  by (auto simp: register_withdraw_def Let_def split: option.split)

lemma approval_part: "receive_approval X s i m height g = Some (t, d, b) \<Longrightarrow> chain_part t = chain_part s"
  by (auto simp: receive_approval_def bind_eq_Some_conv Let_def dest!: chain_part_try_commit split: option.splits if_splits)

lemma collision_part [simp]: "chain_part (note_collision i m s) = chain_part s"
  by (simp add: note_collision_def)

lemma proposed_part:
  assumes "receive_proposed X ga s i sf payload m = Some (t, f)" "sf \<noteq> Vault"
  shows "chain_part t = chain_part s"
  using assms
  by (auto simp: receive_proposed_def bind_eq_Some_conv Let_def dest!: chain_part_supersede reverify_part
      split: option.splits if_splits)

lemma vote_part:
  assumes "gov_step X ga s e = Some (t, b)" "quiet e"
  shows "chain_part t = chain_part s"
proof (cases e)
  case (EvDeclined i m ts hash)
  then show ?thesis using assms decline_part by auto
next
  case (EvWithdrawn i m ts)
  then show ?thesis using assms withdraw_part by auto
qed (use assms in \<open>auto dest: approval_part proposed_part chain_part_sign\<close>)

lemma vote_keeps:
  assumes "adopter_ok E adopt" "quiet e"
  shows "keeps (su_extern E) n (take_vote E adopt e n)"
proof (cases "\<exists>i. e = EvSign i")
  case True
  then show ?thesis using sign_keeps[OF assms(1)] by (auto simp: take_vote_def)
next
  case False
  then have tv: "take_vote E adopt e n = (case gov_step (su_extern E) (gates_at E (nd_gov n)) (nd_gov n) e of
      None \<Rightarrow> None | Some (s, None) \<Rightarrow> Some (n\<lparr>nd_gov := s\<rparr>) | Some (s, Some b) \<Rightarrow> adopt (n\<lparr>nd_gov := s\<rparr>) b (event_card e))"
    by (cases e; hypsubst; simp only: take_vote_def gov_event.case) blast
  show ?thesis
  proof (cases "gov_step (su_extern E) (gates_at E (nd_gov n)) (nd_gov n) e")
    case (Some r)
    obtain s b where r: "r = (s, b)" by fastforce
    have "keeps (su_extern E) n (case b of None \<Rightarrow> Some (n\<lparr>nd_gov := s\<rparr>) | Some b' \<Rightarrow> adopt (n\<lparr>nd_gov := s\<rparr>) b' (event_card e))"
      by (rule keeps_touch[of "n\<lparr>nd_gov := s\<rparr>"])
        (use vote_part[OF Some[unfolded r] assms(2)] assms(1) in \<open>simp_all add: keeps_refl adopter_ok_def split: option.split\<close>)
    then show ?thesis by (simp add: tv Some r)
  qed (simp add: tv keeps_None)
qed

section \<open>The invariant of a node\<close>

definition node_inv :: "extern \<Rightarrow> node \<Rightarrow> bool" where
  "node_inv X n \<longleftrightarrow> sound X (nd_gov n) \<and> calm n \<and> seated_offer n"

lemma trims_side:
  assumes "trims n (Some n')" "calm n" "seated_offer n"
  shows "calm n'" "seated_offer n'"
  using assms by (auto simp: trims_def calm_def seated_offer_def seated_def no_cuts_def)

lemma inv_step:
  assumes "holds X n r" "trims n r" "r = Some n'" "node_inv X n"
  shows "node_inv X n'"
  using assms trims_side[of n n'] holdsD[OF assms(1,3)] by (simp add: node_inv_def)

lemma keeps_inv: "keeps X n r \<Longrightarrow> r = Some n' \<Longrightarrow> node_inv X n \<Longrightarrow> node_inv X n'"
  using inv_step[OF holds_keeps trims_keeps] by blast

lemma side_shrinkable: "shrinkable (\<lambda>n. calm n \<and> seated_offer n)"
  using trims_side by (auto simp: shrinkable_def)

lemma receive_block_holds:
  assumes H: "hooks_ok (su_hooks E)" and ad: "adopter_ok E adopt" and inv: "node_inv (su_extern E) n"
    and adm: "extends_head (nd_gov n) b \<or> cut_kind_of (blk_change b) = None" "\<not> other_republic (nd_gov n) b"
  shows "holds (su_extern E) n (receive_block_from E adopt m b n)"
proof -
  let ?X = "su_extern E" and ?n = "note_peer_height m (blk_height b) n"
  obtain h where h: "gv_head (nd_gov n) = Some h" using inv by (auto simp: node_inv_def sound_def)
  have sound: "sound ?X (nd_gov n)" "calm ?n" "seated_offer ?n"
    using inv by (simp_all add: node_inv_def calm_def seated_offer_def)
  have fork: "holds ?X n (try_reorg E adopt m (stash_fork_candidate b (note_divergence m k ?n)))"
    if "\<not> extends_head (nd_gov n) b" for k
    by (rule holds_touch[OF _ reorg_holds[OF H ad calm_stash]]) (use that adm sound(2) in \<open>simp_all add: calm_def\<close>)
  have drain: "holds ?X n (Option.bind (apply_next_block E adopt b ?n) (\<lambda>(n1, taken).
                     if taken then drain_buffered_blocks E adopt (clear_divergence m n1) else Some n1))"
    unfolding holds_def
  proof (intro allI impI)
    fix n' assume "Option.bind (apply_next_block E adopt b ?n) (\<lambda>(n1, taken).
                     if taken then drain_buffered_blocks E adopt (clear_divergence m n1) else Some n1) = Some n'"
    then obtain n1 taken where n1: "apply_next_block E adopt b ?n = Some (n1, taken)"
      "(if taken then drain_buffered_blocks E adopt (clear_divergence m n1) else Some n1) = Some n'"
      by (auto simp: bind_eq_Some_conv)
    have "sound ?X (nd_gov n1)" by (rule apply_next_sound[OF H ad n1(1)]) (simp add: sound)
    then show "sound ?X (nd_gov n')"
      using n1(2) holdsD[OF drain_holds[OF H ad], of "clear_divergence m n1" n'] by (cases taken) simp_all
  qed
  have gap: "holds ?X n (buffer_gap E adopt (ch_height h) b ?n)"
    unfolding holds_def
  proof (intro allI impI)
    fix n' assume r: "buffer_gap E adopt (ch_height h) b ?n = Some n'"
    let ?m = "?n\<lparr>nd_pending_blocks := shed_highest (bt_insert (blk_height b) b (keep_above (ch_height h) (nd_pending_blocks ?n)))\<rparr>"
    have "n' = ?n \<or> (\<exists>k. try_adopt_from_blob E adopt ?m = Some k \<and> nd_gov n' = nd_gov k)"
      using r request_gov by (fastforce simp: buffer_gap_def Let_def bind_eq_Some_conv split: if_splits)
    moreover have "sound ?X (nd_gov k)" if "try_adopt_from_blob E adopt ?m = Some k" for k
      using blob_adopts[OF H ad _ _ that] sound by (auto simp: holder_ok_def seated_offer_def)
    ultimately show "sound ?X (nd_gov n')" using sound by auto
  qed
  have tie: "holds ?X n (tie_break E adopt m b ?n)" if "\<not> extends_head (nd_gov n) b"
    by (rule holds_touch[OF _ tie_break_holds[OF H ad _ sound(2)]]) (use that adm in simp_all)
  show ?thesis
    unfolding receive_block_from_def Let_def sync_gov h option.case
    by (intro holds_bind holds_if fork drain tie gap)
      (use h in \<open>auto simp: extends_head_def\<close>)
qed

lemma block_inv:
  assumes H: "hooks_ok (su_hooks E)" and ad: "adopter_ok E adopt" and inv: "node_inv (su_extern E) n"
    and adm: "extends_head (nd_gov n) b \<or> cut_kind_of (blk_change b) = None" "\<not> other_republic (nd_gov n) b"
    and r: "receive_block_from E adopt m b n = Some n'"
  shows "node_inv (su_extern E) n'"
proof -
  obtain h where h: "gv_head (nd_gov n) = Some h" using inv by (auto simp: node_inv_def sound_def)
  have s: "sound (su_extern E) (nd_gov n')"
    using holdsD[OF receive_block_holds[OF H ad inv adm] r] inv by (simp add: node_inv_def)
  have "yields (\<lambda>n. calm n \<and> seated_offer n) (receive_block_from E adopt m b n)"
    by (rule receive_block_ends[OF H ad side_shrinkable _ _ _ h])
      (use inv calm_stash[of n b] adm in \<open>auto simp: node_inv_def calm_def seated_offer_def stash_fork_candidate_def\<close>)
  from yieldsD[OF this r] s show ?thesis by (simp add: node_inv_def)
qed

section \<open>Every event keeps the invariant\<close>

lemma node_inv_touch:
  assumes "node_inv X n" "nd_gov m = nd_gov n" "nd_fork_candidates m = nd_fork_candidates n" "nd_served_blob m = nd_served_blob n"
  shows "node_inv X m"
  using assms by (simp add: node_inv_def calm_def seated_offer_def)

lemma blob_inv:
  assumes H: "hooks_ok (su_hooks E)" and ad: "adopter_ok E adopt" and inv: "node_inv (su_extern E) n"
    and seat: "cs_roster blob = cs_founding_identities blob"
    and r: "receive_checkpoint_blob E adopt blob n = Some n'"
  shows "node_inv (su_extern E) n'"
proof -
  let ?m = "n\<lparr>nd_served_blob := Some blob\<rparr>"
  have m: "node_inv (su_extern E) ?m"
    using inv seat by (simp add: node_inv_def calm_def seated_offer_def seated_def)
  have "n' = n \<or> try_adopt_from_blob E adopt ?m = Some n'"
    using r by (auto simp: receive_checkpoint_blob_def Let_def bind_eq_Some_conv split: if_splits)
  moreover have "node_inv (su_extern E) n'" if a: "try_adopt_from_blob E adopt ?m = Some n'"
  proof -
    have "sound (su_extern E) (nd_gov n')"
      using blob_adopts[OF H ad _ _ a] m by (auto simp: node_inv_def holder_ok_def)
    then show ?thesis
      using trims_side[of ?m n'] trims_blob[OF ad, of ?m] a m by (simp add: node_inv_def)
  qed
  ultimately show ?thesis using inv by blast
qed

lemma node_step_inv:
  assumes H: "hooks_ok (su_hooks E)" and ad: "adopter_ok E adopt" and inv: "node_inv (su_extern E) n"
    and adm: "admissible e n" and r: "node_step E adopt e n = Some n'"
  shows "node_inv (su_extern E) n'"
proof -
  let ?X = "su_extern E"
  have gov: "is_chain_governed (nd_gov n)" using inv by (simp add: node_inv_def sound_def is_chain_governed_def)
  show ?thesis
  proof (cases e)
    case (NVote ev)
    then show ?thesis using keeps_inv[OF vote_keeps[OF ad] _ inv] r adm gov by (simp add: at_door_def)
  next
    case (NBlock m ts b)
    let ?n = "n\<lparr>nd_block_ts := (nd_block_ts n)(blk_height b \<mapsto>
        case nd_block_ts n (blk_height b) of None \<Rightarrow> ts | Some t \<Rightarrow> min t ts)\<rparr>"
    have "node_inv ?X ?n" by (rule node_inv_touch[OF inv]) simp_all
    then show ?thesis
      using block_inv[OF H ad, of ?n b m n'] r adm gov NBlock by (simp add: at_door_def ingest_committed_def)
  next
    case (NBlob blob)
    then show ?thesis using blob_inv[OF H ad inv] r adm gov by (simp add: at_door_def)
  next
    case (NCheckpoint m i up h folded)
    have "node_inv ?X (note_peer_height m up n)" by (rule node_inv_touch[OF inv]) simp_all
    then show ?thesis
      using keeps_inv[OF receive_checkpoint_keeps[OF ad]] r gov NCheckpoint by (simp add: at_door_def ingest_checkpoint_def)
  next
    case (NMembership i c)
    then show ?thesis using keeps_inv[OF receive_membership_keeps[OF ad] _ inv] r gov by (simp add: at_door_def)
  next
    case NTick
    then show ?thesis using keeps_inv[OF drain_seals_keeps[OF ad] _ inv] r by simp
  next
    case NProposeCheckpoint
    then show ?thesis using keeps_inv[OF propose_checkpoint_keeps[OF ad] _ inv] r by simp
  next
    case (NProposeMembership c cosign)
    then show ?thesis using keeps_inv[OF propose_membership_keeps[OF ad] _ inv] r by simp
  qed
qed

section \<open>Every run keeps the buffers small\<close>

definition small :: "node \<Rightarrow> bool" where
  "small n \<longleftrightarrow> length (nd_pending_blocks n) \<le> CATCHUP_BUFFER_WINDOW \<and> length (nd_fork_candidates n) \<le> CATCHUP_BUFFER_WINDOW"

fun quiet_vote :: "node_event \<Rightarrow> bool" where
  "quiet_vote (NVote v) = quiet v"
| "quiet_vote _ = True"

definition quiet_votes :: "node_event list \<Rightarrow> bool" where
  "quiet_votes = list_all quiet_vote"

lemma small_shrinkable: "shrinkable small"
  by (auto simp: shrinkable_def trims_def small_def)

lemma node_step_small:
  assumes H: "hooks_ok (su_hooks E)" and ad: "adopter_ok E adopt" and s: "small n"
    and q: "quiet_vote e" and r: "node_step E adopt e n = Some n'"
  shows "small n'"
proof -
  have kept: "small m'" if "keeps (su_extern E) m r'" "r' = Some m'" "small m" for m r' m'
    using yieldsD[OF yields_trims[OF small_shrinkable trims_keeps[OF that(1)] that(3)] that(2)] .
  show ?thesis
  proof (cases "e")
    case (NVote v)
    then show ?thesis using kept[OF vote_keeps[OF ad, of v] _ s] r q s by (auto simp: at_door_def split: if_splits)
  next
    case (NBlock m ts b)
    let ?n = "n\<lparr>nd_block_ts := (nd_block_ts n)(blk_height b \<mapsto>
        case nd_block_ts n (blk_height b) of None \<Rightarrow> ts | Some t \<Rightarrow> min t ts)\<rparr>"
    have "small n'" if h: "gv_head (nd_gov n) = Some h" for h
    proof -
      have "yields small (receive_block_from E adopt m b ?n)"
        by (rule receive_block_ends[OF H ad small_shrinkable])
          (use s h in \<open>auto simp: small_def stash_fork_candidate_def buffered_def shed_highest_def\<close>)
      then show ?thesis using r NBlock h by (auto simp: at_door_def ingest_committed_def is_chain_governed_def yields_def)
    qed
    then show ?thesis using r NBlock s by (cases "gv_head (nd_gov n)") (auto simp: at_door_def is_chain_governed_def)
  next
    case (NBlob blob)
    have m: "small (n\<lparr>nd_served_blob := Some blob\<rparr>)" using s by (simp add: small_def)
    have "yields small (try_adopt_from_blob E adopt (n\<lparr>nd_served_blob := Some blob\<rparr>))"
      by (rule yields_trims[OF small_shrinkable trims_blob[OF ad] m])
    then show ?thesis
      using r NBlob s
      by (auto simp: at_door_def receive_checkpoint_blob_def Let_def bind_eq_Some_conv yields_def split: if_splits)
  next
    case (NCheckpoint m i up h folded)
    have m: "small (note_peer_height m up n)" using s by (simp add: small_def)
    then show ?thesis
      using kept[OF receive_checkpoint_keeps[OF ad] _ m] r s NCheckpoint by (auto simp: at_door_def ingest_checkpoint_def split: if_splits)
  next
    case (NMembership i c)
    then show ?thesis using kept[OF receive_membership_keeps[OF ad] _ s] r s by (auto simp: at_door_def split: if_splits)
  next
    case NTick
    then show ?thesis using kept[OF drain_seals_keeps[OF ad] _ s] r by simp
  next
    case NProposeCheckpoint
    then show ?thesis using kept[OF propose_checkpoint_keeps[OF ad] _ s] r by simp
  next
    case (NProposeMembership c cosign)
    then show ?thesis using kept[OF propose_membership_keeps[OF ad] _ s] r by simp
  qed
qed

section \<open>Runs\<close>

text \<open>A run is a loop over events; every event must be admitted in the state it meets.\<close>

lemma node_run_ofold: "node_run E adopt es n = ofold (node_step E adopt) es n"
  by (induction es arbitrary: n) (auto intro!: Option.bind_cong)

fun run_ok :: "('e \<Rightarrow> 's \<Rightarrow> 's option) \<Rightarrow> ('e \<Rightarrow> 's \<Rightarrow> bool) \<Rightarrow> 'e list \<Rightarrow> 's \<Rightarrow> bool" where
  "run_ok stp ok [] s \<longleftrightarrow> True"
| "run_ok stp ok (e # es) s \<longleftrightarrow> ok e s \<and> (case stp e s of None \<Rightarrow> True | Some t \<Rightarrow> run_ok stp ok es t)"

lemma admissible_run_ok: "admissible_run E adopt es n \<longleftrightarrow> run_ok (node_step E adopt) admissible es n"
  by (induction es arbitrary: n) (simp_all split: option.split)

lemma run_ok_all: "list_all P es \<Longrightarrow> run_ok stp (\<lambda>e _. P e) es s"
  by (induction es arbitrary: s) (simp_all split: option.split)

text \<open>A machine whose steps keep a property keeps it over every run.\<close>

locale machine =
  fixes stp :: "'e \<Rightarrow> 's \<Rightarrow> 's option" and ok :: "'e \<Rightarrow> 's \<Rightarrow> bool" and kept :: "'s \<Rightarrow> bool"
  assumes step_kept: "kept s \<Longrightarrow> ok e s \<Longrightarrow> stp e s = Some t \<Longrightarrow> kept t"
begin

lemma run_kept: "kept s \<Longrightarrow> run_ok stp ok es s \<Longrightarrow> ofold stp es s = Some t \<Longrightarrow> kept t"
proof (induction es arbitrary: s)
  case (Cons e es)
  then obtain u where "stp e s = Some u" "ofold stp es u = Some t" by (auto simp: bind_eq_Some_conv)
  then show ?case using Cons step_kept by auto
qed simp

end

text \<open>
  What a node relies on of the adoption of its own blocks: as long as the reactions of the other
  components leave the chain alone, it keeps the chain sound and only advances it.
\<close>

locale committer =
  fixes E :: surround and adopt :: adopter
  assumes adopter_law: "hooks_ok (su_hooks E) \<Longrightarrow> adopter_ok E adopt"

sublocale committer \<subseteq> sound_runs: machine "node_step E adopt" admissible
    "\<lambda>n. hooks_ok (su_hooks E) \<and> node_inv (su_extern E) n"
  by unfold_locales (use adopter_law node_step_inv in blast)

sublocale committer \<subseteq> small_runs: machine "node_step E adopt" "\<lambda>e _. quiet_vote e"
    "\<lambda>n. hooks_ok (su_hooks E) \<and> small n"
  by unfold_locales (use adopter_law node_step_small in blast)

interpretation sealing: committer E "adopt_committed E k"
  by unfold_locales (rule adopt_committed_ok)

lemma node_run_inv:
  assumes "hooks_ok (su_hooks E)" "node_inv (su_extern E) n"
    "admissible_run E (adopt_committed E k) es n" "node_run E (adopt_committed E k) es n = Some n'"
  shows "node_inv (su_extern E) n'"
  using sealing.sound_runs.run_kept[of E n k es n'] assms by (simp add: admissible_run_ok node_run_ofold)

lemma node_run_small:
  assumes "hooks_ok (su_hooks E)" "quiet_votes es" "small n" "node_run E (adopt_committed E k) es n = Some n'"
  shows "small n'"
  using sealing.small_runs.run_kept[of E n k es n', OF _ run_ok_all] assms by (simp add: quiet_votes_def node_run_ofold)

end
