(* ===== verification/Sync_Converge.thy ===== *)
theory Sync_Converge
  imports Chain_Node
begin

text \<open>
  Two holders of one history. A contended tip is decided the same way on both sides, a request
  is answered with exactly the blocks that are missing, and those blocks extend the
  requester's chain.
\<close>

section \<open>Walks that do not depend on the bases held\<close>

lemma step_any_held:
  assumes "step X h w b = Inr w'" "cut_kind_of (blk_change b) = None"
  shows "step X h' w b = Inr w'"
  using assms by (auto simp: step_Inr step_checks_Inr)

lemma no_cuts_simps [simp]:
  "no_cuts []" "no_cuts (b # bs) \<longleftrightarrow> cut_kind_of (blk_change b) = None \<and> no_cuts bs"
  "no_cuts (as @ bs) \<longleftrightarrow> no_cuts as \<and> no_cuts bs"
  by (simp_all add: no_cuts_def)

lemma rfold_snoc: "rfold f a xs = Inr b \<Longrightarrow> f b x = Inr c \<Longrightarrow> rfold f a (xs @ [x]) = Inr c"
  by (induction xs arbitrary: a) (auto simp: rbind_eq_Inr)

lemma own_walks_replay:
  assumes "own_walks X blob rid bs w" "no_cuts (tl bs)"
  shows "(case blob of None \<Rightarrow> walk_chain X bs | Some c \<Rightarrow> walk_suffix_chain X c bs rid h) = Inr w"
  using assms
proof (induction rule: own_walks.induct)
  case (own_genesis g w)
  then show ?case by (simp add: walk_chain_def)
next
  case (own_anchor c a w)
  then show ?case by (simp add: walk_suffix_chain_def)
next
  case (own_step bs w h0 b w')
  obtain a rest where bs: "bs = a # rest" using own_walks_not_Nil[OF own_step(1)] by (cases bs) auto
  have b: "cut_kind_of (blk_change b) = None" using own_step.prems bs by simp
  note st = step_any_held[OF own_step(2) b]
  show ?case
  proof (cases blob)
    case None
    with own_step bs obtain w0 where w0: "genesis_walk X a = Inr w0" "rfold (step X held_default) w0 rest = Inr w"
      by (auto simp: walk_chain_def rbind_eq_Inr)
    then show ?thesis using rfold_snoc[OF w0(2) st] None bs by (simp add: walk_chain_def)
  next
    case (Some c)
    with own_step bs obtain w0 where w0: "anchor_walk X c a rid = Inr w0" "rfold (step X h) w0 rest = Inr w"
      by (auto simp: walk_suffix_chain_def rbind_eq_Inr)
    then show ?thesis using rfold_snoc[OF w0(2) st] Some bs by (simp add: walk_suffix_chain_def)
  qed
qed

lemma walk_own_replay:
  assumes "own_walks X (gv_blob s) (gov_republic_id s) bs w" "no_cuts (tl bs)"
  shows "walk_own X s bs = Inr w"
  unfolding walk_own_def by (rule own_walks_replay[OF assms])

section \<open>A contender for the tip\<close>

lemma own_walks_snoc:
  assumes "own_walks X blob rid (pre @ [b]) w" "pre \<noteq> []"
  obtains v h where "own_walks X blob rid pre v" "step X h v b = Inr w"
  using assms(1) by (cases rule: own_walks_snocE) (use assms(2) that in auto)

lemma step_signers:
  assumes "step X h w b = Inr w'"
  obtains signers where "block_signers X (ch_republic_id (w_head w)) (ch_identities (w_head w)) b = Inr signers"
    "unat (ch_rule_m (w_head w)) \<le> length signers"
  using step_facts(1)[OF assms] by (auto simp: verify_next_def rbind_eq_Inr not_less)

lemma u64_bound: "unat (x :: u64) \<le> 2 ^ 64 - 1"
proof -
  have "unat x < 2 ^ 64" using unsigned_less[of x] by simp
  then show ?thesis by simp
qed

lemma sat_succ: "unat h < 2 ^ 64 - 1 \<Longrightarrow> u64_sat_add h 1 = h + 1"
  by (simp add: u64_sat_add_def)

lemma find_last_before:
  assumes "\<And>x. x \<in> set p \<Longrightarrow> \<not> P x" "P q"
  shows "List.find P (p @ q # rest) = Some q"
  using assms by (induction p) auto

text \<open>What a holder of \<open>pre @ [t]\<close> finds out about a contender \<open>c\<close> another holder of \<open>pre\<close> took.\<close>

lemma contender_facts:
  assumes s: "sound X s" and bs: "gv_blocks s = pre @ [t]" "pre \<noteq> []"
    and c: "own_walks X (gv_blob s) (gov_republic_id s) (pre @ [c]) v"
  shows "blk_height c = blk_height t" "block_hash X (gov_republic_id s) c = Some (ch_hash (w_head v))"
    "shares_prev X s c = Some True" "carries_threshold X s c = Some True"
proof -
  from s obtain w where w: "own_walks X (gv_blob s) (gov_republic_id s) (pre @ [t]) w" "gv_head s = Some (w_head w)"
    "ch_republic_id (w_head w) = gov_republic_id s" by (rule soundE) (simp add: bs)
  from own_walks_snoc[OF w(1) bs(2)] obtain u h where u: "own_walks X (gv_blob s) (gov_republic_id s) pre u"
    "step X h u t = Inr w" .
  from own_walks_snoc[OF c bs(2)] obtain u' h' where u': "own_walks X (gv_blob s) (gov_republic_id s) pre u'"
    "step X h' u' c = Inr v" .
  have st: "step X h' u c = Inr v" using own_walks_unique[OF u(1) u'(1)] u'(2) by simp
  note nt = next_facts[OF u(2)] and nc = next_facts[OF st]
  have rid: "ch_republic_id (w_head u) = gov_republic_id s" using nt w(3) by simp
  show "blk_height c = blk_height t" using nt nc by simp
  show "block_hash X (gov_republic_id s) c = Some (ch_hash (w_head v))" using nc rid by simp
  obtain p q where pq: "pre = p @ [q]" using bs(2) by (metis append_butlast_last_id)
  note stu = own_walks_stands[OF u(1)]
  have q: "ch_height (w_head u) = blk_height q" "block_hash X (gov_republic_id s) q = Some (ch_hash (w_head u))"
    using stu rid pq by (simp_all add: stands_at_def)
  have "List.find (\<lambda>b. u64_sat_add (blk_height b) 1 = blk_height c) (p @ q # [t]) = Some q"
  proof (rule find_last_before)
    fix x assume "x \<in> set p"
    then have "unat (blk_height x) < unat (blk_height q)" using stands_tail_above[of X "gv_blob s" p q u x] stu pq
      by (simp add: word_less_nat_alt)
    then have "u64_sat_add (blk_height x) 1 = blk_height x + 1" "unat (blk_height x + 1) < unat (blk_height c)"
      using nc q(1) by (simp_all add: sat_succ unat_Suc_u64)
    then show "u64_sat_add (blk_height x) 1 \<noteq> blk_height c" by auto
  next
    show "u64_sat_add (blk_height q) 1 = blk_height c" using nc q(1) by (simp add: sat_succ)
  qed
  then show "shares_prev X s c = Some True" using q(2) nc by (simp add: shares_prev_def bs(1) pq)
  from step_signers[OF st] obtain signers where
    "block_signers X (ch_republic_id (w_head u)) (ch_identities (w_head u)) c = Inr signers"
    "unat (ch_rule_m (w_head u)) \<le> length signers" .
  then show "carries_threshold X s c = Some True" using nt rid w(2) by (simp add: carries_threshold_def)
qed

lemma contended_tip:
  assumes s: "sound (su_extern E) (nd_gov n)" and bs: "gv_blocks (nd_gov n) = pre @ [t]" "pre \<noteq> []"
    and c: "own_walks (su_extern E) (gv_blob (nd_gov n)) (gov_republic_id (nd_gov n)) (pre @ [c]) v"
    and ne: "blk_change t \<noteq> blk_change c" and h: "gv_head (nd_gov n) = Some h" and room: "target_of h \<noteq> None"
  shows "receive_block_from E adopt m c n =
    (let n1 = note_peer_height m (blk_height c) n in
     if ch_hash (w_head v) < ch_hash h then swap_tip E adopt c n1 else Some n1)"
proof -
  let ?n = "note_peer_height m (blk_height c) n" and ?X = "su_extern E"
  note f = contender_facts[OF s bs c]
  note o = own_hash[OF s h, unfolded bs(1) last_snoc]
  have at: "block_at (nd_gov n) (blk_height c) = Some t" using block_at_last[OF s] f(1) by (simp add: bs(1))
  have tie: "tie_break E adopt m c ?n =
      (if ch_hash (w_head v) < ch_hash h then swap_tip E adopt c ?n else Some ?n)"
    using f ne o at bs by (auto simp: tie_break_def Let_def)
  obtain nxt where "target_of h = Some nxt" "nxt = ch_height h + 1" "unat (ch_height h) < 2 ^ 64 - 1"
    using room u64_bound[of "ch_height h"] by (auto simp: target_of_def split: if_splits)
  moreover from this have "blk_height c \<noteq> nxt"
    using f(1) o(2) by (metis unat_Suc_u64 n_not_Suc_n Suc_eq_plus1)
  moreover have "blk_height c \<le> ch_height h" using f(1) o(2) by simp
  ultimately show ?thesis by (simp add: receive_block_from_def Let_def h tie)
qed

lemma settles_tip:
  assumes H: "hooks_ok (su_hooks E)" and s: "sound (su_extern E) (nd_gov n)"
    and bs: "gv_blocks (nd_gov n) = pre @ [t]" "pre \<noteq> []"
    and c: "own_walks (su_extern E) (gv_blob (nd_gov n)) (gov_republic_id (nd_gov n)) (pre @ [c]) v"
    and ne: "blk_change t \<noteq> blk_change c" and h: "gv_head (nd_gov n) = Some h"
    and cuts: "no_cuts (tl pre @ [c])"
    and r: "receive_block_from E (adopt_committed E k) m c n = Some n'"
  shows "same_history (su_extern E) (gov_republic_id (nd_gov n)) (pre @ [if ch_hash (w_head v) < ch_hash h then c else t]) (gv_blocks (nd_gov n'))"
    "sound (su_extern E) (nd_gov n')"
proof -
  let ?n = "note_peer_height m (blk_height c) n" and ?X = "su_extern E"
  have room: "target_of h \<noteq> None" using r h by (cases "target_of h") (simp_all add: receive_block_from_def Let_def)
  note e = contended_tip[OF s bs c ne h room, of "adopt_committed E k" m, unfolded Let_def]
  have "same_history ?X (gov_republic_id (nd_gov n)) (pre @ [if ch_hash (w_head v) < ch_hash h then c else t]) (gv_blocks (nd_gov n')) \<and> sound ?X (nd_gov n')"
  proof (cases "ch_hash (w_head v) < ch_hash h")
    case True
    have pre: "butlast (gv_blocks (nd_gov ?n)) @ [c] = pre @ [c]" by (simp add: bs)
    have names: "names_republic (nd_gov ?n) (butlast (gv_blocks (nd_gov ?n)) @ [c])"
      unfolding pre by (rule names_same_first[OF sound_names]) (use s bs in \<open>simp_all add: hd_append\<close>)
    have "walk_own ?X (nd_gov ?n\<lparr>gv_blocks := pre @ [c]\<rparr>) (pre @ [c]) = Inr v"
      by (rule walk_own_replay) (use c cuts bs(2) in simp_all)
    then have v: "verify_own ?X (nd_gov ?n\<lparr>gv_blocks := butlast (gv_blocks (nd_gov ?n)) @ [c]\<rparr>)
        (butlast (gv_blocks (nd_gov ?n)) @ [c]) = Inr (w_head v)"
      unfolding pre verify_own_def by simp
    have sw: "swap_tip E (adopt_committed E k) c ?n = Some n'" using r e True by simp
    have hash: "block_hash ?X (gov_republic_id (nd_gov ?n)) c = Some (ch_hash (w_head v))"
      using contender_facts(2)[OF s bs c] by simp
    have sn: "sound ?X (nd_gov ?n)" "gv_head (nd_gov ?n) = Some h" "cut_kind_of (blk_change c) = None"
      using s h cuts by simp_all
    from swap_tip_sound[OF H adopt_committed_ok[OF H] sn(3) sn(1,2) names hash True sw] v
    show ?thesis using True by (simp add: bs)
  next
    case False
    then show ?thesis using r e s bs same_history_sound[OF s refl] by auto
  qed
  then show "same_history ?X (gov_republic_id (nd_gov n)) (pre @ [if ch_hash (w_head v) < ch_hash h then c else t]) (gv_blocks (nd_gov n'))"
    "sound ?X (nd_gov n')" by simp_all
qed

section \<open>Answering a request\<close>

lemma sample_below: "unat (word_of_nat (unat (hh :: u64) - bk) :: u64) \<le> unat hh"
  by (metis unat_of_nat diff_le_self mod_less_eq_dividend order_trans)

lemma known_loop_below: "known_loop X s hh bk room = Some ks \<Longrightarrow> k \<in> set ks \<Longrightarrow> unat (fst k) \<le> unat hh"
proof (induction X s hh bk room arbitrary: ks rule: known_loop.induct)
  case (2 X s hh bk room)
  then show ?case
    by (auto simp: Let_def bind_eq_Some_conv sample_below simp del: of_nat_diff split: if_splits option.splits)
qed simp

lemma known_loop_length: "known_loop X s hh bk room = Some ks \<Longrightarrow> length ks \<le> room"
  by (induction X s hh bk room arbitrary: ks rule: known_loop.induct)
    (auto simp: Let_def bind_eq_Some_conv split: if_splits option.splits)

text \<open>The request names the head first, and nothing above it.\<close>

lemma known_heads_head:
  assumes "sound X s" "gv_head s = Some h" "known_heads X s = Some ks"
  shows "(ch_height h, ch_hash h) \<in> set ks" "\<And>k. k \<in> set ks \<Longrightarrow> fst k \<le> ch_height h" "length ks \<le> KNOWN_HEADS_MAX"
proof -
  obtain w where w: "own_walks X (gv_blob s) (gov_republic_id s) (gv_blocks s) w" using assms(1) by (rule soundE)
  have ne: "gv_blocks s \<noteq> []" by (rule own_walks_not_Nil[OF w])
  note o = own_hash[OF assms(1,2)]
  have k: "known_loop X s (ch_height h) 0 KNOWN_HEADS_MAX = Some ks"
    using assms(3) ne o(2) by (simp add: known_heads_def)
  have at: "block_at s (ch_height h) = Some (last (gv_blocks s))" using block_at_last[OF assms(1)] o(2) by simp
  obtain room where room: "KNOWN_HEADS_MAX = Suc room" by (simp add: KNOWN_HEADS_MAX_def)
  show "(ch_height h, ch_hash h) \<in> set ks" using k at o(1) by (auto simp: room Let_def bind_eq_Some_conv)
  show "\<And>k. k \<in> set ks \<Longrightarrow> fst k \<le> ch_height h" using known_loop_below[OF k] by (simp add: word_le_nat_alt)
  show "length ks \<le> KNOWN_HEADS_MAX" by (rule known_loop_length[OF k])
qed

lemma serve_from_head:
  assumes R: "sound X r" "gv_head r = Some h" "known_heads X r = Some ks"
    and S: "gv_blocks s = gv_blocks r @ ext" "gov_republic_id s = gov_republic_id r"
  shows "serve_from_for X s f ks = u64_sat_add (ch_height h) 1"
proof -
  note k = known_heads_head[OF R]
  obtain w where w: "own_walks X (gv_blob r) (gov_republic_id r) (gv_blocks r) w" using R(1) by (rule soundE)
  have "last (gv_blocks r) \<in> set (gv_blocks s)" using own_walks_not_Nil[OF w] by (simp add: S)
  then have own: "names_own_block X s (ch_height h, ch_hash h)"
    using own_hash[OF R(1,2)] by (auto simp: names_own_block_def list_ex_iff S(2))
  have mono: "u64_sat_add a 1 \<le> u64_sat_add b 1" if "a \<le> b" for a b :: u64
    using that by (auto simp: u64_sat_add_def word_le_nat_alt unat_word_ariths unsigned_minus_1_eq_mask mask_eq_exp_minus_1)
  let ?ms = "map (\<lambda>k. u64_sat_add (fst k) 1) (filter (names_own_block X s) ks)"
  have mem: "u64_sat_add (ch_height h) 1 \<in> set ?ms" using own k(1) by force
  have le: "\<forall>x \<in> set ?ms. x \<le> u64_sat_add (ch_height h) 1" using k(2) mono by auto
  obtain m ms where ms: "?ms = m # ms" using mem by (cases ?ms) auto
  have "fold max ms m = Max (set ?ms)" unfolding ms by (rule Max.set_eq_fold[symmetric])
  also have "\<dots> = u64_sat_add (ch_height h) 1" using le mem by (intro Max_eqI) auto
  finally show ?thesis by (simp add: serve_from_for_def ms)
qed

lemma missing_suffix:
  assumes r: "sound X r" "gv_head r = Some h" and s: "sound X s" "gv_blocks s = gv_blocks r @ ext" "ext \<noteq> []"
  shows "filter (\<lambda>b. blk_height b \<ge> u64_sat_add (ch_height h) 1) (gv_blocks s) = ext"
    "u64_sat_add (ch_height h) 1 > blk_height (hd (gv_blocks s))"
proof -
  from r(1) obtain v where v: "own_walks X (gv_blob r) (gov_republic_id r) (gv_blocks r) v" by (rule soundE)
  from s(1) obtain w where w: "own_walks X (gv_blob s) (gov_republic_id s) (gv_blocks s) w" by (rule soundE)
  let ?a = "gv_blocks r" and ?bs = "gv_blocks s"
  have ne: "?a \<noteq> []" by (rule own_walks_not_Nil[OF v])
  note st = own_walks_stands[OF w] and o = own_hash(2)[OF r]
  have at: "unat (blk_height (?bs ! i)) = unat (blk_height (hd ?bs)) + i" if "i < length ?bs" for i
    by (rule stands_height[OF st that])
  have la: "?bs ! (length ?a - 1) = last ?a" using ne by (simp add: s(2) nth_append last_conv_nth)
  have hh: "unat (ch_height h) = unat (blk_height (hd ?bs)) + (length ?a - 1)"
    using at[of "length ?a - 1"] la o ne by (cases ?a) (simp_all add: s(2))
  have "unat (blk_height (?bs ! length ?a)) = unat (blk_height (hd ?bs)) + length ?a" using at[of "length ?a"] s(2,3) by simp
  moreover have "length ?a \<ge> 1" using ne by (cases ?a) auto
  ultimately have succ: "Suc (unat (ch_height h)) = unat (blk_height (?bs ! length ?a))" "unat (ch_height h) < 2 ^ 64 - 1"
    using hh u64_bound[of "blk_height (?bs ! length ?a)"] by simp_all
  have sat: "unat (u64_sat_add (ch_height h) 1) = Suc (unat (ch_height h))"
    using succ(2) by (simp add: sat_succ unat_Suc_u64)
  show "u64_sat_add (ch_height h) 1 > blk_height (hd ?bs)" using sat hh by (simp add: word_less_nat_alt)
  have "\<not> blk_height b \<ge> u64_sat_add (ch_height h) 1" if "b \<in> set ?a" for b
    using stands_below_head[OF own_walks_stands[OF v] that] stands_at_def[of X "gv_blob r" ?a v] own_walks_stands[OF v] o sat
    by (auto simp: word_le_nat_alt)
  moreover have "blk_height b \<ge> u64_sat_add (ch_height h) 1" if mem: "b \<in> set ext" for b
  proof -
    obtain j where j: "j < length ext" "b = ext ! j" using mem by (auto simp: in_set_conv_nth)
    have "unat (blk_height b) = unat (blk_height (hd ?bs)) + (length ?a + j)"
      using at[of "length ?a + j"] j s(2) by (simp add: nth_append)
    then show ?thesis using sat hh \<open>length ?a \<ge> 1\<close> by (simp add: word_le_nat_alt)
  qed
  ultimately show "filter (\<lambda>b. blk_height b \<ge> u64_sat_add (ch_height h) 1) ?bs = ext"
    by (simp add: s(2) filter_empty_conv filter_id_conv)
qed

lemma serve_records:
  assumes "filter (\<lambda>b. blk_height b \<ge> f) (gv_blocks (nd_gov n)) = ext" "ext \<noteq> []" "f > blk_height (hd (gv_blocks (nd_gov n)))"
  shows "nd_out (serve_chain_from E f n) = nd_out n @ map EvCommitted ext"
proof -
  have out: "nd_out (fold (\<lambda>b. record_event (EvCommitted b)) bs m) = nd_out m @ map EvCommitted bs" for bs m
    by (induction bs arbitrary: m) (simp_all add: record_event_def)
  have "gv_blocks (nd_gov n) \<noteq> []" using assms(1,2) by auto
  then show ?thesis using assms by (auto simp: serve_chain_from_def Let_def out split: option.split list.split)
qed

section \<open>Replaying what was served\<close>

lemma current_walk_total:
  assumes s: "sound X s" and cuts: "no_cuts (tl (gv_blocks s))"
    and w: "own_walks X (gv_blob s) (gov_republic_id s) (gv_blocks s) w"
  shows "current_walk X s = Inr w"
proof -
  note walk = walk_own_replay[OF w cuts]
  show ?thesis
  proof (cases "gv_walk s")
    case None
    then show ?thesis using walk by (simp add: current_walk_def)
  next
    case (Some c)
    from s obtain w0 where w0: "own_walks X (gv_blob s) (gov_republic_id s) (gv_blocks s) w0" "cache_ok w0 c"
      by (rule soundE) (use Some in blast)
    have c: "cache_ok w c" using own_walks_unique[OF w w0(1)] w0(2) by simp
    then have rid: "ch_republic_id (w_head c) = ch_republic_id (w_head w)" by (auto simp: cache_ok_def)
    have "describes X c (gv_blocks s) (gv_blob s) \<noteq> None"
      using own_walks_stands[OF w] own_walks_not_Nil[OF w] rid by (auto simp: describes_def stands_at_def)
    then obtain ok where ok: "describes X c (gv_blocks s) (gv_blob s) = Some ok" by blast
    have "ok \<Longrightarrow> c = w" using describes_own[OF w rid] ok c by (auto simp: cache_ok_def)
    then show ?thesis using Some ok walk by (cases ok) (simp_all add: current_walk_def)
  qed
qed

lemma append_next:
  assumes s: "sound X s" and v: "own_walks X (gv_blob s) (gov_republic_id s) (gv_blocks s @ [b]) v"
    and cuts: "no_cuts (tl (gv_blocks s @ [b]))"
  shows "\<exists>t. append_committed_block X s b = Some (t, True) \<and> gv_blocks t = gv_blocks s @ [b] \<and>
    gv_head t = Some (w_head v) \<and> sound X t \<and> gv_blob t = gv_blob s \<and> gov_republic_id t = gov_republic_id s"
proof -
  obtain w0 where w0: "own_walks X (gv_blob s) (gov_republic_id s) (gv_blocks s) w0" using s by (rule soundE)
  have ne: "gv_blocks s \<noteq> []" by (rule own_walks_not_Nil[OF w0])
  from own_walks_snoc[OF v ne] obtain w h where w: "own_walks X (gv_blob s) (gov_republic_id s) (gv_blocks s) w"
    "step X h w b = Inr v" .
  have c: "no_cuts (tl (gv_blocks s))" "cut_kind_of (blk_change b) = None" using cuts ne by simp_all
  have "current_walk X s = Inr w" by (rule current_walk_total[OF s c(1) w(1)])
  moreover have "step X (held_bases X s) w b = Inr v" by (rule step_any_held[OF w(2) c(2)])
  ultimately obtain t where t: "append_committed_block X s b = Some (t, True)"
    by (auto simp: append_committed_block_def extend_own_def step_def Let_def rbind_def split: sum.splits prod.splits)
  from t obtain w1 w2 where f: "current_walk X s = Inr w1" "step X (held_bases X s) w1 b = Inr w2"
    "gv_head t = Some (w_head w2)" "gv_blocks t = gv_blocks s @ [b]" "gv_blob t = gv_blob s"
    "gov_republic_id t = gov_republic_id s" by (rule append_fields)
  have "w2 = v" using f(1,2) \<open>current_walk X s = Inr w\<close> \<open>step X (held_bases X s) w b = Inr v\<close> by simp
  then show ?thesis using t f append_sound[OF s t] by blast
qed

lemma replay_extends:
  assumes "sound X s" "own_walks X (gv_blob s) (gov_republic_id s) (gv_blocks s @ ext) v" "no_cuts (tl (gv_blocks s @ ext))"
    "gv_head s = Some h"
  shows "\<exists>t. ofold (\<lambda>b u. map_option fst (append_committed_block X u b)) ext s = Some t \<and>
    gv_blocks t = gv_blocks s @ ext \<and> gv_head t = Some (w_head v) \<and> sound X t"
  using assms
proof (induction ext arbitrary: s h)
  case Nil
  from Nil.prems(1) obtain w where "own_walks X (gv_blob s) (gov_republic_id s) (gv_blocks s) w" "gv_head s = Some (w_head w)"
    by (rule soundE)
  moreover from this have "v = w" using Nil.prems(2) own_walks_unique by (metis append_Nil2)
  ultimately show ?case using Nil by simp
next
  case (Cons b ext)
  have pre: "\<exists>u. own_walks X blob rid as u" if "own_walks X blob rid (as @ q) w" "as \<noteq> []" for blob rid as q w
    using that
  proof (induction q arbitrary: w rule: rev_induct)
    case (snoc x q)
    then show ?case by (metis append_assoc append_is_Nil_conv own_walks_snoc)
  qed auto
  obtain u where u: "own_walks X (gv_blob s) (gov_republic_id s) (gv_blocks s @ [b]) u"
    using pre[of "gv_blob s" "gov_republic_id s" "gv_blocks s @ [b]" ext v] Cons.prems(2) by auto
  have "no_cuts (tl (gv_blocks s @ [b]))" using Cons.prems(3) by (cases "gv_blocks s") simp_all
  from append_next[OF Cons.prems(1) u this] obtain t where t: "append_committed_block X s b = Some (t, True)"
    "gv_blocks t = gv_blocks s @ [b]" "gv_head t = Some (w_head u)" "sound X t" "gv_blob t = gv_blob s"
    "gov_republic_id t = gov_republic_id s" by blast
  from Cons.IH[OF t(4) _ _ t(3)] t Cons.prems(2,3) show ?case by simp
qed

end
