(* ===== verification/Gov_Depth.thy ===== *)
theory Gov_Depth
  imports Gov_Commit_Laws
begin

text \<open>
  How deep an adoption can go. Every block a re-signing seals lies above the block adopted
  before it, so a depth that covers the heights left is never used up: the bound of \<open>adopt_committed\<close>
  changes nothing, whatever stands below it: the unbounded recursion of the code ends, in what \<open>adopt_committed\<close> returns.
\<close>

section \<open>Adopters that agree from a height on\<close>

definition stands_from :: "extern \<Rightarrow> nat \<Rightarrow> node \<Rightarrow> bool" where
  "stands_from X h n \<longleftrightarrow> sound X (nd_gov n) \<and> h \<le> head_height (nd_gov n)"

definition agree :: "extern \<Rightarrow> nat \<Rightarrow> adopter \<Rightarrow> adopter \<Rightarrow> bool" where
  "agree X h f g \<longleftrightarrow> (\<forall>n b i. stands_from X h n \<longrightarrow> f n b i = g n b i)"

lemma stands_advances: "advances X n m \<Longrightarrow> stands_from X h n \<Longrightarrow> stands_from X h m"
  by (auto simp: advances_def stands_from_def)

lemma stands_part: "chain_part (nd_gov m) = chain_part (nd_gov n) \<Longrightarrow> stands_from X h n \<Longrightarrow> stands_from X h m"
  using sound_part[of "nd_gov m" "nd_gov n" X] chain_part_eqD(1)[of "nd_gov m" "nd_gov n"]
  by (simp add: stands_from_def head_height_def)

lemma stands_keeps: "keeps X n r \<Longrightarrow> r = Some m \<Longrightarrow> stands_from X h n \<Longrightarrow> stands_from X h m"
  using keepsD stands_advances by blast

lemma agreeD: "agree X h f g \<Longrightarrow> stands_from X h n \<Longrightarrow> f n b i = g n b i"
  by (simp add: agree_def)

lemma ofold_agree:
  assumes "\<And>x n. stands_from X h n \<Longrightarrow> f x n = g x n" "\<And>x n. keeps X n (f x n)" "stands_from X h n"
  shows "ofold f xs n = ofold g xs n"
  using assms(3)
proof (induction xs arbitrary: n)
  case (Cons x xs)
  show ?case
  proof (cases "f x n")
    case (Some m)
    then show ?thesis using Cons assms(1)[OF Cons.prems] stands_keeps[OF assms(2) Some] by (metis bind.bind_lunit ofold.simps(2))
  qed (use assms(1)[OF Cons.prems] in simp)
qed simp

lemma bind_agree:
  assumes "r = r'" "\<And>m. r = Some m \<Longrightarrow> f m = g m"
  shows "Option.bind r f = Option.bind r' g"
  using assms by (cases r) auto

definition agreeing :: "surround \<Rightarrow> nat \<Rightarrow> adopter \<Rightarrow> adopter \<Rightarrow> bool" where
  "agreeing E h f g \<longleftrightarrow> agree (su_extern E) h f g \<and> adopter_ok E f \<and> hooks_ok (su_hooks E)"

lemma agreeingD:
  assumes "agreeing E h f g"
  shows "agree (su_extern E) h f g" "adopter_ok E f" "hooks_ok (su_hooks E)"
  using assms by (simp_all add: agreeing_def)

lemma sign_agree:
  assumes A: "agreeing E h f g" and n: "stands_from (su_extern E) h n"
  shows "chain_sign_and_gossip_approval E f i n = chain_sign_and_gossip_approval E g i n"
proof (cases "sign_approval (su_extern E) (gates_at E (nd_gov n)) (nd_gov n) i")
  case (Some r)
  obtain s ev b where r: "r = (s, ev, b)" by (metis prod_cases3)
  let ?n1 = "case ev of None \<Rightarrow> n\<lparr>nd_gov := s\<rparr> | Some e \<Rightarrow> record_event (EvApproval e) (n\<lparr>nd_gov := s\<rparr>)"
  have "stands_from (su_extern E) h ?n1"
    by (rule stands_part[OF _ n]) (use chain_part_sign[OF Some[unfolded r]] in \<open>simp split: option.split\<close>)
  from agreeD[OF agreeingD(1)[OF A] this] show ?thesis
    unfolding chain_sign_and_gossip_approval_def Some r option.case prod.case Let_def by (cases b) simp_all
qed (simp add: chain_sign_and_gossip_approval_def)

lemma auto_approve_agree:
  assumes A: "agreeing E h f g" and n: "stands_from (su_extern E) h n"
  shows "auto_approve_restore E f i n = auto_approve_restore E g i n"
  unfolding auto_approve_restore_def sign_agree[OF A n] ..

lemma sweep_agree:
  assumes A: "agreeing E h f g" and n: "stands_from (su_extern E) h n"
  shows "sweep_consented_restores E f n = sweep_consented_restores E g n"
proof -
  have "ofold (auto_approve_restore E f) xs (on_gov (fold forget_vote dead) n) =
      ofold (auto_approve_restore E g) xs (on_gov (fold forget_vote dead) n)" for xs dead
    by (rule ofold_agree[OF auto_approve_agree[OF A] auto_approve_keeps[OF agreeingD(2)[OF A]] stands_part[OF _ n]])
      (simp_all add: chain_part_fold)
  then show ?thesis unfolding sweep_consented_restores_def Let_def by simp
qed

lemma rebase_agree:
  assumes A: "agreeing E h f g" and n: "stands_from (su_extern E) h n"
  shows "rebase_pending_approvals E f n = rebase_pending_approvals E g n"
proof -
  let ?X = "su_extern E"
  have one: "rebase_one E f i m = rebase_one E g i m" if "stands_from ?X h m" for i m
  proof -
    have "stands_from ?X h (on_gov (\<lambda>s. s\<lparr>gv_pending_sigs := bt_remove i (gv_pending_sigs s)\<rparr>) m)"
      by (rule stands_part[OF _ that]) simp
    then show ?thesis unfolding rebase_one_def Let_def by (simp add: sign_agree[OF A])
  qed
  have "Option.bind (ofold (rebase_one E f) stale (on_gov (fold drop_vote swept) n)) (sweep_consented_restores E f) =
      Option.bind (ofold (rebase_one E g) stale (on_gov (fold drop_vote swept) n)) (sweep_consented_restores E g)" for stale swept
  proof (rule bind_agree)
    have sw: "stands_from ?X h (on_gov (fold drop_vote swept) n)"
      by (rule stands_part[OF _ n]) (simp add: chain_part_fold drop_vote_def)
    show "ofold (rebase_one E f) stale (on_gov (fold drop_vote swept) n) = ofold (rebase_one E g) stale (on_gov (fold drop_vote swept) n)"
      by (rule ofold_agree[OF one rebase_one_keeps[OF agreeingD(2)[OF A]] sw])
    show "sweep_consented_restores E f m = sweep_consented_restores E g m"
      if "ofold (rebase_one E f) stale (on_gov (fold drop_vote swept) n) = Some m" for m
      by (rule sweep_agree[OF A stands_keeps[OF keeps_ofold[OF rebase_one_keeps[OF agreeingD(2)[OF A]]] that sw]])
  qed
  then show ?thesis unfolding rebase_pending_approvals_def Let_def by (simp cong: option.case_cong)
qed

lemma propose_agree:
  assumes A: "agreeing E h f g" and n: "stands_from (su_extern E) h n"
  shows "cmd_propose_checkpoint E f n = cmd_propose_checkpoint E g n"
proof -
  have mint: "Option.bind (mint_proposal_id (nd_gov n)) (\<lambda>(s1, i).
      map_option (\<lambda>n2. (n2, Inr i :: string + u64)) (if c then chain_sign_and_gossip_approval E f i (record_event (ev i) (n\<lparr>nd_gov := s1\<lparr>gv_proposal_changes := bt_insert i ch (gv_proposal_changes s1)\<rparr>\<rparr>))
         else Some (record_event (ev i) (n\<lparr>nd_gov := s1\<lparr>gv_proposal_changes := bt_insert i ch (gv_proposal_changes s1)\<rparr>\<rparr>)))) =
    Option.bind (mint_proposal_id (nd_gov n)) (\<lambda>(s1, i).
      map_option (\<lambda>n2. (n2, Inr i)) (if c then chain_sign_and_gossip_approval E g i (record_event (ev i) (n\<lparr>nd_gov := s1\<lparr>gv_proposal_changes := bt_insert i ch (gv_proposal_changes s1)\<rparr>\<rparr>))
         else Some (record_event (ev i) (n\<lparr>nd_gov := s1\<lparr>gv_proposal_changes := bt_insert i ch (gv_proposal_changes s1)\<rparr>\<rparr>))))"
    for c ev ch
  proof (rule bind_agree[OF refl], clarify)
    fix s1 i assume m: "mint_proposal_id (nd_gov n) = Some (s1, i)"
    let ?m = "record_event (ev i) (n\<lparr>nd_gov := s1\<lparr>gv_proposal_changes := bt_insert i ch (gv_proposal_changes s1)\<rparr>\<rparr>)"
    have "stands_from (su_extern E) h ?m" by (rule stands_part[OF _ n]) (use mint_part[OF m] in simp)
    from sign_agree[OF A this] show "map_option (\<lambda>n2. (n2, Inr i :: string + u64)) (if c then chain_sign_and_gossip_approval E f i ?m else Some ?m) =
        map_option (\<lambda>n2. (n2, Inr i)) (if c then chain_sign_and_gossip_approval E g i ?m else Some ?m)" by simp
  qed
  show ?thesis unfolding cmd_propose_checkpoint_def Let_def mint ..
qed

lemma auto_checkpoint_agree:
  assumes A: "agreeing E h f g" and n: "stands_from (su_extern E) h n"
  shows "maybe_auto_checkpoint E f n = maybe_auto_checkpoint E g n"
  unfolding maybe_auto_checkpoint_def propose_agree[OF A n] ..

section \<open>The depth is never used up\<close>

lemma adopt_block_agree:
  assumes A: "agreeing E (Suc (head_height (nd_gov n))) f g" and n: "sound (su_extern E) (nd_gov n)"
  shows "adopt_committed_block E f n b i = adopt_committed_block E g n b i"
proof (cases "append_committed_block (su_extern E) (nd_gov n) b")
  case (Some r)
  let ?X = "su_extern E" and ?h = "Suc (head_height (nd_gov n))"
  obtain t taken where r: "r = (t, taken)" by fastforce
  show ?thesis
  proof (cases taken)
    case True
    then have a: "append_committed_block ?X (nd_gov n) b = Some (t, True)" using Some r by simp
    have after: "after_block_applied E f b (n\<lparr>nd_gov := t\<rparr>) = after_block_applied E g b (n\<lparr>nd_gov := t\<rparr>)"
      unfolding after_block_applied_def
    proof (rule bind_agree[OF refl])
      fix m assume "on_gov_opt (block_bookkeeping E (nd_block_ts (n\<lparr>nd_gov := t\<rparr>)) b) (n\<lparr>nd_gov := t\<rparr>) = Some m"
      then obtain s where s: "block_bookkeeping E (nd_block_ts n) b t = Some s" "m = n\<lparr>nd_gov := s\<rparr>"
        by (auto simp: on_gov_opt_def)
      have "stands_from ?X ?h m"
        using bookkeeping_sound[OF agreeingD(3)[OF A] n a s(1)] append_height[OF n a] s(2) by (simp add: stands_from_def)
      then show "rebase_pending_approvals E f m = rebase_pending_approvals E g m" by (rule rebase_agree[OF A])
    qed
    have auto: "maybe_auto_checkpoint E f (record_event ev (on_gov (forget_vote i) n1)) =
        maybe_auto_checkpoint E g (record_event ev (on_gov (forget_vote i) n1))"
      if n1: "after_block_applied E f b (n\<lparr>nd_gov := t\<rparr>) = Some n1" for n1 ev
    proof -
      note f = append_then_after[OF agreeingD(3,2)[OF A] a n1]
      have "stands_from ?X ?h n1" using f(1) f(2)[OF n] n by (simp add: stands_from_def advances_def)
      then have "stands_from ?X ?h (record_event ev (on_gov (forget_vote i) n1))" by (rule stands_part[rotated]) simp
      then show ?thesis by (rule auto_checkpoint_agree[OF A])
    qed
    show ?thesis
      unfolding adopt_committed_block_def a bind.bind_lunit prod.case Let_def after[symmetric] using auto
      by (cases "after_block_applied E f b (n\<lparr>nd_gov := t\<rparr>)") simp_all
  qed (simp add: adopt_committed_block_def Some r)
qed (simp add: adopt_committed_block_def)

lemma head_height_bound: "head_height s < 2 ^ 64"
proof -
  have "unat (x :: u64) < 2 ^ 64" for x using unsigned_less[of x] by simp
  then show ?thesis by (simp add: head_height_def split: option.split)
qed

text \<open>
  The recursion unrolled \<open>k\<close> levels deep over an arbitrary adopter: \<open>g\<close> stands for everything the code
  would do below that depth, further levels or no end at all.
\<close>

fun adopt_over :: "surround \<Rightarrow> adopter \<Rightarrow> nat \<Rightarrow> adopter" where
  "adopt_over E g 0 n b i = g n b i"
| "adopt_over E g (Suc k) n b i = adopt_committed_block E (adopt_over E g k) n b i"

lemma depth_covers:
  assumes H: "hooks_ok (su_hooks E)"
  shows "sound (su_extern E) (nd_gov n) \<Longrightarrow> 2 ^ 64 \<le> k + head_height (nd_gov n) \<Longrightarrow>
    adopt_over E g (k + d) n b i = adopt_committed E k n b i"
proof (induction k arbitrary: n b i)
  case 0
  then show ?case using head_height_bound[of "nd_gov n"] by simp
next
  case (Suc k)
  have "agreeing E (Suc (head_height (nd_gov n))) (adopt_committed E k) (adopt_over E g (k + d))"
    unfolding agreeing_def agree_def stands_from_def
    using Suc adopt_committed_ok[OF H] H by auto
  from adopt_block_agree[OF this Suc.prems(1)] show ?case by simp
qed

lemma depths_agree:
  assumes "hooks_ok (su_hooks E)" "sound (su_extern E) (nd_gov n)" "2 ^ 64 \<le> k + head_height (nd_gov n)"
  shows "adopt_committed E (k + d) n b i = adopt_committed E k n b i"
  using depth_covers[OF assms, of undefined d] depth_covers[OF assms(1,2), of "k + d" undefined 0] assms(3) by simp

end
