(* ===== verification/Sync_Demo.thy ===== *)
theory Sync_Demo
  imports Sync_Converge Gov_Depth Gov_Vote_Props
begin

text \<open>
  Two holders of one genesis whose tips differ: a chat decision with a short payload and one with a
  long payload, whose digest is the smaller one. The properties of the chain replica are
  exercised on them.
\<close>

section \<open>Blocks\<close>

definition twin_extern :: extern where
  "twin_extern = demo_extern\<lparr>sha256 := (\<lambda>b. if length b < 1000 then ''h'' else ''g''),
     json_to_vec := (\<lambda>j. if j = JNull then ''j'' else replicate 1000 (CHR ''x''))\<rparr>"

definition chat_block :: "u64 \<Rightarrow> json \<Rightarrow> chain_block" where
  "chat_block i p = \<lparr>blk_height = 1, blk_prev = ''h'', blk_change = Applied i Chat p, blk_sigs = demo_sigs\<rparr>"

definition chat_head :: "json \<Rightarrow> chain_head" where
  "chat_head p = \<lparr>ch_height = 1, ch_hash = (if p = JNull then ''h'' else ''g''), ch_republic_id = ''h'', ch_rule_m = 1,
     ch_identities = [demo_id]\<rparr>"

lemma twin_fields [simp]:
  "hex_encode twin_extern b = b" "hex_decode twin_extern s = Some s" "vk_from_bytes twin_extern b = True"
  "verify_strict twin_extern pk msg sg = (sg = pk @ pk)"
  "json_to_vec twin_extern j = (if j = JNull then ''j'' else replicate 1000 (CHR ''x''))"
  "content_hash twin_extern b = (if length b < 1000 then ''h'' else ''g'')"
  by (simp_all add: twin_extern_def content_hash_def demo_extern_def)

lemma twin_signers: "valid_signers twin_extern [demo_id] msg demo_sigs = [''a'']"
  by (simp add: valid_signers_def demo_sigs_def demo_id_def member_of_def identity_verify_def flip: replicate_add)

lemma twin_approval:
  "\<exists>b. approval_bytes twin_extern ''h'' 1 (Applied i Chat p) = Some b \<and> (if p = JNull then length b < 500 else 1000 \<le> length b \<and> length b < 2000)"
  by (simp add: approval_bytes_def demo_bytes tagged_def u64_le_def)

lemma twin_approval_genesis:
  "\<exists>b. approval_bytes twin_extern ''h'' 0 (Genesis ''r'' ''h'' 1 1 [demo_id] [] [] None) = Some b \<and> length b < 500"
  by (simp add: approval_bytes_def roster_canonical_bytes_def roster_keyed_def roster_member_fields_def
      demo_id_def demo_bytes tagged_def u8_byte_def Let_def)

lemma twin_link:
  assumes "approval_bytes twin_extern ''h'' h c = Some b" "length b < 2000" "length q < 100"
  shows "\<exists>z. block_link_bytes twin_extern ''h'' \<lparr>blk_height = h, blk_prev = q, blk_change = c, blk_sigs = demo_sigs\<rparr> = Some z \<and>
    length b \<le> length z \<and> length z < length b + 300"
  using assms by (simp add: block_link_bytes_def demo_sigs_def demo_bytes tagged_def u64_le_def)

lemma twin_block_hash: "block_hash twin_extern ''h'' (chat_block i p) = Some (ch_hash (chat_head p))"
proof -
  obtain b where b: "approval_bytes twin_extern ''h'' 1 (Applied i Chat p) = Some b"
    "if p = JNull then length b < 500 else 1000 \<le> length b \<and> length b < 2000" using twin_approval by blast
  have "length b < 2000" using b(2) by (auto split: if_splits)
  from twin_link[OF b(1) this, of "''h''"] obtain z where
    z: "block_link_bytes twin_extern ''h'' (chat_block i p) = Some z" "length b \<le> length z" "length z < length b + 300"
    by (auto simp: chat_block_def)
  have "(length z < 1000) = (p = JNull)" using b(2) z(2,3) by (simp split: if_splits)
  then show ?thesis using z(1) by (simp add: block_hash_def chat_head_def)
qed

lemma twin_genesis_hash: "block_hash twin_extern ''h'' demo_genesis = Some ''h''"
proof -
  obtain b where b: "approval_bytes twin_extern ''h'' 0 (Genesis ''r'' ''h'' 1 1 [demo_id] [] [] None) = Some b" "length b < 500"
    using twin_approval_genesis by blast
  then show ?thesis
    using twin_link[OF b(1), of genesis_prev] by (auto simp: block_hash_def demo_genesis_def genesis_prev_def)
qed

lemma twin_republic: "republic_id twin_extern ''r'' 1 1 [demo_id] = Some ''h''"
  by (simp add: republic_id_def republic_id_preimage_def demo_bytes demo_id_def tagged_def Let_def)

lemma twin_genesis_walk: "genesis_walk twin_extern demo_genesis = Inr (demo_walk 0 [] [] 1)"
proof -
  obtain b where b: "approval_bytes twin_extern ''h'' 0 (Genesis ''r'' ''h'' 1 1 [demo_id] [] [] None) = Some b"
    using twin_approval_genesis by blast
  have "check_roster_keys twin_extern 1 1 [demo_id] None = Inr False" by (simp add: check_roster_keys_def demo_id_def)
  then show ?thesis
    using b twin_genesis_hash by (simp add: genesis_walk_def verify_genesis_def demo_genesis_def reject_if_def refusing_def
        twin_republic twin_signers demo_walk_def demo_head_def demo_state_def
        genesis_base_def checkpoint_v7_surfaces_def ctx_from_founding_def)
qed

lemma twin_next: "verify_next twin_extern (demo_head 0) (chat_block i p) [] = Inr (chat_head p, Some i)"
proof -
  obtain b where b: "approval_bytes twin_extern ''h'' 1 (Applied i Chat p) = Some b" using twin_approval by blast
  show ?thesis
    using b twin_block_hash[of i p]
    by (simp add: verify_next_def demo_head_def reject_if_def check_change_def block_signers_def twin_signers)
      (simp add: chat_block_def chat_head_def twin_signers)
qed

definition twin_walk :: "u64 \<Rightarrow> json \<Rightarrow> chain_walk" where
  "twin_walk i p = projr (step twin_extern held_default (demo_walk 0 [] [] 1) (chat_block i p))"

lemma twin_step:
  "step twin_extern h (demo_walk 0 [] [] 1) (chat_block i p) = Inr (twin_walk i p)" "w_head (twin_walk i p) = chat_head p"
  "w_seen (twin_walk i p) = [i]"
proof -
  obtain r where r: "chain_fold_one twin_extern (demo_state [] []) (chat_block i p) None = Inr r"
    by (simp add: chain_fold_one_def chat_block_def)
  have "step_checks twin_extern (demo_walk 0 [] [] 1) (chat_block i p) hl = Inr (chat_head p, Some i)" for hl
    using twin_next by (simp add: step_checks_def demo_walk_def consent_spends_def chat_block_def refusing_def)
  then have s: "step twin_extern hl (demo_walk 0 [] [] 1) (chat_block i p) =
      Inr (after_step (demo_walk 0 [] [] 1) (chat_block i p) (chat_head p) (Some i) r)" for hl
    using r by (simp add: step_eq demo_walk_def)
  show "step twin_extern h (demo_walk 0 [] [] 1) (chat_block i p) = Inr (twin_walk i p)" "w_head (twin_walk i p) = chat_head p"
    "w_seen (twin_walk i p) = [i]"
    using s by (simp_all add: twin_walk_def) (simp_all add: after_step_def demo_walk_def)
qed

lemma twin_own: "own_walks twin_extern None rid [demo_genesis, chat_block i p] (twin_walk i p)"
  using own_step[OF own_genesis[OF refl twin_genesis_walk] twin_step(1)] by simp

section \<open>Nodes\<close>

definition idle_hooks :: hooks where
  "idle_hooks = \<lparr>hk_vault_stale = (\<lambda>s. s), hk_vault_applied = (\<lambda>_ s. s), hk_wallet_applied = (\<lambda>_ _ s. s),
     hk_org_applied = (\<lambda>s. s), hk_vault_displaced = (\<lambda>_ _ s. s), hk_wallet_commit = (\<lambda>s. s),
     hk_wiki_base_durable = True, hk_vault_base_durable = True, hk_chain_durable = True\<rparr>"

definition twin_surround :: surround where
  "twin_surround = \<lparr>su_extern = twin_extern, su_gates = (\<lambda>_. duo_gates), su_hooks = idle_hooks,
     su_canonical_pk = (\<lambda>_. True), su_blob_fits = (\<lambda>_. True)\<rparr>"

definition twin_gov :: "u64 \<Rightarrow> json \<Rightarrow> gov_state" where
  "twin_gov i p = (duo [])\<lparr>gv_proposals := [],
     gv_replica := Some \<lparr>rp_member = ''a'', rp_roster = [''a''], rp_identities = [demo_id], rp_republic_id = ''h'', rp_rule_m = 1\<rparr>,
     gv_head := Some (chat_head p), gv_blocks := [demo_genesis, chat_block i p], gv_walk := Some (twin_walk i p),
     gv_applied := projected_applied None [demo_genesis, chat_block i p],
     gv_applied_sigs := projected_sigs [demo_genesis, chat_block i p],
     gv_anchors := projected_anchors None [demo_genesis, chat_block i p],
     gv_member_relays := projected_relays None [demo_genesis, chat_block i p]\<rparr>"

definition twin_node :: "u64 \<Rightarrow> json \<Rightarrow> node" where
  "twin_node i p = \<lparr>nd_gov = twin_gov i p, nd_pending_blocks = [], nd_fork_candidates = [], nd_diverged = [],
     nd_peer_heights = [], nd_catchup_from = None, nd_served_blob = None, nd_block_ts = Map.empty, nd_self_cosign = False,
     nd_out = []\<rparr>"

lemma idle_hooks_ok [simp]: "hooks_ok idle_hooks"
  by (simp add: hooks_ok_def idle_hooks_def)

lemma twin_surround_fields [simp]: "su_extern twin_surround = twin_extern" "su_hooks twin_surround = idle_hooks"
  by (simp_all add: twin_surround_def)

lemma twin_gov_fields [simp]:
  "gv_head (twin_gov i p) = Some (chat_head p)" "gv_blocks (twin_gov i p) = [demo_genesis, chat_block i p]"
  "gv_walk (twin_gov i p) = Some (twin_walk i p)" "gv_blob (twin_gov i p) = None" "gov_republic_id (twin_gov i p) = ''h''"
  "nd_gov (twin_node i p) = twin_gov i p"
  by (simp_all add: twin_gov_def duo_def twin_node_def gov_republic_id_def)

lemma twin_sound: "sound twin_extern (twin_gov i p)"
proof -
  have "chain_ok twin_extern (twin_gov i p)"
    by (rule chain_okI[where w = "twin_walk i p"]) (simp_all add: twin_own twin_step cache_ok_def, simp add: chat_head_def)
  moreover have "projected (twin_gov i p)"
    by (simp add: projected_def twin_gov_def duo_def chat_head_def)
  ultimately show ?thesis by (simp add: sound_def seated_def)
qed

lemma twin_inv: "node_inv twin_extern (twin_node i p)"
  using twin_sound by (simp add: node_inv_def) (simp add: calm_def seated_offer_def seated_def no_cuts_def twin_node_def)

section \<open>The tip changes hands\<close>

lemma twin_now [simp]: "gv_now (twin_gov i p) = 100" "gv_proposals (twin_gov i p) = []" "gv_held (twin_gov i p) = held_default"
  "gv_pending_sigs (twin_gov i p) = []" "gv_proposal_changes (twin_gov i p) = []" "gv_legacy (twin_gov i p) = (\<lambda>_. [])"
  "gv_wiki_cache (twin_gov i p) = None" "gv_adoption_pending (twin_gov i p) = False" "gv_own_approvals (twin_gov i p) = []"
  by (simp_all add: twin_gov_def duo_def)

lemma twin_memory [simp]: "projected_applied None [demo_genesis, chat_block j q] Memory = []"
  by (simp add: projected_applied_def applied_change_def demo_genesis_def chat_block_def map_filter_def)

text \<open>Nothing is open: no collected signature, no registered change, only chat cards.\<close>

definition chat_only :: "gov_state \<Rightarrow> bool" where
  "chat_only s \<longleftrightarrow> gv_pending_sigs s = [] \<and> gv_proposal_changes s = [] \<and> gv_adoption_pending s = False \<and>
     (\<forall>e \<in> set (gv_proposals s). pr_surface (snd e) = Chat)"

lemma bt_insert_mem: "e \<in> set (bt_insert k v m) \<Longrightarrow> e = (k, v) \<or> e \<in> set m"
  by (induction k v m rule: bt_insert.induct) (auto split: if_splits)

lemma chat_upd_card:
  assumes "chat_only s" "\<And>p. pr_surface (f p) = pr_surface p"
  shows "chat_only (upd_card i f s)"
proof (cases "bt_get (gv_proposals s) i")
  case (Some r)
  then have "pr_surface r = Chat" using assms(1) map_of_SomeD[OF Some] by (auto simp: chat_only_def)
  then show ?thesis using assms Some by (auto simp: upd_card_def chat_only_def dest!: bt_insert_mem)
qed (use assms(1) in \<open>simp add: upd_card_def\<close>)

lemma chat_forget: "chat_only s \<Longrightarrow> chat_only (forget_vote i s)"
proof -
  assume "chat_only s"
  then have "chat_only (stash_voted i s)" unfolding stash_voted_def Let_def by (rule chat_upd_card) simp
  then show ?thesis by (simp add: forget_vote_def Let_def chat_only_def bt_remove_def)
qed

lemma chat_stamp: "chat_only s \<Longrightarrow> chat_only (stamp_applied_at i at s)"
  by (simp add: stamp_applied_at_def chat_upd_card)

lemma chat_ensure: "chat_only s \<Longrightarrow> chat_only (ensure_applied_record i Chat p s)"
  by (auto simp: ensure_applied_record_def chat_only_def fresh_record_def dest!: bt_insert_mem)

lemma chat_fold: "(\<And>x t. x \<in> set xs \<Longrightarrow> chat_only t \<Longrightarrow> chat_only (f x t)) \<Longrightarrow> chat_only s \<Longrightarrow> chat_only (fold f xs s)"
  by (induction xs arbitrary: s) simp_all

lemma chat_settle:
  assumes "gv_blocks s = [demo_genesis, chat_block j q]" "gv_blob s = None" "chat_only s"
  shows "chat_only (settle_cards_against_chain ts s)"
proof -
  have d: "set (cards_to_materialize s) \<subseteq> {(j, Chat, q)}"
    using assms by (simp add: cards_to_materialize_def decided_entries_def applied_change_def demo_genesis_def chat_block_def map_filter_def)
  have m: "filter (\<lambda>b. is_membership (blk_change b)) (gv_blocks s) = []"
    using assms(1) by (simp add: is_membership_def demo_genesis_def chat_block_def)
  let ?s1 = "fold (\<lambda>(i, sf, p) t. forget_vote i (ensure_applied_record i sf p t)) (cards_to_materialize s) s"
  have 1: "chat_only ?s1" by (rule chat_fold[OF _ assms(3)]) (use d in \<open>auto intro!: chat_forget chat_ensure\<close>)
  have 2: "chat_only (fold (\<lambda>i t. forget_vote i (upd_card i settle_applied t)) is ?s1)" for "is"
    by (rule chat_fold[OF _ 1]) (auto intro!: chat_forget chat_upd_card simp: settle_applied_def)
  show ?thesis
    unfolding settle_cards_against_chain_def m Let_def
    by simp (rule chat_fold[OF _ 2], auto intro!: chat_stamp split: option.split)
qed

lemma refreshed_empty: "refreshed X held [] [] epoch old \<noteq> None"
  by (simp add: refreshed_def fold_wiki_from_base_def Let_def split: prod.split option.split)

lemma chat_refresh:
  assumes "chat_only s" "gv_legacy s Memory = []" "gv_applied s Memory = []"
  shows "\<exists>t. refresh_wiki_cache X s = Some t \<and> chat_only t"
proof -
  obtain cache stamps where r: "refreshed X (held_wiki (gv_held s)) [] [] (gv_epoch s) (gv_wiki_cache s) = Some (cache, stamps)"
    using refreshed_empty by fastforce
  have "chat_only (s\<lparr>gv_wiki_cache := cache\<rparr>)" using assms(1) by (simp add: chat_only_def)
  then have "chat_only (fold (\<lambda>(i, rv). upd_card i (\<lambda>p. p\<lparr>pr_wiki_rev := Some rv\<rparr>)) stamps (s\<lparr>gv_wiki_cache := cache\<rparr>))"
    by (rule chat_fold[rotated]) (auto intro: chat_upd_card)
  then show ?thesis using r assms by (simp add: refresh_wiki_cache_def)
qed

lemma chat_rebuild:
  assumes b: "gv_blocks s = [demo_genesis, chat_block j q]" "gv_blob s = None" "chat_only s"
    and m: "gv_legacy s Memory = []"
  shows "\<exists>t. apply_chain_to_state X idle_hooks ts s = Some t \<and> chat_only t"
proof -
  let ?s1 = "bump_applied_epoch (s\<lparr>gv_applied := projected_applied (gv_blob s) (gv_blocks s), gv_applied_sigs := projected_sigs (gv_blocks s)\<rparr>)"
  let ?s2 = "settle_cards_against_chain ts ?s1"
  have 1: "chat_only ?s1" using b(3) by (simp add: chat_only_def bump_applied_epoch_def)
  have 2: "chat_only ?s2" by (rule chat_settle[OF _ _ 1]) (use b in \<open>simp_all add: bump_applied_epoch_def\<close>)
  have p: "chain_part ?s2 = chain_part ?s1" by simp
  have "gv_legacy ?s2 Memory = []" "gv_applied ?s2 Memory = []"
    using b(1,2) m unfolding chain_part_eqD[OF p] by (simp_all add: bump_applied_epoch_def)
  from chat_refresh[OF 2 this] obtain s3 where s3: "refresh_wiki_cache X ?s2 = Some s3" "chat_only s3" by blast
  let ?s4 = "s3\<lparr>gv_wiki_pending := [], gv_replay_held_at := []\<rparr>"
  have "wiki_candidates s3 = []"
    using s3(2) by (auto simp: wiki_candidates_def is_open_wiki_patch_def chat_only_def filter_empty_conv)
  then have s4: "supersede_stale_wiki X None s3 = Some ?s4" using s3(2) by (simp add: supersede_stale_wiki_def chat_only_def)
  have "chat_only (adopt_head_roster (u\<lparr>gv_anchors := a, gv_member_relays := r\<rparr>))" if "chat_only u" for u a r
    using that by (simp add: chat_only_def adopt_head_roster_def split: option.split)
  moreover have "chat_only ?s4" using s3(2) by (simp add: chat_only_def)
  ultimately show ?thesis
    by (simp add: apply_chain_to_state_def Let_def s3(1) s4 idle_hooks_def)
qed

lemma chat_after:
  assumes "chat_only s" "gv_head s = Some h" "target_of h \<noteq> None"
  shows "\<exists>t. after_block_applied twin_surround adopt (chat_block j q) (n\<lparr>nd_gov := s\<rparr>) = Some (n\<lparr>nd_gov := t\<rparr>) \<and>
    chain_part t = chain_part s"
proof -
  let ?s1 = "settle_card_of j q (ensure_applied_record j Chat q s)"
  let ?s3 = "stash_voted j ?s1"
  let ?s4 = "?s3\<lparr>gv_pending_sigs := bt_remove j (gv_pending_sigs ?s3)\<rparr>"
  let ?t = "stamp_applied_at j (case nd_block_ts n 1 of None \<Rightarrow> 0 | Some at \<Rightarrow> at) ?s4"
  have k: "block_bookkeeping twin_surround (nd_block_ts n) (chat_block j q) s = Some ?t"
    by (simp add: block_bookkeeping_def chat_block_def after_applied_def Let_def)
  have "chat_only ?s1"
    unfolding settle_card_of_def by (rule chat_upd_card[OF chat_ensure[OF assms(1)]]) (simp add: settle_applied_def)
  then have "chat_only ?s3" unfolding stash_voted_def Let_def by (rule chat_upd_card) simp
  then have "chat_only ?s4" by (simp add: chat_only_def bt_remove_def)
  then have t: "chat_only ?t" by (rule chat_stamp)
  have p: "chain_part ?t = chain_part s" by (simp add: settle_card_of_def)
  have h: "gv_head ?t = Some h" unfolding chain_part_eqD[OF p] by (rule assms(2))
  obtain nxt where "target_of h = Some nxt" using assms(3) by blast
  then have "rebase_pending_approvals twin_surround adopt (n\<lparr>nd_gov := ?t\<rparr>) = Some (n\<lparr>nd_gov := ?t\<rparr>)"
    using t h by (simp add: rebase_pending_approvals_def chat_only_def sweep_consented_restores_def Let_def on_gov_def)
  then show ?thesis using k p by (auto simp: after_block_applied_def on_gov_opt_def)
qed

lemma twin_swap:
  assumes n: "nd_gov n = twin_gov i p"
  shows "\<exists>n'. swap_tip twin_surround adopt (chat_block j q) n = Some n' \<and>
     gv_walk (nd_gov n') = Some (twin_walk i p) \<and> gv_blocks (nd_gov n') = [demo_genesis, chat_block j q]"
proof -
  let ?s = "(twin_gov i p)\<lparr>gv_blocks := [demo_genesis, chat_block j q], gv_head := Some (chat_head q), gv_head_moved_at := 100\<rparr>"
  have v: "verify_own twin_extern (twin_gov i p\<lparr>gv_blocks := [demo_genesis, chat_block j q]\<rparr>) [demo_genesis, chat_block j q] =
      Inr (chat_head q)"
    by (simp add: verify_own_def walk_own_def walk_chain_def twin_genesis_walk twin_step flip: One_nat_def)
  obtain t where t: "apply_chain_to_state twin_extern idle_hooks (nd_block_ts n) ?s = Some t" "chat_only t"
    using chat_rebuild[of ?s j q twin_extern "nd_block_ts n"] by (auto simp: chat_only_def)
  let ?t = "forget_wiki_stamps (reopen_card i t)"
  have f: "gv_head t = Some (chat_head q)" "gv_walk t = Some (twin_walk i p)" "gv_blocks t = [demo_genesis, chat_block j q]"
    using apply_chain_facts(1,2,3)[OF idle_hooks_ok t(1)] by simp_all
  have r: "chat_only ?t"
    using t(2) by (auto simp: reopen_card_def upd_card_def forget_wiki_stamps_def chat_only_def bt_remove_def
        dest!: bt_insert_mem map_of_SomeD split: option.split)
  have p: "chain_part ?t = chain_part t" by simp
  have th: "gv_head ?t = Some (chat_head q)" unfolding chain_part_eqD[OF p] by (rule f(1))
  have tgt: "target_of (chat_head q) \<noteq> None" by (simp add: target_of_def chat_head_def)
  obtain u where u: "after_block_applied twin_surround adopt (chat_block j q) (n\<lparr>nd_gov := ?t\<rparr>) =
      Some (n\<lparr>nd_gov := u\<rparr>)" "chain_part u = chain_part ?t"
    using chat_after[OF r th tgt] by blast
  have a: "applied_change (chat_block i p) = Some (i, Chat, p)" by (simp add: applied_change_def chat_block_def)
  have hk: "hk_vault_displaced idle_hooks bs ids x = x" for bs ids x by (simp add: idle_hooks_def)
  have "settle_swap twin_surround adopt (chat_block i p) (chat_block j q) (n\<lparr>nd_gov := ?s\<rparr>) =
      Some (n\<lparr>nd_gov := u\<rparr>)"
    unfolding settle_swap_def on_gov_opt_def Let_def twin_surround_fields a hk by (simp add: t(1) u(1))
  then have "swap_tip twin_surround adopt (chat_block j q) n = Some (n\<lparr>nd_gov := u\<rparr>)"
    by (simp add: swap_tip_def v Let_def n)
  then show ?thesis using chain_part_eqD[OF u(2)] chain_part_eqD[OF p] f by simp
qed

lemma twin_receives:
  assumes n: "nd_gov n = twin_gov i JNull" and q: "q \<noteq> JNull"
  shows "\<exists>n'. receive_block_from twin_surround adopt m (chat_block j q) n = Some n' \<and>
     gv_walk (nd_gov n') = Some (twin_walk i JNull) \<and> gv_blocks (nd_gov n') = [demo_genesis, chat_block j q]"
proof -
  let ?n = "note_peer_height m (blk_height (chat_block j q)) n"
  have "receive_block_from twin_surround adopt m (chat_block j q) n = swap_tip twin_surround adopt (chat_block j q) ?n"
    using contended_tip[of twin_surround n "[demo_genesis]" "chat_block i JNull" "chat_block j q" "twin_walk j q" "chat_head JNull" adopt m]
      twin_sound twin_own n q
    by (simp add: twin_step Let_def) (simp add: chat_head_def target_of_def chat_block_def)
  then show ?thesis using twin_swap[of ?n i JNull] n by simp
qed

section \<open>A node that is behind\<close>

definition twin_start :: gov_state where
  "twin_start = (twin_gov 7 JNull)\<lparr>gv_head := Some (demo_head 0), gv_blocks := [demo_genesis],
     gv_walk := Some (demo_walk 0 [] [] 1), gv_applied := projected_applied None [demo_genesis],
     gv_applied_sigs := projected_sigs [demo_genesis], gv_anchors := projected_anchors None [demo_genesis],
     gv_member_relays := projected_relays None [demo_genesis]\<rparr>"

lemma twin_start_fields [simp]:
  "gv_blocks twin_start = [demo_genesis]" "gv_blob twin_start = None" "gov_republic_id twin_start = ''h''"
  by (simp_all add: twin_start_def) (simp_all add: twin_gov_def gov_republic_id_def duo_def)

lemma twin_start_sound: "sound twin_extern twin_start"
proof -
  have "chain_ok twin_extern twin_start"
    by (rule chain_okI[where w = "demo_walk 0 [] [] 1"])
      (simp_all add: own_genesis twin_genesis_walk cache_ok_def, simp_all add: twin_start_def demo_walk_def demo_head_def)
  moreover have "projected twin_start"
    by (simp add: projected_def twin_start_def twin_gov_def duo_def demo_head_def)
  ultimately show ?thesis by (simp add: sound_def seated_def) (simp add: twin_start_def)
qed

end
