(* ===== verification/Sync_Props.thy ===== *)
theory Sync_Props
  imports Sync_Demo
begin

text \<open>
  The properties of the chain replica: what every run of a node keeps, how two holders come to one
  chain, and what bounds a node's buffers and recursion.
\<close>

section \<open>Every run of a node\<close>

text \<open>C2: The chain a node holds is one it verified. Start from a node whose chain verifies, and let
any admissible sequence of events happen: votes, blocks (next, ahead, contending or of another branch),
served summaries, cut and restore proposals, the ticker. Afterwards the held blocks still lead, block by
block, from the genesis or from the anchor of the held summary to the head the node shows, under this
republic's id, and the projection the node works on is that of the held chain.\<close>

theorem held_chain_verifies:
  assumes "hooks_ok (su_hooks E)" "node_inv (su_extern E) n"
    "admissible_run E (adopt_committed E k) es n" "node_run E (adopt_committed E k) es n = Some n'"
  shows "\<exists>w. own_walks (su_extern E) (gv_blob (nd_gov n')) (gov_republic_id (nd_gov n')) (gv_blocks (nd_gov n')) w \<and>
      gv_head (nd_gov n') = Some (w_head w) \<and> ch_republic_id (w_head w) = gov_republic_id (nd_gov n') \<and>
      projected (nd_gov n') \<and> node_inv (su_extern E) n'"
proof -
  have inv: "node_inv (su_extern E) n'"
    by (rule node_run_inv[OF assms(1-4)])
  then have "sound (su_extern E) (nd_gov n')" by (simp add: node_inv_def)
  then show ?thesis by (rule soundE) (use inv in blast)
qed

theorem held_chain_verifies_witness:
  "\<exists>n'. node_run twin_surround (adopt_committed twin_surround 1) [NTick, NBlock ''b'' 5 (chat_block 8 (JBool True))]
        (twin_node 7 JNull) = Some n' \<and> projected (nd_gov n') \<and> gv_blocks (nd_gov n') = [demo_genesis, chat_block 8 (JBool True)]"
proof -
  let ?ad = "adopt_committed twin_surround 1"
  let ?m = "(twin_node 7 JNull)\<lparr>nd_block_ts := (nd_block_ts (twin_node 7 JNull))(1 \<mapsto> 5)\<rparr>"
  have tick: "drain_held_seals twin_surround ?ad (twin_node 7 JNull) = Some (twin_node 7 JNull)"
    by (simp add: drain_held_seals_def Let_def twin_node_def twin_gov_def duo_def)
  obtain n' where r: "receive_block_from twin_surround ?ad ''b'' (chat_block 8 (JBool True)) ?m = Some n'"
    "gv_blocks (nd_gov n') = [demo_genesis, chat_block 8 (JBool True)]"
    using twin_receives[of ?m 7 "JBool True" ?ad "''b''" 8] by auto
  have b: "blk_height (chat_block 8 (JBool True)) = 1" "\<not> other_republic s (chat_block 8 (JBool True))"
    "cut_kind_of (blk_change (chat_block 8 (JBool True))) = None" for s
    by (simp_all add: chat_block_def other_republic_def)
  have step: "node_step twin_surround ?ad (NBlock ''b'' 5 (chat_block 8 (JBool True))) (twin_node 7 JNull) = Some n'"
    using r b(1) by (simp add: at_door_def ingest_committed_def is_chain_governed_def Let_def) (simp add: twin_node_def)
  have run: "node_run twin_surround ?ad [NTick, NBlock ''b'' 5 (chat_block 8 (JBool True))] (twin_node 7 JNull) = Some n'"
    using tick step by simp
  have adm: "admissible_run twin_surround ?ad [NTick, NBlock ''b'' 5 (chat_block 8 (JBool True))] (twin_node 7 JNull)"
    using tick b by (simp split: option.split)
  from held_chain_verifies[OF _ _ adm run] twin_inv have "projected (nd_gov n')" by auto
  then show ?thesis using run r(2) by blast
qed

text \<open>C7: The projection that grows with every event is the one a rebuild gives. After any admissible run,
rebuilding the state from the summary and the blocks (as a reopened node does) changes neither the
applied entries of any surface, nor the signatures, anchors and relays, nor the head and the chain.\<close>

theorem grown_projection_is_the_rebuild:
  assumes "hooks_ok (su_hooks E)" "node_inv (su_extern E) n"
    "admissible_run E (adopt_committed E k) es n" "node_run E (adopt_committed E k) es n = Some n'"
    "apply_chain_to_state (su_extern E) (su_hooks E) ts (nd_gov n') = Some t"
  shows "gv_applied t = gv_applied (nd_gov n') \<and> gv_applied_sigs t = gv_applied_sigs (nd_gov n') \<and>
    gv_anchors t = gv_anchors (nd_gov n') \<and> gv_member_relays t = gv_member_relays (nd_gov n') \<and>
    gv_head t = gv_head (nd_gov n') \<and> gv_blocks t = gv_blocks (nd_gov n')"
proof -
  have "node_inv (su_extern E) n'"
    by (rule node_run_inv[OF assms(1-4)])
  then have "projected (nd_gov n')" by (simp add: node_inv_def sound_def)
  then show ?thesis using apply_chain_facts[OF assms(1,5)] by (simp add: projected_def)
qed

theorem grown_projection_is_the_rebuild_witness:
  "\<exists>t. apply_chain_to_state twin_extern idle_hooks Map.empty (twin_gov 7 JNull) = Some t \<and>
     gv_applied t = gv_applied (twin_gov 7 JNull) \<and> gv_applied (twin_gov 7 JNull) Chat = [(Some 7, JNull)]"
proof -
  obtain t where t: "apply_chain_to_state twin_extern idle_hooks Map.empty (twin_gov 7 JNull) = Some t"
    using chat_rebuild[of "twin_gov 7 JNull" 7 JNull twin_extern Map.empty] by (auto simp: chat_only_def)
  have "gv_applied (twin_gov 7 JNull) Chat = [(Some 7, JNull)]"
    by (simp add: twin_gov_def projected_applied_def applied_change_def demo_genesis_def chat_block_def map_filter_def)
  then show ?thesis
    using t grown_projection_is_the_rebuild[of twin_surround "twin_node 7 JNull" 0 "[]" "twin_node 7 JNull" Map.empty t] twin_inv
    by simp
qed

section \<open>Two holders\<close>

text \<open>C3: A contended tip ends in one history. Two nodes hold the same verified chain except for the tip,
on which they took different decisions with different digests. When each receives the tip of the other,
both end in the common chain with the block of the smaller digest, and neither holds the other tip: what
each holds is a nonempty hash-linked continuation of that chain (\<open>same_history\<close>: every further block
links the digest of the one before it at the next height; blocks sealed or pruned in the same step may
have moved it on). No cut lies in the common suffix.\<close>

theorem contended_tips_converge:
  assumes "hooks_ok (su_hooks EA)" "hooks_ok (su_hooks EB)" "su_extern EA = X" "su_extern EB = X"
    and "sound X (nd_gov nA)" "sound X (nd_gov nB)"
    and "gv_blob (nd_gov nB) = gv_blob (nd_gov nA)" "gov_republic_id (nd_gov nB) = gov_republic_id (nd_gov nA)"
    and "gv_blocks (nd_gov nA) = pre @ [a]" "gv_blocks (nd_gov nB) = pre @ [b]" "pre \<noteq> []" "no_cuts (tl pre @ [a, b])"
    and "blk_change a \<noteq> blk_change b"
    and "block_hash X (gov_republic_id (nd_gov nA)) a \<noteq> block_hash X (gov_republic_id (nd_gov nA)) b"
    and "receive_block_from EA (adopt_committed EA k) mB b nA = Some nA'"
    and "receive_block_from EB (adopt_committed EB k') mA a nB = Some nB'"
  shows "\<exists>c \<in> {a, b}. same_history X (gov_republic_id (nd_gov nA)) (pre @ [c]) (gv_blocks (nd_gov nA')) \<and>
    same_history X (gov_republic_id (nd_gov nA)) (pre @ [c]) (gv_blocks (nd_gov nB')) \<and>
    {a, b} \<inter> (set (gv_blocks (nd_gov nA')) \<union> set (gv_blocks (nd_gov nB'))) \<subseteq> {c} \<and>
    (\<forall>d \<in> {a, b}. the (block_hash X (gov_republic_id (nd_gov nA)) c) \<le> the (block_hash X (gov_republic_id (nd_gov nA)) d))"
proof -
  let ?rid = "gov_republic_id (nd_gov nA)" and ?blob = "gv_blob (nd_gov nA)"
  obtain u where u: "own_walks X ?blob ?rid (pre @ [a]) u" "gv_head (nd_gov nA) = Some (w_head u)"
    using assms(5) by (rule soundE) (simp add: assms(9))
  obtain v where v: "own_walks X ?blob ?rid (pre @ [b]) v" "gv_head (nd_gov nB) = Some (w_head v)"
    using assms(6) by (rule soundE) (simp add: assms(7,8,10))
  have hash: "block_hash X ?rid a = Some (ch_hash (w_head u))" "block_hash X ?rid b = Some (ch_hash (w_head v))"
    using own_hash(1)[OF assms(5) u(2)] own_hash(1)[OF assms(6) v(2)] by (simp_all add: assms(8-10))
  have A: "same_history X ?rid (pre @ [if ch_hash (w_head v) < ch_hash (w_head u) then b else a]) (gv_blocks (nd_gov nA'))"
    unfolding assms(3)[symmetric]
    by (rule settles_tip(1)[OF assms(1) _ assms(9,11) _ assms(13) u(2) _ assms(15)]) (use assms v in simp_all)
  have B: "same_history X ?rid (pre @ [if ch_hash (w_head u) < ch_hash (w_head v) then a else b]) (gv_blocks (nd_gov nB'))"
    unfolding assms(4)[symmetric] assms(8)[symmetric]
    by (rule settles_tip(1)[OF assms(2) _ assms(10,11) _ assms(13)[symmetric] v(2) _ assms(16)]) (use assms u in simp_all)
  have top: "blk_height b = blk_height a"
    by (rule contender_facts(1)[OF assms(5,9,11)]) (use v in simp)
  have one: "{a, b} \<inter> set B \<subseteq> {c}" if "same_history X ?rid (pre @ [c]) B" "c \<in> {a, b}" for B c
    using same_history_no_rival[OF that(1), of c] that(2) top by fastforce
  show ?thesis
  proof (cases "ch_hash (w_head v) < ch_hash (w_head u)")
    case True
    then have "\<not> ch_hash (w_head u) < ch_hash (w_head v)" by (rule less_not_sym)
    then show ?thesis using A B hash True one[of b] by (intro bexI[of _ b]) (auto simp: Int_Un_distrib)
  next
    case False
    then have "ch_hash (w_head u) < ch_hash (w_head v)" using assms(14) hash by (metis linorder_neqE_linordered_idom linorder_less_linear)
    then show ?thesis using A B hash False one[of a] by (intro bexI[of _ a]) (auto simp: Int_Un_distrib)
  qed
qed

theorem contended_tips_converge_witness:
  "\<exists>nA' nB'. receive_block_from twin_surround (adopt_committed twin_surround 1) ''b'' (chat_block 8 (JBool True)) (twin_node 7 JNull) = Some nA' \<and>
     receive_block_from twin_surround (adopt_committed twin_surround 1) ''a'' (chat_block 7 JNull) (twin_node 8 (JBool True)) = Some nB' \<and>
     (\<exists>c \<in> {chat_block 7 JNull, chat_block 8 (JBool True)}.
        same_history twin_extern ''h'' ([demo_genesis] @ [c]) (gv_blocks (nd_gov nA')) \<and>
        same_history twin_extern ''h'' ([demo_genesis] @ [c]) (gv_blocks (nd_gov nB')) \<and>
        {chat_block 7 JNull, chat_block 8 (JBool True)} \<inter>
          (set (gv_blocks (nd_gov nA')) \<union> set (gv_blocks (nd_gov nB'))) \<subseteq> {c})"
proof -
  let ?ad = "adopt_committed twin_surround 1"
  obtain nA' where A: "receive_block_from twin_surround ?ad ''b'' (chat_block 8 (JBool True)) (twin_node 7 JNull) = Some nA'"
    using twin_receives[of "twin_node 7 JNull" 7 "JBool True" ?ad "''b''" 8] by auto
  obtain nB' where B: "receive_block_from twin_surround ?ad ''a'' (chat_block 7 JNull) (twin_node 8 (JBool True)) = Some nB'"
    using contended_tip[of twin_surround "twin_node 8 (JBool True)" "[demo_genesis]" "chat_block 8 (JBool True)" "chat_block 7 JNull"
        "twin_walk 7 JNull" "chat_head (JBool True)" ?ad "''a''"] twin_sound twin_own
    by (simp add: twin_step Let_def) (simp add: chat_head_def target_of_def chat_block_def)
  have h: "block_hash twin_extern ''h'' (chat_block 7 JNull) \<noteq> block_hash twin_extern ''h'' (chat_block 8 (JBool True))"
    by (simp add: twin_block_hash chat_head_def)
  have c: "no_cuts (tl [demo_genesis] @ [chat_block 7 JNull, chat_block 8 (JBool True)])"
    "blk_change (chat_block 7 JNull) \<noteq> blk_change (chat_block 8 (JBool True))" by (simp_all add: chat_block_def)
  show ?thesis
    using contended_tips_converge[OF _ _ _ _ _ _ _ _ _ _ _ c _ A B, of twin_extern] twin_sound h A B by auto
qed

text \<open>C4: Catching up gives exactly what is missing, and it completes. A node that is behind sends the samples
of its chain; a holder whose chain continues the requester's serves one \<open>Committed\<close> block per missing
height, in order and nothing else, whatever height the request named. Appending what was served, block by
block, succeeds on the requester and ends in the server's chain and head.\<close>

theorem catch_up_completes:
  assumes "sound X r" "sound X (nd_gov n)" "gov_republic_id (nd_gov n) = gov_republic_id r" "gv_blob (nd_gov n) = gv_blob r"
    and "gv_blocks (nd_gov n) = gv_blocks r @ ext" "ext \<noteq> []" "no_cuts (tl (gv_blocks (nd_gov n)))"
    and "known_heads X r = Some known"
  shows "nd_out (serve_chain_from E (serve_from_for X (nd_gov n) from_height known) n) = nd_out n @ map EvCommitted ext \<and>
    (\<exists>t. ofold (\<lambda>b u. map_option fst (append_committed_block X u b)) ext r = Some t \<and>
       gv_blocks t = gv_blocks (nd_gov n) \<and> gv_head t = gv_head (nd_gov n) \<and> sound X t)"
proof -
  obtain h where h: "gv_head r = Some h" using assms(1) by (auto simp: sound_def)
  obtain w where w: "own_walks X (gv_blob r) (gov_republic_id r) (gv_blocks r @ ext) w" "gv_head (nd_gov n) = Some (w_head w)"
    using assms(2) by (rule soundE) (simp add: assms(3-5))
  note m = missing_suffix[OF assms(1) h assms(2,5,6)]
  have "serve_from_for X (nd_gov n) from_height known = u64_sat_add (ch_height h) 1"
    by (rule serve_from_head[OF assms(1) h assms(8,5,3)])
  then have "nd_out (serve_chain_from E (serve_from_for X (nd_gov n) from_height known) n) = nd_out n @ map EvCommitted ext"
    using serve_records[OF m(1) assms(6) m(2)] by simp
  moreover from replay_extends[OF assms(1) w(1) _ h] obtain t where
    "ofold (\<lambda>b u. map_option fst (append_committed_block X u b)) ext r = Some t"
    "gv_blocks t = gv_blocks r @ ext" "gv_head t = Some (w_head w)" "sound X t" using assms(5,7) by auto
  ultimately show ?thesis using assms(5) w(2) by auto
qed

theorem catch_up_completes_witness:
  "nd_out (serve_chain_from twin_surround (serve_from_for twin_extern (twin_gov 7 JNull) 0 [(0, ''h'')]) (twin_node 7 JNull)) =
     [EvCommitted (chat_block 7 JNull)] \<and>
   (\<exists>t. append_committed_block twin_extern twin_start (chat_block 7 JNull) = Some (t, True) \<and> gv_head t = Some (chat_head JNull))"
proof -
  have known: "known_heads twin_extern twin_start = Some [(0, ''h'')]"
    using twin_genesis_hash
    by (simp add: known_heads_def KNOWN_HEADS_MAX_def numeral_eq_Suc Let_def block_at_def) (simp add: demo_genesis_def)
  have c: "no_cuts (tl (gv_blocks (nd_gov (twin_node 7 JNull))))" by (simp add: chat_block_def)
  from catch_up_completes[OF twin_start_sound _ _ _ _ _ c known, of "[chat_block 7 JNull]" twin_surround 0] twin_sound
  have r: "nd_out (serve_chain_from twin_surround (serve_from_for twin_extern (twin_gov 7 JNull) 0 [(0, ''h'')]) (twin_node 7 JNull)) =
     nd_out (twin_node 7 JNull) @ [EvCommitted (chat_block 7 JNull)]"
    "\<exists>t. ofold (\<lambda>b u. map_option fst (append_committed_block twin_extern u b)) [chat_block 7 JNull] twin_start = Some t \<and>
       gv_blocks t = [demo_genesis, chat_block 7 JNull] \<and> gv_head t = Some (chat_head JNull)"
    by auto
  obtain t ok where t: "append_committed_block twin_extern twin_start (chat_block 7 JNull) = Some (t, ok)"
    "gv_blocks t = [demo_genesis, chat_block 7 JNull]" "gv_head t = Some (chat_head JNull)"
    using r(2) by (auto simp: bind_eq_Some_conv)
  have ok using t(2) append_refused_part(1)[of twin_extern twin_start "chat_block 7 JNull" t] t(1) by (cases ok) simp_all
  then show ?thesis using r(1) t by (auto simp: twin_node_def)
qed

section \<open>Bounds\<close>

text \<open>C29: No peer can make a node hoard blocks. Whatever blocks, summaries, votes and proposals arrive, in
whatever order and however they are forged, the buffer of blocks ahead of the head and the store of
blocks of other branches never hold more than 4096 blocks each.\<close>

theorem buffers_stay_bounded:
  assumes "hooks_ok (su_hooks E)" "quiet_votes es"
    "length (nd_pending_blocks n) \<le> CATCHUP_BUFFER_WINDOW" "length (nd_fork_candidates n) \<le> CATCHUP_BUFFER_WINDOW"
    "node_run E (adopt_committed E k) es n = Some n'"
  shows "length (nd_pending_blocks n') \<le> CATCHUP_BUFFER_WINDOW \<and> length (nd_fork_candidates n') \<le> CATCHUP_BUFFER_WINDOW"
  using node_run_small[OF assms(1,2) _ assms(5)] assms(3,4) by (simp add: small_def)

theorem buffers_stay_bounded_witness:
  "\<exists>n'. node_run twin_surround (adopt_committed twin_surround 1) [NBlock ''b'' 5 (chat_block 8 (JBool True))] (twin_node 7 JNull) = Some n' \<and>
     length (nd_pending_blocks n') \<le> CATCHUP_BUFFER_WINDOW"
proof -
  let ?ad = "adopt_committed twin_surround 1"
  let ?m = "(twin_node 7 JNull)\<lparr>nd_block_ts := (nd_block_ts (twin_node 7 JNull))(1 \<mapsto> 5)\<rparr>"
  obtain n' where r: "receive_block_from twin_surround ?ad ''b'' (chat_block 8 (JBool True)) ?m = Some n'"
    using twin_receives[of ?m 7 "JBool True" ?ad "''b''" 8] by auto
  have "blk_height (chat_block 8 (JBool True)) = 1" by (simp add: chat_block_def)
  then have run: "node_run twin_surround ?ad [NBlock ''b'' 5 (chat_block 8 (JBool True))] (twin_node 7 JNull) = Some n'"
    using r by (simp add: at_door_def ingest_committed_def is_chain_governed_def Let_def) (simp add: twin_node_def)
  have "length (nd_pending_blocks n') \<le> CATCHUP_BUFFER_WINDOW"
    using buffers_stay_bounded[OF _ _ _ _ run] by (simp add: quiet_votes_def) (simp add: twin_node_def)
  then show ?thesis using run by blast
qed

text \<open>C8: The recursion of an adoption ends. An adopted block re-signs the standing approvals, which may seal
and adopt the next block, and so on. Every level raises the head, so the levels that cover the heights
left in 64 bits are never used up: unroll the recursion of the code \<open>k\<close> times over any adopter \<open>g\<close> at all (one
that answers anything, or nothing), and \<open>g\<close> is never consulted; the answer is that of \<open>adopt_committed\<close> with
any covering depth. So the recursion ends within these levels, and an answer \<open>None\<close> is an abort of the
code, never the bound.\<close>

theorem adoption_depth_is_never_reached:
  assumes "hooks_ok (su_hooks E)" "sound (su_extern E) (nd_gov n)"
    "2 ^ 64 \<le> k + head_height (nd_gov n)" "2 ^ 64 \<le> k' + head_height (nd_gov n)"
  shows "adopt_over E g k n b i = adopt_committed E k' n b i"
proof (cases "k' \<le> k")
  case True
  then show ?thesis using depth_covers[OF assms(1,2,4), of g "k - k'"] by simp
next
  case False
  then show ?thesis
    using depth_covers[OF assms(1-3), of g 0] depths_agree[OF assms(1-3), of "k' - k"] by simp
qed

theorem adoption_depth_is_never_reached_witness:
  "adopt_over twin_surround (\<lambda>n _ _. Some n) (2 ^ 64) (twin_node 7 JNull) (chat_block 9 JNull) 9 =
   adopt_committed twin_surround (2 ^ 65) (twin_node 7 JNull) (chat_block 9 JNull) 9"
  using adoption_depth_is_never_reached[of twin_surround "twin_node 7 JNull" "2 ^ 64" "2 ^ 65"] twin_sound
  by (simp del: adopt_committed.simps adopt_over.simps)

section \<open>The displaced proposal\<close>

text \<open>A decision that loses the tip cannot come back. A node holds proposal 7 as its tip and receives the
smaller contender that decides proposal 8. It takes the contender, and its chain no longer applies
proposal 7; but the cached walk of the old chain stays, so whatever card of proposal 7 a peer re-serves is
refused as already consumed.\<close>

lemma displaced_proposal_stays_refused:
  "\<exists>n'. receive_block_from twin_surround (adopt_committed twin_surround 1) ''b'' (chat_block 8 (JBool True)) (twin_node 7 JNull) = Some n' \<and>
     map fst (List.map_filter applied_change (gv_blocks (nd_gov n'))) = [8] \<and>
     (\<forall>g sf payload m. \<exists>t. receive_proposed twin_extern g (nd_gov n') 7 sf payload m = Some (t, False) \<and>
        gv_proposals t = gv_proposals (nd_gov n'))"
proof -
  obtain n' where r: "receive_block_from twin_surround (adopt_committed twin_surround 1) ''b'' (chat_block 8 (JBool True)) (twin_node 7 JNull) = Some n'"
    "gv_walk (nd_gov n') = Some (twin_walk 7 JNull)" "gv_blocks (nd_gov n') = [demo_genesis, chat_block 8 (JBool True)]"
    using twin_receives[of "twin_node 7 JNull" 7 "JBool True" _ "''b''" 8] by auto
  have ids: "map fst (List.map_filter applied_change (gv_blocks (nd_gov n'))) = [8]"
    by (simp add: r(3) applied_change_def demo_genesis_def chat_block_def map_filter_def)
  have "gov_seen (bump_next_id 7 (nd_gov n')) = [7]" "gv_proposals (bump_next_id 7 (nd_gov n')) = gv_proposals (nd_gov n')"
    using r(2) by (simp_all add: gov_seen_def bump_next_id_def twin_step)
  then have no: "\<exists>t. receive_proposed twin_extern g (nd_gov n') 7 sf payload m = Some (t, False) \<and> gv_proposals t = gv_proposals (nd_gov n')"
    for g sf payload m by (simp add: receive_proposed_def Let_def)
  show ?thesis by (intro exI[of _ n'] conjI allI) (fact r(1), fact ids, rule no)
qed

end
