(* ===== verification/Wiki_Patch.thy ===== *)
theory Wiki_Patch
  imports Wiki_Fold
begin

text \<open>
  The emitter of wiki patches (\<open>molt-core/src/wiki_patch.rs\<close>): the net changeset between two trees, its
  text as one patch in git format, and the counts a proposal card shows.

  The line diff comes from the package \<open>similar\<close>: a \<open>differ\<close> answers the operations between two texts
  and the printed unified diff for a context radius and a pair of names. The operations keep
  the lengths the code reads.
\<close>

section \<open>The line diff\<close>

datatype diff_op = OpEqual nat | OpInsert nat | OpDelete nat | OpReplace nat nat

record differ =
  df_ops :: "string \<Rightarrow> string \<Rightarrow> diff_op list"
  df_unified :: "string \<Rightarrow> string \<Rightarrow> nat \<Rightarrow> string \<Rightarrow> string \<Rightarrow> string"

fun touched_by :: "diff_op \<Rightarrow> nat" where
  "touched_by (OpInsert new_len) = new_len"
| "touched_by (OpDelete old_len) = old_len"
| "touched_by (OpReplace old_len new_len) = max old_len new_len"
| "touched_by (OpEqual n) = 0"

definition touched_lines :: "differ \<Rightarrow> string \<Rightarrow> string \<Rightarrow> nat" where
  "touched_lines D old new = sum_list (map touched_by (df_ops D old new))"

definition unified :: "differ \<Rightarrow> string \<Rightarrow> string \<Rightarrow> string \<Rightarrow> string \<Rightarrow> string" where
  "unified D old new a b = df_unified D old new 3 a b"

section \<open>The net changeset\<close>

datatype file_change =
    ChAdded string string
  | ChDeleted string string
  | ChEdited string string string string

fun change_key :: "file_change \<Rightarrow> string" where
  "change_key (ChAdded path content) = path"
| "change_key (ChDeleted path content) = path"
| "change_key (ChEdited old_path new_path before content) = new_path"

definition consumed_paths :: "wiki_tree \<Rightarrow> wiki_tree \<Rightarrow> wiki_tree \<Rightarrow> string list" where
  "consumed_paths base after renames =
     bset_of_list (map snd (filter (\<lambda>(n, old). bt_contains after n \<and> bt_contains base old) renames))"

definition after_change :: "wiki_tree \<Rightarrow> wiki_tree \<Rightarrow> string list \<Rightarrow> string \<times> string \<Rightarrow> file_change option" where
  "after_change base renames consumed e =
     (case e of (path, content) \<Rightarrow>
        case Option.bind (bt_get renames path) (\<lambda>old. map_option (Pair old) (bt_get base old)) of
          Some (old_path, before) \<Rightarrow>
            if old_path \<noteq> path \<or> before \<noteq> content then Some (ChEdited old_path path before content) else None
        | None \<Rightarrow>
            (case bt_get base path of
               Some before \<Rightarrow>
                 if path \<in> set consumed then Some (ChAdded path content)
                 else if before \<noteq> content then Some (ChEdited path path before content) else None
             | None \<Rightarrow> Some (ChAdded path content)))"

definition base_change :: "wiki_tree \<Rightarrow> string list \<Rightarrow> string \<times> string \<Rightarrow> file_change option" where
  "base_change after consumed e =
     (case e of (path, content) \<Rightarrow>
        if bt_contains after path \<or> path \<in> set consumed then None else Some (ChDeleted path content))"

definition changes :: "wiki_tree \<Rightarrow> wiki_tree \<Rightarrow> wiki_tree \<Rightarrow> file_change list" where
  "changes base after renames =
     (let consumed = consumed_paths base after renames in
      sort_key change_key
        (List.map_filter (after_change base renames consumed) after @ List.map_filter (base_change after consumed) base))"

section \<open>The patch\<close>

fun emit_change :: "differ \<Rightarrow> file_change \<Rightarrow> string" where
  "emit_change D (ChAdded path content) =
     ''diff --git a/'' @ path @ '' b/'' @ path @ [nl] @ ''new file mode 100644'' @ [nl]
     @ unified D [] content ''/dev/null'' (''b/'' @ path)"
| "emit_change D (ChDeleted path content) =
     ''diff --git a/'' @ path @ '' b/'' @ path @ [nl] @ ''deleted file mode 100644'' @ [nl]
     @ unified D content [] (''a/'' @ path) ''/dev/null''"
| "emit_change D (ChEdited old_path new_path before content) =
     ''diff --git a/'' @ old_path @ '' b/'' @ new_path @ [nl]
     @ (if old_path \<noteq> new_path
        then (if before = content then ''similarity index 100%'' @ [nl] else [])
             @ ''rename from '' @ old_path @ [nl] @ ''rename to '' @ new_path @ [nl]
        else [])
     @ (if before \<noteq> content then unified D before content (''a/'' @ old_path) (''b/'' @ new_path) else [])"

definition build_patch :: "differ \<Rightarrow> wiki_tree \<Rightarrow> wiki_tree \<Rightarrow> wiki_tree \<Rightarrow> string option" where
  "build_patch D base after renames =
     (let cs = changes base after renames in
      if cs = [] then None else Some (concat (map (emit_change D) cs)))"

section \<open>Counts\<close>

record patch_counts =
  pc_added :: nat
  pc_deleted :: nat
  pc_moved :: nat
  pc_lines :: nat

definition patch_counts_default :: patch_counts where
  "patch_counts_default = \<lparr>pc_added = 0, pc_deleted = 0, pc_moved = 0, pc_lines = 0\<rparr>"

fun count_change :: "differ \<Rightarrow> file_change \<Rightarrow> patch_counts \<Rightarrow> patch_counts" where
  "count_change D (ChAdded path content) c = c\<lparr>pc_added := pc_added c + 1\<rparr>"
| "count_change D (ChDeleted path content) c = c\<lparr>pc_deleted := pc_deleted c + 1\<rparr>"
| "count_change D (ChEdited old_path new_path before content) c =
     (let c1 = (if old_path \<noteq> new_path then c\<lparr>pc_moved := pc_moved c + 1\<rparr> else c) in
      if before \<noteq> content then c1\<lparr>pc_lines := pc_lines c1 + touched_lines D before content\<rparr> else c1)"

definition count_changes :: "differ \<Rightarrow> wiki_tree \<Rightarrow> wiki_tree \<Rightarrow> wiki_tree \<Rightarrow> patch_counts" where
  "count_changes D base after renames = fold (count_change D) (changes base after renames) patch_counts_default"

text \<open>The sign of a move is U+2192, three bytes in UTF-8.\<close>

definition summary :: "patch_counts \<Rightarrow> string" where
  "summary c =
     fold (\<lambda>(n, sign) out. if n > 0 then (if out \<noteq> [] then out @ '' '' else out) @ sign @ show_nat n else out)
       [(pc_added c, ''+''), (pc_deleted c, ''-''), (pc_moved c, [CHR 0xE2, CHR 0x86, CHR 0x92]), (pc_lines c, ''~'')] []"

end
