(* ===== verification/Wiki_Patch_Laws.thy ===== *)
theory Wiki_Patch_Laws
  imports Wiki_Patch Wiki_Laws
begin

text \<open>
  The emitter against the strict applier: what \<open>build_patch\<close> writes, \<open>parse_patch\<close> reads back as the same
  changes, and \<open>apply_patch\<close> turns the one tree into the other.
\<close>

section \<open>Lines\<close>

definition plain :: "string \<Rightarrow> bool" where
  "plain s \<longleftrightarrow> nl \<notin> set s \<and> cr \<notin> set s"

definition unlines :: "string list \<Rightarrow> string" where
  "unlines ls = concat (map (\<lambda>l. l @ [nl]) ls)"

lemma unlines_simps [simp]:
  "unlines [] = []" "unlines (l # ls) = l @ nl # unlines ls" "unlines (ls @ ms) = unlines ls @ unlines ms"
  by (simp_all add: unlines_def)

lemma plain_simps [simp]: "plain []" "plain (c # s) \<longleftrightarrow> c \<noteq> nl \<and> c \<noteq> cr \<and> plain s" "plain (s @ t) \<longleftrightarrow> plain s \<and> plain t"
  by (auto simp: plain_def)

lemma split_inclusive_line: "nl \<notin> set l \<Longrightarrow> split_inclusive_nl (l @ nl # s) = (l @ [nl]) # split_inclusive_nl s"
  by (induction l) auto

lemma str_lines_unlines: "list_all plain ls \<Longrightarrow> str_lines (unlines ls) = ls"
  by (induction ls) (auto simp: str_lines_def split_inclusive_line plain_def strip_line_end_def Let_def dest: last_in_set)

section \<open>The printed hunk\<close>

text \<open>
  The unified format: a range is its start and, unless it is 1, its length; every line is its sign
  and its text; a line without a line feed is followed by a note. The range of the new side, which
  no reader here uses, may be anything on one line.
\<close>

definition range_text :: "nat \<Rightarrow> nat \<Rightarrow> string" where
  "range_text start len = (if len = 1 then show_nat start else show_nat start @ '','' @ show_nat len)"

definition no_newline_note :: string where
  "no_newline_note = CHR 0x5C # '' No newline at end of file''"

definition lines_of :: "hunk_line \<Rightarrow> string list" where
  "lines_of l = (hl_op l # hl_text l) # (if hl_newline l then [] else [no_newline_note])"

definition hunk_text :: "hunk \<times> string \<Rightarrow> string list" where
  "hunk_text e =
     (case e of (h, new_range) \<Rightarrow>
        (''@@ -'' @ range_text (h_old_start h) (h_old_count h) @ '' +'' @ new_range @ '' @@'')
        # concat (map lines_of (h_lines h)))"

text \<open>
  What is relied on of the line diff, for texts without carriage returns: equal texts have an empty
  diff; otherwise the printed diff is the two names and hunks that turn the old lines into the new
  ones. A printed line has no line feed inside.
\<close>

definition is_unified_diff :: "string \<Rightarrow> string \<Rightarrow> string \<Rightarrow> string \<Rightarrow> string \<Rightarrow> bool" where
  "is_unified_diff old new a b text \<longleftrightarrow>
     (if old = new then text = []
      else \<exists>es. text = unlines ((''--- '' @ a) # (''+++ '' @ b) # concat (map hunk_text es)) \<and>
             spliced 0 (to_elements old) (map fst es) (to_elements new) \<and>
             (\<forall>(h, new_range) \<in> set es. plain new_range \<and> (\<forall>l \<in> set (h_lines h). nl \<notin> set (hl_text l))))"

definition differ_ok :: "differ \<Rightarrow> bool" where
  "differ_ok D \<longleftrightarrow>
     (\<forall>old new radius a b. cr \<notin> set old \<longrightarrow> cr \<notin> set new \<longrightarrow> is_unified_diff old new a b (df_unified D old new radius a b))"

lemma show_nat_chars: "c \<in> set (show_nat n) \<Longrightarrow> is_digit c"
  using show_nat_digits[of n] by (simp add: list_all_iff)

lemma show_nat_free [simp]:
  "CHR '' '' \<notin> set (show_nat n)" "CHR '','' \<notin> set (show_nat n)" "plain (show_nat n)"
  using show_nat_chars[of "CHR '' ''" n] show_nat_chars[of "CHR '',''" n] show_nat_chars[of nl n] show_nat_chars[of cr n]
  by (auto simp: is_digit_def plain_def)

lemma hd_split_on: "c \<notin> set a \<Longrightarrow> hd (split_on c (a @ c # b)) = a"
  by (induction a) (auto split: list.splits)

lemma split_once_free: "c \<notin> set s \<Longrightarrow> split_once c s = None"
  by (cases "split_once c s") (auto simp: split_once_Some)

lemma split_once_at: "c \<notin> set a \<Longrightarrow> split_once c (a @ c # b) = Some (a, b)"
  by (simp add: split_once_Some)

lemma parse_range:
  assumes "start < 2 ^ 64" "len < 2 ^ 64"
  shows "parse_hunk_old (CHR ''-'' # range_text start len @ CHR '' '' # rest) = (start, len)"
proof -
  have "hd (split_on (CHR '' '') ((CHR ''-'' # range_text start len) @ CHR '' '' # rest)) = CHR ''-'' # range_text start len"
    by (rule hd_split_on) (simp add: range_text_def)
  moreover have "strip_prefix ''-'' (CHR ''-'' # s) = Some s" for s by (simp add: strip_prefix_Some)
  ultimately show ?thesis
    using assms by (simp add: parse_hunk_old_def range_text_def opt_parse_def parse_show_u64 split_once_free split_once_at)
qed

section \<open>Reading a file section\<close>

abbreviation body_line :: "patch_file \<Rightarrow> string \<Rightarrow> patch_file" where
  "body_line f line \<equiv> parse_in_file line f"

abbreviation add_hunk :: "hunk \<Rightarrow> patch_file \<Rightarrow> patch_file" where
  "add_hunk h f \<equiv> f\<lparr>pf_hunks := pf_hunks f @ [h]\<rparr>"

lemma upd_last_snoc [simp]: "upd_last g (xs @ [x]) = xs @ [g x]"
  by (simp add: upd_last_def)

lemma parse_body:
  assumes "list_all (\<lambda>l. strip_prefix ''diff --git a/'' l = None) ls"
  shows "foldl parse_line (files @ [f]) ls = files @ [foldl body_line f ls]"
  using assms by (induction ls arbitrary: f) (simp_all add: parse_line_def)

lemma prefix_free [simp]:
  "p \<noteq> [] \<Longrightarrow> hd p \<noteq> c \<Longrightarrow> strip_prefix p (c # s) = None" "p \<noteq> [] \<Longrightarrow> hd p \<noteq> c \<Longrightarrow> \<not> starts_with p (c # s)"
  by (cases p; simp add: strip_prefix_def starts_with_def)+

lemma note_line:
  "body_line f no_newline_note = mark_unterminated f" "strip_prefix ''diff --git a/'' no_newline_note = None"
  by (simp_all add: no_newline_note_def parse_in_file_def) (simp add: starts_with_def)

lemma sign_line:
  assumes "hl_op l \<in> {CHR '' '', CHR ''-'', CHR ''+''}"
  shows "foldl body_line (add_hunk h f) (lines_of l) = add_hunk (h\<lparr>h_lines := h_lines h @ [l]\<rparr>) f"
    "list_all (\<lambda>l. strip_prefix ''diff --git a/'' l = None) (lines_of l)"
proof -
  have push: "body_line (add_hunk h f) (hl_op l # hl_text l) =
      add_hunk (h\<lparr>h_lines := h_lines h @ [\<lparr>hl_op = hl_op l, hl_text = hl_text l, hl_newline = True\<rparr>]\<rparr>) f"
    using assms by (auto simp: parse_in_file_def push_line_def)
  have "l = \<lparr>hl_op = hl_op l, hl_text = hl_text l, hl_newline = hl_newline l\<rparr>" by simp
  then show "foldl body_line (add_hunk h f) (lines_of l) = add_hunk (h\<lparr>h_lines := h_lines h @ [l]\<rparr>) f"
    using push by (cases "hl_newline l") (simp_all add: lines_of_def note_line mark_unterminated_def)
  show "list_all (\<lambda>l. strip_prefix ''diff --git a/'' l = None) (lines_of l)"
    using assms by (auto simp: lines_of_def note_line)
qed

lemma sign_lines:
  assumes "\<forall>l \<in> set ls. hl_op l \<in> {CHR '' '', CHR ''-'', CHR ''+''}"
  shows "foldl body_line (add_hunk h f) (concat (map lines_of ls)) = add_hunk (h\<lparr>h_lines := h_lines h @ ls\<rparr>) f"
    "list_all (\<lambda>l. strip_prefix ''diff --git a/'' l = None) (concat (map lines_of ls))"
  using assms
proof (induction ls arbitrary: h)
  case (Cons l ls)
  { case 1 then show ?case using Cons.IH(1) sign_line(1)[where l = l and h = h and f = f] by simp }
  { case 2 then show ?case using Cons.IH(2) sign_line(2)[of l] by simp }
qed simp_all

lemma read_hunk:
  assumes "ops_ok h" "h_old_start h < 2 ^ 64" "h_old_count h < 2 ^ 64"
  shows "foldl body_line f (hunk_text (h, r)) = add_hunk h f"
    "list_all (\<lambda>l. strip_prefix ''diff --git a/'' l = None) (hunk_text (h, r))"
proof -
  have h: "h = \<lparr>h_old_start = h_old_start h, h_old_count = h_old_count h, h_lines = h_lines h\<rparr>" by simp
  have head: "strip_prefix ''@@ '' (''@@ -'' @ s) = Some (CHR ''-'' # s)" for s by (simp add: strip_prefix_Some)
  have "body_line f (''@@ -'' @ range_text (h_old_start h) (h_old_count h) @ '' +'' @ r @ '' @@'') =
      add_hunk \<lparr>h_old_start = h_old_start h, h_old_count = h_old_count h, h_lines = []\<rparr> f"
    using head parse_range[OF assms(2,3), of "''+'' @ r @ '' @@''"] by (simp add: parse_in_file_def)
  then show "foldl body_line f (hunk_text (h, r)) = add_hunk h f"
    using sign_lines(1)[of "h_lines h"] assms(1) h by (simp add: hunk_text_def ops_ok_def)
  show "list_all (\<lambda>l. strip_prefix ''diff --git a/'' l = None) (hunk_text (h, r))"
    using sign_lines(2)[of "h_lines h"] assms(1) by (simp add: hunk_text_def ops_ok_def)
qed

lemma read_hunks:
  assumes "\<forall>h \<in> set (map fst es). ops_ok h \<and> h_old_start h < 2 ^ 64 \<and> h_old_count h < 2 ^ 64"
  shows "foldl body_line f (concat (map hunk_text es)) = f\<lparr>pf_hunks := pf_hunks f @ map fst es\<rparr>"
    "list_all (\<lambda>l. strip_prefix ''diff --git a/'' l = None) (concat (map hunk_text es))"
  using assms
proof (induction es arbitrary: f)
  case (Cons e es)
  obtain h r where e: "e = (h, r)" by fastforce
  { case 1 then show ?case using Cons.IH(1) read_hunk(1)[where h = h and f = f and r = r] e by simp }
  { case 2 then show ?case using Cons.IH(2) read_hunk(2)[where h = h and r = r] e by simp }
qed simp_all

section \<open>Reading a diff\<close>

lemma spliced_hunks:
  "spliced c old hs out \<Longrightarrow> h \<in> set hs \<Longrightarrow>
   ops_ok h \<and> h_old_start h \<le> c + length old \<and> h_old_count h \<le> length old \<and>
   set (old_side h) \<subseteq> set old \<and> set (new_side h) \<subseteq> set out"
proof (induction rule: spliced.induct)
  case (spliced_hunk g c gap rest hs out)
  then show ?case
    by (cases "h = g") (auto simp: start_line_def split: if_splits)
qed simp

lemma length_to_elements: "length (to_elements s) \<le> length s"
  unfolding to_elements_def by (induction s) (auto split: list.split)

lemma element_chars: "e \<in> set (to_elements s) \<Longrightarrow> set e \<subseteq> set s"
  using concat_to_elements[of s] by (metis UN_upper set_concat)

lemma line_in_side:
  assumes "ops_ok h" "l \<in> set (h_lines h)"
  shows "line_element l \<in> set (old_side h) \<union> set (new_side h)"
  using assms by (auto simp: ops_ok_def old_side_def new_side_def)

definition diff_free :: "string \<Rightarrow> bool" where
  "diff_free l \<longleftrightarrow> plain l \<and> strip_prefix ''diff --git a/'' l = None"

definition reads_back :: "string \<Rightarrow> string \<Rightarrow> string \<Rightarrow> hunk list \<Rightarrow> bool" where
  "reads_back old new text hs \<longleftrightarrow>
     (\<exists>ls. text = unlines ls \<and> list_all diff_free ls \<and> (\<forall>f. pf_hunks f = [] \<longrightarrow> foldl body_line f ls = f\<lparr>pf_hunks := hs\<rparr>))
     \<and> apply_hunks old hs = Inr new"

lemma plain_hunk_text:
  assumes "ops_ok h" "\<forall>l \<in> set (h_lines h). nl \<notin> set (hl_text l)" "plain r"
    "\<forall>e \<in> set (old_side h) \<union> set (new_side h). cr \<notin> set e"
  shows "list_all plain (hunk_text (h, r))"
proof -
  have "list_all plain (lines_of l)" if l: "l \<in> set (h_lines h)" for l
  proof -
    have "cr \<notin> set (line_element l)" using line_in_side[OF assms(1) l] assms(4) by blast
    then have "cr \<notin> set (hl_text l)" by (simp add: line_element_def split: if_splits)
    moreover have "hl_op l \<in> {CHR '' '', CHR ''-'', CHR ''+''}" using assms(1) l by (simp add: ops_ok_def)
    ultimately show ?thesis using assms(2) l by (auto simp: lines_of_def no_newline_note_def plain_def)
  qed
  moreover have "plain (range_text a b)" for a b by (simp add: range_text_def)
  ultimately show ?thesis using assms(3) by (auto simp: hunk_text_def list_all_iff)
qed

lemma name_lines:
  "pf_hunks f = [] \<Longrightarrow> body_line f (''--- '' @ a) = f" "pf_hunks f = [] \<Longrightarrow> body_line f (''+++ '' @ a) = f"
  "plain a \<Longrightarrow> diff_free (''--- '' @ a)" "plain a \<Longrightarrow> diff_free (''+++ '' @ a)"
  by (simp_all add: parse_in_file_def diff_free_def) (simp_all add: starts_with_def)

lemma diff_reads_back:
  assumes "is_unified_diff old new a b text" "cr \<notin> set old" "cr \<notin> set new" "length old < 2 ^ 64" "plain a" "plain b"
  shows "\<exists>hs. reads_back old new text hs"
proof (cases "old = new")
  case True
  then have "reads_back old new text []"
    using assms(1) by (auto simp: reads_back_def is_unified_diff_def apply_hunks_def intro!: exI[of _ "[]"])
  then show ?thesis by blast
next
  case False
  then obtain es where es: "text = unlines ((''--- '' @ a) # (''+++ '' @ b) # concat (map hunk_text es))"
    "spliced 0 (to_elements old) (map fst es) (to_elements new)"
    "\<forall>(h, r) \<in> set es. plain r \<and> (\<forall>l \<in> set (h_lines h). nl \<notin> set (hl_text l))"
    using assms(1) by (auto simp: is_unified_diff_def)
  note hunk = spliced_hunks[OF es(2)]
  have ok: "\<forall>h \<in> set (map fst es). ops_ok h \<and> h_old_start h < 2 ^ 64 \<and> h_old_count h < 2 ^ 64"
    using hunk length_to_elements[of old] assms(4) by fastforce
  have "list_all plain (hunk_text e)" if e: "e \<in> set es" for e
  proof -
    obtain h r where hr: "e = (h, r)" by fastforce
    have h: "h \<in> set (map fst es)" using e hr by force
    have "cr \<notin> set x" if "x \<in> set (old_side h) \<union> set (new_side h)" for x
      using that hunk[OF h] element_chars[of x old] element_chars[of x new] assms(2,3) by blast
    then show ?thesis using plain_hunk_text[of h r] hunk[OF h] es(3) e hr by blast
  qed
  then have "list_all diff_free (concat (map hunk_text es))"
    using read_hunks(2)[OF ok] by (auto simp: diff_free_def list_all_iff)
  moreover have "apply_hunks old (map fst es) = Inr new" using splice_applies[OF es(2)] by simp
  ultimately have "reads_back old new text (map fst es)"
    unfolding reads_back_def using es(1) assms(5,6) read_hunks(1)[OF ok]
    by (auto simp: name_lines[simplified] simp del: unlines_simps
        intro!: exI[of _ "(''--- '' @ a) # (''+++ '' @ b) # concat (map hunk_text es)"])
  then show ?thesis by blast
qed

section \<open>Reading a change\<close>

fun change_paths :: "file_change \<Rightarrow> string set" where
  "change_paths (ChAdded path content) = {path}"
| "change_paths (ChDeleted path content) = {path}"
| "change_paths (ChEdited old_path new_path before content) = {old_path, new_path}"

fun old_text :: "file_change \<Rightarrow> string" where
  "old_text (ChAdded path content) = []"
| "old_text (ChDeleted path content) = content"
| "old_text (ChEdited old_path new_path before content) = before"

fun new_text :: "file_change \<Rightarrow> string" where
  "new_text (ChAdded path content) = content"
| "new_text (ChDeleted path content) = []"
| "new_text (ChEdited old_path new_path before content) = content"

fun file_of :: "file_change \<Rightarrow> hunk list \<Rightarrow> patch_file" where
  "file_of (ChAdded path content) hs =
     patch_file_default\<lparr>pf_old_path := path, pf_new_path := path, pf_added := True, pf_hunks := hs\<rparr>"
| "file_of (ChDeleted path content) hs =
     patch_file_default\<lparr>pf_old_path := path, pf_new_path := path, pf_deleted := True, pf_hunks := hs\<rparr>"
| "file_of (ChEdited old_path new_path before content) hs =
     patch_file_default\<lparr>pf_old_path := old_path, pf_new_path := new_path, pf_renamed := (old_path \<noteq> new_path), pf_hunks := hs\<rparr>"

text \<open>
  A path the header line can carry: it is one line and does not contain the separator the parser looks
  for. A text has no carriage return and a length the hunk headers can name.
\<close>

definition carried_path :: "string \<Rightarrow> bool" where
  "carried_path p \<longleftrightarrow> valid_path p \<and> plain p \<and> rfind '' b/'' p = None"

definition carried_text :: "string \<Rightarrow> bool" where
  "carried_text s \<longleftrightarrow> cr \<notin> set s \<and> length s < 2 ^ 64"

definition carried :: "file_change \<Rightarrow> bool" where
  "carried c \<longleftrightarrow> (\<forall>p \<in> change_paths c. carried_path p) \<and> carried_text (old_text c) \<and> carried_text (new_text c)"

lemma rfind_last: "rfind '' b/'' n = None \<Longrightarrow> rfind '' b/'' (old @ '' b/'' @ n) = Some (length old)"
  by (induction old) (simp_all add: starts_with_def)

lemma header_line:
  assumes "rfind '' b/'' n = None"
  shows "parse_line files (''diff --git a/'' @ old @ '' b/'' @ n) = files @ [patch_file_default\<lparr>pf_old_path := old, pf_new_path := n\<rparr>]"
proof -
  have "strip_prefix ''diff --git a/'' (''diff --git a/'' @ old @ '' b/'' @ n) = Some (old @ '' b/'' @ n)"
    by (rule strip_prefix_append)
  then show ?thesis using rfind_last[OF assms, of old] by (simp add: parse_line_def open_file_def)
qed

lemma mode_lines:
  "body_line f ''new file mode 100644'' = f\<lparr>pf_added := True\<rparr>"
  "body_line f ''deleted file mode 100644'' = f\<lparr>pf_deleted := True\<rparr>"
  "pf_hunks f = [] \<Longrightarrow> body_line f ''similarity index 100%'' = f"
  "body_line f (''rename from '' @ p) = f\<lparr>pf_renamed := True, pf_old_path := p\<rparr>"
  "body_line f (''rename to '' @ p) = f\<lparr>pf_renamed := True, pf_new_path := p\<rparr>"
  by (simp_all add: parse_in_file_def starts_with_def strip_prefix_def)

lemma mode_lines_free:
  "diff_free ''new file mode 100644''" "diff_free ''deleted file mode 100644''" "diff_free ''similarity index 100%''"
  "plain p \<Longrightarrow> diff_free (''rename from '' @ p)" "plain p \<Longrightarrow> diff_free (''rename to '' @ p)"
  by (simp_all add: diff_free_def) (simp_all add: strip_prefix_def)

definition reads_file :: "string \<Rightarrow> patch_file \<Rightarrow> bool" where
  "reads_file text f \<longleftrightarrow> (\<exists>ls. text = unlines ls \<and> list_all plain ls \<and> (\<forall>files. foldl parse_line files ls = files @ [f]))"

lemma section_reads:
  assumes "plain old" "plain n" "rfind '' b/'' n = None" "list_all diff_free ms" "reads_back before content text hs"
    and "f = foldl body_line (patch_file_default\<lparr>pf_old_path := old, pf_new_path := n\<rparr>) ms" "pf_hunks f = []"
  shows "reads_file ((''diff --git a/'' @ old @ '' b/'' @ n @ [nl]) @ unlines ms @ text) (f\<lparr>pf_hunks := hs\<rparr>)"
proof -
  obtain ls where ls: "text = unlines ls" "list_all diff_free ls"
    "\<And>g. pf_hunks g = [] \<Longrightarrow> foldl body_line g ls = g\<lparr>pf_hunks := hs\<rparr>"
    using assms(5) by (auto simp: reads_back_def)
  let ?ls = "(''diff --git a/'' @ old @ '' b/'' @ n) # ms @ ls"
  have body: "list_all (\<lambda>l. strip_prefix ''diff --git a/'' l = None) (ms @ ls)" "list_all plain (ms @ ls)"
    using assms(4) ls(2) by (auto simp: diff_free_def list_all_iff)
  have "foldl parse_line files ?ls = files @ [f\<lparr>pf_hunks := hs\<rparr>]" for files
    using parse_body[OF body(1), of files] header_line[OF assms(3), of files old] ls(3)[OF assms(7)] assms(6) by simp
  then show ?thesis unfolding reads_file_def using body(2) assms(1,2) ls(1) by (intro exI[of _ ?ls]) simp
qed

lemma unified_reads:
  assumes "differ_ok D" "carried_text old" "carried_text new" "plain a" "plain b"
  shows "\<exists>hs. reads_back old new (unified D old new a b) hs"
  using assms diff_reads_back[of old new a b] by (simp add: differ_ok_def unified_def carried_text_def)

lemma change_reads:
  assumes "differ_ok D" "carried c"
  shows "\<exists>hs. reads_file (emit_change D c) (file_of c hs) \<and> apply_hunks (old_text c) hs = Inr (new_text c)"
proof (cases c)
  case (ChAdded path content)
  then have ok: "carried_path path" "carried_text []" "carried_text content" using assms(2) by (simp_all add: carried_def)
  obtain hs where hs: "reads_back [] content (unified D [] content ''/dev/null'' (''b/'' @ path)) hs"
    using unified_reads[OF assms(1) ok(2,3), of "''/dev/null''" "''b/'' @ path"] ok(1) by (auto simp: carried_path_def)
  then show ?thesis
    using section_reads[OF _ _ _ _ hs refl, of path path "[''new file mode 100644'']"] ok(1) hs ChAdded
    by (intro exI[of _ hs])
      (simp add: carried_path_def reads_back_def mode_lines mode_lines_free patch_file_default_def)
next
  case (ChDeleted path content)
  then have ok: "carried_path path" "carried_text content" "carried_text []" using assms(2) by (simp_all add: carried_def)
  obtain hs where hs: "reads_back content [] (unified D content [] (''a/'' @ path) ''/dev/null'') hs"
    using unified_reads[OF assms(1) ok(2,3), of "''a/'' @ path" "''/dev/null''"] ok(1) by (auto simp: carried_path_def)
  then show ?thesis
    using section_reads[OF _ _ _ _ hs refl, of path path "[''deleted file mode 100644'']"] ok(1) hs ChDeleted
    by (intro exI[of _ hs])
      (simp add: carried_path_def reads_back_def mode_lines mode_lines_free patch_file_default_def)
next
  case (ChEdited old n before content)
  then have ok: "carried_path old" "carried_path n" "carried_text before" "carried_text content"
    using assms(2) by (simp_all add: carried_def)
  let ?text = "if before \<noteq> content then unified D before content (''a/'' @ old) (''b/'' @ n) else []"
  let ?ms = "if old \<noteq> n then (if before = content then [''similarity index 100%''] else [])
                @ [''rename from '' @ old, ''rename to '' @ n] else []"
  have "\<exists>hs. reads_back before content ?text hs"
  proof (cases "before = content")
    case True
    then show ?thesis
      using diff_reads_back[of before content "[]" "[]" "[]"] ok(3) by (simp add: is_unified_diff_def carried_text_def)
  next
    case False
    then show ?thesis using unified_reads[OF assms(1) ok(3,4), of "''a/'' @ old" "''b/'' @ n"] ok by (simp add: carried_path_def)
  qed
  then obtain hs where hs: "reads_back before content ?text hs" by blast
  have "list_all diff_free ?ms" using ok mode_lines_free by (auto simp: carried_path_def)
  moreover have "(foldl body_line (patch_file_default\<lparr>pf_old_path := old, pf_new_path := n\<rparr>) ?ms)\<lparr>pf_hunks := hs\<rparr> = file_of c hs"
    using ChEdited by (auto simp: mode_lines[simplified] patch_file_default_def)
  moreover have "pf_hunks (foldl body_line (patch_file_default\<lparr>pf_old_path := old, pf_new_path := n\<rparr>) ?ms) = []"
    by (auto simp: mode_lines[simplified] patch_file_default_def)
  ultimately have "reads_file ((''diff --git a/'' @ old @ '' b/'' @ n @ [nl]) @ unlines ?ms @ ?text) (file_of c hs)"
    using section_reads[OF _ _ _ _ hs refl, of old n ?ms] ok by (simp add: carried_path_def)
  moreover have "emit_change D c = (''diff --git a/'' @ old @ '' b/'' @ n @ [nl]) @ unlines ?ms @ ?text"
    using ChEdited by simp
  ultimately show ?thesis using hs ChEdited by (metis new_text.simps(3) old_text.simps(3) reads_back_def)
qed

definition file_for :: "file_change \<Rightarrow> patch_file \<Rightarrow> bool" where
  "file_for c f \<longleftrightarrow> (\<exists>hs. f = file_of c hs \<and> apply_hunks (old_text c) hs = Inr (new_text c))"

lemma patch_reads:
  assumes "differ_ok D" "\<forall>c \<in> set cs. carried c"
  shows "\<exists>fs. parse_patch (concat (map (emit_change D) cs)) = fs \<and> list_all2 file_for cs fs"
proof -
  have "\<exists>ls fs. concat (map (emit_change D) cs) = unlines ls \<and> list_all plain ls \<and>
      (\<forall>files. foldl parse_line files ls = files @ fs) \<and> list_all2 file_for cs fs"
    using assms(2)
  proof (induction cs)
    case Nil
    then show ?case by (auto intro!: exI[of _ "[]"])
  next
    case (Cons c cs)
    then obtain ls fs where IH: "concat (map (emit_change D) cs) = unlines ls" "list_all plain ls"
      "\<forall>files. foldl parse_line files ls = files @ fs" "list_all2 file_for cs fs" by auto
    obtain hs where hs: "reads_file (emit_change D c) (file_of c hs)" "apply_hunks (old_text c) hs = Inr (new_text c)"
      using change_reads[OF assms(1), of c] Cons.prems by auto
    then obtain ms where "emit_change D c = unlines ms" "list_all plain ms" "\<forall>files. foldl parse_line files ms = files @ [file_of c hs]"
      by (auto simp: reads_file_def)
    moreover have "file_for c (file_of c hs)" using hs(2) by (auto simp: file_for_def)
    ultimately show ?case using IH by (intro exI[of _ "ms @ ls"] exI[of _ "file_of c hs # fs"]) simp
  qed
  then show ?thesis by (auto simp: parse_patch_def str_lines_unlines)
qed

end
