(* ===== verification/Wiki_Patch_Props.thy ===== *)
theory Wiki_Patch_Props
  imports Wiki_Patch_Laws
begin

text \<open>
  The changeset as a set of files over disjoint paths, the tree its application gives, and the round
  trip of the emitter.
\<close>

section \<open>The changeset\<close>

text \<open>
  Renames as the structured write path admits them: a rename frees its source and takes a fresh
  path, and no source is moved twice.
\<close>

definition moves :: "wiki_tree \<Rightarrow> wiki_tree \<Rightarrow> wiki_tree \<Rightarrow> string \<Rightarrow> string \<Rightarrow> bool" where
  "moves base after renames old n \<longleftrightarrow> bt_get renames n = Some old \<and> bt_contains after n \<and> bt_contains base old"

definition renames_fresh :: "wiki_tree \<Rightarrow> wiki_tree \<Rightarrow> wiki_tree \<Rightarrow> bool" where
  "renames_fresh base after renames \<longleftrightarrow>
     (\<forall>old n. moves base after renames old n \<longrightarrow> n = old \<or> \<not> bt_contains base n \<and> \<not> bt_contains after old) \<and>
     (\<forall>old n m. moves base after renames old n \<longrightarrow> moves base after renames old m \<longrightarrow> n = m)"

lemma renames_freshD:
  assumes "renames_fresh base after renames" "moves base after renames old n"
  shows "n \<noteq> old \<Longrightarrow> bt_get base n = None" "n \<noteq> old \<Longrightarrow> bt_get after old = None"
    "moves base after renames old m \<Longrightarrow> m = n"
  using assms unfolding renames_fresh_def bt_contains_def by blast+

fun fits :: "wiki_tree \<Rightarrow> wiki_tree \<Rightarrow> file_change \<Rightarrow> bool" where
  "fits base after (ChAdded path content) \<longleftrightarrow> bt_get base path = None \<and> bt_get after path = Some content"
| "fits base after (ChDeleted path content) \<longleftrightarrow> bt_get base path = Some content \<and> bt_get after path = None"
| "fits base after (ChEdited old n before content) \<longleftrightarrow>
     bt_get base old = Some before \<and> bt_get after n = Some content \<and>
     (old = n \<or> bt_get base n = None \<and> bt_get after old = None)"

lemma consumed_iff:
  assumes "bt_wf renames"
  shows "p \<in> set (consumed_paths base after renames) \<longleftrightarrow> (\<exists>n. moves base after renames p n)"
proof -
  have "(n, old) \<in> set renames \<longleftrightarrow> bt_get renames n = Some old" for n old
    using bt_wf_distinct[OF assms] by simp
  then show ?thesis by (force simp: consumed_paths_def moves_def)
qed

lemma map_filter_set: "y \<in> set (List.map_filter f xs) \<longleftrightarrow> (\<exists>x \<in> set xs. f x = Some y)"
  by (induction xs) (auto simp: map_filter_def split: option.split)

lemma in_changes:
  assumes "bt_wf base" "bt_wf after"
  shows "c \<in> set (changes base after renames) \<longleftrightarrow>
     (\<exists>p x. bt_get after p = Some x \<and> after_change base renames (consumed_paths base after renames) (p, x) = Some c) \<or>
     (\<exists>p x. bt_get base p = Some x \<and> base_change after (consumed_paths base after renames) (p, x) = Some c)"
proof -
  have "(p, x) \<in> set t \<longleftrightarrow> bt_get t p = Some x" if "bt_wf t" for p x and t :: wiki_tree
    using bt_wf_distinct[OF that] by simp
  then show ?thesis using assms by (simp add: changes_def Let_def map_filter_set Bex_def split_paired_Ex)
qed

text \<open>What becomes of a path the new tree holds, and of one it does not hold.\<close>

lemma after_change_cases:
  assumes "bt_wf renames" "renames_fresh base after renames" "bt_get after p = Some x"
  shows "after_change base renames (consumed_paths base after renames) (p, x) =
    (if \<exists>old. moves base after renames old p \<and> old \<noteq> p
     then Some (ChEdited (the (bt_get renames p)) p (the (bt_get base (the (bt_get renames p)))) x)
     else case bt_get base p of
            None \<Rightarrow> Some (ChAdded p x)
          | Some before \<Rightarrow> if before \<noteq> x then Some (ChEdited p p before x) else None)"
proof -
  have "\<not> (\<exists>n. moves base after renames p n \<and> n \<noteq> p)"
    using renames_freshD(2)[OF assms(2)] assms(3) by fastforce
  then have c: "p \<in> set (consumed_paths base after renames) \<longleftrightarrow> moves base after renames p p"
    using consumed_iff[OF assms(1)] by auto
  show ?thesis
    unfolding after_change_def using assms(3) c
    by (cases "bt_get renames p"; cases "bt_get base p"; cases "bt_get base (the (bt_get renames p))")
      (auto simp: moves_def bt_contains_def)
qed

inductive net_change :: "wiki_tree \<Rightarrow> wiki_tree \<Rightarrow> wiki_tree \<Rightarrow> file_change \<Rightarrow> bool" for base after renames where
  net_added: "bt_get after p = Some x \<Longrightarrow> \<not> (\<exists>old. moves base after renames old p \<and> old \<noteq> p) \<Longrightarrow> bt_get base p = None \<Longrightarrow>
     net_change base after renames (ChAdded p x)"
| net_edited: "bt_get after p = Some x \<Longrightarrow> \<not> (\<exists>old. moves base after renames old p \<and> old \<noteq> p) \<Longrightarrow> bt_get base p = Some b \<Longrightarrow>
     b \<noteq> x \<Longrightarrow> net_change base after renames (ChEdited p p b x)"
| net_moved: "bt_get after p = Some x \<Longrightarrow> moves base after renames old p \<Longrightarrow> old \<noteq> p \<Longrightarrow> bt_get base old = Some b \<Longrightarrow>
     net_change base after renames (ChEdited old p b x)"
| net_deleted: "bt_get base p = Some x \<Longrightarrow> bt_get after p = None \<Longrightarrow> \<not> (\<exists>n. moves base after renames p n) \<Longrightarrow>
     net_change base after renames (ChDeleted p x)"

inductive_simps net_added_iff: "net_change base after renames (ChAdded p x)"
inductive_simps net_deleted_iff: "net_change base after renames (ChDeleted p x)"
inductive_simps net_edited_iff: "net_change base after renames (ChEdited old p b x)"

lemma movesD: "moves base after renames old n \<Longrightarrow> bt_get renames n = Some old \<and> bt_get after n \<noteq> None \<and> bt_get base old \<noteq> None"
  by (auto simp: moves_def bt_contains_def)

lemma changes_are_net:
  assumes "bt_wf base" "bt_wf after" "bt_wf renames" "renames_fresh base after renames"
  shows "c \<in> set (changes base after renames) \<longleftrightarrow> net_change base after renames c"
proof -
  have a: "after_change base renames (consumed_paths base after renames) (p, x) = Some c \<longleftrightarrow>
      net_change base after renames c \<and> (\<forall>q y. c \<noteq> ChDeleted q y) \<and> change_key c = p" if "bt_get after p = Some x" for p x
  proof (cases "\<exists>old. moves base after renames old p \<and> old \<noteq> p")
    case True
    then obtain old b where old: "moves base after renames old p" "old \<noteq> p" "bt_get base old = Some b"
      using movesD[of base after renames _ p] by blast
    have only: "moves base after renames o0 p \<longleftrightarrow> o0 = old" for o0
      using old(1) by (auto simp: moves_def)
    have "bt_get renames p = Some old" using old(1) by (simp add: moves_def)
    then have "after_change base renames (consumed_paths base after renames) (p, x) = Some (ChEdited old p b x)"
      unfolding after_change_cases[OF assms(3,4) that] using True old(3) by simp
    moreover have "net_change base after renames (ChEdited old p b x)" by (rule net_moved[OF that old])
    moreover have "c = ChEdited old p b x"
      if "net_change base after renames c" "\<forall>q y. c \<noteq> ChDeleted q y" "change_key c = p"
      using that \<open>bt_get after p = Some x\<close> old(2,3) by (cases c) (auto simp: net_added_iff net_edited_iff only)
    ultimately show ?thesis by auto
  next
    case False
    then show ?thesis
      unfolding after_change_cases[OF assms(3,4) that] using that
      by (cases c) (auto simp: net_added_iff net_edited_iff net_deleted_iff split: option.split)
  qed
  have b: "base_change after (consumed_paths base after renames) (p, x) = Some c \<longleftrightarrow>
      net_change base after renames c \<and> c = ChDeleted p x" if "bt_get base p = Some x" for p x
    using that consumed_iff[OF assms(3), of p base after] by (auto simp: base_change_def net_deleted_iff bt_contains_def)
  show ?thesis
    unfolding in_changes[OF assms(1,2)] using a b
    by (cases c) (auto simp: net_added_iff net_edited_iff net_deleted_iff)
qed

lemma net_fits: "renames_fresh base after renames \<Longrightarrow> net_change base after renames c \<Longrightarrow> fits base after c"
  by (erule net_change.cases) (auto dest: renames_freshD(1,2))

lemma net_owner:
  assumes "renames_fresh base after renames" "net_change base after renames c" "p \<in> change_paths c"
  shows "bt_get after p = Some x \<Longrightarrow> change_key c = p \<and> (\<forall>q y. c \<noteq> ChDeleted q y)"
    "bt_get after p = None \<Longrightarrow> (\<exists>x. c = ChDeleted p x \<and> bt_get base p = Some x \<and> \<not> (\<exists>n. moves base after renames p n)) \<or>
       (\<exists>n b x. c = ChEdited p n b x \<and> moves base after renames p n \<and> n \<noteq> p \<and> bt_get base p = Some b \<and> bt_get after n = Some x)"
  using assms(2,3) by (cases c; auto simp: net_added_iff net_edited_iff net_deleted_iff dest: renames_freshD(2)[OF assms(1)])+

lemma net_key_unique:
  assumes "net_change base after renames c" "net_change base after renames d" "change_key c = change_key d"
    "\<forall>q y. c \<noteq> ChDeleted q y" "\<forall>q y. d \<noteq> ChDeleted q y"
  shows "c = d"
proof -
  have one: "o0 = o1" if "moves base after renames o0 q" "moves base after renames o1 q" for o0 o1 q
    using that by (simp add: moves_def)
  show ?thesis using assms by (cases c; cases d) (auto simp: net_added_iff net_edited_iff dest: one)
qed

lemma net_disjoint:
  assumes "renames_fresh base after renames" "net_change base after renames c" "net_change base after renames d"
    "p \<in> change_paths c" "p \<in> change_paths d"
  shows "c = d"
proof (cases "bt_get after p")
  case None
  have one: "n = m" if "moves base after renames p n" "moves base after renames p m" for n m
    using renames_freshD(3)[OF assms(1) that(2,1)] .
  show ?thesis
    using net_owner(2)[OF assms(1,2,4) None] net_owner(2)[OF assms(1,3,5) None] by (auto dest: one)
next
  case (Some x)
  then show ?thesis
    using net_owner(1)[OF assms(1,2,4)] net_owner(1)[OF assms(1,3,5)] net_key_unique[OF assms(2,3)] by simp
qed

lemma net_covers:
  assumes "renames_fresh base after renames" "\<forall>c. net_change base after renames c \<longrightarrow> p \<notin> change_paths c"
  shows "bt_get base p = bt_get after p"
proof (cases "bt_get after p")
  case None
  show ?thesis
  proof (cases "bt_get base p")
    case (Some x)
    show ?thesis
    proof (cases "\<exists>n. moves base after renames p n")
      case True
      then obtain n where n: "moves base after renames p n" by blast
      then obtain y where "bt_get after n = Some y" using movesD by fastforce
      then have "net_change base after renames (ChEdited p n x y)"
        using net_moved[OF _ n _ Some] None by (metis option.distinct(1))
      then show ?thesis using assms(2) by fastforce
    next
      case False
      then show ?thesis using assms(2) net_deleted[OF Some None] by fastforce
    qed
  qed (simp add: None)
next
  case (Some x)
  have "\<not> (\<exists>old. moves base after renames old p \<and> old \<noteq> p)"
  proof safe
    fix old assume old: "moves base after renames old p" "old \<noteq> p"
    then obtain b where "bt_get base old = Some b" using movesD by fastforce
    then show False using net_moved[OF Some old] assms(2) by fastforce
  qed
  then show ?thesis
    using assms(2) net_added[OF Some] net_edited[OF Some] by (cases "bt_get base p") (fastforce simp: Some)+
qed

section \<open>The applied changeset\<close>

lemma apply_change:
  assumes "fits base after c" "file_for c f" "\<forall>p \<in> change_paths c. valid_path p \<and> bt_get t p = bt_get base p" "bt_wf t"
  shows "\<exists>t'. apply_file t f = Inr t' \<and> bt_wf t' \<and>
    (\<forall>p. bt_get t' p = (if p \<in> change_paths c then bt_get after p else bt_get t p))"
proof -
  obtain hs where hs: "f = file_of c hs" "apply_hunks (old_text c) hs = Inr (new_text c)" using assms(2) by (auto simp: file_for_def)
  show ?thesis
    using assms(1,3,4) hs
    by (cases c) (auto simp: apply_file_def patch_file_default_def bt_contains_def bt_get_insert bt_get_remove Let_def)
qed

lemma apply_changes:
  assumes "list_all2 file_for cs fs" "distinct cs"
    and "\<forall>c \<in> set cs. fits base after c \<and> (\<forall>p \<in> change_paths c. valid_path p \<and> bt_get t p = bt_get base p)"
    and "\<forall>c \<in> set cs. \<forall>d \<in> set cs. c \<noteq> d \<longrightarrow> change_paths c \<inter> change_paths d = {}" "bt_wf t"
  shows "\<exists>t'. rfold apply_file t fs = Inr t' \<and> bt_wf t' \<and>
    (\<forall>p. bt_get t' p = (if \<exists>c \<in> set cs. p \<in> change_paths c then bt_get after p else bt_get t p))"
  using assms
proof (induction cs fs arbitrary: t rule: list_all2_induct)
  case (Cons c cs f fs)
  obtain u where u: "apply_file t f = Inr u" "bt_wf u"
    "\<forall>p. bt_get u p = (if p \<in> change_paths c then bt_get after p else bt_get t p)"
    using apply_change[of base after c f t] Cons.hyps(1) Cons.prems by auto
  have "\<forall>d \<in> set cs. \<forall>p \<in> change_paths d. p \<notin> change_paths c" using Cons.prems(1,3) by fastforce
  then obtain t' where "rfold apply_file u fs = Inr t'" "bt_wf t'"
    "\<forall>p. bt_get t' p = (if \<exists>c \<in> set cs. p \<in> change_paths c then bt_get after p else bt_get u p)"
    using Cons.IH[of u] Cons.prems u by auto
  with u show ?case by auto
qed auto

lemma touch_changes:
  assumes "list_all2 file_for cs fs" "distinct cs" "\<forall>c \<in> set cs. change_paths c \<inter> set touched = {}"
    and "\<forall>c \<in> set cs. \<forall>d \<in> set cs. c \<noteq> d \<longrightarrow> change_paths c \<inter> change_paths d = {}"
  shows "\<exists>t'. rfold touch_file touched fs = Inr t'"
  using assms
proof (induction cs fs arbitrary: touched rule: list_all2_induct)
  case (Cons c cs f fs)
  have "\<exists>u. touch_file touched f = Inr u \<and> set u \<subseteq> set touched \<union> change_paths c"
    using Cons.hyps(1) Cons.prems(2) by (cases c) (auto simp: file_for_def touch_file_def touch_path_def patch_file_default_def)
  then obtain u where u: "touch_file touched f = Inr u" "set u \<subseteq> set touched \<union> change_paths c" by blast
  have "\<forall>d \<in> set cs. change_paths d \<inter> set u = {}" using u(2) Cons.prems by fastforce
  then show ?case using Cons.IH[of u] Cons.prems u(1) by auto
qed auto

lemma distinct_map_filter:
  assumes "distinct (map fst es)" "\<forall>e c. f e = Some c \<longrightarrow> change_key c = fst e"
  shows "distinct (List.map_filter f es)"
  using assms(1)
proof (induction es)
  case (Cons e es)
  have "c \<notin> set (List.map_filter f es)" if "f e = Some c" for c
  proof
    assume "c \<in> set (List.map_filter f es)"
    then obtain e' where "e' \<in> set es" "f e' = Some c" by (auto simp only: map_filter_set)
    then have "fst e \<in> fst ` set es" using that assms(2) by (metis image_eqI)
    then show False using Cons.prems by simp
  qed
  then show ?case using Cons by (cases "f e") (simp_all add: map_filter_def)
qed (simp add: map_filter_def)

lemma changes_distinct:
  assumes "bt_wf base" "bt_wf after"
  shows "distinct (changes base after renames)"
proof -
  let ?k = "consumed_paths base after renames"
  have keys: "change_key c = fst e \<and> (\<forall>q y. c \<noteq> ChDeleted q y)" if "after_change base renames ?k e = Some c" for c e
    using that by (auto simp: after_change_def split: prod.splits option.splits if_splits)
  have bases: "c = ChDeleted (fst e) (snd e)" if "base_change after ?k e = Some c" for c e
    using that by (auto simp: base_change_def split: prod.splits if_splits)
  have "distinct (List.map_filter (after_change base renames ?k) after)"
    by (rule distinct_map_filter[OF bt_wf_distinct[OF assms(2)]]) (use keys in blast)
  moreover have "distinct (List.map_filter (base_change after ?k) base)"
    by (rule distinct_map_filter[OF bt_wf_distinct[OF assms(1)]]) (use bases in fastforce)
  ultimately show ?thesis
    using keys bases by (fastforce simp: changes_def Let_def map_filter_set)
qed

lemma net_carried:
  assumes "\<forall>(p, x) \<in> set base \<union> set after. carried_path p \<and> carried_text x" "bt_wf base" "bt_wf after"
    "net_change base after renames c"
  shows "carried c"
proof -
  have b: "carried_path p \<and> carried_text x" if "bt_get base p = Some x" for p x
    using assms(1) map_of_SomeD[OF that] by blast
  have a: "carried_path p \<and> carried_text x" if "bt_get after p = Some x" for p x
    using assms(1) map_of_SomeD[OF that] by blast
  have "carried_text []" by (simp add: carried_text_def)
  then show ?thesis
    using assms(4) by (cases c) (auto simp: carried_def net_added_iff net_deleted_iff net_edited_iff dest: a b)
qed

section \<open>A line diff\<close>

text \<open>The diff of one hunk that replaces the whole document is a unified diff.\<close>

definition signed :: "char \<Rightarrow> string \<Rightarrow> hunk_line" where
  "signed c e =
     (if e \<noteq> [] \<and> last e = nl then \<lparr>hl_op = c, hl_text = butlast e, hl_newline = True\<rparr>
      else \<lparr>hl_op = c, hl_text = e, hl_newline = False\<rparr>)"

definition whole_hunk :: "string \<Rightarrow> string \<Rightarrow> hunk" where
  "whole_hunk old new =
     \<lparr>h_old_start = (if to_elements old = [] then 0 else 1), h_old_count = length (to_elements old),
      h_lines = map (signed (CHR ''-'')) (to_elements old) @ map (signed (CHR ''+'')) (to_elements new)\<rparr>"

definition whole_differ :: differ where
  "whole_differ =
     \<lparr>df_ops = (\<lambda>old new. [OpReplace (length (to_elements old)) (length (to_elements new))]),
      df_unified = (\<lambda>old new radius a b.
        if old = new then []
        else unlines ((''--- '' @ a) # (''+++ '' @ b) # hunk_text (whole_hunk old new, show_nat 1)))\<rparr>"

lemma signed_simps [simp]: "line_element (signed c e) = e" "hl_op (signed c e) = c"
  by (cases e rule: rev_cases; auto simp: line_element_def signed_def)+

lemma element_line: "e \<in> set (to_elements s) \<Longrightarrow> nl \<notin> set (butlast e)"
  unfolding to_elements_def
  by (induction s arbitrary: e) (fastforce split: list.splits if_splits)+

lemma signed_text: "e \<in> set (to_elements s) \<Longrightarrow> nl \<notin> set (hl_text (signed c e))"
  using element_line[of e s] by (cases e rule: rev_cases) (auto simp: signed_def)

lemma whole_sides:
  "old_side (whole_hunk old new) = to_elements old" "new_side (whole_hunk old new) = to_elements new" "ops_ok (whole_hunk old new)"
  by (auto simp: old_side_def new_side_def ops_ok_def whole_hunk_def filter_map comp_def)

lemma whole_splice: "spliced 0 (to_elements old) [whole_hunk old new] (to_elements new)"
proof -
  let ?h = "whole_hunk old new"
  have start: "start_line ?h = Some 0" "h_old_count ?h = length (to_elements old)"
    by (simp_all add: start_line_def whole_hunk_def)
  have "spliced 0 ([] @ old_side ?h @ []) [?h] ([] @ new_side ?h @ [])"
    by (rule spliced_hunk) (simp_all add: start whole_sides spliced_done)
  then show ?thesis by (simp add: whole_sides)
qed

lemma whole_differ_ok: "differ_ok whole_differ"
proof -
  have "is_unified_diff old new a b (df_unified whole_differ old new radius a b)" for old new radius a b
  proof (cases "old = new")
    case False
    have "nl \<notin> set (hl_text l)" if "l \<in> set (h_lines (whole_hunk old new))" for l
      using that signed_text by (auto simp: whole_hunk_def)
    then show ?thesis
      using False whole_splice[of old new]
      by (auto simp: is_unified_diff_def whole_differ_def simp del: unlines_simps
          intro!: exI[of _ "[(whole_hunk old new, show_nat 1)]"])
  qed (simp add: is_unified_diff_def whole_differ_def)
  then show ?thesis by (simp add: differ_ok_def)
qed

section \<open>The round trip\<close>

text \<open>C20: What the emitter writes, the strict applier reproduces. For two trees whose paths are valid and hold
neither \<open> b/\<close> nor a line break, whose documents hold no carriage return, and for renames the write path
admits (a move frees its source and takes a fresh path), the emitted patch, parsed and applied to the
old tree, gives exactly the new tree: additions, deletions, edits, moves, moves with edits, empty documents and
last lines without a line feed. No patch is emitted exactly when nothing changed. Relied on is that the
line diff prints a unified diff.\<close>

theorem emitted_patch_applies:
  assumes "differ_ok D" "bt_wf base" "bt_wf after" "bt_wf renames" "renames_fresh base after renames"
    and "\<forall>(p, x) \<in> set base \<union> set after. carried_path p \<and> carried_text x"
  shows "case build_patch D base after renames of
      None \<Rightarrow> after = base
    | Some patch \<Rightarrow> after \<noteq> base \<and> apply_patch base (parse_patch patch) = Inr after"
proof -
  let ?cs = "changes base after renames"
  have net: "c \<in> set ?cs \<longleftrightarrow> net_change base after renames c" for c by (rule changes_are_net[OF assms(2-5)])
  have ok: "\<forall>c \<in> set ?cs. carried c" using net net_carried[OF assms(6,2,3)] by blast
  obtain fs where fs: "parse_patch (concat (map (emit_change D) ?cs)) = fs" "list_all2 file_for ?cs fs"
    using patch_reads[OF assms(1) ok] by blast
  have fit: "\<forall>c \<in> set ?cs. fits base after c \<and> (\<forall>p \<in> change_paths c. valid_path p \<and> bt_get base p = bt_get base p)"
    using net net_fits[OF assms(5)] ok by (auto simp: carried_def carried_path_def)
  have dis: "\<forall>c \<in> set ?cs. \<forall>d \<in> set ?cs. c \<noteq> d \<longrightarrow> change_paths c \<inter> change_paths d = {}"
    using net net_disjoint[OF assms(5)] by blast
  obtain t' where t': "rfold apply_file base fs = Inr t'" "bt_wf t'"
    "\<forall>p. bt_get t' p = (if \<exists>c \<in> set ?cs. p \<in> change_paths c then bt_get after p else bt_get base p)"
    using apply_changes[OF fs(2) changes_distinct[OF assms(2,3)] fit dis assms(2)] by blast
  have "t' = after"
    by (rule bt_wf_eqI[OF t'(2) assms(3)]) (use t'(3) net net_covers[OF assms(5)] in metis)
  moreover obtain u where "rfold touch_file [] fs = Inr u"
    using touch_changes[OF fs(2) changes_distinct[OF assms(2,3)] _ dis, of "[]"] by auto
  moreover have "fs = [] \<longleftrightarrow> ?cs = []" using fs(2) by (auto simp: list_all2_Nil list_all2_Nil2)
  moreover have "after \<noteq> base" if "?cs \<noteq> []"
  proof -
    obtain c where "fits base after c" "c \<in> set ?cs" using fit \<open>?cs \<noteq> []\<close> by (meson last_in_set)
    then show ?thesis using net by (cases c) (auto simp: net_edited_iff moves_def bt_contains_def)
  qed
  ultimately show ?thesis
    using t'(1) fs(1) by (auto simp: build_patch_def Let_def apply_patch_def)
qed

theorem emitted_patch_applies_witness:
  "\<exists>patch. build_patch whole_differ [(''a'', ''x''), (''c'', ''o'')] [(''b'', ''x''), (''c'', ''n''), (''d'', [])] [(''b'', ''a'')] = Some patch \<and>
     apply_patch [(''a'', ''x''), (''c'', ''o'')] (parse_patch patch) = Inr [(''b'', ''x''), (''c'', ''n''), (''d'', [])]"
proof -
  let ?b = "[(''a'', ''x''), (''c'', ''o'')]" and ?a = "[(''b'', ''x''), (''c'', ''n''), (''d'', [])]" and ?r = "[(''b'', ''a'')]"
  have ok: "carried_path [c]" if "c \<in> {CHR ''a'', CHR ''b'', CHR ''c'', CHR ''d''}" for c
    using that by (auto simp: carried_path_def valid_path_def starts_with_def ends_with_def)
  have "bt_wf ?b" "bt_wf ?a" "bt_wf ?r" by (simp_all add: bt_wf_def)
  moreover have "renames_fresh ?b ?a ?r"
    by (auto simp: renames_fresh_def moves_def bt_contains_def split: if_splits)
  moreover have "\<forall>(p, x) \<in> set ?b \<union> set ?a. carried_path p \<and> carried_text x" using ok by (simp add: carried_text_def)
  ultimately have "case build_patch whole_differ ?b ?a ?r of None \<Rightarrow> ?a = ?b
    | Some patch \<Rightarrow> ?a \<noteq> ?b \<and> apply_patch ?b (parse_patch patch) = Inr ?a"
    by (rule emitted_patch_applies[OF whole_differ_ok])
  then show ?thesis by (auto split: option.splits)
qed

text \<open>
  Paths may contain spaces, so a directory can end in \<open> b\<close>. The header of such a file holds the separator more
  than once, the parser splits at the last one, and the patch names files that do not exist.
\<close>

lemma separator_in_a_path:
  assumes "differ_ok D"
  shows "valid_path ''a b/c'' \<and> (\<exists>patch. build_patch D [(''a b/c'', [])] [] [] = Some patch \<and>
    apply_patch [(''a b/c'', [])] (parse_patch patch) = Inl ''missing: a b/c b/a'')"
proof -
  let ?ls = "[''diff --git a/a b/c b/a b/c'', ''deleted file mode 100644'']"
  have paths: "valid_path ''a b/c''" "valid_path ''a b/c b/a''"
    by (simp_all add: valid_path_def starts_with_def ends_with_def)
  have "unified D [] [] a b = []" for a b
    using assms by (simp add: differ_ok_def unified_def is_unified_diff_def)
  then have patch: "build_patch D [(''a b/c'', [])] [] [] = Some (unlines ?ls)"
    by (simp add: build_patch_def changes_def consumed_paths_def base_change_def map_filter_def bt_contains_def
        bset_of_list_def Let_def)
  have "open_file ''a b/c b/a b/c'' = patch_file_default\<lparr>pf_old_path := ''a b/c b/a'', pf_new_path := ''c''\<rparr>"
    by (simp add: open_file_def starts_with_def)
  moreover have "strip_prefix ''diff --git a/'' ''diff --git a/a b/c b/a b/c'' = Some ''a b/c b/a b/c''"
    "strip_prefix ''diff --git a/'' ''deleted file mode 100644'' = None" by (simp_all add: strip_prefix_def)
  ultimately have "foldl parse_line [] ?ls = [patch_file_default\<lparr>pf_old_path := ''a b/c b/a'', pf_new_path := ''c'', pf_deleted := True\<rparr>]"
    by (simp add: parse_line_def upd_last_def mode_lines[simplified])
  moreover have "list_all plain ?ls" by simp
  ultimately have "parse_patch (unlines ?ls) = [patch_file_default\<lparr>pf_old_path := ''a b/c b/a'', pf_new_path := ''c'', pf_deleted := True\<rparr>]"
    unfolding parse_patch_def by (simp only: str_lines_unlines)
  then have "apply_patch [(''a b/c'', [])] (parse_patch (unlines ?ls)) = Inl ''missing: a b/c b/a''"
    using paths by (simp add: apply_patch_def touch_file_def touch_path_def apply_file_def patch_file_default_def del: unlines_simps)
  then show ?thesis using patch paths(1) by blast
qed

end
