(* ===== verification/Gov_Cache.thy ===== *)
theory Gov_Cache
  imports Gov_Chain_Laws
begin

text \<open>
  The operations of a holder move the inputs of the wiki fold as \<open>view_run\<close> does: a committed block
  makes the log grow, a stale base is dropped, and rebuilding the projection moves the epoch. So every cache a
  node comes to hold through them is covered by the transparency of \<open>Wiki_Cache\<close>.
\<close>

lemma view_gov_updates [simp]:
  "wiki_view_of (s\<lparr>gv_walk := a\<rparr>) = wiki_view_of s" "wiki_view_of (s\<lparr>gv_head := b\<rparr>) = wiki_view_of s"
  "wiki_view_of (s\<lparr>gv_head_moved_at := c\<rparr>) = wiki_view_of s" "wiki_view_of (s\<lparr>gv_blocks := d\<rparr>) = wiki_view_of s"
  "wiki_view_of (s\<lparr>gv_pending_sigs := e\<rparr>) = wiki_view_of s" "wiki_view_of (s\<lparr>gv_proposal_changes := f\<rparr>) = wiki_view_of s"
  "wiki_view_of (s\<lparr>gv_own_approvals := g\<rparr>) = wiki_view_of s" "wiki_view_of (s\<lparr>gv_seal_held := h\<rparr>) = wiki_view_of s"
  "wiki_view_of (s\<lparr>gv_anchors := i\<rparr>) = wiki_view_of s" "wiki_view_of (s\<lparr>gv_member_relays := j\<rparr>) = wiki_view_of s"
  "wiki_view_of (s\<lparr>gv_next_id := k\<rparr>) = wiki_view_of s" "wiki_view_of (s\<lparr>gv_replica := l\<rparr>) = wiki_view_of s"
  by (simp_all add: wiki_view_of_def)

lemma view_gov_ops [simp]:
  "wiki_view_of (forget_vote i s) = wiki_view_of s" "wiki_view_of (ensure_applied_record i sf p s) = wiki_view_of s"
  "wiki_view_of (stamp_applied_at i at s) = wiki_view_of s" "wiki_view_of (adopt_head_roster s) = wiki_view_of s"
  "wiki_view_of (bump_next_id i s) = wiki_view_of s" "wiki_view_of (bump_next_id_past_chain s) = wiki_view_of s"
  by (simp_all add: forget_vote_def ensure_applied_record_def stamp_applied_at_def adopt_head_roster_def
      bump_next_id_def bump_next_id_past_chain_def Let_def split: option.split)

lemma view_forget_votes_for [simp]: "wiki_view_of (forget_votes_for c s) = wiki_view_of s"
  unfolding forget_votes_for_def by (rule view_fold) simp

lemma view_settle_membership [simp]: "wiki_view_of (settle_membership_records c s) = wiki_view_of s"
  by (auto simp: settle_membership_records_def view_fold split: chain_change.split)

lemma view_settle_cards [simp]: "wiki_view_of (settle_cards_against_chain ts s) = wiki_view_of s"
  unfolding settle_cards_against_chain_def Let_def by (simp add: view_fold split: option.split prod.split)

lemma view_project_one: "\<exists>k. wiki_view_of (project_one b s) = (wiki_view_of s)\<lparr>wv_chain := wv_chain (wiki_view_of s) @ k\<rparr>"
proof (cases "blk_change b")
  case (Applied i sf payload)
  have "wiki_view_of (project_one b s) = wiki_view_of (s\<lparr>gv_applied := (gv_applied s)(sf := gv_applied s sf @ [(Some i, payload)]),
      gv_applied_sigs := (gv_applied_sigs s)(i \<mapsto> blk_sigs b)\<rparr>)"
    by (simp add: project_one_def Applied)
  then show ?thesis
    by (intro exI[of _ "if sf = Memory then [(Some i, payload)] else []"]) (simp add: wiki_view_of_def)
qed (intro exI[of _ "[]"], simp add: project_one_def Let_def split: option.split)+

lemma view_append:
  assumes "append_committed_block X s b = Some (t, ok)" "view_run X n (wiki_view_of s)"
  shows "view_run X n (wiki_view_of t)"
  using assms(1)
proof (cases rule: append_cases)
  case (taken w w')
  obtain k where "wiki_view_of t = (wiki_view_of s)\<lparr>wv_chain := wv_chain (wiki_view_of s) @ k\<rparr>"
    using view_project_one[of b "s\<lparr>gv_walk := Some w', gv_head := Some (w_head w'), gv_head_moved_at := gv_now s\<rparr>"]
    by (auto simp: taken(4) Let_def)
  then show ?thesis using grown[OF assms(2), of k "[]"] by simp
qed (use assms(2) in simp_all)

lemma view_drop:
  assumes "drop_a_stale_wiki_base X s = Some t" "view_run X n (wiki_view_of s)"
  shows "view_run X n (wiki_view_of t)"
proof -
  have "wiki_view_of (set_wiki_base None s) = (wiki_view_of s)\<lparr>wv_held := None\<rparr>"
    by (simp add: set_wiki_base_def wiki_view_of_def)
  then show ?thesis
    using assms base_dropped[OF assms(2)]
    by (auto simp: drop_a_stale_wiki_base_def split: option.splits if_splits)
qed

lemma view_apply_chain:
  assumes "apply_chain_to_state X H ts s = Some t" "view_run X n (wiki_view_of s)"
    and "\<And>s. wiki_view_of (hk_vault_stale H s) = wiki_view_of s"
  shows "view_run X (Suc n) (wiki_view_of t)"
proof -
  let ?s1 = "bump_applied_epoch (s\<lparr>gv_applied := projected_applied (gv_blob s) (gv_blocks s),
                    gv_applied_sigs := projected_sigs (gv_blocks s)\<rparr>)"
  obtain s3 s4 where r: "refresh_wiki_cache X (settle_cards_against_chain ts ?s1) = Some s3"
    "supersede_stale_wiki X None s3 = Some s4" "wiki_view_of t = wiki_view_of s4"
    using assms(1,3) by (auto simp: apply_chain_to_state_def Let_def bind_eq_Some_conv)
  have "view_run X (Suc n) (wiki_view_of ?s1)"
    using rebuilt[OF assms(2), of "projected_applied (gv_blob s) (gv_blocks s) Memory" "gv_legacy s Memory" "held_wiki (gv_held s)"]
    by (simp add: wiki_view_of_def bump_applied_epoch_def)
  then have "view_run X (Suc n) (wiki_view_of s3)" using view_refresh[OF r(1)] by simp
  then show ?thesis using view_supersede[OF r(2)] r(3) by simp
qed

end
