(* ===== verification/Spec2Isabelle.thy ===== *)
theory Spec2Isabelle
  imports Wiki_Laws Vault_Laws Vault_Guards Export_Laws Kanban_Plan Kanban_Series Net_Chunk_Props Gov_Vote_Props Sync_Props
    Wiki_Patch_Props Gov_Cache
begin

text \<open>
  \<^bold>\<open>The molt republic: its chain, its vault, its wiki and its board.\<close>

  A republic is a fixed group of seats that decides together. Every decision is a block of a
  chain all seats hold; a block is valid when enough founding seats signed it. What the
  republic knows - its relays, its working keys, its wiki, its vault, its kanban board - is a
  fold over the applied blocks, so two seats that hold the same chain show the same state.
  This development models the code that decides whether a chain is valid and what state it
  folds to, the node that collects votes, seals blocks and keeps its chain in step with its
  peers, and the framing of messages on the wire, and proves what the members rely on.

  \<^bold>\<open>How the parts fit.\<close> A payload enters as a JSON value. The kanban and wiki folds and the vault
  checks read payloads; the chain verifier (\<open>chain/verify.rs\<close>) walks blocks, checks links,
  heights, signatures and consents, runs the vault checks on vault operations, and carries a
  projection of everything applied so far. A cut (\<open>chain/mod.rs\<close>, \<open>wiki_base.rs\<close>,
  \<open>vault_base.rs\<close>) replaces the applied payloads of the past by a signed summary, and a
  holder may then keep the summary and the blocks after it only. Recovery and the wiki
  export are front doors of the same verifier. A node (\<open>governance.rs\<close>, \<open>proposals.rs\<close>,
  \<open>membership.rs\<close>, \<open>checkpoint.rs\<close>, \<open>projection.rs\<close>, \<open>sync.rs\<close>) holds cards of proposals and the
  signatures on them; enough signatures seal a block, which the node verifies, appends and
  gossips. Blocks from peers extend the chain, contend for its tip, belong to another branch
  or wait in a buffer; every block appended settles its card, moves the projection, the wiki and
  the bases, and re-signs what still stands. Messages travel as chunks in padded blocks.

  \<^bold>\<open>Theories and sources\<close> (under \<open>src/crates\<close>).

  \<^item> \<open>Molt_Prelude\<close>: results as sums (\<open>rbind\<close> is \<open>?\<close>, \<open>rfold\<close> is a \<open>for\<close> loop that may return early,
    \<open>reject_if\<close>, \<open>ok_or\<close>, \<open>map_err\<close>), panics as a second kind of failure (\<open>fault\<close>), loop rules.
  \<^item> \<open>Rust_Std\<close>, \<open>Rust_Maps\<close>: what the code uses of the standard library: integers at their
    width, strings as their UTF-8 bytes, \<open>trim\<close>, \<open>lines\<close>, \<open>split_whitespace\<close>, decimal
    printing and parsing, \<open>BTreeMap\<close>, \<open>BTreeSet\<close> and binary search. The locale \<open>kv_store\<close> states the
    contract of a map; it is interpreted on the sorted association list and on functions.
  \<^item> \<open>Json_Value\<close>: \<open>serde_json::Value\<close> and its accessors.
  \<^item> \<open>Canon_Bytes\<close>: the byte writers (\<open>put_bytes\<close>, \<open>put_count\<close>, little-endian numbers). The locale
    \<open>prefix_code\<close> says that what was written can be read back off the front of any stream;
    \<open>fixed_code\<close> extends it; both are interpreted on every writer the layouts use.
  \<^item> \<open>Extern\<close>: the record \<open>extern\<close> of everything the code takes from other packages.
  \<^item> \<open>Chain_Types\<close>, \<open>Chain_Layouts\<close>: \<open>molt-core/src/chain.rs\<close> and the surfaces and roster of
    \<open>molt-core/src/lib.rs\<close>: blocks, changes, restore consents, checkpoint states and their signed
    bytes; \<open>Chain_Layouts\<close> proves the layouts injective.
  \<^item> \<open>Identity\<close>: \<open>republic_id\<close>, \<open>content_hash\<close> and \<open>identity_verify\<close> of \<open>molt-storage/src/lib.rs\<close>.
  \<^item> \<open>Vault_Types\<close>, \<open>Vault_Layouts\<close>: \<open>molt-core/src/vault.rs\<close>: records, labels, domain tags, signed
    layouts, the base stream and its reader.
  \<^item> \<open>Vault_Checks\<close>: \<open>molt-vault/src\<close> (\<open>deposit.rs\<close>, \<open>base.rs\<close>, \<open>key.rs\<close>) and
    \<open>molt-engine/src/vault\<close>: what a deposit, a grant, a base and a roster must satisfy.
  \<^item> \<open>Wiki_Fold\<close>: \<open>molt-core/src/wiki_fold.rs\<close>: the patch parser, strict hunk application, the
    all-or-nothing patch and the fold.
  \<^item> \<open>Wiki_Patch\<close>: \<open>molt-core/src/wiki_patch.rs\<close>: the changeset between two trees, its patch and its counts.
  \<^item> \<open>Cut_Fold\<close>: \<open>molt-engine/src/chain/mod.rs\<close>, \<open>wiki_base.rs\<close> and \<open>vault_base.rs\<close>: the summaries a
    cut puts in place of history.
  \<^item> \<open>Chain_Verify\<close>: \<open>molt-engine/src/chain/verify.rs\<close>: genesis, following blocks, consents, the
    projection, the walk over whole chains and over suffixes anchored at a checkpoint.
  \<^item> \<open>Chain_Served\<close>: the front door of \<open>recovery.rs\<close>, \<open>wiki_export.rs\<close>, and the relay pool of
    \<open>projection.rs\<close>.
  \<^item> \<open>Kanban_Calendar\<close>: \<open>molt-core/src/kanban_calendar.rs\<close>: windows, repeat rules, occurrences.
  \<^item> \<open>Kanban_Fold\<close>: \<open>molt-core/src/kanban_fold.rs\<close>: the doors, the canonical form, the lifecycle,
    the rules on a board, the cycle search and the fold.
  \<^item> \<open>Kanban_Dates\<close>: \<open>molt-core/src/kanban_dates.rs\<close>: the order of the tasks, the dates they are
    needed by, flags, priority, what comes next, and the impact of a change.
  \<^item> \<open>Net_Block\<close>, \<open>Net_Chunk\<close>: \<open>molt-net/src\<close> (\<open>block.rs\<close>, \<open>wrap.rs\<close>, \<open>chunk.rs\<close>): padded blocks, the
    wrap over a cipher, the chunker and the reassembler.
  \<^item> \<open>Gov_State\<close>, \<open>Gov_Votes\<close>: the record \<open>gov_state\<close> (fields of \<open>ChainProjection\<close> and \<open>State\<close>); ids, cards,
    collections of signatures, sealing (\<open>try_commit\<close>), approvals, declines, withdrawals, their
    parks, and proposals from the wire (\<open>governance.rs\<close>, \<open>proposals.rs\<close>).
  \<^item> \<open>Wiki_Base\<close>, \<open>Gov_Wiki\<close>: the cached fold of the wiki, its stamps, the walk that retires
    patches that no longer apply, and the list of changes (\<open>proposals.rs\<close>).
  \<^item> \<open>Gov_Chain\<close>: verifying, adopting and appending in a holder's context, the projection and its
    rebuild, the bases a holder keeps, relays (\<open>projection.rs\<close>, \<open>governance.rs\<close>, \<open>vault/fold.rs\<close>).
  \<^item> \<open>Gov_Commit\<close>: the record \<open>node\<close>; what a sealed or received block sets in motion: bookkeeping,
    cuts, re-signing, consented restores, automatic checkpoints, membership and checkpoint
    proposals (\<open>governance.rs\<close>, \<open>membership.rs\<close>, \<open>checkpoint.rs\<close>).
  \<^item> \<open>Chain_Sync\<close>: \<open>sync.rs\<close> and the served summaries of \<open>checkpoint.rs\<close>: catch-up, buffers, tip and branch
    tie-breaks, re-anchoring. \<open>Chain_Node\<close>: the node as a machine over events (\<open>net/ingest.rs\<close>).
  \<^item> \<open>Sync_Demo\<close>: two nodes with contending tips.
  \<^item> \<open>Chain_Demo\<close>: a concrete republic of one seat with a chain of four blocks and concrete functions for the
    external code; \<open>Vault_Demo\<close>: a vault republic of four seats with a deposit, a vault cut and a block
    after it. The hypotheses of the theorems are discharged on them.

  \<^bold>\<open>What the lemmas show.\<close>

  \<^item> \<open>Chain_Laws\<close> describes accepted walks as an inductive relation (\<open>walks\<close>) and proves by rule
    induction what every prefix keeps: heights and links, the quorum of every block, the
    constitution, the consumed proposals, the equality of the carried projection with the
    batch fold. \<open>Chain_Pruning\<close> relates a walk over the whole chain to a walk from a checkpoint
    by a simulation that forgets only what the summary replaces, for every kind of cut: summaries of the
    wiki resume from the committed tree, summaries of the vault from the committed base
    (\<open>Vault_Resume\<close>). \<open>Chain_Props\<close> states the results.
  \<^item> \<open>Wiki_Laws\<close>: hunk application is exactly splicing; a patch depends only on the paths it
    names; the fold keeps valid paths and counts revisions; the base stream round-trips.
    \<open>Wiki_Patch_Laws\<close>, \<open>Wiki_Patch_Props\<close>: what the emitter writes is read back line by line, and applied
    it gives the tree the writer meant.
  \<^item> \<open>Vault_Laws\<close>, \<open>Vault_Guards\<close>: the vault's streams round-trip and are canonical, signatures bind
    their records, tags separate primitives; what an admitted deposit, roster or base satisfies.
  \<^item> \<open>Export_Laws\<close>: the detached verifier of a wiki export accepts what a verified chain exports,
    and what it accepts is proved by the chain inside.
  \<^item> \<open>Kanban_Cycles\<close>: an invariant of the depth-first search; \<open>Kanban_Laws\<close>, \<open>Kanban_Shapes\<close>: what one
    changeset keeps, lifted to the fold by the locale \<open>kept_by\<close>; \<open>Kanban_Props\<close>: the theorems. \<open>Kanban_Order\<close> and
    \<open>Kanban_Plan\<close>: on every folded board the order is complete and the derived dates, flags and
    lists are exact. \<open>Kanban_Series\<close>: the arithmetic of daily and weekly series is the walk.
  \<^item> \<open>Net_Chunk_Laws\<close>, \<open>Net_Chunk_Props\<close>: an invariant of the reassembler against any input, and the
    round trip of a message through its chunks.
  \<^item> \<open>Wiki_Cache\<close>: everything that happens to the inputs of the wiki fold as an inductive relation
    (\<open>view_run\<close>), and that the cache left behind, fresh or stale, never changes what is read; \<open>Gov_Cache\<close>: the
    operations of a node move these inputs that way. \<open>Gov_Wiki_Laws\<close>: the walk over open patches is
    exact. \<open>Gov_Laws\<close>, \<open>Gov_Wire\<close>: what every message keeps of ballots and collections, by cases
    over a step function. \<open>Gov_Seal\<close>: sealer and verifier count alike. \<open>Gov_Props\<close>, \<open>Gov_Vote_Props\<close>:
    the theorems on votes, parks and ids.
  \<^item> \<open>Gov_Chain_Laws\<close>: chains verified in a holder's context as an inductive relation (\<open>own_walks\<close>),
    \<open>chain_ok\<close> of the cached walk, and the growing projection against its rebuild. \<open>Gov_Prune\<close>: a cut
    leaves a chain that verifies from its summary. \<open>Gov_Commit_Laws\<close>: every operation keeps
    \<open>sound\<close> and only \<open>advances\<close> the history: what is held afterwards is a hash-linked continuation
    (\<open>same_history\<close>) that holds no rival of a block before it. \<open>Gov_Depth\<close>: unrolled over any continuation at
    all, the adoption recursion ends before the heights run out. \<open>Sync_Laws\<close>, \<open>Sync_Buffers\<close>, \<open>Sync_Converge\<close>: the same for blocks of peers, the bounds of the
    buffers, how contenders and requests are answered. \<open>Sync_Props\<close>: the theorems.

  \<^bold>\<open>Parameters.\<close> \<open>extern\<close> holds SHA-256, hex decoding, Ed25519 verification, the curve checks of a
  vault key, the canonical printing of JSON and the codec of vault records, of which \<open>vault_tagged\<close> states the documented
  tags. A theorem that needs more than their
  type names the fact as a hypothesis; freedom from hash collisions is never assumed - a
  theorem concludes that two histories agree or exhibits the collision. \<open>chrono\<close> holds the
  Gregorian calendar: parsing, printing and the fields of a date; dates themselves are day
  numbers. The minter of task ids is a function of the number of ids minted so far. The cipher of a
  wrapped block is a parameter, and so is the line diff of the emitter (\<open>differ\<close>), of which \<open>differ_ok\<close>
  states that it prints a unified diff. The record \<open>gates\<close> answers what other components refuse of a
  proposal or a signature; \<open>hooks\<close> are the reactions of vault, wallet and organization to a block (\<open>after_vault_applied\<close>,
  \<open>after_wallet_applied\<close>, \<open>after_org_applied\<close> and their like, code of components that are not modelled) and whether a
  write reached the disk; \<open>surround\<close> bundles them with \<open>extern\<close>. The theorems on runs ask
  of the hooks that they leave the chain, its projection and the bases alone (\<open>hooks_ok\<close>).

  \<^bold>\<open>Loops and bounds.\<close> Loops over lists are structural recursion. The depth-first search is a
  \<open>function\<close> with a termination measure: unvisited tasks, then links left on the stack.
  Where the source bounds a loop the model takes the same bound: three turns of the weekly
  search (two are proved enough), 4800 months of the monthly one, and the turns \<open>expand\<close>
  counts down. The loop of \<open>dependents_first\<close> has one more unit of fuel than there are tasks;
  it is proved to end within it on every board.
  \<open>split_whitespace\<close> takes the length of its input as fuel, which is enough since every turn
  consumes a character. Binary search halves its interval. Additions the source checks or
  that would panic are written out (\<open>checked_add\<close>, \<open>Panic\<close>); saturating ones saturate.
  An adopted block may seal and adopt the next. \<open>adopt_committed\<close> bounds that depth; every level has
  a higher head, so a bound that covers the heights left is proved never to be reached. The loops
  that drain a buffer, collect a run or follow links of candidates run on the length of
  the map they read: each turn takes another height of it.

  \<^bold>\<open>Not modelled.\<close> The command handlers behind the user interface, founding, sessions and the
  recovery rituals drive the code above over network and disk; of the node, what touches neither the chain
  nor its votes is left out (events for the front ends, chat, files, display stamps of own
  seals, the re-key of a restored seat's group). The network, storage, treasury and user interface
  crates are I/O around third-party protocols. Sealing, sharing and opening of vault secrets
  rest on curve and encryption code outside the sources; only the checks around them are
  modelled. Wake-ups, reviews and rendered views of the board, search and pages of the wiki read the
  folded state and do not change it. The runs of a node leave out contending cuts and
  proposals of the vault surface.
\<close>

end
